(* ===== verification/RK_Prelude.thy ===== *)
theory RK_Prelude
  imports Main "HOL-Library.Word"
begin

text \<open>
  Shared ground of the development: the fixed-width integer types of
  \<open>include/rk/types.h\<close>, the kernel's error codes (\<open>include/rk/errno.h\<close> and
  \<open>kernel/lib/errno.c\<close>), the result type every fallible operation returns, little-endian
  byte serialisation, the alignment macros of \<open>include/rk/compiler.h\<close>, and the generic
  lemmas on lists and words that the component theories share.
\<close>

unbundle bit_operations_syntax

named_theorems rk_defs \<open>definitions of operations that a component unfolds together\<close>
named_theorems rk_frame \<open>facts that an operation leaves a part of the state alone\<close>

section \<open>Machine integers\<close>

type_synonym u8 = "8 word"
type_synonym u16 = "16 word"
type_synonym u32 = "32 word"
type_synonym u64 = "64 word"

text \<open>
  A signed 64-bit value is an \<open>int\<close>; \<open>s64_wrap\<close> is the value a two's complement
  machine keeps of an integer, and the cast \<open>(s64)x\<close> of an unsigned value.
\<close>

definition s64_wrap :: "int \<Rightarrow> int" where
  "s64_wrap x = signed_take_bit 63 x"

definition s64_of :: "u64 \<Rightarrow> int" where
  "s64_of x = sint x"

definition u64_of :: "int \<Rightarrow> u64" where
  "u64_of x = word_of_int x"

lemma s64_of_small: "uint x < 2 ^ 63 \<Longrightarrow> s64_of x = uint x"
  unfolding s64_of_def sint_uint
  by (rule signed_take_bit_int_eq_self) (auto intro: order_trans [OF _ uint_ge_0])

lemma s64_wrap_small [simp]: "- (2 ^ 63) \<le> x \<Longrightarrow> x < 2 ^ 63 \<Longrightarrow> s64_wrap x = x"
  unfolding s64_wrap_def by (simp add: signed_take_bit_int_eq_self)

text \<open>\<open>/\<close> and \<open>%\<close> on signed integers truncate towards zero.\<close>

definition c_div :: "int \<Rightarrow> int \<Rightarrow> int" where
  "c_div a b = sgn a * sgn b * (\<bar>a\<bar> div \<bar>b\<bar>)"

definition c_mod :: "int \<Rightarrow> int \<Rightarrow> int" where
  "c_mod a b = a - b * c_div a b"

lemma c_div_nonneg: "0 \<le> a \<Longrightarrow> 0 < b \<Longrightarrow> c_div a b = a div b"
  by (cases "a = 0") (auto simp: c_div_def sgn_if)

lemma c_mod_nonneg: "0 \<le> a \<Longrightarrow> 0 < b \<Longrightarrow> c_mod a b = a mod b"
  by (simp add: c_mod_def c_div_nonneg minus_mult_div_eq_mod)

lemma c_mod_neg:
  assumes "a < 0" "0 < b"
  shows "c_mod a b = - ((- a) mod b)"
proof -
  have "c_div a b = - ((- a) div b)"
    using assms by (simp add: c_div_def sgn_if)
  then show ?thesis
    using minus_mult_div_eq_mod [of "- a" b] by (simp add: c_mod_def)
qed

lemma c_mod_cong: "0 < b \<Longrightarrow> (c_mod a b) mod b = a mod b"
  by (cases "0 \<le> a") (auto simp: c_mod_nonneg c_mod_neg mod_minus_eq)

lemma c_mod_bounds: "0 < b \<Longrightarrow> - b < c_mod a b \<and> c_mod a b < b"
  using pos_mod_bound [of b a] pos_mod_sign [of b a]
    pos_mod_bound [of b "- a"] pos_mod_sign [of b "- a"]
  by (cases "0 \<le> a") (auto simp: c_mod_nonneg c_mod_neg simp del: pos_mod_bound pos_mod_sign)

text \<open>The reduction idiom \<open>v %= m; if (v < 0) v += m\<close> is the floor modulus.\<close>

lemma c_mod_fix: "0 < b \<Longrightarrow> (if c_mod a b < 0 then c_mod a b + b else c_mod a b) = a mod b"
proof -
  assume b: "0 < b"
  let ?v = "if c_mod a b < 0 then c_mod a b + b else c_mod a b"
  have "?v mod b = a mod b" using c_mod_cong [OF b, of a] by simp
  moreover have "0 \<le> ?v" "?v < b" using c_mod_bounds [OF b, of a] by auto
  ultimately show "?v = a mod b" by simp
qed

section \<open>Error codes\<close>

text \<open>One constructor per \<open>RK_E*\<close> macro; success is \<open>Inr\<close> of a result.\<close>

datatype rk_err =
    EPERM | ENOENT | EINTR | EIO | ENXIO | E2BIG | EBADF | EAGAIN | ENOMEM | EACCES
  | EFAULT | EBUSY | EEXIST | ENODEV | ENOTDIR | EISDIR | EINVAL | ENFILE | ENOSPC
  | ERANGE | ENOSYS | ENOTEMPTY | ETIMEDOUT | EOVERFLOW | EEXPIRED | EREPLAY | ESEAL
  | EDETERM | ENOTSUP | EPIPE | ECANCELED | EDEADLK | ENOEXEC

type_synonym 'a result = "rk_err + 'a"

fun errno :: "rk_err \<Rightarrow> int" where
  "errno EPERM = -1" | "errno ENOENT = -2" | "errno EINTR = -3" | "errno EIO = -4"
| "errno ENXIO = -5" | "errno E2BIG = -6" | "errno EBADF = -7" | "errno EAGAIN = -8"
| "errno ENOMEM = -9" | "errno EACCES = -10" | "errno EFAULT = -11" | "errno EBUSY = -12"
| "errno EEXIST = -13" | "errno ENODEV = -14" | "errno ENOTDIR = -15" | "errno EISDIR = -16"
| "errno EINVAL = -17" | "errno ENFILE = -18" | "errno ENOSPC = -19" | "errno ERANGE = -20"
| "errno ENOSYS = -21" | "errno ENOTEMPTY = -22" | "errno ETIMEDOUT = -23"
| "errno EOVERFLOW = -24" | "errno EEXPIRED = -25" | "errno EREPLAY = -26"
| "errno ESEAL = -27" | "errno EDETERM = -28" | "errno ENOTSUP = -29" | "errno EPIPE = -30"
| "errno ECANCELED = -31" | "errno EDEADLK = -32" | "errno ENOEXEC = -33"

definition error_names :: "string list" where
  "error_names =
    [''success'', ''operation not permitted'', ''no such object'', ''interrupted'',
     ''I/O error'', ''no such device or address'', ''argument list too long'',
     ''bad capability handle'', ''try again'', ''out of memory'', ''permission denied'',
     ''bad address'', ''resource busy'', ''already exists'', ''no such device'',
     ''not a directory'', ''is a directory'', ''invalid argument'', ''table overflow'',
     ''no space left'', ''out of range'', ''not implemented'', ''directory not empty'',
     ''timed out'', ''value too large'', ''capability seal expired'', ''replay detected'',
     ''seal verification failed'', ''determinism violation'', ''unsupported operation'',
     ''broken channel'', ''canceled'', ''deadlock would occur'',
     ''not a loadable program image'']"

definition rk_strerror :: "int \<Rightarrow> string" where
  "rk_strerror err =
     (let i = nat (if err \<le> 0 then - err else err)
      in if length error_names \<le> i then ''unknown error'' else error_names ! i)"

lemma errno_negative: "errno e < 0"
  by (cases e) simp_all

lemma errno_inj: "errno e = errno e' \<Longrightarrow> e = e'"
  by (cases e; cases e') simp_all

lemma length_error_names: "length error_names = 34"
  by (simp add: error_names_def)

section \<open>Bytes and alignment\<close>

text \<open>Every supported machine is little-endian: the bytes of an integer, low byte first.\<close>

definition le_bytes :: "nat \<Rightarrow> 'a::len word \<Rightarrow> u8 list" where
  "le_bytes n w = map (\<lambda>i. ucast (drop_bit (8 * i) w)) [0..<n]"

definition le_word :: "u8 list \<Rightarrow> 'a::len word" where
  "le_word bs = foldr (\<lambda>b w. ucast b OR push_bit 8 w) bs 0"

lemma length_le_bytes [simp]: "length (le_bytes n w) = n"
  by (simp add: le_bytes_def)

definition bytes_of_string :: "string \<Rightarrow> u8 list" where
  "bytes_of_string s = map (\<lambda>c. word_of_nat (of_char c)) s"

lemma length_bytes_of_string [simp]: "length (bytes_of_string s) = length s"
  by (simp add: bytes_of_string_def)

text \<open>\<open>strlcpy\<close> into a zeroed buffer of \<open>n\<close> bytes: the string cut to \<open>n - 1\<close> bytes,
  then zeros.\<close>

definition strlcpy0 :: "nat \<Rightarrow> u8 list \<Rightarrow> u8 list" where
  "strlcpy0 n s = take (n - 1) s @ replicate (n - length (take (n - 1) s)) 0"

lemma length_strlcpy0 [simp]: "0 < n \<Longrightarrow> length (strlcpy0 n s) = n"
  by (simp add: strlcpy0_def)

definition align_up :: "nat \<Rightarrow> nat \<Rightarrow> nat" where
  "align_up x a = (x + (a - 1)) div a * a"

definition align_down :: "nat \<Rightarrow> nat \<Rightarrow> nat" where
  "align_down x a = x div a * a"

lemma align_down_le: "align_down x a \<le> x"
  by (simp add: align_down_def)

lemma align_up_ge: "0 < a \<Longrightarrow> x \<le> align_up x a"
  unfolding align_up_def
  using div_mult_mod_eq [of "x + (a - 1)" a] mod_less_divisor [of a "x + (a - 1)"]
  by linarith

section \<open>Generic list lemmas\<close>

lemma list_all_update: "list_all P xs \<Longrightarrow> P y \<Longrightarrow> list_all P (xs[i := y])"
  by (induction xs arbitrary: i) (auto split: nat.splits)

lemma length_filter_update:
  assumes "i < length xs"
  shows "length (filter P (xs[i := y])) + (if P (xs ! i) then 1 else 0)
       = length (filter P xs) + (if P y then 1 else 0)"
  using assms
proof (induction xs arbitrary: i)
  case (Cons x xs)
  show ?case
  proof (cases i)
    case (Suc j)
    then have "length (filter P (xs[j := y])) + (if P (xs ! j) then 1 else 0)
      = length (filter P xs) + (if P y then 1 else 0)"
      using Cons.prems by (intro Cons.IH) simp
    then show ?thesis using Suc by auto
  qed simp
qed simp

end
