(* ===== verification/RK_Hash.thy ===== *)
theory RK_Hash
  imports RK_Prelude
begin

text \<open>
  \<open>kernel/crypto/sha256.c\<close>: SHA-256 as a streaming context, HMAC-SHA256 and HKDF over it.
  The operations are translated with the context's buffer as it is in memory (64 bytes, of
  which \<open>sc_buflen\<close> are pending); the specification \<open>sha256_spec\<close> is the padded
  message of FIPS 180-4 hashed block by block. Temporaries that the source wipes
  (\<open>rk_secure_zero\<close>) have no model beyond the context's own buffer.
\<close>

section \<open>The compression function\<close>

definition sha_K :: "u32 list" where
  "sha_K = concat [
   [0x428a2f98, 0x71374491, 0xb5c0fbcf, 0xe9b5dba5],
   [0x3956c25b, 0x59f111f1, 0x923f82a4, 0xab1c5ed5],
   [0xd807aa98, 0x12835b01, 0x243185be, 0x550c7dc3],
   [0x72be5d74, 0x80deb1fe, 0x9bdc06a7, 0xc19bf174],
   [0xe49b69c1, 0xefbe4786, 0x0fc19dc6, 0x240ca1cc],
   [0x2de92c6f, 0x4a7484aa, 0x5cb0a9dc, 0x76f988da],
   [0x983e5152, 0xa831c66d, 0xb00327c8, 0xbf597fc7],
   [0xc6e00bf3, 0xd5a79147, 0x06ca6351, 0x14292967],
   [0x27b70a85, 0x2e1b2138, 0x4d2c6dfc, 0x53380d13],
   [0x650a7354, 0x766a0abb, 0x81c2c92e, 0x92722c85],
   [0xa2bfe8a1, 0xa81a664b, 0xc24b8b70, 0xc76c51a3],
   [0xd192e819, 0xd6990624, 0xf40e3585, 0x106aa070],
   [0x19a4c116, 0x1e376c08, 0x2748774c, 0x34b0bcb5],
   [0x391c0cb3, 0x4ed8aa4a, 0x5b9cca4f, 0x682e6ff3],
   [0x748f82ee, 0x78a5636f, 0x84c87814, 0x8cc70208],
   [0x90befffa, 0xa4506ceb, 0xbef9a3f7, 0xc67178f2]]"

definition ror32 :: "u32 \<Rightarrow> nat \<Rightarrow> u32" where
  "ror32 x n = drop_bit n x OR push_bit (32 - n) x"

definition sha_CH :: "u32 \<Rightarrow> u32 \<Rightarrow> u32 \<Rightarrow> u32" where
  "sha_CH x y z = (x AND y) XOR (NOT x AND z)"

definition sha_MAJ :: "u32 \<Rightarrow> u32 \<Rightarrow> u32 \<Rightarrow> u32" where
  "sha_MAJ x y z = (x AND y) XOR (x AND z) XOR (y AND z)"

definition sha_S0 :: "u32 \<Rightarrow> u32" where
  "sha_S0 x = ror32 x 2 XOR ror32 x 13 XOR ror32 x 22"

definition sha_S1 :: "u32 \<Rightarrow> u32" where
  "sha_S1 x = ror32 x 6 XOR ror32 x 11 XOR ror32 x 25"

definition sha_s0 :: "u32 \<Rightarrow> u32" where
  "sha_s0 x = ror32 x 7 XOR ror32 x 18 XOR drop_bit 3 x"

definition sha_s1 :: "u32 \<Rightarrow> u32" where
  "sha_s1 x = ror32 x 17 XOR ror32 x 19 XOR drop_bit 10 x"

definition be_word32 :: "u8 list \<Rightarrow> nat \<Rightarrow> u32" where
  "be_word32 p i =
     push_bit 24 (ucast (p ! (i * 4))) OR push_bit 16 (ucast (p ! (i * 4 + 1))) OR
     push_bit 8 (ucast (p ! (i * 4 + 2))) OR ucast (p ! (i * 4 + 3))"

definition sha_schedule :: "u8 list \<Rightarrow> u32 list" where
  "sha_schedule p =
     fold (\<lambda>i w. w @ [sha_s1 (w ! (i - 2)) + w ! (i - 7) + sha_s0 (w ! (i - 15)) + w ! (i - 16)])
       [16..<64] (map (be_word32 p) [0..<16])"

text \<open>One of the 64 rounds over the working variables \<open>a b cc d e f g h\<close>.\<close>

fun sha_round :: "u32 \<times> u32 \<Rightarrow> u32 list \<Rightarrow> u32 list" where
  "sha_round (k, wi) [a, b, cc, d, e, f, g, h] =
     (let t1 = h + sha_S1 e + sha_CH e f g + k + wi;
          t2 = sha_S0 a + sha_MAJ a b cc
      in [t1 + t2, a, b, cc, d + t1, e, f, g])"
| "sha_round _ v = v"

text \<open>\<open>sha256_block\<close> on the chaining value: rounds, then the feed-forward addition.\<close>

definition sha256_block :: "u32 list \<Rightarrow> u8 list \<Rightarrow> u32 list" where
  "sha256_block st p = map2 (+) st (fold sha_round (zip sha_K (sha_schedule p)) st)"

section \<open>The streaming context\<close>

record sha256_ctx =
  sc_state :: "u32 list"
  sc_bitlen :: u64
  sc_buf :: "u8 list"
  sc_buflen :: nat

definition sha_iv :: "u32 list" where
  "sha_iv = [0x6a09e667, 0xbb67ae85, 0x3c6ef372, 0xa54ff53a,
             0x510e527f, 0x9b05688c, 0x1f83d9ab, 0x5be0cd19]"

text \<open>\<open>buf\<close> is whatever memory held: \<open>sha256_init\<close> leaves it.\<close>

definition sha256_init :: "sha256_ctx \<Rightarrow> sha256_ctx" where
  "sha256_init c = c\<lparr>sc_state := sha_iv, sc_bitlen := 0, sc_buflen := 0\<rparr>"

definition memcpy_at :: "'a list \<Rightarrow> nat \<Rightarrow> 'a list \<Rightarrow> 'a list" where
  "memcpy_at buf off src = take off buf @ src @ drop (off + length src) buf"

text \<open>The loop over whole blocks; what is left is shorter than a block.\<close>

function sha_blocks :: "u32 list \<Rightarrow> u8 list \<Rightarrow> u32 list \<times> u8 list" where
  "sha_blocks st p =
     (if 64 \<le> length p then sha_blocks (sha256_block st (take 64 p)) (drop 64 p) else (st, p))"
  by pat_completeness auto
termination
  by (relation "measure (\<lambda>(st, p). length p)") auto

declare sha_blocks.simps [simp del]

text \<open>The first half of \<open>sha256_update\<close> tops up a partly filled buffer and yields the
  data that remains; the second half hashes whole blocks and keeps the tail.\<close>

definition sha_fill :: "sha256_ctx \<Rightarrow> u8 list \<Rightarrow> sha256_ctx \<times> u8 list" where
  "sha_fill c data =
     (if sc_buflen c \<noteq> 0 then
        let need = 64 - sc_buflen c;
            tak = (if length data < need then length data else need);
            c = c\<lparr>sc_buf := memcpy_at (sc_buf c) (sc_buflen c) (take tak data),
                  sc_buflen := sc_buflen c + tak\<rparr>
        in (if sc_buflen c = 64
            then c\<lparr>sc_state := sha256_block (sc_state c) (sc_buf c), sc_buflen := 0\<rparr>
            else c, drop tak data)
      else (c, data))"

definition sha_whole :: "sha256_ctx \<Rightarrow> u8 list \<Rightarrow> sha256_ctx" where
  "sha_whole c p =
     (case sha_blocks (sc_state c) p of (st, rest) \<Rightarrow>
       let c = c\<lparr>sc_state := st\<rparr>
       in if rest \<noteq> [] then c\<lparr>sc_buf := memcpy_at (sc_buf c) 0 rest, sc_buflen := length rest\<rparr>
          else c)"

definition sha256_update :: "sha256_ctx \<Rightarrow> u8 list \<Rightarrow> sha256_ctx" where
  "sha256_update c data =
     (let c = c\<lparr>sc_bitlen := sc_bitlen c + of_nat (length data) * 8\<rparr>
      in case sha_fill c data of (c, p) \<Rightarrow> sha_whole c p)"

text \<open>The padding loop of \<open>sha256_final\<close>: zero bytes until 56 are pending. The loop stops
  within 64 passes; \<open>pad_loop_spec\<close> shows the fuel given is enough.\<close>

fun pad_loop :: "nat \<Rightarrow> u64 \<Rightarrow> sha256_ctx \<Rightarrow> sha256_ctx" where
  "pad_loop 0 bits c = c"
| "pad_loop (Suc fuel) bits c =
     (if sc_buflen c \<noteq> 56
      then pad_loop fuel bits ((sha256_update c [0])\<lparr>sc_bitlen := bits\<rparr>) else c)"

definition be_bytes64 :: "u64 \<Rightarrow> u8 list" where
  "be_bytes64 w = map (\<lambda>i. ucast (drop_bit (56 - i * 8) w)) [0..<8]"

definition be_bytes32 :: "u32 \<Rightarrow> u8 list" where
  "be_bytes32 w = [ucast (drop_bit 24 w), ucast (drop_bit 16 w), ucast (drop_bit 8 w), ucast w]"

definition sha256_final :: "sha256_ctx \<Rightarrow> u8 list \<times> sha256_ctx" where
  "sha256_final c =
     (let bits = sc_bitlen c;
          c = (sha256_update c [0x80])\<lparr>sc_bitlen := bits\<rparr>;
          c = pad_loop 64 bits c;
          c = sha256_update c (be_bytes64 bits)
      in (concat (map be_bytes32 (sc_state c)), c\<lparr>sc_buf := replicate 64 0\<rparr>))"

definition blank_ctx :: sha256_ctx where
  "blank_ctx = \<lparr>sc_state = [], sc_bitlen = 0, sc_buf = replicate 64 0, sc_buflen = 0\<rparr>"

definition sha256 :: "u8 list \<Rightarrow> u8 list" where
  "sha256 data = fst (sha256_final (sha256_update (sha256_init blank_ctx) data))"

section \<open>What a context stands for\<close>

text \<open>The chaining value, the bit count and the pending bytes.\<close>

definition sha_ok :: "sha256_ctx \<Rightarrow> bool" where
  "sha_ok c \<longleftrightarrow> length (sc_buf c) = 64 \<and> sc_buflen c < 64"

definition sha_pending :: "sha256_ctx \<Rightarrow> u8 list" where
  "sha_pending c = take (sc_buflen c) (sc_buf c)"

lemma length_sha_pending: "sha_ok c \<Longrightarrow> length (sha_pending c) = sc_buflen c"
  by (simp add: sha_ok_def sha_pending_def)

lemma length_memcpy_at: "off + length src \<le> length buf \<Longrightarrow> length (memcpy_at buf off src) = length buf"
  by (simp add: memcpy_at_def)

lemma take_memcpy_at:
  "off + length src \<le> length buf \<Longrightarrow> take (off + length src) (memcpy_at buf off src) = take off buf @ src"
  by (simp add: memcpy_at_def)

lemma sha_blocks_short: "length p < 64 \<Longrightarrow> sha_blocks st p = (st, p)"
  by (simp add: sha_blocks.simps)

lemma sha_blocks_long:
  "64 \<le> length p \<Longrightarrow> sha_blocks st p = sha_blocks (sha256_block st (take 64 p)) (drop 64 p)"
  by (simp add: sha_blocks.simps [of st p])

lemma sha_blocks_rest: "length (snd (sha_blocks st p)) < 64"
  by (induction st p rule: sha_blocks.induct) (metis linorder_not_less sha_blocks_long sha_blocks_short snd_conv)

lemma sha_blocks_append:
  "sha_blocks st (a @ b) = (case sha_blocks st a of (st', r) \<Rightarrow> sha_blocks st' (r @ b))"
proof (induction st a rule: sha_blocks.induct)
  case (1 st a)
  show ?case
  proof (cases "64 \<le> length a")
    case True
    then show ?thesis using 1 by (simp add: sha_blocks_long [of a] sha_blocks_long [of "a @ b"])
  next
    case False
    then show ?thesis by (simp add: sha_blocks_short)
  qed
qed

lemma sha_blocks_block: "length p = 64 \<Longrightarrow> sha_blocks st p = (sha256_block st p, [])"
  by (simp add: sha_blocks_long sha_blocks_short)

lemma sha_fill_spec:
  assumes ok: "sha_ok c" and f: "sha_fill c d = (c', p)"
  shows "sha_ok c' \<and> (p \<noteq> [] \<longrightarrow> sc_buflen c' = 0) \<and> sc_bitlen c' = sc_bitlen c \<and>
    sha_blocks (sc_state c) (sha_pending c @ d) = sha_blocks (sc_state c') (sha_pending c' @ p)"
proof (cases "sc_buflen c = 0")
  case True
  then show ?thesis using ok f by (auto simp: sha_fill_def)
next
  case False
  define need tak where "need = 64 - sc_buflen c" and "tak = min (length d) need"
  define buf where "buf = memcpy_at (sc_buf c) (sc_buflen c) (take tak d)"
  have l: "length (sc_buf c) = 64" "sc_buflen c < 64" using ok by (auto simp: sha_ok_def)
  have tk: "length (take tak d) = tak" "sc_buflen c + tak \<le> 64"
    using l by (auto simp: tak_def need_def)
  have lb: "length buf = 64"
    using length_memcpy_at [of "sc_buflen c" "take tak d" "sc_buf c"] l tk by (simp add: buf_def)
  have pb: "take (sc_buflen c + tak) buf = sha_pending c @ take tak d"
    using take_memcpy_at [of "sc_buflen c" "take tak d" "sc_buf c"] l tk
    by (simp add: buf_def sha_pending_def)
  have f': "(if sc_buflen c + tak = 64
      then (c\<lparr>sc_buf := buf, sc_buflen := 0, sc_state := sha256_block (sc_state c) buf\<rparr>, drop tak d)
      else (c\<lparr>sc_buf := buf, sc_buflen := sc_buflen c + tak\<rparr>, drop tak d)) = (c', p)"
    using f False by (auto simp: sha_fill_def Let_def tak_def need_def min_def buf_def not_less
      split: if_splits)
  show ?thesis
  proof (cases "sc_buflen c + tak = 64")
    case True
    have "buf = sha_pending c @ take tak d" using pb True lb by simp
    then have e: "sha_pending c @ d = buf @ drop tak d"
      by (simp only: append_assoc append_take_drop_id)
    have c': "c' = c\<lparr>sc_buf := buf, sc_buflen := 0, sc_state := sha256_block (sc_state c) buf\<rparr>"
      "p = drop tak d" using f' True by (metis Pair_inject)+
    have "sha_pending c' = []" by (simp add: c' sha_pending_def)
    then show ?thesis using sha_blocks_append [of "sc_state c" buf "drop tak d"] lb unfolding e
      by (simp add: c' sha_ok_def sha_blocks_block)
  next
    case False
    then have "tak = length d" using l by (auto simp: tak_def need_def)
    then show ?thesis using f' False lb pb tk l by (auto simp: sha_ok_def sha_pending_def)
  qed
qed

lemma sha_whole_spec:
  assumes ok: "sha_ok c" and p: "p \<noteq> [] \<longrightarrow> sc_buflen c = 0"
  shows "sha_ok (sha_whole c p) \<and> sc_bitlen (sha_whole c p) = sc_bitlen c \<and>
    (sc_state (sha_whole c p), sha_pending (sha_whole c p))
      = sha_blocks (sc_state c) (sha_pending c @ p)"
proof (cases "p = []")
  case True
  have "length (sha_pending c) < 64" using ok length_sha_pending [OF ok] by (simp add: sha_ok_def)
  then show ?thesis using True ok by (simp add: sha_whole_def sha_blocks_short sha_pending_def)
next
  case False
  obtain st rest where b: "sha_blocks (sc_state c) p = (st, rest)"
    by (cases "sha_blocks (sc_state c) p")
  have r: "length rest < 64" using sha_blocks_rest [of "sc_state c" p] b by simp
  have l: "length (sc_buf c) = 64" using ok by (simp add: sha_ok_def)
  show ?thesis
    using False p b r l take_memcpy_at [of 0 rest "sc_buf c"] length_memcpy_at [of 0 rest "sc_buf c"]
    by (auto simp: sha_whole_def sha_ok_def sha_pending_def Let_def)
qed

text \<open>The one law of \<open>sha256_update\<close>: it absorbs the pending bytes and the new ones.\<close>

lemma sha256_update_spec:
  assumes "sha_ok c"
  shows "sha_ok (sha256_update c d)"
    and "(sc_state (sha256_update c d), sha_pending (sha256_update c d))
      = sha_blocks (sc_state c) (sha_pending c @ d)"
    and "sc_bitlen (sha256_update c d) = sc_bitlen c + of_nat (length d) * 8"
proof -
  let ?c = "c\<lparr>sc_bitlen := sc_bitlen c + of_nat (length d) * 8\<rparr>"
  obtain c' p where f: "sha_fill ?c d = (c', p)" by (cases "sha_fill ?c d")
  have ok: "sha_ok ?c" using assms by (simp add: sha_ok_def)
  note F = sha_fill_spec [OF ok f]
  note W = sha_whole_spec [of c' p]
  have u: "sha256_update c d = sha_whole c' p" by (simp add: sha256_update_def f)
  have pend: "sha_pending ?c = sha_pending c" by (simp add: sha_pending_def)
  show "sha_ok (sha256_update c d)"
    "sc_bitlen (sha256_update c d) = sc_bitlen c + of_nat (length d) * 8"
    "(sc_state (sha256_update c d), sha_pending (sha256_update c d))
      = sha_blocks (sc_state c) (sha_pending c @ d)"
    using F W u pend by auto
qed

lemma sha256_update_state:
  assumes "sha_ok c" "sha_blocks (sc_state c) (sha_pending c @ d) = (st, r)"
  shows "sc_state (sha256_update c d) = st" "sha_pending (sha256_update c d) = r"
    "sc_buflen (sha256_update c d) = length r"
  using sha256_update_spec [OF assms(1), of d] assms(2)
    length_sha_pending [of "sha256_update c d"] by auto

section \<open>The digest is SHA-256 of the padded message\<close>

text \<open>FIPS 180-4: a one bit, zeros up to 56 bytes modulo 64, the bit length big-endian.\<close>

definition sha_padding :: "nat \<Rightarrow> u8 list" where
  "sha_padding n = 0x80 # replicate ((119 - n mod 64) mod 64) 0 @ be_bytes64 (of_nat n * 8)"

definition sha256_spec :: "u8 list \<Rightarrow> u8 list" where
  "sha256_spec msg =
     concat (map be_bytes32 (fst (sha_blocks sha_iv (msg @ sha_padding (length msg)))))"

lemma pad_count: "x < 64 \<Longrightarrow> (120 - x) mod 64 = (if x \<le> 56 then 56 - x else 120 - (x::nat))"
proof (cases "x \<le> 56")
  case True
  then have "120 - x = 64 + (56 - x)" by simp
  then show ?thesis using True by (metis mod_add_self1 mod_less diff_le_self le_less_trans
    less_numeral_extra(3) numeral_less_iff semiring_norm(76,78,79,80,81))
qed simp

lemma pad_loop_spec:
  assumes "sha_ok c" "(120 - sc_buflen c) mod 64 \<le> fuel" "fuel \<le> 64"
  shows "sha_ok (pad_loop fuel bits c) \<and> sc_buflen (pad_loop fuel bits c) = 56 \<and>
    (sc_state (pad_loop fuel bits c), sha_pending (pad_loop fuel bits c))
      = sha_blocks (sc_state c) (sha_pending c @ replicate ((120 - sc_buflen c) mod 64) 0)"
  using assms
proof (induction fuel arbitrary: c)
  case 0
  have "sc_buflen c < 64" using 0 by (simp add: sha_ok_def)
  then have "sc_buflen c = 56" using 0(2) by (simp add: pad_count split: if_splits)
  then show ?case using 0 length_sha_pending [of c] by (simp add: sha_blocks_short)
next
  case (Suc fuel)
  have l: "sc_buflen c < 64" using Suc by (simp add: sha_ok_def)
  show ?case
  proof (cases "sc_buflen c = 56")
    case True
    then show ?thesis using Suc length_sha_pending [of c] by (simp add: sha_blocks_short)
  next
    case False
    define n where "n = (120 - sc_buflen c) mod 64"
    define c' where "c' = (sha256_update c [0])\<lparr>sc_bitlen := bits\<rparr>"
    obtain st r where b: "sha_blocks (sc_state c) (sha_pending c @ [0]) = (st, r)"
      by (cases "sha_blocks (sc_state c) (sha_pending c @ [0])")
    have c': "sha_ok c'" "sc_state c' = st" "sha_pending c' = r" "sc_buflen c' = length r"
      using sha256_update_state [OF Suc.prems(1) b] sha256_update_spec(1) [OF Suc.prems(1), of "[0]"]
      by (simp_all add: c'_def sha_ok_def sha_pending_def)
    have len: "length (sha_pending c @ [0]) = Suc (sc_buflen c)"
      using length_sha_pending [OF Suc.prems(1)] by simp
    have r: "length r = (if sc_buflen c = 63 then 0 else Suc (sc_buflen c))"
    proof (cases "sc_buflen c = 63")
      case True
      then have "length (sha_pending c @ [0]) = 64" using len by simp
      from sha_blocks_block [OF this] have "r = []" using b by simp
      then show ?thesis using True by simp
    next
      case F: False
      then have "r = sha_pending c @ [0]" using b len l by (simp add: sha_blocks_short)
      then show ?thesis using F len by simp
    qed
    have n': "n = Suc ((120 - length r) mod 64)"
    proof (cases "sc_buflen c = 63")
      case True
      then show ?thesis using r by (simp add: n_def pad_count)
    next
      case F: False
      have "Suc (sc_buflen c) < 64" using l F by simp
      then show ?thesis using r F False l pad_count [of "Suc (sc_buflen c)"]
        by (auto simp: n_def pad_count)
    qed
    have IH: "sha_ok (pad_loop fuel bits c') \<and> sc_buflen (pad_loop fuel bits c') = 56 \<and>
        (sc_state (pad_loop fuel bits c'), sha_pending (pad_loop fuel bits c'))
          = sha_blocks (sc_state c') (sha_pending c' @ replicate ((120 - sc_buflen c') mod 64) 0)"
      using Suc.IH [OF c'(1)] Suc.prems n' c'(4) by (simp add: n_def)
    have "sha_blocks (sc_state c) (sha_pending c @ replicate n 0) =
        sha_blocks st (r @ replicate ((120 - length r) mod 64) 0)"
      using sha_blocks_append [of "sc_state c" "sha_pending c @ [0]"] b n' by simp
    then show ?thesis using IH False c' by (simp add: c'_def [symmetric] n_def [symmetric])
  qed
qed

lemma sha256_init_ok:
  "length (sc_buf c) = 64 \<Longrightarrow> sha_ok (sha256_init c)"
  "sha_pending (sha256_init c) = []" "sc_state (sha256_init c) = sha_iv"
  "sc_bitlen (sha256_init c) = 0"
  by (simp_all add: sha256_init_def sha_ok_def sha_pending_def)

text \<open>\<open>sha256_final\<close> after any updates: the digest depends only on what was absorbed.\<close>

definition sha_absorbed :: "sha256_ctx \<Rightarrow> u8 list \<Rightarrow> bool" where
  "sha_absorbed c msg \<longleftrightarrow> sha_ok c \<and> sc_bitlen c = of_nat (length msg) * 8 \<and>
     (sc_state c, sha_pending c) = sha_blocks sha_iv msg"

lemma sha_absorbed_init: "length (sc_buf c) = 64 \<Longrightarrow> sha_absorbed (sha256_init c) []"
  by (simp add: sha_absorbed_def sha256_init_ok sha_blocks_short)

lemma sha_absorbed_update:
  assumes "sha_absorbed c msg"
  shows "sha_absorbed (sha256_update c d) (msg @ d)"
proof -
  have ok: "sha_ok c" and st: "(sc_state c, sha_pending c) = sha_blocks sha_iv msg"
    using assms by (auto simp: sha_absorbed_def)
  have "sha_blocks sha_iv (msg @ d) = sha_blocks (sc_state c) (sha_pending c @ d)"
    using sha_blocks_append [of sha_iv msg d] st [symmetric] by simp
  then show ?thesis
    using sha256_update_spec [OF ok, of d] assms
    by (simp add: sha_absorbed_def distrib_right)
qed

lemma sha_blocks_length: "length (snd (sha_blocks st p)) = length p mod 64"
proof (induction st p rule: sha_blocks.induct)
  case (1 st p)
  show ?case
  proof (cases "64 \<le> length p")
    case True
    then have "length (snd (sha_blocks st p)) = (length p - 64) mod 64"
      using 1 [OF True] sha_blocks_long [OF True] by simp
    then show ?thesis using True by (simp add: le_mod_geq)
  qed (simp add: sha_blocks_short)
qed

lemma sha256_final_digest:
  assumes "sha_absorbed c msg"
  shows "fst (sha256_final c) = sha256_spec msg"
proof -
  define bits c1 c2 c3 where "bits = sc_bitlen c"
    and "c1 = (sha256_update c [0x80])\<lparr>sc_bitlen := bits\<rparr>"
    and "c2 = pad_loop 64 bits c1" and "c3 = sha256_update c2 (be_bytes64 bits)"
  let ?z = "replicate ((119 - length msg mod 64) mod 64) (0 :: u8)"
  have A: "sha_absorbed (sha256_update c [0x80]) (msg @ [0x80])"
    using assms by (rule sha_absorbed_update)
  have ok1: "sha_ok c1" and st1: "(sc_state c1, sha_pending c1) = sha_blocks sha_iv (msg @ [0x80])"
    using A by (simp_all add: c1_def sha_absorbed_def sha_ok_def sha_pending_def)
  have l1: "sc_buflen c1 = (length msg + 1) mod 64"
    using sha_blocks_length [of sha_iv "msg @ [0x80]"] st1 [symmetric] length_sha_pending [OF ok1]
    by simp
  have z: "(120 - sc_buflen c1) mod 64 = (119 - length msg mod 64) mod 64"
  proof (cases "length msg mod 64 = 63")
    case False
    then have "(length msg + 1) mod 64 = Suc (length msg mod 64)"
      by (simp add: mod_Suc)
    then show ?thesis using l1 by simp
  qed (simp add: l1 mod_Suc)
  have P: "sha_ok c2" "sc_buflen c2 = 56"
      "(sc_state c2, sha_pending c2) = sha_blocks (sc_state c1) (sha_pending c1 @ ?z)"
    using pad_loop_spec [OF ok1, of 64 bits] z by (auto simp: c2_def)
  have st2: "(sc_state c2, sha_pending c2) = sha_blocks sha_iv (msg @ [0x80] @ ?z)"
    using P(3) sha_blocks_append [of sha_iv "msg @ [0x80]" ?z] st1 [symmetric] by simp
  have "sc_state c3 = fst (sha_blocks (sc_state c2) (sha_pending c2 @ be_bytes64 bits))"
    using sha256_update_spec(2) [OF P(1), of "be_bytes64 bits"] by (metis c3_def fst_conv)
  also have "\<dots> = fst (sha_blocks sha_iv ((msg @ [0x80] @ ?z) @ be_bytes64 bits))"
    using sha_blocks_append [of sha_iv "msg @ [0x80] @ ?z" "be_bytes64 bits"] st2 [symmetric] by simp
  also have "bits = of_nat (length msg) * 8" using assms by (simp add: bits_def sha_absorbed_def)
  finally have "sc_state c3 = fst (sha_blocks sha_iv (msg @ sha_padding (length msg)))"
    by (simp add: sha_padding_def)
  then show ?thesis
    by (simp add: sha256_final_def Let_def c1_def [symmetric] bits_def [symmetric]
      c2_def [symmetric] c3_def [symmetric] sha256_spec_def)
qed

lemma sha256_is_spec: "sha256 data = sha256_spec data"
  using sha256_final_digest [OF sha_absorbed_update [OF sha_absorbed_init, of blank_ctx data]]
  by (simp add: sha256_def blank_ctx_def)

section \<open>HMAC\<close>

record hmac_ctx =
  hm_inner :: sha256_ctx
  hm_outer :: sha256_ctx

definition hmac_key_block :: "u8 list \<Rightarrow> u8 list" where
  "hmac_key_block key =
     memcpy_at (replicate 64 0) 0 (if 64 < length key then sha256 key else key)"

definition hmac_sha256_init :: "u8 list \<Rightarrow> hmac_ctx" where
  "hmac_sha256_init key =
     (let k = hmac_key_block key
      in \<lparr>hm_inner = sha256_update (sha256_init blank_ctx) (map (\<lambda>b. b XOR 0x36) k),
          hm_outer = sha256_update (sha256_init blank_ctx) (map (\<lambda>b. b XOR 0x5c) k)\<rparr>)"

definition hmac_sha256_update :: "hmac_ctx \<Rightarrow> u8 list \<Rightarrow> hmac_ctx" where
  "hmac_sha256_update c data = c\<lparr>hm_inner := sha256_update (hm_inner c) data\<rparr>"

definition hmac_sha256_final :: "hmac_ctx \<Rightarrow> u8 list" where
  "hmac_sha256_final c =
     (let inner = fst (sha256_final (hm_inner c))
      in fst (sha256_final (sha256_update (hm_outer c) inner)))"

definition hmac_sha256 :: "u8 list \<Rightarrow> u8 list \<Rightarrow> u8 list" where
  "hmac_sha256 key data = hmac_sha256_final (hmac_sha256_update (hmac_sha256_init key) data)"

text \<open>RFC 2104: \<open>H((K xor opad) @ H((K xor ipad) @ m))\<close>.\<close>

definition hmac_spec :: "u8 list \<Rightarrow> u8 list \<Rightarrow> u8 list" where
  "hmac_spec key msg =
     sha256_spec (map (\<lambda>b. b XOR 0x5c) (hmac_key_block key) @
       sha256_spec (map (\<lambda>b. b XOR 0x36) (hmac_key_block key) @ msg))"

definition hmac_absorbed :: "hmac_ctx \<Rightarrow> u8 list \<Rightarrow> u8 list \<Rightarrow> bool" where
  "hmac_absorbed c key msg \<longleftrightarrow>
     sha_absorbed (hm_inner c) (map (\<lambda>b. b XOR 0x36) (hmac_key_block key) @ msg) \<and>
     sha_absorbed (hm_outer c) (map (\<lambda>b. b XOR 0x5c) (hmac_key_block key))"

lemma hmac_absorbed_init: "hmac_absorbed (hmac_sha256_init key) key []"
  using sha_absorbed_update [OF sha_absorbed_init, of blank_ctx]
  by (simp add: hmac_absorbed_def hmac_sha256_init_def Let_def blank_ctx_def)

lemma hmac_absorbed_update:
  "hmac_absorbed c key msg \<Longrightarrow> hmac_absorbed (hmac_sha256_update c d) key (msg @ d)"
  using sha_absorbed_update [of "hm_inner c" _ d]
  by (auto simp: hmac_absorbed_def hmac_sha256_update_def simp flip: append_assoc)

lemma hmac_final_spec:
  assumes "hmac_absorbed c key msg"
  shows "hmac_sha256_final c = hmac_spec key msg"
proof -
  have i: "fst (sha256_final (hm_inner c)) =
      sha256_spec (map (\<lambda>b. b XOR 0x36) (hmac_key_block key) @ msg)" (is "_ = ?i")
    using assms by (auto simp: hmac_absorbed_def intro: sha256_final_digest)
  have "fst (sha256_final (sha256_update (hm_outer c) ?i)) =
      sha256_spec (map (\<lambda>b. b XOR 0x5c) (hmac_key_block key) @ ?i)"
    using assms by (auto simp: hmac_absorbed_def intro!: sha256_final_digest sha_absorbed_update)
  then show ?thesis by (simp add: hmac_sha256_final_def Let_def hmac_spec_def i)
qed

text \<open>Eight words of state, 32 bytes of digest.\<close>

lemma sha_round_length: "length (sha_round kw v) = length v"
  by (induction kw v rule: sha_round.induct) (auto simp: Let_def)

lemma sha256_block_length: "length (sha256_block st p) = length st"
proof -
  have "length (fold sha_round kws st) = length st" for kws
    by (induction kws arbitrary: st) (auto simp: sha_round_length)
  then show ?thesis by (simp add: sha256_block_def)
qed

lemma sha_blocks_state_length: "length (fst (sha_blocks st p)) = length st"
proof (induction st p rule: sha_blocks.induct)
  case (1 st p)
  then show ?case
    by (cases "64 \<le> length p")
      (simp_all add: sha_blocks_long [of p] sha_blocks_short sha256_block_length)
qed

lemma length_sha256_spec: "length (sha256_spec m) = 32"
proof -
  have "length (concat (map be_bytes32 ws)) = 4 * length ws" for ws
    by (induction ws) (auto simp: be_bytes32_def)
  then show ?thesis by (simp add: sha256_spec_def sha_blocks_state_length sha_iv_def)
qed

lemma length_hmac_spec: "length (hmac_spec key msg) = 32"
  by (simp add: hmac_spec_def length_sha256_spec)

lemma hmac_sha256_is_spec: "hmac_sha256 key data = hmac_spec key data"
  using hmac_final_spec [OF hmac_absorbed_update [OF hmac_absorbed_init, of key data]]
  by (simp add: hmac_sha256_def)

section \<open>HKDF\<close>

text \<open>The expand loop: \<open>counter\<close> is a byte and wraps, as in the source.\<close>

function hkdf_expand :: "u8 list \<Rightarrow> u8 list \<Rightarrow> nat \<Rightarrow> u8 \<Rightarrow> u8 list \<Rightarrow> nat \<Rightarrow> u8 list" where
  "hkdf_expand prk info outlen counter t dn =
     (if dn < outlen then
        let c = hmac_sha256_init prk;
            c = (if t \<noteq> [] then hmac_sha256_update c t else c);
            c = (if info \<noteq> [] then hmac_sha256_update c info else c);
            c = hmac_sha256_update c [counter];
            t' = hmac_sha256_final c;
            n = (if outlen - dn < 32 then outlen - dn else 32)
        in take n t' @ hkdf_expand prk info outlen (counter + 1) t' (dn + n)
      else [])"
  by pat_completeness auto
termination
  by (relation "measure (\<lambda>(prk, info, outlen, counter, t, dn). outlen - dn)") auto

declare hkdf_expand.simps [simp del]

definition hkdf_sha256 :: "u8 list \<Rightarrow> u8 list \<Rightarrow> u8 list \<Rightarrow> nat \<Rightarrow> u8 list" where
  "hkdf_sha256 salt ikm info outlen =
     (let salt = (if salt = [] then replicate 32 0 else salt);
          prk = hmac_sha256 salt ikm
      in hkdf_expand prk info outlen 1 [] 0)"

lemma hkdf_expand_step:
  assumes "dn < outlen"
  obtains t' where "length t' = 32"
    "hkdf_expand prk info outlen counter t dn = take (min (outlen - dn) 32) t' @
       hkdf_expand prk info outlen (counter + 1) t' (dn + min (outlen - dn) 32)"
proof -
  define c1 where "c1 = (if t \<noteq> [] then hmac_sha256_update (hmac_sha256_init prk) t
    else hmac_sha256_init prk)"
  define c2 where "c2 = (if info \<noteq> [] then hmac_sha256_update c1 info else c1)"
  define t' where "t' = hmac_sha256_final (hmac_sha256_update c2 [counter])"
  have "\<exists>m. hmac_absorbed c1 prk m"
    unfolding c1_def using hmac_absorbed_init [of prk] by (auto intro: hmac_absorbed_update)
  then have "\<exists>m. hmac_absorbed c2 prk m"
    unfolding c2_def by (auto intro: hmac_absorbed_update)
  then have "length t' = 32"
    unfolding t'_def using hmac_final_spec [OF hmac_absorbed_update] length_hmac_spec by metis
  moreover have "(if outlen - dn < 32 then outlen - dn else 32) = min (outlen - dn) 32" by simp
  ultimately show thesis
    using that [of t'] assms unfolding hkdf_expand.simps [of prk info outlen counter t dn]
    by (simp only: Let_def if_True c1_def [symmetric] c2_def [symmetric] t'_def [symmetric])
qed

lemma length_hkdf_expand:
  "dn \<le> outlen \<Longrightarrow> length (hkdf_expand prk info outlen counter t dn) = outlen - dn"
proof (induction "outlen - dn" arbitrary: dn counter t rule: less_induct)
  case less
  show ?case
  proof (cases "dn < outlen")
    case True
    obtain t' where t': "length t' = 32"
      "hkdf_expand prk info outlen counter t dn = take (min (outlen - dn) 32) t' @
       hkdf_expand prk info outlen (counter + 1) t' (dn + min (outlen - dn) 32)"
      by (rule hkdf_expand_step [OF True])
    show ?thesis
      using less.hyps [of "dn + min (outlen - dn) 32" "counter + 1" t'] t' True by auto
  qed (use less.prems in \<open>simp add: hkdf_expand.simps\<close>)
qed

lemma length_hkdf_sha256: "length (hkdf_sha256 salt ikm info outlen) = outlen"
  by (simp add: hkdf_sha256_def Let_def length_hkdf_expand)

section \<open>Constant-time comparison\<close>

text \<open>\<open>rk_ct_eq\<close> of \<open>kernel/lib/string.c\<close>: the differences are or-ed together.\<close>

definition rk_ct_eq :: "u8 list \<Rightarrow> u8 list \<Rightarrow> nat \<Rightarrow> bool" where
  "rk_ct_eq a b n = (fold (\<lambda>i diff. diff OR (a ! i XOR b ! i)) [0..<n] 0 = 0)"

lemma or_eq_0: "(a OR b = (0 :: u8)) = (a = 0 \<and> b = 0)"
  by (auto simp: bit_eq_iff bit_or_iff)

lemma xor_eq_0: "(a XOR b = (0 :: u8)) = (a = b)"
  by (auto simp: bit_eq_iff bit_xor_iff)

lemma rk_ct_eq_iff: "rk_ct_eq a b n \<longleftrightarrow> (\<forall>i < n. a ! i = b ! i)"
proof -
  have "(fold (\<lambda>i diff. diff OR (a ! i XOR b ! i)) xs d = 0) \<longleftrightarrow>
      d = 0 \<and> (\<forall>i \<in> set xs. a ! i = b ! i)" for xs and d :: u8
    by (induction xs arbitrary: d) (auto simp: or_eq_0 xor_eq_0)
  then show ?thesis by (auto simp: rk_ct_eq_def)
qed

lemma rk_ct_eq_same: "rk_ct_eq a a n"
  by (simp add: rk_ct_eq_iff)

section \<open>Properties\<close>

text \<open>
  C40. SHA-256 is the FIPS 180-4 function of the concatenated input however the input is cut into
  \<open>sha256_update\<close> calls: a context fed any list of pieces finishes with the digest of the
  padded whole.
\<close>

theorem sha256_streaming:
  "fst (sha256_final (fold (\<lambda>d c. sha256_update c d) pieces (sha256_init blank_ctx)))
     = sha256_spec (concat pieces)"
proof -
  have "sha_absorbed (fold (\<lambda>d c. sha256_update c d) ps c) (m @ concat ps)"
    if "sha_absorbed c m" for ps c m
    using that
  proof (induction ps arbitrary: c m)
    case (Cons p ps)
    from Cons.IH [OF sha_absorbed_update [OF Cons.prems, of p]] show ?case by simp
  qed simp
  from sha256_final_digest [OF this [OF sha_absorbed_init, of blank_ctx pieces]]
  show ?thesis by (simp add: blank_ctx_def)
qed

text \<open>
  HMAC-SHA256 through the streaming context is the RFC 2104 construction over that function,
  for keys of any length and a message fed in any pieces.
\<close>

theorem hmac_streaming:
  "hmac_sha256_final (fold (\<lambda>d c. hmac_sha256_update c d) pieces (hmac_sha256_init key))
     = hmac_spec key (concat pieces)"
proof -
  have "hmac_absorbed (fold (\<lambda>d c. hmac_sha256_update c d) ps c) key (m @ concat ps)"
    if "hmac_absorbed c key m" for ps c m
    using that
  proof (induction ps arbitrary: c m)
    case (Cons p ps)
    from Cons.IH [OF hmac_absorbed_update [OF Cons.prems, of p]] show ?case by simp
  qed simp
  from hmac_final_spec [OF this [OF hmac_absorbed_init, of pieces]] show ?thesis by simp
qed

end
