(* ===== verification/RK_KnownAnswers.thy ===== *)
theory RK_KnownAnswers
  imports RK_Hash
begin

text \<open>
  A published vector that \<open>rk_crypto_selftest\<close> checks at boot, evaluated in the kernel on
  the translated definitions: it pins the constants, rotations and byte orders of the model.
\<close>

lemma sha256_abc:
  "sha256_spec (bytes_of_string ''abc'') =
     [0xba, 0x78, 0x16, 0xbf, 0x8f, 0x01, 0xcf, 0xea, 0x41, 0x41, 0x40, 0xde, 0x5d, 0xae, 0x22, 0x23,
      0xb0, 0x03, 0x61, 0xa3, 0x96, 0x17, 0x7a, 0x9c, 0xb4, 0x10, 0xff, 0x61, 0xf2, 0x00, 0x15, 0xad]"
  by code_simp

end
