(* ===== verification/RK_Spinlock.thy ===== *)
theory RK_Spinlock
  imports RK_Prelude
begin

text \<open>
  The ticket spinlock of \<open>include/rk/spinlock.h\<close>, first as operations on the lock word
  and then as a step relation of many CPUs that interleave them. Every atomic access of the
  source (\<open>atomic32_add\<close>, \<open>atomic32_load\<close>) is one step. The tickets are 32-bit words
  that wrap; the argument needs only that fewer than \<open>2 ^ 32\<close> CPUs exist.
\<close>

section \<open>The lock and its operations\<close>

record spinlock =
  l_head :: u32
  l_tail :: u32
  l_owner :: u32

definition RK_MAX_CPUS :: nat where
  "RK_MAX_CPUS = 256"

definition spin_lock_init :: "spinlock \<Rightarrow> spinlock" where
  "spin_lock_init l = l\<lparr>l_head := 0, l_tail := 0, l_owner := - 1\<rparr>"

text \<open>\<open>atomic32_add(&l->tail, 1) - 1\<close>: the ticket is the value before the addition.\<close>

definition spin_take :: "spinlock \<Rightarrow> u32 \<times> spinlock" where
  "spin_take l = (let t = l_tail l + 1 in (t - 1, l\<lparr>l_tail := t\<rparr>))"

text \<open>One pass of the wait loop: it ends when the served ticket is ours.\<close>

definition spin_served :: "u32 \<Rightarrow> spinlock \<Rightarrow> bool" where
  "spin_served ticket l \<longleftrightarrow> l_head l = ticket"

definition spin_own :: "nat \<Rightarrow> spinlock \<Rightarrow> spinlock" where
  "spin_own cpu l = l\<lparr>l_owner := of_nat cpu\<rparr>"

definition spin_unlock :: "spinlock \<Rightarrow> spinlock" where
  "spin_unlock l = (let l = l\<lparr>l_owner := - 1\<rparr> in l\<lparr>l_head := l_head l + 1\<rparr>)"

text \<open>\<open>spin_trylock\<close> as a call that no other CPU interrupts (the kernel has no caller of
  it): it takes a ticket only when nobody holds or waits.\<close>

definition spin_trylock :: "nat \<Rightarrow> spinlock \<Rightarrow> bool \<times> spinlock" where
  "spin_trylock cpu l =
     (if l_head l \<noteq> l_tail l then (False, l)
      else (True, spin_own cpu (l\<lparr>l_tail := l_tail l + 1\<rparr>)))"

section \<open>Many CPUs\<close>

datatype lock_pc = Outside | Spinning u32 | Inside

record lock_sys =
  lk :: spinlock
  pcs :: "nat \<Rightarrow> lock_pc"

definition lock_start :: lock_sys where
  "lock_start =
     \<lparr>lk = spin_lock_init \<lparr>l_head = 0, l_tail = 0, l_owner = 0\<rparr>, pcs = (\<lambda>_. Outside)\<rparr>"

inductive lock_step :: "lock_sys \<Rightarrow> lock_sys \<Rightarrow> bool" where
  take: "c < RK_MAX_CPUS \<Longrightarrow> pcs s c = Outside \<Longrightarrow> spin_take (lk s) = (t, l) \<Longrightarrow>
     lock_step s (s\<lparr>lk := l, pcs := (pcs s)(c := Spinning t)\<rparr>)"
| spin: "pcs s c = Spinning t \<Longrightarrow> \<not> spin_served t (lk s) \<Longrightarrow> lock_step s s"
| enter: "pcs s c = Spinning t \<Longrightarrow> spin_served t (lk s) \<Longrightarrow>
     lock_step s (s\<lparr>lk := spin_own c (lk s), pcs := (pcs s)(c := Inside)\<rparr>)"
| leave: "pcs s c = Inside \<Longrightarrow>
     lock_step s (s\<lparr>lk := spin_unlock (lk s), pcs := (pcs s)(c := Outside)\<rparr>)"

inductive lock_reach :: "lock_sys \<Rightarrow> bool" where
  start: "lock_reach lock_start"
| step: "lock_reach s \<Longrightarrow> lock_step s t \<Longrightarrow> lock_reach t"

text \<open>
  The invariant names the queue the tickets stand for: the CPUs inside or waiting, in the
  order of their tickets, the first of them served next or already inside.
\<close>

definition ticket_queue :: "lock_sys \<Rightarrow> nat list \<Rightarrow> bool" where
  "ticket_queue s q \<longleftrightarrow>
     distinct q \<and> set q = {c. pcs s c \<noteq> Outside} \<and> (\<forall>d. pcs s d \<noteq> Outside \<longrightarrow> d < RK_MAX_CPUS) \<and>
     l_tail (lk s) = l_head (lk s) + of_nat (length q) \<and>
     (\<forall>i < length q. pcs s (q ! i) = Spinning (l_head (lk s) + of_nat i) \<or>
        (i = 0 \<and> pcs s (q ! 0) = Inside))"

lemma ticket_queue_length: "ticket_queue s q \<Longrightarrow> length q \<le> 256"
proof -
  assume "ticket_queue s q"
  then have d: "distinct q" and s: "set q \<subseteq> {..<256::nat}"
    by (auto simp: ticket_queue_def RK_MAX_CPUS_def)
  have "card (set q) \<le> card {..<256::nat}" by (rule card_mono [OF _ s]) simp
  then show ?thesis using distinct_card [OF d] by simp
qed

lemma ticket_small: "(of_nat i :: u32) = of_nat j \<Longrightarrow> i < 2 ^ 32 \<Longrightarrow> j < 2 ^ 32 \<Longrightarrow> i = j"
  by (drule arg_cong [where f = unat]) (simp add: unat_of_nat take_bit_eq_mod)

lemma ticket_queue_start: "ticket_queue lock_start []"
  by (simp add: ticket_queue_def lock_start_def spin_lock_init_def)

lemma ticket_queue_take:
  assumes q: "ticket_queue s q" and c: "c < RK_MAX_CPUS" "pcs s c = Outside"
    and t: "spin_take (lk s) = (t, l)"
  shows "ticket_queue (s\<lparr>lk := l, pcs := (pcs s)(c := Spinning t)\<rparr>) (q @ [c])"
proof -
  have l: "l_head l = l_head (lk s)" "l_tail l = l_tail (lk s) + 1" "t = l_tail (lk s)"
    using t by (auto simp: spin_take_def Let_def)
  have notin: "c \<notin> set q" using q c(2) by (auto simp: ticket_queue_def)
  have tk: "l_tail (lk s) = l_head (lk s) + of_nat (length q)"
    and slots: "\<And>i. i < length q \<Longrightarrow> pcs s (q ! i) = Spinning (l_head (lk s) + of_nat i) \<or>
        (i = 0 \<and> pcs s (q ! 0) = Inside)"
    using q by (auto simp: ticket_queue_def)
  have "((pcs s)(c := Spinning t)) ((q @ [c]) ! i) = Spinning (l_head l + of_nat i) \<or>
      (i = 0 \<and> ((pcs s)(c := Spinning t)) ((q @ [c]) ! 0) = Inside)"
    if "i < length (q @ [c])" for i
  proof (cases "i < length q")
    case True
    then have in_q: "q ! i \<in> set q" "q ! 0 \<in> set q" by (auto intro: nth_mem)
    then have "q ! i \<noteq> c" "q ! 0 \<noteq> c" using notin by metis+
    moreover have "(q @ [c]) ! i = q ! i" "(q @ [c]) ! 0 = q ! 0"
      using True by (auto simp: nth_append)
    ultimately show ?thesis using slots [OF True] l by simp
  next
    case False
    then have "i = length q" using that by simp
    then show ?thesis using l tk by (simp add: nth_append)
  qed
  moreover have "set (q @ [c]) = {d. ((pcs s)(c := Spinning t)) d \<noteq> Outside}"
    using q by (auto simp: ticket_queue_def)
  ultimately show ?thesis
    using q c notin l tk unfolding ticket_queue_def by simp
qed

lemma ticket_queue_served:
  assumes q: "ticket_queue s q" and sp: "pcs s c = Spinning t" and ser: "spin_served t (lk s)"
  shows "q \<noteq> [] \<and> c = hd q"
proof -
  have "c \<in> set q" using q sp by (auto simp: ticket_queue_def)
  then obtain i where i: "i < length q" "q ! i = c" by (auto simp: in_set_conv_nth)
  then have "(l_head (lk s) + of_nat i :: u32) = l_head (lk s)"
    using q sp ser by (auto simp: ticket_queue_def spin_served_def)
  then have "(of_nat i :: u32) = of_nat 0" by simp
  then have "i = 0" using i(1) ticket_queue_length [OF q] ticket_small [of i 0] by simp
  then show ?thesis using i by (metis hd_conv_nth length_greater_0_conv)
qed

lemma ticket_queue_inside:
  assumes q: "ticket_queue s q" and c: "pcs s c = Inside"
  shows "q \<noteq> [] \<and> c = hd q"
proof -
  have "c \<in> set q" using q c by (auto simp: ticket_queue_def)
  then obtain i where i: "i < length q" "q ! i = c" by (auto simp: in_set_conv_nth)
  then have "i = 0" using q c by (auto simp: ticket_queue_def)
  then show ?thesis using i by (metis hd_conv_nth length_greater_0_conv)
qed

lemma ticket_queue_enter:
  assumes q: "ticket_queue s q" and sp: "pcs s c = Spinning t" and ser: "spin_served t (lk s)"
  shows "ticket_queue (s\<lparr>lk := spin_own c (lk s), pcs := (pcs s)(c := Inside)\<rparr>) q"
proof -
  obtain q' where qq: "q = c # q'" using ticket_queue_served [OF assms] by (cases q) auto
  have notin: "c \<notin> set q'" using q qq by (simp add: ticket_queue_def)
  have slot: "((pcs s)(c := Inside)) (q ! i) = Spinning (l_head (lk s) + of_nat i) \<or>
      (i = 0 \<and> ((pcs s)(c := Inside)) (q ! 0) = Inside)" if i: "i < length q" for i
  proof (cases i)
    case (Suc j)
    then have "q ! i \<noteq> c" using notin i qq by auto
    moreover have "pcs s (q ! i) = Spinning (l_head (lk s) + of_nat i)"
      using q i Suc unfolding ticket_queue_def by blast
    ultimately show ?thesis by simp
  qed (use qq in simp)
  have "{d. ((pcs s)(c := Inside)) d \<noteq> Outside} = {d. pcs s d \<noteq> Outside}"
    using sp by auto
  then show ?thesis
    using q slot sp unfolding ticket_queue_def spin_own_def by fastforce
qed

lemma ticket_queue_leave:
  assumes q: "ticket_queue s q" and c: "pcs s c = Inside"
  shows "ticket_queue (s\<lparr>lk := spin_unlock (lk s), pcs := (pcs s)(c := Outside)\<rparr>) (tl q)"
proof -
  obtain q' where qq: "q = c # q'" using ticket_queue_inside [OF assms] by (cases q) auto
  have notin: "c \<notin> set q'" and sets: "insert c (set q') = {d. pcs s d \<noteq> Outside}"
    using q qq by (auto simp: ticket_queue_def)
  have slot: "pcs s (q' ! i) = Spinning (l_head (lk s) + 1 + of_nat i)" if "i < length q'" for i
  proof -
    have "pcs s (q ! Suc i) = Spinning (l_head (lk s) + of_nat (Suc i)) \<or>
        (Suc i = 0 \<and> pcs s (q ! 0) = Inside)"
      using q that qq unfolding ticket_queue_def by (metis Suc_less_eq length_Cons)
    then show ?thesis using qq by (simp add: algebra_simps)
  qed
  have "q' ! i \<noteq> c" if "i < length q'" for i using notin that by auto
  moreover have "set q' = {d. ((pcs s)(c := Outside)) d \<noteq> Outside}"
    using sets notin by auto
  ultimately show ?thesis
    using q qq slot unfolding ticket_queue_def spin_unlock_def by (auto simp: algebra_simps)
qed

lemma lock_step_queue: "lock_step s t \<Longrightarrow> ticket_queue s q \<Longrightarrow> \<exists>q'. ticket_queue t q'"
  by (induction rule: lock_step.induct)
    (blast intro: ticket_queue_take ticket_queue_enter ticket_queue_leave)+

lemma lock_reach_queue: "lock_reach s \<Longrightarrow> \<exists>q. ticket_queue s q"
proof (induction rule: lock_reach.induct)
  case start
  show ?case using ticket_queue_start by blast
next
  case (step s t)
  then show ?case using lock_step_queue by blast
qed

section \<open>Properties\<close>

text \<open>
  C31. Mutual exclusion: whatever the interleaving of the CPUs, at most one of them is between
  \<open>spin_lock\<close> and \<open>spin_unlock\<close>.
\<close>

theorem spinlock_mutual_exclusion:
  assumes "lock_reach s" "pcs s i = Inside" "pcs s j = Inside"
  shows "i = j"
proof -
  obtain q where "ticket_queue s q" using lock_reach_queue [OF assms(1)] by blast
  then show ?thesis using ticket_queue_inside assms(2,3) by metis
qed

text \<open>Two steps from the start, the first CPU is inside.\<close>

lemma lock_reach_inside: "\<exists>s. lock_reach s \<and> pcs s 0 = Inside"
proof -
  obtain t l where tl: "spin_take (lk lock_start) = (t, l)" by (cases "spin_take (lk lock_start)")
  let ?s = "lock_start\<lparr>lk := l, pcs := (pcs lock_start)(0 := Spinning t)\<rparr>"
  have "lock_step lock_start ?s"
    by (rule lock_step.take [OF _ _ tl]) (simp_all add: RK_MAX_CPUS_def lock_start_def)
  then have r: "lock_reach ?s" by (rule lock_reach.step [OF lock_reach.start])
  have "lock_step ?s (?s\<lparr>lk := spin_own 0 (lk ?s), pcs := (pcs ?s)(0 := Inside)\<rparr>)"
    by (rule lock_step.enter [of _ _ t])
      (use tl in \<open>auto simp: spin_served_def spin_take_def lock_start_def spin_lock_init_def\<close>)
  then show ?thesis using lock_reach.step [OF r] by fastforce
qed

lemma spinlock_mutual_exclusion_witness:
  "\<exists>s. lock_reach s \<and> pcs s 0 = Inside \<and> (\<forall>j. pcs s j = Inside \<longrightarrow> 0 = j)"
  using lock_reach_inside spinlock_mutual_exclusion [of _ 0] by metis

text \<open>
  C32. Nobody starves at the head of the queue: while some CPU waits, either a CPU is inside or
  exactly one waiting CPU is being served, so the lock is handed on in ticket order.
\<close>

theorem spinlock_progress:
  assumes "lock_reach s" "pcs s i = Spinning t"
  shows "(\<exists>c. pcs s c = Inside) \<or>
    (\<exists>!c. \<exists>u. pcs s c = Spinning u \<and> spin_served u (lk s))"
proof -
  obtain q where q: "ticket_queue s q" using lock_reach_queue [OF assms(1)] by blast
  have "i \<in> set q" using q assms(2) by (auto simp: ticket_queue_def)
  then have ne: "0 < length q" "q ! 0 = hd q" by (cases q; auto)+
  have "pcs s (hd q) = Spinning (l_head (lk s)) \<or> pcs s (hd q) = Inside"
    using q ne unfolding ticket_queue_def by force
  moreover have "c = d" if "pcs s c = Spinning u" "spin_served u (lk s)"
      "pcs s d = Spinning v" "spin_served v (lk s)" for c d u v
    using ticket_queue_served [OF q that(1,2)] ticket_queue_served [OF q that(3,4)] by simp
  ultimately show ?thesis by (metis spin_served_def)
qed

lemma spinlock_progress_witness:
  "\<exists>s t. lock_reach s \<and> pcs s 0 = Spinning t \<and> ((\<exists>c. pcs s c = Inside) \<or>
    (\<exists>!c. \<exists>u. pcs s c = Spinning u \<and> spin_served u (lk s)))"
proof -
  obtain t l where tl: "spin_take (lk lock_start) = (t, l)" by (cases "spin_take (lk lock_start)")
  let ?s = "lock_start\<lparr>lk := l, pcs := (pcs lock_start)(0 := Spinning t)\<rparr>"
  have "lock_step lock_start ?s"
    by (rule lock_step.take [OF _ _ tl]) (simp_all add: RK_MAX_CPUS_def lock_start_def)
  then have r: "lock_reach ?s" by (rule lock_reach.step [OF lock_reach.start])
  moreover have p: "pcs ?s 0 = Spinning t" by simp
  ultimately show ?thesis using spinlock_progress [OF r p] by blast
qed

end
