(* ===== verification/RK_Stream.thy ===== *)
theory RK_Stream
  imports RK_Prelude
begin

text \<open>
  The interfaces of the kernel's bounded byte queues. \<open>bounded_fifo\<close> is the contract of
  a queue that takes and gives one element at a time (the interrupt-safe ring buffer);
  \<open>byte_stream\<close> is the contract of one that moves chunks (the IPC channel, and the read
  and write loops over a ring buffer). Every \<open>bounded_fifo\<close> gives a \<open>byte_stream\<close>,
  and the order theorem \<open>run_order\<close> is proved once, for streams.
\<close>

section \<open>Loops over a single-element queue\<close>

text \<open>\<open>while (i < n && put(src[i])) i++\<close> and \<open>while (i < n && get(&dst[i])) i++\<close>.\<close>

fun feed :: "('a \<Rightarrow> 's \<Rightarrow> bool \<times> 's) \<Rightarrow> 'a list \<Rightarrow> 's \<Rightarrow> nat \<times> 's" where
  "feed put [] s = (0, s)"
| "feed put (x # xs) s =
     (case put x s of (False, s') \<Rightarrow> (0, s')
      | (True, s') \<Rightarrow> (case feed put xs s' of (n, s'') \<Rightarrow> (Suc n, s'')))"

fun drain :: "('s \<Rightarrow> ('a \<times> 's) option) \<Rightarrow> nat \<Rightarrow> 's \<Rightarrow> 'a list \<times> 's" where
  "drain get 0 s = ([], s)"
| "drain get (Suc n) s =
     (case get s of None \<Rightarrow> ([], s)
      | Some (x, s') \<Rightarrow> (case drain get n s' of (xs, s'') \<Rightarrow> (x # xs, s'')))"

section \<open>A sequence of writes and reads\<close>

datatype 'a stream_op = Push "'a list" | Pull nat

text \<open>What the stream accepted, what it delivered, and the state it is left in.\<close>

fun run_stream :: "('a list \<Rightarrow> 's \<Rightarrow> nat \<times> 's) \<Rightarrow> (nat \<Rightarrow> 's \<Rightarrow> 'a list \<times> 's) \<Rightarrow>
    'a stream_op list \<Rightarrow> 's \<Rightarrow> 'a list \<times> 'a list \<times> 's" where
  "run_stream push pull [] s = ([], [], s)"
| "run_stream push pull (Push xs # ops) s =
     (case push xs s of (n, s') \<Rightarrow>
      (case run_stream push pull ops s' of (inp, outp, s'') \<Rightarrow> (take n xs @ inp, outp, s'')))"
| "run_stream push pull (Pull n # ops) s =
     (case pull n s of (ys, s') \<Rightarrow>
      (case run_stream push pull ops s' of (inp, outp, s'') \<Rightarrow> (inp, ys @ outp, s'')))"

section \<open>The chunk interface\<close>

locale byte_stream =
  fixes push :: "'a list \<Rightarrow> 's \<Rightarrow> nat \<times> 's"
    and pull :: "nat \<Rightarrow> 's \<Rightarrow> 'a list \<times> 's"
    and contents :: "'s \<Rightarrow> 'a list"
    and capacity :: "'s \<Rightarrow> nat"
    and invar :: "'s \<Rightarrow> bool"
  assumes bounded: "invar s \<Longrightarrow> length (contents s) \<le> capacity s"
    and push_count: "invar s \<Longrightarrow>
      fst (push xs s) = min (length xs) (capacity s - length (contents s))"
    and push_contents: "invar s \<Longrightarrow>
      contents (snd (push xs s)) = contents s @ take (fst (push xs s)) xs"
    and push_invar: "invar s \<Longrightarrow> invar (snd (push xs s))"
    and pull_bytes: "invar s \<Longrightarrow> fst (pull n s) = take n (contents s)"
    and pull_contents: "invar s \<Longrightarrow> contents (snd (pull n s)) = drop n (contents s)"
    and pull_invar: "invar s \<Longrightarrow> invar (snd (pull n s))"
begin

lemma run_invar: "invar s \<Longrightarrow> invar (snd (snd (run_stream push pull ops s)))"
proof (induction ops arbitrary: s)
  case (Cons a ops)
  show ?case
  proof (cases a)
    case (Push xs)
    then show ?thesis
      using Cons.IH [OF push_invar [OF Cons.prems, of xs]] by (simp add: case_prod_unfold)
  next
    case (Pull n)
    then show ?thesis
      using Cons.IH [OF pull_invar [OF Cons.prems, of n]] by (simp add: case_prod_unfold)
  qed
qed simp

text \<open>Nothing is lost, duplicated or reordered: what was inside and what went in is what came
  out and what is still inside, in order.\<close>

lemma run_order:
  "invar s \<Longrightarrow> run_stream push pull ops s = (inp, outp, s') \<Longrightarrow>
     contents s @ inp = outp @ contents s'"
proof (induction ops arbitrary: s inp outp s')
  case (Cons a ops)
  show ?case
  proof (cases a)
    case (Push xs)
    obtain n t where n: "push xs s = (n, t)" by (cases "push xs s")
    obtain i u v where r: "run_stream push pull ops t = (i, u, v)"
      by (cases "run_stream push pull ops t") auto
    have "contents t @ i = u @ contents v"
      using Cons.IH [OF _ r] push_invar [OF Cons.prems(1), of xs] n by simp
    then show ?thesis
      using Cons.prems(2) Push n r push_contents [OF Cons.prems(1), of xs] by auto
  next
    case (Pull k)
    obtain ys t where n: "pull k s = (ys, t)" by (cases "pull k s")
    obtain i u v where r: "run_stream push pull ops t = (i, u, v)"
      by (cases "run_stream push pull ops t") auto
    have "contents t @ i = u @ contents v"
      using Cons.IH [OF _ r] pull_invar [OF Cons.prems(1), of k] n by simp
    then show ?thesis
      using Cons.prems(2) Pull n r pull_contents [OF Cons.prems(1), of k]
        pull_bytes [OF Cons.prems(1), of k]
      by auto (metis append_assoc append_take_drop_id)
  qed
qed simp

lemma pull_push:
  "invar s \<Longrightarrow> contents s = [] \<Longrightarrow> length xs \<le> capacity s \<Longrightarrow>
     fst (pull (length xs) (snd (push xs s))) = xs"
  using push_count [of s xs] push_contents [of s xs]
  by (simp add: pull_bytes push_invar)

end

section \<open>The single-element interface\<close>

locale bounded_fifo =
  fixes put :: "'a \<Rightarrow> 's \<Rightarrow> bool \<times> 's"
    and get :: "'s \<Rightarrow> ('a \<times> 's) option"
    and contents :: "'s \<Rightarrow> 'a list"
    and capacity :: "'s \<Rightarrow> nat"
    and invar :: "'s \<Rightarrow> bool"
  assumes fits: "invar s \<Longrightarrow> length (contents s) \<le> capacity s"
    and put_invar: "invar s \<Longrightarrow> invar (snd (put x s))"
    and put_capacity: "invar s \<Longrightarrow> capacity (snd (put x s)) = capacity s"
    and put_accepts: "invar s \<Longrightarrow> fst (put x s) = (length (contents s) < capacity s)"
    and put_contents: "invar s \<Longrightarrow>
      contents (snd (put x s)) = (if fst (put x s) then contents s @ [x] else contents s)"
    and get_empty: "invar s \<Longrightarrow> get s = None \<longleftrightarrow> contents s = []"
    and get_contents: "invar s \<Longrightarrow> get s = Some (x, s') \<Longrightarrow> contents s = x # contents s'"
    and get_invar: "invar s \<Longrightarrow> get s = Some (x, s') \<Longrightarrow> invar s'"
begin

lemma feed_spec:
  "invar s \<Longrightarrow> feed put xs s = (n, s') \<Longrightarrow>
     n = min (length xs) (capacity s - length (contents s)) \<and>
     contents s' = contents s @ take n xs \<and> invar s' \<and> capacity s' = capacity s"
proof (induction xs arbitrary: s n s')
  case (Cons x xs)
  obtain b t where p: "put x s = (b, t)" by (cases "put x s")
  note facts = put_invar [OF Cons.prems(1), of x] put_capacity [OF Cons.prems(1), of x]
    put_accepts [OF Cons.prems(1), of x] put_contents [OF Cons.prems(1), of x]
  show ?case
  proof (cases b)
    case True
    obtain m u where f: "feed put xs t = (m, u)" by (cases "feed put xs t")
    have "m = min (length xs) (capacity t - length (contents t)) \<and>
        contents u = contents t @ take m xs \<and> invar u \<and> capacity u = capacity t"
      using Cons.IH [OF _ f] facts p by simp
    then show ?thesis using Cons.prems(2) p f True facts by auto
  next
    case False
    then show ?thesis using Cons.prems(2) p facts by auto
  qed
qed simp

lemma drain_spec:
  "invar s \<Longrightarrow> drain get n s = (ys, s') \<Longrightarrow>
     ys = take n (contents s) \<and> contents s' = drop n (contents s) \<and> invar s'"
proof (induction n arbitrary: s ys s')
  case (Suc n)
  show ?case
  proof (cases "get s")
    case None
    then show ?thesis using Suc.prems get_empty [OF Suc.prems(1)] by simp
  next
    case (Some xt)
    obtain x t where g: "get s = Some (x, t)" using Some by (cases xt) simp
    obtain zs u where d: "drain get n t = (zs, u)" by (cases "drain get n t")
    have "zs = take n (contents t) \<and> contents u = drop n (contents t) \<and> invar u"
      using Suc.IH [OF get_invar [OF Suc.prems(1) g] d] .
    then show ?thesis using Suc.prems(2) g d get_contents [OF Suc.prems(1) g] by auto
  qed
qed simp

end

text \<open>A single-element queue moves chunks by its loops.\<close>

sublocale bounded_fifo \<subseteq> byte_stream "feed put" "drain get" contents capacity invar
proof unfold_locales
  fix s :: 's and xs :: "'a list" and n :: nat
  assume i: "invar s"
  show "length (contents s) \<le> capacity s" using i by (rule fits)
  obtain m u where f: "feed put xs s = (m, u)" by (cases "feed put xs s")
  obtain ys v where d: "drain get n s = (ys, v)" by (cases "drain get n s")
  note F = feed_spec [OF i f] and D = drain_spec [OF i d]
  show "fst (feed put xs s) = min (length xs) (capacity s - length (contents s))"
    "contents (snd (feed put xs s)) = contents s @ take (fst (feed put xs s)) xs"
    "invar (snd (feed put xs s))" using F f by auto
  show "fst (drain get n s) = take n (contents s)"
    "contents (snd (drain get n s)) = drop n (contents s)" "invar (snd (drain get n s))"
    using D d by auto
qed

end
