(* ===== verification/RK_Ring.thy ===== *)
theory RK_Ring
  imports RK_Stream
begin

text \<open>
  The single-producer single-consumer ring buffer of \<open>include/rk/ringbuf.h\<close>. The two
  counters are 32-bit words that run freely and wrap; an index into the storage is a counter
  masked by the power-of-two size. \<open>ring_contents\<close> is the queue the buffer stands for.
\<close>

record ringbuf =
  rb_buf :: "u8 list"
  rb_mask :: u32
  rb_head :: u32
  rb_tail :: u32
  rb_dropped :: u64

definition ringbuf_init :: "u8 list \<Rightarrow> u32 \<Rightarrow> ringbuf" where
  "ringbuf_init storage pow2_size =
     \<lparr>rb_buf = storage, rb_mask = pow2_size - 1, rb_head = 0, rb_tail = 0, rb_dropped = 0\<rparr>"

definition ringbuf_used :: "ringbuf \<Rightarrow> u32" where
  "ringbuf_used r = rb_head r - rb_tail r"

definition ringbuf_space :: "ringbuf \<Rightarrow> u32" where
  "ringbuf_space r = (rb_mask r + 1) - ringbuf_used r"

definition ringbuf_empty :: "ringbuf \<Rightarrow> bool" where
  "ringbuf_empty r \<longleftrightarrow> ringbuf_used r = 0"

definition ringbuf_put :: "u8 \<Rightarrow> ringbuf \<Rightarrow> bool \<times> ringbuf" where
  "ringbuf_put c r =
     (let head = rb_head r in
      if rb_mask r < head - rb_tail r then (False, r\<lparr>rb_dropped := rb_dropped r + 1\<rparr>)
      else (True, r\<lparr>rb_buf := (rb_buf r)[unat (head AND rb_mask r) := c],
                    rb_head := head + 1\<rparr>))"

definition ringbuf_get :: "ringbuf \<Rightarrow> (u8 \<times> ringbuf) option" where
  "ringbuf_get r =
     (let tail = rb_tail r in
      if tail = rb_head r then None
      else Some (rb_buf r ! unat (tail AND rb_mask r), r\<lparr>rb_tail := tail + 1\<rparr>))"

text \<open>\<open>ringbuf_write\<close> and \<open>ringbuf_read\<close>: the loops stop at the first refusal.\<close>

definition ringbuf_write :: "u8 list \<Rightarrow> ringbuf \<Rightarrow> nat \<times> ringbuf" where
  "ringbuf_write src r = feed ringbuf_put src r"

definition ringbuf_read :: "nat \<Rightarrow> ringbuf \<Rightarrow> u8 list \<times> ringbuf" where
  "ringbuf_read n r = drain ringbuf_get n r"

section \<open>The queue a ring buffer stands for\<close>

definition ring_invar :: "ringbuf \<Rightarrow> bool" where
  "ring_invar r \<longleftrightarrow> (\<exists>k \<le> 31. rb_mask r = mask k \<and> length (rb_buf r) = 2 ^ k \<and>
     unat (ringbuf_used r) \<le> 2 ^ k)"

definition ring_capacity :: "ringbuf \<Rightarrow> nat" where
  "ring_capacity r = length (rb_buf r)"

definition ring_index :: "ringbuf \<Rightarrow> nat \<Rightarrow> nat" where
  "ring_index r i = (unat (rb_tail r) + i) mod length (rb_buf r)"

definition ring_contents :: "ringbuf \<Rightarrow> u8 list" where
  "ring_contents r = map (\<lambda>i. rb_buf r ! ring_index r i) [0..<unat (ringbuf_used r)]"

lemma unat_and_mask: "k \<le> 32 \<Longrightarrow> unat (w AND mask k :: u32) = unat w mod 2 ^ k"
  by (simp only: take_bit_eq_mask [symmetric] unsigned_take_bit_eq) (rule take_bit_eq_mod)

lemma unat_add_mod:
  assumes "k \<le> 32"
  shows "unat (w + of_nat n :: u32) mod 2 ^ k = (unat w + n) mod 2 ^ k"
proof -
  have "(2::nat) ^ k dvd 2 ^ 32" using assms by (rule le_imp_power_dvd)
  moreover have "unat (w + of_nat n :: u32) = (unat w + n) mod 2 ^ 32"
    by (simp add: unat_word_ariths unat_of_nat take_bit_eq_mod mod_add_right_eq)
  ultimately show ?thesis by (simp add: mod_mod_cancel)
qed

lemma unat_mask_31:
  assumes "k \<le> 31"
  shows "unat (mask k :: u32) = 2 ^ k - 1"
proof -
  have k: "(2::nat) ^ k < 2 ^ 32" using assms by (intro power_strict_increasing) auto
  have p: "unat (of_nat (2 ^ k) :: u32) = 2 ^ k"
    using k by (simp add: unat_of_nat take_bit_nat_eq_self del: of_nat_power)
  moreover have "(mask k :: u32) = of_nat (2 ^ k) - 1" by (simp add: mask_eq_exp_minus_1)
  moreover have "(of_nat (2 ^ k) :: u32) \<noteq> 0" using p by (metis power_not_zero unat_0 zero_neq_numeral)
  ultimately show ?thesis by (metis unat_minus_one)
qed

lemma unat_inc_used:
  assumes "unat (h - t :: u32) < 2 ^ 32 - 1"
  shows "unat (h + 1 - t) = Suc (unat (h - t))"
proof -
  have "h + 1 - t = (h - t) + 1" by (simp only: diff_add_eq)
  moreover have "unat ((h - t) + 1) = Suc (unat (h - t))"
    using assms unat_word_ariths(1) [of "h - t" 1] by simp
  ultimately show ?thesis by (simp only:)
qed

lemma unat_dec_used:
  assumes "(t :: u32) \<noteq> h"
  shows "unat (h - t) = Suc (unat (h - (t + 1)))"
proof -
  have "h - (t + 1) = (h - t) - 1" "h - t \<noteq> 0" using assms by auto
  then show ?thesis by (metis Suc_pred' unat_minus_one unat_gt_0)
qed

section \<open>The operations implement the queue\<close>

lemma ring_invarE:
  assumes "ring_invar r"
  obtains k where "k \<le> 31" "rb_mask r = mask k" "length (rb_buf r) = 2 ^ k"
    "unat (ringbuf_used r) \<le> 2 ^ k"
  using assms by (auto simp: ring_invar_def)

lemma ring_index_less: "ring_invar r \<Longrightarrow> ring_index r i < length (rb_buf r)"
  by (auto simp: ring_index_def elim!: ring_invarE)

lemma ring_head_index:
  assumes "ring_invar r"
  shows "unat (rb_head r AND rb_mask r) = ring_index r (unat (ringbuf_used r))"
proof -
  obtain k where k: "k \<le> 31" "rb_mask r = mask k" "length (rb_buf r) = 2 ^ k"
    using assms by (rule ring_invarE)
  have "rb_head r = rb_tail r + of_nat (unat (ringbuf_used r))"
    by (simp add: ringbuf_used_def)
  then show ?thesis using k unat_add_mod [of k "rb_tail r" "unat (ringbuf_used r)"]
    by (simp add: unat_and_mask ring_index_def)
qed

lemma ring_index_inj:
  assumes "ring_invar r" "i < j" "j < length (rb_buf r)"
  shows "ring_index r i \<noteq> ring_index r j"
proof
  assume "ring_index r i = ring_index r j"
  then have "length (rb_buf r) dvd (unat (rb_tail r) + j) - (unat (rb_tail r) + i)"
    using mod_eq_dvd_iff_nat [of "unat (rb_tail r) + i" "unat (rb_tail r) + j" "length (rb_buf r)"]
      assms(2) by (simp add: ring_index_def)
  then have "length (rb_buf r) dvd j - i" by simp
  then show False using assms(2,3) by (auto dest!: dvd_imp_le)
qed

lemma ring_fits: "ring_invar r \<Longrightarrow> length (ring_contents r) \<le> ring_capacity r"
  by (auto simp: ring_contents_def ring_capacity_def elim!: ring_invarE)

lemma ring_put_accepts:
  assumes "ring_invar r"
  shows "fst (ringbuf_put c r) = (length (ring_contents r) < ring_capacity r)"
proof -
  obtain k where k: "k \<le> 31" "rb_mask r = mask k" "length (rb_buf r) = 2 ^ k"
    using assms by (rule ring_invarE)
  have "(rb_mask r < ringbuf_used r) = (2 ^ k - 1 < unat (ringbuf_used r))"
    using k unat_mask_31 [OF k(1)] by (simp add: word_less_nat_alt)
  moreover have "(2 ^ k - 1 < unat (ringbuf_used r)) = (\<not> unat (ringbuf_used r) < 2 ^ k)"
    using zero_less_power [of "2::nat" k] by linarith
  ultimately show ?thesis using k
    by (auto simp: ringbuf_put_def ringbuf_used_def ring_contents_def ring_capacity_def Let_def)
qed

lemma ringbuf_put_refused:
  "\<not> fst (ringbuf_put c r) \<Longrightarrow> snd (ringbuf_put c r) = r\<lparr>rb_dropped := rb_dropped r + 1\<rparr>"
  by (simp add: ringbuf_put_def Let_def split: if_splits)

lemma ringbuf_put_accepted:
  "fst (ringbuf_put c r) \<Longrightarrow> snd (ringbuf_put c r) =
     r\<lparr>rb_buf := (rb_buf r)[unat (rb_head r AND rb_mask r) := c], rb_head := rb_head r + 1\<rparr>"
  by (simp add: ringbuf_put_def Let_def split: if_splits)

lemma ring_put_accepted_used:
  assumes "ring_invar r" "fst (ringbuf_put c r)"
  shows "unat (ringbuf_used (snd (ringbuf_put c r))) = Suc (unat (ringbuf_used r))"
    and "unat (ringbuf_used r) < length (rb_buf r)"
proof -
  obtain k where k: "k \<le> 31" "length (rb_buf r) = 2 ^ k" using assms(1) by (rule ring_invarE)
  show less: "unat (ringbuf_used r) < length (rb_buf r)"
    using assms ring_put_accepts [OF assms(1), of c]
    by (simp add: ring_contents_def ring_capacity_def)
  have "(2::nat) ^ k \<le> 2 ^ 31" using k(1) by (intro power_increasing) auto
  then have "unat (rb_head r - rb_tail r) < 2 ^ 32 - 1"
    using less k(2) by (simp add: ringbuf_used_def)
  from unat_inc_used [OF this]
  show "unat (ringbuf_used (snd (ringbuf_put c r))) = Suc (unat (ringbuf_used r))"
    using ringbuf_put_accepted [OF assms(2)] by (simp add: ringbuf_used_def)
qed

lemma ring_put_invar:
  assumes "ring_invar r"
  shows "ring_invar (snd (ringbuf_put c r))"
proof (cases "fst (ringbuf_put c r)")
  case True
  obtain k where k: "k \<le> 31" "rb_mask r = mask k" "length (rb_buf r) = 2 ^ k"
    using assms by (rule ring_invarE)
  show ?thesis
    unfolding ring_invar_def
    using k ring_put_accepted_used [OF assms True] ringbuf_put_accepted [OF True]
    by (intro exI [of _ k]) simp
next
  case False
  then show ?thesis
    using assms by (simp add: ringbuf_put_refused ring_invar_def ringbuf_used_def)
qed

lemma ring_put_contents:
  assumes "ring_invar r"
  shows "ring_contents (snd (ringbuf_put c r)) =
    (if fst (ringbuf_put c r) then ring_contents r @ [c] else ring_contents r)"
proof (cases "fst (ringbuf_put c r)")
  case True
  let ?r = "snd (ringbuf_put c r)" and ?n = "unat (ringbuf_used r)"
  have r: "rb_buf ?r = (rb_buf r)[ring_index r ?n := c]" "rb_tail ?r = rb_tail r"
    using ringbuf_put_accepted [OF True] ring_head_index [OF assms] by simp_all
  then have idx: "ring_index ?r i = ring_index r i" for i by (simp add: ring_index_def)
  have n: "?n < length (rb_buf r)" and u: "unat (ringbuf_used ?r) = Suc ?n"
    using ring_put_accepted_used [OF assms True] by simp_all
  have "rb_buf ?r ! ring_index ?r i = rb_buf r ! ring_index r i" if "i < ?n" for i
    using ring_index_inj [OF assms that n] r by (simp add: idx)
  moreover have "rb_buf ?r ! ring_index ?r ?n = c"
    using ring_index_less [OF assms, of ?n] r by (simp add: idx)
  ultimately show ?thesis using True u by (simp add: ring_contents_def)
next
  case False
  then show ?thesis
    by (simp add: ringbuf_put_refused ring_contents_def ring_index_def ringbuf_used_def)
qed

lemma ring_get_empty: "ringbuf_get r = None \<longleftrightarrow> ring_contents r = []"
  by (auto simp: ringbuf_get_def Let_def ring_contents_def ringbuf_used_def unat_eq_zero
    eq_commute [of "rb_tail r"])

lemma ring_get_some:
  assumes r: "ring_invar r" and g: "ringbuf_get r = Some (x, r')"
  shows "ring_contents r = x # ring_contents r'" and "ring_invar r'"
proof -
  obtain k where k: "k \<le> 31" "rb_mask r = mask k" "length (rb_buf r) = 2 ^ k"
    and u: "unat (ringbuf_used r) \<le> 2 ^ k"
    using r by (rule ring_invarE)
  have ne: "rb_tail r \<noteq> rb_head r" and x: "x = rb_buf r ! unat (rb_tail r AND rb_mask r)"
    and r': "r' = r\<lparr>rb_tail := rb_tail r + 1\<rparr>"
    using g by (auto simp: ringbuf_get_def Let_def split: if_splits)
  have used: "unat (ringbuf_used r) = Suc (unat (ringbuf_used r'))"
    using unat_dec_used [OF ne] r' by (simp add: ringbuf_used_def)
  then show "ring_invar r'" using k u r' unfolding ring_invar_def
    by (intro exI [of _ k]) simp
  have "x = rb_buf r ! ring_index r 0"
    using x k by (simp add: unat_and_mask ring_index_def)
  moreover have "ring_index r' i = ring_index r (Suc i)" for i
    using unat_add_mod [of k "rb_tail r" 1] k r'
    by (simp add: ring_index_def) (metis add.commute add_Suc_right mod_add_left_eq plus_1_eq_Suc)
  moreover have "rb_buf r' = rb_buf r" using r' by simp
  ultimately show "ring_contents r = x # ring_contents r'"
    using used by (simp add: ring_contents_def upt_conv_Cons map_Suc_upt [symmetric] del: upt_Suc)
qed

interpretation ring: bounded_fifo ringbuf_put ringbuf_get ring_contents ring_capacity ring_invar
proof unfold_locales
  fix r r' :: ringbuf and x :: u8
  assume i: "ring_invar r"
  show "length (ring_contents r) \<le> ring_capacity r" using i by (rule ring_fits)
  show "ring_invar (snd (ringbuf_put x r))" using i by (rule ring_put_invar)
  show "fst (ringbuf_put x r) = (length (ring_contents r) < ring_capacity r)"
    using i by (rule ring_put_accepts)
  show "ring_contents (snd (ringbuf_put x r)) =
    (if fst (ringbuf_put x r) then ring_contents r @ [x] else ring_contents r)"
    using i by (rule ring_put_contents)
  show "ring_capacity (snd (ringbuf_put x r)) = ring_capacity r"
    by (cases "fst (ringbuf_put x r)")
      (simp_all add: ringbuf_put_refused ringbuf_put_accepted ring_capacity_def)
  show "(ringbuf_get r = None) = (ring_contents r = [])" by (rule ring_get_empty)
  assume g: "ringbuf_get r = Some (x, r')"
  show "ring_contents r = x # ring_contents r'" "ring_invar r'"
    using ring_get_some [OF i g] by simp_all
qed

lemma ring_init_invar:
  assumes "k \<le> 31" "length storage = 2 ^ k" "unat n = 2 ^ k"
  shows "ring_invar (ringbuf_init storage n)" "ring_contents (ringbuf_init storage n) = []"
proof -
  have "n = of_nat (2 ^ k)" using assms(3) by (simp flip: assms(3))
  then have "n - 1 = mask k" by (simp add: mask_eq_exp_minus_1)
  then show "ring_invar (ringbuf_init storage n)"
    using assms by (auto simp: ring_invar_def ringbuf_init_def ringbuf_used_def)
  show "ring_contents (ringbuf_init storage n) = []"
    by (simp add: ring_contents_def ringbuf_init_def ringbuf_used_def)
qed

lemma feed_size: "length (rb_buf (snd (feed ringbuf_put xs r))) = length (rb_buf r)"
  by (induction xs arbitrary: r)
    (auto simp: ringbuf_put_def Let_def case_prod_unfold split: if_splits)

lemma drain_size: "length (rb_buf (snd (drain ringbuf_get n r))) = length (rb_buf r)"
  by (induction n arbitrary: r)
    (auto simp: ringbuf_get_def Let_def case_prod_unfold split: if_splits)

lemma ring_run_size:
  "length (rb_buf (snd (snd (run_stream (feed ringbuf_put) (drain ringbuf_get) ops r))))
     = length (rb_buf r)"
proof (induction ops arbitrary: r)
  case (Cons a ops)
  then show ?case by (cases a) (simp_all add: case_prod_unfold feed_size drain_size)
qed simp

section \<open>Properties\<close>

text \<open>
  The ring buffer never loses, duplicates or reorders a byte it accepted: after any sequence
  of writes and reads on an empty buffer of a power-of-two size, the bytes accepted are the
  bytes delivered followed by the bytes still held, across every wrap of the 32-bit counters.
\<close>

theorem ringbuf_fifo_order:
  assumes "k \<le> 31" "length storage = 2 ^ k" "unat n = 2 ^ k"
    and "run_stream ringbuf_write ringbuf_read ops (ringbuf_init storage n) = (inp, outp, r)"
  shows "inp = outp @ ring_contents r \<and> length (ring_contents r) \<le> 2 ^ k"
proof -
  note init = ring_init_invar [OF assms(1-3)]
  have run: "run_stream (feed ringbuf_put) (drain ringbuf_get) ops (ringbuf_init storage n)
      = (inp, outp, r)"
    using assms(4) by (simp add: ringbuf_write_def [abs_def] ringbuf_read_def [abs_def])
  have "ring_invar r" using ring.run_invar [OF init(1), of ops] run by simp
  moreover have "length (rb_buf r) = 2 ^ k"
    using ring_run_size [of ops "ringbuf_init storage n"] run assms(2)
    by (simp add: ringbuf_init_def)
  ultimately show ?thesis
    using ring.run_order [OF init(1) run] init(2) ring_fits [of r] by (simp add: ring_capacity_def)
qed

lemma ring_run_example:
  "fst (snd (run_stream ringbuf_write ringbuf_read [Push [1, 2, 3, 4, 5], Pull 2, Push [6]]
      (ringbuf_init [0, 0, 0, 0] 4))) = [1, 2]"
  by code_simp

lemma ringbuf_fifo_order_witness:
  "\<exists>inp outp r. run_stream ringbuf_write ringbuf_read [Push [1, 2, 3, 4, 5], Pull 2, Push [6]]
      (ringbuf_init [0, 0, 0, 0] 4) = (inp, outp, r) \<and> outp = [1, 2] \<and>
      inp = outp @ ring_contents r \<and> length (ring_contents r) \<le> 2 ^ 2"
proof -
  obtain inp outp r where run: "run_stream ringbuf_write ringbuf_read
      [Push [1, 2, 3, 4, 5], Pull 2, Push [6]] (ringbuf_init [0, 0, 0, 0] 4) = (inp, outp, r)"
    by (metis surj_pair)
  have "outp = [1, 2]"
    using run ring_run_example by simp
  moreover have "inp = outp @ ring_contents r \<and> length (ring_contents r) \<le> 2 ^ 2"
    by (rule ringbuf_fifo_order [OF _ _ _ run]) simp_all
  ultimately show ?thesis using run by blast
qed

end
