(* ===== verification/RK_Cipher.thy ===== *)
theory RK_Cipher
  imports RK_Hash
begin

text \<open>
  \<open>kernel/crypto/chacha20.c\<close>: the ChaCha20 block function and stream, and the CSPRNG that
  ratchets on it; and the interface \<open>byte_cipher\<close> of a byte transform that a second
  transform undoes, which ChaCha20 provides here and Kaalka's two reference transforms provide
  in \<open>RK_Kaalka\<close>.
\<close>

section \<open>The interface\<close>

locale byte_cipher =
  fixes enc :: "'k \<Rightarrow> u8 list \<Rightarrow> u8 list"
    and dec :: "'k \<Rightarrow> u8 list \<Rightarrow> u8 list"
  assumes enc_length: "length (enc k xs) = length xs"
    and dec_enc: "dec k (enc k xs) = xs"
begin

lemma enc_inj: "enc k xs = enc k ys \<Longrightarrow> xs = ys"
  by (metis dec_enc)

lemma dec_length: "length (dec k (enc k xs)) = length (enc k xs)"
  by (simp add: dec_enc enc_length)

end

section \<open>The block function\<close>

definition rol32 :: "u32 \<Rightarrow> nat \<Rightarrow> u32" where
  "rol32 x n = push_bit n x OR drop_bit (32 - n) x"

text \<open>The quarter round \<open>QR(a, b, c, d)\<close> on four words.\<close>

definition quarter :: "u32 \<times> u32 \<times> u32 \<times> u32 \<Rightarrow> u32 \<times> u32 \<times> u32 \<times> u32" where
  "quarter q = (case q of (a, b, c, d) \<Rightarrow>
     let a = a + b; d = rol32 (d XOR a) 16;
         c = c + d; b = rol32 (b XOR c) 12;
         a = a + b; d = rol32 (d XOR a) 8;
         c = c + d; b = rol32 (b XOR c) 7
     in (a, b, c, d))"

definition qr_at :: "nat \<times> nat \<times> nat \<times> nat \<Rightarrow> u32 list \<Rightarrow> u32 list" where
  "qr_at ix x = (case ix of (i, j, k, l) \<Rightarrow>
     case quarter (x ! i, x ! j, x ! k, x ! l) of (a, b, c, d) \<Rightarrow>
       x[i := a, j := b, k := c, l := d])"

definition double_round :: "u32 list \<Rightarrow> u32 list" where
  "double_round x = fold qr_at
     [(0, 4, 8, 12), (1, 5, 9, 13), (2, 6, 10, 14), (3, 7, 11, 15),
      (0, 5, 10, 15), (1, 6, 11, 12), (2, 7, 8, 13), (3, 4, 9, 14)] x"

definition chacha20_core :: "u32 list \<Rightarrow> u8 list" where
  "chacha20_core inp =
     (let x = (double_round ^^ 10) inp
      in concat (map (\<lambda>i. le_bytes 4 (x ! i + inp ! i)) [0..<16]))"

definition le32 :: "u8 list \<Rightarrow> nat \<Rightarrow> u32" where
  "le32 p i = ucast (p ! i) OR push_bit 8 (ucast (p ! (i + 1))) OR
     push_bit 16 (ucast (p ! (i + 2))) OR push_bit 24 (ucast (p ! (i + 3)))"

definition chacha20_init :: "u8 list \<Rightarrow> u8 list \<Rightarrow> u32 \<Rightarrow> u32 list" where
  "chacha20_init key nonce counter =
     [0x61707865, 0x3320646e, 0x79622d32, 0x6b206574] @
     map (\<lambda>i. le32 key (i * 4)) [0..<8] @ [counter] @ map (\<lambda>i. le32 nonce (i * 4)) [0..<3]"

section \<open>The stream\<close>

text \<open>\<open>chacha20_xor\<close>: one block of keystream per 64 bytes, the counter word incremented
  after each; the context is returned as it is left.\<close>

function chacha20_xor :: "u32 list \<Rightarrow> u8 list \<Rightarrow> u8 list \<times> u32 list" where
  "chacha20_xor st inp =
     (if inp = [] then ([], st)
      else
        let block = chacha20_core st;
            st = st[12 := st ! 12 + 1];
            n = (if length inp < 64 then length inp else 64);
            out = map (\<lambda>i. inp ! i XOR block ! i) [0..<n]
        in case chacha20_xor st (drop n inp) of (rest, st') \<Rightarrow> (out @ rest, st'))"
  by pat_completeness auto
termination
  by (relation "measure (\<lambda>(st, inp). length inp)") auto

declare chacha20_xor.simps [simp del]

text \<open>A null input is read as zeros.\<close>

definition chacha20_keystream :: "u32 list \<Rightarrow> nat \<Rightarrow> u8 list \<times> u32 list" where
  "chacha20_keystream st n = chacha20_xor st (replicate n 0)"

lemma chacha20_xor_nil [simp]: "chacha20_xor st [] = ([], st)"
  by (simp add: chacha20_xor.simps)

lemma chunk_min: "(if l < (64::nat) then l else 64) = min l 64"
  by simp

lemma chacha20_xor_step:
  "inp \<noteq> [] \<Longrightarrow> chacha20_xor st inp =
     (let n = min (length inp) 64
      in case chacha20_xor (st[12 := st ! 12 + 1]) (drop n inp) of (rest, st') \<Rightarrow>
        (map (\<lambda>i. inp ! i XOR chacha20_core st ! i) [0..<n] @ rest, st'))"
  by (simp add: chacha20_xor.simps [of st inp] Let_def chunk_min)

lemma chacha20_xor_length: "length (fst (chacha20_xor st inp)) = length inp"
proof (induction st inp rule: chacha20_xor.induct)
  case (1 st inp)
  show ?case
  proof (cases "inp = []")
    case False
    then show ?thesis
      using 1 [OF False refl refl refl refl] chacha20_xor_step [OF False, of st]
      by (auto simp: Let_def case_prod_unfold chunk_min)
  qed simp
qed

text \<open>The final context depends on the length only, and the output is an involution.\<close>

lemma chacha20_xor_state:
  "length a = length b \<Longrightarrow> snd (chacha20_xor st a) = snd (chacha20_xor st b)"
proof (induction st a arbitrary: b rule: chacha20_xor.induct)
  case (1 st a)
  show ?case
  proof (cases "a = []")
    case False
    define n where "n = min (length a) 64"
    have b: "b \<noteq> []" "min (length b) 64 = n" using False 1(2) by (auto simp: n_def)
    have "snd (chacha20_xor (st[12 := st ! 12 + 1]) (drop n a))
        = snd (chacha20_xor (st[12 := st ! 12 + 1]) (drop n b))"
      using 1(1) [OF False refl refl refl refl, of "drop n b"] 1(2)
      unfolding chunk_min n_def by simp
    then show ?thesis
      using chacha20_xor_step [OF False, of st] chacha20_xor_step [OF b(1), of st] b(2)
      by (simp add: n_def [symmetric] Let_def case_prod_unfold)
  qed (use 1(2) in simp)
qed

lemma chacha20_xor_twice: "fst (chacha20_xor st (fst (chacha20_xor st inp))) = inp"
proof (induction st inp rule: chacha20_xor.induct)
  case (1 st inp)
  show ?case
  proof (cases "inp = []")
    case False
    define n st' where "n = min (length inp) 64" and "st' = st[12 := st ! 12 + 1]"
    define o1 rest where "o1 = map (\<lambda>i. inp ! i XOR chacha20_core st ! i) [0..<n]"
      and "rest = fst (chacha20_xor st' (drop n inp))"
    have e: "fst (chacha20_xor st inp) = o1 @ rest"
      using chacha20_xor_step [OF False, of st]
      by (simp add: n_def st'_def o1_def rest_def Let_def case_prod_unfold)
    have l: "length o1 = n" "length rest = length inp - n" "n \<le> length inp" "0 < n"
      using False by (auto simp: o1_def rest_def chacha20_xor_length n_def)
    have IH: "fst (chacha20_xor st' rest) = drop n inp"
      using 1 [OF False refl refl refl refl]
      by (simp add: n_def st'_def rest_def chunk_min)
    have ne: "o1 @ rest \<noteq> []" "min (length (o1 @ rest)) 64 = n" using l by (auto simp: n_def)
    have "fst (chacha20_xor st (o1 @ rest)) =
        map (\<lambda>i. (o1 @ rest) ! i XOR chacha20_core st ! i) [0..<n] @ drop n inp"
      using chacha20_xor_step [OF ne(1), of st] ne(2) l IH
      by (simp add: st'_def Let_def case_prod_unfold)
    also have "map (\<lambda>i. (o1 @ rest) ! i XOR chacha20_core st ! i) [0..<n] = take n inp"
      using l by (auto simp: o1_def nth_append xor.assoc intro!: nth_equalityI)
    finally show ?thesis using e by simp
  qed simp
qed

interpretation chacha: byte_cipher
  "\<lambda>st xs. fst (chacha20_xor st xs)" "\<lambda>st xs. fst (chacha20_xor st xs)"
  by unfold_locales (simp_all add: chacha20_xor_length chacha20_xor_twice)

section \<open>The random number generator\<close>

record rng_state =
  rng_key :: "u8 list"
  rng_nonce :: "u8 list"
  rng_counter :: u64
  rng_entropy_bits :: u32
  rng_seeded :: bool
  rng_pool :: "u8 list"

text \<open>\<open>tsc\<close> is the cycle counter the call reads (\<open>arch_cycles\<close>).\<close>

definition rk_random_add_entropy :: "u64 \<Rightarrow> u8 list \<Rightarrow> u32 \<Rightarrow> rng_state \<Rightarrow> rng_state" where
  "rk_random_add_entropy tsc data estimated_bits r =
     (let c = sha256_init blank_ctx;
          c = sha256_update c (rng_pool r);
          c = sha256_update c data;
          c = sha256_update c (le_bytes 8 tsc);
          d = fst (sha256_final c);
          r = r\<lparr>rng_pool := memcpy_at (rng_pool r) 0 d\<rparr>;
          bits = rng_entropy_bits r + estimated_bits;
          r = r\<lparr>rng_entropy_bits := (if 4096 < bits then 4096 else bits)\<rparr>;
          k = sha256_init blank_ctx;
          k = sha256_update k (rng_key r);
          k = sha256_update k (rng_pool r);
          r = r\<lparr>rng_key := fst (sha256_final k)\<rparr>
      in if 128 \<le> rng_entropy_bits r then r\<lparr>rng_seeded := True\<rparr> else r)"

definition rk_random_bytes :: "nat \<Rightarrow> rng_state \<Rightarrow> u8 list \<times> rng_state" where
  "rk_random_bytes len r =
     (let nonce = concat (map (\<lambda>i. le_bytes 4 (ucast (drop_bit (i * 8) (rng_counter r)) :: u32)) [0..<3]);
          r = r\<lparr>rng_nonce := nonce, rng_counter := rng_counter r + 1\<rparr>;
          c = chacha20_init (rng_key r) nonce (ucast (rng_counter r));
          (buf, c) = chacha20_keystream c len;
          (next_key, c) = chacha20_keystream c 32
      in (buf, r\<lparr>rng_key := next_key\<rparr>))"

definition rk_random_u64 :: "rng_state \<Rightarrow> u64 \<times> rng_state" where
  "rk_random_u64 r = (case rk_random_bytes 8 r of (bs, r) \<Rightarrow> (le_word bs, r))"

definition rk_random_u32 :: "rng_state \<Rightarrow> u32 \<times> rng_state" where
  "rk_random_u32 r = (case rk_random_bytes 4 r of (bs, r) \<Rightarrow> (le_word bs, r))"

lemma rk_random_bytes_length:
  "rk_random_bytes n r = (buf, r') \<Longrightarrow> length buf = n \<and> length (rng_key r') = 32"
  by (auto simp: rk_random_bytes_def Let_def chacha20_keystream_def chacha20_xor_length
    case_prod_unfold)

section \<open>Properties\<close>

text \<open>
  ChaCha20 decrypts what it encrypted: two passes from the same context give back the input
  whatever its length, and leave the same context behind.
\<close>

theorem chacha20_roundtrip:
  "fst (chacha20_xor st (fst (chacha20_xor st msg))) = msg \<and>
   snd (chacha20_xor st (fst (chacha20_xor st msg))) = snd (chacha20_xor st msg)"
  by (rule conjI [OF chacha.dec_enc chacha20_xor_state [OF chacha.enc_length]])

end
