(* ===== verification/RK_Calendar.thy ===== *)
theory RK_Calendar
  imports RK_Prelude
begin

text \<open>
  Calendar arithmetic, \<open>kernel/lib/calendar.c\<close>: \<open>rk_gmtime\<close> breaks UNIX seconds
  into UTC fields and \<open>rk_mktime\<close> puts them together again. Kaalka keys off the
  broken-down time, so the two must be exact inverses. The loops that walk whole years and
  whole months are recursive functions with their termination proved; the index of
  \<open>mdays\<close> is shown to stay in range.
\<close>

record rk_tm =
  tm_year :: int
  tm_month :: int
  tm_day :: int
  tm_hour :: int
  tm_min :: int
  tm_sec :: int
  tm_yday :: int
  tm_wday :: int

definition is_leap :: "int \<Rightarrow> bool" where
  "is_leap y \<longleftrightarrow> (c_mod y 4 = 0 \<and> c_mod y 100 \<noteq> 0) \<or> c_mod y 400 = 0"

definition mdays :: "int list" where
  "mdays = [31, 28, 31, 30, 31, 30, 31, 31, 30, 31, 30, 31]"

definition year_len :: "int \<Rightarrow> int" where
  "year_len y = (if is_leap y then 366 else 365)"

definition month_len :: "int \<Rightarrow> nat \<Rightarrow> int" where
  "month_len y m = mdays ! m + (if m = 1 \<and> is_leap y then 1 else 0)"

text \<open>The loop that walks forward from 1970.\<close>

function year_forward :: "int \<Rightarrow> int \<Rightarrow> int \<times> int" where
  "year_forward year days =
     (if days < year_len year then (year, days)
      else year_forward (year + 1) (days - year_len year))"
  by pat_completeness auto
termination
  by (relation "measure (\<lambda>(year, days). nat days)") (auto simp: year_len_def split: if_splits)

text \<open>The loop that walks back while the day count is negative.\<close>

function year_back :: "int \<Rightarrow> int \<Rightarrow> int \<times> int" where
  "year_back year days =
     (if days < 0 then year_back (year - 1) (days + year_len (year - 1)) else (year, days))"
  by pat_completeness auto
termination
  by (relation "measure (\<lambda>(year, days). nat (- days))") (auto simp: year_len_def)

text \<open>The month loop; \<open>month_walk_days\<close> shows that it stops before \<open>mdays\<close> ends.\<close>

function month_walk :: "int \<Rightarrow> nat \<Rightarrow> int \<Rightarrow> nat \<times> int" where
  "month_walk year m days =
     (if 12 \<le> m \<or> days < month_len year m then (m, days)
      else month_walk year (Suc m) (days - month_len year m))"
  by pat_completeness auto
termination
  by (relation "measure (\<lambda>(year, m, days). 12 - m)") auto

declare year_forward.simps [simp del] year_back.simps [simp del] month_walk.simps [simp del]

definition rk_gmtime :: "int \<Rightarrow> rk_tm" where
  "rk_gmtime unix_sec =
     (let days = c_div unix_sec 86400;
          rem = c_mod unix_sec 86400;
          (days, rem) = (if rem < 0 then (days - 1, rem + 86400) else (days, rem));
          wday = c_mod (days + 4) 7;
          wday = (if wday < 0 then wday + 7 else wday);
          (year, yday) = (case year_forward 1970 days of (y, d) \<Rightarrow> year_back y d);
          (m, d) = month_walk year 0 yday
      in \<lparr>tm_year = year, tm_month = int m + 1, tm_day = d + 1,
          tm_hour = c_div rem 3600, tm_min = c_div (c_mod rem 3600) 60, tm_sec = c_mod rem 60,
          tm_yday = yday, tm_wday = wday\<rparr>)"

text \<open>The four loops of \<open>rk_mktime\<close> are sums over the years and months they visit.\<close>

definition rk_mktime :: "rk_tm \<Rightarrow> int" where
  "rk_mktime tm =
     (let days = sum_list (map year_len [1970..tm_year tm - 1]);
          days = days - sum_list (map year_len [tm_year tm..1969]);
          days = days + sum_list (map (month_len (tm_year tm)) [0..<min (nat (tm_month tm - 1)) 12]);
          days = days + (tm_day tm - 1)
      in days * 86400 + tm_hour tm * 3600 + tm_min tm * 60 + tm_sec tm)"

section \<open>Days before a year and before a month\<close>

definition days_before :: "int \<Rightarrow> int" where
  "days_before y = sum_list (map year_len [1970..y - 1]) - sum_list (map year_len [y..1969])"

definition month_offset :: "int \<Rightarrow> nat \<Rightarrow> int" where
  "month_offset y m = sum_list (map (month_len y) [0..<m])"

lemma days_before_1970: "days_before 1970 = 0"
  by (simp add: days_before_def)

lemma days_before_step: "days_before (y + 1) = days_before y + year_len y"
proof (cases "1970 \<le> y")
  case True
  then have "[1970..y] = [1970..y - 1] @ [y]" by (rule upto_rec2)
  then show ?thesis using True by (simp add: days_before_def)
next
  case False
  then have "[y..1969] = y # [y + 1..1969]" by (intro upto_rec1) simp
  then show ?thesis using False by (simp add: days_before_def)
qed

lemma year_len_pos: "0 < year_len y"
  by (simp add: year_len_def)

lemma year_forward_days:
  "year_forward y d = (y', d') \<Longrightarrow>
     days_before y' + d' = days_before y + d \<and> d' < year_len y' \<and> (0 \<le> d \<longrightarrow> 0 \<le> d')"
proof (induction y d rule: year_forward.induct)
  case (1 y d)
  show ?case
  proof (cases "d < year_len y")
    case True
    then show ?thesis using 1(2) by (simp add: year_forward.simps [of y d])
  next
    case False
    then have "year_forward (y + 1) (d - year_len y) = (y', d')"
      using 1(2) by (simp add: year_forward.simps [of y d])
    from 1(1) [OF False this] show ?thesis using False by (simp add: days_before_step)
  qed
qed

lemma year_back_days:
  "year_back y d = (y', d') \<Longrightarrow> d < year_len y \<Longrightarrow>
     days_before y' + d' = days_before y + d \<and> 0 \<le> d' \<and> d' < year_len y'"
proof (induction y d rule: year_back.induct)
  case (1 y d)
  show ?case
  proof (cases "d < 0")
    case True
    then have "year_back (y - 1) (d + year_len (y - 1)) = (y', d')"
      using 1(2) by (simp add: year_back.simps [of y d])
    from 1(1) [OF True this] show ?thesis using True days_before_step [of "y - 1"] by simp
  next
    case False
    then show ?thesis using 1(2,3) by (simp add: year_back.simps [of y d])
  qed
qed

lemma month_offset_step: "month_offset y (Suc m) = month_offset y m + month_len y m"
  by (simp add: month_offset_def)

lemma month_offset_12: "month_offset y 12 = year_len y"
proof -
  have "[0..<12::nat] = [0,1,2,3,4,5,6,7,8,9,10,11]" by (simp add: upt_conv_Cons)
  then show ?thesis by (simp add: month_offset_def month_len_def mdays_def year_len_def)
qed

lemma month_walk_days:
  "month_walk y m d = (m', d') \<Longrightarrow> m \<le> 12 \<Longrightarrow> 0 \<le> d \<Longrightarrow> month_offset y m + d < year_len y \<Longrightarrow>
     month_offset y m' + d' = month_offset y m + d \<and> m' < 12 \<and> 0 \<le> d' \<and> d' < month_len y m'"
proof (induction y m d rule: month_walk.induct)
  case (1 y m d)
  have m: "m < 12" using 1(3,4,5) month_offset_12 [of y] by (cases "m = 12") auto
  show ?case
  proof (cases "d < month_len y m")
    case True
    then show ?thesis using 1(2,4) m by (simp add: month_walk.simps [of y m d])
  next
    case False
    then have "month_walk y (Suc m) (d - month_len y m) = (m', d')"
      using 1(2) m by (simp add: month_walk.simps [of y m d])
    moreover have "\<not> (12 \<le> m \<or> d < month_len y m)" using m False by simp
    ultimately show ?thesis using 1(1) 1(5) m False by (simp add: month_offset_step)
  qed
qed

section \<open>Breaking time down\<close>

lemma floor_split:
  "(if c_mod t 86400 < 0 then (c_div t 86400 - 1, c_mod t 86400 + 86400)
    else (c_div t 86400, c_mod t 86400)) = (t div 86400, t mod 86400)"
proof -
  have m: "(if c_mod t 86400 < 0 then c_mod t 86400 + 86400 else c_mod t 86400) = t mod 86400"
    using c_mod_fix [of 86400 t] by simp
  have "86400 * c_div t 86400 + c_mod t 86400 = t" by (simp add: c_mod_def)
  then have "(if c_mod t 86400 < 0 then c_div t 86400 - 1 else c_div t 86400) = t div 86400"
    using m mult_div_mod_eq [of 86400 t] by (auto split: if_splits)
  then show ?thesis using m by (auto split: if_splits)
qed

text \<open>What the fields of the broken-down time are.\<close>

lemma rk_gmtime_fields:
  obtains y d m e where
    "days_before y + d = t div 86400" "0 \<le> d" "d < year_len y"
    "month_offset y m + e = d" "m < 12" "0 \<le> e" "e < month_len y m"
    "rk_gmtime t = \<lparr>tm_year = y, tm_month = int m + 1, tm_day = e + 1,
       tm_hour = (t mod 86400) div 3600, tm_min = ((t mod 86400) mod 3600) div 60,
       tm_sec = (t mod 86400) mod 60, tm_yday = d, tm_wday = (t div 86400 + 4) mod 7\<rparr>"
proof -
  obtain y0 d0 where f: "year_forward 1970 (t div 86400) = (y0, d0)"
    by (cases "year_forward 1970 (t div 86400)")
  obtain y d where b: "year_back y0 d0 = (y, d)" by (cases "year_back y0 d0")
  obtain m e where w: "month_walk y 0 d = (m, e)" by (cases "month_walk y 0 d")
  note F = year_forward_days [OF f]
  note B = year_back_days [OF b]
  have D: "days_before y + d = t div 86400" "0 \<le> d" "d < year_len y"
    using F B by (auto simp: days_before_1970)
  have M: "month_offset y m + e = d" "m < 12" "0 \<le> e" "e < month_len y m"
    using month_walk_days [OF w] D by (auto simp: month_offset_def)
  have wd: "(if c_mod (t div 86400 + 4) 7 < 0 then c_mod (t div 86400 + 4) 7 + 7
      else c_mod (t div 86400 + 4) 7) = (t div 86400 + 4) mod 7"
    using c_mod_fix [of 7] by simp
  have "rk_gmtime t = \<lparr>tm_year = y, tm_month = int m + 1, tm_day = e + 1,
       tm_hour = (t mod 86400) div 3600, tm_min = ((t mod 86400) mod 3600) div 60,
       tm_sec = (t mod 86400) mod 60, tm_yday = d, tm_wday = (t div 86400 + 4) mod 7\<rparr>"
    unfolding rk_gmtime_def Let_def floor_split
    by (simp add: f b w wd c_div_nonneg c_mod_nonneg)
  with D M that show thesis by blast
qed

lemma clock_range:
  fixes r :: int
  assumes "0 \<le> r" "r < 86400"
  shows "0 \<le> r div 3600" "r div 3600 < 24" "0 \<le> (r mod 3600) div 60" "(r mod 3600) div 60 < 60"
proof -
  show "0 \<le> r div 3600" using assms by (simp only: pos_imp_zdiv_nonneg_iff)
  show "r div 3600 < 24" using zdiv_mono1 [of r 86399 3600] assms(2) by simp
  have m: "0 \<le> r mod 3600" "r mod 3600 \<le> 3599"
    using pos_mod_sign [of 3600 r] pos_mod_bound [of 3600 r] by simp_all
  show "0 \<le> (r mod 3600) div 60" using m(1) by (simp only: pos_imp_zdiv_nonneg_iff)
  show "(r mod 3600) div 60 < 60" using zdiv_mono1 [OF m(2), of 60] by simp
qed

lemma clock_sum: "(r::int) div 3600 * 3600 + (r mod 3600) div 60 * 60 + r mod 60 = r"
proof -
  have "(r mod 3600) mod 60 = r mod 60" by (rule mod_mod_cancel) simp
  then show ?thesis
    using div_mult_mod_eq [of r 3600] div_mult_mod_eq [of "r mod 3600" 60] by linarith
qed

section \<open>Properties\<close>

text \<open>
  \<open>rk_mktime\<close> undoes \<open>rk_gmtime\<close> at every second, before 1970 as after it, leap
  years included.
\<close>

theorem mktime_gmtime: "rk_mktime (rk_gmtime t) = t"
proof -
  obtain y d m e where F: "days_before y + d = t div 86400" "month_offset y m + e = d" "m < 12"
    and g: "rk_gmtime t = \<lparr>tm_year = y, tm_month = int m + 1, tm_day = e + 1,
       tm_hour = (t mod 86400) div 3600, tm_min = ((t mod 86400) mod 3600) div 60,
       tm_sec = (t mod 86400) mod 60, tm_yday = d, tm_wday = (t div 86400 + 4) mod 7\<rparr>"
    by (rule rk_gmtime_fields)
  have "rk_mktime (rk_gmtime t) = (days_before y + month_offset y m + e) * 86400
      + ((t mod 86400) div 3600 * 3600 + ((t mod 86400) mod 3600) div 60 * 60
         + (t mod 86400) mod 60)"
    using F by (simp add: g rk_mktime_def Let_def days_before_def month_offset_def min_def)
  also have "\<dots> = t div 86400 * 86400 + t mod 86400"
    using F clock_sum [of "t mod 86400"] by (metis add.assoc)
  finally show ?thesis by simp
qed

text \<open>
  Every field of the broken-down time is in its calendar range: the month index stays inside
  \<open>mdays\<close>, the day exists in that month, the clock fields are those of the second of the
  day.
\<close>

theorem gmtime_in_range:
  "let tm = rk_gmtime t in
     1 \<le> tm_month tm \<and> tm_month tm \<le> 12 \<and>
     1 \<le> tm_day tm \<and> tm_day tm \<le> month_len (tm_year tm) (nat (tm_month tm - 1)) \<and>
     0 \<le> tm_yday tm \<and> tm_yday tm < year_len (tm_year tm) \<and>
     tm_hour tm = (t mod 86400) div 3600 \<and> 0 \<le> tm_hour tm \<and> tm_hour tm < 24 \<and>
     0 \<le> tm_min tm \<and> tm_min tm < 60 \<and> 0 \<le> tm_sec tm \<and> tm_sec tm < 60 \<and>
     0 \<le> tm_wday tm \<and> tm_wday tm < 7"
proof -
  obtain y d m e where F: "0 \<le> d" "d < year_len y" "m < 12" "0 \<le> e" "e < month_len y m"
    and g: "rk_gmtime t = \<lparr>tm_year = y, tm_month = int m + 1, tm_day = e + 1,
       tm_hour = (t mod 86400) div 3600, tm_min = ((t mod 86400) mod 3600) div 60,
       tm_sec = (t mod 86400) mod 60, tm_yday = d, tm_wday = (t div 86400 + 4) mod 7\<rparr>"
    by (rule rk_gmtime_fields)
  define hh mm ss where "hh = (t mod 86400) div 3600" and "mm = ((t mod 86400) mod 3600) div 60"
    and "ss = (t mod 86400) mod 60"
  have "0 \<le> t mod 86400" "t mod 86400 < 86400" by simp_all
  from clock_range [OF this]
  have C: "0 \<le> hh" "hh < 24" "0 \<le> mm" "mm < 60" "0 \<le> ss" "ss < 60"
    by (simp_all only: hh_def mm_def ss_def pos_mod_sign pos_mod_bound zero_less_numeral)
  show ?thesis
    using F C unfolding g Let_def hh_def [symmetric] mm_def [symmetric] ss_def [symmetric]
    by simp
qed

lemma gmtime_clock:
  "tm_hour (rk_gmtime t) = (t mod 86400) div 3600"
  "tm_min (rk_gmtime t) = ((t mod 86400) mod 3600) div 60"
  "tm_sec (rk_gmtime t) = (t mod 86400) mod 60"
  by (rule rk_gmtime_fields [of t], simp)+

end
