(* ===== verification/RK_Trig.thy ===== *)
theory RK_Trig
  imports RK_Cipher RK_Calendar
begin

text \<open>
  The first two layers of \<open>kernel/crypto/kaalka.c\<close>: Q32.32 fixed-point trigonometry, the
  clock angles, and the reference byte transforms. A \<open>kq_t\<close> is an \<open>int\<close>; the casts of the
  128-bit intermediate results back to 64 bits wrap (\<open>s64_wrap\<close>). Both byte transforms are
  shown to satisfy \<open>byte_cipher\<close>.
\<close>

section \<open>Fixed point\<close>

definition kq_from_int :: "int \<Rightarrow> int" where
  "kq_from_int v = v * 2 ^ 32"

definition KQ_ONE :: int where
  "KQ_ONE = 2 ^ 32"

definition kq_mul :: "int \<Rightarrow> int \<Rightarrow> int" where
  "kq_mul a b = s64_wrap ((a * b) div 2 ^ 32)"

definition kq_div :: "int \<Rightarrow> int \<Rightarrow> int" where
  "kq_div a b = (if b \<noteq> 0 then s64_wrap (c_div (a * 2 ^ 32) b) else 0)"

definition KQ_DEG2RAD :: int where
  "KQ_DEG2RAD = 74961321"

definition KQ_90 :: int where "KQ_90 = 90 * 2 ^ 32"
definition KQ_180 :: int where "KQ_180 = 180 * 2 ^ 32"
definition KQ_360 :: int where "KQ_360 = 360 * 2 ^ 32"

definition KQ_CLAMP :: int where
  "KQ_CLAMP = 2 ^ 52"

definition kq_round :: "int \<Rightarrow> int" where
  "kq_round v =
     (if 0 \<le> v then (v + KQ_ONE div 2) div 2 ^ 32 else - ((- v + KQ_ONE div 2) div 2 ^ 32))"

definition kq_normalize_deg :: "int \<Rightarrow> int" where
  "kq_normalize_deg d = (let d = c_mod d KQ_360 in if d < 0 then d + KQ_360 else d)"

text \<open>The series loop over the given term numbers; a zero term ends it.\<close>

fun sin_terms :: "int \<Rightarrow> int list \<Rightarrow> int \<Rightarrow> int \<Rightarrow> int" where
  "sin_terms rad2 [] term acc = acc"
| "sin_terms rad2 (n # ns) term acc =
     (let term = kq_mul term rad2;
          term = c_div term ((2 * n) * (2 * n + 1));
          acc = (if odd n then acc - term else acc + term)
      in if term = 0 then acc else sin_terms rad2 ns term acc)"

definition sin_series :: "int \<Rightarrow> int" where
  "sin_series rad = sin_terms (kq_mul rad rad) [1, 2, 3, 4, 5, 6, 7, 8] rad rad"

definition kq_sin :: "int \<Rightarrow> int" where
  "kq_sin degrees =
     (let d = kq_normalize_deg degrees;
          (d, sign) = (if KQ_180 \<le> d then (d - KQ_180, - 1) else (d, 1 :: int));
          d = (if KQ_90 < d then KQ_180 - d else d);
          v = sin_series (kq_mul d KQ_DEG2RAD)
      in if 0 < sign then v else - v)"

definition kq_cos :: "int \<Rightarrow> int" where
  "kq_cos degrees = kq_sin (degrees + KQ_90)"

text \<open>The clamp both \<open>tan\<close> and \<open>cot\<close> apply to a quotient.\<close>

definition kq_ratio :: "int \<Rightarrow> int \<Rightarrow> int" where
  "kq_ratio num den =
     (if den = 0 then if 0 \<le> num then KQ_CLAMP else - KQ_CLAMP
      else let t = kq_div num den in
        if KQ_CLAMP < t then KQ_CLAMP else if t < - KQ_CLAMP then - KQ_CLAMP else t)"

definition kq_tan :: "int \<Rightarrow> int" where
  "kq_tan degrees = kq_ratio (kq_sin degrees) (kq_cos degrees)"

definition kq_cot :: "int \<Rightarrow> int" where
  "kq_cot degrees = kq_ratio (kq_cos degrees) (kq_sin degrees)"

section \<open>The clock\<close>

record kaalka_time =
  kt_hour :: u8
  kt_min :: u8
  kt_sec :: u8

record kaalka_angles =
  ka_hour_min :: int
  ka_min_sec :: int
  ka_hour_sec :: int

definition kaalka_set_time :: "int \<Rightarrow> int \<Rightarrow> int \<Rightarrow> kaalka_time" where
  "kaalka_set_time h m s =
     \<lparr>kt_hour = word_of_int (c_mod (c_mod h 12 + 12) 12),
      kt_min = word_of_int (c_mod (c_mod m 60 + 60) 60),
      kt_sec = word_of_int (c_mod (c_mod s 60 + 60) 60)\<rparr>"

text \<open>\<open>now\<close> is what \<open>rk_unix_time\<close> returns.\<close>

definition kaalka_time_now :: "int \<Rightarrow> kaalka_time" where
  "kaalka_time_now now =
     (let tm = rk_gmtime now in kaalka_set_time (tm_hour tm) (tm_min tm) (tm_sec tm))"

definition hand_gap :: "int \<Rightarrow> int \<Rightarrow> int" where
  "hand_gap a b = (let d = (if b < a then a - b else b - a) in min d (KQ_360 - d))"

definition kaalka_angles :: "kaalka_time \<Rightarrow> kaalka_angles" where
  "kaalka_angles k =
     (let h = kq_from_int (30 * uint (kt_hour k))
            + kq_div (kq_from_int (uint (kt_min k))) (kq_from_int 2)
            + kq_div (kq_from_int (uint (kt_sec k))) (kq_from_int 120);
          m = kq_from_int (6 * uint (kt_min k))
            + kq_div (kq_from_int (uint (kt_sec k))) (kq_from_int 10);
          s = kq_from_int (6 * uint (kt_sec k))
      in \<lparr>ka_hour_min = hand_gap h m, ka_min_sec = hand_gap m s, ka_hour_sec = hand_gap h s\<rparr>)"

definition kaalka_select_trig :: "int \<Rightarrow> int" where
  "kaalka_select_trig angle_deg =
     (let a = kq_normalize_deg angle_deg;
          quadrant = c_div a KQ_90
      in if quadrant = 0 then kq_sin a
         else if quadrant = 1 then kq_cos a
         else if quadrant = 2 then kq_tan a
         else kq_cot a)"

section \<open>The reference transforms\<close>

definition classic_trig :: "kaalka_time \<Rightarrow> int" where
  "classic_trig k =
     (let ang = kaalka_angles k
      in kaalka_select_trig (ka_hour_min ang) + kaalka_select_trig (ka_min_sec ang)
         + kaalka_select_trig (ka_hour_sec ang))"

definition classic_offset :: "kaalka_time \<Rightarrow> int \<Rightarrow> nat \<Rightarrow> int" where
  "classic_offset k t i =
     (let factor = uint (kt_hour k) + uint (kt_min k) + uint (kt_sec k) + int i + 1;
          scaled = t * factor;
          whole = s64_wrap (scaled div 2 ^ 32);
          frac = scaled mod 2 ^ 32;
          whole = (if KQ_ONE div 2 \<le> frac then whole + 1 else whole)
      in whole + int i + 1)"

definition classic_apply :: "kaalka_time \<Rightarrow> u8 list \<Rightarrow> bool \<Rightarrow> u8 list" where
  "classic_apply k inp encrypt =
     (let t = classic_trig k in
      map (\<lambda>i.
        let offset = classic_offset k t i;
            v = (if encrypt then uint (inp ! i) + offset else uint (inp ! i) - offset);
            v = c_mod v 256;
            v = (if v < 0 then v + 256 else v)
        in word_of_int v) [0..<length inp])"

definition kaalka_classic_encrypt :: "kaalka_time \<Rightarrow> u8 list \<Rightarrow> u8 list" where
  "kaalka_classic_encrypt k inp = classic_apply k inp True"

definition kaalka_classic_decrypt :: "kaalka_time \<Rightarrow> u8 list \<Rightarrow> u8 list" where
  "kaalka_classic_decrypt k inp = classic_apply k inp False"

definition kaalka_proc :: "kaalka_time \<Rightarrow> u8 list \<Rightarrow> bool \<Rightarrow> u8 list" where
  "kaalka_proc k inp encrypt =
     (let key = ucast (kt_hour k) * 3600 + ucast (kt_min k) * 60 + ucast (kt_sec k) :: u32;
          key = (if key = 0 then 1 else key)
      in map (\<lambda>i.
           let offset = ucast ((ucast key + of_nat i :: u64) mod 256) :: u32;
               x = ucast (inp ! i) :: u32
           in ucast ((if encrypt then x + offset else x - offset) AND 0xff))
         [0..<length inp])"

lemma s64_mod_256: "word_of_int (v mod 256) = (word_of_int v :: u8)"
proof -
  have "v mod 256 = take_bit 8 v" by (simp add: take_bit_eq_mod)
  then show ?thesis by (simp add: word_of_int_eq_iff)
qed

lemma classic_apply_nth:
  "i < length inp \<Longrightarrow> classic_apply k inp e ! i =
     (if e then inp ! i + word_of_int (classic_offset k (classic_trig k) i)
      else inp ! i - word_of_int (classic_offset k (classic_trig k) i))"
  by (simp add: classic_apply_def Let_def c_mod_fix s64_mod_256)

lemma length_classic_apply: "length (classic_apply k inp e) = length inp"
  by (simp add: classic_apply_def Let_def)

interpretation classic: byte_cipher kaalka_classic_encrypt kaalka_classic_decrypt
proof unfold_locales
  fix k xs
  show "length (kaalka_classic_encrypt k xs) = length xs"
    by (simp add: kaalka_classic_encrypt_def length_classic_apply)
  show "kaalka_classic_decrypt k (kaalka_classic_encrypt k xs) = xs"
    by (intro nth_equalityI)
      (simp_all add: kaalka_classic_encrypt_def kaalka_classic_decrypt_def
        length_classic_apply classic_apply_nth)
qed

lemma ucast_and_255: "ucast (x AND 0xff :: u32) = (ucast x :: u8)"
proof -
  have "(0xff :: u32) = mask 8" by (simp add: mask_eq_exp_minus_1)
  then show ?thesis
    by (simp add: bit_eq_iff bit_simps)
qed

lemma ucast_u8_add: "ucast (a + b :: u32) = (ucast a + ucast b :: u8)"
proof transfer
  fix a b :: int
  have "take_bit 8 (take_bit 32 a + take_bit 32 b)
      = take_bit 8 (take_bit 8 (take_bit 32 a) + take_bit 8 (take_bit 32 b))"
    by (rule take_bit_add [symmetric])
  then show "take_bit LENGTH(8) (take_bit LENGTH(32) (a + b))
      = take_bit LENGTH(8) (take_bit LENGTH(32) a + take_bit LENGTH(32) b)"
    by (simp add: take_bit_add min_def)
qed

lemma ucast_u8_diff: "ucast (a - b :: u32) = (ucast a - ucast b :: u8)"
proof transfer
  fix a b :: int
  have "take_bit 8 (take_bit 32 a - take_bit 32 b)
      = take_bit 8 (take_bit 8 (take_bit 32 a) - take_bit 8 (take_bit 32 b))"
    by (rule take_bit_diff [symmetric])
  then show "take_bit LENGTH(8) (take_bit LENGTH(32) (a - b))
      = take_bit LENGTH(8) (take_bit LENGTH(32) a - take_bit LENGTH(32) b)"
    by (simp add: take_bit_diff min_def)
qed

lemma ucast_u8_u32: "ucast (ucast (x :: u8) :: u32) = x"
  by transfer (simp add: min_def)

definition proc_offset :: "kaalka_time \<Rightarrow> nat \<Rightarrow> u8" where
  "proc_offset k i =
     (let key = ucast (kt_hour k) * 3600 + ucast (kt_min k) * 60 + ucast (kt_sec k) :: u32
      in ucast (ucast ((ucast (if key = 0 then 1 else key) + of_nat i :: u64) mod 256) :: u32))"

lemma proc_nth:
  "i < length inp \<Longrightarrow> kaalka_proc k inp e ! i =
     (if e then inp ! i + proc_offset k i else inp ! i - proc_offset k i)"
  by (simp add: kaalka_proc_def proc_offset_def Let_def ucast_and_255 ucast_u8_add ucast_u8_diff
    ucast_u8_u32)

lemma length_kaalka_proc: "length (kaalka_proc k inp e) = length inp"
  by (simp add: kaalka_proc_def Let_def)

interpretation stream_proc: byte_cipher "\<lambda>k xs. kaalka_proc k xs True" "\<lambda>k xs. kaalka_proc k xs False"
  by unfold_locales
    (auto intro!: nth_equalityI simp: length_kaalka_proc proc_nth)

section \<open>The range of the angles\<close>

lemma kq_div_int:
  assumes "0 \<le> a" "a < 2 ^ 30" "0 < b"
  shows "kq_div (kq_from_int a) (kq_from_int b) = (a * 2 ^ 32) div b"
proof -
  have "(a * 2 ^ 32 * 2 ^ 32) div (b * 2 ^ 32) = (a * 2 ^ 32) div b" by (rule div_mult_mult2) simp
  moreover have "(a * 2 ^ 32) div b \<le> (a * 2 ^ 32) div 1"
    using assms by (intro zdiv_mono2) auto
  moreover have "0 \<le> (a * 2 ^ 32) div b"
    using assms by (simp add: pos_imp_zdiv_nonneg_iff)
  ultimately show ?thesis
    using assms by (simp add: kq_div_def kq_from_int_def c_div_nonneg)
qed

lemma hand_gap_range: "0 \<le> a \<Longrightarrow> a \<le> KQ_360 \<Longrightarrow> 0 \<le> b \<Longrightarrow> b \<le> KQ_360 \<Longrightarrow>
    0 \<le> hand_gap a b \<and> hand_gap a b \<le> KQ_180"
  by (auto simp: hand_gap_def Let_def KQ_360_def KQ_180_def)

lemma set_time_range:
  "uint (kt_hour (kaalka_set_time h m s)) < 12" "uint (kt_min (kaalka_set_time h m s)) < 60"
  "uint (kt_sec (kaalka_set_time h m s)) < 60"
proof -
  have *: "uint (word_of_int (c_mod (c_mod x b + b) b) :: u8) < b" if "0 < b" "b \<le> 60" for x b
  proof -
    have "0 \<le> c_mod (c_mod x b + b) b" "c_mod (c_mod x b + b) b < b"
      using that c_mod_bounds [of b x] by (simp_all add: c_mod_nonneg)
    then show ?thesis using that by (simp add: unsigned_of_int take_bit_int_eq_self)
  qed
  show "uint (kt_hour (kaalka_set_time h m s)) < 12" "uint (kt_min (kaalka_set_time h m s)) < 60"
    "uint (kt_sec (kaalka_set_time h m s)) < 60"
    by (simp_all add: kaalka_set_time_def *)
qed

text \<open>
  Every separation of two clock hands is taken the short way round: for any time that
  \<open>kaalka_set_time\<close> produces, the three angles lie between 0 and 180 degrees.
\<close>

theorem kaalka_angles_range:
  "let a = kaalka_angles (kaalka_set_time h m s) in
     (0 \<le> ka_hour_min a \<and> ka_hour_min a \<le> KQ_180) \<and>
     (0 \<le> ka_min_sec a \<and> ka_min_sec a \<le> KQ_180) \<and>
     (0 \<le> ka_hour_sec a \<and> ka_hour_sec a \<le> KQ_180)"
proof -
  define k where "k = kaalka_set_time h m s"
  define x y z where "x = uint (kt_hour k)" and "y = uint (kt_min k)" and "z = uint (kt_sec k)"
  have r: "0 \<le> x" "x < 12" "0 \<le> y" "y < 60" "0 \<le> z" "z < 60"
    using set_time_range [of h m s] by (auto simp: x_def y_def z_def k_def)
  have d: "kq_div (kq_from_int y) (kq_from_int 2) = (y * 2 ^ 32) div 2"
    "kq_div (kq_from_int z) (kq_from_int 120) = (z * 2 ^ 32) div 120"
    "kq_div (kq_from_int z) (kq_from_int 10) = (z * 2 ^ 32) div 10"
    using r by (simp_all add: kq_div_int)
  have "(z * 2 ^ 32) div 120 \<le> (60 * 2 ^ 32) div 120" "0 \<le> (z * 2 ^ 32) div 120"
    "(z * 2 ^ 32) div 10 \<le> (60 * 2 ^ 32) div 10" "0 \<le> (z * 2 ^ 32) div 10"
    "(y * 2 ^ 32) div 2 \<le> (59 * 2 ^ 32) div 2" "0 \<le> (y * 2 ^ 32) div 2"
    using r by (simp_all add: zdiv_mono1 pos_imp_zdiv_nonneg_iff del: div_mult_self1_is_m)
  then have "0 \<le> kq_from_int (30 * x) + (y * 2 ^ 32) div 2 + (z * 2 ^ 32) div 120"
    "kq_from_int (30 * x) + (y * 2 ^ 32) div 2 + (z * 2 ^ 32) div 120 \<le> KQ_360"
    "0 \<le> kq_from_int (6 * y) + (z * 2 ^ 32) div 10"
    "kq_from_int (6 * y) + (z * 2 ^ 32) div 10 \<le> KQ_360"
    "0 \<le> kq_from_int (6 * z)" "kq_from_int (6 * z) \<le> KQ_360"
    using r by (auto simp: kq_from_int_def KQ_360_def)
  then show ?thesis
    by (simp add: kaalka_angles_def Let_def d hand_gap_range
      flip: k_def x_def y_def z_def)
qed

text \<open>
  Both reference transforms decrypt what they encrypted under the same clock reading, for
  every clock reading and every message.
\<close>

theorem kaalka_transforms_roundtrip:
  "kaalka_classic_decrypt k (kaalka_classic_encrypt k msg) = msg \<and>
   kaalka_proc k (kaalka_proc k msg True) False = msg"
  by (rule conjI [OF classic.dec_enc stream_proc.dec_enc])

end
