(* ===== verification/RK_Encode.thy ===== *)
theory RK_Encode
  imports RK_Prelude
begin

text \<open>
  \<open>kernel/crypto/util.c\<close>: CRC-32, FNV-1a and SipHash, and the hex and base64 encodings.
  A C string is the list of its characters before the terminator. A destination of
  \<open>dstlen\<close> bytes truncates as the source does.
\<close>

section \<open>Checksums\<close>

definition crc_bit :: "u32 \<Rightarrow> u32" where
  "crc_bit crc = drop_bit 1 crc XOR (0xEDB88320 AND - (crc AND 1))"

definition crc_byte :: "u8 \<Rightarrow> u32 \<Rightarrow> u32" where
  "crc_byte b crc = (crc_bit ^^ 8) (crc XOR ucast b)"

definition rk_crc32 :: "u32 \<Rightarrow> u8 list \<Rightarrow> u32" where
  "rk_crc32 seed data = NOT (fold crc_byte data (NOT seed))"

definition rk_fnv1a :: "u8 list \<Rightarrow> u64" where
  "rk_fnv1a data = fold (\<lambda>b h. (h XOR ucast b) * 0x100000001b3) data 0xcbf29ce484222325"

definition sip_rotl :: "u64 \<Rightarrow> nat \<Rightarrow> u64" where
  "sip_rotl x b = push_bit b x OR drop_bit (64 - b) x"

fun sip_round :: "u64 \<times> u64 \<times> u64 \<times> u64 \<Rightarrow> u64 \<times> u64 \<times> u64 \<times> u64" where
  "sip_round (v0, v1, v2, v3) =
     (let v0 = v0 + v1; v1 = sip_rotl v1 13; v1 = v1 XOR v0; v0 = sip_rotl v0 32;
          v2 = v2 + v3; v3 = sip_rotl v3 16; v3 = v3 XOR v2;
          v0 = v0 + v3; v3 = sip_rotl v3 21; v3 = v3 XOR v0;
          v2 = v2 + v1; v1 = sip_rotl v1 17; v1 = v1 XOR v2; v2 = sip_rotl v2 32
      in (v0, v1, v2, v3))"

text \<open>One absorbed word: \<open>v3 ^= m\<close>, two rounds, \<open>v0 ^= m\<close>.\<close>

definition sip_absorb :: "u64 \<Rightarrow> u64 \<times> u64 \<times> u64 \<times> u64 \<Rightarrow> u64 \<times> u64 \<times> u64 \<times> u64" where
  "sip_absorb m v = (case v of (v0, v1, v2, v3) \<Rightarrow>
     case sip_round (sip_round (v0, v1, v2, v3 XOR m)) of (v0, v1, v2, v3) \<Rightarrow>
       (v0 XOR m, v1, v2, v3))"

definition rk_siphash :: "u8 list \<Rightarrow> u8 list \<Rightarrow> u64" where
  "rk_siphash data key =
     (let k0 = le_word (take 8 key) :: u64; k1 = le_word (take 8 (drop 8 key));
          v = (k0 XOR 0x736f6d6570736575, k1 XOR 0x646f72616e646f6d,
               k0 XOR 0x6c7967656e657261, k1 XOR 0x7465646279746573);
          blocks = length data div 8;
          v = fold (\<lambda>i. sip_absorb (le_word (take 8 (drop (i * 8) data)))) [0..<blocks] v;
          tail = push_bit 56 (of_nat (length data) AND 0xff) OR le_word (drop (blocks * 8) data)
      in case sip_absorb tail v of (v0, v1, v2, v3) \<Rightarrow>
         case (sip_round ^^ 4) (v0, v1, v2 XOR 0xff, v3) of (v0, v1, v2, v3) \<Rightarrow>
           v0 XOR v1 XOR v2 XOR v3)"

section \<open>Hex\<close>

definition hexchars :: string where
  "hexchars = ''0123456789abcdef''"

text \<open>The loop stops when two characters and the terminator no longer fit; \<open>n\<close> is what
  has been written.\<close>

fun hex_loop :: "nat \<Rightarrow> nat \<Rightarrow> u8 list \<Rightarrow> string" where
  "hex_loop dstlen n [] = []"
| "hex_loop dstlen n (b # bs) =
     (if dstlen \<le> n + 2 then []
      else hexchars ! unat (drop_bit 4 b) # hexchars ! unat (b AND 0xf)
        # hex_loop dstlen (n + 2) bs)"

definition rk_hex_encode :: "nat \<Rightarrow> u8 list \<Rightarrow> string" where
  "rk_hex_encode dstlen src = hex_loop dstlen 0 src"

text \<open>\<open>-1\<close> for a character that is no digit.\<close>

definition hexval :: "char \<Rightarrow> int" where
  "hexval c =
     (let v = of_char c :: int in
      if of_char (CHR ''0'') \<le> v \<and> v \<le> of_char (CHR ''9'') then v - of_char (CHR ''0'')
      else if of_char (CHR ''a'') \<le> v \<and> v \<le> of_char (CHR ''f'') then v - of_char (CHR ''a'') + 10
      else if of_char (CHR ''A'') \<le> v \<and> v \<le> of_char (CHR ''F'') then v - of_char (CHR ''A'') + 10
      else -1)"

fun hex_decode_loop :: "nat \<Rightarrow> u8 list \<Rightarrow> string \<Rightarrow> u8 list result" where
  "hex_decode_loop dstlen d (a # b # src) =
     (let hi = hexval a; lo = hexval b in
      if hi < 0 \<or> lo < 0 then Inl EINVAL
      else if dstlen \<le> length d then Inl ENOSPC
      else hex_decode_loop dstlen (d @ [word_of_int (hi * 16 + lo)]) src)"
| "hex_decode_loop dstlen d [a] = Inl EINVAL"
| "hex_decode_loop dstlen d [] = Inr d"

definition rk_hex_decode :: "nat \<Rightarrow> string \<Rightarrow> u8 list result" where
  "rk_hex_decode dstlen src = hex_decode_loop dstlen [] src"

section \<open>Base64\<close>

definition b64chars :: string where
  "b64chars = ''ABCDEFGHIJKLMNOPQRSTUVWXYZabcdefghijklmnopqrstuvwxyz0123456789+/''"

definition b64_at :: "u32 \<Rightarrow> nat \<Rightarrow> char" where
  "b64_at v sh = b64chars ! unat (drop_bit sh v AND 0x3f)"

definition b64_group :: "u8 list \<Rightarrow> u32" where
  "b64_group g = push_bit 16 (ucast (g ! 0)) OR
     (if 1 < length g then push_bit 8 (ucast (g ! 1)) else 0) OR
     (if 2 < length g then ucast (g ! 2) else 0)"

definition b64_quad :: "u8 list \<Rightarrow> string" where
  "b64_quad g = (let v = b64_group g in
     [b64_at v 18, b64_at v 12, if 1 < length g then b64_at v 6 else CHR ''='',
      if 2 < length g then b64_at v 0 else CHR ''='']) "

function b64_loop :: "nat \<Rightarrow> nat \<Rightarrow> u8 list \<Rightarrow> string" where
  "b64_loop dstlen n src =
     (if src = [] then []
      else if dstlen \<le> n + 4 then []
      else b64_quad (take 3 src) @ b64_loop dstlen (n + 4) (drop 3 src))"
  by pat_completeness auto
termination
  by (relation "measure (\<lambda>(dstlen, n, src). length src)") auto

declare b64_loop.simps [simp del]

definition rk_base64_encode :: "nat \<Rightarrow> u8 list \<Rightarrow> string" where
  "rk_base64_encode dstlen src = b64_loop dstlen 0 src"

fun find_index :: "'a \<Rightarrow> 'a list \<Rightarrow> nat option" where
  "find_index x [] = None"
| "find_index x (y # ys) = (if x = y then Some 0 else map_option Suc (find_index x ys))"

fun b64_decode_loop :: "nat \<Rightarrow> u8 list \<Rightarrow> u32 \<Rightarrow> nat \<Rightarrow> string \<Rightarrow> u8 list result" where
  "b64_decode_loop dstlen d acc bits [] = Inr d"
| "b64_decode_loop dstlen d acc bits (c # src) =
     (if c = CHR ''='' then Inr d
      else case find_index c b64chars of None \<Rightarrow> Inl EINVAL
      | Some q \<Rightarrow>
          let acc = push_bit 6 acc OR of_nat q; bits = bits + 6 in
          if 8 \<le> bits then
            (if dstlen \<le> length d then Inl ENOSPC
             else b64_decode_loop dstlen (d @ [ucast (drop_bit (bits - 8) acc)]) acc (bits - 8) src)
          else b64_decode_loop dstlen d acc bits src)"

definition rk_base64_decode :: "nat \<Rightarrow> string \<Rightarrow> u8 list result" where
  "rk_base64_decode dstlen src = b64_decode_loop dstlen [] 0 0 src"

section \<open>Round trips\<close>

lemma less_16_cases: "n < 16 \<Longrightarrow> n \<in> {0, 1, 2, 3, 4, 5, 6, 7, 8, 9, 10, 11, 12, 13, 14, 15::nat}"
  by (simp, presburger)

lemma hexval_hexchars: "n < 16 \<Longrightarrow> hexval (hexchars ! n) = int n"
  by (drule less_16_cases) (auto simp: hexval_def hexchars_def)

lemma nibbles:
  fixes b :: u8
  shows "unat (drop_bit 4 b) < 16" "unat (b AND 0xf) < 16"
    "word_of_int (int (unat (drop_bit 4 b)) * 16 + int (unat (b AND 0xf))) = b"
proof -
  have m: "b AND 0xf = take_bit 4 b" by (simp add: take_bit_eq_mask mask_eq_exp_minus_1)
  have t: "unat (b AND 0xf) = unat b mod 16"
    by (simp only: m unsigned_take_bit_eq) (simp add: take_bit_eq_mod)
  have d: "unat (drop_bit 4 b) = unat b div 16" by (simp only: unat_drop_bit_eq) (simp add: drop_bit_eq_div)
  have "unat b < 256" using unsigned_less [of b] by simp
  then show "unat (drop_bit 4 b) < 16" "unat (b AND 0xf) < 16" by (auto simp: t d)
  have "int (unat b div 16) * 16 + int (unat b mod 16) = int (unat b)"
    by (metis div_mult_mod_eq of_nat_add of_nat_mult of_nat_numeral)
  then show "word_of_int (int (unat (drop_bit 4 b)) * 16 + int (unat (b AND 0xf))) = b"
    by (simp add: t d)
qed


lemma hex_loop_decodes:
  "n + 2 * length src < dstlen \<Longrightarrow> length d + length src \<le> m \<Longrightarrow>
     hex_decode_loop m d (hex_loop dstlen n src) = Inr (d @ src)"
proof (induction src arbitrary: n d)
  case (Cons b bs)
  have "hex_decode_loop m (d @ [b]) (hex_loop dstlen (n + 2) bs) = Inr ((d @ [b]) @ bs)"
    using Cons.prems by (intro Cons.IH) auto
  then show ?case
    using Cons.prems nibbles [of b] by (simp add: hexval_hexchars)
qed simp

text \<open>
  Every buffer survives the hex encoding: a destination with room for two digits a byte
  and the terminator decodes to the same bytes.
\<close>

theorem hex_roundtrip:
  "2 * length src < dstlen \<Longrightarrow> length src \<le> m \<Longrightarrow>
     rk_hex_decode m (rk_hex_encode dstlen src) = Inr src"
  by (simp add: rk_hex_decode_def rk_hex_encode_def hex_loop_decodes)

theorem hex_roundtrip_witness:
  "rk_hex_decode 2 (rk_hex_encode 5 [0xde, 0x0f]) = Inr [0xde, 0x0f]"
  using hex_roundtrip [of "[0xde, 0x0f]" 5 2] by simp

text \<open>The checksum of two chunks is the checksum of the first fed as the seed of the second.\<close>

lemma crc32_incremental: "rk_crc32 (rk_crc32 seed a) b = rk_crc32 seed (a @ b)"
  by (simp add: rk_crc32_def)

subsection \<open>Base64 groups\<close>

lemma b64chars_distinct: "distinct b64chars" "length b64chars = 64" "CHR ''='' \<notin> set b64chars"
  by (simp_all add: b64chars_def)

lemma find_index_nth: "distinct xs \<Longrightarrow> n < length xs \<Longrightarrow> find_index (xs ! n) xs = Some n"
  by (induction xs arbitrary: n) (auto simp: nth_Cons split: nat.splits)

lemma find_index_Some: "find_index x xs = Some i \<Longrightarrow> i < length xs \<and> xs ! i = x"
  by (induction xs arbitrary: i) (auto split: if_splits)

lemma b64_at_digit:
  "b64_at v sh \<noteq> CHR ''=''" "find_index (b64_at v sh) b64chars = Some (unat (drop_bit sh v AND 0x3f))"
proof -
  have "drop_bit sh v AND 0x3f = take_bit 6 (drop_bit sh v)"
    by (simp add: take_bit_eq_mask mask_eq_exp_minus_1)
  then have "unat (drop_bit sh v AND 0x3f) < 64"
    using take_bit_nat_less_exp [of 6 "unat (drop_bit sh v)"]
    by (simp only: unsigned_take_bit_eq) simp
  then have "b64_at v sh \<in> set b64chars"
    "find_index (b64_at v sh) b64chars = Some (unat (drop_bit sh v AND 0x3f))"
    using b64chars_distinct by (simp_all add: b64_at_def find_index_nth)
  then show "b64_at v sh \<noteq> CHR ''=''"
    "find_index (b64_at v sh) b64chars = Some (unat (drop_bit sh v AND 0x3f))"
    using b64chars_distinct by auto
qed

text \<open>One digit in the decoder's loop.\<close>

definition sextet :: "u32 \<Rightarrow> u32 \<Rightarrow> nat \<Rightarrow> u32" where
  "sextet acc v sh = push_bit 6 acc OR (drop_bit sh v AND 0x3f)"

lemma b64_step:
  "b64_decode_loop m d acc bits (b64_at v sh # src) =
     (if 2 \<le> bits then
        (if m \<le> length d then Inl ENOSPC
         else b64_decode_loop m (d @ [ucast (drop_bit (bits - 2) (sextet acc v sh))])
                (sextet acc v sh) (bits - 2) src)
      else b64_decode_loop m d (sextet acc v sh) (bits + 6) src)"
  by (simp add: b64_at_digit sextet_def)

lemma less_8_cases: "n < 8 \<Longrightarrow> n \<in> {0, 1, 2, 3, 4, 5, 6, 7::nat}"
  by (simp, presburger)

lemma less_len8_cases: "n < LENGTH(8) \<Longrightarrow> n \<in> {0, 1, 2, 3, 4, 5, 6, 7}"
  using less_8_cases [of n] by simp

lemma bit_u8: "8 \<le> n \<Longrightarrow> \<not> bit (w :: u8) n"
  using bit_imp_le_length [of w n] by auto

lemma bit_0x3f: "bit (0x3f :: u32) n \<longleftrightarrow> n < 6"
proof -
  have "(0x3f :: u32) = mask 6" by (simp add: mask_eq_exp_minus_1)
  then show ?thesis by (simp only: bit_mask_iff) auto
qed

lemma b64_bytes:
  fixes acc v :: u32 and a b c :: u8
  assumes v: "v = push_bit 16 (ucast a) OR push_bit 8 (ucast b) OR ucast c"
  shows "ucast (drop_bit 4 (sextet (sextet acc v 18) v 12)) = a"
    "ucast (drop_bit 2 (sextet (sextet acc v 12) v 6)) = b"
    "ucast (sextet (sextet acc v 6) v 0) = c"
  unfolding v sextet_def
  by (rule bit_word_eqI, drule less_len8_cases, elim insertE emptyE;
      simp add: bit_simps bit_0x3f bit_u8)+

lemma b64_decode_quad:
  assumes "length d + 3 \<le> m"
  shows "\<exists>acc'. b64_decode_loop m d acc 0 (b64_quad [a, b, c] @ src)
    = b64_decode_loop m (d @ [a, b, c]) acc' 0 src"
proof -
  have v: "b64_group [a, b, c] = push_bit 16 (ucast a) OR push_bit 8 (ucast b) OR ucast c"
    by (simp add: b64_group_def)
  show ?thesis
    using assms
    by (auto simp: b64_quad_def Let_def b64_step b64_bytes [OF v]
      simp del: b64_decode_loop.simps(2))
qed

lemma b64_decode_pad: "b64_decode_loop m d acc bits (CHR ''='' # src) = Inr d"
  by simp

lemma b64_decode_last:
  assumes "g = [a] \<or> g = [a, b]" "length d + length g \<le> m"
  shows "b64_decode_loop m d acc 0 (b64_quad g) = Inr (d @ g)"
  using assms(1)
proof
  assume g: "g = [a]"
  have v: "b64_group g = push_bit 16 (ucast a) OR push_bit 8 (ucast (0::u8)) OR ucast (0::u8)"
    by (simp add: g b64_group_def)
  show ?thesis
    using assms(2) g
    by (simp add: b64_quad_def Let_def b64_step b64_bytes [OF v [unfolded g]] b64_decode_pad
      del: b64_decode_loop.simps(2))
next
  assume g: "g = [a, b]"
  have v: "b64_group g = push_bit 16 (ucast a) OR push_bit 8 (ucast b) OR ucast (0::u8)"
    by (simp add: g b64_group_def)
  show ?thesis
    using assms(2) g
    by (simp add: b64_quad_def Let_def b64_step b64_bytes [OF v [unfolded g]] b64_decode_pad
      del: b64_decode_loop.simps(2))
qed

lemma b64_loop_decodes:
  "n + 4 * ((length src + 2) div 3) < dstlen \<Longrightarrow> length d + length src \<le> m \<Longrightarrow>
     b64_decode_loop m d acc 0 (b64_loop dstlen n src) = Inr (d @ src)"
proof (induction dstlen n src arbitrary: d acc rule: b64_loop.induct)
  case (1 dstlen n src)
  consider "src = []" | a where "src = [a]" | a b where "src = [a, b]"
    | a b c rest where "src = a # b # c # rest"
    by (metis neq_Nil_conv)
  then show ?case
  proof cases
    case 1
    then show ?thesis by (simp add: b64_loop.simps)
  next
    case 2
    then show ?thesis
      using "1.prems" b64_decode_last [of src a _ d m acc] by (simp add: b64_loop.simps)
  next
    case 3
    then show ?thesis
      using "1.prems" b64_decode_last [of src _ _ d m acc] by (simp add: b64_loop.simps)
  next
    case (4 a b c rest)
    have "length src + 2 = length rest + 2 + 3" using 4 by simp
    then have "(length src + 2) div 3 = (length rest + 2) div 3 + 1"
      by (simp only: div_add_self2)
    then have room: "n + 4 + 4 * ((length rest + 2) div 3) < dstlen"
      using "1.prems"(1) by linarith
    obtain acc' where q: "b64_decode_loop m d acc 0
        (b64_quad [a, b, c] @ b64_loop dstlen (n + 4) rest)
      = b64_decode_loop m (d @ [a, b, c]) acc' 0 (b64_loop dstlen (n + 4) rest)"
      using b64_decode_quad "1.prems"(2) 4 by fastforce
    have "b64_decode_loop m (d @ [a, b, c]) acc' 0 (b64_loop dstlen (n + 4) rest)
        = Inr ((d @ [a, b, c]) @ rest)"
      using "1.IH" [of "d @ [a, b, c]" acc'] "1.prems"(2) room 4 by simp
    then show ?thesis
      using q room 4 by (simp add: b64_loop.simps [of dstlen n "a # b # c # rest"])
  qed
qed

text \<open>
  The base64 decoder inverts the encoder on every buffer, whatever its length modulo three,
  when the destination has room for four digits a group and the terminator.
\<close>

theorem base64_roundtrip:
  "4 * ((length src + 2) div 3) < dstlen \<Longrightarrow> length src \<le> m \<Longrightarrow>
     rk_base64_decode m (rk_base64_encode dstlen src) = Inr src"
  by (simp add: rk_base64_decode_def rk_base64_encode_def b64_loop_decodes)

theorem base64_roundtrip_witness:
  "rk_base64_decode 4 (rk_base64_encode 9 [1, 2, 3, 250]) = Inr [1, 2, 3, 250]"
  using base64_roundtrip [of "[1, 2, 3, 250]" 9 4] by simp

end
