(* ===== verification/RK_Kaalka.thy ===== *)
theory RK_Kaalka
  imports RK_Trig RK_Encode
begin

text \<open>
  The kernel protocol layer of \<open>kernel/crypto/kaalka.c\<close>: epoch keys, temporal seals, the
  replay ledger and the authenticated envelope. \<open>now\<close> is the value \<open>rk_unix_time\<close>
  returns during the operation; the keying state the functions share through globals is the
  record \<open>kaalka\<close>.
\<close>

section \<open>Epochs\<close>

record kaalka_stats =
  ks_seals_made :: u64
  ks_seals_verified :: u64
  ks_seals_rejected :: u64
  ks_seals_expired :: u64
  ks_envelopes_sealed :: u64
  ks_envelopes_opened :: u64
  ks_replays_blocked :: u64
  ks_rekeys :: u64
  ks_current_epoch :: u64

record kaalka =
  k_master :: "u8 list"
  k_epoch_key :: "u8 list"
  k_epoch :: u64
  k_ready :: bool
  k_stats :: kaalka_stats

definition kaalka_epoch_of :: "int \<Rightarrow> u64" where
  "kaalka_epoch_of unix_sec = (let s = (if unix_sec < 0 then 0 else unix_sec) in u64_of s div 60)"

definition kaalka_epoch_start :: "u64 \<Rightarrow> int" where
  "kaalka_epoch_start e = s64_of (e * 60)"

definition kaalka_salt :: "u8 list" where
  "kaalka_salt = bytes_of_string ''RESENTMENT/kaalka/v1''"

text \<open>The HKDF info: epoch, the three angles at the start of the epoch, purpose.\<close>

definition kaalka_info :: "u64 \<Rightarrow> string \<Rightarrow> u8 list" where
  "kaalka_info epoch purpose =
     (let tm = rk_gmtime (kaalka_epoch_start epoch);
          ang = kaalka_angles (kaalka_set_time (tm_hour tm) (tm_min tm) (tm_sec tm))
      in le_bytes 8 epoch @ le_bytes 8 (u64_of (ka_hour_min ang)) @
         le_bytes 8 (u64_of (ka_min_sec ang)) @ le_bytes 8 (u64_of (ka_hour_sec ang)) @
         strlcpy0 32 (bytes_of_string purpose))"

definition kaalka_derive_key :: "u8 list \<Rightarrow> u64 \<Rightarrow> string \<Rightarrow> nat \<Rightarrow> u8 list" where
  "kaalka_derive_key master epoch purpose outlen =
     hkdf_sha256 kaalka_salt master (kaalka_info epoch purpose) outlen"

definition kaalka_rekey :: "int \<Rightarrow> kaalka \<Rightarrow> kaalka" where
  "kaalka_rekey now k =
     (let e = kaalka_epoch_of now
      in k\<lparr>k_epoch := e, k_epoch_key := kaalka_derive_key (k_master k) e ''epoch'' 32,
           k_stats := (k_stats k)\<lparr>ks_rekeys := ks_rekeys (k_stats k) + 1, ks_current_epoch := e\<rparr>\<rparr>)"

definition refresh_epoch :: "int \<Rightarrow> kaalka \<Rightarrow> kaalka" where
  "refresh_epoch now k = (if kaalka_epoch_of now \<noteq> k_epoch k then kaalka_rekey now k else k)"

definition kaalka_init :: "int \<Rightarrow> kaalka \<Rightarrow> rng_state \<Rightarrow> kaalka \<times> rng_state" where
  "kaalka_init now k r =
     (case rk_random_bytes 32 r of (m, r) \<Rightarrow>
       ((kaalka_rekey now (k\<lparr>k_master := m\<rparr>))\<lparr>k_ready := True\<rparr>, r))"

definition kaalka_stats_read :: "kaalka \<Rightarrow> kaalka_stats" where
  "kaalka_stats_read k = (k_stats k)\<lparr>ks_current_epoch := k_epoch k\<rparr>"

section \<open>Seals\<close>

record kaalka_seal =
  s_mac :: "u8 list"
  s_epoch :: u64
  s_not_before :: int
  s_not_after :: int
  s_seq :: u64
  s_subject :: u64

definition seal_header :: "kaalka_seal \<Rightarrow> u64 \<Rightarrow> nat \<Rightarrow> u8 list" where
  "seal_header s subject len =
     le_bytes 8 subject @ le_bytes 8 (s_seq s) @ le_bytes 8 (s_epoch s) @
     le_bytes 8 (u64_of (s_not_before s)) @ le_bytes 8 (u64_of (s_not_after s)) @
     le_bytes 8 (of_nat len :: u64)"

definition seal_mac :: "u8 list \<Rightarrow> kaalka_seal \<Rightarrow> u64 \<Rightarrow> u8 list \<Rightarrow> u8 list" where
  "seal_mac master s subject payload =
     (let key = kaalka_derive_key master (s_epoch s) ''seal'' 32;
          c = hmac_sha256_init key;
          c = hmac_sha256_update c (seal_header s subject (length payload));
          c = (if payload \<noteq> [] then hmac_sha256_update c payload else c)
      in hmac_sha256_final c)"

definition kaalka_seal_make ::
  "int \<Rightarrow> u64 \<Rightarrow> u64 \<Rightarrow> u8 list \<Rightarrow> u64 \<Rightarrow> kaalka \<Rightarrow> kaalka_seal \<times> kaalka" where
  "kaalka_seal_make now subject seq payload lifetime_sec k =
     (let k = refresh_epoch now k;
          s = \<lparr>s_mac = [], s_epoch = kaalka_epoch_of now, s_not_before = now,
               s_not_after = s64_wrap (now + s64_of (if lifetime_sec \<noteq> 0 then lifetime_sec else 60)),
               s_seq = seq, s_subject = subject\<rparr>;
          s = s\<lparr>s_mac := seal_mac (k_master k) s subject payload\<rparr>;
          st = k_stats k
      in (s, k\<lparr>k_stats := st\<lparr>ks_seals_made := ks_seals_made st + 1\<rparr>\<rparr>))"

definition kaalka_seal_verify ::
  "int \<Rightarrow> kaalka_seal \<Rightarrow> u64 \<Rightarrow> u8 list \<Rightarrow> kaalka \<Rightarrow> unit result \<times> kaalka" where
  "kaalka_seal_verify now s subject payload k =
     (let st = k_stats k in
      if now < s_not_before s \<or> (s_not_after s \<noteq> 0 \<and> s_not_after s \<le> now) then
        (Inl EEXPIRED, k\<lparr>k_stats := st\<lparr>ks_seals_expired := ks_seals_expired st + 1\<rparr>\<rparr>)
      else if s_subject s \<noteq> subject then (Inl ESEAL, k)
      else if rk_ct_eq (seal_mac (k_master k) s subject payload) (s_mac s) 32 then
        (Inr (), k\<lparr>k_stats := st\<lparr>ks_seals_verified := ks_seals_verified st + 1\<rparr>\<rparr>)
      else (Inl ESEAL, k\<lparr>k_stats := st\<lparr>ks_seals_rejected := ks_seals_rejected st + 1\<rparr>\<rparr>))"

text \<open>The half-open window a seal is good for; a zero \<open>not_after\<close> means no end.\<close>

definition in_window :: "kaalka_seal \<Rightarrow> int \<Rightarrow> bool" where
  "in_window s t \<longleftrightarrow> s_not_before s \<le> t \<and> (s_not_after s = 0 \<or> t < s_not_after s)"

section \<open>The sealing interface\<close>

text \<open>
  What a client of the sealing service (the capability system, the envelope) relies on: a seal
  stands for its subject and payload exactly inside its window, and using the service never
  invalidates a seal. \<open>key\<close> is the part of the service's state a seal depends on.
\<close>

locale seal_service =
  fixes make :: "int \<Rightarrow> u64 \<Rightarrow> u64 \<Rightarrow> u8 list \<Rightarrow> u64 \<Rightarrow> 's \<Rightarrow> 'seal \<times> 's"
    and verify :: "int \<Rightarrow> 'seal \<Rightarrow> u64 \<Rightarrow> u8 list \<Rightarrow> 's \<Rightarrow> unit result \<times> 's"
    and window :: "'seal \<Rightarrow> int \<Rightarrow> bool"
    and key :: "'s \<Rightarrow> 'k"
  assumes make_key: "key (snd (make now subj seq p life s)) = key s"
    and verify_key: "key (snd (verify t seal subj p s)) = key s"
    and made_verifies: "fst (make now subj seq p life s) = seal \<Longrightarrow> window seal t \<Longrightarrow> key s' = key s \<Longrightarrow>
      fst (verify t seal subj p s') = Inr ()"
    and outside_expired: "\<not> window seal t \<Longrightarrow> fst (verify t seal subj p s) = Inl EEXPIRED"
    and other_subject: "fst (make now subj seq p life s) = seal \<Longrightarrow> window seal t \<Longrightarrow> subj' \<noteq> subj \<Longrightarrow>
      fst (verify t seal subj' p' s') = Inl ESEAL"
begin

fun seal_traffic :: "(int \<times> 'seal \<times> u64 \<times> u8 list + int \<times> u64 \<times> u64 \<times> u8 list \<times> u64) list \<Rightarrow> 's \<Rightarrow> 's" where
  "seal_traffic [] s = s"
| "seal_traffic (Inl (t, x, subj, p) # ops) s = seal_traffic ops (snd (verify t x subj p s))"
| "seal_traffic (Inr (t, subj, seq, p, life) # ops) s =
     seal_traffic ops (snd (make t subj seq p life s))"

lemma traffic_key: "key (seal_traffic ops s) = key s"
  by (induction ops s rule: seal_traffic.induct) (simp_all add: make_key verify_key)

text \<open>A seal keeps its meaning whatever else the service is asked to do.\<close>

lemma seal_lasts:
  assumes "make now subj seq p life s = (seal, s')"
  shows "fst (verify t seal subj p (seal_traffic ops s')) =
    (if window seal t then Inr () else Inl EEXPIRED)"
proof -
  have "key (seal_traffic ops s') = key s"
    using make_key [of now subj seq p life s] assms by (simp add: traffic_key)
  then show ?thesis
    using made_verifies [of now subj seq p life s seal] outside_expired assms by simp
qed

end

lemma refresh_epoch_master [simp]: "k_master (refresh_epoch now k) = k_master k"
  by (simp add: refresh_epoch_def kaalka_rekey_def Let_def)

lemma seal_make_master [simp]: "k_master (snd (kaalka_seal_make now subject seq p life k)) = k_master k"
  by (simp add: kaalka_seal_make_def Let_def)

lemma seal_verify_master [simp]: "k_master (snd (kaalka_seal_verify t s subject p k)) = k_master k"
  by (simp add: kaalka_seal_verify_def Let_def)

lemma seal_make_fields:
  "s_not_before (fst (kaalka_seal_make now subject seq p life k)) = now"
  "s_not_after (fst (kaalka_seal_make now subject seq p life k))
     = s64_wrap (now + s64_of (if life \<noteq> 0 then life else 60))"
  "s_subject (fst (kaalka_seal_make now subject seq p life k)) = subject"
  "s_seq (fst (kaalka_seal_make now subject seq p life k)) = seq"
  "s_epoch (fst (kaalka_seal_make now subject seq p life k)) = kaalka_epoch_of now"
  by (simp_all add: kaalka_seal_make_def Let_def)

text \<open>The MAC is HMAC-SHA256, in one piece, of header and payload.\<close>

lemma seal_mac_spec:
  "seal_mac m s subject p =
     hmac_spec (kaalka_derive_key m (s_epoch s) ''seal'' 32) (seal_header s subject (length p) @ p)"
proof -
  let ?key = "kaalka_derive_key m (s_epoch s) ''seal'' 32"
  let ?h = "seal_header s subject (length p)"
  have "hmac_absorbed (hmac_sha256_update (hmac_sha256_init ?key) ?h) ?key ?h"
    using hmac_absorbed_update [OF hmac_absorbed_init] by force
  then show ?thesis
    using hmac_final_spec hmac_absorbed_update by (auto simp: seal_mac_def Let_def)
qed

lemma seal_make_mac:
  "s_mac (fst (kaalka_seal_make now subject seq p life k))
     = seal_mac (k_master k) (fst (kaalka_seal_make now subject seq p life k)) subject p"
  by (simp add: kaalka_seal_make_def Let_def seal_mac_spec seal_header_def)

lemma length_seal_mac [simp]: "length (seal_mac m s subject p) = 32"
  by (simp add: seal_mac_spec length_hmac_spec)

interpretation kaalka_seals: seal_service kaalka_seal_make kaalka_seal_verify in_window k_master
proof unfold_locales
  fix now t subj subj' seq p p' life and s s' :: kaalka and seal
  show "k_master (snd (kaalka_seal_make now subj seq p life s)) = k_master s" by simp
  show "k_master (snd (kaalka_seal_verify t seal subj p s)) = k_master s" by simp
  show "\<not> in_window seal t \<Longrightarrow> fst (kaalka_seal_verify t seal subj p s) = Inl EEXPIRED"
    by (auto simp: kaalka_seal_verify_def in_window_def Let_def)
  assume m: "fst (kaalka_seal_make now subj seq p life s) = seal" and w: "in_window seal t"
  note F = seal_make_fields [of now subj seq p life s] seal_make_mac [of now subj seq p life s]
  show "k_master s' = k_master s \<Longrightarrow> fst (kaalka_seal_verify t seal subj p s') = Inr ()"
    using w F(3,6) m by (auto simp: kaalka_seal_verify_def in_window_def Let_def rk_ct_eq_same)
  show "subj' \<noteq> subj \<Longrightarrow> fst (kaalka_seal_verify t seal subj' p' s') = Inl ESEAL"
    using w F(3) m by (auto simp: kaalka_seal_verify_def in_window_def Let_def)
qed

section \<open>The replay ledger\<close>

record ledger_slot =
  ls_subject :: u64
  ls_seq :: u64
  ls_epoch :: u64

record kaalka_ledger =
  kl_slots :: "ledger_slot list"
  kl_accepted :: u64
  kl_rejected :: u64
  kl_evicted :: u64

definition kaalka_ledger_init :: kaalka_ledger where
  "kaalka_ledger_init =
     \<lparr>kl_slots = replicate 1024 \<lparr>ls_subject = 0, ls_seq = 0, ls_epoch = 0\<rparr>,
      kl_accepted = 0, kl_rejected = 0, kl_evicted = 0\<rparr>"

definition ledger_idx :: "u64 \<Rightarrow> u64 \<Rightarrow> nat" where
  "ledger_idx subject seq = unat (subject * 0x9E3779B97F4A7C15 + seq) mod 1024"

definition ledger_probe :: "u64 \<Rightarrow> u64 \<Rightarrow> nat \<Rightarrow> nat" where
  "ledger_probe subject seq i = (ledger_idx subject seq + i) mod 1024"

definition ledger_hit :: "u64 \<Rightarrow> u64 \<Rightarrow> u64 \<Rightarrow> ledger_slot \<Rightarrow> bool" where
  "ledger_hit now subject seq s \<longleftrightarrow> ls_subject s = subject \<and> ls_seq s = seq \<and> now \<le> ls_epoch s + 2"

definition ledger_free :: "u64 \<Rightarrow> ledger_slot \<Rightarrow> bool" where
  "ledger_free now s \<longleftrightarrow> ls_epoch s = 0 \<or> ls_epoch s + 2 < now"

definition kaalka_ledger_check ::
  "int \<Rightarrow> u64 \<Rightarrow> u64 \<Rightarrow> kaalka_ledger \<Rightarrow> unit result \<times> kaalka_ledger" where
  "kaalka_ledger_check clock subject seq l =
     (let now = kaalka_epoch_of clock;
          probe = ledger_probe subject seq;
          entry = \<lparr>ls_subject = subject, ls_seq = seq, ls_epoch = now\<rparr>
      in case find (\<lambda>i. ledger_hit now subject seq (kl_slots l ! probe i)) [0..<8] of
           Some i \<Rightarrow> (Inl EREPLAY, l\<lparr>kl_rejected := kl_rejected l + 1\<rparr>)
         | None \<Rightarrow>
             (case find (\<lambda>i. ledger_free now (kl_slots l ! probe i)) [0..<8] of
                Some i \<Rightarrow> (Inr (), l\<lparr>kl_slots := (kl_slots l)[probe i := entry],
                                    kl_accepted := kl_accepted l + 1\<rparr>)
              | None \<Rightarrow> (Inr (), l\<lparr>kl_slots := (kl_slots l)[ledger_idx subject seq := entry],
                                  kl_evicted := kl_evicted l + 1,
                                  kl_accepted := kl_accepted l + 1\<rparr>)))"

definition ledger_ok :: "kaalka_ledger \<Rightarrow> bool" where
  "ledger_ok l \<longleftrightarrow> length (kl_slots l) = 1024"

text \<open>An entry that the probes of its pair reach.\<close>

definition ledger_knows :: "u64 \<Rightarrow> u64 \<Rightarrow> u64 \<Rightarrow> kaalka_ledger \<Rightarrow> bool" where
  "ledger_knows e subject seq l \<longleftrightarrow>
     (\<exists>i < 8. kl_slots l ! ledger_probe subject seq i
        = \<lparr>ls_subject = subject, ls_seq = seq, ls_epoch = e\<rparr>)"

lemma ledger_init_ok: "ledger_ok kaalka_ledger_init"
  by (simp add: ledger_ok_def kaalka_ledger_init_def)

lemma ledger_check_ok: "ledger_ok l \<Longrightarrow> ledger_ok (snd (kaalka_ledger_check now subject seq l))"
  by (simp add: ledger_ok_def kaalka_ledger_check_def Let_def split: option.split)

lemma ledger_probe_less: "ledger_probe subject seq i < 1024"
  by (simp add: ledger_probe_def)

lemma ledger_probe_0: "ledger_probe subject seq 0 = ledger_idx subject seq"
  by (simp add: ledger_probe_def ledger_idx_def)

text \<open>Whatever is accepted is recorded where it will be probed for.\<close>

lemma ledger_accept_knows:
  assumes "ledger_ok l" "kaalka_ledger_check now subject seq l = (Inr (), l')"
  shows "ledger_knows (kaalka_epoch_of now) subject seq l'"
proof -
  let ?entry = "\<lparr>ls_subject = subject, ls_seq = seq, ls_epoch = kaalka_epoch_of now\<rparr>"
  obtain i where i: "i < 8" "kl_slots l' = (kl_slots l)[ledger_probe subject seq i := ?entry]"
    using assms(2)
    by (auto simp: kaalka_ledger_check_def Let_def find_Some_iff split: option.splits)
      (metis ledger_probe_0 zero_less_numeral)
  then show ?thesis
    using assms(1) ledger_probe_less unfolding ledger_knows_def ledger_ok_def
    by (intro exI [of _ i]) simp
qed

lemma ledger_replay:
  assumes "ledger_knows e subject seq l" "kaalka_epoch_of now \<le> e + 2"
  shows "fst (kaalka_ledger_check now subject seq l) = Inl EREPLAY"
proof -
  obtain i where "i < 8" "ledger_hit (kaalka_epoch_of now) subject seq
      (kl_slots l ! ledger_probe subject seq i)"
    using assms by (auto simp: ledger_knows_def ledger_hit_def)
  then have "find (\<lambda>i. ledger_hit (kaalka_epoch_of now) subject seq
      (kl_slots l ! ledger_probe subject seq i)) [0..<8] \<noteq> None"
    by (auto simp: find_None_iff)
  then show ?thesis by (auto simp: kaalka_ledger_check_def Let_def)
qed

text \<open>A check that evicts nothing keeps every entry that is not stale.\<close>

lemma ledger_check_keeps:
  assumes "ledger_knows e subject seq l" "e \<noteq> 0" "kaalka_epoch_of now \<le> e + 2" "ledger_ok l"
    and "kaalka_ledger_check now sub' seq' l = (r, l')" "kl_evicted l' = kl_evicted l"
  shows "ledger_knows e subject seq l'"
proof -
  obtain i where i: "i < 8" "kl_slots l ! ledger_probe subject seq i
      = \<lparr>ls_subject = subject, ls_seq = seq, ls_epoch = e\<rparr>"
    using assms(1) by (auto simp: ledger_knows_def)
  consider "kl_slots l' = kl_slots l"
    | j entry where "kl_slots l' = (kl_slots l)[j := entry]"
        "ledger_free (kaalka_epoch_of now) (kl_slots l ! j)"
    using assms(5,6)
    by (auto simp: kaalka_ledger_check_def Let_def find_Some_iff split: option.splits)
  then show ?thesis
  proof cases
    case 2
    have "j \<noteq> ledger_probe subject seq i"
      using 2(2) i(2) assms(2,3) by (auto simp: ledger_free_def)
    then show ?thesis using 2(1) i unfolding ledger_knows_def by auto
  qed (use i in \<open>auto simp: ledger_knows_def\<close>)
qed

text \<open>A run of checks; \<open>quiet\<close> says that none of them had to evict a live entry and
  that all happen before the end of epoch \<open>bound\<close>.\<close>

fun ledger_run :: "(int \<times> u64 \<times> u64) list \<Rightarrow> kaalka_ledger \<Rightarrow> kaalka_ledger" where
  "ledger_run [] l = l"
| "ledger_run ((t, sub, seq) # cs) l = ledger_run cs (snd (kaalka_ledger_check t sub seq l))"

fun ledger_quiet :: "u64 \<Rightarrow> (int \<times> u64 \<times> u64) list \<Rightarrow> kaalka_ledger \<Rightarrow> bool" where
  "ledger_quiet bound [] l = True"
| "ledger_quiet bound ((t, sub, seq) # cs) l =
     (kaalka_epoch_of t \<le> bound \<and>
      kl_evicted (snd (kaalka_ledger_check t sub seq l)) = kl_evicted l \<and>
      ledger_quiet bound cs (snd (kaalka_ledger_check t sub seq l)))"

lemma ledger_run_keeps:
  "ledger_knows e subject seq l \<Longrightarrow> e \<noteq> 0 \<Longrightarrow> ledger_ok l \<Longrightarrow> ledger_quiet (e + 2) cs l \<Longrightarrow>
     ledger_knows e subject seq (ledger_run cs l)"
proof (induction cs l rule: ledger_run.induct)
  case (2 t sub sq cs l)
  obtain r l' where c: "kaalka_ledger_check t sub sq l = (r, l')"
    by (cases "kaalka_ledger_check t sub sq l")
  have "ledger_knows e subject seq l'" "ledger_ok l'"
    using 2 c ledger_check_keeps [OF 2(2,3) _ 2(4) c] ledger_check_ok [OF 2(4), of t sub sq] by auto
  then show ?case using 2 c by simp
qed simp

section \<open>Envelopes\<close>

record kaalka_envelope =
  ev_ver :: u32
  ev_ct_len :: u32
  ev_sender :: u64
  ev_receiver :: u64
  ev_seq :: u64
  ev_epoch :: u64
  ev_timestamp :: int
  ev_nonce :: "u8 list"
  ev_seal :: kaalka_seal

definition ENVELOPE_SIZE :: nat where
  "ENVELOPE_SIZE = 136"

text \<open>The 64 bytes before the seal field, the four padding bytes zero.\<close>

definition envelope_header :: "kaalka_envelope \<Rightarrow> u8 list" where
  "envelope_header e =
     le_bytes 4 (ev_ver e) @ le_bytes 4 (ev_ct_len e) @ le_bytes 8 (ev_sender e) @
     le_bytes 8 (ev_receiver e) @ le_bytes 8 (ev_seq e) @ le_bytes 8 (ev_epoch e) @
     le_bytes 8 (u64_of (ev_timestamp e)) @ ev_nonce e @ [0, 0, 0, 0]"

definition envelope_digest :: "kaalka_envelope \<Rightarrow> u8 list \<Rightarrow> u8 list" where
  "envelope_digest e ct =
     (let c = sha256_init blank_ctx;
          c = sha256_update c (envelope_header e);
          c = sha256_update c ct
      in fst (sha256_final c))"

definition envelope_cipher :: "u8 list \<Rightarrow> kaalka_envelope \<Rightarrow> u8 list \<Rightarrow> u8 list" where
  "envelope_cipher master e bs =
     fst (chacha20_xor (chacha20_init (kaalka_derive_key master (ev_epoch e) ''envelope'' 32)
            (ev_nonce e) 1) bs)"

text \<open>The result is the header and the ciphertext that follows it.\<close>

definition kaalka_envelope_seal ::
  "int \<Rightarrow> nat \<Rightarrow> u64 \<Rightarrow> u64 \<Rightarrow> u64 \<Rightarrow> u8 list \<Rightarrow> u64 \<Rightarrow> kaalka \<Rightarrow> rng_state \<Rightarrow>
     (kaalka_envelope \<times> u8 list) result \<times> kaalka \<times> rng_state" where
  "kaalka_envelope_seal now outcap sender receiver seq pt lifetime_sec k r =
     (if outcap < ENVELOPE_SIZE + length pt then (Inl ENOSPC, k, r)
      else
        let k = refresh_epoch now k;
            (nonce, r) = rk_random_bytes 12 r;
            blank = \<lparr>s_mac = replicate 32 0, s_epoch = 0, s_not_before = 0, s_not_after = 0,
                      s_seq = 0, s_subject = 0\<rparr>;
            e = \<lparr>ev_ver = 1, ev_ct_len = of_nat (length pt), ev_sender = sender,
                 ev_receiver = receiver, ev_seq = seq, ev_epoch = kaalka_epoch_of now,
                 ev_timestamp = now, ev_nonce = nonce, ev_seal = blank\<rparr>;
            ct = envelope_cipher (k_master k) e pt;
            (seal, k) = kaalka_seal_make now receiver seq (envelope_digest e ct) lifetime_sec k;
            st = k_stats k
        in (Inr (e\<lparr>ev_seal := seal\<rparr>, ct),
            k\<lparr>k_stats := st\<lparr>ks_envelopes_sealed := ks_envelopes_sealed st + 1\<rparr>\<rparr>, r))"

text \<open>\<open>inlen\<close> is the size of the buffer, \<open>trail\<close> the bytes after the header, and a
  ledger is optional.\<close>

definition kaalka_envelope_open ::
  "int \<Rightarrow> nat \<Rightarrow> kaalka_envelope \<Rightarrow> u8 list \<Rightarrow> u64 \<Rightarrow> nat \<Rightarrow> kaalka_ledger option \<Rightarrow> kaalka \<Rightarrow>
     u8 list result \<times> kaalka_ledger option \<times> kaalka" where
  "kaalka_envelope_open now inlen e trail receiver ptcap ledger k =
     (if inlen < ENVELOPE_SIZE then (Inl EINVAL, ledger, k)
      else if ev_ver e \<noteq> 1 then (Inl ENOTSUP, ledger, k)
      else if ev_receiver e \<noteq> receiver then (Inl EACCES, ledger, k)
      else if inlen < ENVELOPE_SIZE + unat (ev_ct_len e) then (Inl EINVAL, ledger, k)
      else if ptcap < unat (ev_ct_len e) then (Inl ENOSPC, ledger, k)
      else
        let ct = take (unat (ev_ct_len e)) trail in
        case kaalka_seal_verify now (ev_seal e) receiver (envelope_digest e ct) k of
          (Inl err, k) \<Rightarrow> (Inl err, ledger, k)
        | (Inr _, k) \<Rightarrow>
            (case (case ledger of None \<Rightarrow> (Inr (), None)
                   | Some l \<Rightarrow> (case kaalka_ledger_check now (ev_sender e) (ev_seq e) l of
                                  (r, l') \<Rightarrow> (r, Some l'))) of
               (Inl err, ledger) \<Rightarrow>
                 (Inl err, ledger, k\<lparr>k_stats := (k_stats k)
                    \<lparr>ks_replays_blocked := ks_replays_blocked (k_stats k) + 1\<rparr>\<rparr>)
             | (Inr _, ledger) \<Rightarrow>
                 (Inr (envelope_cipher (k_master k) e ct), ledger, k\<lparr>k_stats := (k_stats k)
                    \<lparr>ks_envelopes_opened := ks_envelopes_opened (k_stats k) + 1\<rparr>\<rparr>)))"

lemma envelope_digest_spec: "envelope_digest e ct = sha256_spec (envelope_header e @ ct)"
proof -
  have "sha_absorbed (sha256_update (sha256_update (sha256_init blank_ctx) (envelope_header e)) ct)
      (([] @ envelope_header e) @ ct)"
    by (intro sha_absorbed_update sha_absorbed_init) (simp add: blank_ctx_def)
  then show ?thesis
    using sha256_final_digest by (force simp: envelope_digest_def Let_def)
qed

lemma envelope_header_seal [simp]: "envelope_header (e\<lparr>ev_seal := s\<rparr>) = envelope_header e"
  by (simp add: envelope_header_def)

lemma envelope_digest_seal [simp]: "envelope_digest (e\<lparr>ev_seal := s\<rparr>) ct = envelope_digest e ct"
  by (simp add: envelope_digest_def)

lemma envelope_cipher_seal [simp]:
  "envelope_cipher m (e\<lparr>ev_seal := s\<rparr>) bs = envelope_cipher m e bs"
  by (simp add: envelope_cipher_def)

lemma envelope_cipher_twice [simp]: "envelope_cipher m e (envelope_cipher m e bs) = bs"
  by (simp add: envelope_cipher_def chacha.dec_enc)

lemma length_envelope_cipher [simp]: "length (envelope_cipher m e bs) = length bs"
  by (simp add: envelope_cipher_def chacha.enc_length)

text \<open>What a sealed envelope holds.\<close>

lemma envelope_seal_facts:
  assumes "kaalka_envelope_seal now cap sender receiver seq pt life k r = (Inr (e, ct), k', r')"
  shows "ev_ver e = 1" "ev_receiver e = receiver" "ev_sender e = sender" "ev_seq e = seq"
    "ev_ct_len e = of_nat (length pt)" "length ct = length pt"
    "k_master k' = k_master k" "envelope_cipher (k_master k) e ct = pt"
    "\<exists>k0. k_master k0 = k_master k \<and>
       fst (kaalka_seal_make now receiver seq (envelope_digest e ct) life k0) = ev_seal e"
proof -
  let ?k = "refresh_epoch now k"
  obtain nonce r0 where n: "rk_random_bytes 12 r = (nonce, r0)" by (cases "rk_random_bytes 12 r")
  define e0 where "e0 = \<lparr>ev_ver = 1, ev_ct_len = of_nat (length pt), ev_sender = sender,
     ev_receiver = receiver, ev_seq = seq, ev_epoch = kaalka_epoch_of now, ev_timestamp = now,
     ev_nonce = nonce, ev_seal = \<lparr>s_mac = replicate 32 0, s_epoch = 0, s_not_before = 0,
       s_not_after = 0, s_seq = 0, s_subject = 0\<rparr>\<rparr>"
  obtain seal k1 where m: "kaalka_seal_make now receiver seq
      (envelope_digest e0 (envelope_cipher (k_master ?k) e0 pt)) life ?k = (seal, k1)"
    by (cases "kaalka_seal_make now receiver seq
      (envelope_digest e0 (envelope_cipher (k_master ?k) e0 pt)) life ?k")
  have f: "e = e0\<lparr>ev_seal := seal\<rparr>" "ct = envelope_cipher (k_master k) e0 pt"
    "k_master k' = k_master k1"
    using assms m n
    by (auto simp: kaalka_envelope_seal_def Let_def e0_def [symmetric] split: if_splits)
      (simp add: e0_def)
  have k1: "k_master k1 = k_master k"
    by (metis m refresh_epoch_master seal_make_master snd_conv)
  show "ev_ver e = 1" "ev_receiver e = receiver" "ev_sender e = sender" "ev_seq e = seq"
    "ev_ct_len e = of_nat (length pt)" "length ct = length pt"
    "k_master k' = k_master k" "envelope_cipher (k_master k) e ct = pt"
    using k1 by (simp_all add: f) (simp_all add: e0_def)
  show "\<exists>k0. k_master k0 = k_master k \<and>
       fst (kaalka_seal_make now receiver seq (envelope_digest e ct) life k0) = ev_seal e"
    using m by (intro exI [of _ ?k]) (simp add: f)
qed

text \<open>Opening what was sealed comes down to the ledger's answer.\<close>

lemma envelope_open_sealed:
  assumes s: "kaalka_envelope_seal now cap sender receiver seq pt life k r = (Inr (e, ct), k', r')"
    and k: "k_master kk = k_master k" and w: "in_window (ev_seal e) t"
    and l: "length pt < 2 ^ 32" "length pt \<le> ptcap"
    and g: "kaalka_ledger_check t sender seq L = (res, L')"
    and o: "kaalka_envelope_open t (ENVELOPE_SIZE + length ct) e ct receiver ptcap (Some L) kk
      = (out, led, kk')"
  shows "out = (case res of Inl err \<Rightarrow> Inl err | Inr _ \<Rightarrow> Inr pt)" "led = Some L'"
    "k_master kk' = k_master k"
proof -
  note F = envelope_seal_facts [OF s]
  obtain k0 where m: "k_master k0 = k_master k"
    "fst (kaalka_seal_make now receiver seq (envelope_digest e ct) life k0) = ev_seal e"
    using F(9) by blast
  have u: "unat (ev_ct_len e) = length pt"
    using l(1) by (simp add: F(5) unat_of_nat take_bit_nat_eq_self)
  obtain kv where v: "kaalka_seal_verify t (ev_seal e) receiver (envelope_digest e ct) kk = (Inr (), kv)"
    "k_master kv = k_master k"
    using kaalka_seals.made_verifies [OF m(2) w, of kk] m(1) k
      seal_verify_master [of t "ev_seal e" receiver "envelope_digest e ct" kk]
    by (metis prod.collapse)
  show "out = (case res of Inl err \<Rightarrow> Inl err | Inr _ \<Rightarrow> Inr pt)" "led = Some L'"
    "k_master kk' = k_master k"
    using o l(2) by (cases res; simp add: kaalka_envelope_open_def Let_def u v F(1-4,6,8) g; auto simp: v(2))+
qed

lemma epoch_plus_2: "kaalka_epoch_of t \<le> kaalka_epoch_of t + 2"
proof -
  define x where "x = u64_of (if t < 0 then 0 else t)"
  have "unat x < 2 ^ 64" using unsigned_less [of x, where 'a = nat] by simp
  then have "unat (x div 60) < 2 ^ 60" by (simp add: unat_div)
  then have "unat (x div 60 + 2) = unat (x div 60) + 2"
    by (simp add: unat_word_ariths)
  then show ?thesis by (simp add: kaalka_epoch_of_def x_def word_le_nat_alt)
qed

section \<open>Concrete instances\<close>

definition boot_kaalka :: kaalka where
  "boot_kaalka = \<lparr>k_master = replicate 32 7, k_epoch_key = replicate 32 0, k_epoch = 16, k_ready = True,
     k_stats = \<lparr>ks_seals_made = 0, ks_seals_verified = 0, ks_seals_rejected = 0, ks_seals_expired = 0,
       ks_envelopes_sealed = 0, ks_envelopes_opened = 0, ks_replays_blocked = 0, ks_rekeys = 0,
       ks_current_epoch = 16\<rparr>\<rparr>"

definition boot_rng :: rng_state where
  "boot_rng = \<lparr>rng_key = replicate 32 1, rng_nonce = replicate 12 0, rng_counter = 0,
     rng_entropy_bits = 256, rng_seeded = True, rng_pool = replicate 32 0\<rparr>"

text \<open>An envelope that fits is sealed, and its window starts now.\<close>

lemma envelope_seal_succeeds:
  assumes "ENVELOPE_SIZE + length pt \<le> cap"
  obtains e ct k' r' where
    "kaalka_envelope_seal now cap sender receiver seq pt life k r = (Inr (e, ct), k', r')"
    "s_not_before (ev_seal e) = now"
    "s_not_after (ev_seal e) = s64_wrap (now + s64_of (if life \<noteq> 0 then life else 60))"
proof -
  obtain x k' r' where s:
    "kaalka_envelope_seal now cap sender receiver seq pt life k r = (Inr x, k', r')"
    using assms by (simp add: kaalka_envelope_seal_def Let_def case_prod_unfold)
  obtain e ct where x: "x = (e, ct)" by (cases x)
  note s = s [unfolded x]
  have "s_not_before (ev_seal e) = now"
    "s_not_after (ev_seal e) = s64_wrap (now + s64_of (if life \<noteq> 0 then life else 60))"
    using envelope_seal_facts(9) [OF s] seal_make_fields(1,2) by metis+
  then show thesis using that s by blast
qed

text \<open>A ledger all of whose entries are stale accepts anything.\<close>

lemma ledger_stale_accepts:
  assumes "ledger_ok l" "\<And>s. s \<in> set (kl_slots l) \<Longrightarrow> ls_epoch s + 2 < kaalka_epoch_of t"
  shows "fst (kaalka_ledger_check t subject seq l) = Inr ()"
proof -
  have "\<not> ledger_hit (kaalka_epoch_of t) subject seq (kl_slots l ! ledger_probe subject seq i)" for i
    using assms(2) [OF nth_mem, of "ledger_probe subject seq i"] assms(1)
      ledger_probe_less [of subject seq i]
    by (simp add: ledger_hit_def ledger_ok_def not_le)
  then show ?thesis
    by (auto simp: kaalka_ledger_check_def Let_def find_None_iff split: option.split
      dest: find_Some_iff [THEN iffD1])
qed

lemma ledger_check_slots:
  "s \<in> set (kl_slots (snd (kaalka_ledger_check t subject seq l))) \<Longrightarrow>
     s \<in> set (kl_slots l) \<or> s = \<lparr>ls_subject = subject, ls_seq = seq, ls_epoch = kaalka_epoch_of t\<rparr>"
  by (auto simp: kaalka_ledger_check_def Let_def split: option.splits
    dest!: set_update_subset_insert [THEN subsetD])

lemma ledger_init_accepts:
  "2 < kaalka_epoch_of t \<Longrightarrow> fst (kaalka_ledger_check t subject seq kaalka_ledger_init) = Inr ()"
  by (rule ledger_stale_accepts [OF ledger_init_ok]) (simp add: kaalka_ledger_init_def)

text \<open>A check evicts nothing when its first two probes are not both taken.\<close>

lemma ledger_no_evict:
  assumes "i < 8" "ledger_free (kaalka_epoch_of t) (kl_slots l ! ledger_probe subject seq i)"
  shows "kl_evicted (snd (kaalka_ledger_check t subject seq l)) = kl_evicted l"
proof -
  have "find (\<lambda>i. ledger_free (kaalka_epoch_of t) (kl_slots l ! ledger_probe subject seq i)) [0..<8] \<noteq> None"
    using assms by (auto simp: find_None_iff)
  then show ?thesis by (auto simp: kaalka_ledger_check_def Let_def split: option.split)
qed

lemma ledger_check_update:
  "\<exists>j entry. kl_slots (snd (kaalka_ledger_check t subject seq l)) = (kl_slots l)[j := entry]"
  by (auto simp: kaalka_ledger_check_def Let_def split: option.split)
    (metis list_update_id)+

lemma ledger_second_quiet:
  "kl_evicted (snd (kaalka_ledger_check t' sub' seq' (snd (kaalka_ledger_check t sub sq kaalka_ledger_init))))
     = kl_evicted (snd (kaalka_ledger_check t sub sq kaalka_ledger_init))"
proof -
  let ?l = "snd (kaalka_ledger_check t sub sq kaalka_ledger_init)"
  let ?blank = "\<lparr>ls_subject = 0, ls_seq = 0, ls_epoch = 0\<rparr> :: ledger_slot"
  have ne: "ledger_probe sub' seq' 0 \<noteq> ledger_probe sub' seq' 1"
    by (simp add: ledger_probe_def ledger_idx_def mod_Suc)
  obtain j entry where "kl_slots ?l = (replicate 1024 ?blank)[j := entry]"
    using ledger_check_update [of t sub sq kaalka_ledger_init] by (auto simp: kaalka_ledger_init_def)
  then have "kl_slots ?l ! ledger_probe sub' seq' 0 = ?blank \<or> kl_slots ?l ! ledger_probe sub' seq' 1 = ?blank"
    using ne ledger_probe_less [of sub' seq' 0] ledger_probe_less [of sub' seq' 1]
    by (cases "j = ledger_probe sub' seq' 0") (simp_all add: nth_list_update)
  then show ?thesis
    by (metis ledger_no_evict ledger_free_def ledger_slot.select_convs(3) zero_less_numeral one_less_numeral_iff semiring_norm(76))
qed

section \<open>Properties\<close>

text \<open>
  A seal is good exactly inside its window: whatever other seals are made and verified in
  between, a seal the kernel made verifies for its subject and payload at every time inside the
  window and is refused as expired at every other time.
\<close>

theorem seal_valid_exactly_in_window:
  "case kaalka_seal_make now subject seq payload life k of (s, k') \<Rightarrow>
     fst (kaalka_seal_verify t s subject payload (kaalka_seals.seal_traffic ops k'))
       = (if in_window s t then Inr () else Inl EEXPIRED)"
  by (cases "kaalka_seal_make now subject seq payload life k")
    (simp add: kaalka_seals.seal_lasts)

text \<open>
  Verification accepts nothing but what the key authenticates: a seal with a 32-byte MAC is
  accepted iff the time is inside the window it names, it names the subject, and its MAC is the
  HMAC-SHA256, under the seal key of the epoch it names, of its own fields and the payload.
\<close>

theorem seal_verify_iff:
  "length (s_mac s) = 32 \<Longrightarrow>
   fst (kaalka_seal_verify t s subject payload k) = Inr () \<longleftrightarrow>
     in_window s t \<and> s_subject s = subject \<and>
     s_mac s = hmac_spec (kaalka_derive_key (k_master k) (s_epoch s) ''seal'' 32)
                 (seal_header s subject (length payload) @ payload)"
  by (auto simp: kaalka_seal_verify_def in_window_def Let_def rk_ct_eq_iff seal_mac_spec
    length_hmac_spec intro: nth_equalityI)

theorem seal_verify_iff_witness:
  "fst (kaalka_seal_verify 100
      \<lparr>s_mac = replicate 32 0, s_epoch = 1, s_not_before = 60, s_not_after = 160, s_seq = 1,
       s_subject = 8\<rparr> 7 [1, 2] boot_kaalka) = Inr () \<longleftrightarrow> False"
  by (subst seal_verify_iff) simp_all

text \<open>
  C35. The ledger refuses a replay: once a pair has been accepted in epoch \<open>e\<close>, it is refused
  through the end of epoch \<open>e + 2\<close>, whatever other pairs are checked in between, as long as
  none of those checks had to evict a live entry.
\<close>

theorem ledger_refuses_replay:
  "ledger_ok l \<Longrightarrow> kaalka_ledger_check t0 subject seq l = (Inr (), l') \<Longrightarrow>
   kaalka_epoch_of t0 \<noteq> 0 \<Longrightarrow> ledger_quiet (kaalka_epoch_of t0 + 2) cs l' \<Longrightarrow>
   kaalka_epoch_of t1 \<le> kaalka_epoch_of t0 + 2 \<Longrightarrow>
     fst (kaalka_ledger_check t1 subject seq (ledger_run cs l')) = Inl EREPLAY"
  using ledger_check_ok [of l t0 subject seq]
  by (intro ledger_replay [of "kaalka_epoch_of t0"] ledger_run_keeps ledger_accept_knows) auto

theorem ledger_refuses_replay_witness:
  "fst (kaalka_ledger_check 6000 1 7 kaalka_ledger_init) = Inr () \<and>
   fst (kaalka_ledger_check 6100 1 7
     (ledger_run [(6001, 2, 3)] (snd (kaalka_ledger_check 6000 1 7 kaalka_ledger_init))))
     = Inl EREPLAY"
proof -
  define l' where "l' = snd (kaalka_ledger_check 6000 1 7 kaalka_ledger_init)"
  have e: "kaalka_epoch_of 6000 \<noteq> 0" "kaalka_epoch_of 6100 \<le> kaalka_epoch_of 6000 + 2"
    "2 < kaalka_epoch_of 6000" "kaalka_epoch_of 6001 \<le> kaalka_epoch_of 6000 + 2" by code_simp+
  have a: "fst (kaalka_ledger_check 6000 1 7 kaalka_ledger_init) = Inr ()"
    using e(3) by (rule ledger_init_accepts)
  then have c: "kaalka_ledger_check 6000 1 7 kaalka_ledger_init = (Inr (), l')"
    by (simp add: l'_def prod_eq_iff)
  have q: "ledger_quiet (kaalka_epoch_of 6000 + 2) [(6001, 2, 3)] l'"
    using e(4) ledger_second_quiet unfolding l'_def by simp
  show ?thesis
    using a ledger_refuses_replay [OF ledger_init_ok c e(1) q e(2)] by (simp add: l'_def)
qed



text \<open>
  C36. A seal that lives longer than the ledger remembers admits a replay: three epochs after an
  envelope was opened, a seal whose window is still open lets the same envelope be opened again
  through the same ledger.
\<close>

theorem aged_envelope_replays:
  assumes "kaalka_envelope_seal now cap sender receiver seq pt life k r = (Inr (e, ct), k', r')"
    and "k_master kk = k_master k" and "in_window (ev_seal e) t0" and "in_window (ev_seal e) t1"
    and "length pt < 2 ^ 32" and "length pt \<le> ptcap"
    and "2 < kaalka_epoch_of t0" and "kaalka_epoch_of t0 + 2 < kaalka_epoch_of t1"
  shows "case kaalka_envelope_open t0 (ENVELOPE_SIZE + length ct) e ct receiver ptcap
      (Some kaalka_ledger_init) kk of
    (out, led, kk') \<Rightarrow> out = Inr pt \<and>
      fst (kaalka_envelope_open t1 (ENVELOPE_SIZE + length ct) e ct receiver ptcap led kk') = Inr pt"
proof -
  let ?open = "\<lambda>t. kaalka_envelope_open t (ENVELOPE_SIZE + length ct) e ct receiver ptcap"
  obtain res L' where c: "kaalka_ledger_check t0 sender seq kaalka_ledger_init = (res, L')"
    by (cases "kaalka_ledger_check t0 sender seq kaalka_ledger_init")
  have r: "res = Inr ()"
    using ledger_stale_accepts [OF ledger_init_ok, of t0 sender seq] assms(7) c
    by (auto simp: kaalka_ledger_init_def)
  have "ls_epoch s + 2 < kaalka_epoch_of t1" if "s \<in> set (kl_slots L')" for s
    using ledger_check_slots [of s t0 sender seq kaalka_ledger_init] c that assms(7,8) epoch_plus_2 [of t0]
    by (auto simp: kaalka_ledger_init_def)
  then have a: "fst (kaalka_ledger_check t1 sender seq L') = Inr ()"
    using ledger_check_ok [OF ledger_init_ok, of t0 sender seq] c by (intro ledger_stale_accepts) auto
  obtain out led kk' where o1: "?open t0 (Some kaalka_ledger_init) kk = (out, led, kk')"
    by (cases "?open t0 (Some kaalka_ledger_init) kk")
  note O = envelope_open_sealed [OF assms(1-3,5,6) c o1]
  obtain L2 where c2: "kaalka_ledger_check t1 sender seq L' = (Inr (), L2)" using a by (metis prod.collapse)
  obtain out2 led2 kk2 where o2: "?open t1 (Some L') kk' = (out2, led2, kk2)"
    by (cases "?open t1 (Some L') kk'")
  show ?thesis
    using O r envelope_open_sealed(1) [OF assms(1) O(3) assms(4-6) c2 o2] o1 o2 by simp
qed

theorem aged_envelope_replays_witness:
  "\<exists>e ct k' r'.
     kaalka_envelope_seal 1000 200 1 2 7 [1, 2, 3] 3600 boot_kaalka boot_rng = (Inr (e, ct), k', r') \<and>
     (case kaalka_envelope_open 1010 (ENVELOPE_SIZE + length ct) e ct 2 64
        (Some kaalka_ledger_init) boot_kaalka of
      (out, led, kk') \<Rightarrow> out = Inr [1, 2, 3] \<and>
        fst (kaalka_envelope_open 1300 (ENVELOPE_SIZE + length ct) e ct 2 64 led kk') = Inr [1, 2, 3])"
proof -
  have "ENVELOPE_SIZE + length [1, 2, 3 :: u8] \<le> 200" by (simp add: ENVELOPE_SIZE_def)
  then obtain e ct k' r' where s:
    "kaalka_envelope_seal 1000 200 1 2 7 [1, 2, 3] 3600 boot_kaalka boot_rng = (Inr (e, ct), k', r')"
    "s_not_before (ev_seal e) = 1000"
    "s_not_after (ev_seal e) = s64_wrap (1000 + s64_of (if 3600 \<noteq> (0::u64) then 3600 else 60))"
    by (rule envelope_seal_succeeds)
  then have "s_not_after (ev_seal e) = 4600" by (simp add: s64_of_small)
  then have "in_window (ev_seal e) 1010" "in_window (ev_seal e) 1300"
    using s(2) by (simp_all add: in_window_def)
  moreover have "2 < kaalka_epoch_of 1010" "kaalka_epoch_of 1010 + 2 < kaalka_epoch_of 1300" by code_simp+
  ultimately show ?thesis
    using s(1) aged_envelope_replays [OF s(1) refl, of 1010 1300 64] by (intro exI conjI) simp_all
qed

end
