(* ===== verification/RK_Cap.thy ===== *)
theory RK_Cap
  imports RK_Kaalka
begin

text \<open>
  \<open>kernel/cap/cap.c\<close> and \<open>include/rk/cap.h\<close>: capability objects, capability spaces
  and the operations on them. Objects and spaces live in a store (\<open>cap_sys\<close>) that maps the
  address the allocator returned to the record, because two handles, and the two spaces of a
  grant, may alias. The allocator's answers are parameters: an address or \<open>None\<close> where it
  fails. \<open>release\<close> callbacks and \<open>rk_graph_record\<close> calls are recorded in logs of the
  state. The \<open>derived\<close> and \<open>sibling\<close> lists are never used by the code and are left out.
\<close>

section \<open>Types and rights\<close>

datatype cap_type =
    CAP_NULL | CAP_TASK | CAP_THREAD | CAP_MEMORY | CAP_ADDRSPACE | CAP_ENDPOINT | CAP_CHANNEL
  | CAP_NOTIFY | CAP_FILE | CAP_DIR | CAP_DEVICE | CAP_IRQ | CAP_IOPORT | CAP_MMIO | CAP_TIMER
  | CAP_GRAPH | CAP_MODEL | CAP_TENSOR | CAP_ACCEL | CAP_ENTROPY | CAP_CLOCK | CAP_NET
  | CAP_CONSOLE | CAP_CAPSPACE

text \<open>The number of an enumerator.\<close>

fun cap_type_num :: "cap_type \<Rightarrow> nat" where
  "cap_type_num CAP_NULL = 0" | "cap_type_num CAP_TASK = 1"
| "cap_type_num CAP_THREAD = 2" | "cap_type_num CAP_MEMORY = 3"
| "cap_type_num CAP_ADDRSPACE = 4" | "cap_type_num CAP_ENDPOINT = 5"
| "cap_type_num CAP_CHANNEL = 6" | "cap_type_num CAP_NOTIFY = 7"
| "cap_type_num CAP_FILE = 8" | "cap_type_num CAP_DIR = 9"
| "cap_type_num CAP_DEVICE = 10" | "cap_type_num CAP_IRQ = 11"
| "cap_type_num CAP_IOPORT = 12" | "cap_type_num CAP_MMIO = 13"
| "cap_type_num CAP_TIMER = 14" | "cap_type_num CAP_GRAPH = 15"
| "cap_type_num CAP_MODEL = 16" | "cap_type_num CAP_TENSOR = 17"
| "cap_type_num CAP_ACCEL = 18" | "cap_type_num CAP_ENTROPY = 19"
| "cap_type_num CAP_CLOCK = 20" | "cap_type_num CAP_NET = 21"
| "cap_type_num CAP_CONSOLE = 22" | "cap_type_num CAP_CAPSPACE = 23"

definition cap_types :: "cap_type list" where
  "cap_types = [CAP_NULL, CAP_TASK, CAP_THREAD, CAP_MEMORY, CAP_ADDRSPACE, CAP_ENDPOINT,
    CAP_CHANNEL, CAP_NOTIFY, CAP_FILE, CAP_DIR, CAP_DEVICE, CAP_IRQ,
    CAP_IOPORT, CAP_MMIO, CAP_TIMER, CAP_GRAPH, CAP_MODEL, CAP_TENSOR,
    CAP_ACCEL, CAP_ENTROPY, CAP_CLOCK, CAP_NET, CAP_CONSOLE, CAP_CAPSPACE]"

lemma cap_type_num_nth: "cap_types ! cap_type_num t = t"
  by (cases t) (simp_all add: cap_types_def)

lemma cap_type_num_inj: "cap_type_num a = cap_type_num b \<Longrightarrow> a = b"
  by (metis cap_type_num_nth)

definition type_names :: "string list" where
  "type_names =
    [''null'', ''task'', ''thread'', ''memory'', ''addrspace'', ''endpoint'', ''channel'',
     ''notify'', ''file'', ''dir'', ''device'', ''irq'', ''ioport'', ''mmio'', ''timer'',
     ''graph'', ''model'', ''tensor'', ''accel'', ''entropy'', ''clock'', ''net'',
     ''console'', ''capspace'']"

definition cap_type_name :: "nat \<Rightarrow> string" where
  "cap_type_name t = (if t < 24 then type_names ! t else ''?'')"

text \<open>The enumerators in the order of the header; this is the order the kernel numbers them.\<close>

instantiation cap_type :: linorder
begin

definition less_eq_cap_type :: "cap_type \<Rightarrow> cap_type \<Rightarrow> bool" where
  "less_eq_cap_type a b \<longleftrightarrow> cap_type_num a \<le> cap_type_num b"

definition less_cap_type :: "cap_type \<Rightarrow> cap_type \<Rightarrow> bool" where
  "less_cap_type a b \<longleftrightarrow> cap_type_num a < cap_type_num b"

instance
proof
  fix a b c :: cap_type
  show "(a < b) = (a \<le> b \<and> \<not> b \<le> a)" "a \<le> a" "a \<le> b \<or> b \<le> a"
    unfolding less_eq_cap_type_def less_cap_type_def by (simp_all add: less_le_not_le linorder_linear)
  show "a \<le> b \<Longrightarrow> b \<le> c \<Longrightarrow> a \<le> c"
    unfolding less_eq_cap_type_def by (rule order_trans)
  show "a \<le> b \<Longrightarrow> b \<le> a \<Longrightarrow> a = b"
    unfolding less_eq_cap_type_def using cap_type_num_inj by (metis order_antisym)
qed

end

definition CAP_RIGHT_READ :: u32 where "CAP_RIGHT_READ = push_bit 0 1"
definition CAP_RIGHT_WRITE :: u32 where "CAP_RIGHT_WRITE = push_bit 1 1"
definition CAP_RIGHT_GRANT :: u32 where "CAP_RIGHT_GRANT = push_bit 6 1"
definition CAP_RIGHT_DERIVE :: u32 where "CAP_RIGHT_DERIVE = push_bit 7 1"
definition CAP_RIGHT_REVOKE :: u32 where "CAP_RIGHT_REVOKE = push_bit 8 1"
definition CAP_RIGHT_ALL :: u32 where "CAP_RIGHT_ALL = 0x0001ffff"

definition right_names :: "(string \<times> u32) list" where
  "right_names =
    [(''read'', push_bit 0 1), (''write'', push_bit 1 1), (''exec'', push_bit 2 1),
     (''map'', push_bit 3 1), (''send'', push_bit 4 1), (''recv'', push_bit 5 1),
     (''grant'', push_bit 6 1), (''derive'', push_bit 7 1), (''revoke'', push_bit 8 1),
     (''create'', push_bit 9 1), (''delete'', push_bit 10 1), (''control'', push_bit 11 1),
     (''inspect'', push_bit 12 1), (''infer'', push_bit 13 1), (''train'', push_bit 14 1),
     (''snapshot'', push_bit 15 1), (''replay'', push_bit 16 1)]"

text \<open>\<open>cap_rights_string\<close> appends with \<open>snprintf\<close>: what is in the buffer is the whole text
  cut to the size; the returned length is that of the whole text.\<close>

fun rights_text :: "(string \<times> u32) list \<Rightarrow> u32 \<Rightarrow> string \<Rightarrow> string" where
  "rights_text [] rights s = s"
| "rights_text ((name, b) # rs) rights s =
     (if rights AND b = 0 then rights_text rs rights s
      else rights_text rs rights (s @ (if s \<noteq> [] then '','' else []) @ name))"

definition cap_rights_string :: "nat \<Rightarrow> u32 \<Rightarrow> string \<times> nat" where
  "cap_rights_string n rights =
     (let s = rights_text right_names rights [];
          s = (if s = [] \<and> n \<noteq> 0 then ''none'' else s)
      in (take (n - 1) s, length s))"

definition right_sep :: "char \<Rightarrow> bool" where
  "right_sep c \<longleftrightarrow> c = CHR '','' \<or> c = CHR '' ''"

definition right_bits :: "string \<Rightarrow> u32" where
  "right_bits w = fold (\<lambda>(name, b) r. if name = w then r OR b else r) right_names 0"

function rights_parse_from :: "string \<Rightarrow> u32 \<Rightarrow> u32" where
  "rights_parse_from s r =
     (case dropWhile right_sep s of
        [] \<Rightarrow> r
      | c # cs \<Rightarrow>
          let w = takeWhile (\<lambda>c. \<not> right_sep c) (c # cs)
          in rights_parse_from (dropWhile (\<lambda>c. \<not> right_sep c) (c # cs)) (r OR right_bits w))"
  by pat_completeness auto
termination
proof (relation "measure (\<lambda>(s, r). length s)", simp)
  fix s :: string and r c cs x
  assume d: "dropWhile right_sep s = c # cs"
  have "\<not> right_sep c" using d by (metis dropWhile_eq_Cons_conv)
  moreover have "length (c # cs) \<le> length s" using d by (metis length_dropWhile_le)
  ultimately show "((dropWhile (\<lambda>c. \<not> right_sep c) (c # cs), r OR right_bits x), s, r)
      \<in> measure (\<lambda>(s, r). length s)"
    using length_dropWhile_le [of "\<lambda>c. \<not> right_sep c" cs] by simp
qed

declare rights_parse_from.simps [simp del]

definition cap_rights_parse :: "string \<Rightarrow> u32" where
  "cap_rights_parse s = rights_parse_from s 0"

section \<open>The store\<close>

record cap_object =
  ob_type :: cap_type
  ob_id :: u64
  ob_ptr :: u64
  ob_refcount :: u32
  ob_generation :: u32
  ob_label :: "string option"
  ob_release :: "nat option"

record capability =
  cp_obj :: "nat option"
  cp_rights :: u32
  cp_generation :: u32
  cp_badge :: u64
  cp_seal :: kaalka_seal
  cp_uses_left :: u64
  cp_valid :: bool

record capspace =
  sp_slots :: "capability list"
  sp_used :: u32
  sp_refcount :: u32
  sp_id :: u64
  sp_ledger :: kaalka_ledger

record cap_stats =
  st_objects_live :: u64
  st_caps_live :: u64
  st_installs :: u64
  st_derives :: u64
  st_grants :: u64
  st_revokes :: u64
  st_denials :: u64
  st_expiries :: u64
  st_generation_faults :: u64

text \<open>The logs: release callbacks run on their pointer, and \<open>GEV_CAP_CHECK\<close> records
  \<open>(subject, a, b, flag)\<close>.\<close>

record cap_sys =
  y_objs :: "nat \<rightharpoonup> cap_object"
  y_spaces :: "nat \<rightharpoonup> capspace"
  y_next_object :: u64
  y_next_space :: u64
  y_stats :: cap_stats
  y_kaalka :: kaalka
  y_released :: "(nat \<times> u64) list"
  y_graph :: "(u64 \<times> u64 \<times> u64 \<times> u64) list"

definition bump_stats :: "(cap_stats \<Rightarrow> cap_stats) \<Rightarrow> cap_sys \<Rightarrow> cap_sys" where
  "bump_stats f y = y\<lparr>y_stats := f (y_stats y)\<rparr>"

definition graph_record :: "u64 \<Rightarrow> u64 \<Rightarrow> u64 \<Rightarrow> u64 \<Rightarrow> cap_sys \<Rightarrow> cap_sys" where
  "graph_record subject a b flag y = y\<lparr>y_graph := y_graph y @ [(subject, a, b, flag)]\<rparr>"

definition blank_seal :: kaalka_seal where
  "blank_seal = \<lparr>s_mac = replicate 32 0, s_epoch = 0, s_not_before = 0, s_not_after = 0,
     s_seq = 0, s_subject = 0\<rparr>"

definition blank_cap :: capability where
  "blank_cap = \<lparr>cp_obj = None, cp_rights = 0, cp_generation = 0, cp_badge = 0,
     cp_seal = blank_seal, cp_uses_left = 0, cp_valid = False\<rparr>"

definition cap_object_create ::
  "nat option \<Rightarrow> cap_type \<Rightarrow> u64 \<Rightarrow> string option \<Rightarrow> nat option \<Rightarrow> cap_sys \<Rightarrow> nat option \<times> cap_sys" where
  "cap_object_create mem type ptr label release y =
     (case mem of None \<Rightarrow> (None, y)
      | Some a \<Rightarrow>
          let id = y_next_object y;
              ob = \<lparr>ob_type = type, ob_id = id, ob_ptr = ptr, ob_refcount = 1, ob_generation = 1,
                    ob_label = label, ob_release = release\<rparr>;
              y = y\<lparr>y_next_object := id + 1, y_objs := (y_objs y)(a \<mapsto> ob)\<rparr>
          in (Some a, bump_stats (\<lambda>s. s\<lparr>st_objects_live := st_objects_live s + 1\<rparr>) y))"

definition cap_object_get :: "nat \<Rightarrow> cap_sys \<Rightarrow> cap_sys" where
  "cap_object_get a y =
     (case y_objs y a of None \<Rightarrow> y
      | Some ob \<Rightarrow> y\<lparr>y_objs := (y_objs y)(a \<mapsto> ob\<lparr>ob_refcount := ob_refcount ob + 1\<rparr>)\<rparr>)"

definition cap_object_put :: "nat \<Rightarrow> cap_sys \<Rightarrow> cap_sys" where
  "cap_object_put a y =
     (case y_objs y a of None \<Rightarrow> y
      | Some ob \<Rightarrow>
          let ob = ob\<lparr>ob_refcount := ob_refcount ob - 1\<rparr>;
              y = y\<lparr>y_objs := (y_objs y)(a \<mapsto> ob)\<rparr>
          in if ob_refcount ob \<noteq> 0 then y
             else
               let y = (case ob_release ob of None \<Rightarrow> y
                        | Some f \<Rightarrow> y\<lparr>y_released := y_released y @ [(f, ob_ptr ob)]\<rparr>);
                   y = bump_stats (\<lambda>s. if st_objects_live s \<noteq> 0
                         then s\<lparr>st_objects_live := st_objects_live s - 1\<rparr> else s) y
               in y\<lparr>y_objs := (y_objs y)(a := None)\<rparr>)"

section \<open>Capability spaces\<close>

text \<open>\<open>mem\<close> is the space's address, \<open>slots_ok\<close> whether the slot array was allocated.\<close>

definition capspace_create :: "nat option \<Rightarrow> bool \<Rightarrow> cap_sys \<Rightarrow> nat option \<times> cap_sys" where
  "capspace_create mem slots_ok y =
     (case mem of None \<Rightarrow> (None, y)
      | Some a \<Rightarrow>
          if \<not> slots_ok then (None, y)
          else
            let id = y_next_space y;
                cs = \<lparr>sp_slots = replicate 64 blank_cap, sp_used = 0, sp_refcount = 1, sp_id = id,
                      sp_ledger = kaalka_ledger_init\<rparr>
            in (Some a, y\<lparr>y_next_space := id + 1, y_spaces := (y_spaces y)(a \<mapsto> cs)\<rparr>))"

definition capspace_get :: "nat \<Rightarrow> cap_sys \<Rightarrow> cap_sys" where
  "capspace_get a y =
     (case y_spaces y a of None \<Rightarrow> y
      | Some cs \<Rightarrow> y\<lparr>y_spaces := (y_spaces y)(a \<mapsto> cs\<lparr>sp_refcount := sp_refcount cs + 1\<rparr>)\<rparr>)"

definition put_slot :: "capability \<Rightarrow> cap_sys \<Rightarrow> cap_sys" where
  "put_slot c y =
     (if cp_valid c then (case cp_obj c of None \<Rightarrow> y | Some o' \<Rightarrow> cap_object_put o' y) else y)"

definition capspace_destroy :: "nat \<Rightarrow> cap_sys \<Rightarrow> cap_sys" where
  "capspace_destroy a y =
     (case y_spaces y a of None \<Rightarrow> y
      | Some cs \<Rightarrow>
          let cs = cs\<lparr>sp_refcount := sp_refcount cs - 1\<rparr>;
              y = y\<lparr>y_spaces := (y_spaces y)(a \<mapsto> cs)\<rparr>
          in if sp_refcount cs > 0 then y
             else
               let y = fold put_slot (sp_slots cs) y
               in y\<lparr>y_spaces := (y_spaces y)(a := None)\<rparr>)"

definition grow_slots :: "bool \<Rightarrow> capability list \<Rightarrow> capability list option" where
  "grow_slots grow_ok slots =
     (if 65536 \<le> length slots then None
      else if \<not> grow_ok then None
      else Some (slots @ replicate (length slots) blank_cap))"

section \<open>Sealing a capability\<close>

text \<open>The 32 bytes the seal covers, the padding between \<open>generation\<close> and \<open>badge\<close> zero.\<close>

definition cap_body :: "cap_object \<Rightarrow> capability \<Rightarrow> u8 list" where
  "cap_body ob c =
     le_bytes 8 (ob_id ob) @ le_bytes 4 (of_nat (cap_type_num (ob_type ob)) :: u32) @
     le_bytes 4 (cp_rights c) @ le_bytes 4 (cp_generation c) @ [0, 0, 0, 0] @
     le_bytes 8 (cp_badge c)"

definition seal_capability :: "int \<Rightarrow> cap_object \<Rightarrow> capability \<Rightarrow> u64 \<Rightarrow> kaalka \<Rightarrow> capability \<times> kaalka" where
  "seal_capability now ob c lifetime_sec k =
     (case kaalka_seal_make now (ob_id ob) (cp_badge c) (cap_body ob c) lifetime_sec k of
        (s, k) \<Rightarrow> (c\<lparr>cp_seal := s\<rparr>, k))"

definition verify_capability :: "int \<Rightarrow> cap_object \<Rightarrow> capability \<Rightarrow> kaalka \<Rightarrow> unit result \<times> kaalka" where
  "verify_capability now ob c k =
     kaalka_seal_verify now (cp_seal c) (ob_id ob) (cap_body ob c) k"

section \<open>Operations on handles\<close>

text \<open>The first slot that is not valid.\<close>

definition free_slot :: "capability list \<Rightarrow> nat" where
  "free_slot slots = length (takeWhile cp_valid slots)"

text \<open>An unknown address stands for the null pointer; \<open>-1\<close> is \<open>CAP_INVALID\<close>.\<close>

definition cap_install ::
  "int \<Rightarrow> bool \<Rightarrow> nat \<Rightarrow> nat \<Rightarrow> u32 \<Rightarrow> u64 \<Rightarrow> u64 \<Rightarrow> cap_sys \<Rightarrow> int \<times> cap_sys" where
  "cap_install now grow_ok sp obj rights badge lifetime_sec y =
     (case (y_spaces y sp, y_objs y obj) of
        (Some cs, Some ob) \<Rightarrow>
          let slot = free_slot (sp_slots cs) in
          (case (if slot = length (sp_slots cs) then grow_slots grow_ok (sp_slots cs)
                 else Some (sp_slots cs)) of
             None \<Rightarrow> (-1, y)
           | Some slots \<Rightarrow>
               let c = blank_cap\<lparr>cp_obj := Some obj, cp_rights := rights,
                         cp_generation := ob_generation ob, cp_badge := badge,
                         cp_uses_left := 0, cp_valid := True\<rparr>;
                   (c, k) = seal_capability now ob c lifetime_sec (y_kaalka y);
                   cs = cs\<lparr>sp_slots := slots[slot := c], sp_used := sp_used cs + 1\<rparr>;
                   y = y\<lparr>y_spaces := (y_spaces y)(sp \<mapsto> cs), y_kaalka := k\<rparr>;
                   y = cap_object_get obj y;
                   y = bump_stats (\<lambda>s. s\<lparr>st_caps_live := st_caps_live s + 1,
                                          st_installs := st_installs s + 1\<rparr>) y;
                   y = graph_record (ob_id ob) (of_nat slot) (ucast rights) 1 y
               in (int slot, y))
      | _ \<Rightarrow> (-1, y))"

text \<open>The slot a handle names, \<open>None\<close> when the handle is out of range.\<close>

definition slot_of :: "nat \<Rightarrow> int \<Rightarrow> cap_sys \<Rightarrow> (capspace \<times> capability) option" where
  "slot_of sp h y =
     (case y_spaces y sp of None \<Rightarrow> None
      | Some cs \<Rightarrow> if h < 0 \<or> int (length (sp_slots cs)) \<le> h then None
                   else Some (cs, sp_slots cs ! nat h))"

definition set_slot :: "nat \<Rightarrow> int \<Rightarrow> capability \<Rightarrow> cap_sys \<Rightarrow> cap_sys" where
  "set_slot sp h c y =
     (case y_spaces y sp of None \<Rightarrow> y
      | Some cs \<Rightarrow> y\<lparr>y_spaces := (y_spaces y)(sp \<mapsto> cs\<lparr>sp_slots := (sp_slots cs)[nat h := c]\<rparr>)\<rparr>)"

definition lose_used :: "nat \<Rightarrow> cap_sys \<Rightarrow> cap_sys" where
  "lose_used sp y =
     (case y_spaces y sp of None \<Rightarrow> y
      | Some cs \<Rightarrow> y\<lparr>y_spaces := (y_spaces y)(sp \<mapsto> cs\<lparr>sp_used := sp_used cs - 1\<rparr>)\<rparr>)"

definition deny :: "cap_sys \<Rightarrow> nat result \<times> cap_sys" where
  "deny y = (Inl EACCES, bump_stats (\<lambda>s. s\<lparr>st_denials := st_denials s + 1\<rparr>) y)"

definition drop_caps_live :: "cap_stats \<Rightarrow> cap_stats" where
  "drop_caps_live s = (if st_caps_live s \<noteq> 0 then s\<lparr>st_caps_live := st_caps_live s - 1\<rparr> else s)"

definition cap_lookup ::
  "int \<Rightarrow> nat \<Rightarrow> int \<Rightarrow> cap_type \<Rightarrow> u32 \<Rightarrow> cap_sys \<Rightarrow> nat result \<times> cap_sys" where
  "cap_lookup now sp h type need y =
     (case slot_of sp h y of None \<Rightarrow> (Inl EBADF, y)
      | Some (cs, c) \<Rightarrow>
        (case (cp_valid c, cp_obj c) of
           (True, Some obj) \<Rightarrow>
             (case y_objs y obj of None \<Rightarrow> (Inl EBADF, y)
              | Some ob \<Rightarrow>
                if type \<noteq> CAP_NULL \<and> ob_type ob \<noteq> type then deny y
                else if cp_rights c AND need \<noteq> need then deny y
                else if cp_generation c \<noteq> ob_generation ob then
                  (Inl EBADF, bump_stats (\<lambda>s. s\<lparr>st_generation_faults := st_generation_faults s + 1\<rparr>) y)
                else
                  (case verify_capability now ob c (y_kaalka y) of
                     (Inl EEXPIRED, k) \<Rightarrow>
                       let y = y\<lparr>y_kaalka := k\<rparr>;
                           y = set_slot sp h (c\<lparr>cp_valid := False, cp_obj := None\<rparr>) y;
                           y = lose_used sp y;
                           y = cap_object_put obj y
                       in (Inl EEXPIRED, bump_stats (\<lambda>s. drop_caps_live
                             (s\<lparr>st_expiries := st_expiries s + 1\<rparr>)) y)
                   | (Inl _, k) \<Rightarrow> deny (y\<lparr>y_kaalka := k\<rparr>)
                   | (Inr _, k) \<Rightarrow>
                       let y = y\<lparr>y_kaalka := k\<rparr>;
                           left = cp_uses_left c - 1;
                           y = (if cp_uses_left c \<noteq> 0
                                then set_slot sp h (c\<lparr>cp_uses_left := left,
                                       cp_valid := (if left = 0 then False else cp_valid c)\<rparr>) y
                                else y)
                       in (Inr obj, graph_record (ob_id ob) (word_of_int h) (ucast need) 0 y)))
         | _ \<Rightarrow> (Inl EBADF, y)))"

text \<open>\<open>life\<close> clamped to what the parent has left; signed comparison, as in the source.\<close>

definition derive_life :: "int \<Rightarrow> capability \<Rightarrow> u64 \<Rightarrow> u64" where
  "derive_life now p lifetime_sec =
     (let left = s64_wrap (s_not_after (cp_seal p) - now);
          left = (if left < 0 then 0 else left)
      in if lifetime_sec = 0 \<or> left < s64_of lifetime_sec then u64_of left else lifetime_sec)"

definition cap_derive ::
  "int \<Rightarrow> bool \<Rightarrow> nat \<Rightarrow> int \<Rightarrow> u32 \<Rightarrow> u64 \<Rightarrow> u64 \<Rightarrow> cap_sys \<Rightarrow> int \<times> cap_sys" where
  "cap_derive now grow_ok sp parent new_rights new_badge lifetime_sec y =
     (case slot_of sp parent y of None \<Rightarrow> (-1, y)
      | Some (cs, p) \<Rightarrow>
        (case (cp_valid p, cp_obj p) of
           (True, Some obj) \<Rightarrow>
             if cp_rights p AND CAP_RIGHT_DERIVE = 0 then (-1, y)
             else
               let rights = new_rights AND cp_rights p;
                   life = derive_life now p lifetime_sec
               in if life = 0 then (-1, y)
                  else (case cap_install now grow_ok sp obj rights new_badge life y of
                          (h, y) \<Rightarrow> (h, if h \<noteq> -1
                            then bump_stats (\<lambda>s. s\<lparr>st_derives := st_derives s + 1\<rparr>) y else y))
         | _ \<Rightarrow> (-1, y)))"

definition cap_grant ::
  "int \<Rightarrow> bool \<Rightarrow> nat \<Rightarrow> int \<Rightarrow> nat \<Rightarrow> u32 \<Rightarrow> cap_sys \<Rightarrow> int \<times> cap_sys" where
  "cap_grant now grow_ok from_sp h to_sp rights_mask y =
     (case cap_lookup now from_sp h CAP_NULL CAP_RIGHT_GRANT y of
        (Inl _, y) \<Rightarrow> (-1, y)
      | (Inr obj, y) \<Rightarrow>
          (case slot_of from_sp h y of None \<Rightarrow> (-1, y)
           | Some (cs, c) \<Rightarrow>
               let rights = cp_rights c AND rights_mask;
                   left = s64_wrap (s_not_after (cp_seal c) - now)
               in if left \<le> 0 then (-1, y)
                  else (case cap_install now grow_ok to_sp obj rights (cp_badge c) (u64_of left) y of
                          (nh, y) \<Rightarrow> (nh, if nh \<noteq> -1
                            then bump_stats (\<lambda>s. s\<lparr>st_grants := st_grants s + 1\<rparr>) y else y))))"

definition cap_close :: "nat \<Rightarrow> int \<Rightarrow> cap_sys \<Rightarrow> unit result \<times> cap_sys" where
  "cap_close sp h y =
     (case slot_of sp h y of None \<Rightarrow> (Inl EBADF, y)
      | Some (cs, c) \<Rightarrow>
        if \<not> cp_valid c then (Inl EBADF, y)
        else
          let y = set_slot sp h blank_cap y;
              y = (if sp_used cs \<noteq> 0 then lose_used sp y else y);
              y = (case cp_obj c of None \<Rightarrow> y | Some obj \<Rightarrow> cap_object_put obj y)
          in (Inr (), bump_stats drop_caps_live y))"

definition cap_revoke_recursive :: "nat \<Rightarrow> cap_sys \<Rightarrow> unit result \<times> cap_sys" where
  "cap_revoke_recursive obj y =
     (case y_objs y obj of None \<Rightarrow> (Inl EINVAL, y)
      | Some ob \<Rightarrow>
          let y = y\<lparr>y_objs := (y_objs y)(obj \<mapsto> ob\<lparr>ob_generation := ob_generation ob + 1\<rparr>)\<rparr>
          in (Inr (), bump_stats (\<lambda>s. s\<lparr>st_revokes := st_revokes s + 1\<rparr>) y))"

definition cap_revoke :: "nat \<Rightarrow> int \<Rightarrow> cap_sys \<Rightarrow> unit result \<times> cap_sys" where
  "cap_revoke sp h y =
     (case slot_of sp h y of None \<Rightarrow> (Inl EBADF, y)
      | Some (cs, c) \<Rightarrow>
        (case (cp_valid c, cp_obj c) of
           (True, Some obj) \<Rightarrow>
             if cp_rights c AND CAP_RIGHT_REVOKE = 0 then (Inl EACCES, y)
             else cap_revoke_recursive obj y
         | _ \<Rightarrow> (Inl EACCES, y)))"

definition cap_rights :: "nat \<Rightarrow> int \<Rightarrow> cap_sys \<Rightarrow> u32 result" where
  "cap_rights sp h y =
     (case slot_of sp h y of None \<Rightarrow> Inl EBADF
      | Some (cs, c) \<Rightarrow> if cp_valid c then Inr (cp_rights c) else Inl EBADF)"

definition cap_badge :: "nat \<Rightarrow> int \<Rightarrow> cap_sys \<Rightarrow> u64 result" where
  "cap_badge sp h y =
     (case slot_of sp h y of None \<Rightarrow> Inl EBADF
      | Some (cs, c) \<Rightarrow> if cp_valid c then Inr (cp_badge c) else Inl EBADF)"

text \<open>The iterator threads the state of its callback and stops when the callback says so.\<close>

fun foreach_from :: "nat \<Rightarrow> capability list \<Rightarrow> (nat \<Rightarrow> capability \<Rightarrow> 's \<Rightarrow> bool \<times> 's) \<Rightarrow> 's \<Rightarrow> 's" where
  "foreach_from i [] fn s = s"
| "foreach_from i (c # cs) fn s =
     (if \<not> cp_valid c then foreach_from (Suc i) cs fn s
      else case fn i c s of (go, s) \<Rightarrow> if go then foreach_from (Suc i) cs fn s else s)"

definition cap_foreach :: "nat \<Rightarrow> (nat \<Rightarrow> capability \<Rightarrow> 's \<Rightarrow> bool \<times> 's) \<Rightarrow> cap_sys \<Rightarrow> 's \<Rightarrow> 's" where
  "cap_foreach sp fn y s =
     (case y_spaces y sp of None \<Rightarrow> s | Some cs \<Rightarrow> foreach_from 0 (sp_slots cs) fn s)"

section \<open>Parsing what was printed\<close>

lemma right_name_facts:
  "(name, b) \<in> set right_names \<Longrightarrow> name \<noteq> [] \<and> list_all (\<lambda>c. \<not> right_sep c) name \<and> right_bits name = b"
proof -
  have "list_all (\<lambda>(name, b). name \<noteq> [] \<and> list_all (\<lambda>c. \<not> right_sep c) name \<and> right_bits name = b)
      right_names"
    by code_simp
  then show "(name, b) \<in> set right_names \<Longrightarrow> ?thesis" by (fastforce simp: list_all_iff)
qed

lemma fold_or:
  "fold (\<lambda>(name, b) r. r OR b) xs (z :: u32) = z OR fold (\<lambda>(name, b) r. r OR b) xs 0"
proof (induction xs arbitrary: z)
  case (Cons x xs)
  obtain n b where x: "x = (n, b)" by (cases x)
  show ?case using Cons [of "z OR b"] Cons [of b] by (simp add: x or.assoc)
qed simp

lemma parse_nil [simp]: "rights_parse_from [] r = r"
  by (simp add: rights_parse_from.simps)

lemma parse_word:
  assumes "w \<noteq> []" "list_all (\<lambda>c. \<not> right_sep c) w" "rest = [] \<or> right_sep (hd rest)"
  shows "rights_parse_from (w @ rest) r = rights_parse_from rest (r OR right_bits w)"
proof -
  obtain c cs where w: "w = c # cs" using assms(1) by (cases w) auto
  have "takeWhile (\<lambda>c. \<not> right_sep c) (w @ rest) = w" "dropWhile (\<lambda>c. \<not> right_sep c) (w @ rest) = rest"
    using assms(2,3) by (auto simp: list_all_iff takeWhile_append dropWhile_append
      takeWhile_eq_all_conv intro: takeWhile_tail) (cases rest; simp)+
  then show ?thesis
    using w assms(2) by (subst rights_parse_from.simps) (simp add: Let_def)
qed

lemma parse_sep: "rights_parse_from (CHR '','' # s) r = rights_parse_from s r"
  by (simp add: rights_parse_from.simps [of "CHR '','' # s"] rights_parse_from.simps [of s]
      right_sep_def cong: list.case_cong)

lemma rights_text_parses:
  "set rs \<subseteq> set right_names \<Longrightarrow>
     (\<And>rest r. (rest = [] \<or> right_sep (hd rest)) \<Longrightarrow>
        rights_parse_from (s @ rest) r = rights_parse_from rest (r OR acc)) \<Longrightarrow>
     rights_parse_from (rights_text rs rights s) 0
       = acc OR fold (\<lambda>(name, b) r. r OR b) (filter (\<lambda>(name, b). rights AND b \<noteq> 0) rs) 0"
proof (induction rs arbitrary: s acc)
  case Nil
  then show ?case using Nil.prems(2) [of "[]" 0] by simp
next
  case (Cons nb rs)
  obtain name b where nb: "nb = (name, b)" by (cases nb)
  note N = right_name_facts [of name b]
  show ?case
  proof (cases "rights AND b = 0")
    case True
    then show ?thesis using Cons by (simp add: nb)
  next
    case False
    have "rights_parse_from ((s @ (if s \<noteq> [] then '','' else []) @ name) @ rest) r
        = rights_parse_from rest (r OR (acc OR b))" if r: "rest = [] \<or> right_sep (hd rest)" for rest r
    proof (cases "s = []")
      case True
      have "r OR acc = r" for r
        using Cons.prems(2) [of "[]" r] True by simp
      then have "acc = 0" by (metis or.left_neutral)
      then show ?thesis using True N Cons.prems(1) r by (simp add: nb parse_word)
    next
      case False
      then show ?thesis
        using N Cons.prems(1) r Cons.prems(2) [of "CHR '','' # name @ rest" r]
        by (simp add: nb parse_word parse_sep right_sep_def or.assoc)
    qed
    then show ?thesis
      using Cons.IH [of "s @ (if s \<noteq> [] then '','' else []) @ name" "acc OR b"] Cons.prems(1) False
        fold_or [of "filter (\<lambda>(name, b). rights AND b \<noteq> 0) rs" b]
      by (simp add: nb or.assoc)
  qed
qed

lemma and_single_bit: "r AND push_bit i (1 :: u32) = (if bit r i then push_bit i 1 else 0)"
  by (rule bit_word_eqI) (auto simp: bit_simps)

lemma right_bits_single: "(name, b) \<in> set right_names \<Longrightarrow> \<exists>i. b = push_bit i 1"
proof -
  have "right_names = zip (map fst right_names) (map (\<lambda>i. push_bit i 1) [0..<17])" by code_simp
  then show "(name, b) \<in> set right_names \<Longrightarrow> ?thesis"
    by (metis (no_types, lifting) imageE list.set_map set_zip_rightD)
qed

lemma fold_rights:
  "set rs \<subseteq> set right_names \<Longrightarrow>
     fold (\<lambda>(name, b) r. r OR b) (filter (\<lambda>(name, b). rights AND b \<noteq> 0) rs) 0
       = rights AND fold (\<lambda>(name, b) r. r OR b) rs 0"
proof (induction rs)
  case (Cons x rs)
  obtain name b where x: "x = (name, b)" by (cases x)
  obtain i where "b = push_bit i 1" using Cons.prems x right_bits_single by auto
  then have b: "rights AND b = 0 \<or> rights AND b = b" by (simp only: and_single_bit) auto
  have d: "rights AND (b OR z) = (rights AND b) OR (rights AND z)" for z
    by (rule bit.conj_disj_distrib)
  show ?case
    using Cons fold_or [of "filter (\<lambda>(name, b). rights AND b \<noteq> 0) rs" b] fold_or [of rs b] b
    by (cases "rights AND b = 0") (simp_all add: x d)
qed simp

lemma rights_text_length:
  "length (rights_text rs rights s) \<le> length s + sum_list (map (\<lambda>(name, b). length name + 1) rs)"
proof (induction rs arbitrary: s)
  case (Cons x rs)
  obtain name b where x: "x = (name, b)" by (cases x)
  show ?case
    using Cons [of s] Cons [of "s @ (if s \<noteq> [] then '','' else []) @ name"]
    by (auto simp: x)
qed simp

lemma right_names_total:
  "sum_list (map (\<lambda>(name, b). length name + 1) right_names) = 108"
  "fold (\<lambda>(name, b) r. r OR b) right_names 0 = CAP_RIGHT_ALL"
  by code_simp+

text \<open>
  The textual form of a set of rights reads back: a buffer of at least 109 bytes holds the
  list of any rights word, and parsing it gives exactly the defined bits of the word; the empty
  set prints as \<open>none\<close> and reads back as no rights.
\<close>

theorem cap_rights_roundtrip:
  "108 < n \<Longrightarrow> cap_rights_parse (fst (cap_rights_string n rights)) = rights AND CAP_RIGHT_ALL"
proof -
  assume n: "108 < n"
  let ?s = "rights_text right_names rights []"
  have l: "length ?s < n" using rights_text_length [of right_names rights "[]"] n
    by (simp only: right_names_total) simp
  have p: "rights_parse_from ?s 0 = rights AND CAP_RIGHT_ALL"
    using rights_text_parses [of right_names "[]" 0 rights]
    by (simp add: fold_rights right_names_total)
  show ?thesis
  proof (cases "?s = []")
    case True
    have "cap_rights_parse ''none'' = 0" by code_simp
    moreover have "length ''none'' \<le> n - 1" using n by simp
    ultimately show ?thesis using True p n by (simp add: cap_rights_string_def Let_def)
  next
    case False
    then show ?thesis using l p by (simp add: cap_rights_string_def cap_rights_parse_def Let_def)
  qed
qed

theorem cap_rights_roundtrip_witness:
  "cap_rights_parse (fst (cap_rights_string 128 0x80000083)) = 0x83"
  using cap_rights_roundtrip [of 128 "0x80000083"] by (simp add: CAP_RIGHT_ALL_def)

end
