(* ===== verification/RK_CapSafety.thy ===== *)
theory RK_CapSafety
  imports RK_Cap
begin

text \<open>
  What the capability system of \<open>RK_Cap\<close> guarantees: what a successful lookup implies, that
  derivation only weakens, that revocation and expiry take authority away, that no capability
  ever names a freed object; and two places where the code falls short of its own comments.
\<close>

section \<open>Frame facts\<close>

lemma bump_stats_simps [simp]:
  "y_objs (bump_stats f y) = y_objs y" "y_spaces (bump_stats f y) = y_spaces y"
  "y_kaalka (bump_stats f y) = y_kaalka y" "y_graph (bump_stats f y) = y_graph y"
  by (simp_all add: bump_stats_def)

lemma graph_record_simps [simp]:
  "y_objs (graph_record a b c d y) = y_objs y" "y_spaces (graph_record a b c d y) = y_spaces y"
  "y_kaalka (graph_record a b c d y) = y_kaalka y" "y_stats (graph_record a b c d y) = y_stats y"
  by (simp_all add: graph_record_def)

lemma object_get_simps [simp]:
  "y_spaces (cap_object_get a y) = y_spaces y" "y_kaalka (cap_object_get a y) = y_kaalka y"
  by (simp_all add: cap_object_get_def split: option.split)

lemma object_put_simps [simp]:
  "y_spaces (cap_object_put a y) = y_spaces y" "y_kaalka (cap_object_put a y) = y_kaalka y"
  by (simp_all add: cap_object_put_def Let_def split: option.split)

lemma set_slot_simps [simp]:
  "y_objs (set_slot sp h c y) = y_objs y" "y_kaalka (set_slot sp h c y) = y_kaalka y"
  by (simp_all add: set_slot_def split: option.split)

lemma lose_used_simps [simp]:
  "y_objs (lose_used sp y) = y_objs y" "y_kaalka (lose_used sp y) = y_kaalka y"
  by (simp_all add: lose_used_def split: option.split)

lemma slot_of_SomeD:
  "slot_of sp h y = Some (cs, c) \<Longrightarrow>
     y_spaces y sp = Some cs \<and> 0 \<le> h \<and> nat h < length (sp_slots cs) \<and> c = sp_slots cs ! nat h"
  by (auto simp: slot_of_def split: option.splits if_splits)

lemma slot_of_cong: "y_spaces y' = y_spaces y \<Longrightarrow> slot_of sp h y' = slot_of sp h y"
  by (simp add: slot_of_def)

lemma cap_body_seal [simp]: "cap_body ob (c\<lparr>cp_seal := s\<rparr>) = cap_body ob c"
  by (simp add: cap_body_def)

lemma cap_body_refcount [simp]: "cap_body (ob\<lparr>ob_refcount := n\<rparr>) c = cap_body ob c"
  by (simp add: cap_body_def)

lemma free_slot_le: "free_slot slots \<le> length slots"
  by (simp add: free_slot_def length_takeWhile_le)

lemma free_slot_invalid: "free_slot slots < length slots \<Longrightarrow> \<not> cp_valid (slots ! free_slot slots)"
  unfolding free_slot_def by (rule nth_length_takeWhile)

section \<open>Installing\<close>

definition slots_ok :: "cap_sys \<Rightarrow> bool" where
  "slots_ok y \<longleftrightarrow> (\<forall>sp cs. y_spaces y sp = Some cs \<longrightarrow> sp_slots cs \<noteq> [])"

lemma pick_slot:
  assumes "slots0 \<noteq> []"
    and "(if free_slot slots0 = length slots0 then grow_slots grow slots0 else Some slots0) = Some slots"
  shows "free_slot slots0 < length slots" "\<not> cp_valid (slots ! free_slot slots0)"
    "slots = slots0 \<or> (\<exists>n. slots = slots0 @ replicate n blank_cap)"
proof -
  show "free_slot slots0 < length slots"
    using assms free_slot_le [of slots0] by (auto simp: grow_slots_def split: if_splits)
  show "\<not> cp_valid (slots ! free_slot slots0)"
    using assms free_slot_le [of slots0] free_slot_invalid [of slots0]
    by (auto simp: grow_slots_def nth_append blank_cap_def split: if_splits)
  show "slots = slots0 \<or> (\<exists>n. slots = slots0 @ replicate n blank_cap)"
    using assms by (auto simp: grow_slots_def split: if_splits)
qed

text \<open>What a successful installation did.\<close>

lemma cap_install_facts:
  assumes "cap_install now grow sp obj rights badge life y = (h, y')" "h \<noteq> -1" "slots_ok y"
  obtains cs ob slots c where
    "y_spaces y sp = Some cs" "y_objs y obj = Some ob"
    "slots = sp_slots cs \<or> (\<exists>n. slots = sp_slots cs @ replicate n blank_cap)"
    "0 \<le> h" "nat h < length slots" "\<not> cp_valid (slots ! nat h)"
    "cp_obj c = Some obj" "cp_rights c = rights" "cp_generation c = ob_generation ob"
    "cp_badge c = badge" "cp_uses_left c = 0" "cp_valid c"
    "cp_seal c = fst (kaalka_seal_make now (ob_id ob) badge (cap_body ob c) life (y_kaalka y))"
    "y_spaces y' = (y_spaces y)(sp \<mapsto> cs\<lparr>sp_slots := slots[nat h := c], sp_used := sp_used cs + 1\<rparr>)"
    "y_objs y' = (y_objs y)(obj \<mapsto> ob\<lparr>ob_refcount := ob_refcount ob + 1\<rparr>)"
    "k_master (y_kaalka y') = k_master (y_kaalka y)"
proof -
  obtain cs ob where s: "y_spaces y sp = Some cs" "y_objs y obj = Some ob"
    using assms by (auto simp: cap_install_def split: option.splits)
  let ?slot = "free_slot (sp_slots cs)"
  let ?pick = "if ?slot = length (sp_slots cs) then grow_slots grow (sp_slots cs) else Some (sp_slots cs)"
  obtain slots where p: "?pick = Some slots"
    using assms s by (auto simp: cap_install_def Let_def split: option.splits)
  define c0 where "c0 = blank_cap\<lparr>cp_obj := Some obj, cp_rights := rights,
     cp_generation := ob_generation ob, cp_badge := badge, cp_uses_left := 0, cp_valid := True\<rparr>"
  obtain c k where m: "seal_capability now ob c0 life (y_kaalka y) = (c, k)"
    by (cases "seal_capability now ob c0 life (y_kaalka y)")
  have c: "c = c0\<lparr>cp_seal := fst (kaalka_seal_make now (ob_id ob) badge (cap_body ob c0) life (y_kaalka y))\<rparr>"
    "k = snd (kaalka_seal_make now (ob_id ob) badge (cap_body ob c0) life (y_kaalka y))"
    using m by (auto simp: seal_capability_def c0_def split: prod.splits)
  have r: "h = int ?slot" "y_spaces y' = (y_spaces y)(sp \<mapsto>
      cs\<lparr>sp_slots := slots[?slot := c], sp_used := sp_used cs + 1\<rparr>)"
    "y_objs y' = (y_objs y)(obj \<mapsto> ob\<lparr>ob_refcount := ob_refcount ob + 1\<rparr>)" "y_kaalka y' = k"
    using assms s p m
    by (auto simp: cap_install_def Let_def c0_def [symmetric] cap_object_get_def)
  have ne: "sp_slots cs \<noteq> []" using assms(3) s by (simp add: slots_ok_def)
  have b: "cap_body ob c = cap_body ob c0" by (simp add: c(1))
  show thesis
    by (rule that [OF s, where slots = slots and c = c])
      (use pick_slot [OF ne p] r c(2) b in \<open>simp_all add: c(1), simp_all add: c0_def\<close>)
qed

section \<open>Looking up\<close>

lemma deny_not_ok [simp]: "fst (deny y) \<noteq> Inr obj" "fst (deny y) = Inl EACCES"
  by (simp_all add: deny_def)

text \<open>The four checks of a lookup on a slot.\<close>

definition cap_admits :: "int \<Rightarrow> cap_type \<Rightarrow> u32 \<Rightarrow> capability \<Rightarrow> cap_object \<Rightarrow> kaalka \<Rightarrow> bool" where
  "cap_admits now type need c ob k \<longleftrightarrow>
     (type = CAP_NULL \<or> ob_type ob = type) \<and> cp_rights c AND need = need \<and>
     cp_generation c = ob_generation ob \<and> fst (verify_capability now ob c k) = Inr ()"

lemma cap_lookup_ok:
  "fst (cap_lookup now sp h type need y) = Inr obj \<longleftrightarrow>
     (\<exists>cs c ob. slot_of sp h y = Some (cs, c) \<and> cp_valid c \<and> cp_obj c = Some obj \<and>
        y_objs y obj = Some ob \<and> cap_admits now type need c ob (y_kaalka y))"
  by (auto simp: cap_lookup_def cap_admits_def Let_def
    split: option.splits prod.splits sum.splits rk_err.splits bool.splits)

lemma verify_capability_iff:
  "length (s_mac (cp_seal c)) = 32 \<Longrightarrow>
   fst (verify_capability now ob c k) = Inr () \<longleftrightarrow>
     in_window (cp_seal c) now \<and> s_subject (cp_seal c) = ob_id ob \<and>
     s_mac (cp_seal c) = seal_mac (k_master k) (cp_seal c) (ob_id ob) (cap_body ob c)"
  by (auto simp: verify_capability_def kaalka_seal_verify_def in_window_def Let_def rk_ct_eq_iff
    intro: nth_equalityI)

text \<open>A freshly installed capability verifies exactly inside its window.\<close>

lemma installed_verifies:
  assumes "cp_seal c = fst (kaalka_seal_make now (ob_id ob) (cp_badge c) (cap_body ob c) life k)"
    and "k_master k' = k_master k" and "ob_id ob' = ob_id ob" "ob_type ob' = ob_type ob"
  shows "fst (verify_capability t ob' c k') = (if in_window (cp_seal c) t then Inr () else Inl EEXPIRED)"
proof -
  have "cap_body ob' c = cap_body ob c" using assms(3,4) by (simp add: cap_body_def)
  then show ?thesis
    using kaalka_seals.made_verifies [OF assms(1) [symmetric], of t k'] assms(2,3)
      kaalka_seals.outside_expired [of "cp_seal c" t]
    by (simp add: verify_capability_def)
qed

lemma slot_of_installed:
  "0 \<le> h \<Longrightarrow> nat h < length slots \<Longrightarrow>
   y_spaces y' = (y_spaces y)(sp \<mapsto> cs\<lparr>sp_slots := slots[nat h := c], sp_used := n\<rparr>) \<Longrightarrow>
     slot_of sp h y' = Some (cs\<lparr>sp_slots := slots[nat h := c], sp_used := n\<rparr>, c)"
  by (simp add: slot_of_def)

lemma install_window:
  assumes "cp_seal c = fst (kaalka_seal_make now subj badge body life k)"
    and "0 \<le> now" "0 < s64_of life" "now + s64_of life < 2 ^ 63"
  shows "in_window (cp_seal c) t \<longleftrightarrow> now \<le> t \<and> t < now + s64_of life"
proof -
  have "life \<noteq> 0" using assms(3) by (auto simp: s64_of_def)
  then show ?thesis
    using assms by (simp add: in_window_def seal_make_fields)
qed

section \<open>A concrete system\<close>

definition empty_sys :: cap_sys where
  "empty_sys = \<lparr>y_objs = Map.empty, y_spaces = Map.empty, y_next_object = 1, y_next_space = 1,
     y_stats = \<lparr>st_objects_live = 0, st_caps_live = 0, st_installs = 0, st_derives = 0,
       st_grants = 0, st_revokes = 0, st_denials = 0, st_expiries = 0, st_generation_faults = 0\<rparr>,
     y_kaalka = boot_kaalka, y_released = [], y_graph = []\<rparr>"

text \<open>One space at address 100 and one file object at address 200.\<close>

definition demo_sys :: cap_sys where
  "demo_sys = snd (cap_object_create (Some 200) CAP_FILE 4096 None None
     (snd (capspace_create (Some 100) True empty_sys)))"

lemma demo_facts:
  "slots_ok demo_sys"
  "y_spaces demo_sys 100 = Some \<lparr>sp_slots = replicate 64 blank_cap, sp_used = 0, sp_refcount = 1,
     sp_id = 1, sp_ledger = kaalka_ledger_init\<rparr>"
  "y_objs demo_sys 200 = Some \<lparr>ob_type = CAP_FILE, ob_id = 1, ob_ptr = 4096, ob_refcount = 1,
     ob_generation = 1, ob_label = None, ob_release = None\<rparr>"
  by (auto simp: demo_sys_def slots_ok_def cap_object_create_def capspace_create_def empty_sys_def Let_def)

lemma cap_install_succeeds:
  assumes "y_spaces y sp = Some cs" "y_objs y obj = Some ob" "free_slot (sp_slots cs) < length (sp_slots cs)"
  obtains y' where "cap_install now grow sp obj rights badge life y = (int (free_slot (sp_slots cs)), y')"
  using assms by (simp add: cap_install_def Let_def case_prod_unfold)

lemma install_slots_ok:
  assumes "cap_install now grow sp obj rights badge life y = (h, y')" "h \<noteq> -1" "slots_ok y"
  shows "slots_ok y'"
  by (rule cap_install_facts [OF assms])
    (use assms(3) in \<open>auto simp: slots_ok_def split: if_splits\<close>)

text \<open>The demo system with one capability in slot 0.\<close>

lemma demo_install:
  obtains y' where "cap_install now True 100 200 rights badge life demo_sys = (0, y')" "slots_ok y'"
proof -
  obtain y' where "cap_install now True 100 200 rights badge life demo_sys = (0, y')"
    using cap_install_succeeds [OF demo_facts(2,3), of now True rights badge life]
    by (auto simp: free_slot_def blank_cap_def)
  then show thesis using that install_slots_ok demo_facts(1) by fastforce
qed

text \<open>Looking up what was installed: only the window of the new seal matters.\<close>

lemma installed_lookup:
  assumes "cap_install now grow sp obj rights badge life y = (h, y')" "h \<noteq> -1" "slots_ok y"
    and "y_spaces z = y_spaces y'" "y_objs z = y_objs y'" "y_kaalka z = y_kaalka y'"
  obtains cs c where "slot_of sp h z = Some (cs, c)" "cp_obj c = Some obj" "cp_rights c = rights"
    "s_not_before (cp_seal c) = now"
    "s_not_after (cp_seal c) = s64_wrap (now + s64_of (if life \<noteq> 0 then life else 60))"
    "\<And>t need. rights AND need = need \<Longrightarrow>
      fst (cap_lookup t sp h CAP_NULL need z) = (if in_window (cp_seal c) t then Inr obj else Inl EEXPIRED)"
proof -
  obtain cs ob slots c where I: "y_objs y obj = Some ob" "0 \<le> h" "nat h < length slots"
    "cp_obj c = Some obj" "cp_rights c = rights" "cp_generation c = ob_generation ob"
    "cp_badge c = badge" "cp_valid c"
    "cp_seal c = fst (kaalka_seal_make now (ob_id ob) badge (cap_body ob c) life (y_kaalka y))"
    "y_spaces y' = (y_spaces y)(sp \<mapsto> cs\<lparr>sp_slots := slots[nat h := c], sp_used := sp_used cs + 1\<rparr>)"
    "y_objs y' = (y_objs y)(obj \<mapsto> ob\<lparr>ob_refcount := ob_refcount ob + 1\<rparr>)"
    "k_master (y_kaalka y') = k_master (y_kaalka y)"
    using cap_install_facts [OF assms(1-3)] by metis
  let ?cs = "cs\<lparr>sp_slots := slots[nat h := c], sp_used := sp_used cs + 1\<rparr>"
  have s: "slot_of sp h z = Some (?cs, c)"
    using slot_of_installed [OF I(2,3,10)] slot_of_cong [OF assms(4)] by simp
  have "fst (cap_lookup t sp h CAP_NULL need z) = (if in_window (cp_seal c) t then Inr obj else Inl EEXPIRED)"
    if n: "rights AND need = need" for t need
  proof -
    have v: "fst (verify_capability t (ob\<lparr>ob_refcount := ob_refcount ob + 1\<rparr>) c (y_kaalka z))
        = (if in_window (cp_seal c) t then Inr () else Inl EEXPIRED)"
      by (rule installed_verifies [where k = "y_kaalka y" and ob = ob and now = now and life = life])
        (simp_all add: I(7,9,12) assms(6))
    obtain r k where rk: "verify_capability t (ob\<lparr>ob_refcount := ob_refcount ob + 1\<rparr>) c (y_kaalka z) = (r, k)"
      by fastforce
    then have "r = (if in_window (cp_seal c) t then Inr () else Inl EEXPIRED)" using v by simp
    then show ?thesis
      using s I(4,5,6,8,11) rk n by (simp add: cap_lookup_def Let_def assms(5))
  qed
  then show thesis
    using that [OF s I(4,5)] by (simp add: I(9) seal_make_fields)
qed

text \<open>
  C1. A lookup hands out an object only to a handle that names a valid slot whose capability
  refers to it, has the type and every right asked for, is of the object's current generation,
  and carries a seal that verifies now; and to every such handle.
\<close>

theorem cap_lookup_iff:
  "fst (cap_lookup now sp h type need y) = Inr obj \<longleftrightarrow>
     (\<exists>cs c ob. slot_of sp h y = Some (cs, c) \<and> cp_valid c \<and> cp_obj c = Some obj \<and>
        y_objs y obj = Some ob \<and> (type = CAP_NULL \<or> ob_type ob = type) \<and>
        cp_rights c AND need = need \<and> cp_generation c = ob_generation ob \<and>
        fst (kaalka_seal_verify now (cp_seal c) (ob_id ob) (cap_body ob c) (y_kaalka y)) = Inr ())"
  by (simp add: cap_lookup_ok cap_admits_def verify_capability_def)

lemma installed_lifetime:
  assumes "cap_install now grow sp obj rights badge life y = (h, y')" "h \<noteq> -1" "slots_ok y"
    and "0 \<le> now" "0 < s64_of life" "now + s64_of life < 2 ^ 63" "now \<le> t"
    and "rights AND need = need"
  shows "fst (cap_lookup t sp h CAP_NULL need y')
    = (if t < now + s64_of life then Inr obj else Inl EEXPIRED)"
proof (rule installed_lookup [OF assms(1-3) refl refl refl])
  fix c
  assume nb: "s_not_before (cp_seal c) = now"
    and na: "s_not_after (cp_seal c) = s64_wrap (now + s64_of (if life \<noteq> 0 then life else 60))"
    and l: "\<And>t need. rights AND need = need \<Longrightarrow>
      fst (cap_lookup t sp h CAP_NULL need y') = (if in_window (cp_seal c) t then Inr obj else Inl EEXPIRED)"
  have "life \<noteq> 0" using assms(5) by (auto simp: s64_of_def)
  then have "s_not_after (cp_seal c) = now + s64_of life" using na assms(4-6) by simp
  then show ?thesis using l [OF assms(8)] nb assms(4,5,7) by (simp add: in_window_def)
qed

text \<open>
  C2. Authority lasts exactly as long as it was granted for: a capability installed with a
  lifetime looks up successfully for the rights it carries at every later time before its
  deadline, and from the deadline on every lookup answers that it has expired.
\<close>

theorem cap_authority_is_temporal:
  assumes "cap_install now grow sp obj rights badge life y = (h, y')" "h \<noteq> -1" "slots_ok y"
    and "0 \<le> now" "0 < s64_of life" "now + s64_of life < 2 ^ 63" "now \<le> t"
    and "rights AND need = need"
  shows "fst (cap_lookup t sp h CAP_NULL need y')
    = (if t < now + s64_of life then Inr obj else Inl EEXPIRED)"
  using assms by (rule installed_lifetime)

theorem cap_authority_is_temporal_witness:
  "\<exists>y'. cap_install 1000 True 100 200 0x81 5 60 demo_sys = (0, y') \<and>
     fst (cap_lookup 1059 100 0 CAP_NULL 1 y') = Inr 200 \<and>
     fst (cap_lookup 1060 100 0 CAP_NULL 1 y') = Inl EEXPIRED"
proof -
  obtain y' where i: "cap_install 1000 True 100 200 0x81 5 60 demo_sys = (0, y')"
    by (rule demo_install)
  have l: "s64_of 60 = 60" by (simp add: s64_of_small)
  show ?thesis
    using cap_authority_is_temporal [OF i _ demo_facts(1), of 1059 1]
      cap_authority_is_temporal [OF i _ demo_facts(1), of 1060 1] i l
    by (intro exI [of _ y']) simp
qed

section \<open>Deriving\<close>

lemma cap_derive_facts:
  assumes "cap_derive now grow sp parent new_rights badge life y = (h, y')" "h \<noteq> -1"
  obtains cs p obj y1 where "slot_of sp parent y = Some (cs, p)" "cp_valid p" "cp_obj p = Some obj"
    "cp_rights p AND CAP_RIGHT_DERIVE \<noteq> 0" "derive_life now p life \<noteq> 0"
    "cap_install now grow sp obj (new_rights AND cp_rights p) badge (derive_life now p life) y = (h, y1)"
    "y_spaces y' = y_spaces y1" "y_objs y' = y_objs y1" "y_kaalka y' = y_kaalka y1"
  using assms
  by (auto simp: cap_derive_def Let_def split: option.splits prod.splits bool.splits if_splits)

lemma s64_of_u64_of: "- (2 ^ 63) \<le> x \<Longrightarrow> x < 2 ^ 63 \<Longrightarrow> s64_of (u64_of x) = x"
  by (simp add: s64_of_def u64_of_def signed_of_int signed_take_bit_int_eq_self)

text \<open>The clamp holds the new deadline to the parent's when the lifetime asked for is not
  negative as a signed number.\<close>

lemma derive_life_bound:
  assumes "0 \<le> now" "now < 2 ^ 63" "0 \<le> s_not_after (cp_seal p)" "s_not_after (cp_seal p) < 2 ^ 63"
    and "0 \<le> s64_of life" "derive_life now p life \<noteq> 0"
  shows "0 < s64_of (derive_life now p life)"
    "now + s64_of (derive_life now p life) \<le> s_not_after (cp_seal p)"
proof -
  define left where "left = (if s_not_after (cp_seal p) - now < 0 then 0 else s_not_after (cp_seal p) - now)"
  have w: "s64_wrap (s_not_after (cp_seal p) - now) = s_not_after (cp_seal p) - now"
    using assms by (intro s64_wrap_small) auto
  have d: "derive_life now p life = (if life = 0 \<or> left < s64_of life then u64_of left else life)"
    by (simp add: derive_life_def w left_def Let_def)
  have l: "s64_of (u64_of left) = left" "0 \<le> left"
    using assms by (auto simp: left_def intro!: s64_of_u64_of)
  have "left \<noteq> 0" if "u64_of left \<noteq> 0" using that by (auto simp: u64_of_def)
  moreover have "s64_of life \<noteq> 0" if "life \<noteq> 0"
    using that signed_word_eqI [of life 0] by (auto simp: s64_of_def)
  ultimately have "0 < s64_of (derive_life now p life)" "s64_of (derive_life now p life) \<le> left"
    using assms(5,6) l by (auto simp: d split: if_splits)
  then show "0 < s64_of (derive_life now p life)"
    "now + s64_of (derive_life now p life) \<le> s_not_after (cp_seal p)"
    by (auto simp: left_def split: if_splits)
qed


text \<open>The immediate child of a freshly installed parent, in the demo system.\<close>

lemma demo_derive:
  assumes "cap_install now True 100 200 rights badge life demo_sys = (0, y1)"
    and "rights AND CAP_RIGHT_DERIVE \<noteq> 0" "derive_life t p life' \<noteq> 0" "slot_of 100 0 y1 = Some (cs, p)"
    and "y_spaces z = y_spaces y1" "y_objs z 200 = Some ob"
  obtains y2 where "cap_derive t True 100 0 new_rights new_badge life' z = (1, y2)"
proof -
  obtain cs0 slots c where I: "y_spaces demo_sys 100 = Some cs0"
    "slots = sp_slots cs0 \<or> (\<exists>n. slots = sp_slots cs0 @ replicate n blank_cap)"
    "cp_obj c = Some 200" "cp_rights c = rights" "cp_valid c"
    "y_spaces y1 = (y_spaces demo_sys)(100 \<mapsto> cs0\<lparr>sp_slots := slots[nat 0 := c], sp_used := sp_used cs0 + 1\<rparr>)"
    by (rule cap_install_facts [OF assms(1) _ demo_facts(1)]) auto
  obtain n where s: "slots = replicate (64 + n) blank_cap"
    using I(1,2) demo_facts(2) by (auto simp: replicate_add [symmetric])
  have p: "p = c" "cs = cs0\<lparr>sp_slots := slots[nat 0 := c], sp_used := sp_used cs0 + 1\<rparr>"
    using assms(4) I(6) s by (auto simp: slot_of_def)
  have f: "free_slot (slots[0 := c]) = 1" "1 < length (slots[0 := c])"
    using I(5) by (simp_all add: s free_slot_def replicate_add [symmetric] numeral_eq_Suc blank_cap_def)
  have z: "slot_of 100 0 z = Some (cs, p)" using assms(4) slot_of_cong [OF assms(5)] by simp
  obtain y2 where "cap_install t True 100 200 (new_rights AND rights) new_badge (derive_life t p life') z
      = (int (free_slot (slots[0 := c])), y2)"
    by (rule cap_install_succeeds [of z 100 "cs0\<lparr>sp_slots := slots[0 := c], sp_used := sp_used cs0 + 1\<rparr>" 200 ob])
      (use I f assms(5,6) in auto)
  then show thesis
    using that assms(2,3) I(3,4,5) p f z by (simp add: cap_derive_def Let_def)
qed

lemma demo_installed_obj:
  assumes "cap_install now True 100 200 rights badge life demo_sys = (0, y1)"
  obtains ob where "y_objs y1 200 = Some ob"
  by (rule cap_install_facts [OF assms _ demo_facts(1)]) auto


text \<open>
  C29. The proviso is needed: a lifetime whose signed value is minus the current time is not
  clamped, makes the deadline zero, and so the derived capability - with every right of the
  parent that was asked for - looks up successfully at every later time, long after its parent
  has expired.
\<close>

theorem derived_cap_never_expires:
  assumes "cap_derive now grow sp parent new_rights badge (u64_of (- now)) y = (h, y')" "h \<noteq> -1"
    and "slots_ok y" "slot_of sp parent y = Some (cs, p)" "cp_obj p = Some obj"
    and "0 < now" "now < 2 ^ 63" "0 \<le> s_not_after (cp_seal p)" "s_not_after (cp_seal p) < 2 ^ 63"
    and "now \<le> t" "(new_rights AND cp_rights p) AND need = need"
  shows "fst (cap_lookup t sp h CAP_NULL need y') = Inr obj"
proof -
  have n: "s64_of (u64_of (- now)) = - now" using assms(6,7) by (intro s64_of_u64_of) auto
  then have nz: "u64_of (- now) \<noteq> 0" using assms(6) by (auto simp: s64_of_def)
  have "s64_wrap (s_not_after (cp_seal p) - now) = s_not_after (cp_seal p) - now"
    using assms by (intro s64_wrap_small) auto
  then have life: "derive_life now p (u64_of (- now)) = u64_of (- now)"
    using assms(6) n nz by (simp add: derive_life_def Let_def)
  obtain y1 where D:
    "cap_install now grow sp obj (new_rights AND cp_rights p) badge (u64_of (- now)) y = (h, y1)"
    "y_spaces y' = y_spaces y1" "y_objs y' = y_objs y1" "y_kaalka y' = y_kaalka y1"
    using cap_derive_facts [OF assms(1,2)] assms(4,5) life by (metis option.inject prod.inject)
  show ?thesis
  proof (rule installed_lookup [OF D(1) assms(2,3) D(2-4)])
    fix c
    assume "s_not_before (cp_seal c) = now"
      and "s_not_after (cp_seal c) = s64_wrap (now + s64_of (if u64_of (- now) \<noteq> 0 then u64_of (- now) else 60))"
      and l: "\<And>t need. (new_rights AND cp_rights p) AND need = need \<Longrightarrow>
        fst (cap_lookup t sp h CAP_NULL need y') = (if in_window (cp_seal c) t then Inr obj else Inl EEXPIRED)"
    then have "in_window (cp_seal c) t" using nz n assms(10) by (simp add: in_window_def)
    then show ?thesis using l [OF assms(11)] by simp
  qed
qed

theorem derived_cap_never_expires_witness:
  "\<exists>y1 y2. cap_install 1000 True 100 200 0x83 5 600 demo_sys = (0, y1) \<and>
     cap_derive 1100 True 100 0 0x7f 9 (u64_of (- 1100)) y1 = (1, y2) \<and>
     fst (cap_lookup 1000000 100 1 CAP_NULL 3 y2) = Inr 200"
proof -
  obtain y1 where i: "cap_install 1000 True 100 200 0x83 5 600 demo_sys = (0, y1)" "slots_ok y1"
    by (rule demo_install)
  obtain cs p where s: "slot_of 100 0 y1 = Some (cs, p)" "cp_obj p = Some 200" "cp_rights p = 0x83"
    "s_not_after (cp_seal p) = s64_wrap (1000 + s64_of (if 600 \<noteq> (0::u64) then 600 else 60))"
    by (rule installed_lookup [OF i(1) _ demo_facts(1) refl refl refl]) auto
  have na: "s_not_after (cp_seal p) = 1600" using s(4) by (simp add: s64_of_small)
  have n: "s64_of (u64_of (- 1100)) = - 1100" by (intro s64_of_u64_of) auto
  then have d: "derive_life 1100 p (u64_of (- 1100)) \<noteq> 0"
    by (auto simp: derive_life_def na s64_of_def Let_def)
  obtain ob where ob: "y_objs y1 200 = Some ob" by (rule demo_installed_obj [OF i(1)])
  obtain y2 where y2: "cap_derive 1100 True 100 0 0x7f 9 (u64_of (- 1100)) y1 = (1, y2)"
    by (rule demo_derive [OF i(1) _ d s(1) refl ob, where new_rights = "0x7f" and new_badge = 9]) (auto simp: CAP_RIGHT_DERIVE_def)
  show ?thesis
    using i(1) y2 derived_cap_never_expires [OF y2 _ i(2) s(1,2), of 1000000 3] na s(3)
    by (intro exI conjI) simp_all
qed

section \<open>Revocation\<close>

lemma revoke_facts:
  assumes "y_objs y obj = Some ob"
  shows "fst (cap_revoke_recursive obj y) = Inr ()"
    "y_objs (snd (cap_revoke_recursive obj y)) = (y_objs y)(obj \<mapsto> ob\<lparr>ob_generation := ob_generation ob + 1\<rparr>)"
    "y_spaces (snd (cap_revoke_recursive obj y)) = y_spaces y"
    "y_kaalka (snd (cap_revoke_recursive obj y)) = y_kaalka y"
  using assms by (simp_all add: cap_revoke_recursive_def Let_def)

lemma revoked_lookup:
  assumes "fst (cap_lookup now sp h type need y) = Inr obj"
    and "fst (cap_revoke_recursive victim y) = Inr ()"
  shows "fst (cap_lookup now sp h type need (snd (cap_revoke_recursive victim y)))
    = (if obj = victim then Inl EBADF else Inr obj)"
proof -
  obtain cs c ob where L: "slot_of sp h y = Some (cs, c)" "cp_valid c" "cp_obj c = Some obj"
    "y_objs y obj = Some ob" "cap_admits now type need c ob (y_kaalka y)"
    using assms(1) by (auto simp: cap_lookup_ok)
  obtain vob where v: "y_objs y victim = Some vob"
    using assms(2) by (auto simp: cap_revoke_recursive_def split: option.splits)
  note R = revoke_facts [OF v]
  have s: "slot_of sp h (snd (cap_revoke_recursive victim y)) = Some (cs, c)"
    using L(1) slot_of_cong [OF R(3)] by simp
  show ?thesis
  proof (cases "obj = victim")
    case True
    then show ?thesis
      using L s R(2) v by (auto simp: cap_lookup_def cap_admits_def)
  next
    case False
    then have "fst (cap_lookup now sp h type need (snd (cap_revoke_recursive victim y))) = Inr obj"
      using L s R by (auto simp: cap_lookup_ok)
    then show ?thesis using False by simp
  qed
qed

text \<open>
  C5. Revocation reaches every capability at once: after an object is revoked, no handle in any
  space through which a lookup could reach it before, at any time and for any rights, reaches it
  any more; and lookups of other objects are unaffected.
\<close>

theorem revoke_stops_every_lookup:
  assumes "fst (cap_lookup now sp h type need y) = Inr obj"
    and "fst (cap_revoke_recursive victim y) = Inr ()"
  shows "fst (cap_lookup now sp h type need (snd (cap_revoke_recursive victim y)))
    = (if obj = victim then Inl EBADF else Inr obj)"
  using assms by (rule revoked_lookup)

theorem revoke_stops_every_lookup_witness:
  "\<exists>y1. cap_install 1000 True 100 200 0x83 5 600 demo_sys = (0, y1) \<and>
     fst (cap_lookup 1100 100 0 CAP_NULL 3 y1) = Inr 200 \<and>
     fst (cap_lookup 1100 100 0 CAP_NULL 3 (snd (cap_revoke_recursive 200 y1))) = Inl EBADF"
proof -
  obtain y1 where i: "cap_install 1000 True 100 200 0x83 5 600 demo_sys = (0, y1)" "slots_ok y1"
    by (rule demo_install)
  have l: "fst (cap_lookup 1100 100 0 CAP_NULL 3 y1) = Inr 200"
    using installed_lifetime [OF i(1) _ demo_facts(1), of 1100 3] by (simp add: s64_of_small)
  then obtain ob where "y_objs y1 200 = Some ob" by (auto simp: cap_lookup_ok)
  then have r: "fst (cap_revoke_recursive 200 y1) = Inr ()" by (rule revoke_facts)
  show ?thesis
    using i(1) l revoke_stops_every_lookup [OF l r] by (intro exI conjI) simp_all
qed

text \<open>
  C30. Revoked authority can be minted again: a capability with the \<open>derive\<close> right that
  revocation has made stale is refused by lookup, yet \<open>cap_derive\<close> does not check its
  generation, and what it derives is of the object's new generation and looks up successfully
  with all of the stale capability's rights.
\<close>

theorem stale_cap_resurrects:
  assumes "slot_of sp parent y = Some (cs, p)" "cp_obj p = Some obj"
    and "fst (cap_lookup now sp parent CAP_NULL need y) = Inr obj"
    and "fst (cap_revoke_recursive obj y) = Inr ()" and "slots_ok y"
    and "cap_derive now grow sp parent (- 1) badge life (snd (cap_revoke_recursive obj y)) = (h, y')"
    and "h \<noteq> -1" and "0 \<le> now" "now < 2 ^ 63"
    and "0 \<le> s_not_after (cp_seal p)" "s_not_after (cp_seal p) < 2 ^ 63" "0 \<le> s64_of life"
  shows "fst (cap_lookup now sp parent CAP_NULL need (snd (cap_revoke_recursive obj y))) = Inl EBADF \<and>
    fst (cap_lookup now sp h CAP_NULL need y') = Inr obj"
proof
  let ?y = "snd (cap_revoke_recursive obj y)"
  show "fst (cap_lookup now sp parent CAP_NULL need ?y) = Inl EBADF"
    using revoked_lookup [OF assms(3,4)] by simp
  obtain ob where ob: "y_objs y obj = Some ob" using assms(3) by (auto simp: cap_lookup_ok)
  note R = revoke_facts [OF ob]
  have s: "slot_of sp parent ?y = Some (cs, p)" using assms(1) slot_of_cong [OF R(3)] by simp
  have so: "slots_ok ?y" using assms(5) R(3) by (simp add: slots_ok_def)
  have need: "((- 1) AND cp_rights p) AND need = need"
    using assms(1,3) by (auto simp: cap_lookup_ok cap_admits_def)
  obtain y1 where D: "derive_life now p life \<noteq> 0"
    "cap_install now grow sp obj ((- 1) AND cp_rights p) badge (derive_life now p life) ?y = (h, y1)"
    "y_spaces y' = y_spaces y1" "y_objs y' = y_objs y1" "y_kaalka y' = y_kaalka y1"
    using cap_derive_facts [OF assms(6,7)] s assms(2) by (metis option.inject prod.inject)
  note B = derive_life_bound [OF assms(8-12) D(1)]
  show "fst (cap_lookup now sp h CAP_NULL need y') = Inr obj"
  proof (rule installed_lookup [OF D(2) assms(7) so D(3-5)])
    fix c
    assume nb: "s_not_before (cp_seal c) = now"
      and na: "s_not_after (cp_seal c)
        = s64_wrap (now + s64_of (if derive_life now p life \<noteq> 0 then derive_life now p life else 60))"
      and l: "\<And>t need. ((- 1) AND cp_rights p) AND need = need \<Longrightarrow>
        fst (cap_lookup t sp h CAP_NULL need y') = (if in_window (cp_seal c) t then Inr obj else Inl EEXPIRED)"
    have "s64_wrap (now + s64_of (derive_life now p life)) = now + s64_of (derive_life now p life)"
      using B assms(8-11) by (intro s64_wrap_small) auto
    then have "s_not_after (cp_seal c) = now + s64_of (derive_life now p life)" using na D(1) by simp
    then have "in_window (cp_seal c) now" using B(1) nb by (simp add: in_window_def)
    then show ?thesis using l [OF need, of now] by (simp only: if_True)
  qed
qed

theorem stale_cap_resurrects_witness:
  "\<exists>y1 y2. cap_install 1000 True 100 200 0x83 5 600 demo_sys = (0, y1) \<and>
     cap_derive 1100 True 100 0 (- 1) 9 60 (snd (cap_revoke_recursive 200 y1)) = (1, y2) \<and>
     fst (cap_lookup 1100 100 0 CAP_NULL 3 (snd (cap_revoke_recursive 200 y1))) = Inl EBADF \<and>
     fst (cap_lookup 1100 100 1 CAP_NULL 3 y2) = Inr 200"
proof -
  obtain y1 where i: "cap_install 1000 True 100 200 0x83 5 600 demo_sys = (0, y1)" "slots_ok y1"
    by (rule demo_install)
  obtain cs p where s: "slot_of 100 0 y1 = Some (cs, p)" "cp_obj p = Some 200"
    "s_not_after (cp_seal p) = s64_wrap (1000 + s64_of (if 600 \<noteq> (0::u64) then 600 else 60))"
    by (rule installed_lookup [OF i(1) _ demo_facts(1) refl refl refl]) auto
  have na: "s_not_after (cp_seal p) = 1600" using s(3) by (simp add: s64_of_small)
  have d: "derive_life 1100 p 60 \<noteq> 0" by (simp add: derive_life_def na s64_of_small)
  have l: "fst (cap_lookup 1100 100 0 CAP_NULL 3 y1) = Inr 200"
    using installed_lifetime [OF i(1) _ demo_facts(1), of 1100 3] by (simp add: s64_of_small)
  obtain ob where ob: "y_objs y1 200 = Some ob" by (rule demo_installed_obj [OF i(1)])
  note R = revoke_facts [OF ob]
  obtain y2 where y2:
    "cap_derive 1100 True 100 0 (- 1) 9 60 (snd (cap_revoke_recursive 200 y1)) = (1, y2)"
    by (rule demo_derive [OF i(1) _ d s(1) R(3), where new_rights = "- 1" and new_badge = 9])
      (auto simp: CAP_RIGHT_DERIVE_def R(2))
  show ?thesis
    using i(1) y2 stale_cap_resurrects [OF s(1,2) l R(1) i(2) y2] na
    by (intro exI [of _ y1] exI [of _ y2]) (simp add: s64_of_small)
qed

end
