(* ===== verification/RK_CapRefs.thy ===== *)
theory RK_CapRefs
  imports RK_CapSafety
begin

text \<open>
  Memory safety of the capability system: a transition system over the operations of
  \<open>RK_Cap\<close> and of clients that hold references of their own, and the invariant that an
  object's reference count covers every valid slot that names it, so that no valid slot names a
  freed object.
\<close>

section \<open>Counting\<close>

definition holders :: "nat \<Rightarrow> cap_sys \<Rightarrow> (nat \<times> nat) set" where
  "holders a y = {(sp, i). \<exists>cs. y_spaces y sp = Some cs \<and> i < length (sp_slots cs) \<and>
     cp_valid (sp_slots cs ! i) \<and> cp_obj (sp_slots cs ! i) = Some a}"

definition refs :: "nat \<Rightarrow> cap_sys \<Rightarrow> nat" where
  "refs a y = (case y_objs y a of None \<Rightarrow> 0 | Some ob \<Rightarrow> unat (ob_refcount ob))"

definition cap_wf :: "cap_sys \<Rightarrow> bool" where
  "cap_wf y \<longleftrightarrow> slots_ok y \<and> (\<forall>a. finite (holders a y) \<and> card (holders a y) \<le> refs a y)"

lemma holders_cong: "y_spaces y' = y_spaces y \<Longrightarrow> holders a y' = holders a y"
  by (simp add: holders_def)

lemma refs_cong: "y_objs y' = y_objs y \<Longrightarrow> refs a y' = refs a y"
  by (simp add: refs_def)

lemma cap_wf_cong: "cap_wf y \<Longrightarrow> y_spaces y' = y_spaces y \<Longrightarrow> y_objs y' = y_objs y \<Longrightarrow> cap_wf y'"
  by (simp add: cap_wf_def slots_ok_def holders_def refs_def)

lemma holder_referenced:
  assumes "cap_wf y" "(sp, i) \<in> holders a y"
  shows "0 < refs a y"
  using assms by (auto simp: cap_wf_def) (metis card_gt_0_iff empty_iff le_trans not_less_zero not_gr_zero le_zero_eq)

lemma refs_put: "0 < refs a y \<Longrightarrow> refs b (cap_object_put a y) = (if b = a then refs a y - 1 else refs b y)"
  by (auto simp: refs_def cap_object_put_def Let_def unat_minus_one unat_gt_0 bump_stats_def
    split: option.splits)

lemma refs_get:
  "y_objs y a = Some ob \<Longrightarrow> refs a y + 1 < 2 ^ 32 \<Longrightarrow>
     refs b (cap_object_get a y) = (if b = a then refs a y + 1 else refs b y)"
  by (auto simp: refs_def cap_object_get_def unat_word_ariths)

lemma holders_set_slot:
  assumes "y_spaces y sp = Some cs" "i < length (sp_slots cs)"
    and "y_spaces y' = (y_spaces y)(sp \<mapsto> cs\<lparr>sp_slots := (sp_slots cs)[i := c], sp_used := n\<rparr>)"
  shows "holders a y' = (holders a y - {(sp, i)}) \<union> (if cp_valid c \<and> cp_obj c = Some a then {(sp, i)} else {})"
  using assms by (auto simp: holders_def nth_list_update split: if_splits)

lemma holders_grow:
  assumes "y_spaces y sp = Some cs"
    and "slots = sp_slots cs \<or> (\<exists>n. slots = sp_slots cs @ replicate n blank_cap)"
    and "i < length slots" "\<not> cp_valid (slots ! i)"
    and "y_spaces y' = (y_spaces y)(sp \<mapsto> cs\<lparr>sp_slots := slots[i := c], sp_used := n\<rparr>)"
    and "cp_valid c" "cp_obj c = Some obj"
  shows "holders a y' = (if a = obj then insert (sp, i) (holders a y) else holders a y)"
    "(sp, i) \<notin> holders a y"
proof -
  have 1: "j < length slots \<Longrightarrow> cp_valid (slots ! j) \<Longrightarrow> j < length (sp_slots cs) \<and> slots ! j = sp_slots cs ! j" for j
    using assms(2) by (auto simp: nth_append blank_cap_def split: if_splits)
  have 2: "j < length (sp_slots cs) \<Longrightarrow> j < length slots \<and> slots ! j = sp_slots cs ! j" for j
    using assms(2) by (auto simp: nth_append)
  show "(sp, i) \<notin> holders a y"
    using assms(1,4) 2 by (auto simp: holders_def)
  have "(sp', j) \<in> holders a y' \<longleftrightarrow> (sp', j) \<in> holders a y \<or> (a = obj \<and> sp' = sp \<and> j = i)" for sp' j
  proof (cases "sp' = sp")
    case True
    have y': "(sp, j) \<in> holders a y' \<longleftrightarrow> j < length slots \<and> cp_valid (slots[i := c] ! j) \<and>
        cp_obj (slots[i := c] ! j) = Some a"
      using assms(5) by (simp add: holders_def)
    have y: "(sp, j) \<in> holders a y \<longleftrightarrow> j < length slots \<and> cp_valid (slots ! j) \<and> cp_obj (slots ! j) = Some a"
      using assms(1) 1 [of j] 2 [of j] by (auto simp: holders_def)
    show ?thesis
      using y' y assms(3,4,6,7) True by (cases "j = i") auto
  next
    case False
    then show ?thesis using assms(5) by (simp add: holders_def)
  qed
  then show "holders a y' = (if a = obj then insert (sp, i) (holders a y) else holders a y)" by auto
qed

section \<open>Each operation keeps the invariant\<close>

lemma install_wf:
  assumes "cap_wf y" "refs obj y + 1 < 2 ^ 32"
  shows "cap_wf (snd (cap_install now grow sp obj rights badge life y))"
proof -
  obtain h y' where i: "cap_install now grow sp obj rights badge life y = (h, y')" by fastforce
  show ?thesis
  proof (cases "h = -1")
    case True
    then have "y' = y"
      using i by (auto simp: cap_install_def Let_def split: option.splits prod.splits if_splits)
    then show ?thesis using assms i by simp
  next
    case False
    have so: "slots_ok y" using assms(1) by (simp add: cap_wf_def)
    obtain cs ob slots c where I: "y_spaces y sp = Some cs" "y_objs y obj = Some ob"
      "slots = sp_slots cs \<or> (\<exists>n. slots = sp_slots cs @ replicate n blank_cap)"
      "nat h < length slots" "\<not> cp_valid (slots ! nat h)" "cp_obj c = Some obj" "cp_valid c"
      "y_spaces y' = (y_spaces y)(sp \<mapsto> cs\<lparr>sp_slots := slots[nat h := c], sp_used := sp_used cs + 1\<rparr>)"
      "y_objs y' = (y_objs y)(obj \<mapsto> ob\<lparr>ob_refcount := ob_refcount ob + 1\<rparr>)"
      using cap_install_facts [OF i False so] by metis
    note H = holders_grow [OF I(1,3,4,5,8,7,6)]
    have "refs a y' = (if a = obj then refs obj y + 1 else refs a y)" for a
      using assms(2) I(2,9) by (auto simp: refs_def unat_word_ariths)
    then show ?thesis
      using assms(1) H install_slots_ok [OF i False so] i by (auto simp: cap_wf_def)
  qed
qed

lemma drop_slot_wf:
  assumes "cap_wf y" "y_spaces y sp = Some cs" "i < length (sp_slots cs)"
    and "cp_valid (sp_slots cs ! i)" "cp_obj (sp_slots cs ! i) = Some obj" "\<not> cp_valid c"
    and "y_spaces y' = (y_spaces y)(sp \<mapsto> cs\<lparr>sp_slots := (sp_slots cs)[i := c], sp_used := n\<rparr>)"
    and "y_objs y' = y_objs y"
  shows "cap_wf (cap_object_put obj y')" "cap_wf y'"
proof -
  have H: "holders a y' = holders a y - {(sp, i)}" for a
    using holders_set_slot [OF assms(2,3,7)] assms(6) by simp
  have m: "(sp, i) \<in> holders obj y" using assms(2-5) by (simp add: holders_def)
  have r: "refs a y' = refs a y" for a by (rule refs_cong [OF assms(8)])
  have p: "0 < refs obj y'" using holder_referenced [OF assms(1) m] r by simp
  have so: "slots_ok y'" using assms(1,2,7) by (auto simp: cap_wf_def slots_ok_def)
  show "cap_wf (cap_object_put obj y')"
    unfolding cap_wf_def
  proof (intro conjI allI)
    fix a
    have h: "holders a (cap_object_put obj y') = holders a y - {(sp, i)}"
      using H holders_cong [of "cap_object_put obj y'" y' a] by simp
    show "finite (holders a (cap_object_put obj y'))" using h assms(1) by (simp add: cap_wf_def)
    show "card (holders a (cap_object_put obj y')) \<le> refs a (cap_object_put obj y')"
    proof (cases "a = obj")
      case True
      then show ?thesis using h m assms(1) refs_put [OF p, of a] r by (simp add: cap_wf_def card_Diff_singleton diff_le_mono)
    next
      case False
      then show ?thesis
        using h assms(1) refs_put [OF p, of a] r
        by (simp add: cap_wf_def) (meson card_Diff1_le order_trans)
    qed
  qed (use so in \<open>simp add: slots_ok_def\<close>)
  show "cap_wf y'"
    using assms(1) H so r by (auto simp: cap_wf_def) (meson card_Diff1_le order_trans)
qed

lemma shrink_wf:
  assumes "cap_wf y" "\<And>a. holders a y' \<subseteq> holders a y" "y_objs y' = y_objs y" "slots_ok y'"
  shows "cap_wf y'"
  unfolding cap_wf_def
proof (intro conjI allI)
  fix a
  show "finite (holders a y')" using assms(1,2) by (meson cap_wf_def finite_subset)
  have "card (holders a y') \<le> card (holders a y)"
    using assms(1,2) by (meson cap_wf_def card_mono)
  also have "\<dots> \<le> refs a y'" using assms(1) refs_cong [OF assms(3)] by (simp add: cap_wf_def)
  finally show "card (holders a y') \<le> refs a y'" .
qed (rule assms(4))

text \<open>A successful lookup only counts a use down.\<close>

lemma use_slot_wf:
  assumes "cap_wf y" "slot_of sp h y = Some (cs, c)" "cp_obj c' = cp_obj c" "cp_valid c"
  shows "cap_wf (set_slot sp h c' y)"
proof -
  note S = slot_of_SomeD [OF assms(2)]
  have s: "y_spaces (set_slot sp h c' y) = (y_spaces y)(sp \<mapsto>
      cs\<lparr>sp_slots := (sp_slots cs)[nat h := c'], sp_used := sp_used cs\<rparr>)"
    using S by (simp add: set_slot_def)
  show ?thesis
  proof (rule shrink_wf [OF assms(1)])
    show "holders a (set_slot sp h c' y) \<subseteq> holders a y" for a
      using holders_set_slot [OF _ _ s, of a] S assms(3,4)
      by (auto simp: holders_def split: if_splits)
    show "slots_ok (set_slot sp h c' y)"
      using assms(1) S s by (auto simp: cap_wf_def slots_ok_def)
  qed simp
qed

text \<open>A slot that expires or is closed gives its reference back.\<close>

lemma retire_slot_wf:
  assumes "cap_wf y" "slot_of sp h y = Some (cs, c)" "cp_valid c" "cp_obj c = Some obj" "\<not> cp_valid c'"
  shows "cap_wf (cap_object_put obj (lose_used sp (set_slot sp h c' y)))"
    "cap_wf (cap_object_put obj (set_slot sp h c' y))"
proof -
  note S = slot_of_SomeD [OF assms(2)]
  show "cap_wf (cap_object_put obj (lose_used sp (set_slot sp h c' y)))"
    by (rule drop_slot_wf [OF assms(1), of sp cs "nat h" _ c' _ "sp_used cs - 1"])
      (use S assms in \<open>auto simp: set_slot_def lose_used_def\<close>)
  show "cap_wf (cap_object_put obj (set_slot sp h c' y))"
    by (rule drop_slot_wf [OF assms(1), of sp cs "nat h" _ c' _ "sp_used cs"])
      (use S assms in \<open>auto simp: set_slot_def\<close>)
qed

lemma lookup_cases:
  obtains (same) "y_spaces (snd (cap_lookup now sp h type need y)) = y_spaces y"
      "y_objs (snd (cap_lookup now sp h type need y)) = y_objs y"
  | (expired) cs c obj k where "slot_of sp h y = Some (cs, c)" "cp_valid c" "cp_obj c = Some obj"
      "fst (cap_lookup now sp h type need y) = Inl EEXPIRED"
      "y_spaces (snd (cap_lookup now sp h type need y)) =
         y_spaces (cap_object_put obj (lose_used sp (set_slot sp h (c\<lparr>cp_valid := False, cp_obj := None\<rparr>) (y\<lparr>y_kaalka := k\<rparr>))))"
      "y_objs (snd (cap_lookup now sp h type need y)) =
         y_objs (cap_object_put obj (lose_used sp (set_slot sp h (c\<lparr>cp_valid := False, cp_obj := None\<rparr>) (y\<lparr>y_kaalka := k\<rparr>))))"
  | (used) cs c c' k where "slot_of sp h y = Some (cs, c)" "cp_valid c" "cp_obj c' = cp_obj c"
      "y_spaces (snd (cap_lookup now sp h type need y)) = y_spaces (set_slot sp h c' (y\<lparr>y_kaalka := k\<rparr>))"
      "y_objs (snd (cap_lookup now sp h type need y)) = y_objs y"
proof (cases "slot_of sp h y")
  case None
  then show thesis by (intro same) (simp_all add: cap_lookup_def)
next
  case (Some csc)
  obtain cs c where s: "slot_of sp h y = Some (cs, c)" using Some by (cases csc) auto
  show thesis
  proof (cases "cp_valid c \<and> cp_obj c \<noteq> None \<and> y_objs y (the (cp_obj c)) \<noteq> None")
    case False
    then show thesis
      by (intro same) (auto simp: cap_lookup_def s split: bool.split option.split)
  next
    case True
    then obtain obj ob where o: "cp_valid c" "cp_obj c = Some obj" "y_objs y obj = Some ob" by auto
    obtain r k where v: "verify_capability now ob c (y_kaalka y) = (r, k)" by fastforce
    show thesis
    proof (cases "(type \<noteq> CAP_NULL \<and> ob_type ob \<noteq> type) \<or> cp_rights c AND need \<noteq> need \<or>
        cp_generation c \<noteq> ob_generation ob \<or> (\<exists>e. r = Inl e \<and> e \<noteq> EEXPIRED) \<or>
        (r = Inr () \<and> cp_uses_left c = 0)")
      case True
      then show thesis
        by (intro same) (auto simp: cap_lookup_def s o v deny_def Let_def split: rk_err.split)
    next
      case False
      then consider "r = Inl EEXPIRED" | "r = Inr ()" "cp_uses_left c \<noteq> 0" by (cases r) auto
      then show thesis
      proof cases
        case 1
        then show thesis using False
          by (intro expired [OF s o(1,2), of k]) (auto simp: cap_lookup_def s o v Let_def)
      next
        case 2
        then show thesis using False
          by (intro used [OF s o(1), of "c\<lparr>cp_uses_left := cp_uses_left c - 1,
               cp_valid := (if cp_uses_left c - 1 = 0 then False else cp_valid c)\<rparr>" k])
            (auto simp: cap_lookup_def s o v Let_def)
      qed
    qed
  qed
qed

lemma lookup_wf:
  assumes "cap_wf y"
  shows "cap_wf (snd (cap_lookup now sp h type need y))"
proof (cases rule: lookup_cases [of now sp h type need y])
  case same
  then show ?thesis using assms cap_wf_cong by blast
next
  case (expired cs c obj k)
  have "cap_wf (y\<lparr>y_kaalka := k\<rparr>)" using assms by (rule cap_wf_cong) simp_all
  moreover have "slot_of sp h (y\<lparr>y_kaalka := k\<rparr>) = Some (cs, c)"
    using expired(1) slot_of_cong [of "y\<lparr>y_kaalka := k\<rparr>" y] by simp
  ultimately have "cap_wf (cap_object_put obj (lose_used sp
      (set_slot sp h (c\<lparr>cp_valid := False, cp_obj := None\<rparr>) (y\<lparr>y_kaalka := k\<rparr>))))"
    using expired(2,3) by (intro retire_slot_wf) simp_all
  then show ?thesis using expired(5,6) cap_wf_cong by blast
next
  case (used cs c c' k)
  have "cap_wf (y\<lparr>y_kaalka := k\<rparr>)" using assms by (rule cap_wf_cong) simp_all
  moreover have "slot_of sp h (y\<lparr>y_kaalka := k\<rparr>) = Some (cs, c)"
    using used(1) slot_of_cong [of "y\<lparr>y_kaalka := k\<rparr>" y] by simp
  ultimately have "cap_wf (set_slot sp h c' (y\<lparr>y_kaalka := k\<rparr>))"
    using used(2,3) by (intro use_slot_wf)
  then show ?thesis by (rule cap_wf_cong) (use used(4,5) in simp_all)
qed

lemma derive_wf:
  assumes "cap_wf y" "\<And>a. refs a y + 1 < 2 ^ 32"
  shows "cap_wf (snd (cap_derive now grow sp parent nr nb life y))"
proof -
  have i: "cap_wf (snd (cap_install now grow sp obj r nb l y))" for obj r l
    by (rule install_wf [OF assms])
  have b: "cap_wf (bump_stats f z)" if "cap_wf z" for f z
    using that by (rule cap_wf_cong) simp_all
  have "cap_wf (case cap_install now grow sp obj r nb l y of
      (h, z) \<Rightarrow> if h \<noteq> -1 then bump_stats f z else z)" for obj r l f
    using i [of obj r l] b [OF i [of obj r l]] by (simp add: case_prod_unfold)
  then show ?thesis
    using assms(1) i b
    by (auto simp: cap_derive_def Let_def case_prod_unfold split: option.split bool.split)
qed

lemma grant_wf:
  assumes "cap_wf y" "\<And>a. refs a (snd (cap_lookup now from_sp h CAP_NULL CAP_RIGHT_GRANT y)) + 1 < 2 ^ 32"
  shows "cap_wf (snd (cap_grant now grow from_sp h to_sp rmask y))"
proof -
  obtain r z where l: "cap_lookup now from_sp h CAP_NULL CAP_RIGHT_GRANT y = (r, z)" by fastforce
  have z: "cap_wf z" using lookup_wf [OF assms(1), of now from_sp h CAP_NULL CAP_RIGHT_GRANT] l by simp
  have i: "cap_wf (snd (cap_install now grow to_sp obj rt bd lf z))" for obj rt bd lf
    using install_wf [OF z] assms(2) l by simp
  have b: "cap_wf (bump_stats f w)" if "cap_wf w" for f w
    using that by (rule cap_wf_cong) simp_all
  show ?thesis
    using z i b by (auto simp: cap_grant_def l Let_def case_prod_unfold split: option.split sum.split)
qed

lemma close_wf:
  assumes "cap_wf y"
  shows "cap_wf (snd (cap_close sp h y))"
proof (cases "slot_of sp h y")
  case None
  then show ?thesis using assms by (simp add: cap_close_def)
next
  case (Some csc)
  obtain cs c where s: "slot_of sp h y = Some (cs, c)" using Some by (cases csc) auto
  note S = slot_of_SomeD [OF s]
  have b: "cap_wf (bump_stats f w)" if "cap_wf w" for f w
    using that by (rule cap_wf_cong) simp_all
  have n: "\<not> cp_valid blank_cap" by (simp add: blank_cap_def)
  show ?thesis
  proof (cases "cp_valid c")
    case False
    then show ?thesis using s assms by (simp add: cap_close_def)
  next
    case True
    show ?thesis
    proof (cases "cp_obj c")
      case (Some obj)
      then show ?thesis
        using s True retire_slot_wf [OF assms s True Some n] b by (simp add: cap_close_def Let_def)
    next
      case None
      have w: "cap_wf (set_slot sp h blank_cap y)" "cap_wf (lose_used sp (set_slot sp h blank_cap y))"
        by (rule shrink_wf [OF assms];
            use S assms n in \<open>auto simp: set_slot_def lose_used_def holders_def cap_wf_def slots_ok_def
              nth_list_update split: if_splits\<close>)+
      then show ?thesis using s True None b by (simp add: cap_close_def Let_def)
    qed
  qed
qed

lemma revoke_recursive_wf:
  assumes "cap_wf y"
  shows "cap_wf (snd (cap_revoke_recursive obj y))"
proof (cases "y_objs y obj")
  case (Some ob)
  note R = revoke_facts [OF Some]
  have "refs a (snd (cap_revoke_recursive obj y)) = refs a y" for a
    using Some by (simp add: refs_def R(2))
  then show ?thesis
    using assms R(3) by (simp add: cap_wf_def slots_ok_def holders_def)
qed (simp add: cap_revoke_recursive_def assms)

lemma revoke_wf: "cap_wf y \<Longrightarrow> cap_wf (snd (cap_revoke sp h y))"
  using revoke_recursive_wf by (auto simp: cap_revoke_def split: option.split bool.split)

lemma create_object_wf:
  assumes "cap_wf y" "y_objs y a = None"
  shows "cap_wf (snd (cap_object_create (Some a) ty ptr label rel y))"
proof -
  have "finite (holders a y)" "card (holders a y) \<le> 0"
    using assms(1) assms(2) by (auto simp: cap_wf_def refs_def dest!: spec [of _ a])
  then have "holders a y = {}" by (simp only: le_zero_eq card_eq_0_iff) simp
  then have "card (holders b y) \<le> refs b (snd (cap_object_create (Some a) ty ptr label rel y))" for b
    using assms by (auto simp: cap_object_create_def Let_def refs_def cap_wf_def)
  then show ?thesis
    using assms by (simp add: cap_wf_def slots_ok_def cap_object_create_def Let_def holders_def)
qed

lemma create_space_wf:
  assumes "cap_wf y" "y_spaces y a = None"
  shows "cap_wf (snd (capspace_create (Some a) ok y))"
proof (cases ok)
  case True
  have "holders b (snd (capspace_create (Some a) ok y)) = holders b y" for b
    using assms(2) True
    by (auto simp: holders_def capspace_create_def Let_def blank_cap_def split: if_splits)
  then show ?thesis
    using assms True by (auto simp: cap_wf_def slots_ok_def capspace_create_def Let_def refs_def)
qed (simp add: capspace_create_def assms)

section \<open>Destroying a space\<close>

definition names_obj :: "nat \<Rightarrow> capability \<Rightarrow> bool" where
  "names_obj a c \<longleftrightarrow> cp_valid c \<and> cp_obj c = Some a"

lemma put_slot_spaces [simp]: "y_spaces (put_slot c y) = y_spaces y"
  by (simp add: put_slot_def split: option.split)

lemma fold_put_spaces [simp]: "y_spaces (fold put_slot cs y) = y_spaces y"
  by (induction cs arbitrary: y) simp_all

lemma fold_put_refs:
  "(\<And>a. length (filter (names_obj a) cs) \<le> refs a y) \<Longrightarrow>
     refs a (fold put_slot cs y) = refs a y - length (filter (names_obj a) cs)"
proof (induction cs arbitrary: y)
  case (Cons c cs)
  show ?case
  proof (cases "\<exists>b. names_obj b c")
    case True
    then obtain b where b: "cp_valid c" "cp_obj c = Some b" by (auto simp: names_obj_def)
    have n: "names_obj a c \<longleftrightarrow> a = b" for a using b by (auto simp: names_obj_def)
    have "0 < refs b y" using Cons.prems [of b] n by simp
    then have r: "refs a (put_slot c y) = (if a = b then refs b y - 1 else refs a y)" for a
      using b by (simp add: put_slot_def refs_put)
    have "length (filter (names_obj a) cs) \<le> refs a (put_slot c y)" for a
      using Cons.prems [of a] n r by (auto split: if_splits)
    from Cons.IH [OF this] show ?thesis using n r by simp
  next
    case False
    then have "put_slot c y = y" by (auto simp: put_slot_def names_obj_def split: option.split)
    moreover have "length (filter (names_obj a) cs) \<le> refs a y" for a
      using Cons.prems [of a] False by simp
    ultimately show ?thesis using Cons.IH [of y] False by simp
  qed
qed simp

lemma space_holders:
  assumes "y_spaces y sp = Some cs"
  shows "card (holders a y \<inter> {sp} \<times> UNIV) = length (filter (names_obj a) (sp_slots cs))"
proof -
  have "holders a y \<inter> {sp} \<times> UNIV = Pair sp ` {i. i < length (sp_slots cs) \<and> names_obj a (sp_slots cs ! i)}"
    using assms by (auto simp: holders_def names_obj_def)
  then show ?thesis
    by (simp add: card_image inj_on_def length_filter_conv_card)
qed

lemma destroy_wf:
  assumes "cap_wf y"
  shows "cap_wf (capspace_destroy sp y)"
proof (cases "y_spaces y sp")
  case None
  then show ?thesis using assms by (simp add: capspace_destroy_def)
next
  case (Some cs)
  define cs1 where "cs1 = cs\<lparr>sp_refcount := sp_refcount cs - 1\<rparr>"
  define y1 where "y1 = y\<lparr>y_spaces := (y_spaces y)(sp \<mapsto> cs1)\<rparr>"
  have h1: "holders a y1 = holders a y" for a
    using Some by (auto simp: holders_def y1_def cs1_def split: if_splits)
  have w1: "cap_wf y1"
    using assms Some h1 refs_cong [of y1 y]
    by (auto simp: cap_wf_def slots_ok_def y1_def [abs_def] cs1_def split: if_splits)
  show ?thesis
  proof (cases "sp_refcount cs1 > 0")
    case True
    then show ?thesis using Some w1 by (simp add: capspace_destroy_def Let_def flip: cs1_def y1_def)
  next
    case False
    define y2 where "y2 = fold put_slot (sp_slots cs1) y1"
    define y3 where "y3 = y2\<lparr>y_spaces := (y_spaces y2)(sp := None)\<rparr>"
    have d: "capspace_destroy sp y = y3"
      using Some False by (simp add: capspace_destroy_def Let_def y2_def y3_def flip: cs1_def y1_def)
    have s1: "y_spaces y1 sp = Some cs1" by (simp add: y1_def)
    have fin: "finite (holders a y1)" and le: "card (holders a y1) \<le> refs a y1" for a
      using w1 by (simp_all add: cap_wf_def)
    note C = space_holders [OF s1]
    have c: "length (filter (names_obj a) (sp_slots cs1)) \<le> refs a y1" for a
      using card_mono [OF fin, of "holders a y1 \<inter> {sp} \<times> UNIV" a] C [of a] le [of a] by simp
    have r: "refs a y3 = refs a y1 - length (filter (names_obj a) (sp_slots cs1))" for a
      using fold_put_refs [OF c, of a] by (simp add: y3_def y2_def refs_def)
    have h: "holders a y3 = holders a y1 - (holders a y1 \<inter> {sp} \<times> UNIV)" for a
      by (auto simp: holders_def y3_def y2_def split: if_splits)
    have "card (holders a y3) = card (holders a y1) - length (filter (names_obj a) (sp_slots cs1))" for a
      using card_Diff_subset [of "holders a y1 \<inter> {sp} \<times> UNIV" "holders a y1"] fin [of a] C [of a] h [of a]
      by simp
    then have "card (holders a y3) \<le> refs a y3" for a
      using diff_le_mono [OF le [of a]] by (simp only: r [of a])
    moreover have "finite (holders a y3)" for a using h [of a] fin [of a] by simp
    moreover have "slots_ok y3"
      using w1 by (auto simp: cap_wf_def slots_ok_def y3_def y2_def split: if_splits)
    ultimately show ?thesis by (simp add: d cap_wf_def)
  qed
qed

section \<open>The transition system\<close>

text \<open>
  One step is one operation of the component, or a client taking or dropping a reference of its
  own. The allocator hands out addresses that are not in use; no reference count is driven to its
  limit; a client only drops a reference it holds, that is, one beyond those of the slots.
\<close>

inductive cap_step :: "cap_sys \<Rightarrow> cap_sys \<Rightarrow> bool" where
  create_object: "y_objs y a = None \<Longrightarrow>
    cap_step y (snd (cap_object_create (Some a) ty ptr label rel y))"
| create_space: "y_spaces y a = None \<Longrightarrow> cap_step y (snd (capspace_create (Some a) ok y))"
| install: "refs obj y + 1 < 2 ^ 32 \<Longrightarrow>
    cap_step y (snd (cap_install now grow sp obj rights badge life y))"
| lookup: "cap_step y (snd (cap_lookup now sp h ty need y))"
| derive: "(\<And>a. refs a y + 1 < 2 ^ 32) \<Longrightarrow>
    cap_step y (snd (cap_derive now grow sp h rights badge life y))"
| grant: "(\<And>a. refs a (snd (cap_lookup now from_sp h CAP_NULL CAP_RIGHT_GRANT y)) + 1 < 2 ^ 32) \<Longrightarrow>
    cap_step y (snd (cap_grant now grow from_sp h to_sp rmask y))"
| close: "cap_step y (snd (cap_close sp h y))"
| revoke: "cap_step y (snd (cap_revoke sp h y))"
| revoke_object: "cap_step y (snd (cap_revoke_recursive obj y))"
| destroy: "cap_step y (capspace_destroy sp y)"
| client_get: "refs a y + 1 < 2 ^ 32 \<Longrightarrow> cap_step y (cap_object_get a y)"
| client_put: "card (holders a y) < refs a y \<Longrightarrow> cap_step y (cap_object_put a y)"

inductive cap_reach :: "cap_sys \<Rightarrow> bool" where
  start: "cap_reach empty_sys"
| step: "cap_reach y \<Longrightarrow> cap_step y y' \<Longrightarrow> cap_reach y'"

lemma empty_wf: "cap_wf empty_sys"
  by (simp add: cap_wf_def slots_ok_def holders_def empty_sys_def)

lemma client_get_wf: "cap_wf y \<Longrightarrow> refs a y + 1 < 2 ^ 32 \<Longrightarrow> cap_wf (cap_object_get a y)"
proof (cases "y_objs y a")
  case (Some ob)
  assume w: "cap_wf y" and r: "refs a y + 1 < 2 ^ 32"
  have "holders b (cap_object_get a y) = holders b y" for b by (rule holders_cong) simp
  then show ?thesis
    using w refs_get [OF Some r] by (auto simp: cap_wf_def slots_ok_def le_SucI)
qed (simp add: cap_object_get_def)

lemma client_put_wf: "cap_wf y \<Longrightarrow> card (holders a y) < refs a y \<Longrightarrow> cap_wf (cap_object_put a y)"
proof -
  assume w: "cap_wf y" and r: "card (holders a y) < refs a y"
  have "holders b (cap_object_put a y) = holders b y" for b by (rule holders_cong) simp
  moreover have "refs b (cap_object_put a y) = (if b = a then refs a y - 1 else refs b y)" for b
    using r by (intro refs_put) simp
  ultimately show ?thesis using w r by (auto simp: cap_wf_def slots_ok_def)
qed

lemma cap_step_wf: "cap_step y y' \<Longrightarrow> cap_wf y \<Longrightarrow> cap_wf y'"
  by (induction rule: cap_step.induct)
    (simp_all add: create_object_wf create_space_wf install_wf lookup_wf derive_wf grant_wf close_wf
      revoke_wf revoke_recursive_wf destroy_wf client_get_wf client_put_wf)

lemma cap_reach_wf: "cap_reach y \<Longrightarrow> cap_wf y"
  by (induction rule: cap_reach.induct) (auto intro: empty_wf cap_step_wf)



end
