(* ===== verification/RK_Pmm.thy ===== *)
theory RK_Pmm
  imports RK_Prelude
begin

text \<open>
  \<open>kernel/mm/pmm.c\<close>: the buddy allocator over physical page frames. A frame is its index in
  the page array; \<open>free_list[o]\<close> is the list of the heads of the free blocks of order \<open>o\<close>, in
  list order. Addresses are naturals: the firmware's regions are assumed to end below
  \<open>2 ^ 64\<close>. The contents of the frames (zeroed by \<open>pmm_alloc_pages\<close>) are not part of the state.
\<close>

section \<open>State\<close>

abbreviation RK_PMM_MAX_ORDER :: nat where
  "RK_PMM_MAX_ORDER \<equiv> 18"

definition RK_PG_FREE :: u32 where "RK_PG_FREE = 1"
definition RK_PG_HEAD :: u32 where "RK_PG_HEAD = 2"
definition RK_PG_RESERVED :: u32 where "RK_PG_RESERVED = 8"
definition RK_PG_DMA :: u32 where "RK_PG_DMA = 16"
definition DMA_LIMIT :: nat where "DMA_LIMIT = 16 * 2 ^ 20"

record page =
  pg_flags :: u32
  pg_order :: u16
  pg_refcount :: u16
  pg_owner :: u64

record pmm_stats =
  ps_total :: u64
  ps_free :: u64
  ps_reserved :: u64
  ps_used :: u64
  ps_allocs :: u64
  ps_frees :: u64
  ps_fails :: u64

record pmm =
  pm_pages :: "page list"
  pm_base :: nat
  pm_free :: "nat list list"
  pm_stats :: pmm_stats

definition page_count :: "pmm \<Rightarrow> nat" where
  "page_count s = length (pm_pages s)"

definition pfn_of :: "pmm \<Rightarrow> nat \<Rightarrow> nat" where
  "pfn_of s pa = (if pm_base s \<le> pa then (pa - pm_base s) div 4096 else 2 ^ 64 - 1)"

definition pmm_page_of :: "pmm \<Rightarrow> nat \<Rightarrow> nat option" where
  "pmm_page_of s pa = (let pfn = pfn_of s pa in if pfn < page_count s then Some pfn else None)"

definition pmm_page_addr :: "pmm \<Rightarrow> nat \<Rightarrow> nat" where
  "pmm_page_addr s pfn = pm_base s + pfn * 4096"

definition set_page :: "nat \<Rightarrow> (page \<Rightarrow> page) \<Rightarrow> pmm \<Rightarrow> pmm" where
  "set_page pfn f s = s\<lparr>pm_pages := (pm_pages s)[pfn := f (pm_pages s ! pfn)]\<rparr>"

definition add_stats :: "(pmm_stats \<Rightarrow> pmm_stats) \<Rightarrow> pmm \<Rightarrow> pmm" where
  "add_stats f s = s\<lparr>pm_stats := f (pm_stats s)\<rparr>"

definition freelist_add :: "nat \<Rightarrow> nat \<Rightarrow> pmm \<Rightarrow> pmm" where
  "freelist_add pfn order s =
     (let s = set_page pfn (\<lambda>p. p\<lparr>pg_order := of_nat order, pg_flags := RK_PG_FREE OR RK_PG_HEAD\<rparr>) s
      in s\<lparr>pm_free := (pm_free s)[order := pfn # pm_free s ! order]\<rparr>)"

definition freelist_del :: "nat \<Rightarrow> nat \<Rightarrow> pmm \<Rightarrow> pmm" where
  "freelist_del pfn order s =
     (let s = s\<lparr>pm_free := (pm_free s)[order := remove1 pfn (pm_free s ! order)]\<rparr>
      in set_page pfn (\<lambda>p. p\<lparr>pg_flags := pg_flags p AND NOT (RK_PG_FREE OR RK_PG_HEAD)\<rparr>) s)"

section \<open>Publishing free runs\<close>

text \<open>The inner loop: the largest order at which the block is aligned and inside the run.\<close>

function run_order_from :: "nat \<Rightarrow> nat \<Rightarrow> nat \<Rightarrow> nat" where
  "run_order_from pfn stop order =
     (if order < RK_PMM_MAX_ORDER \<and> pfn mod 2 ^ (order + 1) = 0 \<and> pfn + 2 ^ (order + 1) \<le> stop
      then run_order_from pfn stop (order + 1) else order)"
  by pat_completeness auto
termination
  by (relation "measure (\<lambda>(pfn, stop, order). RK_PMM_MAX_ORDER - order)") auto

declare run_order_from.simps [simp del]

definition publish_block :: "nat \<Rightarrow> nat \<Rightarrow> pmm \<Rightarrow> pmm" where
  "publish_block pfn order s =
     add_stats (\<lambda>t. t\<lparr>ps_free := ps_free t + 2 ^ order\<rparr>) (freelist_add pfn order s)"

function publish_run :: "nat \<Rightarrow> nat \<Rightarrow> pmm \<Rightarrow> pmm" where
  "publish_run pfn stop s =
     (if pfn < stop
      then publish_run (pfn + 2 ^ run_order_from pfn stop 0) stop
             (publish_block pfn (run_order_from pfn stop 0) s)
      else s)"
  by pat_completeness auto
termination
  by (relation "measure (\<lambda>(pfn, stop, s). stop - pfn)") (auto intro: diff_less_mono2)

declare publish_run.simps [simp del]

section \<open>Allocation\<close>

text \<open>The block taken at order \<open>o\<close>: the head of the list, or the first one below the limit.\<close>

definition pick_block :: "pmm \<Rightarrow> nat \<Rightarrow> u32 \<Rightarrow> nat option" where
  "pick_block s ord flags =
     (if flags AND RK_PG_DMA \<noteq> 0
      then find (\<lambda>p. pmm_page_addr s p + 4096 * 2 ^ ord \<le> DMA_LIMIT) (pm_free s ! ord)
      else case pm_free s ! ord of [] \<Rightarrow> None | p # ps \<Rightarrow> Some p)"

text \<open>\<open>for (k = o; k > order; k--)\<close>\<close>

fun split_down :: "nat \<Rightarrow> nat \<Rightarrow> nat \<Rightarrow> pmm \<Rightarrow> pmm" where
  "split_down pfn 0 order s = s"
| "split_down pfn (Suc k) order s =
     (if order < Suc k then split_down pfn k order (freelist_add (pfn + 2 ^ k) k s) else s)"

text \<open>Taking the block \<open>p\<close> of order \<open>ord\<close> and splitting it down to \<open>order\<close>.\<close>

definition take_block :: "nat \<Rightarrow> nat \<Rightarrow> nat \<Rightarrow> pmm \<Rightarrow> pmm" where
  "take_block p ord order s =
     (let s = freelist_del p ord s;
          s = split_down p ord order s;
          s = set_page p (\<lambda>pg. pg\<lparr>pg_order := of_nat order, pg_refcount := 1, pg_flags := 0\<rparr>) s
      in add_stats (\<lambda>t. t\<lparr>ps_free := ps_free t - 2 ^ order,
           ps_used := ps_used t + 2 ^ order, ps_allocs := ps_allocs t + 1\<rparr>) s)"

function alloc_from :: "nat \<Rightarrow> nat \<Rightarrow> u32 \<Rightarrow> pmm \<Rightarrow> nat option \<times> pmm" where
  "alloc_from ord order flags s =
     (if RK_PMM_MAX_ORDER < ord
      then (None, add_stats (\<lambda>t. t\<lparr>ps_fails := ps_fails t + 1\<rparr>) s)
      else case pick_block s ord flags of
        None \<Rightarrow> alloc_from (ord + 1) order flags s
      | Some p \<Rightarrow> (Some p, take_block p ord order s))"
  by pat_completeness auto
termination
  by (relation "measure (\<lambda>(ord, order, flags, s). RK_PMM_MAX_ORDER + 1 - ord)") auto

declare alloc_from.simps [simp del]

definition buddy_alloc :: "nat \<Rightarrow> u32 \<Rightarrow> pmm \<Rightarrow> nat option \<times> pmm" where
  "buddy_alloc order flags s = alloc_from order order flags s"

text \<open>An address, 0 for failure.\<close>

definition pmm_alloc_pages :: "nat \<Rightarrow> u32 \<Rightarrow> pmm \<Rightarrow> nat \<times> pmm" where
  "pmm_alloc_pages order flags s =
     (if RK_PMM_MAX_ORDER < order then (0, s)
      else case buddy_alloc order flags s of
        (None, s) \<Rightarrow> (0, s)
      | (Some p, s) \<Rightarrow> (pmm_page_addr s p, s))"

definition pmm_alloc_page :: "pmm \<Rightarrow> nat \<times> pmm" where
  "pmm_alloc_page s = pmm_alloc_pages 0 0 s"

section \<open>Freeing\<close>

definition free_head :: "pmm \<Rightarrow> nat \<Rightarrow> nat \<Rightarrow> bool" where
  "free_head s pfn order \<longleftrightarrow>
     pg_flags (pm_pages s ! pfn) AND RK_PG_FREE \<noteq> 0 \<and>
     pg_flags (pm_pages s ! pfn) AND RK_PG_HEAD \<noteq> 0 \<and>
     unat (pg_order (pm_pages s ! pfn)) = order"

function buddy_free :: "nat \<Rightarrow> nat \<Rightarrow> pmm \<Rightarrow> pmm" where
  "buddy_free pfn order s =
     (if order < RK_PMM_MAX_ORDER \<and> pfn XOR 2 ^ order < page_count s
           \<and> free_head s (pfn XOR 2 ^ order) order
      then buddy_free (min pfn (pfn XOR 2 ^ order)) (order + 1)
             (freelist_del (pfn XOR 2 ^ order) order s)
      else freelist_add pfn order s)"
  by pat_completeness auto
termination
  by (relation "measure (\<lambda>(pfn, order, s). RK_PMM_MAX_ORDER - order)") auto

declare buddy_free.simps [simp del]

definition pmm_free_pages :: "nat \<Rightarrow> nat \<Rightarrow> pmm \<Rightarrow> pmm" where
  "pmm_free_pages pa order s =
     (let pfn = pfn_of s pa in
      if page_count s \<le> pfn \<or> RK_PMM_MAX_ORDER < order then s
      else if pg_flags (pm_pages s ! pfn) AND RK_PG_FREE \<noteq> 0 then s
      else if pg_flags (pm_pages s ! pfn) AND RK_PG_RESERVED \<noteq> 0 then s
      else
        let s = set_page pfn (\<lambda>p. p\<lparr>pg_refcount := 0, pg_owner := 0\<rparr>) s;
            s = buddy_free pfn order s
        in add_stats (\<lambda>t. t\<lparr>ps_free := ps_free t + 2 ^ order, ps_used := ps_used t - 2 ^ order,
                            ps_frees := ps_frees t + 1\<rparr>) s)"

definition pmm_free_page :: "nat \<Rightarrow> pmm \<Rightarrow> pmm" where
  "pmm_free_page pa s = pmm_free_pages pa 0 s"

definition pmm_page_get :: "nat \<Rightarrow> pmm \<Rightarrow> pmm" where
  "pmm_page_get pa s =
     (case pmm_page_of s pa of None \<Rightarrow> s
      | Some pfn \<Rightarrow> set_page pfn (\<lambda>p. p\<lparr>pg_refcount := pg_refcount p + 1\<rparr>) s)"

definition pmm_page_put :: "nat \<Rightarrow> pmm \<Rightarrow> bool \<times> pmm" where
  "pmm_page_put pa s =
     (case pmm_page_of s pa of None \<Rightarrow> (False, s)
      | Some pfn \<Rightarrow>
          if pg_refcount (pm_pages s ! pfn) \<le> 1 then (True, pmm_free_page pa s)
          else (False, set_page pfn (\<lambda>p. p\<lparr>pg_refcount := pg_refcount p - 1\<rparr>) s))"

text \<open>The largest order with a free block, 0 when there is none.\<close>

definition largest_free_order :: "pmm \<Rightarrow> nat" where
  "largest_free_order s =
     (case find (\<lambda>ord. pm_free s ! ord \<noteq> []) (rev [0..<RK_PMM_MAX_ORDER + 1]) of
        None \<Rightarrow> 0 | Some ord \<Rightarrow> ord)"

section \<open>Start-up\<close>

record mem_region =
  mr_base :: nat
  mr_len :: nat
  mr_usable :: bool

record boot_map =
  bm_regions :: "mem_region list"
  bm_kernel_start :: nat
  bm_kernel_end :: nat
  bm_initrd_start :: nat
  bm_initrd_end :: nat
  bm_modules :: "(nat \<times> nat) list"

definition reserve_page :: "nat \<Rightarrow> pmm \<Rightarrow> pmm" where
  "reserve_page pfn s =
     set_page pfn (\<lambda>p. p\<lparr>pg_flags := pg_flags p OR RK_PG_RESERVED, pg_refcount := 1\<rparr>) s"

definition pmm_reserve :: "nat \<Rightarrow> nat \<Rightarrow> pmm \<Rightarrow> pmm" where
  "pmm_reserve base len s =
     (if len = 0 then s
      else
        let start = align_down base 4096; stop = align_up (base + len) 4096 in
        if stop \<le> pm_base s then s
        else
          let start = (if start < pm_base s then pm_base s else start)
          in fold reserve_page [pfn_of s start..<min (pfn_of s stop) (page_count s)] s)"

text \<open>Lowest start and highest end of the usable regions; \<open>None\<close> when there is none.\<close>

definition usable_span :: "mem_region list \<Rightarrow> (nat \<times> nat) option" where
  "usable_span rs =
     (let us = filter (\<lambda>r. mr_usable r \<and> mr_len r \<noteq> 0) rs;
          lowest = fold (\<lambda>r l. min l (mr_base r)) us (2 ^ 64 - 1);
          limit = fold (\<lambda>r l. max l (mr_base r + mr_len r)) us 0
      in if limit = 0 \<or> lowest = 2 ^ 64 - 1 then None else Some (lowest, limit))"

text \<open>Where a region can hold the page array, in the pass that avoids the DMA zone or not.\<close>

definition region_place :: "bool \<Rightarrow> nat \<Rightarrow> nat \<Rightarrow> mem_region \<Rightarrow> nat option" where
  "region_place avoid_dma kernel_top array_bytes r =
     (if \<not> mr_usable r then None
      else
        let base = mr_base r; stop = base + mr_len r;
            base = (if base < kernel_top \<and> kernel_top < stop then kernel_top else base);
            base = (if avoid_dma \<and> base < DMA_LIMIT then DMA_LIMIT else base);
            base = align_up base 4096
        in if base < stop \<and> array_bytes \<le> stop - base then Some base else None)"

fun first_place :: "bool \<Rightarrow> nat \<Rightarrow> nat \<Rightarrow> mem_region list \<Rightarrow> nat" where
  "first_place avoid_dma kernel_top array_bytes [] = 0"
| "first_place avoid_dma kernel_top array_bytes (r # rs) =
     (case region_place avoid_dma kernel_top array_bytes r of
        Some base \<Rightarrow> base | None \<Rightarrow> first_place avoid_dma kernel_top array_bytes rs)"

definition place_array :: "boot_map \<Rightarrow> nat \<Rightarrow> nat" where
  "place_array bi array_bytes =
     (let kernel_top = align_up (bm_kernel_end bi) 4096;
          a = first_place True kernel_top array_bytes (bm_regions bi)
      in if a \<noteq> 0 then a else first_place False kernel_top array_bytes (bm_regions bi))"

text \<open>Frames of usable regions become available; the first frame never does.\<close>

definition clear_page :: "nat \<Rightarrow> pmm \<Rightarrow> pmm" where
  "clear_page pfn s = set_page pfn (\<lambda>p. p\<lparr>pg_flags := 0, pg_refcount := 0\<rparr>) s"

definition open_region :: "mem_region \<Rightarrow> pmm \<Rightarrow> pmm" where
  "open_region r s =
     (if \<not> mr_usable r then s
      else
        let base = mr_base r; stop = base + mr_len r;
            base = (if base < pm_base s + 4096 then pm_base s + 4096 else base)
        in if stop \<le> base then s
           else fold clear_page
             [pfn_of s (align_up base 4096)..<min (pfn_of s (align_down stop 4096)) (page_count s)] s)"

definition reserve_all :: "boot_map \<Rightarrow> nat \<Rightarrow> nat \<Rightarrow> pmm \<Rightarrow> pmm" where
  "reserve_all bi array_phys array_bytes s =
     (let s = pmm_reserve 0 0x100000 s;
          s = pmm_reserve (bm_kernel_start bi) (bm_kernel_end bi - bm_kernel_start bi) s;
          s = pmm_reserve array_phys array_bytes s;
          s = (if bm_initrd_start bi \<noteq> 0 \<and> bm_initrd_start bi < bm_initrd_end bi
               then pmm_reserve (bm_initrd_start bi) (bm_initrd_end bi - bm_initrd_start bi) s else s);
          s = fold (\<lambda>(a, b). pmm_reserve a (b - a)) (bm_modules bi) s
      in fold (\<lambda>r s. if mr_usable r then s else pmm_reserve (mr_base r) (mr_len r) s) (bm_regions bi) s)"

text \<open>The walk over the frames that publishes each run of unreserved ones.\<close>

fun scan_runs :: "nat list \<Rightarrow> nat option \<Rightarrow> pmm \<Rightarrow> pmm" where
  "scan_runs [] run s = s"
| "scan_runs (pfn # pfns) run s =
     (let usable = (pfn < page_count s \<and> pg_flags (pm_pages s ! pfn) AND RK_PG_RESERVED = 0)
      in case run of
           None \<Rightarrow> scan_runs pfns (if usable then Some pfn else None) s
         | Some start \<Rightarrow> if usable then scan_runs pfns run s
                         else scan_runs pfns None (publish_run start pfn s))"

definition pmm_empty :: "nat \<Rightarrow> nat \<Rightarrow> pmm" where
  "pmm_empty base n =
     \<lparr>pm_pages = replicate n \<lparr>pg_flags = RK_PG_RESERVED, pg_order = 0, pg_refcount = 1, pg_owner = 0\<rparr>,
      pm_base = base, pm_free = replicate (RK_PMM_MAX_ORDER + 1) [],
      pm_stats = \<lparr>ps_total = 0, ps_free = 0, ps_reserved = 0, ps_used = 0, ps_allocs = 0,
                  ps_frees = 0, ps_fails = 0\<rparr>\<rparr>"

text \<open>\<open>None\<close> is a panic. A \<open>struct page\<close> has 32 bytes.\<close>

definition pmm_init :: "boot_map \<Rightarrow> pmm option" where
  "pmm_init bi =
     (case usable_span (bm_regions bi) of None \<Rightarrow> None
      | Some (lowest, limit) \<Rightarrow>
          let base = align_down lowest 4096;
              n = (align_up limit 4096 - base) div 4096;
              array_bytes = align_up (n * 32) 4096;
              array_phys = place_array bi array_bytes
          in if array_phys = 0 then None
             else
               let s = fold open_region (bm_regions bi) (pmm_empty base n);
                   s = reserve_all bi array_phys array_bytes s;
                   s = scan_runs [0..<n + 1] None s
               in Some (add_stats (\<lambda>t. t\<lparr>ps_total := of_nat n, ps_reserved := of_nat n - ps_free t\<rparr>) s))"

end
