(* ===== verification/RK_Buddy.thy ===== *)
theory RK_Buddy
  imports RK_Pmm
begin

text \<open>
  The invariant of the buddy allocator of \<open>RK_Pmm\<close>: the free blocks and the blocks the
  clients hold are aligned, inside the page array and pairwise disjoint; every operation keeps
  it; and what it implies for clients.
\<close>

section \<open>Blocks\<close>

definition blocks :: "pmm \<Rightarrow> (nat \<times> nat) set" where
  "blocks s = {(p, ord). ord \<le> RK_PMM_MAX_ORDER \<and> p \<in> set (pm_free s ! ord)}"

definition frames_of :: "nat \<times> nat \<Rightarrow> nat set" where
  "frames_of b = {fst b..<fst b + 2 ^ snd b}"

definition block_ok :: "nat \<Rightarrow> nat \<times> nat \<Rightarrow> bool" where
  "block_ok n b \<longleftrightarrow> snd b \<le> RK_PMM_MAX_ORDER \<and> 2 ^ snd b dvd fst b \<and> fst b + 2 ^ snd b \<le> n"

text \<open>A family of blocks: each well placed, no two overlapping.\<close>

definition apart :: "nat \<times> nat \<Rightarrow> nat \<times> nat \<Rightarrow> bool" where
  "apart b c \<longleftrightarrow> disjnt (frames_of b) (frames_of c)"

definition family :: "nat \<Rightarrow> (nat \<times> nat) set \<Rightarrow> bool" where
  "family n B \<longleftrightarrow> Ball B (block_ok n) \<and> pairwise apart B"

definition free_total :: "pmm \<Rightarrow> nat" where
  "free_total s = (\<Sum>ord \<le> RK_PMM_MAX_ORDER. length (pm_free s ! ord) * 2 ^ ord)"

definition lists_ok :: "pmm \<Rightarrow> bool" where
  "lists_ok s \<longleftrightarrow> length (pm_free s) = RK_PMM_MAX_ORDER + 1 \<and>
     (\<forall>ord \<le> RK_PMM_MAX_ORDER. distinct (pm_free s ! ord)) \<and>
     (\<forall>p < page_count s. \<forall>ord. free_head s p ord \<longleftrightarrow> (p, ord) \<in> blocks s)"

text \<open>\<open>H\<close> is the set of blocks held outside the free lists.\<close>

definition pmm_wf :: "pmm \<Rightarrow> (nat \<times> nat) set \<Rightarrow> bool" where
  "pmm_wf s H \<longleftrightarrow> lists_ok s \<and> family (page_count s) (blocks s \<union> H) \<and> blocks s \<inter> H = {}"

definition free_counted :: "pmm \<Rightarrow> bool" where
  "free_counted s \<longleftrightarrow> ps_free (pm_stats s) = of_nat (free_total s)"

lemma frames_nonempty: "fst b \<in> frames_of b"
  by (simp add: frames_of_def)

lemma apart_sym: "apart b c = apart c b"
  unfolding apart_def by (rule iffI) (erule disjnt_sym)+

lemma not_apart_self: "\<not> apart (p, i) (p, j)"
  using frames_nonempty [of "(p, i)"] frames_nonempty [of "(p, j)"]
  by (auto simp: apart_def disjnt_iff)

lemma family_subset: "family n B \<Longrightarrow> C \<subseteq> B \<Longrightarrow> family n C"
  unfolding family_def by (meson pairwise_subset subsetD)

lemma family_same_head: "family n B \<Longrightarrow> (p, i) \<in> B \<Longrightarrow> (p, j) \<in> B \<Longrightarrow> i = j"
  unfolding family_def pairwise_def using not_apart_self [of p i j] by blast

lemma family_insert:
  "family n (insert b B) \<longleftrightarrow> block_ok n b \<and> family n B \<and> (\<forall>c \<in> B. c \<noteq> b \<longrightarrow> apart b c)"
  unfolding family_def pairwise_insert using apart_sym by blast

text \<open>Replacing a block by its two halves, and back.\<close>

lemma block_ok_halves:
  "block_ok n (p, Suc k) \<longleftrightarrow> 2 ^ Suc k dvd p \<and> block_ok n (p, k) \<and> block_ok n (p + 2 ^ k, k) \<and> Suc k \<le> RK_PMM_MAX_ORDER"
proof -
  have "(2::nat) ^ k dvd 2 ^ Suc k" by simp
  then have "2 ^ Suc k dvd p \<Longrightarrow> 2 ^ k dvd p" by (rule dvd_trans)
  then show ?thesis by (auto simp: block_ok_def)
qed

lemma apart_halves: "apart (p, Suc k) c \<longleftrightarrow> apart (p, k) c \<and> apart (p + 2 ^ k, k) c"
proof -
  have "frames_of (p, Suc k) = frames_of (p, k) \<union> frames_of (p + 2 ^ k, k)"
    by (auto simp: frames_of_def)
  then show ?thesis by (simp add: apart_def)
qed

lemma halves_apart: "apart (p, k) (p + 2 ^ k, k)"
  by (auto simp: apart_def frames_of_def disjnt_iff)

lemma family_split:
  assumes "family n (insert (p, Suc k) B)" "(p, Suc k) \<notin> B"
  shows "family n (insert (p, k) (insert (p + 2 ^ k, k) B))" "(p, k) \<notin> B" "(p + 2 ^ k, k) \<notin> B"
proof -
  have d: "apart (p, k) c" "apart (p + 2 ^ k, k) c" if "c \<in> B" for c
    using assms that apart_halves [of p k c] unfolding family_insert by metis+
  show "(p, k) \<notin> B" "(p + 2 ^ k, k) \<notin> B" using d not_apart_self by blast+
  show "family n (insert (p, k) (insert (p + 2 ^ k, k) B))"
    using assms(1) d halves_apart block_ok_halves unfolding family_insert by blast
qed

lemma family_merge:
  assumes "family n (insert (p, k) (insert (p + 2 ^ k, k) B))" "2 ^ Suc k dvd p" "Suc k \<le> RK_PMM_MAX_ORDER"
    and "(p, k) \<notin> B" "(p + 2 ^ k, k) \<notin> B"
  shows "family n (insert (p, Suc k) B)"
proof -
  have "apart (p, k) c \<and> apart (p + 2 ^ k, k) c" if "c \<in> B" for c
  proof -
    have "c \<noteq> (p, k)" "c \<noteq> (p + 2 ^ k, k)" using assms(4,5) that by auto
    then show ?thesis using assms(1) that unfolding family_insert by simp
  qed
  then show ?thesis
    using assms(1-3) apart_halves block_ok_halves unfolding family_insert by blast
qed

text \<open>The buddy's frame number.\<close>

lemma xor_power:
  fixes p :: nat
  assumes "2 ^ k dvd p"
  shows "p XOR 2 ^ k = (if 2 ^ Suc k dvd p then p + 2 ^ k else p - 2 ^ k)"
    and "\<not> 2 ^ Suc k dvd p \<Longrightarrow> 2 ^ k \<le> p \<and> 2 ^ Suc k dvd p - 2 ^ k"
proof -
  obtain q where q: "p = 2 ^ k * q" using assms by blast
  have e: "2 ^ Suc k dvd p \<longleftrightarrow> even q" by (simp add: q)
  have "p XOR 2 ^ k = push_bit k q XOR push_bit k 1" by (simp add: q push_bit_eq_mult mult.commute)
  also have "\<dots> = push_bit k (q XOR 1)" by (simp only: push_bit_xor)
  also have "q XOR 1 = (if even q then q + 1 else q - 1)" by (simp add: xor_Suc_0_eq)
  finally show "p XOR 2 ^ k = (if 2 ^ Suc k dvd p then p + 2 ^ k else p - 2 ^ k)"
    unfolding e by (auto simp: push_bit_eq_mult q algebra_simps diff_mult_distrib)
  show "\<not> 2 ^ Suc k dvd p \<Longrightarrow> 2 ^ k \<le> p \<and> 2 ^ Suc k dvd p - 2 ^ k"
    unfolding e by (auto simp: q elim!: oddE)
qed

section \<open>The free lists\<close>

lemma set_page_simps [simp]:
  "pm_free (set_page p f s) = pm_free s" "pm_base (set_page p f s) = pm_base s"
  "page_count (set_page p f s) = page_count s" "pm_stats (set_page p f s) = pm_stats s"
  "blocks (set_page p f s) = blocks s" "free_total (set_page p f s) = free_total s"
  by (simp_all add: set_page_def page_count_def blocks_def free_total_def)

lemma add_stats_simps [simp]:
  "pm_free (add_stats f s) = pm_free s" "pm_base (add_stats f s) = pm_base s"
  "page_count (add_stats f s) = page_count s" "pm_pages (add_stats f s) = pm_pages s"
  "blocks (add_stats f s) = blocks s" "free_total (add_stats f s) = free_total s"
  "free_head (add_stats f s) = free_head s" "pm_stats (add_stats f s) = f (pm_stats s)"
  by (simp_all add: add_stats_def page_count_def blocks_def free_total_def free_head_def fun_eq_iff)

lemma freelist_simps [simp]:
  "page_count (freelist_add p ord s) = page_count s" "page_count (freelist_del p ord s) = page_count s"
  "pm_base (freelist_add p ord s) = pm_base s" "pm_base (freelist_del p ord s) = pm_base s"
  "pm_stats (freelist_add p ord s) = pm_stats s" "pm_stats (freelist_del p ord s) = pm_stats s"
  by (simp_all add: freelist_add_def freelist_del_def Let_def page_count_def set_page_def)

lemma lists_ok_add_stats [simp]: "lists_ok (add_stats f s) = lists_ok s"
  by (simp add: lists_ok_def)

lemma unat_order: "ord \<le> RK_PMM_MAX_ORDER \<Longrightarrow> unat (of_nat ord :: u16) = ord"
  by (simp add: unat_of_nat take_bit_nat_eq_self)

lemma free_head_set_page:
  "free_head (set_page p f s) q ord \<longleftrightarrow>
     (if q = p \<and> p < page_count s
      then pg_flags (f (pm_pages s ! p)) AND RK_PG_FREE \<noteq> 0 \<and>
           pg_flags (f (pm_pages s ! p)) AND RK_PG_HEAD \<noteq> 0 \<and>
           unat (pg_order (f (pm_pages s ! p))) = ord
      else free_head s q ord)"
  by (cases "p < page_count s")
    (auto simp: free_head_def set_page_def page_count_def nth_list_update list_update_beyond not_less)

lemma total_update:
  assumes "length xs = Suc m" "ord \<le> m"
  shows "(\<Sum>i\<le>m. length (xs[ord := ys] ! i) * 2 ^ i) + length (xs ! ord) * 2 ^ ord
    = (\<Sum>i\<le>m. length (xs ! i) * 2 ^ i) + length ys * 2 ^ ord"
proof -
  have s: "(\<Sum>i\<le>m. g i) = g ord + (\<Sum>i\<in>{..m} - {ord}. g i)" for g :: "nat \<Rightarrow> nat"
    using assms(2) by (simp add: sum.remove)
  show ?thesis
    unfolding s [of "\<lambda>i. length (xs[ord := ys] ! i) * 2 ^ i"] s [of "\<lambda>i. length (xs ! i) * 2 ^ i"]
    using assms by simp
qed

lemma freelist_add_facts:
  assumes "lists_ok s" "ord \<le> RK_PMM_MAX_ORDER" "p < page_count s" "\<And>j. (p, j) \<notin> blocks s"
  shows "blocks (freelist_add p ord s) = insert (p, ord) (blocks s)"
    "lists_ok (freelist_add p ord s)"
    "free_total (freelist_add p ord s) = free_total s + 2 ^ ord"
proof -
  have l: "length (pm_free s) = 19" using assms(1) by (simp add: lists_ok_def)
  have fr: "pm_free (freelist_add p ord s) = (pm_free s)[ord := p # pm_free s ! ord]"
    by (simp add: freelist_add_def Let_def)
  show b: "blocks (freelist_add p ord s) = insert (p, ord) (blocks s)"
    using assms(2) l by (auto simp: blocks_def fr nth_list_update split: if_splits)
  have h: "free_head (freelist_add p ord s) q j \<longleftrightarrow> (if q = p then j = ord else free_head s q j)" for q j
    using assms(2,3) unat_order [of ord]
    by (auto simp: freelist_add_def Let_def free_head_def set_page_def page_count_def
      nth_list_update RK_PG_FREE_def RK_PG_HEAD_def)
  have d: "p \<notin> set (pm_free s ! ord)" using assms(2) assms(4) [of ord] by (auto simp: blocks_def)
  show "lists_ok (freelist_add p ord s)"
    using assms l d h b
    by (auto simp: lists_ok_def fr nth_list_update split: if_splits)
  show "free_total (freelist_add p ord s) = free_total s + 2 ^ ord"
    using total_update [of "pm_free s" 18 ord "p # pm_free s ! ord"] l assms(2)
    by (simp add: free_total_def fr)
qed

lemma freelist_del_facts:
  assumes "lists_ok s" "(p, ord) \<in> blocks s" "p < page_count s" "\<And>j. (p, j) \<in> blocks s \<Longrightarrow> j = ord"
  shows "blocks (freelist_del p ord s) = blocks s - {(p, ord)}"
    "lists_ok (freelist_del p ord s)"
    "free_total (freelist_del p ord s) + 2 ^ ord = free_total s"
proof -
  have l: "length (pm_free s) = 19" "distinct (pm_free s ! ord)" "ord \<le> 18" "p \<in> set (pm_free s ! ord)"
    using assms(1,2) by (auto simp: lists_ok_def blocks_def)
  have fr: "pm_free (freelist_del p ord s) = (pm_free s)[ord := remove1 p (pm_free s ! ord)]"
    by (simp add: freelist_del_def Let_def set_page_def)
  show b: "blocks (freelist_del p ord s) = blocks s - {(p, ord)}"
    using l by (auto simp: blocks_def fr nth_list_update split: if_splits)
  have z: "(w AND NOT (RK_PG_FREE OR RK_PG_HEAD)) AND RK_PG_FREE = 0" for w
    by (simp add: RK_PG_FREE_def RK_PG_HEAD_def and.assoc)
  have h: "free_head (freelist_del p ord s) q j \<longleftrightarrow> q \<noteq> p \<and> free_head s q j" for q j
    using assms(3) z
    by (auto simp: freelist_del_def Let_def free_head_def set_page_def page_count_def nth_list_update)
  show "lists_ok (freelist_del p ord s)"
    unfolding lists_ok_def
  proof (intro conjI allI impI)
    show "length (pm_free (freelist_del p ord s)) = 18 + 1" using l by (simp add: fr)
    show "distinct (pm_free (freelist_del p ord s) ! j)" if "j \<le> 18" for j
      using assms(1) that l by (cases "j = ord") (simp_all add: fr lists_ok_def)
    show "free_head (freelist_del p ord s) q j \<longleftrightarrow> (q, j) \<in> blocks (freelist_del p ord s)"
      if "q < page_count (freelist_del p ord s)" for q j
    proof -
      have "free_head s q j \<longleftrightarrow> (q, j) \<in> blocks s" using assms(1) that by (simp add: lists_ok_def)
      then show ?thesis using h [of q j] assms(4) [of j] by (auto simp: b)
    qed
  qed
  define r where "r = length (remove1 p (pm_free s ! ord))"
  have "0 < length (pm_free s ! ord)" using l(4) by (auto intro: length_pos_if_in_set)
  then have r: "length (pm_free s ! ord) = Suc r" using l(4) by (simp add: r_def length_remove1)
  have "free_total (freelist_del p ord s) + Suc r * 2 ^ ord = free_total s + r * 2 ^ ord"
    using total_update [of "pm_free s" 18 ord "remove1 p (pm_free s ! ord)"] l(1,3) r
    by (simp add: free_total_def fr r_def)
  then show "free_total (freelist_del p ord s) + 2 ^ ord = free_total s" by simp
qed

section \<open>Each operation keeps the invariant\<close>

lemma wf_family: "pmm_wf s H \<Longrightarrow> family (page_count s) (blocks s \<union> H)"
  by (simp add: pmm_wf_def)

lemma family_block_ok: "family n B \<Longrightarrow> b \<in> B \<Longrightarrow> block_ok n b"
  by (simp add: family_def)

lemma block_ok_bounds: "block_ok n (p, ord) \<Longrightarrow> ord \<le> RK_PMM_MAX_ORDER \<and> p < n"
proof -
  assume b: "block_ok n (p, ord)"
  have "p < p + 2 ^ ord" by simp
  also have "\<dots> \<le> n" using b by (simp add: block_ok_def)
  finally show ?thesis using b by (simp add: block_ok_def)
qed

lemma add_wf:
  assumes "pmm_wf s (insert (p, ord) H)" "(p, ord) \<notin> H"
  shows "pmm_wf (freelist_add p ord s) H" "free_total (freelist_add p ord s) = free_total s + 2 ^ ord"
proof -
  have fam: "family (page_count s) (blocks s \<union> insert (p, ord) H)" and d: "(p, ord) \<notin> blocks s"
    "blocks s \<inter> H = {}" and lo: "lists_ok s"
    using assms(1) by (auto simp: pmm_wf_def)
  have b: "ord \<le> RK_PMM_MAX_ORDER" "p < page_count s"
    using block_ok_bounds family_block_ok [OF fam] by blast+
  have n: "(p, j) \<notin> blocks s" for j
    using family_same_head [OF fam, of p j ord] d(1) by blast
  note F = freelist_add_facts [OF lo b n]
  show "pmm_wf (freelist_add p ord s) H"
    using fam F d assms(2) by (auto simp: pmm_wf_def)
  show "free_total (freelist_add p ord s) = free_total s + 2 ^ ord" by (rule F(3))
qed

lemma del_wf:
  assumes "pmm_wf s H" "(p, ord) \<in> blocks s"
  shows "pmm_wf (freelist_del p ord s) (insert (p, ord) H)" "(p, ord) \<notin> H"
    "free_total (freelist_del p ord s) + 2 ^ ord = free_total s"
proof -
  have fam: "family (page_count s) (blocks s \<union> H)" and lo: "lists_ok s" and d: "blocks s \<inter> H = {}"
    using assms(1) by (auto simp: pmm_wf_def)
  show nH: "(p, ord) \<notin> H" using d assms(2) by blast
  have b: "p < page_count s" using block_ok_bounds family_block_ok [OF fam] assms(2) by blast
  have n: "(p, j) \<in> blocks s \<Longrightarrow> j = ord" for j
    using family_same_head [OF fam, of p j ord] assms(2) by blast
  note F = freelist_del_facts [OF lo assms(2) b n]
  have "blocks s - {(p, ord)} \<union> insert (p, ord) H = blocks s \<union> H" using assms(2) by blast
  then show "pmm_wf (freelist_del p ord s) (insert (p, ord) H)"
    using fam F(1,2) d by (auto simp: pmm_wf_def)
  show "free_total (freelist_del p ord s) + 2 ^ ord = free_total s" by (rule F(3))
qed

lemma split_down_wf:
  "pmm_wf s (insert (p, k) H) \<Longrightarrow> (p, k) \<notin> H \<Longrightarrow> order \<le> k \<Longrightarrow>
     pmm_wf (split_down p k order s) (insert (p, order) H) \<and> (p, order) \<notin> H \<and>
     page_count (split_down p k order s) = page_count s \<and>
     pm_stats (split_down p k order s) = pm_stats s \<and>
     free_total (split_down p k order s) + 2 ^ order = free_total s + 2 ^ k"
proof (induction k arbitrary: s)
  case (Suc k)
  show ?case
  proof (cases "order = Suc k")
    case False
    let ?B = "blocks s \<union> H"
    have nb: "(p, Suc k) \<notin> ?B" and lo: "lists_ok s" and d: "blocks s \<inter> H = {}"
      and fam: "family (page_count s) (insert (p, Suc k) ?B)"
      using Suc.prems by (auto simp: pmm_wf_def)
    note S = family_split [OF fam nb]
    have "insert (p, k) (insert (p + 2 ^ k, k) ?B) = blocks s \<union> insert (p + 2 ^ k, k) (insert (p, k) H)"
      by blast
    then have w: "pmm_wf s (insert (p + 2 ^ k, k) (insert (p, k) H))"
      using S lo d by (auto simp: pmm_wf_def)
    have n: "(p + 2 ^ k, k) \<notin> insert (p, k) H" using S(3) by simp
    note A = add_wf [OF w n]
    have "(p, k) \<notin> H" using S(2) by blast
    with Suc.IH [OF A(1)] Suc.prems(3) False A(2) show ?thesis by simp
  qed (use Suc.prems in simp)
qed simp

lemma set_page_wf:
  assumes "pmm_wf s H" "\<And>j. free_head (set_page p f s) p j \<longleftrightarrow> free_head s p j"
  shows "pmm_wf (set_page p f s) H"
proof -
  have "free_head (set_page p f s) q j \<longleftrightarrow> free_head s q j" for q j
    using assms(2) [of j] free_head_set_page [of p f s q j] by (cases "q = p") auto
  then show ?thesis using assms(1) by (simp add: pmm_wf_def lists_ok_def)
qed

lemma held_not_free:
  assumes "pmm_wf s H" "(p, ord) \<in> H"
  shows "\<not> free_head s p j" "p < page_count s"
proof -
  have fam: "family (page_count s) (blocks s \<union> H)" by (rule wf_family [OF assms(1)])
  show b: "p < page_count s" using block_ok_bounds family_block_ok [OF fam] assms(2) by blast
  have "(p, j) \<notin> blocks s"
    using family_same_head [OF fam, of p j ord] assms by (auto simp: pmm_wf_def)
  then show "\<not> free_head s p j" using assms(1) b by (auto simp: pmm_wf_def lists_ok_def)
qed

lemma add_stats_wf [simp]: "pmm_wf (add_stats f s) H = pmm_wf s H"
  by (simp add: pmm_wf_def)

lemma take_block_wf:
  assumes "pmm_wf s H" "(p, ord) \<in> blocks s" "order \<le> ord"
  shows "pmm_wf (take_block p ord order s) (insert (p, order) H)" "(p, order) \<notin> H"
    "free_total (take_block p ord order s) + 2 ^ order = free_total s"
    "page_count (take_block p ord order s) = page_count s"
    "ps_free (pm_stats (take_block p ord order s)) = ps_free (pm_stats s) - 2 ^ order"
proof -
  let ?s1 = "freelist_del p ord s"
  let ?s2 = "split_down p ord order ?s1"
  note D = del_wf [OF assms(1,2)]
  note S = split_down_wf [OF D(1,2) assms(3)]
  have "\<not> free_head ?s2 p j" for j using held_not_free(1) [of ?s2 "insert (p, order) H" p order j] S by simp
  then have "pmm_wf (set_page p (\<lambda>pg. pg\<lparr>pg_order := of_nat order, pg_refcount := 1, pg_flags := 0\<rparr>) ?s2)
      (insert (p, order) H)"
    using S by (intro set_page_wf) (auto simp: free_head_set_page)
  then show "pmm_wf (take_block p ord order s) (insert (p, order) H)"
    by (simp add: take_block_def Let_def)
  show "(p, order) \<notin> H" "free_total (take_block p ord order s) + 2 ^ order = free_total s"
    "page_count (take_block p ord order s) = page_count s"
    "ps_free (pm_stats (take_block p ord order s)) = ps_free (pm_stats s) - 2 ^ order"
    using S D(3) by (simp_all add: take_block_def Let_def)
qed

lemma buddy_free_wf:
  "pmm_wf s (insert (p, ord) H) \<Longrightarrow> (p, ord) \<notin> H \<Longrightarrow>
     pmm_wf (buddy_free p ord s) H \<and> free_total (buddy_free p ord s) = free_total s + 2 ^ ord \<and>
     page_count (buddy_free p ord s) = page_count s \<and> pm_stats (buddy_free p ord s) = pm_stats s"
proof (induction p ord s rule: buddy_free.induct)
  case (1 p ord s)
  let ?b = "p XOR 2 ^ ord"
  show ?case
  proof (cases "ord < RK_PMM_MAX_ORDER \<and> ?b < page_count s \<and> free_head s ?b ord")
    case False
    then have "buddy_free p ord s = freelist_add p ord s"
      unfolding buddy_free.simps [of p ord s] by (rule if_not_P)
    then show ?thesis using add_wf [OF 1(2,3)] by simp
  next
    case True
    let ?m = "min p ?b"
    let ?s = "freelist_del ?b ord s"
    have fam: "family (page_count s) (blocks s \<union> insert (p, ord) H)" by (rule wf_family [OF 1(2)])
    have al: "2 ^ ord dvd p" using family_block_ok [OF fam, of "(p, ord)"] by (simp add: block_ok_def)
    have hb: "(?b, ord) \<in> blocks s" using 1(2) True unfolding pmm_wf_def lists_ok_def by blast
    note D = del_wf [OF 1(2) hb]
    have ne: "p \<noteq> ?b" using D(2) by auto
    have m: "{p, ?b} = {?m, ?m + 2 ^ ord}" "2 ^ Suc ord dvd ?m"
    proof -
      have pos: "(0::nat) < 2 ^ ord" by simp
      have "?m + 2 ^ ord = max p ?b \<and> 2 ^ Suc ord dvd ?m"
      proof (cases "2 ^ Suc ord dvd p")
        case True
        then show ?thesis using xor_power(1) [OF al] by simp
      next
        case False
        note x = xor_power(2) [OF al False]
        then have "p - 2 ^ ord < p" using pos by linarith
        then show ?thesis using xor_power(1) [OF al] False x by (simp add: min_def max_def)
      qed
      moreover have "{p, ?b} = {?m, max p ?b}" by (auto simp: min_def max_def)
      ultimately show "{p, ?b} = {?m, ?m + 2 ^ ord}" "2 ^ Suc ord dvd ?m" by simp_all
    qed
    have ins: "insert (?b, ord) (insert (p, ord) H) = insert (?m, ord) (insert (?m + 2 ^ ord, ord) H)"
      using m(1) by (auto simp: insert_eq_iff doubleton_eq_iff)
    have lo: "lists_ok ?s" and d: "blocks ?s \<inter> insert (?m, ord) (insert (?m + 2 ^ ord, ord) H) = {}"
      and fam2: "family (page_count s) (insert (?m, ord) (insert (?m + 2 ^ ord, ord) (blocks ?s \<union> H)))"
      using D(1) unfolding ins by (simp_all add: pmm_wf_def)
    have nH: "(?m, ord) \<notin> blocks ?s \<union> H" "(?m + 2 ^ ord, ord) \<notin> blocks ?s \<union> H"
      using d D(2) 1(3) m(1) by (auto simp: doubleton_eq_iff)
    have "family (page_count s) (insert (?m, Suc ord) (blocks ?s \<union> H))"
      using family_merge [OF fam2 m(2) _ nH] True by simp
    moreover have nm: "(?m, Suc ord) \<notin> blocks ?s \<union> H"
      using family_same_head [OF fam2, of ?m "Suc ord" ord] by auto
    ultimately have w: "pmm_wf ?s (insert (?m, Suc ord) H)"
      using lo d by (auto simp: pmm_wf_def)
    have "pmm_wf (buddy_free ?m (ord + 1) ?s) H \<and>
        free_total (buddy_free ?m (ord + 1) ?s) = free_total ?s + 2 ^ (ord + 1) \<and>
        page_count (buddy_free ?m (ord + 1) ?s) = page_count ?s \<and>
        pm_stats (buddy_free ?m (ord + 1) ?s) = pm_stats ?s"
      using 1(1) [OF True] w nm by simp
    moreover have "buddy_free p ord s = buddy_free ?m (ord + 1) ?s"
      using True unfolding buddy_free.simps [of p ord s] by (rule if_P)
    ultimately show ?thesis using D(3) by simp
  qed
qed

section \<open>Flags\<close>

definition has_flag :: "pmm \<Rightarrow> nat \<Rightarrow> u32 \<Rightarrow> bool" where
  "has_flag s p w \<longleftrightarrow> pg_flags (pm_pages s ! p) AND w \<noteq> 0"

text \<open>Free and head always come together, and only the frames of \<open>R\<close> are reserved.\<close>

definition tame :: "(nat \<times> nat) set \<Rightarrow> pmm \<Rightarrow> bool" where
  "tame R s \<longleftrightarrow> (\<forall>p < page_count s. (has_flag s p RK_PG_FREE \<longleftrightarrow> has_flag s p RK_PG_HEAD) \<and>
     (has_flag s p RK_PG_RESERVED \<longrightarrow> (p, 0) \<in> R))"

lemma tame_set_page:
  assumes "tame R s"
    and "\<And>pg. pg_flags (f pg) = pg_flags pg \<or> pg_flags (f pg) = 0 \<or>
      pg_flags (f pg) = RK_PG_FREE OR RK_PG_HEAD \<or>
      pg_flags (f pg) = pg_flags pg AND NOT (RK_PG_FREE OR RK_PG_HEAD)"
  shows "tame R (set_page p f s)"
  unfolding tame_def
proof (intro allI impI)
  fix q
  assume q: "q < page_count (set_page p f s)"
  have c: "(w AND - 4) AND 1 = 0" "(w AND - 4) AND 2 = 0" "(w AND - 4) AND 8 = w AND 8" for w :: u32
    by (simp_all add: and.assoc)
  show "(has_flag (set_page p f s) q RK_PG_FREE \<longleftrightarrow> has_flag (set_page p f s) q RK_PG_HEAD) \<and>
     (has_flag (set_page p f s) q RK_PG_RESERVED \<longrightarrow> (q, 0) \<in> R)"
    using q assms(1) assms(2) [of "pm_pages s ! p"]
    by (cases "q = p") (auto simp: tame_def has_flag_def set_page_def page_count_def
      RK_PG_FREE_def RK_PG_HEAD_def RK_PG_RESERVED_def c)
qed

lemma tame_cong: "tame R s \<Longrightarrow> pm_pages s' = pm_pages s \<Longrightarrow> tame R s'"
  by (simp add: tame_def has_flag_def page_count_def)

lemma tame_add_stats [simp]: "tame R (add_stats f s) = tame R s"
  by (simp add: tame_def has_flag_def)

lemma tame_add: "tame R s \<Longrightarrow> tame R (freelist_add p ord s)"
  unfolding freelist_add_def Let_def
  by (rule tame_cong, rule tame_set_page [where p = p]) auto

lemma tame_del: "tame R s \<Longrightarrow> tame R (freelist_del p ord s)"
  unfolding freelist_del_def Let_def
  by (rule tame_set_page, rule tame_cong) auto

lemma tame_split: "tame R s \<Longrightarrow> tame R (split_down p k order s)"
  by (induction p k order s rule: split_down.induct) (simp_all add: tame_add)

lemma tame_take: "tame R s \<Longrightarrow> tame R (take_block p ord order s)"
  unfolding take_block_def Let_def tame_add_stats
  by (rule tame_set_page) (auto intro: tame_split tame_del)

lemma tame_free: "tame R s \<Longrightarrow> tame R (buddy_free p ord s)"
proof (induction p ord s rule: buddy_free.induct)
  case (1 p ord s)
  show ?case
    unfolding buddy_free.simps [of p ord s]
    using 1 tame_add tame_del by (simp split: if_splits)
qed

section \<open>The interface\<close>

text \<open>
  What the rest of the kernel relies on: an allocated block is aligned and overlaps no other
  block in use; \<open>owned s H\<close> says that the clients hold exactly the blocks \<open>H\<close>.
\<close>

datatype alloc_op = Alloc nat | Free nat

text \<open>Clients that allocate, and free the \<open>i\<close>-th block they hold.\<close>

fun run_clients :: "(nat \<Rightarrow> 's \<Rightarrow> nat option \<times> 's) \<Rightarrow> (nat \<Rightarrow> nat \<Rightarrow> 's \<Rightarrow> 's) \<Rightarrow> alloc_op list \<Rightarrow>
    (nat \<times> nat) list \<times> 's \<Rightarrow> (nat \<times> nat) list \<times> 's" where
  "run_clients alloc free [] (H, s) = (H, s)"
| "run_clients alloc free (Alloc order # ops) (H, s) =
     (case alloc order s of
        (None, s') \<Rightarrow> run_clients alloc free ops (H, s')
      | (Some p, s') \<Rightarrow> run_clients alloc free ops ((p, order) # H, s'))"
| "run_clients alloc free (Free i # ops) (H, s) =
     (if i < length H
      then run_clients alloc free ops (take i H @ drop (Suc i) H, free (fst (H ! i)) (snd (H ! i)) s)
      else run_clients alloc free ops (H, s))"

lemma held_remove:
  assumes "distinct H" "i < length H"
  shows "distinct (take i H @ drop (Suc i) H)" "H ! i \<notin> set (take i H @ drop (Suc i) H)"
    "set H = insert (fst (H ! i), snd (H ! i)) (set (take i H @ drop (Suc i) H))"
proof -
  have h: "H = take i H @ H ! i # drop (Suc i) H" by (rule id_take_nth_drop [OF assms(2)])
  have "distinct (take i H @ H ! i # drop (Suc i) H)"
    using assms(1) h by (rule subst [of _ _ distinct, rotated])
  then show "distinct (take i H @ drop (Suc i) H)" "H ! i \<notin> set (take i H @ drop (Suc i) H)" by auto
  have "set H = set (take i H @ H ! i # drop (Suc i) H)" by (rule arg_cong [OF h])
  then show "set H = insert (fst (H ! i), snd (H ! i)) (set (take i H @ drop (Suc i) H))" by simp
qed

locale page_allocator =
  fixes alloc :: "nat \<Rightarrow> 's \<Rightarrow> nat option \<times> 's"
    and free :: "nat \<Rightarrow> nat \<Rightarrow> 's \<Rightarrow> 's"
    and owned :: "'s \<Rightarrow> (nat \<times> nat) set \<Rightarrow> bool"
    and frames :: "'s \<Rightarrow> nat"
  assumes alloc_some: "owned s H \<Longrightarrow> alloc order s = (Some p, s') \<Longrightarrow>
      owned s' (insert (p, order) H) \<and> (p, order) \<notin> H \<and> frames s' = frames s"
    and alloc_none: "owned s H \<Longrightarrow> alloc order s = (None, s') \<Longrightarrow> owned s' H \<and> frames s' = frames s"
    and free_owned: "owned s (insert (p, order) H) \<Longrightarrow> (p, order) \<notin> H \<Longrightarrow>
      owned (free p order s) H \<and> frames (free p order s) = frames s"
    and owned_family: "owned s H \<Longrightarrow> family (frames s) H"
begin

lemma run_owned:
  "owned s (set H) \<Longrightarrow> distinct H \<Longrightarrow> run_clients alloc free ops (H, s) = (H', s') \<Longrightarrow>
     owned s' (set H') \<and> distinct H' \<and> frames s' = frames s"
proof (induction ops arbitrary: H s)
  case (Cons a ops)
  show ?case
  proof (cases a)
    case (Alloc order)
    obtain r s1 where r: "alloc order s = (r, s1)" by (cases "alloc order s")
    show ?thesis
    proof (cases r)
      case None
      then have w: "owned s1 (set H)" "frames s1 = frames s" using alloc_none Cons.prems(1) r by blast+
      show ?thesis using Cons.IH [OF w(1) Cons.prems(2)] Cons.prems(3) w(2) by (simp add: Alloc r None)
    next
      case (Some p)
      then have w: "owned s1 (set ((p, order) # H))" "distinct ((p, order) # H)" "frames s1 = frames s"
        using alloc_some [OF Cons.prems(1), of order p s1] r Cons.prems(2) by auto
      show ?thesis using Cons.IH [OF w(1,2)] Cons.prems(3) w(3) by (simp add: Alloc r Some)
    qed
  next
    case (Free i)
    show ?thesis
    proof (cases "i < length H")
      case True
      let ?R = "take i H @ drop (Suc i) H"
      note d = held_remove [OF Cons.prems(2) True]
      have w: "owned (free (fst (H ! i)) (snd (H ! i)) s) (set ?R)"
        "frames (free (fst (H ! i)) (snd (H ! i)) s) = frames s"
        using free_owned [of s "fst (H ! i)" "snd (H ! i)" "set ?R"] Cons.prems(1) d(2,3) by simp_all
      show ?thesis using Cons.IH [OF w(1) d(1)] Cons.prems(3) w(2) True by (simp add: Free)
    next
      case False
      then show ?thesis using Cons by (simp add: Free)
    qed
  qed
qed simp

text \<open>Whatever the clients do, the blocks they hold stay well placed and disjoint.\<close>

lemma run_disjoint:
  assumes "owned s {}" "run_clients alloc free ops ([], s) = (H, s')"
  shows "distinct H \<and> family (frames s) (set H)"
  using run_owned [of s "[]" ops H s'] owned_family [of s' "set H"] assms by simp

end

text \<open>The number of pages held is what the allocator no longer counts as free.\<close>

definition pages_held :: "(nat \<times> nat) list \<Rightarrow> nat" where
  "pages_held H = sum_list (map (\<lambda>b. 2 ^ snd b) H)"

lemma pages_held_simps [simp]:
  "pages_held [] = 0" "pages_held ((p, order) # H) = 2 ^ order + pages_held H"
  "pages_held (xs @ ys) = pages_held xs + pages_held ys"
  by (simp_all add: pages_held_def)

lemma pages_held_remove:
  assumes "i < length H"
  shows "pages_held H = pages_held (take i H @ drop (Suc i) H) + 2 ^ snd (H ! i)"
proof -
  have "pages_held H = pages_held (take i H @ H ! i # drop (Suc i) H)"
    by (rule arg_cong [OF id_take_nth_drop [OF assms]])
  then show ?thesis by (cases "H ! i") simp
qed

locale counted_allocator = page_allocator alloc free owned frames
  for alloc :: "nat \<Rightarrow> 's \<Rightarrow> nat option \<times> 's" and free owned frames +
  fixes avail :: "'s \<Rightarrow> nat"
  assumes alloc_avail: "owned s H \<Longrightarrow> alloc order s = (r, s') \<Longrightarrow>
      avail s = avail s' + (if r = None then 0 else 2 ^ order)"
    and free_avail: "owned s (insert (p, order) H) \<Longrightarrow> (p, order) \<notin> H \<Longrightarrow>
      avail (free p order s) = avail s + 2 ^ order"
begin

lemma run_conserves:
  "owned s (set H) \<Longrightarrow> distinct H \<Longrightarrow> run_clients alloc free ops (H, s) = (H', s') \<Longrightarrow>
     avail s' + pages_held H' = avail s + pages_held H"
proof (induction ops arbitrary: H s)
  case (Cons a ops)
  show ?case
  proof (cases a)
    case (Alloc order)
    obtain r s1 where r: "alloc order s = (r, s1)" by (cases "alloc order s")
    note v = alloc_avail [OF Cons.prems(1) r]
    show ?thesis
    proof (cases r)
      case None
      then have "owned s1 (set H)" using alloc_none [OF Cons.prems(1)] r by blast
      then show ?thesis using Cons.IH [OF _ Cons.prems(2)] Cons.prems(3) v by (simp add: Alloc r None)
    next
      case (Some p)
      then have w: "owned s1 (set ((p, order) # H))" "distinct ((p, order) # H)"
        using alloc_some [OF Cons.prems(1), of order p s1] r Cons.prems(2) by auto
      show ?thesis using Cons.IH [OF w] Cons.prems(3) v by (simp add: Alloc r Some)
    qed
  next
    case (Free i)
    show ?thesis
    proof (cases "i < length H")
      case True
      note R = held_remove [OF Cons.prems(2) True]
      have w: "owned (free (fst (H ! i)) (snd (H ! i)) s) (set (take i H @ drop (Suc i) H))"
        "avail (free (fst (H ! i)) (snd (H ! i)) s) = avail s + 2 ^ snd (H ! i)"
        using free_owned free_avail Cons.prems(1) R(2,3) by simp_all
      show ?thesis
        using Cons.IH [OF w(1) R(1)] Cons.prems(3) w(2) True pages_held_remove [OF True] by (simp add: Free)
    next
      case False
      then show ?thesis using Cons by (simp add: Free)
    qed
  qed
qed simp

end

section \<open>The buddy allocator provides it\<close>

text \<open>\<open>R\<close> is the set of single frames that never become available.\<close>

definition owned_with :: "(nat \<times> nat) set \<Rightarrow> pmm \<Rightarrow> (nat \<times> nat) set \<Rightarrow> bool" where
  "owned_with R s H \<longleftrightarrow> pmm_wf s (H \<union> R) \<and> H \<inter> R = {} \<and> tame R s \<and> free_counted s"

definition frame_alloc :: "nat \<Rightarrow> pmm \<Rightarrow> nat option \<times> pmm" where
  "frame_alloc order s = buddy_alloc order 0 s"

definition frame_free :: "nat \<Rightarrow> nat \<Rightarrow> pmm \<Rightarrow> pmm" where
  "frame_free p order s = pmm_free_pages (pmm_page_addr s p) order s"

lemma pick_block_mem: "pick_block s ord flags = Some p \<Longrightarrow> p \<in> set (pm_free s ! ord)"
  by (auto simp: pick_block_def find_Some_iff split: if_splits list.splits)

lemma alloc_from_cases:
  "RK_PMM_MAX_ORDER < ord \<Longrightarrow>
     alloc_from ord order flags s = (None, add_stats (\<lambda>t. t\<lparr>ps_fails := ps_fails t + 1\<rparr>) s)"
  "\<not> RK_PMM_MAX_ORDER < ord \<Longrightarrow> pick_block s ord flags = None \<Longrightarrow>
     alloc_from ord order flags s = alloc_from (ord + 1) order flags s"
  "\<not> RK_PMM_MAX_ORDER < ord \<Longrightarrow> pick_block s ord flags = Some p \<Longrightarrow>
     alloc_from ord order flags s = (Some p, take_block p ord order s)"
proof -
  show "RK_PMM_MAX_ORDER < ord \<Longrightarrow>
     alloc_from ord order flags s = (None, add_stats (\<lambda>t. t\<lparr>ps_fails := ps_fails t + 1\<rparr>) s)"
    unfolding alloc_from.simps [of ord order flags s] by (rule if_P)
  assume n: "\<not> RK_PMM_MAX_ORDER < ord"
  have e: "alloc_from ord order flags s = (case pick_block s ord flags of
        None \<Rightarrow> alloc_from (ord + 1) order flags s
      | Some p \<Rightarrow> (Some p, take_block p ord order s))"
    unfolding alloc_from.simps [of ord order flags s] by (rule if_not_P [OF n])
  show "pick_block s ord flags = None \<Longrightarrow>
     alloc_from ord order flags s = alloc_from (ord + 1) order flags s"
    "pick_block s ord flags = Some p \<Longrightarrow>
     alloc_from ord order flags s = (Some p, take_block p ord order s)"
    unfolding e by simp_all
qed

lemma alloc_from_some:
  "alloc_from ord order flags s = (Some p, s') \<Longrightarrow>
     \<exists>k \<ge> ord. (p, k) \<in> blocks s \<and> s' = take_block p k order s"
proof (induction ord order flags s rule: alloc_from.induct)
  case (1 ord order flags s)
  show ?case
  proof (cases "RK_PMM_MAX_ORDER < ord")
    case True
    then show ?thesis using 1(2) unfolding alloc_from_cases(1) [OF True] by simp
  next
    case False
    show ?thesis
    proof (cases "pick_block s ord flags")
      case None
      have "alloc_from (ord + 1) order flags s = (Some p, s')"
        using 1(2) unfolding alloc_from_cases(2) [OF False None] .
      from 1(1) [OF False None this] obtain k where "ord + 1 \<le> k" "(p, k) \<in> blocks s" "s' = take_block p k order s"
        by blast
      then show ?thesis by (intro exI [of _ k]) simp
    next
      case (Some q)
      then have "q = p" "s' = take_block p ord order s"
        using 1(2) unfolding alloc_from_cases(3) [OF False Some] by auto
      moreover have "(q, ord) \<in> blocks s" using pick_block_mem [OF Some] False by (simp add: blocks_def)
      ultimately show ?thesis by blast
    qed
  qed
qed

lemma alloc_from_none:
  "alloc_from ord order flags s = (None, s') \<longleftrightarrow>
     (\<forall>k. ord \<le> k \<and> k \<le> RK_PMM_MAX_ORDER \<longrightarrow> pick_block s k flags = None) \<and>
     s' = add_stats (\<lambda>t. t\<lparr>ps_fails := ps_fails t + 1\<rparr>) s"
proof (induction ord order flags s rule: alloc_from.induct)
  case (1 ord order flags s)
  show ?case
  proof (cases "RK_PMM_MAX_ORDER < ord")
    case True
    then show ?thesis by (auto simp only: alloc_from_cases(1) prod.inject)
  next
    case False
    show ?thesis
    proof (cases "pick_block s ord flags")
      case None
      have "ord \<le> k \<longleftrightarrow> k = ord \<or> ord + 1 \<le> k" for k by auto
      then show ?thesis unfolding alloc_from_cases(2) [OF False None] 1(1) [OF False None] using None by metis
    next
      case (Some q)
      have "ord \<le> ord \<and> ord \<le> RK_PMM_MAX_ORDER" using False by simp
      then show ?thesis unfolding alloc_from_cases(3) [OF False Some] using Some by (metis option.distinct(1) prod.inject)
    qed
  qed
qed

lemma pfn_of_page_addr [simp]: "pfn_of s (pmm_page_addr s p) = p"
  by (simp add: pfn_of_def pmm_page_addr_def)

lemma held_flags:
  assumes "owned_with R s (insert (p, order) H)" "(p, order) \<notin> H"
  shows "\<not> has_flag s p RK_PG_FREE" "\<not> has_flag s p RK_PG_RESERVED" "p < page_count s" "order \<le> RK_PMM_MAX_ORDER"
proof -
  have w: "pmm_wf s (insert (p, order) (H \<union> R))" and r: "tame R s" "(p, order) \<notin> R"
    using assms by (auto simp: owned_with_def)
  note f = wf_family [OF w]
  show p: "p < page_count s" by (rule held_not_free(2) [OF w insertI1])
  have "\<not> free_head s p (unat (pg_order (pm_pages s ! p)))" by (rule held_not_free(1) [OF w insertI1])
  then have "\<not> (has_flag s p RK_PG_FREE \<and> has_flag s p RK_PG_HEAD)" by (simp add: free_head_def has_flag_def)
  then show "\<not> has_flag s p RK_PG_FREE" using r(1) p by (auto simp: tame_def)
  show "\<not> has_flag s p RK_PG_RESERVED"
    using r p family_same_head [OF f, of p order 0] by (auto simp: tame_def)
  show "order \<le> RK_PMM_MAX_ORDER"
    using block_ok_bounds family_block_ok [OF f, of "(p, order)"] by blast
qed

lemma frame_free_eq:
  assumes "owned_with R s (insert (p, order) H)" "(p, order) \<notin> H"
  shows "frame_free p order s =
    add_stats (\<lambda>t. t\<lparr>ps_free := ps_free t + 2 ^ order, ps_used := ps_used t - 2 ^ order,
                      ps_frees := ps_frees t + 1\<rparr>)
      (buddy_free p order (set_page p (\<lambda>pg. pg\<lparr>pg_refcount := 0, pg_owner := 0\<rparr>) s))"
  using held_flags [OF assms] by (simp add: frame_free_def pmm_free_pages_def Let_def has_flag_def)

lemma frame_alloc_owned:
  assumes o: "owned_with R s H" and "frame_alloc order s = (Some p, s')"
  shows "owned_with R s' (insert (p, order) H) \<and> (p, order) \<notin> H \<and> page_count s' = page_count s"
    "free_total s = free_total s' + 2 ^ order"
proof -
  have "alloc_from order order 0 s = (Some p, s')" using assms(2) by (simp add: frame_alloc_def buddy_alloc_def)
  from alloc_from_some [OF this] obtain k where k: "order \<le> k" "(p, k) \<in> blocks s" "s' = take_block p k order s"
    by blast
  have w: "pmm_wf s (H \<union> R)" "H \<inter> R = {}" "tame R s" "free_counted s" using o by (auto simp: owned_with_def)
  note T = take_block_wf [OF w(1) k(2,1), folded k(3)]
  show "free_total s = free_total s' + 2 ^ order" using T(3) by simp
  then have "of_nat (free_total s) - 2 ^ order = (of_nat (free_total s') :: u64)" by simp
  then have "free_counted s'" using T(5) w(4) by (simp add: free_counted_def)
  then show "owned_with R s' (insert (p, order) H) \<and> (p, order) \<notin> H \<and> page_count s' = page_count s"
    using T tame_take [OF w(3), of p k order] w(2) k(3) by (simp add: owned_with_def)
qed

lemma frame_alloc_fails:
  assumes o: "owned_with R s H" and "frame_alloc order s = (None, s')"
  shows "owned_with R s' H \<and> page_count s' = page_count s \<and> free_total s' = free_total s"
proof -
  have "alloc_from order order 0 s = (None, s')" using assms(2) by (simp add: frame_alloc_def buddy_alloc_def)
  then show ?thesis using o unfolding alloc_from_none by (simp add: owned_with_def free_counted_def)
qed

lemma frame_free_owned:
  assumes o: "owned_with R s (insert (p, order) H)" and n: "(p, order) \<notin> H"
  shows "owned_with R (frame_free p order s) H \<and> page_count (frame_free p order s) = page_count s \<and>
    free_total (frame_free p order s) = free_total s + 2 ^ order"
proof -
  let ?f = "\<lambda>pg. pg\<lparr>pg_refcount := 0, pg_owner := 0\<rparr>"
  have w: "pmm_wf s (insert (p, order) (H \<union> R))" "(p, order) \<notin> H \<union> R" "H \<inter> R = {}"
    "tame R s" "free_counted s"
    using o n by (auto simp: owned_with_def)
  have "pmm_wf (set_page p ?f s) (insert (p, order) (H \<union> R))"
    by (rule set_page_wf [OF w(1)]) (simp add: free_head_set_page, simp add: free_head_def)
  note B = buddy_free_wf [OF this w(2)]
  have t: "tame R (set_page p ?f s)" by (rule tame_set_page [OF w(4)]) simp
  show ?thesis
    unfolding frame_free_eq [OF assms]
    using B tame_free [OF t, of p order] w(3,5) by (simp add: owned_with_def free_counted_def)
qed

lemma owned_with_family: "owned_with R s H \<Longrightarrow> family (page_count s) H"
  using wf_family [of s "H \<union> R"] family_subset [of "page_count s" "blocks s \<union> (H \<union> R)" H]
  by (auto simp: owned_with_def)

interpretation buddy: counted_allocator frame_alloc frame_free "owned_with R" page_count free_total for R
proof unfold_locales
  show "free_total s = free_total s' + (if r = None then 0 else 2 ^ order)"
    if "owned_with R s H" "frame_alloc order s = (r, s')" for s H order r s'
    using that frame_alloc_owned(2) frame_alloc_fails by (cases r) auto
qed (blast dest: frame_alloc_owned(1) frame_alloc_fails frame_free_owned owned_with_family)+

end
