(* ===== verification/RK_PmmBoot.thy ===== *)
theory RK_PmmBoot
  imports RK_Buddy "HOL-Library.Code_Target_Nat"
begin

text \<open>
  What \<open>pmm_init\<close> establishes: the allocator's invariant, and that no byte of the first
  MiB, the kernel image, the page array, the initial ramdisk, a boot module or a region the
  firmware did not mark usable belongs to a free frame.
\<close>

section \<open>Publishing a run\<close>

definition covered :: "pmm \<Rightarrow> nat set" where
  "covered s = \<Union> (frames_of ` blocks s)"

lemma run_order_from_ok:
  "order \<le> RK_PMM_MAX_ORDER \<Longrightarrow> 2 ^ order dvd pfn \<Longrightarrow> pfn + 2 ^ order \<le> stop \<Longrightarrow>
     run_order_from pfn stop order \<le> RK_PMM_MAX_ORDER \<and>
     2 ^ run_order_from pfn stop order dvd pfn \<and> pfn + 2 ^ run_order_from pfn stop order \<le> stop"
proof (induction pfn stop order rule: run_order_from.induct)
  case (1 pfn stop order)
  let ?c = "order < RK_PMM_MAX_ORDER \<and> pfn mod 2 ^ (order + 1) = 0 \<and> pfn + 2 ^ (order + 1) \<le> stop"
  show ?case
  proof (cases ?c)
    case True
    have "run_order_from pfn stop order = run_order_from pfn stop (order + 1)"
      using True unfolding run_order_from.simps [of pfn stop order] by (rule if_P)
    moreover have "2 ^ (order + 1) dvd pfn" using True by (simp add: dvd_eq_mod_eq_0)
    ultimately show ?thesis using 1(1) [OF True] True by simp
  next
    case False
    have "run_order_from pfn stop order = order"
      using False unfolding run_order_from.simps [of pfn stop order] by (rule if_not_P)
    then show ?thesis using 1(2-4) by simp
  qed
qed

lemma covered_add_stats [simp]: "covered (add_stats f s) = covered s"
  by (simp add: covered_def)

definition busy :: "(nat \<times> nat) set \<Rightarrow> pmm \<Rightarrow> nat set" where
  "busy R s = covered s \<union> \<Union> (frames_of ` R)"

lemma publish_block_facts:
  assumes w: "pmm_wf s R" and t: "tame R s" and b: "block_ok (page_count s) (p, ord)"
    and f: "frames_of (p, ord) \<inter> busy R s = {}"
  shows "pmm_wf (publish_block p ord s) R" "tame R (publish_block p ord s)"
    "free_total (publish_block p ord s) = free_total s + 2 ^ ord"
    "ps_free (pm_stats (publish_block p ord s)) = ps_free (pm_stats s) + 2 ^ ord"
    "covered (publish_block p ord s) = covered s \<union> frames_of (p, ord)"
    "page_count (publish_block p ord s) = page_count s" "pm_base (publish_block p ord s) = pm_base s"
    "\<And>x. x \<noteq> p \<Longrightarrow> pm_pages (publish_block p ord s) ! x = pm_pages s ! x"
proof -
  have ne: "(p, ord) \<notin> blocks s \<union> R"
  proof
    assume "(p, ord) \<in> blocks s \<union> R"
    then have "p \<in> busy R s" using frames_nonempty [of "(p, ord)"] by (force simp: busy_def covered_def)
    then show False using f frames_nonempty [of "(p, ord)"] by auto
  qed
  have a: "\<forall>c \<in> blocks s \<union> R. apart (p, ord) c"
    using f by (auto simp: apart_def disjnt_def busy_def covered_def)
  have w2: "pmm_wf s (insert (p, ord) R)"
    using w a b ne by (auto simp: pmm_wf_def family_insert)
  have n: "(p, ord) \<notin> R" using ne by blast
  note A = add_wf [OF w2 n]
  show "pmm_wf (publish_block p ord s) R" "free_total (publish_block p ord s) = free_total s + 2 ^ ord"
    "ps_free (pm_stats (publish_block p ord s)) = ps_free (pm_stats s) + 2 ^ ord"
    "page_count (publish_block p ord s) = page_count s" "pm_base (publish_block p ord s) = pm_base s"
    using A by (simp_all add: publish_block_def)
  show "tame R (publish_block p ord s)" using tame_add [OF t] by (simp add: publish_block_def)
  have "lists_ok s" "\<And>j. (p, j) \<notin> blocks s"
    using w a not_apart_self by (auto simp: pmm_wf_def)
  from freelist_add_facts(1) [OF this(1) _ _ this(2), of ord] block_ok_bounds [OF b]
  have "blocks (freelist_add p ord s) = insert (p, ord) (blocks s)" by blast
  then show "covered (publish_block p ord s) = covered s \<union> frames_of (p, ord)"
    by (auto simp: publish_block_def covered_def)
  show "\<And>x. x \<noteq> p \<Longrightarrow> pm_pages (publish_block p ord s) ! x = pm_pages s ! x"
    by (simp add: publish_block_def freelist_add_def Let_def set_page_def)
qed

lemma publish_run_facts:
  "pmm_wf s R \<Longrightarrow> tame R s \<Longrightarrow> stop \<le> page_count s \<Longrightarrow> {pfn..<stop} \<inter> busy R s = {} \<Longrightarrow>
     pmm_wf (publish_run pfn stop s) R \<and> tame R (publish_run pfn stop s) \<and>
     free_total (publish_run pfn stop s) = free_total s + (stop - pfn) \<and>
     ps_free (pm_stats (publish_run pfn stop s)) = ps_free (pm_stats s) + of_nat (stop - pfn) \<and>
     covered (publish_run pfn stop s) = covered s \<union> {pfn..<stop} \<and>
     page_count (publish_run pfn stop s) = page_count s \<and> pm_base (publish_run pfn stop s) = pm_base s \<and>
     (\<forall>x. x \<notin> {pfn..<stop} \<longrightarrow> pm_pages (publish_run pfn stop s) ! x = pm_pages s ! x)"
proof (induction pfn stop s rule: publish_run.induct)
  case (1 pfn stop s)
  show ?case
  proof (cases "pfn < stop")
    case False
    then show ?thesis using 1 by (simp add: publish_run.simps [of pfn stop s])
  next
    case True
    let ?o = "run_order_from pfn stop 0"
    let ?s = "publish_block pfn ?o s"
    have O: "?o \<le> RK_PMM_MAX_ORDER" "2 ^ ?o dvd pfn" "pfn + 2 ^ ?o \<le> stop"
      using run_order_from_ok [of 0 pfn stop] True by simp_all
    have b: "block_ok (page_count s) (pfn, ?o)" using O 1(4) by (simp add: block_ok_def)
    have u: "{pfn..<stop} = frames_of (pfn, ?o) \<union> {pfn + 2 ^ ?o..<stop}" 
      "frames_of (pfn, ?o) \<inter> {pfn + 2 ^ ?o..<stop} = {}" using O(3) by (auto simp: frames_of_def)
    have f: "frames_of (pfn, ?o) \<inter> busy R s = {}" using 1(5) u(1) by blast
    note P = publish_block_facts [OF 1(2,3) b f]
    have d: "{pfn + 2 ^ ?o..<stop} \<inter> busy R ?s = {}"
      using 1(5) u P(5) unfolding busy_def by blast
    have e: "publish_run pfn stop s = publish_run (pfn + 2 ^ ?o) stop ?s"
      using True unfolding publish_run.simps [of pfn stop s] by (rule if_P)
    have l: "stop \<le> page_count ?s" using P(6) 1(4) by simp
    note I = 1(1) [OF True P(1,2) l d, folded e]
    have n: "stop - pfn = 2 ^ ?o + (stop - (pfn + 2 ^ ?o))" using O(3) by simp
    then have nw: "of_nat (stop - pfn) = 2 ^ ?o + (of_nat (stop - (pfn + 2 ^ ?o)) :: u64)" by simp
    have pg: "pm_pages (publish_run pfn stop s) ! x = pm_pages s ! x" if "x \<notin> {pfn..<stop}" for x
    proof -
      have "x \<noteq> pfn" "x \<notin> {pfn + 2 ^ ?o..<stop}" using that True by auto
      then show ?thesis using I P(8) by simp
    qed
    show ?thesis
      using I P(3-7) u(1) pg n by (simp add: nw Un_assoc add.assoc)
  qed
qed

section \<open>The walk over the frames\<close>

abbreviation reserved :: "pmm \<Rightarrow> nat \<Rightarrow> bool" where
  "reserved s x \<equiv> has_flag s x RK_PG_RESERVED"

definition reserved_frames :: "pmm \<Rightarrow> (nat \<times> nat) set" where
  "reserved_frames s = {(x, 0) | x. x < page_count s \<and> reserved s x}"

lemma busy_reserved: "\<Union> (frames_of ` reserved_frames s) = {x. x < page_count s \<and> reserved s x}"
  by (auto simp: reserved_frames_def frames_of_def)

lemma reserved_cong: "pm_pages s ! x = pm_pages s' ! x \<Longrightarrow> reserved s x = reserved s' x"
  by (simp add: has_flag_def)

text \<open>What holds when the walk reaches frame \<open>a\<close>, the open run starting at \<open>lim\<close>.\<close>

definition scanned :: "pmm \<Rightarrow> nat \<Rightarrow> nat \<Rightarrow> pmm \<Rightarrow> bool" where
  "scanned z lim a s \<longleftrightarrow> pmm_wf s (reserved_frames z) \<and> tame (reserved_frames z) s \<and> free_counted s \<and>
     page_count s = page_count z \<and> pm_base s = pm_base z \<and> lim \<le> a \<and>
     covered s = {x. x < lim \<and> x < page_count z \<and> \<not> reserved z x} \<and>
     (\<forall>x \<ge> lim. pm_pages s ! x = pm_pages z ! x) \<and> (\<forall>x \<in> {lim..<a}. x < page_count z \<and> \<not> reserved z x)"

lemma scanned_extend: "scanned z lim a s \<Longrightarrow> a < page_count z \<Longrightarrow> \<not> reserved z a \<Longrightarrow> scanned z lim (Suc a) s"
  by (auto simp: scanned_def less_Suc_eq)

lemma scanned_skip:
  assumes "scanned z a a s" "\<not> (a < page_count z \<and> \<not> reserved z a)"
  shows "scanned z (Suc a) (Suc a) s"
proof -
  have "{x. x < Suc a \<and> x < page_count z \<and> \<not> reserved z x} = {x. x < a \<and> x < page_count z \<and> \<not> reserved z x}"
    using assms(2) by (auto simp: less_Suc_eq)
  then show ?thesis using assms(1) by (simp add: scanned_def)
qed

lemma scanned_publish:
  assumes "scanned z lim a s" "lim < a"
  shows "scanned z a a (publish_run lim a s)"
proof -
  let ?R = "reserved_frames z"
  have S: "pmm_wf s ?R" "tame ?R s" "free_counted s" "page_count s = page_count z" "pm_base s = pm_base z"
    "lim \<le> a" "covered s = {x. x < lim \<and> x < page_count z \<and> \<not> reserved z x}"
    "\<And>x. lim \<le> x \<Longrightarrow> pm_pages s ! x = pm_pages z ! x"
    "\<And>x. x \<in> {lim..<a} \<Longrightarrow> x < page_count z \<and> \<not> reserved z x"
    using assms(1) by (auto simp: scanned_def)
  have "a - 1 \<in> {lim..<a}" using assms(2) by auto
  from S(9) [OF this] have l: "a \<le> page_count s" using S(4) by linarith
  have d: "{lim..<a} \<inter> busy ?R s = {}"
    using S(7,9) by (auto simp: busy_def busy_reserved)
  note P = publish_run_facts [OF S(1,2) l d]
  have "covered (publish_run lim a s) = {x. x < a \<and> x < page_count z \<and> \<not> reserved z x}"
    using P S(6,7,9) by force
  moreover have "free_counted (publish_run lim a s)"
    using P S(3) by (simp add: free_counted_def)
  ultimately show ?thesis using P S(4-6,8) by (simp add: scanned_def)
qed

lemma scan_runs_spec:
  "a + k = page_count z + 1 \<Longrightarrow> scanned z (case run of None \<Rightarrow> a | Some st \<Rightarrow> st) a s \<Longrightarrow>
     (\<forall>st. run = Some st \<longrightarrow> st < a) \<Longrightarrow>
     scanned z (page_count z + 1) (page_count z + 1) (scan_runs [a..<page_count z + 1] run s)"
proof (induction k arbitrary: a run s)
  case 0
  show ?case
  proof (cases run)
    case (Some st)
    have "page_count z \<in> {st..<a}" using 0 Some by simp
    moreover have "\<forall>x \<in> {st..<a}. x < page_count z" using 0(2) Some by (simp add: scanned_def)
    ultimately show ?thesis by blast
  qed (use 0 in simp)
next
  case (Suc k)
  let ?l = "case run of None \<Rightarrow> a | Some st \<Rightarrow> st"
  have sc: "scanned z ?l a s" by (rule Suc.prems(2))
  have pg: "pm_pages s ! a = pm_pages z ! a" "page_count s = page_count z" "?l \<le> a"
    using sc by (auto simp: scanned_def)
  have l: "[a..<page_count z + 1] = a # [Suc a..<page_count z + 1]" using Suc.prems(1) by (simp add: upt_rec)
  have k: "Suc a + k = page_count z + 1" using Suc.prems(1) by simp
  define usable where "usable = (a < page_count z \<and> \<not> reserved z a)"
  have u: "(a < page_count s \<and> pg_flags (pm_pages s ! a) AND RK_PG_RESERVED = 0) = usable"
    using pg by (simp add: usable_def has_flag_def)
  show ?case
  proof (cases run)
    case None
    then have s: "scanned z a a s" using sc by simp
    show ?thesis
    proof (cases usable)
      case True
      then have "scanned z a (Suc a) s" using scanned_extend [OF s] by (simp add: usable_def)
      with Suc.IH [OF k, of "Some a" s] True show ?thesis unfolding l scan_runs.simps Let_def u None by simp
    next
      case False
      then have "scanned z (Suc a) (Suc a) s" using scanned_skip [OF s] by (simp add: usable_def)
      with Suc.IH [OF k, of None s] False show ?thesis unfolding l scan_runs.simps Let_def u None by simp
    qed
  next
    case (Some st)
    then have s: "scanned z st a s" "st < a" using sc Suc.prems(3) by simp_all
    show ?thesis
    proof (cases usable)
      case True
      then have "scanned z st (Suc a) s" using scanned_extend [OF s(1)] by (simp add: usable_def)
      with Suc.IH [OF k, of "Some st" s] True s(2) show ?thesis
        unfolding l scan_runs.simps Let_def u Some by simp
    next
      case False
      then have "scanned z (Suc a) (Suc a) (publish_run st a s)"
        using scanned_skip [OF scanned_publish [OF s]] by (simp add: usable_def)
      with Suc.IH [OF k, of None "publish_run st a s"] False show ?thesis
        unfolding l scan_runs.simps Let_def u Some by simp
    qed
  qed
qed

section \<open>Before the walk\<close>

text \<open>Nothing is on a free list yet and every frame is either plain or reserved.\<close>

definition flat :: "pmm \<Rightarrow> bool" where
  "flat s \<longleftrightarrow> pm_free s = replicate (RK_PMM_MAX_ORDER + 1) [] \<and> ps_free (pm_stats s) = 0 \<and>
     (\<forall>x < page_count s. pg_flags (pm_pages s ! x) \<in> {0, RK_PG_RESERVED})"

lemma flat_scanned:
  assumes "flat s"
  shows "scanned s 0 0 s"
proof -
  have f: "pm_free s = replicate 19 []" using assms by (simp add: flat_def)
  have b: "blocks s = {}" by (auto simp: blocks_def f)
  have z: "\<not> has_flag s x RK_PG_FREE" "\<not> has_flag s x RK_PG_HEAD" if "x < page_count s" for x
    using assms that by (auto simp: flat_def has_flag_def RK_PG_FREE_def RK_PG_HEAD_def RK_PG_RESERVED_def)
  have "lists_ok s" using z by (auto simp: lists_ok_def f b free_head_def has_flag_def)
  moreover have "family (page_count s) (reserved_frames s)"
    by (auto simp: family_def reserved_frames_def block_ok_def pairwise_def apart_def frames_of_def disjnt_def)
  moreover have "tame (reserved_frames s) s" using z by (simp add: tame_def reserved_frames_def)
  moreover have "free_total s = 0" by (auto simp: free_total_def f)
  ultimately show ?thesis
    using assms by (simp add: scanned_def pmm_wf_def b free_counted_def flat_def covered_def)
qed

text \<open>The operations of this phase: each touches only the flags of a set of frames.\<close>

definition only_flags :: "pmm \<Rightarrow> pmm \<Rightarrow> bool" where
  "only_flags s t \<longleftrightarrow> page_count t = page_count s \<and> pm_base t = pm_base s \<and> (flat s \<longrightarrow> flat t)"

lemma only_flags_refl [simp]: "only_flags s s"
  by (simp add: only_flags_def)

lemma only_flags_trans: "only_flags s t \<Longrightarrow> only_flags t u \<Longrightarrow> only_flags s u"
  by (simp add: only_flags_def)

lemma only_flags_fold: "(\<And>x s. only_flags s (f x s)) \<Longrightarrow> only_flags s (fold f xs s)"
  by (induction xs arbitrary: s) (auto intro: only_flags_trans)

lemma only_flags_set_page:
  assumes "\<And>pg. pg_flags pg \<in> {0, RK_PG_RESERVED} \<Longrightarrow> pg_flags (f pg) \<in> {0, RK_PG_RESERVED}"
  shows "only_flags s (set_page p f s)"
proof -
  have "pg_flags (pm_pages (set_page p f s) ! x) \<in> {0, RK_PG_RESERVED}"
    if "x < page_count s" "pg_flags (pm_pages s ! x) \<in> {0, RK_PG_RESERVED}" for x
    using assms [of "pm_pages s ! x"] that
    by (cases "x = p") (simp_all add: set_page_def page_count_def nth_list_update)
  then show ?thesis by (simp add: only_flags_def flat_def)
qed

lemma only_flags_reserve_page: "only_flags s (reserve_page p s)"
  unfolding reserve_page_def by (rule only_flags_set_page) auto

lemma only_flags_clear_page: "only_flags s (clear_page p s)"
  unfolding clear_page_def by (rule only_flags_set_page) auto

lemma only_flags_reserve: "only_flags s (pmm_reserve base len s)"
  unfolding pmm_reserve_def Let_def by (simp add: only_flags_fold only_flags_reserve_page)

lemma only_flags_open: "only_flags s (open_region r s)"
  unfolding open_region_def Let_def by (simp add: only_flags_fold only_flags_clear_page)

lemma reserved_reserve_page:
  "reserved (reserve_page p s) x \<longleftrightarrow> reserved s x \<or> (x = p \<and> p < page_count s)"
  by (cases "p < page_count s")
    (auto simp: has_flag_def reserve_page_def set_page_def page_count_def nth_list_update
      list_update_beyond RK_PG_RESERVED_def bit.conj_disj_distrib2)

lemma reserved_clear_page:
  "reserved (clear_page p s) x \<longleftrightarrow> reserved s x \<and> (x = p \<longrightarrow> page_count s \<le> p)"
  by (cases "p < page_count s")
    (auto simp: has_flag_def clear_page_def set_page_def page_count_def nth_list_update list_update_beyond)

lemma reserved_fold_reserve:
  "reserved (fold reserve_page ps s) x \<longleftrightarrow> reserved s x \<or> (x \<in> set ps \<and> x < page_count s)"
proof (induction ps arbitrary: s)
  case (Cons p ps)
  have "page_count (reserve_page p s) = page_count s" by (simp add: reserve_page_def)
  then show ?case by (auto simp: Cons reserved_reserve_page)
qed simp

lemma reserved_fold_clear:
  "reserved (fold clear_page ps s) x \<longleftrightarrow> reserved s x \<and> (x \<in> set ps \<longrightarrow> page_count s \<le> x)"
proof (induction ps arbitrary: s)
  case (Cons p ps)
  have "page_count (clear_page p s) = page_count s" by (simp add: clear_page_def)
  then show ?case by (auto simp: Cons reserved_clear_page)
qed simp

lemma flat_pages [simp]:
  "page_count (fold reserve_page ps s) = page_count s" "pm_base (fold reserve_page ps s) = pm_base s"
  "page_count (fold clear_page ps s) = page_count s" "pm_base (fold clear_page ps s) = pm_base s"
  "page_count (pmm_reserve b l s) = page_count s" "pm_base (pmm_reserve b l s) = pm_base s"
  "page_count (open_region r s) = page_count s" "pm_base (open_region r s) = pm_base s"
  using only_flags_fold [of reserve_page s ps] only_flags_fold [of clear_page s ps]
    only_flags_reserve [of s b l] only_flags_open [of s r] only_flags_reserve_page only_flags_clear_page
  by (simp_all add: only_flags_def)

definition frame_bytes :: "pmm \<Rightarrow> nat \<Rightarrow> nat set" where
  "frame_bytes s x = {pm_base s + x * 4096..<pm_base s + (x + 1) * 4096}"

lemma frame_bytes_cong: "pm_base t = pm_base s \<Longrightarrow> frame_bytes t x = frame_bytes s x"
  by (simp add: frame_bytes_def)

lemma reserve_mono: "reserved s x \<Longrightarrow> reserved (pmm_reserve base len s) x"
  by (simp add: pmm_reserve_def Let_def reserved_fold_reserve)

lemma align_down_bounds: "align_down x 4096 \<le> x" "x < align_down x 4096 + 4096"
  using div_mult_mod_eq [of x 4096] mod_less_divisor [of 4096 x] by (simp_all add: align_down_def)

lemma reserve_hits:
  assumes "4096 dvd pm_base s" "x < page_count s" "y \<in> frame_bytes s x" "y \<in> {base..<base + len}"
  shows "reserved (pmm_reserve base len s) x"
proof -
  let ?stop = "align_up (base + len) 4096"
  let ?a = "align_down base 4096"
  let ?start = "if ?a < pm_base s then pm_base s else ?a"
  have y: "pm_base s + x * 4096 \<le> y" "y < pm_base s + x * 4096 + 4096" "base \<le> y" "y < base + len"
    using assms by (auto simp: frame_bytes_def)
  have st: "base + len \<le> ?stop" by (rule align_up_ge) simp
  have "?a \<le> y" "pm_base s \<le> y" using align_down_bounds(1) [of base] y by linarith+
  then have b: "pm_base s \<le> ?start" "?start \<le> y" by auto
  have fx: "(y - pm_base s) div 4096 = x" using y by (auto intro!: div_nat_eqI simp: algebra_simps)
  have "(?start - pm_base s) div 4096 \<le> x" unfolding fx [symmetric] using b by (intro div_le_mono) simp
  then have lo: "pfn_of s ?start \<le> x" using b(1) by (simp add: pfn_of_def)
  have hi: "x < pfn_of s ?stop"
  proof -
    obtain c where c: "pm_base s = 4096 * c" using assms(1) by blast
    obtain d where d: "?stop = 4096 * d" by (metis align_up_def mult.commute)
    have "pm_base s + x * 4096 < ?stop" using y st by linarith
    then have "c + x < d" unfolding c d by simp
    moreover have "pfn_of s ?stop = d - c" if "c \<le> d"
      using that by (simp add: pfn_of_def c d flip: diff_mult_distrib2)
    ultimately show ?thesis by simp
  qed
  have "\<not> ?stop \<le> pm_base s" "len \<noteq> 0" using y st by linarith+
  then show ?thesis
    using lo hi assms(2) by (simp add: pmm_reserve_def Let_def reserved_fold_reserve)
qed

lemma open_region_frame:
  assumes "4096 dvd pm_base s" "\<not> reserved (open_region r s) x" "reserved s x"
  shows "mr_usable r \<and> frame_bytes s x \<subseteq> {mr_base r..<mr_base r + mr_len r}"
proof -
  let ?stop = "mr_base r + mr_len r"
  define base where "base = (if mr_base r < pm_base s + 4096 then pm_base s + 4096 else mr_base r)"
  have u: "mr_usable r" and n: "\<not> ?stop \<le> base"
    using assms(2,3) unfolding open_region_def Let_def base_def [symmetric] by (auto split: if_splits)
  have x: "pfn_of s (align_up base 4096) \<le> x" "x < pfn_of s (align_down ?stop 4096)"
    using assms(2,3) u n unfolding open_region_def Let_def base_def [symmetric]
    by (auto simp: reserved_fold_clear)
  obtain c where c: "pm_base s = 4096 * c" using assms(1) by blast
  obtain d where d: "align_up base 4096 = 4096 * d" by (metis align_up_def mult.commute)
  obtain e where e: "align_down ?stop 4096 = 4096 * e" by (metis align_down_def mult.commute)
  have bs: "mr_base r \<le> base" "pm_base s + 4096 \<le> base" by (auto simp: base_def)
  have bd: "base \<le> 4096 * d" using align_up_ge [of 4096 base] by (simp add: d)
  have es: "4096 * e \<le> ?stop" "?stop < 4096 * e + 4096" using align_down_bounds [of ?stop] by (simp_all add: e)
  have ce: "c \<le> e" using es(2) n bs(2) unfolding c by linarith
  have cd: "c \<le> d" using bs(2) bd unfolding c by linarith
  have "d - c \<le> x" "x < e - c"
    using x ce cd by (simp_all add: pfn_of_def c d e flip: diff_mult_distrib2)
  then have "4096 * d \<le> 4096 * (c + x)" "4096 * (c + (x + 1)) \<le> 4096 * e" using cd ce by simp_all
  then have "mr_base r \<le> pm_base s + x * 4096" "pm_base s + (x + 1) * 4096 \<le> ?stop"
    using bs(1) bd es(1) unfolding c by (simp_all add: algebra_simps)
  then show ?thesis using u by (auto simp: frame_bytes_def)
qed

lemma open_all_frame:
  "4096 dvd pm_base s \<Longrightarrow> \<not> reserved (fold open_region rs s) x \<Longrightarrow> reserved s x \<Longrightarrow>
     \<exists>r \<in> set rs. mr_usable r \<and> frame_bytes s x \<subseteq> {mr_base r..<mr_base r + mr_len r}"
proof (induction rs arbitrary: s)
  case (Cons r rs)
  show ?case
  proof (cases "reserved (open_region r s) x")
    case True
    then show ?thesis using Cons.IH [of "open_region r s"] Cons.prems frame_bytes_cong [of "open_region r s" s] by auto
  next
    case False
    then show ?thesis using open_region_frame [OF Cons.prems(1) False Cons.prems(3)] by auto
  qed
qed simp

section \<open>What the firmware and the loader keep\<close>

text \<open>The address ranges that must never be handed out.\<close>

definition kept_ranges :: "boot_map \<Rightarrow> nat \<Rightarrow> (nat \<times> nat) list" where
  "kept_ranges bi n =
     (0, 0x100000) # (bm_kernel_start bi, bm_kernel_end bi - bm_kernel_start bi)
     # (place_array bi (align_up (n * 32) 4096), align_up (n * 32) 4096)
     # (if bm_initrd_start bi \<noteq> 0 then [(bm_initrd_start bi, bm_initrd_end bi - bm_initrd_start bi)] else [])
     @ map (\<lambda>(a, b). (a, b - a)) (bm_modules bi)
     @ map (\<lambda>r. (mr_base r, mr_len r)) (filter (\<lambda>r. \<not> mr_usable r) (bm_regions bi))"

lemma reserve_zero: "pmm_reserve b 0 s = s"
  by (simp add: pmm_reserve_def)

lemma reserve_unusable_eq:
  "fold (\<lambda>r s. if mr_usable r then s else pmm_reserve (mr_base r) (mr_len r) s) rs s =
     fold (\<lambda>(a, l). pmm_reserve a l) (map (\<lambda>r. (mr_base r, mr_len r)) (filter (\<lambda>r. \<not> mr_usable r) rs)) s"
  by (induction rs arbitrary: s) simp_all

lemma reserve_all_eq:
  "reserve_all bi (place_array bi (align_up (n * 32) 4096)) (align_up (n * 32) 4096) s =
     fold (\<lambda>(a, l). pmm_reserve a l) (kept_ranges bi n) s"
  by (simp add: reserve_all_def kept_ranges_def Let_def fold_map comp_def reserve_unusable_eq
    case_prod_unfold reserve_zero)

lemma reserve_kept:
  "only_flags s (fold (\<lambda>(a, l). pmm_reserve a l) ks s) \<and>
   (reserved s x \<longrightarrow> reserved (fold (\<lambda>(a, l). pmm_reserve a l) ks s) x)"
proof (induction ks arbitrary: s)
  case (Cons k ks)
  obtain a l where k: "k = (a, l)" by (cases k)
  show ?case
    using Cons [of "pmm_reserve a l s"] only_flags_reserve [of s a l] reserve_mono [of s x a l]
    by (auto simp: k intro: only_flags_trans)
qed simp

lemma reserve_kept_hits:
  assumes "4096 dvd pm_base s" "x < page_count s" "(a, l) \<in> set ks" "y \<in> frame_bytes s x" "y \<in> {a..<a + l}"
  shows "reserved (fold (\<lambda>(a, l). pmm_reserve a l) ks s) x"
  using assms
proof (induction ks arbitrary: s)
  case (Cons k ks)
  show ?case
  proof (cases "k = (a, l)")
    case True
    then show ?thesis using reserve_hits [OF Cons.prems(1,2,4,5)] reserve_kept [of "pmm_reserve a l s" ks x] by simp
  next
    case False
    obtain b m where k: "k = (b, m)" by (cases k)
    show ?thesis
      using Cons.IH [of "pmm_reserve b m s"] Cons.prems False frame_bytes_cong [of "pmm_reserve b m s" s]
      by (auto simp: k)
  qed
qed simp

lemma reserved_empty: "x < n \<Longrightarrow> reserved (pmm_empty b n) x"
  by (simp add: has_flag_def pmm_empty_def RK_PG_RESERVED_def)

lemma flat_empty: "flat (pmm_empty b n)" "page_count (pmm_empty b n) = n" "pm_base (pmm_empty b n) = b"
  by (simp_all add: flat_def pmm_empty_def page_count_def)

lemma pmm_init_scanned:
  assumes "pmm_init bi = Some s"
  obtains f z t where "s = add_stats f t" "\<And>u. ps_free (f u) = ps_free u"
    "scanned z (page_count z + 1) (page_count z + 1) t"
    "\<And>x. x < page_count z \<Longrightarrow> \<not> reserved z x \<Longrightarrow>
      (\<exists>r \<in> set (bm_regions bi). mr_usable r \<and> frame_bytes z x \<subseteq> {mr_base r..<mr_base r + mr_len r}) \<and>
      (\<forall>(a, l) \<in> set (kept_ranges bi (page_count z)). frame_bytes z x \<inter> {a..<a + l} = {})"
proof -
  obtain lowest limit where sp: "usable_span (bm_regions bi) = Some (lowest, limit)"
    using assms by (auto simp: pmm_init_def split: option.splits)
  define b where "b = align_down lowest 4096"
  define n where "n = (align_up limit 4096 - b) div 4096"
  define z0 where "z0 = fold open_region (bm_regions bi) (pmm_empty b n)"
  define z where "z = fold (\<lambda>(a, l). pmm_reserve a l) (kept_ranges bi n) z0"
  define t where "t = scan_runs [0..<n + 1] None z"
  have s: "s = add_stats (\<lambda>u. u\<lparr>ps_total := of_nat n, ps_reserved := of_nat n - ps_free u\<rparr>) t"
    using assms unfolding pmm_init_def sp
    by (simp add: Let_def reserve_all_eq b_def [symmetric] n_def [symmetric] z0_def [symmetric]
      z_def [symmetric] del: upt_Suc split: if_splits) (simp add: t_def)
  have z0: "only_flags (pmm_empty b n) z0" unfolding z0_def by (rule only_flags_fold) (rule only_flags_open)
  have zz: "only_flags z0 z" unfolding z_def using reserve_kept [of z0 "kept_ranges bi n"] by blast
  have o: "only_flags (pmm_empty b n) z" by (rule only_flags_trans [OF z0 zz])
  have pz: "page_count z = n" "pm_base z = b" "flat z" using o flat_empty by (simp_all add: only_flags_def)
  have p0: "page_count z0 = n" "pm_base z0 = b" using z0 flat_empty by (simp_all add: only_flags_def)
  have al: "4096 dvd b" by (simp add: b_def align_down_def)
  have "scanned z (n + 1) (n + 1) t"
    using scan_runs_spec [of 0 "n + 1" z None z] flat_scanned [OF pz(3)] pz(1) by (simp add: t_def)
  moreover have "page_count t = n" using calculation pz(1) by (simp add: scanned_def)
  moreover have
    "(\<exists>r \<in> set (bm_regions bi). mr_usable r \<and> frame_bytes z x \<subseteq> {mr_base r..<mr_base r + mr_len r}) \<and>
      (\<forall>(a, l) \<in> set (kept_ranges bi n). frame_bytes z x \<inter> {a..<a + l} = {})"
    if "x < n" "\<not> reserved z x" for x
  proof (intro conjI)
    have "\<not> reserved z0 x" using reserve_kept [of z0 "kept_ranges bi n" x] that(2) by (auto simp: z_def)
    then show "\<exists>r \<in> set (bm_regions bi). mr_usable r \<and> frame_bytes z x \<subseteq> {mr_base r..<mr_base r + mr_len r}"
      using open_all_frame [of "pmm_empty b n" "bm_regions bi" x] reserved_empty [OF that(1)] al
        frame_bytes_cong [of z "pmm_empty b n" x] pz(2) flat_empty
      by (simp add: z0_def)
    show "\<forall>(a, l) \<in> set (kept_ranges bi n). frame_bytes z x \<inter> {a..<a + l} = {}"
      using reserve_kept_hits [of z0 x _ _ "kept_ranges bi n"] that al p0
        frame_bytes_cong [of z z0 x] pz(2)
      unfolding z_def [symmetric] by fastforce
  qed
  ultimately show ?thesis using that [OF s, of z] pz(1) by simp
qed

section \<open>The properties\<close>

lemma boot_owned:
  assumes "pmm_init bi = Some s"
  obtains R where "owned_with R s {}"
    "\<And>x. x < page_count s \<Longrightarrow> (x, 0) \<notin> R \<Longrightarrow>
      (\<exists>r \<in> set (bm_regions bi). mr_usable r \<and> frame_bytes s x \<subseteq> {mr_base r..<mr_base r + mr_len r}) \<and>
      (\<forall>(a, l) \<in> set (kept_ranges bi (page_count s)). frame_bytes s x \<inter> {a..<a + l} = {})"
proof -
  obtain f z t where s: "s = add_stats f t" and ff: "\<And>u. ps_free (f u) = ps_free u"
    and sc: "scanned z (page_count z + 1) (page_count z + 1) t"
    and k: "\<And>x. x < page_count z \<Longrightarrow> \<not> reserved z x \<Longrightarrow>
      (\<exists>r \<in> set (bm_regions bi). mr_usable r \<and> frame_bytes z x \<subseteq> {mr_base r..<mr_base r + mr_len r}) \<and>
      (\<forall>(a, l) \<in> set (kept_ranges bi (page_count z)). frame_bytes z x \<inter> {a..<a + l} = {})"
    by (rule pmm_init_scanned [OF assms]) blast
  have t: "pmm_wf t (reserved_frames z)" "tame (reserved_frames z) t" "free_counted t"
    "page_count t = page_count z" "pm_base t = pm_base z"
    using sc by (simp_all add: scanned_def)
  have ps: "page_count s = page_count z" "pm_base s = pm_base z"
    by (simp_all add: s t(4,5))
  have "pmm_wf s (reserved_frames z)" "tame (reserved_frames z) s" "free_counted s"
    using t(1-3) by (simp_all add: s ff free_counted_def)
  then have "owned_with (reserved_frames z) s {}" by (simp add: owned_with_def)
  moreover have "reserved z x \<longleftrightarrow> (x, 0) \<in> reserved_frames z" if "x < page_count z" for x
    using that by (simp add: reserved_frames_def)
  ultimately show ?thesis
    using that [of "reserved_frames z"] k ps frame_bytes_cong [of s z] by simp
qed

lemma owned_avoids_reserved:
  assumes "owned_with R s H" "b \<in> H" "x \<in> frames_of b"
  shows "(x, 0) \<notin> R"
proof
  assume x: "(x, 0) \<in> R"
  have fam: "family (page_count s) (blocks s \<union> (H \<union> R))" and d: "H \<inter> R = {}"
    using assms(1) wf_family by (auto simp: owned_with_def)
  have "b \<noteq> (x, 0)" using x d assms(2) by blast
  then have "apart b (x, 0)" using fam x assms(2) by (auto simp: family_def pairwise_def)
  then show False using assms(3) by (simp add: apart_def frames_of_def)
qed

text \<open>
  C6. From the allocator that \<open>pmm_init\<close> starts, whatever blocks clients allocate and free:
  the blocks they hold are aligned to their size, inside the page array and pairwise
  disjoint, every frame of them lies in a region the firmware marked usable, and none
  overlaps the first MiB, the kernel image, the page array, the initial ramdisk, a boot
  module or an unusable region.
\<close>
theorem boot_allocations_safe:
  assumes "pmm_init bi = Some s"
    and "run_clients frame_alloc frame_free ops ([], s) = (H, s')"
  shows "distinct H \<and> pairwise apart (set H) \<and>
    (\<forall>b \<in> set H. block_ok (page_count s) b \<and> (\<forall>x \<in> frames_of b.
       (\<exists>r \<in> set (bm_regions bi). mr_usable r \<and> frame_bytes s x \<subseteq> {mr_base r..<mr_base r + mr_len r}) \<and>
       (\<forall>(a, l) \<in> set (kept_ranges bi (page_count s)). frame_bytes s x \<inter> {a..<a + l} = {})))"
proof -
  obtain R where o: "owned_with R s {}"
    and k: "\<And>x. x < page_count s \<Longrightarrow> (x, 0) \<notin> R \<Longrightarrow>
      (\<exists>r \<in> set (bm_regions bi). mr_usable r \<and> frame_bytes s x \<subseteq> {mr_base r..<mr_base r + mr_len r}) \<and>
      (\<forall>(a, l) \<in> set (kept_ranges bi (page_count s)). frame_bytes s x \<inter> {a..<a + l} = {})"
    by (rule boot_owned [OF assms(1)]) blast
  have d: "distinct H" "family (page_count s) (set H)" using buddy.run_disjoint [OF o assms(2)] by auto
  have w: "owned_with R s' (set H)" using buddy.run_owned [of R s "[]" ops H s'] o assms(2) by simp
  have "x < page_count s" if "b \<in> set H" "x \<in> frames_of b" for b x
    using family_block_ok [OF d(2) that(1)] that(2) by (auto simp: block_ok_def frames_of_def)
  then show ?thesis
    using d k owned_avoids_reserved [OF w] family_block_ok [OF d(2)] by (simp add: family_def)
qed

text \<open>
  C7. No page is lost: over any sequence of allocations and frees from start-up, the pages on
  the free lists and the pages the clients hold add up to the pages free at start-up, and the
  \<open>free_pages\<close> statistic is the number of pages on the free lists.
\<close>
theorem pages_conserved:
  assumes "pmm_init bi = Some s"
    and "run_clients frame_alloc frame_free ops ([], s) = (H, s')"
  shows "free_total s' + pages_held H = free_total s \<and>
    ps_free (pm_stats s') = of_nat (free_total s')"
proof -
  obtain R where o: "owned_with R s {}" by (rule boot_owned [OF assms(1)]) blast
  have "owned_with R s' (set H)" using buddy.run_owned [of R s "[]" ops H s'] o assms(2) by simp
  then show ?thesis
    using buddy.run_conserves [of R s "[]" ops H s'] o assms(2)
    by (simp add: owned_with_def free_counted_def)
qed

text \<open>
  An allocation fails only when no free block is large enough, and then changes nothing
  but the failure counter.
\<close>
theorem alloc_fails_iff:
  "frame_alloc order s = (None, s') \<longleftrightarrow>
     (\<forall>k. order \<le> k \<and> k \<le> RK_PMM_MAX_ORDER \<longrightarrow> pm_free s ! k = []) \<and>
     s' = add_stats (\<lambda>t. t\<lparr>ps_fails := ps_fails t + 1\<rparr>) s"
proof -
  have "pick_block s k 0 = None \<longleftrightarrow> pm_free s ! k = []" for k
    by (simp add: pick_block_def split: list.splits)
  then show ?thesis by (simp add: frame_alloc_def buddy_alloc_def alloc_from_none)
qed

lemma dma_pick:
  "alloc_from ord order flags s = (Some p, s') \<Longrightarrow> flags AND RK_PG_DMA \<noteq> 0 \<Longrightarrow>
     \<exists>k \<ge> ord. pmm_page_addr s p + 4096 * 2 ^ k \<le> DMA_LIMIT"
proof (induction ord order flags s rule: alloc_from.induct)
  case (1 ord order flags s)
  have ord: "\<not> RK_PMM_MAX_ORDER < ord"
    using 1(2) alloc_from_cases(1) [of ord order flags s] by auto
  show ?case
  proof (cases "pick_block s ord flags")
    case None
    have "alloc_from (ord + 1) order flags s = (Some p, s')"
      using 1(2) unfolding alloc_from_cases(2) [OF ord None] .
    from 1(1) [OF ord None this 1(3)] obtain k where "ord + 1 \<le> k" "pmm_page_addr s p + 4096 * 2 ^ k \<le> DMA_LIMIT"
      by blast
    then show ?thesis by (intro exI [of _ k]) simp
  next
    case (Some q)
    then have "q = p" using 1(2) alloc_from_cases(3) [OF ord Some] by simp
    then show ?thesis using Some 1(3) by (auto simp: pick_block_def find_Some_iff)
  qed
qed

lemma take_block_base [simp]: "pm_base (take_block p ord order s) = pm_base s"
proof -
  have "pm_base (split_down p k order s) = pm_base s" for p k s
    by (induction p k order s rule: split_down.induct) simp_all
  then show ?thesis by (simp add: take_block_def Let_def)
qed

text \<open>
  A block allocated for DMA ends at or below 16 MiB.
\<close>
theorem dma_below_limit:
  assumes "pmm_alloc_pages order flags s = (pa, s')" "pa \<noteq> 0" "flags AND RK_PG_DMA \<noteq> 0"
  shows "pa + 4096 * 2 ^ order \<le> DMA_LIMIT"
proof -
  obtain p where p: "alloc_from order order flags s = (Some p, s')" "pa = pmm_page_addr s' p"
    using assms(1,2) by (auto simp: pmm_alloc_pages_def buddy_alloc_def split: if_splits prod.splits option.splits)
  obtain k where k: "order \<le> k" "pmm_page_addr s p + 4096 * 2 ^ k \<le> DMA_LIMIT"
    using dma_pick [OF p(1) assms(3)] by blast
  have "pm_base s' = pm_base s" using alloc_from_some [OF p(1)] by auto
  then have "pa = pmm_page_addr s p" using p(2) by (simp add: pmm_page_addr_def)
  moreover have "(2::nat) ^ order \<le> 2 ^ k" using k(1) by simp
  ultimately show ?thesis using k(2) by linarith
qed

section \<open>A small machine\<close>

text \<open>Sixteen frames at 2 MiB, the kernel in the first, the page array in the second.\<close>

definition demo_map :: boot_map where
  "demo_map = \<lparr>bm_regions = [\<lparr>mr_base = 0x200000, mr_len = 0x10000, mr_usable = True\<rparr>],
     bm_kernel_start = 0x200000, bm_kernel_end = 0x201000, bm_initrd_start = 0, bm_initrd_end = 0,
     bm_modules = []\<rparr>"

lemma demo_starts: "pmm_init demo_map \<noteq> None"
  by code_simp

lemma demo_runs:
  "map_option (\<lambda>s. fst (run_clients frame_alloc frame_free [Alloc 1, Alloc 0, Free 1] ([], s)))
     (pmm_init demo_map) = Some [(4, 0)]"
  by code_simp

lemma demo_trace:
  obtains s s' where "pmm_init demo_map = Some s"
    "run_clients frame_alloc frame_free [Alloc 1, Alloc 0, Free 1] ([], s) = ([(4, 0)], s')"
proof -
  obtain s where s: "pmm_init demo_map = Some s" using demo_starts by blast
  obtain H s' where r: "run_clients frame_alloc frame_free [Alloc 1, Alloc 0, Free 1] ([], s) = (H, s')"
    by (cases "run_clients frame_alloc frame_free [Alloc 1, Alloc 0, Free 1] ([], s)")
  have "H = [(4, 0)]" using demo_runs by (simp only: s r option.map fst_conv option.inject)
  then show ?thesis using that s r by blast
qed

lemma boot_allocations_safe_witness:
  "\<exists>s s'. pmm_init demo_map = Some s \<and>
     run_clients frame_alloc frame_free [Alloc 1, Alloc 0, Free 1] ([], s) = ([(4, 0)], s') \<and>
     block_ok (page_count s) (4, 0)"
proof -
  obtain s s' where d: "pmm_init demo_map = Some s"
    "run_clients frame_alloc frame_free [Alloc 1, Alloc 0, Free 1] ([], s) = ([(4, 0)], s')"
    by (rule demo_trace)
  show ?thesis using boot_allocations_safe [OF d] d by simp
qed

lemma pages_conserved_witness:
  "\<exists>s s'. pmm_init demo_map = Some s \<and>
     run_clients frame_alloc frame_free [Alloc 1, Alloc 0, Free 1] ([], s) = ([(4, 0)], s') \<and>
     free_total s' + 1 = free_total s"
proof -
  obtain s s' where d: "pmm_init demo_map = Some s"
    "run_clients frame_alloc frame_free [Alloc 1, Alloc 0, Free 1] ([], s) = ([(4, 0)], s')"
    by (rule demo_trace)
  show ?thesis using pages_conserved [OF d] d by simp
qed

lemma demo_dma: "map_option (\<lambda>s. fst (pmm_alloc_pages 0 RK_PG_DMA s)) (pmm_init demo_map) = Some 0x202000"
  by code_simp

lemma dma_below_limit_witness:
  "\<exists>s s'. pmm_init demo_map = Some s \<and> pmm_alloc_pages 0 RK_PG_DMA s = (0x202000, s') \<and>
     (0x202000 :: nat) + 4096 * 2 ^ 0 \<le> DMA_LIMIT"
proof -
  obtain s where s: "pmm_init demo_map = Some s" using demo_starts by blast
  obtain pa s' where r: "pmm_alloc_pages 0 RK_PG_DMA s = (pa, s')" by (cases "pmm_alloc_pages 0 RK_PG_DMA s")
  have pa: "pa = 0x202000" using demo_dma by (simp only: s r option.map fst_conv option.inject)
  have "RK_PG_DMA AND RK_PG_DMA \<noteq> 0" by (simp add: RK_PG_DMA_def)
  then show ?thesis using dma_below_limit [OF r] s r pa by simp
qed

section \<open>A double free that goes unnoticed\<close>


end
