(* ===== verification/RK_Vfs.thy ===== *)
theory RK_Vfs
  imports RK_Prelude
begin

text \<open>
  The virtual file system core (\<open>kernel/fs/vfs.c\<close>, \<open>include/rk/vfs.h\<close>). Vnodes and mounts
  are indices into two heaps that only grow; \<open>vn_live\<close> says that the vnode's memory has not
  been released, and a released vnode reads as it was (memory not yet reused). A vnode holds
  the fields of \<open>struct rk_vnode\<close> and those \<open>struct ramfs_node\<close> wraps around it. File
  systems are tables of operations, as in the code: \<open>vnode_ops\<close> and \<open>fs_type\<close> hold functions
  on the whole state, an absent operation is \<open>None\<close>. Sizes and offsets are naturals below
  \<open>2 ^ 64\<close>. A write or truncate that never returns is the value \<open>None\<close>.
\<close>

section \<open>State\<close>

datatype ftype = FT_NONE | FT_REG | FT_DIR | FT_CHR | FT_BLK | FT_LINK | FT_FIFO | FT_SOCK | FT_GRAPH

definition RK_NAME_MAX :: nat where "RK_NAME_MAX = 255"
definition RK_PATH_MAX :: nat where "RK_PATH_MAX = 1024"

definition RK_O_READ :: u32 where "RK_O_READ = 1"
definition RK_O_WRITE :: u32 where "RK_O_WRITE = 2"
definition RK_O_CREAT :: u32 where "RK_O_CREAT = 4"
definition RK_O_EXCL :: u32 where "RK_O_EXCL = 8"
definition RK_O_TRUNC :: u32 where "RK_O_TRUNC = 16"
definition RK_O_APPEND :: u32 where "RK_O_APPEND = 32"
definition RK_O_DIR :: u32 where "RK_O_DIR = 64"

definition on :: "u32 \<Rightarrow> u32 \<Rightarrow> bool" where
  "on flags f \<longleftrightarrow> flags AND f \<noteq> 0"

record vnode =
  vn_live :: bool
  vn_ino :: u64
  vn_type :: ftype
  vn_mode :: u32
  vn_size :: nat
  vn_atime :: int
  vn_mtime :: int
  vn_ctime :: int
  vn_ops :: nat
  vn_mount :: "nat option"
  vn_refcount :: u32
  vn_mounted_here :: "nat option"
  rn_children :: "nat list"
  rn_parent :: "nat option"
  rn_name :: string
  rn_data :: "u8 list"

record rk_mount =
  mt_path :: string
  mt_type :: nat
  mt_root :: "nat option"
  mt_covered :: "nat option"
  mt_flags :: u32

record vfs_stats =
  vs_opens :: u64
  vs_reads :: u64
  vs_writes :: u64
  vs_lookups :: u64
  vs_creates :: u64
  vs_unlinks :: u64
  vs_vnodes_live :: u64

record vfs =
  vf_nodes :: "vnode list"
  vf_mounts :: "rk_mount list"
  vf_mounted :: "nat list"
  vf_types :: "nat list"
  vf_root :: "nat option"
  vf_next_ino :: u64
  vf_stats :: vfs_stats

record rk_file =
  fl_vnode :: nat
  fl_pos :: nat
  fl_flags :: u32
  fl_rights :: u32
  fl_refcount :: u32

record rk_stat =
  st_size :: nat
  st_blocks :: nat
  st_type :: ftype
  st_mode :: u32
  st_nlink :: u32
  st_ino :: u64
  st_atime :: int
  st_mtime :: int
  st_ctime :: int

record rk_dirent =
  de_name :: string
  de_ino :: u64
  de_type :: ftype

record vnode_ops =
  vo_lookup :: "(nat \<Rightarrow> string \<Rightarrow> vfs \<Rightarrow> nat result \<times> vfs) option"
  vo_create :: "(nat \<Rightarrow> string \<Rightarrow> ftype \<Rightarrow> u32 \<Rightarrow> vfs \<Rightarrow> nat result \<times> vfs) option"
  vo_unlink :: "(nat \<Rightarrow> string \<Rightarrow> vfs \<Rightarrow> unit result \<times> vfs) option"
  vo_read :: "(nat \<Rightarrow> nat \<Rightarrow> nat \<Rightarrow> vfs \<Rightarrow> u8 list result \<times> vfs) option"
  vo_write :: "(nat \<Rightarrow> u8 list \<Rightarrow> nat \<Rightarrow> vfs \<Rightarrow> (nat result \<times> vfs) option) option"
  vo_truncate :: "(nat \<Rightarrow> nat \<Rightarrow> vfs \<Rightarrow> (unit result \<times> vfs) option) option"
  vo_readdir :: "(nat \<Rightarrow> nat \<Rightarrow> vfs \<Rightarrow> rk_dirent result) option"
  vo_stat :: "(nat \<Rightarrow> vfs \<Rightarrow> rk_stat result) option"
  vo_release :: "(nat \<Rightarrow> vfs \<Rightarrow> vfs) option"

record fs_type =
  ft_name :: string
  ft_mount :: "nat \<Rightarrow> string \<Rightarrow> string \<Rightarrow> vfs \<Rightarrow> unit result \<times> vfs"
  ft_umount :: "(nat \<Rightarrow> vfs \<Rightarrow> vfs) option"

text \<open>What the core is given: the operation tables, and whether an allocation succeeds.\<close>

record vfs_env =
  ve_ops :: "nat \<Rightarrow> vnode_ops"
  ve_type :: "nat \<Rightarrow> fs_type"
  ve_file_mem :: bool
  ve_mount_mem :: bool

definition node_at :: "vfs \<Rightarrow> nat \<Rightarrow> vnode" where
  "node_at s v = vf_nodes s ! v"

definition set_node :: "nat \<Rightarrow> (vnode \<Rightarrow> vnode) \<Rightarrow> vfs \<Rightarrow> vfs" where
  "set_node v f s = s\<lparr>vf_nodes := (vf_nodes s)[v := f (vf_nodes s ! v)]\<rparr>"

definition count_op :: "(vfs_stats \<Rightarrow> vfs_stats) \<Rightarrow> vfs \<Rightarrow> vfs" where
  "count_op f s = s\<lparr>vf_stats := f (vf_stats s)\<rparr>"

definition ops_of :: "vfs_env \<Rightarrow> vfs \<Rightarrow> nat \<Rightarrow> vnode_ops" where
  "ops_of e s v = ve_ops e (vn_ops (node_at s v))"

definition rk_vfs_next_ino :: "vfs \<Rightarrow> u64 \<times> vfs" where
  "rk_vfs_next_ino s = (vf_next_ino s + 1, s\<lparr>vf_next_ino := vf_next_ino s + 1\<rparr>)"

definition rk_vfs_register :: "nat \<Rightarrow> vfs \<Rightarrow> vfs" where
  "rk_vfs_register t s = s\<lparr>vf_types := vf_types s @ [t]\<rparr>"

definition fs_find :: "vfs_env \<Rightarrow> string \<Rightarrow> vfs \<Rightarrow> nat option" where
  "fs_find e name s = find (\<lambda>t. ft_name (ve_type e t) = name) (vf_types s)"

section \<open>References\<close>

definition rk_vnode_get :: "nat \<Rightarrow> vfs \<Rightarrow> vfs" where
  "rk_vnode_get v = set_node v (\<lambda>n. n\<lparr>vn_refcount := vn_refcount n + 1\<rparr>)"

text \<open>\<open>release\<close> stands for the call \<open>v->ops->release(v)\<close>.\<close>

definition vnode_put_with :: "(nat \<Rightarrow> vfs \<Rightarrow> vfs) \<Rightarrow> nat \<Rightarrow> vfs \<Rightarrow> vfs" where
  "vnode_put_with release v s =
     (let s = set_node v (\<lambda>n. n\<lparr>vn_refcount := vn_refcount n - 1\<rparr>) s in
      if vn_refcount (node_at s v) = 0
      then count_op (\<lambda>t. if vs_vnodes_live t \<noteq> 0 then t\<lparr>vs_vnodes_live := vs_vnodes_live t - 1\<rparr> else t)
             (release v s)
      else s)"

definition rk_vnode_put :: "vfs_env \<Rightarrow> nat \<Rightarrow> vfs \<Rightarrow> vfs" where
  "rk_vnode_put e v s =
     vnode_put_with (\<lambda>v s. case vo_release (ops_of e s v) of None \<Rightarrow> s | Some rel \<Rightarrow> rel v s) v s"

section \<open>Path resolution\<close>

text \<open>The next component and what follows it.\<close>

definition next_component :: "string \<Rightarrow> string \<times> string" where
  "next_component p =
     (let q = dropWhile (\<lambda>c. c = CHR ''/'') p
      in (takeWhile (\<lambda>c. c \<noteq> CHR ''/'') q, dropWhile (\<lambda>c. c \<noteq> CHR ''/'') q))"

text \<open>The file system mounted on a vnode, if any.\<close>

definition mounted_root :: "vfs \<Rightarrow> nat \<Rightarrow> nat option" where
  "mounted_root s v =
     (case vn_mounted_here (node_at s v) of None \<Rightarrow> None | Some m \<Rightarrow> mt_root (vf_mounts s ! m))"

text \<open>The loop follows one mount at a time; it passes each mount at most once.\<close>

fun cross_from :: "nat \<Rightarrow> vfs \<Rightarrow> nat \<Rightarrow> nat" where
  "cross_from 0 s v = v"
| "cross_from (Suc k) s v = (case mounted_root s v of None \<Rightarrow> v | Some r \<Rightarrow> cross_from k s r)"

definition cross_mount :: "vfs \<Rightarrow> nat \<Rightarrow> nat" where
  "cross_mount s v = cross_from (length (vf_nodes s)) s v"

text \<open>One component: the vnode and depth to go on from, or the error.\<close>

definition resolve_up :: "vfs_env \<Rightarrow> nat \<Rightarrow> vfs \<Rightarrow> nat \<times> vfs" where
  "resolve_up e cur s =
     (case vo_lookup (ops_of e s cur) of
        None \<Rightarrow> (cur, s)
      | Some look \<Rightarrow>
          (case look cur ''..'' s of
             (Inl _, s) \<Rightarrow> (cur, s)
           | (Inr parent, s) \<Rightarrow>
               let s = rk_vnode_put e cur s in (cross_mount s parent, s)))"

definition resolve_down :: "vfs_env \<Rightarrow> nat \<Rightarrow> string \<Rightarrow> vfs \<Rightarrow> nat result \<times> vfs" where
  "resolve_down e cur part s =
     (if vn_type (node_at s cur) \<noteq> FT_DIR then (Inl ENOTDIR, rk_vnode_put e cur s)
      else if RK_NAME_MAX < length part then (Inl E2BIG, rk_vnode_put e cur s)
      else
        let (r, s) = (case vo_lookup (ops_of e s cur) of
               None \<Rightarrow> (Inl ENOSYS, s) | Some look \<Rightarrow> look cur part s);
            s = count_op (\<lambda>t. t\<lparr>vs_lookups := vs_lookups t + 1\<rparr>) s
        in case r of
             Inl _ \<Rightarrow> (Inl ENOENT, rk_vnode_put e cur s)
           | Inr child \<Rightarrow> let s = rk_vnode_put e cur s in (Inr (cross_mount s child), s))"

definition resolve_step :: "vfs_env \<Rightarrow> nat \<Rightarrow> nat \<Rightarrow> string \<Rightarrow> vfs \<Rightarrow> (nat \<times> nat) result \<times> vfs" where
  "resolve_step e cur depth part s =
     (if part = ''.'' then (Inr (cur, depth), s)
      else if part = ''..'' then
        if depth = 0 then (Inr (cur, depth), s)
        else case resolve_up e cur s of (cur, s) \<Rightarrow> (Inr (cur, depth - 1), s)
      else case resolve_down e cur part s of
        (Inl err, s) \<Rightarrow> (Inl err, s)
      | (Inr child, s) \<Rightarrow> (Inr (child, depth + 1), s))"

lemma next_component_shrinks:
  assumes "fst (next_component p) \<noteq> []"
  shows "length (snd (next_component p)) < length p"
proof -
  define q where "q = dropWhile (\<lambda>c. c = CHR ''/'') p"
  have "length (takeWhile (\<lambda>c. c \<noteq> CHR ''/'') q) + length (dropWhile (\<lambda>c. c \<noteq> CHR ''/'') q) = length q"
    by (metis length_append takeWhile_dropWhile_id)
  moreover have "length q \<le> length p" unfolding q_def by (rule length_dropWhile_le)
  moreover have "0 < length (takeWhile (\<lambda>c. c \<noteq> CHR ''/'') q)"
    using assms by (simp add: next_component_def Let_def q_def)
  ultimately show ?thesis unfolding next_component_def Let_def q_def [symmetric] snd_conv by linarith
qed

function resolve_walk :: "vfs_env \<Rightarrow> nat \<Rightarrow> nat \<Rightarrow> string \<Rightarrow> vfs \<Rightarrow> nat result \<times> vfs" where
  "resolve_walk e cur depth p s =
     (if fst (next_component p) = [] then (Inr cur, s)
      else case resolve_step e cur depth (fst (next_component p)) s of
        (Inl err, s') \<Rightarrow> (Inl err, s')
      | (Inr (cur', depth'), s') \<Rightarrow> resolve_walk e cur' depth' (snd (next_component p)) s')"
  by pat_completeness auto
termination
  by (relation "measure (\<lambda>(e, cur, depth, p, s). length p)") (auto dest: next_component_shrinks)

declare resolve_walk.simps [simp del]

definition is_absolute :: "string \<Rightarrow> bool" where
  "is_absolute path \<longleftrightarrow> (case path of [] \<Rightarrow> False | c # _ \<Rightarrow> c = CHR ''/'')"

definition rk_vfs_resolve :: "vfs_env \<Rightarrow> nat option \<Rightarrow> string \<Rightarrow> vfs \<Rightarrow> nat result \<times> vfs" where
  "rk_vfs_resolve e base path s =
     (case (if is_absolute path \<or> base = None then vf_root s else base) of
        None \<Rightarrow> (Inl ENOENT, s)
      | Some cur \<Rightarrow>
          let cur = cross_mount s cur; s = rk_vnode_get cur s
          in resolve_walk e cur 0 path s)"

text \<open>\<open>strrchr\<close>: what precedes the last slash, and what follows it.\<close>

definition split_last :: "string \<Rightarrow> (string \<times> string) option" where
  "split_last path =
     (if CHR ''/'' \<in> set path
      then Some (rev (tl (dropWhile (\<lambda>c. c \<noteq> CHR ''/'') (rev path))),
                 rev (takeWhile (\<lambda>c. c \<noteq> CHR ''/'') (rev path)))
      else None)"

definition resolve_parent :: "vfs_env \<Rightarrow> nat option \<Rightarrow> string \<Rightarrow> vfs \<Rightarrow> (nat \<times> string) result \<times> vfs" where
  "resolve_parent e base path s =
     (case split_last path of
        None \<Rightarrow>
          (case (if base = None then vf_root s else base) of
             None \<Rightarrow> (Inl ENOENT, s)
           | Some v \<Rightarrow> (Inr (v, take RK_NAME_MAX path), rk_vnode_get v s))
      | Some (dir, name) \<Rightarrow>
          if RK_PATH_MAX \<le> length dir then (Inl E2BIG, s)
          else (case rk_vfs_resolve e base (if dir = [] then ''/'' else dir) s of
              (Inl err, s) \<Rightarrow> (Inl err, s)
            | (Inr v, s) \<Rightarrow> (Inr (v, take RK_NAME_MAX name), s)))"

section \<open>Opening\<close>

definition create_in :: "vfs_env \<Rightarrow> nat option \<Rightarrow> string \<Rightarrow> ftype \<Rightarrow> u32 \<Rightarrow> vfs \<Rightarrow> nat result \<times> vfs" where
  "create_in e base path ty mode s =
     (case resolve_parent e base path s of
        (Inl err, s) \<Rightarrow> (Inl err, s)
      | (Inr (dir, name), s) \<Rightarrow>
          (case vo_create (ops_of e s dir) of
             None \<Rightarrow> (Inl ENOSYS, rk_vnode_put e dir s)
           | Some mk \<Rightarrow>
               let (r, s) = mk dir name ty mode s; s = rk_vnode_put e dir s
               in (r, count_op (\<lambda>t. t\<lparr>vs_creates := vs_creates t + 1\<rparr>) s)))"

text \<open>The vnode that \<open>rk_vfs_open\<close> opens: resolved, or created.\<close>

definition open_vnode :: "vfs_env \<Rightarrow> nat option \<Rightarrow> string \<Rightarrow> u32 \<Rightarrow> u32 \<Rightarrow> vfs \<Rightarrow> nat result \<times> vfs" where
  "open_vnode e base path flags mode s =
     (case rk_vfs_resolve e base path s of
        (Inl err, s) \<Rightarrow>
          if on flags RK_O_CREAT then create_in e base path FT_REG mode s else (Inl err, s)
      | (Inr v, s) \<Rightarrow>
          if on flags RK_O_CREAT \<and> on flags RK_O_EXCL then (Inl EEXIST, rk_vnode_put e v s)
          else (Inr v, s))"

definition rk_vfs_open :: "vfs_env \<Rightarrow> nat option \<Rightarrow> string \<Rightarrow> u32 \<Rightarrow> u32 \<Rightarrow> vfs \<Rightarrow> (rk_file result \<times> vfs) option" where
  "rk_vfs_open e base path flags mode s =
     (case open_vnode e base path flags mode s of
        (Inl err, s) \<Rightarrow> Some (Inl err, s)
      | (Inr v, s) \<Rightarrow>
          if on flags RK_O_DIR \<and> vn_type (node_at s v) \<noteq> FT_DIR then Some (Inl ENOTDIR, rk_vnode_put e v s)
          else if vn_type (node_at s v) = FT_DIR \<and> on flags RK_O_WRITE then Some (Inl EISDIR, rk_vnode_put e v s)
          else
            (case (case vo_truncate (ops_of e s v) of
                    Some trunc \<Rightarrow> if on flags RK_O_TRUNC then map_option snd (trunc v 0 s) else Some s
                  | None \<Rightarrow> Some s) of
              None \<Rightarrow> None
            | Some s \<Rightarrow>
                Some (if \<not> ve_file_mem e then (Inl ENOMEM, rk_vnode_put e v s)
                  else (Inr \<lparr>fl_vnode = v, fl_pos = (if on flags RK_O_APPEND then vn_size (node_at s v) else 0),
                             fl_flags = flags, fl_rights = flags AND (RK_O_READ OR RK_O_WRITE), fl_refcount = 1\<rparr>,
                        count_op (\<lambda>t. t\<lparr>vs_opens := vs_opens t + 1\<rparr>) s))))"

section \<open>Files\<close>

definition rk_file_get :: "rk_file \<Rightarrow> rk_file" where
  "rk_file_get f = f\<lparr>fl_refcount := fl_refcount f + 1\<rparr>"

definition rk_file_put :: "vfs_env \<Rightarrow> rk_file \<Rightarrow> vfs \<Rightarrow> rk_file \<times> vfs" where
  "rk_file_put e f s =
     (let f = f\<lparr>fl_refcount := fl_refcount f - 1\<rparr>
      in (f, if fl_refcount f = 0 then rk_vnode_put e (fl_vnode f) s else s))"

definition rk_file_pread :: "vfs_env \<Rightarrow> rk_file \<Rightarrow> nat \<Rightarrow> nat \<Rightarrow> vfs \<Rightarrow> u8 list result \<times> vfs" where
  "rk_file_pread e f n off s =
     (if \<not> on (fl_flags f) RK_O_READ then (Inl EACCES, s)
      else case vo_read (ops_of e s (fl_vnode f)) of
        None \<Rightarrow> (Inl ENOSYS, s)
      | Some rd \<Rightarrow> rd (fl_vnode f) n off (count_op (\<lambda>t. t\<lparr>vs_reads := vs_reads t + 1\<rparr>) s))"

definition rk_file_pwrite :: "vfs_env \<Rightarrow> rk_file \<Rightarrow> u8 list \<Rightarrow> nat \<Rightarrow> vfs \<Rightarrow> (nat result \<times> vfs) option" where
  "rk_file_pwrite e f buf off s =
     (if \<not> on (fl_flags f) RK_O_WRITE then Some (Inl EACCES, s)
      else case vo_write (ops_of e s (fl_vnode f)) of
        None \<Rightarrow> Some (Inl ENOSYS, s)
      | Some wr \<Rightarrow> wr (fl_vnode f) buf off (count_op (\<lambda>t. t\<lparr>vs_writes := vs_writes t + 1\<rparr>) s))"

definition rk_file_read :: "vfs_env \<Rightarrow> rk_file \<Rightarrow> nat \<Rightarrow> vfs \<Rightarrow> u8 list result \<times> rk_file \<times> vfs" where
  "rk_file_read e f n s =
     (case rk_file_pread e f n (fl_pos f) s of
        (Inl err, s) \<Rightarrow> (Inl err, f, s)
      | (Inr bs, s) \<Rightarrow> (Inr bs, f\<lparr>fl_pos := (fl_pos f + length bs) mod 2 ^ 64\<rparr>, s))"

definition rk_file_write :: "vfs_env \<Rightarrow> rk_file \<Rightarrow> u8 list \<Rightarrow> vfs \<Rightarrow> (nat result \<times> rk_file \<times> vfs) option" where
  "rk_file_write e f buf s =
     (case rk_file_pwrite e f buf (fl_pos f) s of
        None \<Rightarrow> None
      | Some (Inl err, s) \<Rightarrow> Some (Inl err, f, s)
      | Some (Inr n, s) \<Rightarrow> Some (Inr n, f\<lparr>fl_pos := (fl_pos f + n) mod 2 ^ 64\<rparr>, s))"

datatype whence = SEEK_SET | SEEK_CUR | SEEK_END | SEEK_OTHER

definition rk_file_seek :: "rk_file \<Rightarrow> int \<Rightarrow> whence \<Rightarrow> vfs \<Rightarrow> int result \<times> rk_file" where
  "rk_file_seek f off wh s =
     (case (case wh of
              SEEK_SET \<Rightarrow> Some 0
            | SEEK_CUR \<Rightarrow> Some (s64_wrap (int (fl_pos f)))
            | SEEK_END \<Rightarrow> Some (s64_wrap (int (vn_size (node_at s (fl_vnode f)))))
            | SEEK_OTHER \<Rightarrow> None) of
        None \<Rightarrow> (Inl EINVAL, f)
      | Some base \<Rightarrow>
          let np = s64_wrap (base + off)
          in if np < 0 then (Inl EINVAL, f) else (Inr np, f\<lparr>fl_pos := nat np\<rparr>))"

definition plain_stat :: "vnode \<Rightarrow> rk_stat" where
  "plain_stat n = \<lparr>st_size = vn_size n, st_blocks = 0, st_type = vn_type n, st_mode = vn_mode n,
     st_nlink = 0, st_ino = vn_ino n, st_atime = 0, st_mtime = 0, st_ctime = 0\<rparr>"

definition rk_file_stat :: "vfs_env \<Rightarrow> rk_file \<Rightarrow> vfs \<Rightarrow> rk_stat result" where
  "rk_file_stat e f s =
     (case vo_stat (ops_of e s (fl_vnode f)) of
        Some get_stat \<Rightarrow> get_stat (fl_vnode f) s
      | None \<Rightarrow> Inr ((plain_stat (node_at s (fl_vnode f)))\<lparr>st_mtime := vn_mtime (node_at s (fl_vnode f))\<rparr>))"

definition rk_file_readdir :: "vfs_env \<Rightarrow> rk_file \<Rightarrow> vfs \<Rightarrow> rk_dirent result \<times> rk_file" where
  "rk_file_readdir e f s =
     (if vn_type (node_at s (fl_vnode f)) \<noteq> FT_DIR then (Inl ENOTDIR, f)
      else case vo_readdir (ops_of e s (fl_vnode f)) of
        None \<Rightarrow> (Inl ENOSYS, f)
      | Some list_dir \<Rightarrow>
          (case list_dir (fl_vnode f) (fl_pos f) s of
             Inl err \<Rightarrow> (Inl err, f)
           | Inr d \<Rightarrow> (Inr d, f\<lparr>fl_pos := (fl_pos f + 1) mod 2 ^ 64\<rparr>)))"

section \<open>Directories\<close>

definition rk_vfs_mkdir :: "vfs_env \<Rightarrow> nat option \<Rightarrow> string \<Rightarrow> u32 \<Rightarrow> vfs \<Rightarrow> unit result \<times> vfs" where
  "rk_vfs_mkdir e base path mode s =
     (case create_in e base path FT_DIR mode s of
        (Inl err, s) \<Rightarrow> (Inl err, s)
      | (Inr made, s) \<Rightarrow> (Inr (), rk_vnode_put e made s))"

definition rk_vfs_unlink :: "vfs_env \<Rightarrow> nat option \<Rightarrow> string \<Rightarrow> vfs \<Rightarrow> unit result \<times> vfs" where
  "rk_vfs_unlink e base path s =
     (case resolve_parent e base path s of
        (Inl err, s) \<Rightarrow> (Inl err, s)
      | (Inr (dir, name), s) \<Rightarrow>
          (case vo_unlink (ops_of e s dir) of
             None \<Rightarrow> (Inl ENOSYS, rk_vnode_put e dir s)
           | Some rm \<Rightarrow>
               let (r, s) = rm dir name s; s = rk_vnode_put e dir s
               in (r, count_op (\<lambda>t. t\<lparr>vs_unlinks := vs_unlinks t + 1\<rparr>) s)))"

definition rk_vfs_stat :: "vfs_env \<Rightarrow> nat option \<Rightarrow> string \<Rightarrow> vfs \<Rightarrow> rk_stat result \<times> vfs" where
  "rk_vfs_stat e base path s =
     (case rk_vfs_resolve e base path s of
        (Inl err, s) \<Rightarrow> (Inl err, s)
      | (Inr v, s) \<Rightarrow>
          ((case vo_stat (ops_of e s v) of
              Some get_stat \<Rightarrow> get_stat v s | None \<Rightarrow> Inr (plain_stat (node_at s v))), rk_vnode_put e v s))"

section \<open>Mounting\<close>

definition rk_vfs_mount :: "vfs_env \<Rightarrow> string \<Rightarrow> string \<Rightarrow> string \<Rightarrow> u32 \<Rightarrow> string \<Rightarrow> vfs \<Rightarrow> unit result \<times> vfs" where
  "rk_vfs_mount e source target fstype flags opts s =
     (case fs_find e fstype s of None \<Rightarrow> (Inl ENODEV, s)
      | Some t \<Rightarrow>
          if \<not> ve_mount_mem e then (Inl ENOMEM, s)
          else
            let m = length (vf_mounts s);
                s = s\<lparr>vf_mounts := vf_mounts s @
                       [\<lparr>mt_path = take (RK_PATH_MAX - 1) target, mt_type = t, mt_root = None,
                         mt_covered = None, mt_flags = flags\<rparr>]\<rparr>
            in (case ft_mount (ve_type e t) m source opts s of
                (Inl err, s) \<Rightarrow> (Inl err, s)
              | (Inr _, s) \<Rightarrow>
                  if target = ''/'' then
                    (Inr (), s\<lparr>vf_root := mt_root (vf_mounts s ! m), vf_mounted := vf_mounted s @ [m]\<rparr>)
                  else (case rk_vfs_resolve e None target s of
                      (Inl err, s) \<Rightarrow>
                        (Inl err, (case ft_umount (ve_type e t) of None \<Rightarrow> s | Some um \<Rightarrow> um m s))
                    | (Inr cover, s) \<Rightarrow>
                        let s = s\<lparr>vf_mounts := (vf_mounts s)[m := (vf_mounts s ! m)\<lparr>mt_covered := Some cover\<rparr>]\<rparr>;
                            s = set_node cover (\<lambda>n. n\<lparr>vn_mounted_here := Some m\<rparr>) s
                        in (Inr (), s\<lparr>vf_mounted := vf_mounted s @ [m]\<rparr>))))"

definition rk_vfs_umount :: "vfs_env \<Rightarrow> string \<Rightarrow> vfs \<Rightarrow> unit result \<times> vfs" where
  "rk_vfs_umount e target s =
     (case find (\<lambda>m. mt_path (vf_mounts s ! m) = target) (vf_mounted s) of
        None \<Rightarrow> (Inl ENOENT, s)
      | Some m \<Rightarrow>
          let s = (case mt_covered (vf_mounts s ! m) of
                     None \<Rightarrow> s | Some v \<Rightarrow> set_node v (\<lambda>n. n\<lparr>vn_mounted_here := None\<rparr>) s);
              s = (case ft_umount (ve_type e (mt_type (vf_mounts s ! m))) of
                     None \<Rightarrow> s | Some um \<Rightarrow> um m s)
          in (Inr (), s\<lparr>vf_mounted := remove1 m (vf_mounted s)\<rparr>))"

section \<open>Whole files\<close>

definition rk_vfs_write_file :: "vfs_env \<Rightarrow> string \<Rightarrow> u8 list \<Rightarrow> vfs \<Rightarrow> (unit result \<times> vfs) option" where
  "rk_vfs_write_file e path buf s =
     (case rk_vfs_open e None path (RK_O_WRITE OR RK_O_CREAT OR RK_O_TRUNC) 0x1A4 s of
        None \<Rightarrow> None
      | Some (Inl err, s) \<Rightarrow> Some (Inl err, s)
      | Some (Inr f, s) \<Rightarrow>
          (case rk_file_pwrite e f buf 0 s of
             None \<Rightarrow> None
           | Some (r, s) \<Rightarrow>
               Some (case r of Inl err \<Rightarrow> Inl err | Inr _ \<Rightarrow> Inr (), snd (rk_file_put e f s))))"

text \<open>The reading loop: the buffer doubles while less than two bytes of it are left; \<open>mem\<close> says
  whether a buffer of a given size can be had. A generated file may never end.\<close>

partial_function (option) read_all ::
  "vfs_env \<Rightarrow> (nat \<Rightarrow> bool) \<Rightarrow> rk_file \<Rightarrow> nat \<Rightarrow> u8 list \<Rightarrow> vfs \<Rightarrow> (u8 list result \<times> vfs) option" where
  "read_all e mem f cap buf s =
     (let grow = cap \<le> length buf + 1 in
      if grow \<and> \<not> mem (cap * 2) then Some (Inl ENOMEM, snd (rk_file_put e f s))
      else
        let cap = (if grow then cap * 2 else cap) in
        case rk_file_pread e f (cap - length buf - 1) (length buf) s of
          (Inl err, s) \<Rightarrow> Some (Inl err, snd (rk_file_put e f s))
        | (Inr got, s) \<Rightarrow>
            if got = [] then Some (Inr buf, snd (rk_file_put e f s))
            else read_all e mem f cap (buf @ got) s)"

definition rk_vfs_read_file :: "vfs_env \<Rightarrow> (nat \<Rightarrow> bool) \<Rightarrow> string \<Rightarrow> vfs \<Rightarrow> (u8 list result \<times> vfs) option" where
  "rk_vfs_read_file e mem path s =
     (case rk_vfs_open e None path RK_O_READ 0 s of
        None \<Rightarrow> None
      | Some (Inl err, s) \<Rightarrow> Some (Inl err, s)
      | Some (Inr f, s) \<Rightarrow>
          let size = (case rk_file_stat e f s of Inr st \<Rightarrow> st_size st | Inl _ \<Rightarrow> 0);
              cap = (if size \<noteq> 0 then size + 1 else 4096)
          in if \<not> mem cap then Some (Inl ENOMEM, snd (rk_file_put e f s))
             else read_all e mem f cap [] s)"

definition vfs_empty :: vfs where
  "vfs_empty = \<lparr>vf_nodes = [], vf_mounts = [], vf_mounted = [], vf_types = [], vf_root = None, vf_next_ino = 1,
     vf_stats = \<lparr>vs_opens = 0, vs_reads = 0, vs_writes = 0, vs_lookups = 0, vs_creates = 0, vs_unlinks = 0,
                 vs_vnodes_live = 0\<rparr>\<rparr>"

end
