(* ===== verification/RK_Ramfs.thy ===== *)
theory RK_Ramfs
  imports RK_Vfs
begin

text \<open>
  The in-memory file system (\<open>kernel/fs/ramfs.c\<close>). \<open>rn_data\<close> is the whole buffer of a file, its
  length the node's capacity; the file's contents are the first \<open>vn_size\<close> bytes. \<open>mem\<close> says
  whether an allocation of a given size succeeds, \<open>now\<close> is the clock.
\<close>

section \<open>Nodes\<close>

definition ramfs_id :: nat where "ramfs_id = 0"

definition blank_node :: vnode where
  "blank_node = \<lparr>vn_live = True, vn_ino = 0, vn_type = FT_NONE, vn_mode = 0, vn_size = 0, vn_atime = 0,
     vn_mtime = 0, vn_ctime = 0, vn_ops = ramfs_id, vn_mount = None, vn_refcount = 1,
     vn_mounted_here = None, rn_children = [], rn_parent = None, rn_name = [], rn_data = []\<rparr>"

definition ramfs_new :: "bool \<Rightarrow> int \<Rightarrow> string \<Rightarrow> ftype \<Rightarrow> u32 \<Rightarrow> nat option \<Rightarrow> vfs \<Rightarrow> nat option \<times> vfs" where
  "ramfs_new have_mem now name ty mode parent s =
     (if \<not> have_mem then (None, s)
      else
        let (ino, s) = rk_vfs_next_ino s;
            v = length (vf_nodes s);
            n = blank_node\<lparr>vn_ino := ino, vn_type := ty, vn_mode := mode, rn_name := take RK_NAME_MAX name,
                  rn_parent := parent, vn_atime := now, vn_mtime := now, vn_ctime := now\<rparr>;
            s = s\<lparr>vf_nodes := vf_nodes s @ [n]\<rparr>;
            s = (case parent of None \<Rightarrow> s
                 | Some d \<Rightarrow> set_node d (\<lambda>n. n\<lparr>rn_children := rn_children n @ [v]\<rparr>) s)
        in (Some v, s))"

definition find_child :: "vfs \<Rightarrow> nat \<Rightarrow> string \<Rightarrow> nat option" where
  "find_child s d name = find (\<lambda>c. rn_name (node_at s c) = name) (rn_children (node_at s d))"

definition ramfs_lookup :: "nat \<Rightarrow> string \<Rightarrow> vfs \<Rightarrow> nat result \<times> vfs" where
  "ramfs_lookup d name s =
     (if name = ''.'' then (Inr d, rk_vnode_get d s)
      else if name = ''..'' then
        let p = (case rn_parent (node_at s d) of None \<Rightarrow> d | Some p \<Rightarrow> p) in (Inr p, rk_vnode_get p s)
      else case find_child s d name of
        None \<Rightarrow> (Inl ENOENT, s)
      | Some c \<Rightarrow> (Inr c, rk_vnode_get c s))"

definition ramfs_release :: "nat \<Rightarrow> vfs \<Rightarrow> vfs" where
  "ramfs_release v = set_node v (\<lambda>n. n\<lparr>vn_live := False\<rparr>)"

definition set_mtime :: "int \<Rightarrow> nat \<Rightarrow> vfs \<Rightarrow> vfs" where
  "set_mtime now v = set_node v (\<lambda>n. n\<lparr>vn_mtime := now\<rparr>)"

definition ramfs_create :: "bool \<Rightarrow> int \<Rightarrow> nat \<Rightarrow> string \<Rightarrow> ftype \<Rightarrow> u32 \<Rightarrow> vfs \<Rightarrow> nat result \<times> vfs" where
  "ramfs_create have_mem now d name ty mode s =
     (if vn_type (node_at s d) \<noteq> FT_DIR then (Inl ENOTDIR, s)
      else case ramfs_lookup d name s of
        (Inr existing, s) \<Rightarrow> (Inl EEXIST, vnode_put_with ramfs_release existing s)
      | (Inl _, s) \<Rightarrow>
          (case ramfs_new have_mem now name ty mode (Some d) s of
             (None, s) \<Rightarrow> (Inl ENOMEM, s)
           | (Some n, s) \<Rightarrow> (Inr n, rk_vnode_get n (set_mtime now d s))))"

definition ramfs_unlink :: "int \<Rightarrow> nat \<Rightarrow> string \<Rightarrow> vfs \<Rightarrow> unit result \<times> vfs" where
  "ramfs_unlink now d name s =
     (case find_child s d name of
        None \<Rightarrow> (Inl ENOENT, s)
      | Some c \<Rightarrow>
          if vn_type (node_at s c) = FT_DIR \<and> rn_children (node_at s c) \<noteq> [] then (Inl ENOTEMPTY, s)
          else
            let s = set_node d (\<lambda>n. n\<lparr>rn_children := remove1 c (rn_children n)\<rparr>) s;
                s = vnode_put_with ramfs_release c s
            in (Inr (), set_mtime now d s))"

section \<open>File data\<close>

text \<open>\<open>while (cap < want) cap *= 2\<close> on a 64-bit \<open>size_t\<close>.\<close>

partial_function (option) grow_cap :: "nat \<Rightarrow> nat \<Rightarrow> nat option" where
  "grow_cap cap want = (if cap < want then grow_cap (cap * 2 mod 2 ^ 64) want else Some cap)"

text \<open>\<open>None\<close> when the loop does not end.\<close>

definition ramfs_grow :: "(nat \<Rightarrow> bool) \<Rightarrow> nat \<Rightarrow> nat \<Rightarrow> vfs \<Rightarrow> (unit result \<times> vfs) option" where
  "ramfs_grow mem v want s =
     (let n = node_at s v in
      if want \<le> length (rn_data n) then Some (Inr (), s)
      else case grow_cap (if rn_data n \<noteq> [] then length (rn_data n) else 64) want of
        None \<Rightarrow> None
      | Some cap \<Rightarrow>
          Some (if \<not> mem cap then (Inl ENOMEM, s)
            else (Inr (), set_node v (\<lambda>n. n\<lparr>rn_data := take (vn_size n) (rn_data n) @ replicate (cap - vn_size n) 0\<rparr>) s)))"

definition ramfs_read :: "int \<Rightarrow> nat \<Rightarrow> nat \<Rightarrow> nat \<Rightarrow> vfs \<Rightarrow> u8 list result \<times> vfs" where
  "ramfs_read now v n off s =
     (let f = node_at s v in
      if vn_size f \<le> off then (Inr [], s)
      else
        let avail = vn_size f - off; k = (if n < avail then n else avail)
        in (Inr (take k (drop off (rn_data f))), set_node v (\<lambda>n. n\<lparr>vn_atime := now\<rparr>) s))"

text \<open>\<open>memset\<close> and \<open>memcpy\<close> into the buffer.\<close>

definition store_bytes :: "nat \<Rightarrow> u8 list \<Rightarrow> u8 list \<Rightarrow> u8 list" where
  "store_bytes off bs data = take off data @ bs @ drop (off + length bs) data"

definition ramfs_write :: "(nat \<Rightarrow> bool) \<Rightarrow> int \<Rightarrow> nat \<Rightarrow> u8 list \<Rightarrow> nat \<Rightarrow> vfs \<Rightarrow> (nat result \<times> vfs) option" where
  "ramfs_write mem now v buf off s =
     (if 2 ^ 64 \<le> off + length buf then Some (Inl EOVERFLOW, s)
      else case ramfs_grow mem v (off + length buf) s of
        None \<Rightarrow> None
      | Some (Inl err, s) \<Rightarrow> Some (Inl err, s)
      | Some (Inr _, s) \<Rightarrow>
          let s = (if vn_size (node_at s v) < off
                   then set_node v (\<lambda>n. n\<lparr>rn_data :=
                          store_bytes (vn_size n) (replicate (off - vn_size n) 0) (rn_data n)\<rparr>) s else s);
              s = set_node v (\<lambda>n. n\<lparr>rn_data := store_bytes off buf (rn_data n)\<rparr>) s;
              s = (if vn_size (node_at s v) < off + length buf
                   then set_node v (\<lambda>n. n\<lparr>vn_size := off + length buf\<rparr>) s else s)
          in Some (Inr (length buf), set_mtime now v s))"

definition ramfs_truncate :: "(nat \<Rightarrow> bool) \<Rightarrow> int \<Rightarrow> nat \<Rightarrow> nat \<Rightarrow> vfs \<Rightarrow> (unit result \<times> vfs) option" where
  "ramfs_truncate mem now v sz s =
     (let finish = (\<lambda>s. (Inr (), set_mtime now v (set_node v (\<lambda>n. n\<lparr>vn_size := sz\<rparr>) s))) in
      if vn_size (node_at s v) < sz then
        (case ramfs_grow mem v sz s of
           None \<Rightarrow> None
         | Some (Inl err, s) \<Rightarrow> Some (Inl err, s)
         | Some (Inr _, s) \<Rightarrow>
             Some (finish (set_node v (\<lambda>n. n\<lparr>rn_data :=
               store_bytes (vn_size n) (replicate (sz - vn_size n) 0) (rn_data n)\<rparr>) s)))
      else Some (finish s))"

definition ramfs_readdir :: "nat \<Rightarrow> nat \<Rightarrow> vfs \<Rightarrow> rk_dirent result" where
  "ramfs_readdir v index s =
     (let d = node_at s v in
      if index = 0 then Inr \<lparr>de_name = ''.'', de_ino = vn_ino d, de_type = FT_DIR\<rparr>
      else if index = 1 then
        Inr \<lparr>de_name = ''..'', de_ino = (case rn_parent d of None \<Rightarrow> vn_ino d | Some p \<Rightarrow> vn_ino (node_at s p)),
             de_type = FT_DIR\<rparr>
      else if index - 2 < length (rn_children d) then
        let c = node_at s (rn_children d ! (index - 2))
        in Inr \<lparr>de_name = rn_name c, de_ino = vn_ino c, de_type = vn_type c\<rparr>
      else Inl ENOENT)"

definition ramfs_stat :: "nat \<Rightarrow> vfs \<Rightarrow> rk_stat result" where
  "ramfs_stat v s =
     (let n = node_at s v in
      Inr \<lparr>st_size = vn_size n, st_blocks = (vn_size n + 511) div 512, st_type = vn_type n, st_mode = vn_mode n,
           st_nlink = 1, st_ino = vn_ino n, st_atime = vn_atime n, st_mtime = vn_mtime n, st_ctime = vn_ctime n\<rparr>)"

text \<open>\<open>node_mem\<close> answers for the allocation of a node, \<open>mem\<close> for file buffers.\<close>

definition ramfs_ops :: "bool \<Rightarrow> (nat \<Rightarrow> bool) \<Rightarrow> int \<Rightarrow> vnode_ops" where
  "ramfs_ops node_mem mem now =
     \<lparr>vo_lookup = Some ramfs_lookup, vo_create = Some (ramfs_create node_mem now),
      vo_unlink = Some (ramfs_unlink now), vo_read = Some (ramfs_read now),
      vo_write = Some (ramfs_write mem now), vo_truncate = Some (ramfs_truncate mem now),
      vo_readdir = Some ramfs_readdir, vo_stat = Some ramfs_stat, vo_release = Some ramfs_release\<rparr>"

definition ramfs_mount :: "bool \<Rightarrow> int \<Rightarrow> nat \<Rightarrow> string \<Rightarrow> string \<Rightarrow> vfs \<Rightarrow> unit result \<times> vfs" where
  "ramfs_mount node_mem now m source opts s =
     (case ramfs_new node_mem now ''/'' FT_DIR 0x1ED None s of
        (None, s) \<Rightarrow> (Inl ENOMEM, s)
      | (Some root, s) \<Rightarrow>
          let s = set_node root (\<lambda>n. n\<lparr>vn_mount := Some m\<rparr>) s
          in (Inr (), s\<lparr>vf_mounts := (vf_mounts s)[m := (vf_mounts s ! m)\<lparr>mt_root := Some root\<rparr>]\<rparr>))"

definition ramfs_umount :: "nat \<Rightarrow> vfs \<Rightarrow> vfs" where
  "ramfs_umount m s =
     (case mt_root (vf_mounts s ! m) of None \<Rightarrow> s | Some root \<Rightarrow> vnode_put_with ramfs_release root s)"

definition ramfs_type :: "bool \<Rightarrow> int \<Rightarrow> fs_type" where
  "ramfs_type node_mem now =
     \<lparr>ft_name = ''ramfs'', ft_mount = ramfs_mount node_mem now, ft_umount = Some ramfs_umount\<rparr>"

definition rk_ramfs_init :: "vfs \<Rightarrow> vfs" where
  "rk_ramfs_init s = rk_vfs_register ramfs_id s"

text \<open>A machine whose only file system is this one, with memory for everything.\<close>

definition ramfs_env :: "int \<Rightarrow> vfs_env" where
  "ramfs_env now = \<lparr>ve_ops = (\<lambda>_. ramfs_ops True (\<lambda>_. True) now), ve_type = (\<lambda>_. ramfs_type True now),
     ve_file_mem = True, ve_mount_mem = True\<rparr>"

section \<open>Growing the buffer\<close>

lemma grow_cap_step: "cap < want \<Longrightarrow> grow_cap cap want = grow_cap (cap * 2 mod 2 ^ 64) want"
  "want \<le> cap \<Longrightarrow> grow_cap cap want = Some cap"
  by (subst grow_cap.simps, simp)+

text \<open>Up to \<open>2 ^ 63\<close> the loop ends, with a capacity that suffices.\<close>

lemma grow_cap_works:
  assumes "0 < cap" "want \<le> 2 ^ 63" "cap \<le> 2 ^ 64"
  shows "\<exists>c \<ge> want. cap \<le> c \<and> c \<le> 2 ^ 64 \<and> grow_cap cap want = Some c"
  using assms
proof (induction "want - cap" arbitrary: cap rule: less_induct)
  case less
  show ?case
  proof (cases "cap < want")
    case True
    then have m: "cap * 2 mod 2 ^ 64 = cap * 2" using less.prems by simp
    have "want - cap * 2 < want - cap" "cap * 2 \<le> 2 ^ 64" using less.prems True by auto
    from less.hyps [OF this(1) _ less.prems(2) this(2)] less.prems(1)
    obtain c where "want \<le> c" "cap * 2 \<le> c" "c \<le> 2 ^ 64" "grow_cap (cap * 2) want = Some c" by auto
    then show ?thesis using grow_cap_step(1) [OF True] m by (intro exI [of _ c]) simp
  next
    case False
    then show ?thesis using grow_cap_step(2) [of want cap] less.prems by (intro exI [of _ cap]) simp
  qed
qed

lemma grow_cap_zero: "grow_cap cap want = Some y \<Longrightarrow> \<not> (cap = 0 \<and> 0 < want)"
proof (rule grow_cap.raw_induct [of "\<lambda>cap want y. \<not> (cap = 0 \<and> 0 < want)" cap want y])
  fix g cap want and y :: nat
  assume IH: "\<And>a b y. g a b = Some y \<Longrightarrow> \<not> (a = (0::nat) \<and> 0 < (b::nat))"
    and s: "(if cap < want then g (cap * 2 mod 2 ^ 64) want else Some cap) = Some y"
  show "\<not> (cap = 0 \<and> 0 < want)"
  proof
    assume c: "cap = 0 \<and> 0 < want"
    then have "g 0 want = Some y" using s by simp
    from IH [OF this] show False using c by simp
  qed
qed

text \<open>From a power of two, as every capacity is, it does not end above \<open>2 ^ 63\<close>: the capacity
  wraps to zero and stays there.\<close>

lemma grow_cap_diverges:
  assumes "2 ^ 63 < want" "k \<le> 63"
  shows "grow_cap (2 ^ k) want = None"
  using assms(2)
proof (induction "63 - k" arbitrary: k)
  case 0
  then have k: "(2::nat) ^ k = 2 ^ 63" by simp
  have z: "grow_cap 0 want = None" using grow_cap_zero [of 0 want] assms(1) by (cases "grow_cap 0 want") auto
  show ?case unfolding k using grow_cap_step(1) [OF assms(1)] z by simp
next
  case (Suc j)
  then have k: "k < 63" by simp
  then have "(2::nat) ^ k < 2 ^ 63" by (intro power_strict_increasing) auto
  then have "(2::nat) ^ k < want" using assms(1) by linarith
  moreover have "(2::nat) ^ Suc k < 2 ^ 64" using k by (intro power_strict_increasing) auto
  then have "(2::nat) ^ k * 2 mod 2 ^ 64 = 2 ^ Suc k" by simp
  ultimately show ?case using grow_cap_step(1) [of "2 ^ k" want] Suc(1) [of "Suc k"] Suc(2) k by simp
qed

section \<open>Contents\<close>

text \<open>What a file holds, and what writing into a byte sequence means: the gap up to the offset
  is filled with zeros.\<close>

definition contents :: "vfs \<Rightarrow> nat \<Rightarrow> u8 list" where
  "contents s v = take (vn_size (node_at s v)) (rn_data (node_at s v))"

definition splice :: "nat \<Rightarrow> u8 list \<Rightarrow> u8 list \<Rightarrow> u8 list" where
  "splice off bs c = take off (c @ replicate (off - length c) 0) @ bs @ drop (off + length bs) c"

definition file_ok :: "vfs \<Rightarrow> nat \<Rightarrow> bool" where
  "file_ok s v \<longleftrightarrow> v < length (vf_nodes s) \<and> vn_size (node_at s v) \<le> length (rn_data (node_at s v)) \<and>
     length (rn_data (node_at s v)) \<le> 2 ^ 64"

lemma node_set_same [simp]: "v < length (vf_nodes s) \<Longrightarrow> node_at (set_node v f s) v = f (node_at s v)"
  by (simp add: node_at_def set_node_def)

lemma node_set_other [simp]: "w \<noteq> v \<Longrightarrow> node_at (set_node v f s) w = node_at s w"
  by (simp add: node_at_def set_node_def)

lemma set_node_simps [simp]:
  "length (vf_nodes (set_node v f s)) = length (vf_nodes s)" "vf_mounts (set_node v f s) = vf_mounts s"
  "vf_root (set_node v f s) = vf_root s" "vf_stats (set_node v f s) = vf_stats s"
  "set_node v f (set_node v g s) = set_node v (f \<circ> g) s"
  by (simp_all add: set_node_def) (cases "v < length (vf_nodes s)"; simp add: list_update_beyond)

text \<open>What an operation on one node leaves alone.\<close>

definition only_node :: "nat \<Rightarrow> vfs \<Rightarrow> vfs \<Rightarrow> bool" where
  "only_node v s s' \<longleftrightarrow> (\<exists>f. s' = set_node v f s)"

lemma only_node_refl [simp]: "only_node v s s"
proof -
  have "s = set_node v (\<lambda>n. n) s" by (simp add: set_node_def)
  then show ?thesis unfolding only_node_def by blast
qed

lemma only_node_set [simp]: "only_node v s (set_node v f s)"
  by (auto simp: only_node_def)

lemma only_node_trans [trans]: "only_node v s t \<Longrightarrow> only_node v t u \<Longrightarrow> only_node v s u"
  unfolding only_node_def by (elim exE) (simp, blast)

lemma length_store_bytes [simp]:
  "off + length bs \<le> length data \<Longrightarrow> length (store_bytes off bs data) = length data"
  by (simp add: store_bytes_def)

lemma grow_facts:
  assumes "file_ok s v" "want \<le> 2 ^ 63" "\<And>n. mem n"
  obtains s' where "ramfs_grow mem v want s = Some (Inr (), s')" "only_node v s s'" "file_ok s' v"
    "want \<le> length (rn_data (node_at s' v))" "vn_size (node_at s' v) = vn_size (node_at s v)"
    "contents s' v = contents s v"
proof (cases "want \<le> length (rn_data (node_at s v))")
  case True
  then show ?thesis using that [of s] assms(1) by (simp add: ramfs_grow_def contents_def)
next
  case False
  let ?n = "node_at s v"
  let ?c = "if rn_data ?n \<noteq> [] then length (rn_data ?n) else 64"
  have "0 < ?c" "?c \<le> 2 ^ 64" using assms(1) by (auto simp: file_ok_def)
  then obtain c where c: "want \<le> c" "?c \<le> c" "c \<le> 2 ^ 64" "grow_cap ?c want = Some c"
    using grow_cap_works [of ?c want] assms(2) by blast
  let ?f = "\<lambda>n. n\<lparr>rn_data := take (vn_size n) (rn_data n) @ replicate (c - vn_size n) 0\<rparr>"
  have v: "v < length (vf_nodes s)" "vn_size ?n \<le> length (rn_data ?n)" using assms(1) by (auto simp: file_ok_def)
  have "length (rn_data ?n) \<le> c" using False c(1) by simp
  then have sz: "vn_size ?n \<le> c" using v(2) by simp
  have "ramfs_grow mem v want s = Some (Inr (), set_node v ?f s)"
    unfolding ramfs_grow_def Let_def using False c(4) assms(3) by simp
  then show ?thesis using that [of "set_node v ?f s"] v sz c by (simp add: file_ok_def contents_def)
qed

lemma splice_contents:
  assumes "sz \<le> length data" "off + length bs \<le> length data"
  shows "take (max sz (off + length bs))
      (store_bytes off bs (if sz < off then store_bytes sz (replicate (off - sz) 0) data else data))
    = splice off bs (take sz data)"
proof (cases "sz < off")
  case True
  then show ?thesis using assms by (simp add: store_bytes_def splice_def)
next
  case False
  then show ?thesis
    using assms by (cases "off + length bs \<le> sz") (auto simp: store_bytes_def splice_def max_def drop_take min_def dest: antisym)
qed

lemma ramfs_write_facts:
  assumes "file_ok s v" "off + length buf \<le> 2 ^ 63" "\<And>n. mem n"
  obtains s' where "ramfs_write mem now v buf off s = Some (Inr (length buf), s')"
    "only_node v s s'" "file_ok s' v" "contents s' v = splice off buf (contents s v)"
proof -
  obtain s1 where g: "ramfs_grow mem v (off + length buf) s = Some (Inr (), s1)" "only_node v s s1" "file_ok s1 v"
    "off + length buf \<le> length (rn_data (node_at s1 v))" "vn_size (node_at s1 v) = vn_size (node_at s v)"
    "contents s1 v = contents s v"
    by (rule grow_facts [OF assms])
  define f :: "vnode \<Rightarrow> vnode" where "f = (\<lambda>n. n\<lparr>rn_data := store_bytes off buf
      (if vn_size n < off then store_bytes (vn_size n) (replicate (off - vn_size n) 0) (rn_data n) else rn_data n),
      vn_size := max (vn_size n) (off + length buf), vn_mtime := now\<rparr>)"
  have v: "v < length (vf_nodes s1)" "vn_size (node_at s1 v) \<le> length (rn_data (node_at s1 v))"
    "length (rn_data (node_at s1 v)) \<le> 2 ^ 64"
    using g(3) by (auto simp: file_ok_def)
  have lim: "\<not> 2 ^ 64 \<le> off + length buf" using assms(2) by simp
  have w: "ramfs_write mem now v buf off s = Some (Inr (length buf), set_node v f s1)"
    unfolding ramfs_write_def if_not_P [OF lim] g(1) using v(1)
    by (auto simp: Let_def set_mtime_def f_def set_node_def node_at_def max_def)
  have "contents (set_node v f s1) v = splice off buf (contents s v)"
    using splice_contents [OF v(2) g(4)] v(1) g(6) by (simp add: contents_def f_def)
  moreover have "file_ok (set_node v f s1) v"
    using v g(4) by (auto simp: file_ok_def f_def)
  ultimately show ?thesis using that [OF w] only_node_trans [OF g(2), of "set_node v f s1"] by simp
qed

end
