(* ===== verification/RK_VfsFiles.thy ===== *)
theory RK_VfsFiles
  imports RK_Ramfs
begin

text \<open>
  Files as byte sequences: the contract of a random-access byte store, what follows from it,
  and its interpretation by open files of the in-memory file system.
\<close>

section \<open>The interface\<close>

fun put_all :: "(u8 list \<Rightarrow> nat \<Rightarrow> 's \<Rightarrow> 's option) \<Rightarrow> u8 list list \<Rightarrow> nat \<Rightarrow> 's \<Rightarrow> 's option" where
  "put_all put [] off s = Some s"
| "put_all put (b # bs) off s =
     (case put b off s of None \<Rightarrow> None | Some s' \<Rightarrow> put_all put bs (off + length b) s')"

lemma splice_end: "splice (length c) bs c = c @ bs"
  by (simp add: splice_def)

lemma length_splice: "length (splice off bs c) = max (length c) (off + length bs)"
  by (auto simp: splice_def)

lemma splice_read: "take (length bs) (drop off (splice off bs c)) = bs"
  by (simp add: splice_def)

lemma splice_gap: "length c \<le> i \<Longrightarrow> i < off \<Longrightarrow> splice off bs c ! i = 0"
  by (simp add: splice_def nth_append diff_less_mono)

lemma splice_outside:
  assumes "i < length c" "i < off \<or> off + length bs \<le> i"
  shows "splice off bs c ! i = c ! i"
proof (cases "i < off")
  case True
  then show ?thesis using assms(1) by (simp add: splice_def nth_append)
next
  case False
  then obtain k where k: "i = off + length bs + k" using assms(2) by (metis le_Suc_ex)
  then show ?thesis using assms(1) by (simp add: splice_def nth_append)
qed

locale byte_store =
  fixes good :: "'s \<Rightarrow> bool"
    and held :: "'s \<Rightarrow> u8 list"
    and put :: "u8 list \<Rightarrow> nat \<Rightarrow> 's \<Rightarrow> 's option"
    and get :: "nat \<Rightarrow> nat \<Rightarrow> 's \<Rightarrow> u8 list \<times> 's"
    and lim :: nat
  assumes put_ok: "good s \<Longrightarrow> off + length bs \<le> lim \<Longrightarrow>
      \<exists>s'. put bs off s = Some s' \<and> good s' \<and> held s' = splice off bs (held s)"
    and get_ok: "good s \<Longrightarrow>
      fst (get n off s) = take n (drop off (held s)) \<and> good (snd (get n off s)) \<and> held (snd (get n off s)) = held s"
begin

lemma put_get:
  assumes "good s" "off + length bs \<le> lim"
  shows "\<exists>s'. put bs off s = Some s' \<and> fst (get (length bs) off s') = bs"
  using put_ok [OF assms] get_ok splice_read by metis

lemma put_all_ok:
  "good s \<Longrightarrow> off = length (held s) \<Longrightarrow> off + length (concat bs) \<le> lim \<Longrightarrow>
     \<exists>s'. put_all put bs off s = Some s' \<and> good s' \<and> held s' = held s @ concat bs"
proof (induction bs arbitrary: off s)
  case (Cons b bs)
  have "off + length b \<le> lim" using Cons.prems(3) by simp
  from put_ok [OF Cons.prems(1) this] obtain s1 where s1: "put b off s = Some s1" "good s1"
    "held s1 = held s @ b"
    using Cons.prems(2) splice_end by metis
  from Cons.IH [OF s1(2), of "off + length b"] Cons.prems(2,3) s1 show ?case by simp
qed simp

end

section \<open>Open files of the in-memory file system\<close>

text \<open>An open file with both rights on vnode \<open>v\<close>.\<close>

definition rw_file :: "nat \<Rightarrow> rk_file" where
  "rw_file v = \<lparr>fl_vnode = v, fl_pos = 0, fl_flags = RK_O_READ OR RK_O_WRITE,
     fl_rights = RK_O_READ OR RK_O_WRITE, fl_refcount = 1\<rparr>"

definition file_put :: "int \<Rightarrow> nat \<Rightarrow> u8 list \<Rightarrow> nat \<Rightarrow> vfs \<Rightarrow> vfs option" where
  "file_put now v bs off s =
     (case rk_file_pwrite (ramfs_env now) (rw_file v) bs off s of Some (Inr _, s') \<Rightarrow> Some s' | _ \<Rightarrow> None)"

definition file_get :: "int \<Rightarrow> nat \<Rightarrow> nat \<Rightarrow> nat \<Rightarrow> vfs \<Rightarrow> u8 list \<times> vfs" where
  "file_get now v n off s =
     (case rk_file_pread (ramfs_env now) (rw_file v) n off s of
        (Inl _, s') \<Rightarrow> ([], s') | (Inr bs, s') \<Rightarrow> (bs, s'))"

lemma flags_on [simp]:
  "on (RK_O_READ OR RK_O_WRITE) RK_O_READ" "on (RK_O_READ OR RK_O_WRITE) RK_O_WRITE"
  by (simp_all add: on_def RK_O_READ_def RK_O_WRITE_def)

lemma ramfs_env_ops [simp]:
  "ops_of (ramfs_env now) s v = ramfs_ops True (\<lambda>_. True) now"
  "ve_file_mem (ramfs_env now)" "ve_mount_mem (ramfs_env now)"
  by (simp_all add: ops_of_def ramfs_env_def)

lemma count_op_simps [simp]:
  "node_at (count_op f s) v = node_at s v" "vf_nodes (count_op f s) = vf_nodes s"
  "contents (count_op f s) v = contents s v" "file_ok (count_op f s) v = file_ok s v"
  "vf_root (count_op f s) = vf_root s" "vf_mounts (count_op f s) = vf_mounts s"
  by (simp_all add: node_at_def count_op_def contents_def file_ok_def)

lemma pwrite_ok:
  assumes "file_ok s v" "off + length buf \<le> 2 ^ 63" "on (fl_flags f) RK_O_WRITE" "fl_vnode f = v"
  shows "\<exists>s'. rk_file_pwrite (ramfs_env now) f buf off s = Some (Inr (length buf), s') \<and>
    file_ok s' v \<and> contents s' v = splice off buf (contents s v)"
proof -
  let ?s = "count_op (\<lambda>t. t\<lparr>vs_writes := vs_writes t + 1\<rparr>) s"
  have "file_ok ?s v" using assms(1) by simp
  from ramfs_write_facts [OF this assms(2), of "\<lambda>_. True" now]
  obtain s' where "ramfs_write (\<lambda>_. True) now v buf off ?s = Some (Inr (length buf), s')" "file_ok s' v"
    "contents s' v = splice off buf (contents ?s v)"
    by blast
  then show ?thesis using assms(3,4) by (simp add: rk_file_pwrite_def ramfs_ops_def)
qed

lemma pread_ok:
  assumes "file_ok s v" "on (fl_flags f) RK_O_READ" "fl_vnode f = v"
  shows "\<exists>s'. rk_file_pread (ramfs_env now) f n off s = (Inr (take n (drop off (contents s v))), s') \<and>
    file_ok s' v \<and> contents s' v = contents s v"
proof -
  have "take (min n (vn_size (node_at s v) - off)) (drop off (rn_data (node_at s v))) =
      take n (drop off (contents s v))"
    by (simp add: contents_def drop_take min.commute)
  then show ?thesis
    using assms by (auto simp: rk_file_pread_def ramfs_ops_def ramfs_read_def Let_def min_def
      file_ok_def contents_def drop_take)
qed

interpretation ram: byte_store "\<lambda>s. file_ok s v" "\<lambda>s. contents s v" "file_put now v" "file_get now v" "2 ^ 63"
  for now v
proof unfold_locales
  fix s off and bs :: "u8 list"
  assume "file_ok s v" "off + length bs \<le> 2 ^ 63"
  from pwrite_ok [OF this, of "rw_file v" now]
  show "\<exists>s'. file_put now v bs off s = Some s' \<and> file_ok s' v \<and> contents s' v = splice off bs (contents s v)"
    by (auto simp: file_put_def rw_file_def)
next
  fix s n off
  assume "file_ok s v"
  from pread_ok [OF this, of "rw_file v" now n off]
  show "fst (file_get now v n off s) = take n (drop off (contents s v)) \<and>
      file_ok (snd (file_get now v n off s)) v \<and> contents (snd (file_get now v n off s)) v = contents s v"
    by (auto simp: file_get_def rw_file_def)
qed

section \<open>Properties of files\<close>

text \<open>A client that writes several buffers through one handle.\<close>

fun write_all :: "vfs_env \<Rightarrow> rk_file \<Rightarrow> u8 list list \<Rightarrow> vfs \<Rightarrow> (rk_file \<times> vfs) option" where
  "write_all e f [] s = Some (f, s)"
| "write_all e f (b # bs) s =
     (case rk_file_write e f b s of
        Some (Inr n, f', s') \<Rightarrow> if n = length b then write_all e f' bs s' else None
      | _ \<Rightarrow> None)"

lemma rw_file_put:
  assumes "fl_flags f = RK_O_READ OR RK_O_WRITE" "fl_vnode f = v"
  shows "rk_file_pwrite e f b off s = rk_file_pwrite e (rw_file v) b off s"
    "rk_file_pread e f n off s = rk_file_pread e (rw_file v) n off s"
  using assms by (simp_all add: rk_file_pwrite_def rk_file_pread_def rw_file_def cong: option.case_cong)

lemma write_all_put_all:
  assumes "fl_flags f = RK_O_READ OR RK_O_WRITE" "fl_vnode f = v" "file_ok s v"
    "fl_pos f + length (concat bs) \<le> 2 ^ 63"
  shows "write_all (ramfs_env now) f bs s =
    map_option (\<lambda>s'. (f\<lparr>fl_pos := fl_pos f + length (concat bs)\<rparr>, s')) (put_all (file_put now v) bs (fl_pos f) s)"
  using assms
proof (induction bs arbitrary: f s)
  case (Cons b bs)
  have l: "fl_pos f + length b \<le> 2 ^ 63" using Cons.prems(4) by simp
  obtain s1 where s1: "rk_file_pwrite (ramfs_env now) f b (fl_pos f) s = Some (Inr (length b), s1)" "file_ok s1 v"
    using pwrite_ok [OF Cons.prems(3) l, of f now] Cons.prems(1,2) by auto
  have p: "file_put now v b (fl_pos f) s = Some s1"
    using s1(1) rw_file_put(1) [OF Cons.prems(1,2)] by (simp add: file_put_def)
  have m: "(fl_pos f + length b) mod 2 ^ 64 = fl_pos f + length b" using l by simp
  show ?case
    using Cons.IH [of "f\<lparr>fl_pos := fl_pos f + length b\<rparr>" s1] Cons.prems s1 p m
    by (simp add: rk_file_write_def add.assoc)
qed simp

text \<open>
  Writing buffers one after the other through a handle positioned at the end of a ramfs
  file appends their concatenation: every write reports the whole buffer, and any later read
  at any offset returns that part of the old contents followed by the buffers.
\<close>
theorem file_appends_read_back:
  assumes "file_ok s v" "fl_flags f = RK_O_READ OR RK_O_WRITE" "fl_vnode f = v"
    and "fl_pos f = length (contents s v)" "fl_pos f + length (concat bufs) \<le> 2 ^ 63"
  shows "\<exists>f' s'. write_all (ramfs_env now) f bufs s = Some (f', s') \<and>
    contents s' v = contents s v @ concat bufs \<and>
    (\<forall>n off. fst (rk_file_pread (ramfs_env now) f' n off s') = Inr (take n (drop off (contents s v @ concat bufs))))"
proof -
  obtain s' where s': "put_all (file_put now v) bufs (fl_pos f) s = Some s'" "file_ok s' v"
    "contents s' v = contents s v @ concat bufs"
    using ram.put_all_ok [OF assms(1) assms(4,5)] by blast
  let ?f = "f\<lparr>fl_pos := fl_pos f + length (concat bufs)\<rparr>"
  have w: "write_all (ramfs_env now) f bufs s = Some (?f, s')"
    using write_all_put_all [OF assms(2,3,1,5)] s'(1) by simp
  have "fst (rk_file_pread (ramfs_env now) ?f n off s') = Inr (take n (drop off (contents s v @ concat bufs)))" for n off
    using pread_ok [OF s'(2), of ?f now n off] assms(2,3) s'(3) by auto
  then show ?thesis using w s'(3) by blast
qed

text \<open>
  \<open>ramfs_write\<close> implements writing into a byte sequence: up to \<open>2 ^ 63\<close> and with memory
  available it writes the whole buffer, reads back nothing of an earlier, longer content (a
  gap before the offset is zeros), keeps every byte outside the range, and touches no other
  node.
\<close>
theorem ramfs_write_refines:
  assumes "file_ok s v" "off + length buf \<le> 2 ^ 63"
  shows "\<exists>s'. ramfs_write (\<lambda>_. True) now v buf off s = Some (Inr (length buf), s') \<and> file_ok s' v \<and>
    contents s' v = splice off buf (contents s v) \<and>
    (\<forall>i. length (contents s v) \<le> i \<longrightarrow> i < off \<longrightarrow> contents s' v ! i = 0) \<and>
    (\<forall>w. w \<noteq> v \<longrightarrow> node_at s' w = node_at s w)"
proof -
  obtain s' where s': "ramfs_write (\<lambda>_. True) now v buf off s = Some (Inr (length buf), s')"
    "only_node v s s'" "file_ok s' v" "contents s' v = splice off buf (contents s v)"
    using ramfs_write_facts [OF assms, of "\<lambda>_. True" now] by blast
  obtain g where "s' = set_node v g s" using s'(2) by (auto simp: only_node_def)
  then show ?thesis using s' splice_gap [of "contents s v"] by simp
qed

text \<open>
  Beyond \<open>2 ^ 63\<close> the doubling loop of \<open>ramfs_grow\<close> wraps to zero and never ends: a write
  of one byte at an offset of \<open>2 ^ 63\<close> or more, which the overflow check accepts, does not
  return, whatever the capacity of the file (always a power of two, or none).
\<close>
theorem ramfs_write_diverges:
  assumes "rn_data (node_at s v) = [] \<or> (\<exists>k \<le> 63. length (rn_data (node_at s v)) = 2 ^ k)"
    and "2 ^ 63 < off + length buf" "off + length buf < 2 ^ 64"
  shows "ramfs_write mem now v buf off s = None"
proof -
  let ?d = "rn_data (node_at s v)"
  obtain k where k: "k \<le> 63" "(if ?d \<noteq> [] then length ?d else 64) = 2 ^ k"
  proof (cases "?d = []")
    case True
    then show ?thesis using that [of 6] by simp
  next
    case False
    then show ?thesis using assms(1) that by auto
  qed
  have "grow_cap (if ?d \<noteq> [] then length ?d else 64) (off + length buf) = None"
    unfolding k(2) by (rule grow_cap_diverges [OF assms(2) k(1)])
  moreover have "length ?d \<le> 2 ^ 63"
    using assms(1) power_increasing [of _ 63 "2::nat"] by fastforce
  ultimately have "ramfs_grow mem v (off + length buf) s = None"
    using assms(2) by (simp add: ramfs_grow_def Let_def)
  then show ?thesis using assms(3) by (simp add: ramfs_write_def)
qed

section \<open>A file\<close>

definition demo_file :: vfs where
  "demo_file = snd (ramfs_new True 0 ''notes'' FT_REG 0 None vfs_empty)"

lemma demo_file_ok: "file_ok demo_file 0" "contents demo_file 0 = []" "rn_data (node_at demo_file 0) = []"
  by (simp_all add: demo_file_def ramfs_new_def rk_vfs_next_ino_def vfs_empty_def file_ok_def contents_def
    node_at_def blank_node_def Let_def)

lemma file_appends_read_back_witness:
  "\<exists>f' s'. write_all (ramfs_env 9) (rw_file 0) [[1, 2], [3]] demo_file = Some (f', s') \<and>
     fst (rk_file_pread (ramfs_env 9) f' 2 1 s') = Inr [2, 3]"
proof -
  have "fl_flags (rw_file 0) = RK_O_READ OR RK_O_WRITE" "fl_vnode (rw_file 0) = 0" "fl_pos (rw_file 0) = 0"
    by (simp_all add: rw_file_def)
  then obtain f' s' where "write_all (ramfs_env 9) (rw_file 0) [[1, 2], [3]] demo_file = Some (f', s')"
    "\<And>n off. fst (rk_file_pread (ramfs_env 9) f' n off s') = Inr (take n (drop off [1, 2, 3]))"
    using file_appends_read_back [OF demo_file_ok(1), of "rw_file 0" "[[1, 2], [3]]" 9] demo_file_ok(2) by auto
  then show ?thesis by simp
qed

lemma ramfs_write_refines_witness:
  "\<exists>s'. ramfs_write (\<lambda>_. True) 9 0 [7] 2 demo_file = Some (Inr 1, s') \<and> contents s' 0 = [0, 0, 7]"
proof -
  have "splice 2 [7] [] = [0, 0, 7 :: u8]" by (simp add: splice_def numeral_2_eq_2)
  then show ?thesis using ramfs_write_refines [OF demo_file_ok(1), of 2 "[7]" 9] demo_file_ok(2) by auto
qed

lemma ramfs_write_diverges_witness: "ramfs_write (\<lambda>_. True) 9 0 [7] (2 ^ 63) demo_file = None"
  using ramfs_write_diverges [of demo_file 0 "2 ^ 63" "[7]" "\<lambda>_. True" 9] demo_file_ok(3) by simp

end
