(* ===== verification/RK_VfsPaths.thy ===== *)
theory RK_VfsPaths
  imports RK_VfsFiles
begin

text \<open>
  Path resolution over the in-memory file system: it computes a walk over the directory tree
  and changes nothing but one reference; a relative path stays below the directory it starts
  from; and where the code departs from that.
\<close>

section \<open>The tree\<close>

definition tree_node :: "vfs \<Rightarrow> nat \<Rightarrow> bool" where
  "tree_node s v \<longleftrightarrow> vn_mounted_here (node_at s v) = None \<and>
     vn_refcount (node_at s v) \<noteq> 0 \<and> vn_refcount (node_at s v) + 1 \<noteq> 0 \<and>
     (\<forall>c \<in> set (rn_children (node_at s v)). c < length (vf_nodes s) \<and> rn_parent (node_at s c) = Some v) \<and>
     (\<forall>p. rn_parent (node_at s v) = Some p \<longrightarrow> p < length (vf_nodes s))"

text \<open>A mount-free tree: children and parents agree and stay inside the heap.\<close>

definition plain_tree :: "vfs \<Rightarrow> bool" where
  "plain_tree s \<longleftrightarrow> (\<forall>v < length (vf_nodes s). tree_node s v) \<and>
     (\<forall>r. vf_root s = Some r \<longrightarrow> r < length (vf_nodes s))"

function components :: "string \<Rightarrow> string list" where
  "components p =
     (if fst (next_component p) = [] then []
      else fst (next_component p) # components (snd (next_component p)))"
  by pat_completeness auto
termination
  by (relation "measure length") (auto dest: next_component_shrinks)

declare components.simps [simp del]

text \<open>The walk, as a function of the tree alone.\<close>

definition parent_of :: "vfs \<Rightarrow> nat \<Rightarrow> nat" where
  "parent_of s v = (case rn_parent (node_at s v) of None \<Rightarrow> v | Some p \<Rightarrow> p)"

fun tree_walk :: "vfs \<Rightarrow> nat \<Rightarrow> nat \<Rightarrow> string list \<Rightarrow> nat result" where
  "tree_walk s cur depth [] = Inr cur"
| "tree_walk s cur depth (c # cs) =
     (if c = ''.'' then tree_walk s cur depth cs
      else if c = ''..'' then
        (if depth = 0 then tree_walk s cur depth cs else tree_walk s (parent_of s cur) (depth - 1) cs)
      else if vn_type (node_at s cur) \<noteq> FT_DIR then Inl ENOTDIR
      else if RK_NAME_MAX < length c then Inl E2BIG
      else (case find_child s cur c of None \<Rightarrow> Inl ENOENT
            | Some child \<Rightarrow> tree_walk s child (depth + 1) cs))"

definition path_walk :: "vfs \<Rightarrow> nat option \<Rightarrow> string \<Rightarrow> nat result" where
  "path_walk s base path =
     (case (if is_absolute path \<or> base = None then vf_root s else base) of
        None \<Rightarrow> Inl ENOENT | Some v \<Rightarrow> tree_walk s v 0 (components path))"

section \<open>References\<close>

definition with_stats :: "vfs_stats \<Rightarrow> vfs \<Rightarrow> vfs" where
  "with_stats t s = s\<lparr>vf_stats := t\<rparr>"

lemma with_stats_simps [simp]:
  "node_at (with_stats t s) v = node_at s v" "vf_nodes (with_stats t s) = vf_nodes s"
  "with_stats t (with_stats u s) = with_stats t s" "vf_root (with_stats t s) = vf_root s"
  "with_stats (vf_stats s) s = s" "find_child (with_stats t s) = find_child s"
  by (simp_all add: with_stats_def node_at_def find_child_def fun_eq_iff)

lemma count_op_with_stats: "count_op f s = with_stats (f (vf_stats s)) s"
  by (simp add: count_op_def with_stats_def)

lemma get_with_stats: "rk_vnode_get v (with_stats t s) = with_stats t (rk_vnode_get v s)"
  by (simp add: rk_vnode_get_def set_node_def with_stats_def)

lemma node_get:
  "node_at (rk_vnode_get v s) w =
     (if w = v \<and> v < length (vf_nodes s) then (node_at s v)\<lparr>vn_refcount := vn_refcount (node_at s v) + 1\<rparr>
      else node_at s w)"
  by (auto simp: rk_vnode_get_def set_node_def node_at_def list_update_beyond nth_list_update)

lemma get_fields [simp]:
  "vn_type (node_at (rk_vnode_get v s) w) = vn_type (node_at s w)"
  "vn_ops (node_at (rk_vnode_get v s) w) = vn_ops (node_at s w)"
  "rn_name (node_at (rk_vnode_get v s) w) = rn_name (node_at s w)"
  "rn_children (node_at (rk_vnode_get v s) w) = rn_children (node_at s w)"
  "rn_parent (node_at (rk_vnode_get v s) w) = rn_parent (node_at s w)"
  "vn_mounted_here (node_at (rk_vnode_get v s) w) = vn_mounted_here (node_at s w)"
  "vf_root (rk_vnode_get v s) = vf_root s" "length (vf_nodes (rk_vnode_get v s)) = length (vf_nodes s)"
  "find_child (rk_vnode_get v s) = find_child s"
proof -
  show n: "rn_name (node_at (rk_vnode_get v s) w) = rn_name (node_at s w)"
    "rn_children (node_at (rk_vnode_get v s) w) = rn_children (node_at s w)" for w
    by (simp_all add: node_get)
  show "find_child (rk_vnode_get v s) = find_child s" by (simp add: find_child_def fun_eq_iff n)
qed (simp_all add: node_get, simp_all add: rk_vnode_get_def)

lemma vnode_put_get:
  assumes "v < length (vf_nodes s)" "vn_refcount (node_at s v) \<noteq> 0"
  shows "rk_vnode_put e v (rk_vnode_get v s) = s"
proof -
  have "set_node v (\<lambda>n. n\<lparr>vn_refcount := vn_refcount n - 1\<rparr>) (rk_vnode_get v s) = s"
    using assms(1) by (simp add: rk_vnode_get_def set_node_def)
  then show ?thesis using assms(2) by (simp add: rk_vnode_put_def vnode_put_with_def Let_def)
qed

lemma get_commute: "rk_vnode_get a (rk_vnode_get b s) = rk_vnode_get b (rk_vnode_get a s)"
  by (cases "a = b") (simp_all add: rk_vnode_get_def set_node_def list_update_swap)

text \<open>Trading the reference to \<open>a\<close> for one to \<open>b\<close>.\<close>

lemma trade_reference:
  assumes "a < length (vf_nodes s)" "tree_node s a"
  shows "rk_vnode_put e a (rk_vnode_get b (rk_vnode_get a s)) = rk_vnode_get b s"
proof -
  have "vn_refcount (node_at (rk_vnode_get b s) a) \<noteq> 0"
    using assms by (auto simp: node_get tree_node_def)
  then show ?thesis using vnode_put_get [of a "rk_vnode_get b s" e] assms(1) by (simp add: get_commute [of b])
qed

lemma cross_plain:
  assumes "vn_mounted_here (node_at s v) = None"
  shows "cross_mount s v = v"
proof -
  have "cross_from k s v = v" for k using assms by (cases k) (simp_all add: mounted_root_def)
  then show ?thesis by (simp add: cross_mount_def)
qed

section \<open>Resolution is the walk\<close>

lemma tree_with_stats [simp]: "tree_node (with_stats t s) v = tree_node s v"
  by (simp add: tree_node_def)

lemma tree_walk_with_stats [simp]: "tree_walk (with_stats t s) cur depth cs = tree_walk s cur depth cs"
  by (induction cs arbitrary: cur depth) (simp_all add: parent_of_def split: option.split)

lemma plain_with_stats [simp]: "plain_tree (with_stats t s) = plain_tree s"
  by (simp add: plain_tree_def)

lemma parent_in_tree:
  assumes "plain_tree s" "v < length (vf_nodes s)"
  shows "parent_of s v < length (vf_nodes s)" "tree_node s v"
proof -
  show t: "tree_node s v" using assms by (simp add: plain_tree_def)
  then show "parent_of s v < length (vf_nodes s)"
    using assms(2) by (simp add: tree_node_def parent_of_def split: option.split)
qed

lemma child_in_tree:
  assumes "plain_tree s" "v < length (vf_nodes s)" "find_child s v name = Some c"
  shows "c < length (vf_nodes s)" "rn_parent (node_at s c) = Some v" "c \<in> set (rn_children (node_at s v))"
proof -
  show c: "c \<in> set (rn_children (node_at s v))"
    using assms(3) by (auto simp: find_child_def find_Some_iff)
  then show "c < length (vf_nodes s)" "rn_parent (node_at s c) = Some v"
    using parent_in_tree(2) [OF assms(1,2)] by (auto simp: tree_node_def)
qed

lemma resolve_up_plain:
  assumes "plain_tree s" "cur < length (vf_nodes s)"
  shows "resolve_up (ramfs_env now) cur (rk_vnode_get cur s) = (parent_of s cur, rk_vnode_get (parent_of s cur) s)"
proof -
  note t = parent_in_tree [OF assms]
  have "vn_mounted_here (node_at s (parent_of s cur)) = None"
    using parent_in_tree(2) [OF assms(1) t(1)] by (simp add: tree_node_def)
  then show ?thesis
    using trade_reference [OF assms(2) t(2), of "ramfs_env now" "parent_of s cur"]
    by (simp add: resolve_up_def ramfs_ops_def ramfs_lookup_def Let_def cross_plain parent_of_def [symmetric])
qed

definition step_walk :: "vfs \<Rightarrow> nat \<Rightarrow> nat \<Rightarrow> string \<Rightarrow> (nat \<times> nat) result" where
  "step_walk s cur depth c =
     (if c = ''.'' then Inr (cur, depth)
      else if c = ''..'' then Inr (if depth = 0 then (cur, depth) else (parent_of s cur, depth - 1))
      else if vn_type (node_at s cur) \<noteq> FT_DIR then Inl ENOTDIR
      else if RK_NAME_MAX < length c then Inl E2BIG
      else (case find_child s cur c of None \<Rightarrow> Inl ENOENT | Some child \<Rightarrow> Inr (child, depth + 1)))"

lemma tree_walk_step:
  "tree_walk s cur depth (c # cs) =
     (case step_walk s cur depth c of Inl err \<Rightarrow> Inl err
      | Inr (cur', depth') \<Rightarrow> tree_walk s cur' depth' cs)"
  by (simp add: step_walk_def split: option.split)

lemma step_walk_range:
  assumes "plain_tree s" "cur < length (vf_nodes s)" "step_walk s cur depth c = Inr (v, d)"
  shows "v < length (vf_nodes s)"
  using assms parent_in_tree(1) [OF assms(1,2)] child_in_tree(1) [OF assms(1,2)]
  by (auto simp: step_walk_def split: if_splits option.splits)

lemma resolve_step_plain:
  assumes "plain_tree s" "cur < length (vf_nodes s)"
  shows "\<exists>t. resolve_step (ramfs_env now) cur depth c (rk_vnode_get cur s) =
    (step_walk s cur depth c,
     case step_walk s cur depth c of Inl _ \<Rightarrow> with_stats t s | Inr (v, _) \<Rightarrow> rk_vnode_get v (with_stats t s))"
proof -
  have s0: "with_stats (vf_stats s) s = s" by simp
  note tr = parent_in_tree(2) [OF assms]
  have r0: "vn_refcount (node_at s cur) \<noteq> 0" using tr by (simp add: tree_node_def)
  define t where "t = (vf_stats s)\<lparr>vs_lookups := vs_lookups (vf_stats s) + 1\<rparr>"
  have cnt: "count_op (\<lambda>t. t\<lparr>vs_lookups := vs_lookups t + 1\<rparr>) (rk_vnode_get b (rk_vnode_get cur s)) =
      rk_vnode_get b (rk_vnode_get cur (with_stats t s))"
    "count_op (\<lambda>t. t\<lparr>vs_lookups := vs_lookups t + 1\<rparr>) (rk_vnode_get cur s) = rk_vnode_get cur (with_stats t s)" for b
    by (simp_all add: count_op_with_stats get_with_stats t_def)
      (simp_all add: rk_vnode_get_def)
  have put: "rk_vnode_put (ramfs_env now) cur (rk_vnode_get cur (with_stats u s)) = with_stats u s" for u
    using vnode_put_get [of cur "with_stats u s" "ramfs_env now"] assms(2) r0 by simp
  have trade: "rk_vnode_put (ramfs_env now) cur (rk_vnode_get b (rk_vnode_get cur (with_stats u s))) =
      rk_vnode_get b (with_stats u s)" for u b
    using trade_reference [of cur "with_stats u s" "ramfs_env now" b] assms(2) tr by simp
  show ?thesis
  proof (cases "c = ''.'' \<or> c = ''..''")
    case True
    then show ?thesis
      by (intro exI [of _ "vf_stats s"])
        (auto simp: resolve_step_def step_walk_def resolve_up_plain [OF assms])
  next
    case names: False
    show ?thesis
    proof (cases "vn_type (node_at s cur) \<noteq> FT_DIR \<or> RK_NAME_MAX < length c")
      case True
      then show ?thesis
        using put [of "vf_stats s"] names
        by (intro exI [of _ "vf_stats s"]) (auto simp: resolve_step_def resolve_down_def step_walk_def)
    next
      case False
      show ?thesis
      proof (cases "find_child s cur c")
        case None
        then show ?thesis
          using names False
          by (intro exI [of _ t])
            (simp add: resolve_step_def resolve_down_def step_walk_def ramfs_ops_def ramfs_lookup_def Let_def cnt put)
      next
        case (Some child)
        have "vn_mounted_here (node_at s child) = None"
          using parent_in_tree(2) [OF assms(1) child_in_tree(1) [OF assms Some]] by (simp add: tree_node_def)
        then show ?thesis
          using names False Some
          by (intro exI [of _ t])
            (simp add: resolve_step_def resolve_down_def step_walk_def ramfs_ops_def ramfs_lookup_def Let_def
              cnt trade cross_plain)
      qed
    qed
  qed
qed

lemma resolve_walk_plain:
  assumes "plain_tree s" "cur < length (vf_nodes s)"
  shows "\<exists>t. resolve_walk (ramfs_env now) cur depth p (rk_vnode_get cur s) =
    (tree_walk s cur depth (components p),
     case tree_walk s cur depth (components p) of
       Inl _ \<Rightarrow> with_stats t s | Inr v \<Rightarrow> rk_vnode_get v (with_stats t s))"
  using assms
proof (induction "length p" arbitrary: p cur depth s rule: less_induct)
  case less
  let ?c = "fst (next_component p)" and ?r = "snd (next_component p)"
  show ?case
  proof (cases "?c = []")
    case True
    then have "components p = []" "resolve_walk (ramfs_env now) cur depth p (rk_vnode_get cur s) = (Inr cur, rk_vnode_get cur s)"
      by (simp_all add: components.simps [of p] resolve_walk.simps [of _ _ _ p])
    then show ?thesis by (intro exI [of _ "vf_stats s"]) simp
  next
    case False
    have comps: "components p = ?c # components ?r" using False by (simp add: components.simps [of p])
    obtain t where t: "resolve_step (ramfs_env now) cur depth ?c (rk_vnode_get cur s) =
      (step_walk s cur depth ?c,
       case step_walk s cur depth ?c of Inl _ \<Rightarrow> with_stats t s | Inr (v, _) \<Rightarrow> rk_vnode_get v (with_stats t s))"
      using resolve_step_plain [OF less.prems, of now depth ?c] by blast
    show ?thesis
    proof (cases "step_walk s cur depth ?c")
      case (Inl err)
      then have "tree_walk s cur depth (components p) = Inl err" unfolding comps tree_walk_step by simp
      moreover have "resolve_walk (ramfs_env now) cur depth p (rk_vnode_get cur s) = (Inl err, with_stats t s)"
        using False t Inl by (simp add: resolve_walk.simps [of _ _ _ p])
      ultimately show ?thesis by (intro exI [of _ t]) simp
    next
      case (Inr vd)
      obtain v d where vd: "vd = (v, d)" by (cases vd)
      have r: "resolve_walk (ramfs_env now) cur depth p (rk_vnode_get cur s) =
          resolve_walk (ramfs_env now) v d ?r (rk_vnode_get v (with_stats t s))"
        using False t Inr vd by (simp add: resolve_walk.simps [of _ _ _ p])
      have w: "tree_walk s cur depth (components p) = tree_walk s v d (components ?r)"
        unfolding comps tree_walk_step Inr vd by simp
      have "v < length (vf_nodes s)" using step_walk_range [OF less.prems] Inr vd by blast
      with less.hyps [of ?r "with_stats t s" v d] next_component_shrinks [OF False] less.prems(1)
      show ?thesis unfolding r w with_stats_simps(3) by simp
    qed
  qed
qed

lemma resolve_plain:
  assumes "plain_tree s" "\<And>b. base = Some b \<Longrightarrow> b < length (vf_nodes s)"
  shows "\<exists>t. rk_vfs_resolve (ramfs_env now) base path s =
    (path_walk s base path,
     case path_walk s base path of Inl _ \<Rightarrow> with_stats t s | Inr v \<Rightarrow> rk_vnode_get v (with_stats t s))"
proof (cases "if is_absolute path \<or> base = None then vf_root s else base")
  case None
  then show ?thesis by (intro exI [of _ "vf_stats s"]) (simp add: rk_vfs_resolve_def path_walk_def)
next
  case (Some v)
  then have "vf_root s = Some v \<or> base = Some v" by presburger
  then have v: "v < length (vf_nodes s)"
  proof
    assume "vf_root s = Some v"
    then show ?thesis using assms(1) by (simp add: plain_tree_def)
  qed (rule assms(2))
  have "vn_mounted_here (node_at s v) = None"
    using parent_in_tree(2) [OF assms(1) v] unfolding tree_node_def by blast
  then have c: "cross_mount s v = v" by (rule cross_plain)
  show ?thesis
    unfolding rk_vfs_resolve_def path_walk_def Let_def Some option.case c
    by (rule resolve_walk_plain [OF assms(1) v])
qed

section \<open>Containment\<close>

text \<open>\<open>below s b n v\<close>: \<open>v\<close> is \<open>n\<close> levels below the directory \<open>b\<close>.\<close>

inductive below :: "vfs \<Rightarrow> nat \<Rightarrow> nat \<Rightarrow> nat \<Rightarrow> bool" for s b where
  base: "below s b 0 b"
| child: "below s b n v \<Longrightarrow> v < length (vf_nodes s) \<Longrightarrow> c \<in> set (rn_children (node_at s v)) \<Longrightarrow> below s b (Suc n) c"

inductive_cases below_SucE: "below s b (Suc n) v"

lemma step_walk_below:
  assumes "plain_tree s" "cur < length (vf_nodes s)" "below s b depth cur" "step_walk s cur depth c = Inr (v, d)"
  shows "below s b d v"
proof -
  consider (stay) "v = cur" "d = depth" | (up) n where "depth = Suc n" "v = parent_of s cur" "d = n"
    | (down) "find_child s cur c = Some v" "d = Suc depth"
    using assms(4) by (cases depth) (auto simp: step_walk_def split: if_splits option.splits)
  then show ?thesis
  proof cases
    case up
    from assms(3) [unfolded up(1)] obtain u where u: "below s b n u" "u < length (vf_nodes s)"
      "cur \<in> set (rn_children (node_at s u))"
      by (rule below_SucE)
    have "rn_parent (node_at s cur) = Some u"
      using parent_in_tree(2) [OF assms(1) u(2)] u(3) unfolding tree_node_def by blast
    then show ?thesis using u(1) up by (simp add: parent_of_def)
  next
    case down
    then show ?thesis
      using below.child [OF assms(3,2) child_in_tree(3) [OF assms(1,2) down(1)]] by simp
  qed (use assms(3) in simp)
qed

lemma tree_walk_below:
  assumes "plain_tree s" "cur < length (vf_nodes s)" "below s b depth cur" "tree_walk s cur depth cs = Inr v"
  shows "\<exists>n. below s b n v"
  using assms
proof (induction cs arbitrary: cur depth)
  case (Cons c cs)
  obtain v' d' where s: "step_walk s cur depth c = Inr (v', d')" "tree_walk s v' d' cs = Inr v"
    using Cons.prems(4) unfolding tree_walk_step by (auto split: sum.splits)
  show ?case
    by (rule Cons.IH [OF assms(1) step_walk_range [OF Cons.prems(1,2) s(1)]
      step_walk_below [OF Cons.prems(1-3) s(1)] s(2)])
qed auto

text \<open>
  C28. On a tree without mounts, resolving a path computes the walk over the directory tree
  (each component in turn, \<open>..\<close> clamped at the start), and leaves the whole state as it was but
  for the lookup counter and one new reference to the vnode it returns; an error keeps no
  reference.
\<close>
theorem resolve_refines_walk:
  assumes "plain_tree s" "\<And>b. base = Some b \<Longrightarrow> b < length (vf_nodes s)"
  shows "\<exists>t. rk_vfs_resolve (ramfs_env now) base path s =
    (path_walk s base path,
     case path_walk s base path of Inl _ \<Rightarrow> with_stats t s | Inr v \<Rightarrow> rk_vnode_get v (with_stats t s))"
  using assms by (rule resolve_plain)

text \<open>
  C27. A directory is a boundary for relative paths: whatever dots and slashes a path that does
  not start with a slash contains, what it resolves to from a directory is that directory or
  lies below it.
\<close>
theorem relative_path_contained:
  assumes "plain_tree s" "b < length (vf_nodes s)" "\<not> is_absolute path"
    and "rk_vfs_resolve (ramfs_env now) (Some b) path s = (Inr v, s')"
  shows "\<exists>n. below s b n v"
proof -
  have "path_walk s (Some b) path = Inr v"
    using resolve_plain [OF assms(1), of "Some b" now path] assms(2,4) by auto
  then have "tree_walk s b 0 (components path) = Inr v" using assms(3) by (simp add: path_walk_def)
  from tree_walk_below [OF assms(1,2) below.base this] show ?thesis .
qed

section \<open>Two directories\<close>

text \<open>A root with the directories \<open>/jail\<close> (vnode 1) and \<open>/jail/in\<close> (3), and \<open>/key\<close> (2).\<close>

definition demo_tree :: vfs where
  "demo_tree =
     (let e = ramfs_env 0;
          s = rk_ramfs_init vfs_empty;
          s = snd (rk_vfs_mount e [] ''/'' ''ramfs'' 0 [] s);
          s = snd (rk_vfs_mkdir e None ''/jail'' 0 s);
          s = snd (rk_vfs_mkdir e None ''/key'' 0 s)
      in snd (rk_vfs_mkdir e (Some 1) ''in'' 0 s))"

lemma demo_tree_shape:
  "length (vf_nodes demo_tree) = 4"
  "map (\<lambda>v. (rn_children (node_at demo_tree v), rn_parent (node_at demo_tree v), vn_mounted_here (node_at demo_tree v),
     vn_refcount (node_at demo_tree v))) [0, 1, 2, 3] =
     [([1, 2], None, None, 1), ([3], Some 0, None, 1), ([], Some 0, None, 1), ([], Some 1, None, 1)]"
  "vf_root demo_tree = Some 0"
  by code_simp+

lemma demo_walk:
  "fst (rk_vfs_resolve (ramfs_env 0) (Some 1) ''../../in/./..'' demo_tree) = Inr 1"
  "fst (rk_vfs_resolve (ramfs_env 0) (Some 1) ''/key'' demo_tree) = Inr 2"
  by code_simp+

lemma demo_node:
  "rn_children (node_at demo_tree 0) = [1, 2]" "rn_children (node_at demo_tree 1) = [3]"
  "rn_children (node_at demo_tree 2) = []" "rn_children (node_at demo_tree 3) = []"
  "rn_parent (node_at demo_tree 0) = None" "rn_parent (node_at demo_tree 1) = Some 0"
  "rn_parent (node_at demo_tree 2) = Some 0" "rn_parent (node_at demo_tree 3) = Some 1"
  "v < 4 \<Longrightarrow> vn_mounted_here (node_at demo_tree v) = None"
  "v < 4 \<Longrightarrow> vn_refcount (node_at demo_tree v) = 1"
proof -
  have "v < 4 \<Longrightarrow> v \<in> {0, 1, 2, 3}" by auto
  then show "rn_children (node_at demo_tree 0) = [1, 2]" "rn_children (node_at demo_tree 1) = [3]"
    "rn_children (node_at demo_tree 2) = []" "rn_children (node_at demo_tree 3) = []"
    "rn_parent (node_at demo_tree 0) = None" "rn_parent (node_at demo_tree 1) = Some 0"
    "rn_parent (node_at demo_tree 2) = Some 0" "rn_parent (node_at demo_tree 3) = Some 1"
    "v < 4 \<Longrightarrow> vn_mounted_here (node_at demo_tree v) = None"
    "v < 4 \<Longrightarrow> vn_refcount (node_at demo_tree v) = 1"
    using demo_tree_shape(2) by auto
qed

lemma demo_plain: "plain_tree demo_tree"
proof -
  have "tree_node demo_tree v" if v4: "v < 4" for v
  proof -
    consider "v = 0" | "v = 1" | "v = 2" | "v = 3" using v4 by linarith
    then show ?thesis
      by cases (simp_all add: tree_node_def demo_node demo_tree_shape(1) del: One_nat_def)
  qed
  then show ?thesis by (simp add: plain_tree_def demo_tree_shape(1,3))
qed

lemma resolve_refines_walk_witness:
  "path_walk demo_tree (Some 1) ''../../in/./..'' = Inr 1"
proof -
  obtain t where "rk_vfs_resolve (ramfs_env 0) (Some 1) ''../../in/./..'' demo_tree =
    (path_walk demo_tree (Some 1) ''../../in/./..'',
     case path_walk demo_tree (Some 1) ''../../in/./..'' of
       Inl _ \<Rightarrow> with_stats t demo_tree | Inr v \<Rightarrow> rk_vnode_get v (with_stats t demo_tree))"
    using resolve_refines_walk [OF demo_plain, of "Some 1" 0 "''../../in/./..''"] demo_tree_shape(1) by auto
  then have "path_walk demo_tree (Some 1) ''../../in/./..'' =
      fst (rk_vfs_resolve (ramfs_env 0) (Some 1) ''../../in/./..'' demo_tree)"
    by (simp only: fst_conv)
  then show ?thesis by (simp only: demo_walk(1))
qed

lemma relative_path_contained_witness: "\<exists>n. below demo_tree 1 n 1"
proof -
  obtain s' where "rk_vfs_resolve (ramfs_env 0) (Some 1) ''../../in/./..'' demo_tree = (Inr 1, s')"
    using demo_walk(1) by (metis prod.collapse)
  moreover have "\<not> is_absolute ''../../in/./..''" by (simp add: is_absolute_def)
  moreover have "1 < length (vf_nodes demo_tree)" by (simp add: demo_tree_shape(1))
  ultimately show ?thesis by (intro relative_path_contained [OF demo_plain])
qed

text \<open>
  An absolute path is resolved from the global root even when a directory is given, so the
  holder of a directory reaches vnodes that are not below it: from \<open>/jail\<close> the path \<open>/key\<close>
  resolves to the directory \<open>/key\<close>.
\<close>
theorem absolute_path_escapes:
  "(\<forall>e b path s. is_absolute path \<longrightarrow> rk_vfs_resolve e (Some b) path s = rk_vfs_resolve e None path s) \<and>
   plain_tree demo_tree \<and>
   fst (rk_vfs_resolve (ramfs_env 0) (Some 1) ''/key'' demo_tree) = Inr 2 \<and> \<not> (\<exists>n. below demo_tree 1 n 2)"
proof (intro conjI)
  have "v \<in> {1, 3}" if "below demo_tree 1 n v" for n v
    using that by induction (auto simp: demo_node simp del: One_nat_def)
  then show "\<not> (\<exists>n. below demo_tree 1 n 2)" by fastforce
  show "fst (rk_vfs_resolve (ramfs_env 0) (Some 1) ''/key'' demo_tree) = Inr 2" by (rule demo_walk(2))
qed (simp_all add: rk_vfs_resolve_def demo_plain)

lemma absolute_path_escapes_witness:
  "rk_vfs_resolve (ramfs_env 0) (Some 1) ''/key'' demo_tree = rk_vfs_resolve (ramfs_env 0) None ''/key'' demo_tree"
proof -
  have "is_absolute ''/key''" by (simp add: is_absolute_def)
  then show ?thesis using absolute_path_escapes by blast
qed

text \<open>
  Crossing a mount point moves to the mounted root without taking a reference to it, and
  the walk drops one when it goes on: looking up a single path below a freshly mounted file
  system releases its root vnode, although the mount still leads to it.
\<close>
theorem lookup_frees_mounted_root:
  "let e = ramfs_env 0;
       s = snd (rk_vfs_mount e [] ''/jail'' ''ramfs'' 0 [] demo_tree);
       s' = snd (rk_vfs_resolve e None ''/jail/x'' s)
   in cross_mount s 1 = 4 \<and> vn_live (node_at s 4) \<and> cross_mount s' 1 = 4 \<and> \<not> vn_live (node_at s' 4)"
  by code_simp

section \<open>Directories as maps\<close>

definition dir_view :: "vfs \<Rightarrow> nat \<Rightarrow> string \<Rightarrow> nat option" where
  "dir_view s d = find_child s d"

definition dir_ok :: "vfs \<Rightarrow> nat \<Rightarrow> bool" where
  "dir_ok s d \<longleftrightarrow> d < length (vf_nodes s) \<and>
     (\<forall>c \<in> set (rn_children (node_at s d)). c < length (vf_nodes s) \<and> c \<noteq> d) \<and>
     distinct (map (\<lambda>c. rn_name (node_at s c)) (rn_children (node_at s d)))"

lemma find_append_fresh:
  "find P (xs @ [y]) = (case find P xs of Some x \<Rightarrow> Some x | None \<Rightarrow> if P y then Some y else None)"
  by (induction xs) auto

lemma find_remove1:
  "distinct (map f xs) \<Longrightarrow> c \<in> set xs \<Longrightarrow>
     find (\<lambda>x. f x = k) (remove1 c xs) = (if k = f c then None else find (\<lambda>x. f x = k) xs)"
proof (induction xs)
  case (Cons x xs)
  have "find (\<lambda>y. f y = f x) xs = None" using Cons.prems(1) by (simp add: find_None_iff) (metis image_eqI)
  then show ?case using Cons by (cases "x = c") auto
qed simp

lemma find_cong_set: "(\<And>x. x \<in> set xs \<Longrightarrow> P x = Q x) \<Longrightarrow> find P xs = find Q xs"
  by (induction xs) auto

lemma node_at_set_node:
  "node_at (set_node v f s) w = (if w = v \<and> v < length (vf_nodes s) then f (node_at s v) else node_at s w)"
  by (auto simp: set_node_def node_at_def nth_list_update list_update_beyond)

lemma put_with_names [simp]:
  "rn_name (node_at (vnode_put_with ramfs_release v s) w) = rn_name (node_at s w)"
  "rn_children (node_at (vnode_put_with ramfs_release v s) w) = rn_children (node_at s w)"
  "length (vf_nodes (vnode_put_with ramfs_release v s)) = length (vf_nodes s)"
  by (simp_all add: vnode_put_with_def Let_def ramfs_release_def node_at_set_node)

lemma mtime_names [simp]:
  "rn_name (node_at (set_mtime now v s) w) = rn_name (node_at s w)"
  "rn_children (node_at (set_mtime now v s) w) = rn_children (node_at s w)"
  "length (vf_nodes (set_mtime now v s)) = length (vf_nodes s)"
  by (simp_all add: set_mtime_def node_at_set_node)

lemma create_facts:
  assumes ok: "dir_ok s d" and name: "length name \<le> RK_NAME_MAX"
    and r: "ramfs_create True now d name ty mode s = (Inr n, s')"
  shows "n = length (vf_nodes s)" "find_child s d name = None" "name \<noteq> ''.''" "name \<noteq> ''..''"
    "\<And>w. w < length (vf_nodes s) \<Longrightarrow>
       rn_children (node_at s' w) = (if w = d then rn_children (node_at s d) @ [n] else rn_children (node_at s w)) \<and>
       rn_name (node_at s' w) = rn_name (node_at s w)"
    "length (vf_nodes s') = Suc (length (vf_nodes s))" "vn_type (node_at s' n) = ty"
    "rn_parent (node_at s' n) = Some d" "rn_name (node_at s' n) = name" "rn_children (node_at s' n) = []"
proof -
  let ?n = "length (vf_nodes s)"
  have d: "d < ?n" using ok by (simp add: dir_ok_def)
  define g where "g = vf_next_ino s + 1"
  define nd where "nd = blank_node\<lparr>vn_ino := g, vn_type := ty, vn_mode := mode, rn_name := name,
      rn_parent := Some d, vn_atime := now, vn_mtime := now, vn_ctime := now\<rparr>"
  have "vn_type (node_at s d) = FT_DIR" using r by (auto simp: ramfs_create_def split: if_splits)
  moreover have l: "find_child s d name = None \<and> name \<noteq> ''.'' \<and> name \<noteq> ''..''"
    using r by (auto simp: ramfs_create_def ramfs_lookup_def Let_def split: if_splits option.splits)
  ultimately have e: "n = ?n" and cr: "ramfs_create True now d name ty mode s =
      (Inr ?n, rk_vnode_get ?n (set_mtime now d (set_node d (\<lambda>m. m\<lparr>rn_children := rn_children m @ [?n]\<rparr>)
        (s\<lparr>vf_next_ino := g, vf_nodes := vf_nodes s @ [nd]\<rparr>))))"
    using r name by (auto simp: ramfs_create_def ramfs_lookup_def ramfs_new_def rk_vfs_next_ino_def Let_def g_def nd_def)
  show "find_child s d name = None" "name \<noteq> ''.''" "name \<noteq> ''..''" using l by auto
  have nd: "rn_name nd = name" "rn_parent nd = Some d" "rn_children nd = []" "vn_type nd = ty"
    by (simp_all add: nd_def blank_node_def)
  have s': "s' = rk_vnode_get ?n (set_mtime now d (set_node d (\<lambda>m. m\<lparr>rn_children := rn_children m @ [?n]\<rparr>)
        (s\<lparr>vf_next_ino := g, vf_nodes := vf_nodes s @ [nd]\<rparr>)))"
    using r unfolding cr by auto
  have a: "node_at (s\<lparr>vf_next_ino := g, vf_nodes := vf_nodes s @ [nd]\<rparr>) w = (if w < ?n then node_at s w else nd)"
    if "w \<le> ?n" for w
    using that by (simp add: node_at_def nth_append)
  show "n = ?n" by (rule e)
  show "length (vf_nodes s') = Suc ?n" by (simp add: s')
  show "rn_children (node_at s' w) = (if w = d then rn_children (node_at s d) @ [n] else rn_children (node_at s w)) \<and>
       rn_name (node_at s' w) = rn_name (node_at s w)" if "w < ?n" for w
    using that d e a [of w] by (cases "w = d") (simp_all add: s' node_at_set_node)
  show "vn_type (node_at s' n) = ty" "rn_parent (node_at s' n) = Some d" "rn_name (node_at s' n) = name"
    "rn_children (node_at s' n) = []"
    using d e a [of ?n] nd by (simp_all add: s' node_at_set_node set_mtime_def)
qed

lemma dir_view_create:
  assumes ok: "dir_ok s d" and name: "length name \<le> RK_NAME_MAX"
    and r: "ramfs_create True now d name ty mode s = (Inr n, s')"
  shows "dir_view s' d = (dir_view s d)(name \<mapsto> n)" "dir_ok s' d"
proof -
  note F = create_facts [OF assms]
  have d: "d < length (vf_nodes s)" and c: "\<forall>c \<in> set (rn_children (node_at s d)). c < length (vf_nodes s) \<and> c \<noteq> d"
    and dn: "distinct (map (\<lambda>c. rn_name (node_at s c)) (rn_children (node_at s d)))"
    using ok by (auto simp: dir_ok_def)
  have ch: "rn_children (node_at s' d) = rn_children (node_at s d) @ [n]" using F(5) [OF d] by simp
  have nm: "rn_name (node_at s' x) = rn_name (node_at s x)" if "x \<in> set (rn_children (node_at s d))" for x
    using c F(5) that by simp
  have fd: "find (\<lambda>c. rn_name (node_at s' c) = k) (rn_children (node_at s d)) = find_child s d k" for k
    unfolding find_child_def by (rule find_cong_set) (simp add: nm)
  show "dir_view s' d = (dir_view s d)(name \<mapsto> n)"
  proof
    fix k
    have "dir_view s' d k = (case find_child s d k of Some x \<Rightarrow> Some x | None \<Rightarrow> if name = k then Some n else None)"
      unfolding dir_view_def find_child_def [of s'] ch find_append_fresh fd F(9) ..
    then show "dir_view s' d k = ((dir_view s d)(name \<mapsto> n)) k"
      using F(2) by (auto simp: dir_view_def split: option.splits)
  qed
  have "name \<notin> (\<lambda>c. rn_name (node_at s c)) ` set (rn_children (node_at s d))"
    using F(2) by (auto simp: find_child_def find_None_iff)
  moreover have m: "map (\<lambda>c. rn_name (node_at s' c)) (rn_children (node_at s d)) =
      map (\<lambda>c. rn_name (node_at s c)) (rn_children (node_at s d))"
    using nm by (rule map_cong [OF refl])
  ultimately have "distinct (map (\<lambda>c. rn_name (node_at s' c)) (rn_children (node_at s' d)))"
    unfolding ch map_append m using dn F(9) by auto
  then show "dir_ok s' d"
    using c d F(1,6) ch unfolding dir_ok_def by (auto simp: less_Suc_eq)
qed

lemma dir_view_unlink:
  assumes ok: "dir_ok s d" and r: "ramfs_unlink now d name s = (Inr (), s')"
  shows "dir_view s' d = (dir_view s d)(name := None)" "dir_ok s' d"
proof -
  have d: "d < length (vf_nodes s)" and c: "\<forall>c \<in> set (rn_children (node_at s d)). c < length (vf_nodes s) \<and> c \<noteq> d"
    and dn: "distinct (map (\<lambda>c. rn_name (node_at s c)) (rn_children (node_at s d)))"
    using ok by (auto simp: dir_ok_def)
  obtain x where x: "find_child s d name = Some x"
    and s': "s' = set_mtime now d (vnode_put_with ramfs_release x
      (set_node d (\<lambda>n. n\<lparr>rn_children := remove1 x (rn_children n)\<rparr>) s))"
    using r by (auto simp: ramfs_unlink_def Let_def split: option.splits if_splits)
  have xm: "x \<in> set (rn_children (node_at s d))" "rn_name (node_at s x) = name"
    using x by (auto simp: find_child_def find_Some_iff)
  have ch: "rn_children (node_at s' d) = remove1 x (rn_children (node_at s d))"
    using d by (simp add: s' node_at_set_node)
  have nm: "rn_name (node_at s' w) = rn_name (node_at s w)" for w by (simp add: s' node_at_set_node)
  show "dir_view s' d = (dir_view s d)(name := None)"
    using find_remove1 [OF dn xm(1)] xm(2) by (auto simp: dir_view_def find_child_def ch nm)
  have "distinct (map (\<lambda>c. rn_name (node_at s c)) (remove1 x (rn_children (node_at s d))))"
    using dn by (auto simp: distinct_map intro: inj_on_diff)
  then show "dir_ok s' d"
    using c d set_remove1_subset [of x "rn_children (node_at s d)"]
    by (auto simp: dir_ok_def ch nm) (auto simp: s')
qed

text \<open>
  A ramfs directory is a finite map from names to vnodes: a successful create adds exactly
  one binding, to a fresh vnode of the requested type whose parent is the directory, and fails
  on a name already bound; a successful unlink removes exactly one binding; names stay unique.
\<close>
theorem directory_is_a_map:
  assumes "dir_ok s d"
  shows "(length name \<le> RK_NAME_MAX \<and> ramfs_create True now d name ty mode s = (Inr n, s') \<longrightarrow>
      dir_view s d name = None \<and> dir_view s' d = (dir_view s d)(name \<mapsto> n) \<and> dir_ok s' d \<and>
      n = length (vf_nodes s) \<and> vn_type (node_at s' n) = ty \<and> rn_parent (node_at s' n) = Some d) \<and>
    (dir_view s d name \<noteq> None \<longrightarrow> fst (ramfs_create True now d name ty mode s) \<in> {Inl EEXIST, Inl ENOTDIR}) \<and>
    (ramfs_unlink now d name s = (Inr (), s'') \<longrightarrow>
      dir_view s'' d = (dir_view s d)(name := None) \<and> dir_ok s'' d)"
proof (intro conjI impI)
  assume "length name \<le> RK_NAME_MAX \<and> ramfs_create True now d name ty mode s = (Inr n, s')"
  then have r: "length name \<le> RK_NAME_MAX" "ramfs_create True now d name ty mode s = (Inr n, s')" by auto
  note F = create_facts [OF assms r] and V = dir_view_create [OF assms r]
  show "dir_view s d name = None" using F(2) by (simp add: dir_view_def)
  show "dir_view s' d = (dir_view s d)(name \<mapsto> n)" "dir_ok s' d" by (rule V)+
  show "n = length (vf_nodes s)" "vn_type (node_at s' n) = ty" "rn_parent (node_at s' n) = Some d"
    by (rule F)+
next
  show "dir_view s d name \<noteq> None \<Longrightarrow> fst (ramfs_create True now d name ty mode s) \<in> {Inl EEXIST, Inl ENOTDIR}"
    by (auto simp: dir_view_def ramfs_create_def ramfs_lookup_def Let_def)
next
  assume "ramfs_unlink now d name s = (Inr (), s'')"
  from dir_view_unlink [OF assms this]
  show "dir_view s'' d = (dir_view s d)(name := None)" "dir_ok s'' d" by auto
qed

lemma directory_is_a_map_witness:
  "\<exists>n s'. ramfs_create True 0 0 ''tmp'' FT_DIR 0 demo_tree = (Inr n, s') \<and> n = 4 \<and>
     dir_view s' 0 ''tmp'' = Some 4 \<and> dir_view s' 0 ''key'' = dir_view demo_tree 0 ''key''"
proof -
  have "distinct (map (\<lambda>c. rn_name (node_at demo_tree c)) [1, 2])" by code_simp
  then have ok: "dir_ok demo_tree 0" by (simp add: dir_ok_def demo_tree_shape(1) demo_node)
  obtain n s' where r: "ramfs_create True 0 0 ''tmp'' FT_DIR 0 demo_tree = (Inr n, s')"
  proof -
    have "case fst (ramfs_create True 0 0 ''tmp'' FT_DIR 0 demo_tree) of Inl _ \<Rightarrow> False | Inr _ \<Rightarrow> True"
      by code_simp
    then show ?thesis
      using that by (cases "ramfs_create True 0 0 ''tmp'' FT_DIR 0 demo_tree") (auto split: sum.splits)
  qed
  have "length ''tmp'' \<le> RK_NAME_MAX" by (simp add: RK_NAME_MAX_def)
  then show ?thesis
    using directory_is_a_map [OF ok, of "''tmp''" 0 FT_DIR 0 n s' s'] r demo_tree_shape(1) by auto
qed

end
