(* ===== verification/RK_VfsWhole.thy ===== *)
theory RK_VfsWhole
  imports RK_VfsPaths
begin

text \<open>
  Whole files by name: what \<open>rk_vfs_write_file\<close> stores, \<open>rk_vfs_read_file\<close> returns.
\<close>

section \<open>What an operation on contents leaves alone\<close>

definition tree_part :: "vnode \<Rightarrow> _" where
  "tree_part n = (vn_type n, rn_name n, rn_children n, rn_parent n, vn_mounted_here n)"

definition same_tree :: "vfs \<Rightarrow> vfs \<Rightarrow> bool" where
  "same_tree s s' \<longleftrightarrow> length (vf_nodes s') = length (vf_nodes s) \<and> vf_root s' = vf_root s \<and>
     (\<forall>w < length (vf_nodes s). tree_part (node_at s' w) = tree_part (node_at s w))"

definition same_refs :: "vfs \<Rightarrow> vfs \<Rightarrow> bool" where
  "same_refs s s' \<longleftrightarrow> (\<forall>w < length (vf_nodes s). vn_refcount (node_at s' w) = vn_refcount (node_at s w))"

lemma same_tree_refl [simp]: "same_tree s s" "same_refs s s"
  by (simp_all add: same_tree_def same_refs_def)

lemma same_tree_trans: "same_tree s t \<Longrightarrow> same_tree t u \<Longrightarrow> same_tree s u"
  by (simp add: same_tree_def)

lemma same_tree_set:
  "(\<And>n. tree_part (f n) = tree_part n) \<Longrightarrow> same_tree s (set_node v f s)"
  by (simp add: same_tree_def node_at_set_node)

lemma same_tree_with [simp]: "same_tree s (with_stats t s)" "same_tree s (count_op f s)" "same_tree s (rk_vnode_get v s)"
  by (simp_all add: same_tree_def) (simp add: tree_part_def)

lemma same_fields:
  assumes "same_tree s s'" "w < length (vf_nodes s)"
  shows "vn_type (node_at s' w) = vn_type (node_at s w)" "rn_name (node_at s' w) = rn_name (node_at s w)"
    "rn_children (node_at s' w) = rn_children (node_at s w)" "rn_parent (node_at s' w) = rn_parent (node_at s w)"
    "vn_mounted_here (node_at s' w) = vn_mounted_here (node_at s w)"
  using assms by (simp_all add: same_tree_def tree_part_def)

lemma find_child_same:
  assumes "plain_tree s" "same_tree s s'" "w < length (vf_nodes s)"
  shows "find_child s' w name = find_child s w name"
proof -
  have "c < length (vf_nodes s)" if "c \<in> set (rn_children (node_at s w))" for c
    using parent_in_tree(2) [OF assms(1,3)] that unfolding tree_node_def by blast
  then show ?thesis
    unfolding find_child_def same_fields(3) [OF assms(2,3)]
    by (intro find_cong_set) (simp add: same_fields(2) [OF assms(2)])
qed

lemma tree_walk_same:
  assumes "plain_tree s" "same_tree s s'"
  shows "cur < length (vf_nodes s) \<Longrightarrow> tree_walk s' cur depth cs = tree_walk s cur depth cs"
proof (induction cs arbitrary: cur depth)
  case (Cons c cs)
  have "step_walk s' cur depth c = step_walk s cur depth c"
    by (simp add: step_walk_def parent_of_def same_fields [OF assms(2) Cons.prems]
      find_child_same [OF assms Cons.prems])
  then show ?case
    using Cons.IH step_walk_range [OF assms(1) Cons.prems]
    unfolding tree_walk_step by (auto split: sum.split)
qed simp

lemma path_walk_same:
  assumes "plain_tree s" "same_tree s s'"
  shows "path_walk s' None path = path_walk s None path"
proof (cases "vf_root s")
  case None
  then show ?thesis using assms(2) by (simp add: path_walk_def same_tree_def)
next
  case (Some r)
  then have "r < length (vf_nodes s)" using assms(1) by (simp add: plain_tree_def)
  then show ?thesis using tree_walk_same [OF assms] assms(2) Some by (simp add: path_walk_def same_tree_def)
qed

lemma plain_tree_same:
  assumes "plain_tree s" "same_tree s s'" "same_refs s s'"
  shows "plain_tree s'"
proof -
  have l: "length (vf_nodes s') = length (vf_nodes s)" "vf_root s' = vf_root s" using assms(2) by (auto simp: same_tree_def)
  have "tree_node s' v" if v: "v < length (vf_nodes s)" for v
  proof -
    have t: "tree_node s v" by (rule parent_in_tree(2) [OF assms(1) v])
    have "c < length (vf_nodes s) \<and> rn_parent (node_at s' c) = Some v"
      if "c \<in> set (rn_children (node_at s v))" for c
    proof -
      have "c < length (vf_nodes s) \<and> rn_parent (node_at s c) = Some v"
        using t that unfolding tree_node_def by blast
      then show ?thesis using same_fields(4) [OF assms(2)] by simp
    qed
    then show ?thesis
      using t assms(3) v unfolding tree_node_def same_refs_def l same_fields [OF assms(2) v] by simp
  qed
  then show ?thesis using assms(1) by (simp add: plain_tree_def l)
qed

section \<open>Opening an existing file\<close>

lemma open_existing:
  assumes "plain_tree s" "path_walk s None path = Inr v" "vn_type (node_at s v) = FT_REG"
    and "\<not> on flags RK_O_EXCL" "\<not> on flags RK_O_DIR"
  shows "\<exists>t. rk_vfs_open (ramfs_env now) None path flags mode s =
    (let u = rk_vnode_get v (with_stats t s);
         u = (if on flags RK_O_TRUNC then set_mtime now v (set_node v (\<lambda>n. n\<lparr>vn_size := 0\<rparr>) u) else u)
     in Some (Inr \<lparr>fl_vnode = v, fl_pos = (if on flags RK_O_APPEND then vn_size (node_at u v) else 0),
                   fl_flags = flags, fl_rights = flags AND (RK_O_READ OR RK_O_WRITE), fl_refcount = 1\<rparr>,
              count_op (\<lambda>t. t\<lparr>vs_opens := vs_opens t + 1\<rparr>) u))"
proof -
  obtain t where "rk_vfs_resolve (ramfs_env now) None path s = (Inr v, rk_vnode_get v (with_stats t s))"
    using resolve_plain [OF assms(1), of None now path] assms(2) by auto
  then show ?thesis
    using assms(3-5)
    by (intro exI [of _ t])
      (simp add: rk_vfs_open_def open_vnode_def ramfs_ops_def ramfs_truncate_def Let_def)
qed

lemma tree_walk_range:
  "plain_tree s \<Longrightarrow> cur < length (vf_nodes s) \<Longrightarrow> tree_walk s cur depth cs = Inr v \<Longrightarrow> v < length (vf_nodes s)"
proof (induction cs arbitrary: cur depth)
  case (Cons c cs)
  obtain v' d' where s: "step_walk s cur depth c = Inr (v', d')" "tree_walk s v' d' cs = Inr v"
    using Cons.prems(3) unfolding tree_walk_step by (auto split: sum.splits)
  show ?case by (rule Cons.IH [OF Cons.prems(1) step_walk_range [OF Cons.prems(1,2) s(1)] s(2)])
qed simp

lemma path_walk_range:
  assumes "plain_tree s" "path_walk s None path = Inr v"
  shows "v < length (vf_nodes s)"
proof -
  obtain r where r: "vf_root s = Some r" "tree_walk s r 0 (components path) = Inr v"
    using assms(2) by (auto simp: path_walk_def split: option.splits)
  then have "r < length (vf_nodes s)" using assms(1) by (simp add: plain_tree_def)
  then show ?thesis using tree_walk_range [OF assms(1)] r(2) by blast
qed

section \<open>Writing\<close>

definition keeps :: "vfs \<Rightarrow> vfs \<Rightarrow> bool" where
  "keeps s s' \<longleftrightarrow> same_tree s s' \<and> same_refs s s'"

lemma keeps_refl [simp]: "keeps s s"
  by (simp add: keeps_def)

lemma keeps_trans: "keeps s t \<Longrightarrow> keeps t u \<Longrightarrow> keeps s u"
  by (auto simp: keeps_def same_tree_def same_refs_def)

lemma keeps_set:
  "(\<And>n. tree_part (f n) = tree_part n \<and> vn_refcount (f n) = vn_refcount n) \<Longrightarrow> keeps s (set_node v f s)"
  by (simp add: keeps_def same_tree_set same_refs_def node_at_set_node)

lemma keeps_count [simp]: "keeps s (count_op f s)"
  by (simp add: keeps_def same_refs_def)

lemma keeps_mtime [simp]: "keeps s (set_mtime now v s)"
  unfolding set_mtime_def by (rule keeps_set) (simp add: tree_part_def)

lemma keeps_data: "keeps s (set_node v (\<lambda>n. n\<lparr>rn_data := g n\<rparr>) s)" "keeps s (set_node v (\<lambda>n. n\<lparr>vn_size := h n\<rparr>) s)"
  by (rule keeps_set, simp add: tree_part_def)+

lemma grow_keeps: "ramfs_grow mem v want s = Some (r, s') \<Longrightarrow> keeps s s'"
  using keeps_data(1) by (auto simp: ramfs_grow_def Let_def split: if_splits option.splits)

lemma write_keeps:
  assumes "ramfs_write mem now v buf off s = Some (r, s')"
  shows "keeps s s'"
proof (cases "2 ^ 64 \<le> off + length buf")
  case True
  then show ?thesis using assms by (simp add: ramfs_write_def)
next
  case False
  obtain r1 s1 where g: "ramfs_grow mem v (off + length buf) s = Some (r1, s1)"
    using assms False by (auto simp: ramfs_write_def split: option.splits)
  have k: "keeps s s1" by (rule grow_keeps [OF g])
  show ?thesis
  proof (cases r1)
    case (Inl err)
    then show ?thesis using assms False g k by (simp add: ramfs_write_def)
  next
    case (Inr u)
    define s2 where "s2 = (if vn_size (node_at s1 v) < off
        then set_node v (\<lambda>n. n\<lparr>rn_data := store_bytes (vn_size n) (replicate (off - vn_size n) 0) (rn_data n)\<rparr>) s1 else s1)"
    define s3 where "s3 = set_node v (\<lambda>n. n\<lparr>rn_data := store_bytes off buf (rn_data n)\<rparr>) s2"
    define s4 where "s4 = (if vn_size (node_at s3 v) < off + length buf
        then set_node v (\<lambda>n. n\<lparr>vn_size := off + length buf\<rparr>) s3 else s3)"
    have "s' = set_mtime now v s4"
      using assms unfolding ramfs_write_def if_not_P [OF False] g Inr Let_def s2_def s3_def s4_def by simp
    moreover have "keeps s1 s2" unfolding s2_def by (simp add: keeps_data(1))
    moreover have "keeps s2 s3" unfolding s3_def by (rule keeps_data)
    moreover have "keeps s3 s4" unfolding s4_def by (simp only: keeps_data keeps_refl split: if_split) simp
    ultimately show ?thesis using k keeps_trans keeps_mtime by metis
  qed
qed

lemma file_ok_keeps_put:
  "file_ok (set_node v (\<lambda>n. n\<lparr>vn_refcount := h n\<rparr>) s) v = file_ok s v"
  "contents (set_node v (\<lambda>n. n\<lparr>vn_refcount := h n\<rparr>) s) v = contents s v"
  by (simp_all add: file_ok_def contents_def node_at_set_node)

text \<open>The last reference of a handle goes back; the vnode stays.\<close>

lemma put_back:
  assumes "plain_tree s" "v < length (vf_nodes s)" "keeps (rk_vnode_get v s) s'" "fl_vnode f = v" "fl_refcount f = 1"
  shows "\<exists>s''. snd (rk_file_put e f s') = s'' \<and> keeps s s'' \<and>
    file_ok s'' v = file_ok s' v \<and> contents s'' v = contents s' v"
proof -
  let ?h = "\<lambda>n. n\<lparr>vn_refcount := vn_refcount n - 1\<rparr>"
  have t: "tree_node s v" by (rule parent_in_tree(2) [OF assms(1,2)])
  have l: "length (vf_nodes s') = length (vf_nodes s)"
    using assms(3) by (simp add: keeps_def same_tree_def)
  have r: "vn_refcount (node_at s' w) = vn_refcount (node_at s w) + (if w = v then 1 else 0)"
    if "w < length (vf_nodes s)" for w
    using assms(3) that by (simp add: keeps_def same_refs_def node_get)
  have "vn_refcount (node_at s v) \<noteq> 0" using t by (simp add: tree_node_def)
  then have "snd (rk_file_put e f s') = set_node v ?h s'"
    using assms(2,4,5) l r [OF assms(2)]
    by (simp add: rk_file_put_def rk_vnode_put_def vnode_put_with_def Let_def)
  moreover have "same_tree s (set_node v ?h s')"
  proof -
    have "same_tree s s'" using assms(3) same_tree_with(3) same_tree_trans unfolding keeps_def by blast
    moreover have "same_tree s' (set_node v ?h s')" by (rule same_tree_set) (simp add: tree_part_def)
    ultimately show ?thesis by (rule same_tree_trans)
  qed
  moreover have "same_refs s (set_node v ?h s')"
    using l r by (simp add: same_refs_def node_at_set_node)
  ultimately show ?thesis by (simp add: keeps_def file_ok_keeps_put)
qed

lemma get_contents [simp]: "contents (rk_vnode_get v s) w = contents s w" "file_ok (rk_vnode_get v s) w = file_ok s w"
  by (simp_all add: contents_def file_ok_def node_get)

lemma with_stats_contents [simp]: "contents (with_stats t s) v = contents s v" "file_ok (with_stats t s) v = file_ok s v"
  by (simp_all add: contents_def file_ok_def)

lemma write_file_existing:
  assumes "plain_tree s" "path_walk s None path = Inr v" "vn_type (node_at s v) = FT_REG" "file_ok s v"
    and "length buf \<le> 2 ^ 63"
  shows "\<exists>s'. rk_vfs_write_file (ramfs_env now) path buf s = Some (Inr (), s') \<and> keeps s s' \<and>
    file_ok s' v \<and> contents s' v = buf"
proof -
  let ?fl = "RK_O_WRITE OR RK_O_CREAT OR RK_O_TRUNC"
  have fl: "\<not> on ?fl RK_O_EXCL" "\<not> on ?fl RK_O_DIR" "on ?fl RK_O_TRUNC" "\<not> on ?fl RK_O_APPEND" "on ?fl RK_O_WRITE"
    by (simp_all add: on_def RK_O_WRITE_def RK_O_CREAT_def RK_O_TRUNC_def RK_O_EXCL_def RK_O_DIR_def RK_O_APPEND_def)
  have v: "v < length (vf_nodes s)" by (rule path_walk_range [OF assms(1,2)])
  obtain t where o: "rk_vfs_open (ramfs_env now) None path ?fl 0x1A4 s =
    (let u = rk_vnode_get v (with_stats t s);
         u = (if on ?fl RK_O_TRUNC then set_mtime now v (set_node v (\<lambda>n. n\<lparr>vn_size := 0\<rparr>) u) else u)
     in Some (Inr \<lparr>fl_vnode = v, fl_pos = (if on ?fl RK_O_APPEND then vn_size (node_at u v) else 0),
                   fl_flags = ?fl, fl_rights = ?fl AND (RK_O_READ OR RK_O_WRITE), fl_refcount = 1\<rparr>,
              count_op (\<lambda>t. t\<lparr>vs_opens := vs_opens t + 1\<rparr>) u))"
    using open_existing [OF assms(1-3) fl(1,2)] by blast
  define f where "f = \<lparr>fl_vnode = v, fl_pos = 0, fl_flags = ?fl, fl_rights = ?fl AND (RK_O_READ OR RK_O_WRITE), fl_refcount = 1\<rparr>"
  define u where "u = set_node v (\<lambda>n. n\<lparr>vn_size := 0\<rparr>) (rk_vnode_get v (with_stats t s))"
  define s2 where "s2 = count_op (\<lambda>t. t\<lparr>vs_opens := vs_opens t + 1\<rparr>) (set_mtime now v u)"
  have o2: "rk_vfs_open (ramfs_env now) None path ?fl 0x1A4 s = Some (Inr f, s2)"
    unfolding o Let_def by (simp add: fl f_def s2_def u_def)
  have k2: "keeps (rk_vnode_get v (with_stats t s)) s2"
    unfolding s2_def u_def
    by (rule keeps_trans [OF _ keeps_count], rule keeps_trans [OF _ keeps_mtime], rule keeps_data)
  have ok: "file_ok s2 v" "contents s2 v = []"
    using assms(4) v by (simp_all add: s2_def u_def file_ok_def contents_def set_mtime_def node_at_set_node node_get)
  let ?s3 = "count_op (\<lambda>t. t\<lparr>vs_writes := vs_writes t + 1\<rparr>) s2"
  have "file_ok ?s3 v" "0 + length buf \<le> 2 ^ 63" using ok(1) assms(5) by simp_all
  from ramfs_write_facts [OF this, of "\<lambda>_. True" now] obtain s4 where
    w: "ramfs_write (\<lambda>_. True) now v buf 0 ?s3 = Some (Inr (length buf), s4)" "file_ok s4 v"
      "contents s4 v = splice 0 buf (contents ?s3 v)"
    by blast
  have c4: "contents s4 v = buf" using w(3) ok(2) by (simp add: splice_def)
  have p: "rk_file_pwrite (ramfs_env now) f buf 0 s2 = Some (Inr (length buf), s4)"
    using w(1) by (simp add: rk_file_pwrite_def f_def fl ramfs_ops_def)
  have k4: "keeps (rk_vnode_get v (with_stats t s)) s4"
    by (rule keeps_trans [OF k2], rule keeps_trans [OF keeps_count], rule write_keeps [OF w(1)])
  have "fl_vnode f = v" "fl_refcount f = 1" by (simp_all add: f_def)
  with put_back [of "with_stats t s" v s4 f "ramfs_env now"] assms(1) v k4
  obtain s5 where s5: "snd (rk_file_put (ramfs_env now) f s4) = s5" "keeps (with_stats t s) s5"
    "file_ok s5 v = file_ok s4 v" "contents s5 v = contents s4 v"
    by auto
  have "keeps s s5" using s5(2) by (simp add: keeps_def same_tree_def same_refs_def)
  then show ?thesis using o2 p s5 w(2) c4 by (simp add: rk_vfs_write_file_def)
qed

section \<open>Reading\<close>

lemma pread_at:
  assumes "file_ok s v" "on (fl_flags f) RK_O_READ" "fl_vnode f = v"
  obtains s' where "rk_file_pread (ramfs_env now) f n off s = (Inr (take n (drop off (contents s v))), s')"
    "file_ok s' v" "contents s' v = contents s v"
  using pread_ok [OF assms, of now n off] by blast

lemma read_all_done:
  assumes "file_ok s v" "on (fl_flags f) RK_O_READ" "fl_vnode f = v" "buf = contents s v"
  shows "\<exists>s'. read_all (ramfs_env now) (\<lambda>_. True) f cap buf s = Some (Inr buf, s')"
proof -
  let ?c = "if cap \<le> length buf + 1 then cap * 2 else cap"
  obtain s' where r: "rk_file_pread (ramfs_env now) f (?c - length buf - 1) (length buf) s =
      (Inr (take (?c - length buf - 1) (drop (length buf) (contents s v))), s')"
    by (rule pread_at [OF assms(1-3)])
  have "read_all (ramfs_env now) (\<lambda>_. True) f cap buf s = Some (Inr buf, snd (rk_file_put (ramfs_env now) f s'))"
    using r by (subst read_all.simps) (simp add: Let_def assms(4))
  then show ?thesis by blast
qed

lemma read_all_whole:
  assumes "file_ok s v" "on (fl_flags f) RK_O_READ" "fl_vnode f = v" "1 < cap" "length (contents s v) < cap"
  shows "\<exists>s'. read_all (ramfs_env now) (\<lambda>_. True) f cap [] s = Some (Inr (contents s v), s')"
proof (cases "contents s v = []")
  case True
  then show ?thesis using read_all_done [OF assms(1-3), of "[]"] by simp
next
  case False
  obtain s1 where r: "rk_file_pread (ramfs_env now) f (cap - 1) 0 s = (Inr (take (cap - 1) (drop 0 (contents s v))), s1)"
    "file_ok s1 v" "contents s1 v = contents s v"
    by (rule pread_at [OF assms(1-3)])
  have g: "\<not> cap \<le> length [] + 1" using assms(4) by simp
  have "read_all (ramfs_env now) (\<lambda>_. True) f cap [] s = read_all (ramfs_env now) (\<lambda>_. True) f cap (contents s v) s1"
    using r(1) g assms(5) False by (subst read_all.simps) (simp add: Let_def)
  then show ?thesis using read_all_done [OF r(2) assms(2,3)] r(3) by simp
qed

lemma read_file_existing:
  assumes "plain_tree s" "path_walk s None path = Inr v" "vn_type (node_at s v) = FT_REG" "file_ok s v"
  shows "\<exists>s'. rk_vfs_read_file (ramfs_env now) (\<lambda>_. True) path s = Some (Inr (contents s v), s')"
proof -
  have fl: "\<not> on RK_O_READ RK_O_EXCL" "\<not> on RK_O_READ RK_O_DIR" "\<not> on RK_O_READ RK_O_TRUNC"
    "\<not> on RK_O_READ RK_O_APPEND" "on RK_O_READ RK_O_READ"
    by (simp_all add: on_def RK_O_READ_def RK_O_TRUNC_def RK_O_EXCL_def RK_O_DIR_def RK_O_APPEND_def)
  obtain t where o: "rk_vfs_open (ramfs_env now) None path RK_O_READ 0 s =
    (let u = rk_vnode_get v (with_stats t s);
         u = (if on RK_O_READ RK_O_TRUNC then set_mtime now v (set_node v (\<lambda>n. n\<lparr>vn_size := 0\<rparr>) u) else u)
     in Some (Inr \<lparr>fl_vnode = v, fl_pos = (if on RK_O_READ RK_O_APPEND then vn_size (node_at u v) else 0),
                   fl_flags = RK_O_READ, fl_rights = RK_O_READ AND (RK_O_READ OR RK_O_WRITE), fl_refcount = 1\<rparr>,
              count_op (\<lambda>t. t\<lparr>vs_opens := vs_opens t + 1\<rparr>) u))"
    using open_existing [OF assms(1-3) fl(1,2)] by blast
  define f where "f = \<lparr>fl_vnode = v, fl_pos = 0, fl_flags = RK_O_READ, fl_rights = RK_O_READ AND (RK_O_READ OR RK_O_WRITE), fl_refcount = 1\<rparr>"
  define u where "u = count_op (\<lambda>t. t\<lparr>vs_opens := vs_opens t + 1\<rparr>) (rk_vnode_get v (with_stats t s))"
  have o2: "rk_vfs_open (ramfs_env now) None path RK_O_READ 0 s = Some (Inr f, u)"
    unfolding o Let_def by (simp add: fl f_def u_def)
  have ok: "file_ok u v" "contents u v = contents s v" using assms(4) by (simp_all add: u_def)
  have sz: "vn_size (node_at u v) = length (contents u v)" using ok(1) by (simp add: contents_def file_ok_def)
  have st: "rk_file_stat (ramfs_env now) f u = ramfs_stat v u" by (simp add: rk_file_stat_def f_def ramfs_ops_def)
  let ?cap = "if length (contents s v) \<noteq> 0 then length (contents s v) + 1 else 4096"
  have ff: "on (fl_flags f) RK_O_READ" "fl_vnode f = v" by (simp_all add: f_def fl)
  have cap: "1 < ?cap" "length (contents u v) < ?cap" using ok(2) by auto
  obtain s' where "read_all (ramfs_env now) (\<lambda>_. True) f ?cap [] u = Some (Inr (contents u v), s')"
    using read_all_whole [OF ok(1) ff cap] by blast
  then show ?thesis
    unfolding rk_vfs_read_file_def o2
    by (cases "contents s v = []") (simp_all add: st ramfs_stat_def Let_def sz ok(2))
qed

text \<open>
  C34. \<open>rk_vfs_write_file\<close> over an existing regular file returns success, and
  \<open>rk_vfs_read_file\<close> of the same path then returns exactly the bytes written, whatever the
  file held before; the directory tree is as it was.
\<close>
theorem write_file_read_file:
  assumes "plain_tree s" "path_walk s None path = Inr v" "vn_type (node_at s v) = FT_REG" "file_ok s v"
    and "length buf \<le> 2 ^ 63"
  shows "\<exists>s' s''. rk_vfs_write_file (ramfs_env now) path buf s = Some (Inr (), s') \<and> keeps s s' \<and>
    rk_vfs_read_file (ramfs_env now) (\<lambda>_. True) path s' = Some (Inr buf, s'')"
proof -
  obtain s' where w: "rk_vfs_write_file (ramfs_env now) path buf s = Some (Inr (), s')" "keeps s s'"
    "file_ok s' v" "contents s' v = buf"
    using write_file_existing [OF assms] by blast
  have k: "same_tree s s'" "same_refs s s'" using w(2) by (simp_all add: keeps_def)
  have "plain_tree s'" by (rule plain_tree_same [OF assms(1) k])
  moreover have "path_walk s' None path = Inr v" using path_walk_same [OF assms(1) k(1)] assms(2) by simp
  moreover have "vn_type (node_at s' v) = FT_REG"
    using same_fields(1) [OF k(1) path_walk_range [OF assms(1,2)]] assms(3) by simp
  ultimately obtain s'' where "rk_vfs_read_file (ramfs_env now) (\<lambda>_. True) path s' = Some (Inr (contents s' v), s'')"
    using read_file_existing w(3) by blast
  then show ?thesis using w by blast
qed

definition demo_disk :: vfs where
  "demo_disk = snd (ramfs_create True 0 0 ''log'' FT_REG 0 (snd (rk_vfs_mount (ramfs_env 0) [] ''/'' ''ramfs'' 0 [] (rk_ramfs_init vfs_empty))))"

lemma demo_disk_shape:
  "length (vf_nodes demo_disk) = 2" "vf_root demo_disk = Some 0"
  "map (\<lambda>v. (rn_children (node_at demo_disk v), rn_parent (node_at demo_disk v), vn_mounted_here (node_at demo_disk v),
     vn_refcount (node_at demo_disk v), vn_type (node_at demo_disk v), vn_size (node_at demo_disk v),
     rn_data (node_at demo_disk v))) [0, 1] =
     [([1], None, None, 1, FT_DIR, 0, []), ([], Some 0, None, 2, FT_REG, 0, [])]"
  "path_walk demo_disk None ''/log'' = Inr 1"
  by code_simp+

lemma write_file_read_file_witness:
  "\<exists>s' s''. rk_vfs_write_file (ramfs_env 5) ''/log'' [1, 2, 3] demo_disk = Some (Inr (), s') \<and>
    rk_vfs_read_file (ramfs_env 5) (\<lambda>_. True) ''/log'' s' = Some (Inr [1, 2, 3], s'')"
proof -
  have n: "rn_children (node_at demo_disk 0) = [1]" "rn_parent (node_at demo_disk 0) = None"
    "rn_children (node_at demo_disk 1) = []" "rn_parent (node_at demo_disk 1) = Some 0"
    "vn_type (node_at demo_disk 1) = FT_REG" "vn_size (node_at demo_disk 1) = 0" "rn_data (node_at demo_disk 1) = []"
    "vn_mounted_here (node_at demo_disk 0) = None" "vn_mounted_here (node_at demo_disk 1) = None"
    "vn_refcount (node_at demo_disk 0) = 1" "vn_refcount (node_at demo_disk 1) = 2"
    using demo_disk_shape(3) by simp_all
  have t: "tree_node demo_disk 0" "tree_node demo_disk 1"
    using n by (simp_all add: tree_node_def demo_disk_shape(1) del: One_nat_def)
  have "tree_node demo_disk v" if "v < 2" for v
    using t that by (auto simp: less_2_cases_iff)
  then have "plain_tree demo_disk" by (simp add: plain_tree_def demo_disk_shape(1,2))
  moreover have "file_ok demo_disk 1" using n by (simp add: file_ok_def demo_disk_shape(1))
  ultimately show ?thesis
    using write_file_read_file [OF _ demo_disk_shape(4) n(5), of "[1, 2, 3]" 5] by auto
qed

end
