(* ===== verification/RK_Sched.thy ===== *)
theory RK_Sched
  imports RK_Prelude
begin

text \<open>
  The scheduler (\<open>kernel/sched/sched.c\<close>, \<open>include/rk/sched.h\<close>). Threads and tasks are indices
  into heaps; \<open>arch_cpu_id()\<close> is the argument \<open>c\<close>, the clock the argument \<open>now\<close>. Each
  definition is what its function does between taking and releasing its lock; the two halves of
  \<open>__schedule\<close>, which releases the lock before the stack changes, are \<open>schedule_pick\<close> and
  \<open>context_switch\<close>. \<open>cs_stack\<close> is the thread on whose stack a CPU executes. Page tables,
  floating-point state and kernel stacks are hardware and left out.
\<close>

section \<open>State\<close>

datatype thread_state = TS_NEW | TS_READY | TS_RUNNING | TS_BLOCKED | TS_SLEEPING | TS_ZOMBIE | TS_DEAD

datatype sched_class = SCHED_REALTIME | SCHED_INFERENCE | SCHED_INTERACTIVE | SCHED_BATCH

fun class_rank :: "sched_class \<Rightarrow> nat" where
  "class_rank SCHED_REALTIME = 0"
| "class_rank SCHED_INFERENCE = 1"
| "class_rank SCHED_INTERACTIVE = 2"
| "class_rank SCHED_BATCH = 3"

abbreviation RK_PRIO_LEVELS :: nat where "RK_PRIO_LEVELS \<equiv> 32"
abbreviation RK_PRIO_DEFAULT :: nat where "RK_PRIO_DEFAULT \<equiv> 16"

definition RK_NS_PER_MS :: u64 where "RK_NS_PER_MS = 1000000"
definition SLICE_BASE_NS :: u64 where "SLICE_BASE_NS = 4 * RK_NS_PER_MS"
definition SLICE_MAX_NS :: u64 where "SLICE_MAX_NS = 40 * RK_NS_PER_MS"

record thread =
  th_cpu :: nat
  th_state :: thread_state
  th_tid :: u64
  th_name :: string
  th_task :: nat
  th_class :: sched_class
  th_priority :: nat
  th_base_priority :: nat
  th_deadline :: u64
  th_period :: u64
  th_budget :: u64
  th_budget_left :: u64
  th_vruntime :: u64
  th_weight :: u32
  th_slice :: u64
  th_runtime :: u64
  th_last_start :: u64
  th_wakeup :: u64
  th_nvcsw :: u64
  th_nivcsw :: u64
  th_sleep_until :: u64
  th_affinity :: u64
  th_exit_code :: int
  th_should_stop :: bool
  th_event_seq :: u64

record task =
  tk_pid :: u64
  tk_name :: string
  tk_parent :: "nat option"
  tk_nthreads :: u32
  tk_exit_code :: int
  tk_exited :: bool
  tk_start :: u64
  tk_cpu_time :: u64

record runqueue =
  rq_ready :: "sched_class \<Rightarrow> nat \<Rightarrow> nat list"
  rq_bitmap :: "sched_class \<Rightarrow> u64"
  rq_nready :: u64
  rq_switches :: u64

record cpu_state =
  cs_current :: "nat option"
  cs_idle :: "nat option"
  cs_prev_pending :: "nat option"
  cs_stack :: "nat option"
  cs_idle_ns :: u64
  cs_preempt_disable :: u32
  cs_need_resched :: bool
  cs_online :: bool
  cs_idling :: bool

record sched_stats =
  gs_switches :: u64
  gs_preemptions :: u64
  gs_deadline_misses :: u64
  gs_threads_total :: u64
  gs_threads_live :: u64

record sched =
  sc_threads :: "thread list"
  sc_tasks :: "task list"
  sc_rq :: runqueue
  sc_cpus :: "cpu_state list"
  sc_ready :: bool
  sc_next_tid :: u64
  sc_next_pid :: u64
  sc_all :: "nat list"
  sc_waiters :: "nat \<Rightarrow> nat list"
  sc_stats :: sched_stats

definition th :: "sched \<Rightarrow> nat \<Rightarrow> thread" where
  "th s t = sc_threads s ! t"

definition set_th :: "nat \<Rightarrow> (thread \<Rightarrow> thread) \<Rightarrow> sched \<Rightarrow> sched" where
  "set_th t f s = s\<lparr>sc_threads := (sc_threads s)[t := f (sc_threads s ! t)]\<rparr>"

definition cpu :: "sched \<Rightarrow> nat \<Rightarrow> cpu_state" where
  "cpu s c = sc_cpus s ! c"

definition set_cpu :: "nat \<Rightarrow> (cpu_state \<Rightarrow> cpu_state) \<Rightarrow> sched \<Rightarrow> sched" where
  "set_cpu c f s = s\<lparr>sc_cpus := (sc_cpus s)[c := f (sc_cpus s ! c)]\<rparr>"

definition set_gstats :: "(sched_stats \<Rightarrow> sched_stats) \<Rightarrow> sched \<Rightarrow> sched" where
  "set_gstats f s = s\<lparr>sc_stats := f (sc_stats s)\<rparr>"

section \<open>Ready queues\<close>

definition queue_level :: "thread \<Rightarrow> nat" where
  "queue_level t = (if th_priority t < RK_PRIO_LEVELS then th_priority t else RK_PRIO_LEVELS - 1)"

definition rq_enqueue :: "nat \<Rightarrow> sched \<Rightarrow> sched" where
  "rq_enqueue t s =
     (let k = th_class (th s t); p = queue_level (th s t); q = sc_rq s;
          q = q\<lparr>rq_ready := (rq_ready q)(k := (rq_ready q k)(p := rq_ready q k p @ [t])),
                rq_bitmap := (rq_bitmap q)(k := rq_bitmap q k OR push_bit p 1),
                rq_nready := rq_nready q + 1\<rparr>
      in set_th t (\<lambda>x. x\<lparr>th_state := TS_READY\<rparr>) (s\<lparr>sc_rq := q\<rparr>))"

definition rq_dequeue :: "nat \<Rightarrow> sched \<Rightarrow> sched" where
  "rq_dequeue t s =
     (let k = th_class (th s t); p = queue_level (th s t); q = sc_rq s;
          left = remove1 t (rq_ready q k p)
      in s\<lparr>sc_rq := q\<lparr>rq_ready := (rq_ready q)(k := (rq_ready q k)(p := left)),
             rq_bitmap := (rq_bitmap q)(k := if left = [] then rq_bitmap q k AND NOT (push_bit p 1) else rq_bitmap q k),
             rq_nready := (if rq_nready q \<noteq> 0 then rq_nready q - 1 else rq_nready q)\<rparr>\<rparr>)"

definition runnable_here :: "nat \<Rightarrow> sched \<Rightarrow> nat \<Rightarrow> bool" where
  "runnable_here c s t \<longleftrightarrow> th_affinity (th s t) AND push_bit (c mod 64) 1 \<noteq> 0"

text \<open>The threads a picker visits, in order: the non-empty levels of a class.\<close>

definition band :: "sched \<Rightarrow> sched_class \<Rightarrow> nat list" where
  "band s k = concat (map (\<lambda>p. if rq_bitmap (sc_rq s) k AND push_bit p 1 \<noteq> 0 then rq_ready (sc_rq s) k p else [])
     [0..<RK_PRIO_LEVELS])"

definition smaller_first :: "(nat \<Rightarrow> u64) \<Rightarrow> (nat \<Rightarrow> bool) \<Rightarrow> nat \<Rightarrow> nat option \<Rightarrow> nat option" where
  "smaller_first key ok t best =
     (if \<not> ok t then best
      else case best of None \<Rightarrow> Some t | Some b \<Rightarrow> if key t < key b then Some t else best)"

definition pick_deadline :: "nat \<Rightarrow> sched_class \<Rightarrow> sched \<Rightarrow> nat option" where
  "pick_deadline c k s = fold (smaller_first (\<lambda>t. th_deadline (th s t)) (runnable_here c s)) (band s k) None"

definition pick_priority :: "nat \<Rightarrow> sched_class \<Rightarrow> sched \<Rightarrow> nat option" where
  "pick_priority c k s = find (runnable_here c s) (band s k)"

definition pick_fair :: "nat \<Rightarrow> sched \<Rightarrow> nat option" where
  "pick_fair c s = fold (smaller_first (\<lambda>t. th_vruntime (th s t)) (runnable_here c s)) (band s SCHED_BATCH) None"

definition within_budget :: "thread \<Rightarrow> bool" where
  "within_budget t \<longleftrightarrow> 0 < th_budget_left t \<or> th_budget t = 0"

definition pick_next :: "nat \<Rightarrow> sched \<Rightarrow> nat option" where
  "pick_next c s =
     (case pick_deadline c SCHED_REALTIME s of Some t \<Rightarrow> Some t
      | None \<Rightarrow>
        (case (case pick_deadline c SCHED_INFERENCE s of
                 Some t \<Rightarrow> if within_budget (th s t) then Some t else None | None \<Rightarrow> None) of
           Some t \<Rightarrow> Some t
         | None \<Rightarrow>
           (case pick_priority c SCHED_INTERACTIVE s of Some t \<Rightarrow> Some t
            | None \<Rightarrow>
              (case pick_fair c s of Some t \<Rightarrow> Some t
               | None \<Rightarrow> pick_deadline c SCHED_INFERENCE s))))"

definition slice_for :: "thread \<Rightarrow> u64" where
  "slice_for t =
     (case th_class t of
        SCHED_REALTIME \<Rightarrow> if th_budget t \<noteq> 0 then th_budget t else SLICE_MAX_NS
      | SCHED_INFERENCE \<Rightarrow> if th_budget t \<noteq> 0 then min (th_budget t) SLICE_MAX_NS else 8 * RK_NS_PER_MS
      | SCHED_INTERACTIVE \<Rightarrow> SLICE_BASE_NS + of_nat (th_priority t) * (RK_NS_PER_MS div 2)
      | SCHED_BATCH \<Rightarrow> SLICE_MAX_NS)"

section \<open>Switching\<close>

definition sched_finish_switch :: "nat \<Rightarrow> sched \<Rightarrow> sched" where
  "sched_finish_switch c s =
     (case cs_prev_pending (cpu s c) of None \<Rightarrow> s
      | Some p \<Rightarrow> rq_enqueue p (set_cpu c (\<lambda>x. x\<lparr>cs_prev_pending := None\<rparr>) s))"

text \<open>What the thread switched away from has consumed.\<close>

definition charge :: "u64 \<Rightarrow> thread \<Rightarrow> thread" where
  "charge spent t =
     (let t = t\<lparr>th_runtime := th_runtime t + spent\<rparr>;
          w = (if th_weight t \<noteq> 0 then ucast (th_weight t) else 1024 :: u64);
          t = (if th_class t = SCHED_BATCH then t\<lparr>th_vruntime := th_vruntime t + spent * 1024 div w\<rparr> else t)
      in if th_class t = SCHED_INFERENCE \<and> th_budget_left t \<noteq> 0
         then t\<lparr>th_budget_left := (if th_budget_left t \<le> spent then 0 else th_budget_left t - spent)\<rparr> else t)"

definition charge_prev :: "u64 \<Rightarrow> nat \<Rightarrow> sched \<Rightarrow> sched" where
  "charge_prev now p s =
     (if th_last_start (th s p) = 0 then s
      else
        let spent = now - th_last_start (th s p); k = th_task (th s p)
        in set_th p (charge spent)
             (s\<lparr>sc_tasks := (sc_tasks s)[k := (sc_tasks s ! k)\<lparr>tk_cpu_time := tk_cpu_time (sc_tasks s ! k) + spent\<rparr>]\<rparr>))"

definition start_next :: "nat \<Rightarrow> u64 \<Rightarrow> nat \<Rightarrow> sched \<Rightarrow> sched" where
  "start_next c now next s =
     (let s = set_th next (\<lambda>x. x\<lparr>th_last_start := now, th_state := TS_RUNNING, th_cpu := c,
                                 th_event_seq := th_event_seq x + 1\<rparr>) s;
          s = set_cpu c (\<lambda>x. x\<lparr>cs_current := Some next\<rparr>) s
      in set_gstats (\<lambda>g. g\<lparr>gs_switches := gs_switches g + 1\<rparr>)
           (s\<lparr>sc_rq := (sc_rq s)\<lparr>rq_switches := rq_switches (sc_rq s) + 1\<rparr>\<rparr>))"

definition context_switch :: "nat \<Rightarrow> u64 \<Rightarrow> nat option \<Rightarrow> nat \<Rightarrow> sched \<Rightarrow> sched" where
  "context_switch c now prev next s =
     (if prev = Some next then s
      else
        let s = (case prev of None \<Rightarrow> s | Some p \<Rightarrow> charge_prev now p s);
            s = start_next c now next s;
            s = set_cpu c (\<lambda>x. x\<lparr>cs_stack := Some next\<rparr>) s
        in sched_finish_switch c s)"

text \<open>The part of \<open>__schedule\<close> under the queue's lock: the thread to run next.\<close>

definition schedule_pick :: "nat \<Rightarrow> thread_state \<Rightarrow> sched \<Rightarrow> nat \<times> sched" where
  "schedule_pick c prev_state s =
     (let cs = cpu s c; idle = the (cs_idle cs);
          is_thread = (cs_current cs \<noteq> None \<and> cs_current cs \<noteq> cs_idle cs); prev = the (cs_current cs);
          s = (if is_thread \<and> prev_state \<noteq> TS_RUNNING then set_th prev (\<lambda>x. x\<lparr>th_state := prev_state\<rparr>) s else s);
          (next, s) = (case pick_next c s of Some t \<Rightarrow> (t, rq_dequeue t s) | None \<Rightarrow> (idle, s));
          s = (if is_thread \<and> th_state (th s prev) = TS_RUNNING
               then set_cpu c (\<lambda>x. x\<lparr>cs_prev_pending := Some prev\<rparr>) s else s);
          s = set_th next (\<lambda>x. x\<lparr>th_slice := slice_for x\<rparr>) s
      in (next, set_cpu c (\<lambda>x. x\<lparr>cs_need_resched := False\<rparr>) s))"

definition schedule :: "nat \<Rightarrow> u64 \<Rightarrow> thread_state \<Rightarrow> sched \<Rightarrow> sched" where
  "schedule c now prev_state s =
     (if \<not> sc_ready s then s
      else
        let prev = cs_current (cpu s c)
        in case schedule_pick c prev_state s of (next, s) \<Rightarrow>
             if Some next \<noteq> prev then context_switch c now prev next s else s)"

definition count_nvcsw :: "nat \<Rightarrow> sched \<Rightarrow> sched" where
  "count_nvcsw c s =
     (case cs_current (cpu s c) of None \<Rightarrow> s
      | Some t \<Rightarrow> set_th t (\<lambda>x. x\<lparr>th_nvcsw := th_nvcsw x + 1\<rparr>) s)"

definition sched_yield :: "nat \<Rightarrow> u64 \<Rightarrow> sched \<Rightarrow> sched" where
  "sched_yield c now s = schedule c now TS_RUNNING (count_nvcsw c s)"

definition sched_preempt_disable :: "nat \<Rightarrow> sched \<Rightarrow> sched" where
  "sched_preempt_disable c = set_cpu c (\<lambda>x. x\<lparr>cs_preempt_disable := cs_preempt_disable x + 1\<rparr>)"

definition sched_preempt_enable :: "nat \<Rightarrow> u64 \<Rightarrow> sched \<Rightarrow> sched" where
  "sched_preempt_enable c now s =
     (let s = (if cs_preempt_disable (cpu s c) \<noteq> 0
               then set_cpu c (\<lambda>x. x\<lparr>cs_preempt_disable := cs_preempt_disable x - 1\<rparr>) s else s)
      in if cs_preempt_disable (cpu s c) = 0 \<and> cs_need_resched (cpu s c) then sched_yield c now s else s)"

text \<open>The timer tick: expired sleepers, the slice, the deadline.\<close>

definition wake_sleeper :: "u64 \<Rightarrow> nat \<Rightarrow> sched \<Rightarrow> sched" where
  "wake_sleeper now t s =
     (if th_state (th s t) = TS_SLEEPING \<and> th_sleep_until (th s t) \<le> now
      then rq_enqueue t (set_th t (\<lambda>x. x\<lparr>th_state := TS_READY, th_sleep_until := 0\<rparr>) s) else s)"

definition check_slice :: "nat \<Rightarrow> u64 \<Rightarrow> nat \<Rightarrow> sched \<Rightarrow> sched" where
  "check_slice c now t s =
     (if Some t = cs_idle (cpu s c) then set_cpu c (\<lambda>x. x\<lparr>cs_need_resched := True\<rparr>) s
      else if th_last_start (th s t) \<noteq> 0 \<and> th_slice (th s t) \<le> now - th_last_start (th s t) then
        set_cpu c (\<lambda>x. x\<lparr>cs_need_resched := True\<rparr>)
          (set_gstats (\<lambda>g. g\<lparr>gs_preemptions := gs_preemptions g + 1\<rparr>)
            (set_th t (\<lambda>x. x\<lparr>th_nivcsw := th_nivcsw x + 1\<rparr>) s))
      else s)"

definition check_deadline :: "u64 \<Rightarrow> nat \<Rightarrow> sched \<Rightarrow> sched" where
  "check_deadline now t s =
     (if th_class (th s t) \<in> {SCHED_REALTIME, SCHED_INFERENCE} \<and> th_deadline (th s t) \<noteq> 0 \<and> th_deadline (th s t) < now
      then set_th t (\<lambda>x. if th_period x \<noteq> 0 then x\<lparr>th_deadline := now + th_period x, th_budget_left := th_budget x\<rparr> else x)
             (set_gstats (\<lambda>g. g\<lparr>gs_deadline_misses := gs_deadline_misses g + 1\<rparr>) s)
      else s)"

definition sched_tick :: "nat \<Rightarrow> u64 \<Rightarrow> sched \<Rightarrow> sched" where
  "sched_tick c now s =
     (if \<not> sc_ready s then s
      else case cs_current (cpu s c) of None \<Rightarrow> s
      | Some t \<Rightarrow>
          let s = fold (wake_sleeper now) (sc_all s) s;
              s = check_deadline now t (check_slice c now t s)
          in if cs_need_resched (cpu s c) \<and> cs_preempt_disable (cpu s c) = 0 then schedule c now TS_RUNNING s else s)"

definition sched_block :: "nat \<Rightarrow> u64 \<Rightarrow> sched \<Rightarrow> sched" where
  "sched_block c now s = schedule c now TS_BLOCKED (count_nvcsw c s)"

section \<open>Waking and sleeping\<close>

definition kick_idle_cpu :: "nat \<Rightarrow> sched \<Rightarrow> sched" where
  "kick_idle_cpu self s =
     (case find (\<lambda>c. c \<noteq> self \<and> cs_online (cpu s c) \<and> cs_idling (cpu s c)) [0..<length (sc_cpus s)] of
        None \<Rightarrow> s | Some c \<Rightarrow> set_cpu c (\<lambda>x. x\<lparr>cs_need_resched := True\<rparr>) s)"

definition wake_boost :: "thread \<Rightarrow> thread" where
  "wake_boost t = (if th_class t = SCHED_INTERACTIVE \<and> 0 < th_priority t then t\<lparr>th_priority := th_priority t - 1\<rparr> else t)"

definition sched_wake :: "nat \<Rightarrow> u64 \<Rightarrow> nat \<Rightarrow> sched \<Rightarrow> sched" where
  "sched_wake c now t s =
     (if th_state (th s t) \<in> {TS_READY, TS_RUNNING, TS_ZOMBIE, TS_DEAD} then s
      else
        let s = set_th t (\<lambda>x. wake_boost (x\<lparr>th_wakeup := now\<rparr>)) s;
            s = rq_enqueue t s;
            s = (case cs_current (cpu s c) of None \<Rightarrow> s
                 | Some u \<Rightarrow> if class_rank (th_class (th s t)) < class_rank (th_class (th s u))
                             then set_cpu c (\<lambda>x. x\<lparr>cs_need_resched := True\<rparr>) s else s)
        in kick_idle_cpu c s)"

definition sched_sleep_ns :: "nat \<Rightarrow> u64 \<Rightarrow> u64 \<Rightarrow> sched \<Rightarrow> sched" where
  "sched_sleep_ns c now ns s =
     (if \<not> sc_ready s then s
      else case cs_current (cpu s c) of None \<Rightarrow> s
      | Some t \<Rightarrow>
          schedule c now TS_SLEEPING
            (set_th t (\<lambda>x. x\<lparr>th_sleep_until := now + ns, th_nvcsw := th_nvcsw x + 1\<rparr>) s))"

definition sched_sleep_ms :: "nat \<Rightarrow> u64 \<Rightarrow> u64 \<Rightarrow> sched \<Rightarrow> sched" where
  "sched_sleep_ms c now ms = sched_sleep_ns c now (ms * RK_NS_PER_MS)"

section \<open>Threads and tasks\<close>

definition blank_thread :: thread where
  "blank_thread = \<lparr>th_cpu = 0, th_state = TS_NEW, th_tid = 0, th_name = [], th_task = 0, th_class = SCHED_REALTIME,
     th_priority = 0, th_base_priority = 0, th_deadline = 0, th_period = 0, th_budget = 0, th_budget_left = 0,
     th_vruntime = 0, th_weight = 0, th_slice = 0, th_runtime = 0, th_last_start = 0, th_wakeup = 0, th_nvcsw = 0,
     th_nivcsw = 0, th_sleep_until = 0, th_affinity = 0, th_exit_code = 0, th_should_stop = False, th_event_seq = 0\<rparr>"

definition default_prio :: "nat \<Rightarrow> nat" where
  "default_prio p = (if p < RK_PRIO_LEVELS then p else RK_PRIO_DEFAULT)"

text \<open>\<open>have_mem\<close>: both the thread and its stack could be allocated.\<close>

definition thread_create_in :: "bool \<Rightarrow> nat \<Rightarrow> string \<Rightarrow> sched_class \<Rightarrow> nat \<Rightarrow> sched \<Rightarrow> nat option \<times> sched" where
  "thread_create_in have_mem tk name k prio s =
     (if \<not> have_mem then (None, s)
      else
        let t = length (sc_threads s);
            x = blank_thread\<lparr>th_tid := sc_next_tid s, th_task := tk, th_class := k, th_priority := default_prio prio,
                  th_base_priority := default_prio prio, th_weight := 1024, th_affinity := -1, th_name := take 31 name\<rparr>;
            s = s\<lparr>sc_threads := sc_threads s @ [x], sc_next_tid := sc_next_tid s + 1, sc_all := sc_all s @ [t],
                  sc_tasks := (sc_tasks s)[tk := (sc_tasks s ! tk)\<lparr>tk_nthreads := tk_nthreads (sc_tasks s ! tk) + 1\<rparr>]\<rparr>
        in (Some t, set_gstats (\<lambda>g. g\<lparr>gs_threads_total := gs_threads_total g + 1,
                                      gs_threads_live := gs_threads_live g + 1\<rparr>) s))"

definition thread_create :: "bool \<Rightarrow> string \<Rightarrow> sched_class \<Rightarrow> nat \<Rightarrow> sched \<Rightarrow> nat option \<times> sched" where
  "thread_create have_mem = thread_create_in have_mem 0"

definition thread_start :: "nat \<Rightarrow> sched \<Rightarrow> sched" where
  "thread_start t s = (if th_state (th s t) \<noteq> TS_NEW then s else rq_enqueue t s)"

definition thread_exit :: "nat \<Rightarrow> u64 \<Rightarrow> int \<Rightarrow> sched \<Rightarrow> sched" where
  "thread_exit c now code s =
     (case cs_current (cpu s c) of None \<Rightarrow> s
      | Some t \<Rightarrow>
          let s = set_th t (\<lambda>x. x\<lparr>th_exit_code := code, th_state := TS_ZOMBIE\<rparr>) s;
              s = set_gstats (\<lambda>g. if gs_threads_live g \<noteq> 0 then g\<lparr>gs_threads_live := gs_threads_live g - 1\<rparr> else g) s;
              k = th_task (th s t);
              s = s\<lparr>sc_tasks := (sc_tasks s)[k := (let x = sc_tasks s ! k in
                      if tk_nthreads x \<noteq> 0 then x\<lparr>tk_nthreads := tk_nthreads x - 1\<rparr> else x)]\<rparr>
          in schedule c now TS_ZOMBIE s)"

text \<open>One round of the polling loop: the exit code once the thread has ended.\<close>

definition thread_join :: "nat \<Rightarrow> u64 \<Rightarrow> nat \<Rightarrow> sched \<Rightarrow> int option \<times> sched" where
  "thread_join c now t s =
     (if th_state (th s t) \<in> {TS_ZOMBIE, TS_DEAD} then (Some (th_exit_code (th s t)), s)
      else (None, sched_sleep_ms c now 1 s))"

definition thread_destroy :: "nat \<Rightarrow> sched \<Rightarrow> sched" where
  "thread_destroy t s =
     (if th_state (th s t) = TS_RUNNING then s
      else set_th t (\<lambda>x. x\<lparr>th_state := TS_DEAD\<rparr>) (s\<lparr>sc_all := remove1 t (sc_all s)\<rparr>))"

definition thread_by_id :: "u64 \<Rightarrow> sched \<Rightarrow> nat option" where
  "thread_by_id tid s = find (\<lambda>t. th_tid (th s t) = tid) (sc_all s)"

text \<open>\<open>have_mem\<close> answers for the task, its address space and its capability space.\<close>

definition task_create :: "bool \<Rightarrow> u64 \<Rightarrow> string \<Rightarrow> nat option \<Rightarrow> sched \<Rightarrow> nat option \<times> sched" where
  "task_create have_mem now name parent s =
     (let pid = sc_next_pid s; s' = s\<lparr>sc_next_pid := sc_next_pid s + 1\<rparr> in
      if \<not> have_mem then (None, s')
      else (Some (length (sc_tasks s)), s'\<lparr>sc_tasks := sc_tasks s @
             [\<lparr>tk_pid = pid, tk_name = take 31 name, tk_parent = parent, tk_nthreads = 0, tk_exit_code = 0,
               tk_exited = False, tk_start = now, tk_cpu_time = 0\<rparr>]\<rparr>))"

definition task_exit :: "nat \<Rightarrow> int \<Rightarrow> sched \<Rightarrow> sched" where
  "task_exit k code s =
     (if k = 0 then s
      else
        let s = s\<lparr>sc_tasks := (sc_tasks s)[k := (sc_tasks s ! k)\<lparr>tk_exit_code := code, tk_exited := True\<rparr>]\<rparr>
        in fold (\<lambda>t s. if th_task (th s t) = k then set_th t (\<lambda>x. x\<lparr>th_should_stop := True\<rparr>) s else s) (sc_all s) s)"

definition task_by_id :: "u64 \<Rightarrow> sched \<Rightarrow> nat option" where
  "task_by_id pid s = find (\<lambda>k. tk_parent (sc_tasks s ! k) = None \<and> tk_pid (sc_tasks s ! k) = pid) [0..<length (sc_tasks s)]"

section \<open>Policy\<close>

definition sched_set_class :: "nat \<Rightarrow> sched_class \<Rightarrow> nat \<Rightarrow> sched \<Rightarrow> sched" where
  "sched_set_class t k prio s =
     (let queued = (th_state (th s t) = TS_READY);
          s = (if queued then rq_dequeue t s else s);
          s = set_th t (\<lambda>x. x\<lparr>th_class := k, th_priority := default_prio prio, th_base_priority := default_prio prio\<rparr>) s
      in if queued then rq_enqueue t s else s)"

text \<open>The sum of budget over period of the admitted threads, as a fraction.\<close>

definition add_load :: "sched \<Rightarrow> nat \<Rightarrow> nat \<Rightarrow> u64 \<times> u64 \<Rightarrow> u64 \<times> u64" where
  "add_load s t other used =
     (case used of (num, den) \<Rightarrow>
        let x = th s other in
        if other = t \<or> th_period x = 0 \<or> th_class x \<notin> {SCHED_REALTIME, SCHED_INFERENCE} then (num, den)
        else (num * th_period x + th_budget x * den, den * th_period x))"

definition sched_set_deadline :: "nat \<Rightarrow> u64 \<Rightarrow> nat \<Rightarrow> u64 \<Rightarrow> u64 \<Rightarrow> sched \<Rightarrow> unit result \<times> sched" where
  "sched_set_deadline ncpu now t period budget s =
     (if period = 0 \<or> period < budget then (Inl EINVAL, s)
      else
        let (num, den) = fold (add_load s t) (sc_all s) (0, 1);
            want_num = num * period + budget * den; want_den = den * period; cap_num = 8 * of_nat ncpu
        in if want_den \<noteq> 0 \<and> cap_num * want_den < want_num * 10 then (Inl EBUSY, s)
           else (Inr (), set_th t (\<lambda>x. x\<lparr>th_period := period, th_budget := budget, th_budget_left := budget,
                                         th_deadline := now + period\<rparr>) s))"

definition sched_set_affinity :: "nat \<Rightarrow> u64 \<Rightarrow> sched \<Rightarrow> unit result \<times> sched" where
  "sched_set_affinity t m s =
     (if m = 0 then (Inl EINVAL, s) else (Inr (), set_th t (\<lambda>x. x\<lparr>th_affinity := m\<rparr>) s))"

text \<open>The \<open>runnable\<close> counters of \<open>sched_stats\<close>.\<close>

definition runnable_count :: "sched \<Rightarrow> sched_class \<Rightarrow> nat" where
  "runnable_count s k =
     length (filter (\<lambda>t. th_state (th s t) \<in> {TS_READY, TS_RUNNING} \<and> th_class (th s t) = k) (sc_all s))"

section \<open>Wait queues\<close>

text \<open>\<open>waitq_wait\<close> is \<open>waitq_enter\<close>, \<open>sched_block\<close> and, when the thread runs again,
  \<open>waitq_leave\<close>; a thread's link is on a queue as long as it is in that queue's list.\<close>

definition waitq_enter :: "nat \<Rightarrow> nat \<Rightarrow> sched \<Rightarrow> sched" where
  "waitq_enter c w s =
     (case cs_current (cpu s c) of None \<Rightarrow> s
      | Some t \<Rightarrow> s\<lparr>sc_waiters := (sc_waiters s)(w := sc_waiters s w @ [t])\<rparr>)"

definition waitq_leave :: "nat \<Rightarrow> nat \<Rightarrow> sched \<Rightarrow> bool \<times> sched" where
  "waitq_leave w t s = (t \<in> set (sc_waiters s w), s\<lparr>sc_waiters := (sc_waiters s)(w := remove1 t (sc_waiters s w))\<rparr>)"

definition waitq_sleep :: "nat \<Rightarrow> u64 \<Rightarrow> nat \<Rightarrow> u64 \<Rightarrow> sched \<Rightarrow> sched" where
  "waitq_sleep c now w ns s =
     (case cs_current (cpu s c) of None \<Rightarrow> s
      | Some t \<Rightarrow> schedule c now TS_SLEEPING (set_th t (\<lambda>x. x\<lparr>th_sleep_until := now + ns\<rparr>) (waitq_enter c w s)))"

text \<open>The result of \<open>waitq_wait_timeout\<close> once the thread runs again.\<close>

definition waitq_timeout_result :: "nat \<Rightarrow> nat \<Rightarrow> sched \<Rightarrow> unit result \<times> sched" where
  "waitq_timeout_result w t s =
     (case waitq_leave w t s of (still, s) \<Rightarrow> (if still then Inl ETIMEDOUT else Inr (), s))"

definition waitq_wake_one :: "nat \<Rightarrow> u64 \<Rightarrow> nat \<Rightarrow> sched \<Rightarrow> sched" where
  "waitq_wake_one c now w s =
     (case sc_waiters s w of [] \<Rightarrow> s
      | t # ts \<Rightarrow> sched_wake c now t (s\<lparr>sc_waiters := (sc_waiters s)(w := ts)\<rparr>))"

definition waitq_wake_all :: "nat \<Rightarrow> u64 \<Rightarrow> nat \<Rightarrow> sched \<Rightarrow> sched" where
  "waitq_wake_all c now w s =
     fold (\<lambda>t s. sched_wake c now t (s\<lparr>sc_waiters := (sc_waiters s)(w := remove1 t (sc_waiters s w))\<rparr>)) (sc_waiters s w) s"

section \<open>Processors\<close>

definition idle_enter :: "nat \<Rightarrow> sched \<Rightarrow> sched" where
  "idle_enter c = set_cpu c (\<lambda>x. x\<lparr>cs_idling := True\<rparr>)"

definition idle_leave :: "nat \<Rightarrow> u64 \<Rightarrow> u64 \<Rightarrow> sched \<Rightarrow> sched" where
  "idle_leave c t0 now s =
     sched_yield c now (set_cpu c (\<lambda>x. x\<lparr>cs_idling := False, cs_idle_ns := cs_idle_ns x + (now - t0)\<rparr>) s)"

definition ipi_resched :: "nat \<Rightarrow> sched \<Rightarrow> sched" where
  "ipi_resched c = set_cpu c (\<lambda>x. x\<lparr>cs_need_resched := True\<rparr>)"

definition adopt_as_idle :: "nat \<Rightarrow> sched \<Rightarrow> sched" where
  "adopt_as_idle c s =
     (let t = length (sc_threads s);
          x = blank_thread\<lparr>th_class := SCHED_BATCH, th_priority := RK_PRIO_LEVELS - 1, th_weight := 1,
                th_state := TS_RUNNING, th_cpu := c, th_affinity := push_bit (c mod 64) 1\<rparr>;
          s = s\<lparr>sc_threads := sc_threads s @ [x]\<rparr>
      in set_cpu c (\<lambda>y. y\<lparr>cs_idle := Some t, cs_current := Some t, cs_stack := Some t, cs_online := True\<rparr>) s)"

definition offline_cpu :: cpu_state where
  "offline_cpu = \<lparr>cs_current = None, cs_idle = None, cs_prev_pending = None, cs_stack = None, cs_idle_ns = 0,
     cs_preempt_disable = 0, cs_need_resched = False, cs_online = False, cs_idling = False\<rparr>"

definition sched_init :: "nat \<Rightarrow> sched" where
  "sched_init ncpu =
     \<lparr>sc_threads = [],
      sc_tasks = [\<lparr>tk_pid = 0, tk_name = ''kernel'', tk_parent = None, tk_nthreads = 0, tk_exit_code = 0,
                   tk_exited = False, tk_start = 0, tk_cpu_time = 0\<rparr>],
      sc_rq = \<lparr>rq_ready = (\<lambda>_ _. []), rq_bitmap = (\<lambda>_. 0), rq_nready = 0, rq_switches = 0\<rparr>,
      sc_cpus = replicate ncpu offline_cpu, sc_ready = False, sc_next_tid = 1, sc_next_pid = 1, sc_all = [],
      sc_waiters = (\<lambda>_. []),
      sc_stats = \<lparr>gs_switches = 0, gs_preemptions = 0, gs_deadline_misses = 0, gs_threads_total = 0,
                  gs_threads_live = 0\<rparr>\<rparr>"

definition sched_start :: "sched \<Rightarrow> sched" where
  "sched_start s = (adopt_as_idle 0 s)\<lparr>sc_ready := True\<rparr>"

definition sched_start_secondary :: "nat \<Rightarrow> sched \<Rightarrow> sched" where
  "sched_start_secondary c s = adopt_as_idle c s"

definition sched_cpus_online :: "sched \<Rightarrow> nat" where
  "sched_cpus_online s = length (filter cs_online (sc_cpus s))"

end
