(* ===== verification/RK_SchedQueue.thy ===== *)
theory RK_SchedQueue
  imports RK_Sched
begin

text \<open>
  The ready queues of \<open>RK_Sched\<close>: what the pickers return, and the invariant that a thread is
  on exactly the list of its class and priority when it is ready and on none otherwise.
\<close>

section \<open>The pickers\<close>

lemma fold_smaller_first:
  "fold (smaller_first key ok) xs best =
     (case best of
        None \<Rightarrow> fold (smaller_first key ok) xs None
      | Some b \<Rightarrow> fold (smaller_first key ok) xs (Some b))"
  by (cases best) simp_all

lemma smaller_first_some:
  "\<exists>t. fold (smaller_first key ok) xs (Some b) = Some t \<and> (t = b \<or> t \<in> set xs \<and> ok t) \<and> key t \<le> key b \<and>
     (\<forall>u \<in> set xs. ok u \<longrightarrow> key t \<le> key u)"
proof (induction xs arbitrary: b)
  case (Cons x xs)
  define b' where "b' = (if ok x \<and> key x < key b then x else b)"
  have s: "smaller_first key ok x (Some b) = Some b'" by (simp add: smaller_first_def b'_def)
  obtain t where t: "fold (smaller_first key ok) xs (Some b') = Some t" "t = b' \<or> t \<in> set xs \<and> ok t" "key t \<le> key b'"
    "\<forall>u \<in> set xs. ok u \<longrightarrow> key t \<le> key u"
    using Cons.IH [of b'] by blast
  have "key b' \<le> key b" "ok x \<longrightarrow> key b' \<le> key x" by (auto simp: b'_def)
  then show ?case using t s by (auto simp: b'_def split: if_splits intro: order_trans)
qed simp

lemma smaller_first_none:
  "case fold (smaller_first key ok) xs None of
     None \<Rightarrow> \<forall>u \<in> set xs. \<not> ok u
   | Some t \<Rightarrow> t \<in> set xs \<and> ok t \<and> (\<forall>u \<in> set xs. ok u \<longrightarrow> key t \<le> key u)"
proof (induction xs)
  case (Cons x xs)
  show ?case
  proof (cases "ok x")
    case True
    have "smaller_first key ok x None = Some x" using True by (simp add: smaller_first_def)
    then show ?thesis using smaller_first_some [of key ok xs x] True by auto
  next
    case False
    have "smaller_first key ok x None = None" using False by (simp add: smaller_first_def)
    then show ?thesis using Cons.IH False by (auto split: option.splits)
  qed
qed simp

lemma pick_deadline_least:
  "case pick_deadline c k s of
     None \<Rightarrow> \<forall>u \<in> set (band s k). \<not> runnable_here c s u
   | Some t \<Rightarrow> t \<in> set (band s k) \<and> runnable_here c s t \<and>
       (\<forall>u \<in> set (band s k). runnable_here c s u \<longrightarrow> th_deadline (th s t) \<le> th_deadline (th s u))"
  unfolding pick_deadline_def by (rule smaller_first_none)

lemma pick_fair_least:
  "case pick_fair c s of
     None \<Rightarrow> \<forall>u \<in> set (band s SCHED_BATCH). \<not> runnable_here c s u
   | Some t \<Rightarrow> t \<in> set (band s SCHED_BATCH) \<and> runnable_here c s t \<and>
       (\<forall>u \<in> set (band s SCHED_BATCH). runnable_here c s u \<longrightarrow> th_vruntime (th s t) \<le> th_vruntime (th s u))"
  unfolding pick_fair_def by (rule smaller_first_none)

lemma pick_priority_first:
  "case pick_priority c k s of
     None \<Rightarrow> \<forall>u \<in> set (band s k). \<not> runnable_here c s u
   | Some t \<Rightarrow> t \<in> set (band s k) \<and> runnable_here c s t"
  by (auto simp: pick_priority_def find_None_iff find_Some_iff split: option.split)

definition ready_threads :: "sched \<Rightarrow> nat set" where
  "ready_threads s = (\<Union>k. set (band s k))"

lemma pick_next_ready:
  assumes "pick_next c s = Some t"
  shows "t \<in> ready_threads s" "runnable_here c s t"
proof -
  have "\<exists>k. t \<in> set (band s k) \<and> runnable_here c s t"
    using assms pick_deadline_least [where c = c and k = SCHED_REALTIME and s = s] pick_deadline_least [where c = c and k = SCHED_INFERENCE and s = s]
      pick_priority_first [where c = c and k = SCHED_INTERACTIVE and s = s] pick_fair_least [where c = c and s = s]
    by (auto simp: pick_next_def split: option.splits if_splits)
  then show "t \<in> ready_threads s" "runnable_here c s t" by (auto simp: ready_threads_def)
qed

lemma pick_next_none:
  "pick_next c s = None \<longleftrightarrow> (\<forall>t \<in> ready_threads s. \<not> runnable_here c s t)"
proof
  assume n: "pick_next c s = None"
  show "\<forall>t \<in> ready_threads s. \<not> runnable_here c s t"
  proof
    fix t
    assume "t \<in> ready_threads s"
    then obtain k where "t \<in> set (band s k)" by (auto simp: ready_threads_def)
    then show "\<not> runnable_here c s t"
      using n pick_deadline_least [where c = c and k = SCHED_REALTIME and s = s] pick_deadline_least [where c = c and k = SCHED_INFERENCE and s = s]
        pick_priority_first [where c = c and k = SCHED_INTERACTIVE and s = s] pick_fair_least [where c = c and s = s]
      by (cases k) (auto simp: pick_next_def split: option.splits if_splits)
  qed
next
  assume n: "\<forall>t \<in> ready_threads s. \<not> runnable_here c s t"
  then show "pick_next c s = None"
    using pick_next_ready [of c s] by (cases "pick_next c s") auto
qed

section \<open>Projections\<close>

lemma set_th_simps [simp]:
  "sc_rq (set_th t f s) = sc_rq s" "sc_cpus (set_th t f s) = sc_cpus s" "cpu (set_th t f s) c = cpu s c"
  "length (sc_threads (set_th t f s)) = length (sc_threads s)" "sc_all (set_th t f s) = sc_all s"
  "sc_ready (set_th t f s) = sc_ready s" "sc_waiters (set_th t f s) = sc_waiters s"
  by (simp_all add: set_th_def cpu_def)

lemma th_set_th: "th (set_th t f s) u = (if u = t \<and> t < length (sc_threads s) then f (th s t) else th s u)"
  by (auto simp: th_def set_th_def nth_list_update list_update_beyond)

lemma set_cpu_simps [simp]:
  "sc_rq (set_cpu c f s) = sc_rq s" "sc_threads (set_cpu c f s) = sc_threads s" "th (set_cpu c f s) t = th s t"
  "length (sc_cpus (set_cpu c f s)) = length (sc_cpus s)" "sc_all (set_cpu c f s) = sc_all s"
  "sc_ready (set_cpu c f s) = sc_ready s" "sc_waiters (set_cpu c f s) = sc_waiters s"
  by (simp_all add: set_cpu_def th_def)

lemma cpu_set_cpu: "cpu (set_cpu c f s) d = (if d = c \<and> c < length (sc_cpus s) then f (cpu s c) else cpu s d)"
  by (auto simp: cpu_def set_cpu_def nth_list_update list_update_beyond)

lemma set_gstats_simps [simp]:
  "sc_rq (set_gstats f s) = sc_rq s" "sc_threads (set_gstats f s) = sc_threads s" "th (set_gstats f s) t = th s t"
  "sc_cpus (set_gstats f s) = sc_cpus s" "cpu (set_gstats f s) c = cpu s c" "sc_all (set_gstats f s) = sc_all s"
  "sc_ready (set_gstats f s) = sc_ready s" "sc_waiters (set_gstats f s) = sc_waiters s"
  by (simp_all add: set_gstats_def th_def cpu_def)

lemma rq_simps [simp]:
  "sc_cpus (rq_enqueue t s) = sc_cpus s" "cpu (rq_enqueue t s) c = cpu s c"
  "length (sc_threads (rq_enqueue t s)) = length (sc_threads s)" "sc_all (rq_enqueue t s) = sc_all s"
  "sc_cpus (rq_dequeue t s) = sc_cpus s" "cpu (rq_dequeue t s) c = cpu s c"
  "sc_threads (rq_dequeue t s) = sc_threads s" "sc_all (rq_dequeue t s) = sc_all s" "th (rq_dequeue t s) u = th s u"
  "sc_ready (rq_enqueue t s) = sc_ready s" "sc_ready (rq_dequeue t s) = sc_ready s"
  by (simp_all add: rq_enqueue_def rq_dequeue_def Let_def cpu_def th_def)

lemma th_enqueue: "th (rq_enqueue t s) u = (if u = t \<and> t < length (sc_threads s) then (th s t)\<lparr>th_state := TS_READY\<rparr> else th s u)"
  by (simp add: rq_enqueue_def Let_def th_set_th) (simp add: th_def)

section \<open>The invariant\<close>

text \<open>\<open>X\<close>: threads taken off the queues whose state still says ready.\<close>

definition queue_ok :: "nat set \<Rightarrow> sched \<Rightarrow> bool" where
  "queue_ok X s \<longleftrightarrow>
     (\<forall>k p t. t \<in> set (rq_ready (sc_rq s) k p) \<longleftrightarrow> t \<notin> X \<and> t < length (sc_threads s) \<and>
        th_state (th s t) = TS_READY \<and> th_class (th s t) = k \<and> queue_level (th s t) = p) \<and>
     (\<forall>k p. distinct (rq_ready (sc_rq s) k p)) \<and>
     (\<forall>k p. p < RK_PRIO_LEVELS \<longrightarrow> (bit (rq_bitmap (sc_rq s) k) p \<longleftrightarrow> rq_ready (sc_rq s) k p \<noteq> []))"

lemma queue_level_bound [simp]: "queue_level t < RK_PRIO_LEVELS"
  by (simp add: queue_level_def)

lemma bit_level: "bit (push_bit (queue_level t) 1 :: u64) p \<longleftrightarrow> p = queue_level t"
proof -
  have "queue_level t < 64" using queue_level_bound [of t] by linarith
  then show ?thesis by (auto simp: bit_exp_iff)
qed

lemma and_push_bit_iff: "p < 64 \<Longrightarrow> (w AND push_bit p 1 \<noteq> 0) = bit (w :: u64) p"
  by (metis and_exp_eq_0_iff_not_bit push_bit_of_1)

lemma band_set:
  assumes "queue_ok X s"
  shows "set (band s k) = {t. t \<notin> X \<and> t < length (sc_threads s) \<and> th_state (th s t) = TS_READY \<and> th_class (th s t) = k}"
proof -
  have "rq_bitmap (sc_rq s) k AND push_bit p 1 \<noteq> 0 \<longleftrightarrow> rq_ready (sc_rq s) k p \<noteq> []" if "p < RK_PRIO_LEVELS" for p
    using assms that and_push_bit_iff [of p "rq_bitmap (sc_rq s) k"] by (simp add: queue_ok_def)
  then have "set (band s k) = (\<Union>p \<in> {0..<RK_PRIO_LEVELS}. set (rq_ready (sc_rq s) k p))"
    unfolding band_def by fastforce
  also have "\<dots> = {t. t \<notin> X \<and> t < length (sc_threads s) \<and> th_state (th s t) = TS_READY \<and> th_class (th s t) = k}"
    using assms queue_level_bound by (auto simp: queue_ok_def)
  finally show ?thesis .
qed

lemma ready_threads_eq:
  assumes "queue_ok X s"
  shows "ready_threads s = {t. t \<notin> X \<and> t < length (sc_threads s) \<and> th_state (th s t) = TS_READY}"
  by (auto simp: ready_threads_def band_set [OF assms])

lemma queue_enqueue:
  assumes "queue_ok X s" "t < length (sc_threads s)" "t \<in> X \<or> th_state (th s t) \<noteq> TS_READY"
  shows "queue_ok (X - {t}) (rq_enqueue t s)"
proof -
  let ?k = "th_class (th s t)" and ?p = "queue_level (th s t)"
  have q: "sc_rq (rq_enqueue t s) = (sc_rq s)\<lparr>
      rq_ready := (rq_ready (sc_rq s))(?k := (rq_ready (sc_rq s) ?k)(?p := rq_ready (sc_rq s) ?k ?p @ [t])),
      rq_bitmap := (rq_bitmap (sc_rq s))(?k := rq_bitmap (sc_rq s) ?k OR push_bit ?p 1),
      rq_nready := rq_nready (sc_rq s) + 1\<rparr>"
    by (simp add: rq_enqueue_def Let_def)
  have n: "t \<notin> set (rq_ready (sc_rq s) k p)" for k p using assms(1,3) by (auto simp: queue_ok_def)
  have l: "queue_level ((th s t)\<lparr>th_state := TS_READY\<rparr>) = ?p" by (simp add: queue_level_def)
  have b: "bit (rq_bitmap (sc_rq s) k OR push_bit ?p 1) p \<longleftrightarrow> bit (rq_bitmap (sc_rq s) k) p \<or> p = ?p"
    if "p < RK_PRIO_LEVELS" for k p
    by (simp only: bit_or_iff bit_level)
  show ?thesis
    unfolding queue_ok_def
  proof (intro conjI allI impI)
    fix k p u
    show "(u \<in> set (rq_ready (sc_rq (rq_enqueue t s)) k p)) = (u \<notin> X - {t} \<and> u < length (sc_threads (rq_enqueue t s)) \<and>
        th_state (th (rq_enqueue t s) u) = TS_READY \<and> th_class (th (rq_enqueue t s) u) = k \<and>
        queue_level (th (rq_enqueue t s) u) = p)"
      using assms l n by (auto simp: q th_enqueue queue_ok_def)
  next
    fix k p
    show "distinct (rq_ready (sc_rq (rq_enqueue t s)) k p)"
      using assms(1) n by (auto simp: q queue_ok_def)
  next
    fix k p
    assume "p < RK_PRIO_LEVELS"
    then show "bit (rq_bitmap (sc_rq (rq_enqueue t s)) k) p = (rq_ready (sc_rq (rq_enqueue t s)) k p \<noteq> [])"
      using assms(1) b [of p k] by (auto simp: q queue_ok_def)
  qed
qed

lemma queue_dequeue:
  assumes "queue_ok {} s" "t < length (sc_threads s)" "th_state (th s t) = TS_READY"
  shows "queue_ok {t} (rq_dequeue t s)"
proof -
  let ?k = "th_class (th s t)" and ?p = "queue_level (th s t)"
  let ?l = "remove1 t (rq_ready (sc_rq s) ?k ?p)"
  have q: "rq_ready (sc_rq (rq_dequeue t s)) = (rq_ready (sc_rq s))(?k := (rq_ready (sc_rq s) ?k)(?p := ?l))"
    "rq_bitmap (sc_rq (rq_dequeue t s)) = (rq_bitmap (sc_rq s))(?k := if ?l = [] then rq_bitmap (sc_rq s) ?k AND NOT (push_bit ?p 1)
        else rq_bitmap (sc_rq s) ?k)"
    by (simp_all add: rq_dequeue_def Let_def)
  have b: "bit (rq_bitmap (sc_rq s) k AND NOT (push_bit ?p 1)) p \<longleftrightarrow> bit (rq_bitmap (sc_rq s) k) p \<and> p \<noteq> ?p"
    if "p < RK_PRIO_LEVELS" for k p
    using that by (simp only: bit_and_iff bit_not_iff bit_level) simp
  have d: "distinct (rq_ready (sc_rq s) k p)" for k p using assms(1) by (simp add: queue_ok_def)
  have i: "u \<in> set (rq_ready (sc_rq s) k p) \<longleftrightarrow> u < length (sc_threads s) \<and>
        th_state (th s u) = TS_READY \<and> th_class (th s u) = k \<and> queue_level (th s u) = p" for u k p
    using assms(1) by (simp add: queue_ok_def)
  have c: "bit (rq_bitmap (sc_rq s) k) p \<longleftrightarrow> rq_ready (sc_rq s) k p \<noteq> []" if "p < RK_PRIO_LEVELS" for k p
    using assms(1) that by (simp add: queue_ok_def)
  have ne: "rq_ready (sc_rq s) ?k ?p \<noteq> []" using i [of t ?k ?p] assms(2,3) by auto
  show ?thesis
    unfolding queue_ok_def
  proof (intro conjI allI impI)
    fix k p u
    show "(u \<in> set (rq_ready (sc_rq (rq_dequeue t s)) k p)) = (u \<notin> {t} \<and> u < length (sc_threads (rq_dequeue t s)) \<and>
        th_state (th (rq_dequeue t s) u) = TS_READY \<and> th_class (th (rq_dequeue t s) u) = k \<and>
        queue_level (th (rq_dequeue t s) u) = p)"
      using d i by (auto simp: q)
  next
    fix k p
    show "distinct (rq_ready (sc_rq (rq_dequeue t s)) k p)" using d by (auto simp: q)
  next
    fix k p
    assume p: "p < RK_PRIO_LEVELS"
    show "bit (rq_bitmap (sc_rq (rq_dequeue t s)) k) p = (rq_ready (sc_rq (rq_dequeue t s)) k p \<noteq> [])"
      using b [OF p, of k] c [OF p, of k] ne by (auto simp: q)
  qed
qed

lemma queue_cong:
  assumes "queue_ok X s" "sc_rq s' = sc_rq s" "length (sc_threads s') = length (sc_threads s)"
    and "\<And>t. t < length (sc_threads s) \<Longrightarrow>
      (th_state (th s' t) = TS_READY \<longleftrightarrow> th_state (th s t) = TS_READY) \<and>
      (th_state (th s t) = TS_READY \<longrightarrow> th_class (th s' t) = th_class (th s t) \<and> queue_level (th s' t) = queue_level (th s t))"
  shows "queue_ok X s'"
proof -
  have "(u \<in> set (rq_ready (sc_rq s') k p)) = (u \<notin> X \<and> u < length (sc_threads s') \<and>
        th_state (th s' u) = TS_READY \<and> th_class (th s' u) = k \<and> queue_level (th s' u) = p)" for u k p
    using assms(1) assms(4) [of u] unfolding queue_ok_def assms(2,3) by (cases "u < length (sc_threads s)") auto
  then show ?thesis using assms(1) unfolding queue_ok_def assms(2) by simp
qed

lemma queue_claim:
  assumes "queue_ok X s" "sc_rq s' = sc_rq s" "length (sc_threads s') = length (sc_threads s)"
    and "t < length (sc_threads s)" "t \<in> X \<or> th_state (th s t) \<noteq> TS_READY" "th_state (th s' t) \<noteq> TS_READY"
    and "\<And>u. u \<noteq> t \<Longrightarrow> th s' u = th s u"
  shows "queue_ok (X - {t}) s'"
proof -
  have "(u \<in> set (rq_ready (sc_rq s') k p)) = (u \<notin> X - {t} \<and> u < length (sc_threads s') \<and>
        th_state (th s' u) = TS_READY \<and> th_class (th s' u) = k \<and> queue_level (th s' u) = p)" for u k p
    using assms by (cases "u = t") (auto simp: queue_ok_def)
  then show ?thesis using assms(1,2) by (simp add: queue_ok_def)
qed

lemma queue_exempt:
  assumes "queue_ok X s" "t \<in> X"
  shows "queue_ok X (set_th t f s)"
proof -
  have "(u \<in> set (rq_ready (sc_rq s) k p)) = (u \<notin> X \<and> u < length (sc_threads s) \<and>
        th_state (th (set_th t f s) u) = TS_READY \<and> th_class (th (set_th t f s) u) = k \<and>
        queue_level (th (set_th t f s) u) = p)" for u k p
    using assms by (auto simp: queue_ok_def th_set_th)
  then show ?thesis using assms(1) by (simp add: queue_ok_def)
qed

end
