(* ===== verification/RK_SchedRun.thy ===== *)
theory RK_SchedRun
  imports RK_SchedQueue
begin

text \<open>
  The scheduler in motion: what a scheduling decision does to the queues and the CPUs, the
  transition relation of the whole scheduler, and its invariant: a ready thread is on exactly
  one queue, and no thread runs on two CPUs.
\<close>

section \<open>One scheduling decision\<close>

definition cpu_ok :: "sched \<Rightarrow> bool" where
  "cpu_ok s \<longleftrightarrow>
     (\<forall>c < length (sc_cpus s).
        (cs_current (cpu s c) = None \<longleftrightarrow> cs_idle (cpu s c) = None) \<and> cs_prev_pending (cpu s c) = None \<and>
        cs_stack (cpu s c) = cs_current (cpu s c) \<and>
        (\<forall>t. cs_current (cpu s c) = Some t \<or> cs_idle (cpu s c) = Some t \<longrightarrow>
           t < length (sc_threads s) \<and> th_state (th s t) = TS_RUNNING)) \<and>
     (\<forall>c d t. c < length (sc_cpus s) \<longrightarrow> d < length (sc_cpus s) \<longrightarrow> c \<noteq> d \<longrightarrow>
        cs_current (cpu s c) = Some t \<or> cs_idle (cpu s c) = Some t \<longrightarrow>
        cs_current (cpu s d) \<noteq> Some t \<and> cs_idle (cpu s d) \<noteq> Some t)"

definition sys_ok :: "sched \<Rightarrow> bool" where
  "sys_ok s \<longleftrightarrow> queue_ok {} s \<and> cpu_ok s \<and> (\<forall>t \<in> set (sc_all s). t < length (sc_threads s))"

text \<open>A change that leaves every thread's place in the queues alone.\<close>

definition same_place :: "thread \<Rightarrow> thread \<Rightarrow> bool" where
  "same_place x y \<longleftrightarrow> th_state y = th_state x \<and> th_class y = th_class x \<and> th_priority y = th_priority x"

lemma same_place_level: "same_place x y \<Longrightarrow> queue_level y = queue_level x"
  by (simp add: same_place_def queue_level_def)

lemma queue_same:
  assumes "queue_ok X s" "\<And>x. same_place x (f x)"
  shows "queue_ok X (set_th t f s)"
proof (rule queue_cong [OF assms(1)])
  fix u
  assume "u < length (sc_threads s)"
  have "same_place (th s u) (th (set_th t f s) u)"
    using assms(2) by (simp add: th_set_th same_place_def)
  then show "(th_state (th (set_th t f s) u) = TS_READY \<longleftrightarrow> th_state (th s u) = TS_READY) \<and>
      (th_state (th s u) = TS_READY \<longrightarrow> th_class (th (set_th t f s) u) = th_class (th s u) \<and>
         queue_level (th (set_th t f s) u) = queue_level (th s u))"
    using same_place_level by (simp add: same_place_def)
qed simp_all

lemma queue_state:
  assumes "queue_ok X s" "t < length (sc_threads s)" "t \<in> X \<or> th_state (th s t) \<noteq> TS_READY"
    and "\<And>x. th_state (f x) \<noteq> TS_READY"
  shows "queue_ok (X - {t}) (set_th t f s)"
  by (rule queue_claim [OF assms(1)]) (use assms in \<open>auto simp: th_set_th\<close>)

lemma queue_other:
  assumes "queue_ok X s" "sc_rq s' = sc_rq s" "sc_threads s' = sc_threads s"
  shows "queue_ok X s'"
proof (rule queue_cong [OF assms(1,2)])
  show "\<And>u. (th_state (th s' u) = TS_READY \<longleftrightarrow> th_state (th s u) = TS_READY) \<and>
      (th_state (th s u) = TS_READY \<longrightarrow> th_class (th s' u) = th_class (th s u) \<and>
         queue_level (th s' u) = queue_level (th s u))"
    using assms(3) by (simp add: th_def)
qed (use assms(3) in simp)

lemma charge_place: "same_place x (charge spent x)"
  by (simp add: charge_def same_place_def Let_def)

lemma charge_prev_simps [simp]:
  "sc_rq (charge_prev now p s) = sc_rq s" "cpu (charge_prev now p s) c = cpu s c"
  "sc_cpus (charge_prev now p s) = sc_cpus s" "sc_all (charge_prev now p s) = sc_all s"
  "length (sc_threads (charge_prev now p s)) = length (sc_threads s)"
  "sc_ready (charge_prev now p s) = sc_ready s" "sc_waiters (charge_prev now p s) = sc_waiters s"
  by (simp_all add: charge_prev_def Let_def) (simp_all add: cpu_def)

lemma charge_prev_place: "same_place (th s u) (th (charge_prev now p s) u)"
proof -
  have "th (s\<lparr>sc_tasks := k\<rparr>) u = th s u" for k u by (simp add: th_def)
  then show ?thesis
    using charge_place by (simp add: charge_prev_def Let_def th_set_th same_place_def)
qed

lemma queue_place:
  assumes "queue_ok X s" "sc_rq s' = sc_rq s" "length (sc_threads s') = length (sc_threads s)"
    and "\<And>u. same_place (th s u) (th s' u)"
  shows "queue_ok X s'"
proof (rule queue_cong [OF assms(1-3)])
  fix u
  show "(th_state (th s' u) = TS_READY \<longleftrightarrow> th_state (th s u) = TS_READY) \<and>
      (th_state (th s u) = TS_READY \<longrightarrow> th_class (th s' u) = th_class (th s u) \<and>
         queue_level (th s' u) = queue_level (th s u))"
    using assms(4) [of u] same_place_level [OF assms(4) [of u]] by (simp add: same_place_def)
qed

lemma queue_charge: "queue_ok X s \<Longrightarrow> queue_ok X (charge_prev now p s)"
  by (rule queue_place [of X s], simp_all) (rule charge_prev_place)

text \<open>The state before the switch: what \<open>schedule_pick\<close> leaves, for a thread or the idle one.\<close>

definition prepared :: "nat \<Rightarrow> nat \<Rightarrow> nat \<Rightarrow> sched \<Rightarrow> sched \<Rightarrow> bool" where
  "prepared c prev next s s' \<longleftrightarrow>
     queue_ok (if th_state (th s next) = TS_READY then {next} else {}) s' \<and>
     length (sc_threads s') = length (sc_threads s) \<and> length (sc_cpus s') = length (sc_cpus s) \<and>
     sc_all s' = sc_all s \<and> sc_ready s' = sc_ready s \<and> sc_waiters s' = sc_waiters s \<and>
     (\<forall>d. d \<noteq> c \<longrightarrow> cpu s' d = cpu s d) \<and> cs_idle (cpu s' c) = cs_idle (cpu s c) \<and>
     cs_current (cpu s' c) = cs_current (cpu s c) \<and> cs_stack (cpu s' c) = cs_stack (cpu s c) \<and>
     (\<forall>u. u \<noteq> prev \<longrightarrow> th_state (th s' u) = th_state (th s u)) \<and>
     (if Some prev = cs_idle (cpu s c)
      then th_state (th s' prev) = th_state (th s prev) \<and> cs_prev_pending (cpu s' c) = None
      else cs_prev_pending (cpu s' c) = (if th_state (th s' prev) = TS_RUNNING then Some prev else None) \<and>
           th_state (th s' prev) \<noteq> TS_READY)"

lemma pick_prepares:
  assumes ok: "sys_ok s" and c: "c < length (sc_cpus s)"
    and cur: "cs_current (cpu s c) = Some prev" and idle: "cs_idle (cpu s c) = Some idle"
    and ps: "ps \<noteq> TS_READY" and pick: "schedule_pick c ps s = (next, s')"
  shows "prepared c prev next s s' \<and>
    (next = idle \<or> next < length (sc_threads s) \<and> th_state (th s next) = TS_READY)"
proof -
  have q: "queue_ok {} s" and k: "cpu_ok s" using ok by (auto simp: sys_ok_def)
  have pl: "prev < length (sc_threads s)" "th_state (th s prev) = TS_RUNNING" "cs_prev_pending (cpu s c) = None"
    "idle < length (sc_threads s)" "th_state (th s idle) = TS_RUNNING"
    using k c cur idle by (auto simp: cpu_ok_def)
  define s1 where "s1 = (if prev \<noteq> idle \<and> ps \<noteq> TS_RUNNING then set_th prev (\<lambda>x. x\<lparr>th_state := ps\<rparr>) s else s)"
  have q1: "queue_ok {} s1"
    using queue_state [OF q pl(1), of "\<lambda>x. x\<lparr>th_state := ps\<rparr>"] q ps pl(2) by (simp add: s1_def)
  have l1: "length (sc_threads s1) = length (sc_threads s)" "sc_cpus s1 = sc_cpus s" "cpu s1 d = cpu s d"
    "sc_all s1 = sc_all s" "sc_ready s1 = sc_ready s" "sc_waiters s1 = sc_waiters s" for d
    by (simp_all add: s1_def)
  have st1: "th_state (th s1 u) = (if u = prev \<and> prev \<noteq> idle then ps else th_state (th s u))" for u
    using pl(1,2) by (simp add: s1_def th_set_th)
  define nx where "nx = (case pick_next c s1 of Some t \<Rightarrow> (t, rq_dequeue t s1) | None \<Rightarrow> (idle, s1))"
  define s2 where "s2 = snd nx"
  have e: "schedule_pick c ps s = (fst nx, set_cpu c (\<lambda>x. x\<lparr>cs_need_resched := False\<rparr>)
      (set_th (fst nx) (\<lambda>x. x\<lparr>th_slice := slice_for x\<rparr>)
        (if prev \<noteq> idle \<and> th_state (th s2 prev) = TS_RUNNING
         then set_cpu c (\<lambda>x. x\<lparr>cs_prev_pending := Some prev\<rparr>) s2 else s2)))"
    unfolding schedule_pick_def Let_def cur idle option.sel option.inject case_prod_unfold s2_def nx_def s1_def
    by simp
  have next_s': "next = fst nx" "s' = set_cpu c (\<lambda>x. x\<lparr>cs_need_resched := False\<rparr>)
      (set_th next (\<lambda>x. x\<lparr>th_slice := slice_for x\<rparr>)
        (if prev \<noteq> idle \<and> th_state (th s2 prev) = TS_RUNNING
         then set_cpu c (\<lambda>x. x\<lparr>cs_prev_pending := Some prev\<rparr>) s2 else s2))"
    using pick unfolding e prod.inject by (blast, blast)
  have q2: "queue_ok (if th_state (th s next) = TS_READY then {next} else {}) s2 \<and>
    (next = idle \<or> next < length (sc_threads s) \<and> th_state (th s next) = TS_READY)"
  proof (cases "pick_next c s1")
    case None
    then show ?thesis using next_s'(1) q1 pl(5) by (simp add: s2_def nx_def)
  next
    case (Some t)
    then have t: "t < length (sc_threads s)" "th_state (th s1 t) = TS_READY"
      using pick_next_ready(1) [OF Some] ready_threads_eq [OF q1] l1 by auto
    then have "th_state (th s t) = TS_READY" using st1 [of t] ps by (auto split: if_splits)
    then show ?thesis
      using queue_dequeue [OF q1 _ t(2)] t(1) l1(1) Some next_s'(1) by (simp add: s2_def nx_def)
  qed
  have l2: "sc_threads s2 = sc_threads s1" "sc_cpus s2 = sc_cpus s1" "cpu s2 d = cpu s1 d" "th s2 u = th s1 u"
    "sc_all s2 = sc_all s1" "sc_ready s2 = sc_ready s1" "sc_waiters s2 = sc_waiters s1" for d u
    by (simp_all add: s2_def nx_def rq_dequeue_def Let_def th_def cpu_def split: option.split)
  have sp: "same_place (th s2 u) (th s' u)" for u
    by (simp add: next_s'(2) th_set_th same_place_def)
  have rq: "sc_rq s' = sc_rq s2" by (simp add: next_s'(2))
  have len: "length (sc_threads s') = length (sc_threads s)" "length (sc_cpus s') = length (sc_cpus s)"
    "sc_all s' = sc_all s" "sc_ready s' = sc_ready s" "sc_waiters s' = sc_waiters s"
    by (simp_all add: next_s'(2) l1 l2)
  have "length (sc_threads s') = length (sc_threads s2)" using len(1) l1(1) l2(1) by simp
  from queue_place [OF conjunct1 [OF q2] rq this sp]
  have q': "queue_ok (if th_state (th s next) = TS_READY then {next} else {}) s'" .
  have st': "th_state (th s' u) = (if u = prev \<and> prev \<noteq> idle then ps else th_state (th s u))" for u
    using sp [of u] st1 [of u] l2(4) [of u] by (simp only: same_place_def)
  have cp: "cpu s' d = (if d = c then (if prev \<noteq> idle \<and> ps = TS_RUNNING
      then (cpu s c)\<lparr>cs_prev_pending := Some prev, cs_need_resched := False\<rparr>
      else (cpu s c)\<lparr>cs_need_resched := False\<rparr>) else cpu s d)" for d
  proof -
    define P where "P = (prev \<noteq> idle \<and> th_state (th s2 prev) = TS_RUNNING)"
    have P: "P \<longleftrightarrow> prev \<noteq> idle \<and> ps = TS_RUNNING"
      using st1 [of prev] l2(4) [of prev] by (auto simp: P_def)
    have cc: "c < length (sc_cpus s2)" "cpu s2 c = cpu s c" "cpu s2 d = cpu s d" using c l1 l2 by simp_all
    show ?thesis
      unfolding next_s'(2) P_def [symmetric] P [symmetric] using cc
      by (cases P; cases "d = c") (simp_all add: cpu_set_cpu)
  qed
  show ?thesis
    using q' len q2 pl(2,3) ps idle unfolding prepared_def by (cases "prev = idle") (simp_all add: st' cp)
qed

lemma start_next_simps:
  "rq_ready (sc_rq (start_next c now n s)) = rq_ready (sc_rq s)"
  "rq_bitmap (sc_rq (start_next c now n s)) = rq_bitmap (sc_rq s)"
  "length (sc_threads (start_next c now n s)) = length (sc_threads s)"
  "length (sc_cpus (start_next c now n s)) = length (sc_cpus s)"
  "sc_all (start_next c now n s) = sc_all s" "sc_ready (start_next c now n s) = sc_ready s"
  "sc_waiters (start_next c now n s) = sc_waiters s"
  "cpu (start_next c now n s) d = (if d = c \<and> c < length (sc_cpus s) then (cpu s c)\<lparr>cs_current := Some n\<rparr> else cpu s d)"
  "u \<noteq> n \<Longrightarrow> th (start_next c now n s) u = th s u"
  "n < length (sc_threads s) \<Longrightarrow> th_state (th (start_next c now n s) n) = TS_RUNNING"
proof -
  have "th (s\<lparr>sc_rq := q\<rparr>) u = th s u" "cpu (s\<lparr>sc_rq := q\<rparr>) d = cpu s d" for s q u d
    by (simp_all add: th_def cpu_def)
  then show "rq_ready (sc_rq (start_next c now n s)) = rq_ready (sc_rq s)"
    "rq_bitmap (sc_rq (start_next c now n s)) = rq_bitmap (sc_rq s)"
    "length (sc_threads (start_next c now n s)) = length (sc_threads s)"
    "length (sc_cpus (start_next c now n s)) = length (sc_cpus s)"
    "sc_all (start_next c now n s) = sc_all s" "sc_ready (start_next c now n s) = sc_ready s"
    "sc_waiters (start_next c now n s) = sc_waiters s"
    "cpu (start_next c now n s) d = (if d = c \<and> c < length (sc_cpus s) then (cpu s c)\<lparr>cs_current := Some n\<rparr> else cpu s d)"
    "u \<noteq> n \<Longrightarrow> th (start_next c now n s) u = th s u"
    "n < length (sc_threads s) \<Longrightarrow> th_state (th (start_next c now n s) n) = TS_RUNNING"
    by (simp_all add: start_next_def Let_def cpu_set_cpu th_set_th)
qed

lemma queue_start_next:
  assumes "queue_ok X s" "n < length (sc_threads s)" "n \<in> X \<or> th_state (th s n) \<noteq> TS_READY"
  shows "queue_ok (X - {n}) (start_next c now n s)"
proof -
  have "(u \<in> set (rq_ready (sc_rq s) k p)) = (u \<notin> X - {n} \<and> u < length (sc_threads s) \<and>
        th_state (th (start_next c now n s) u) = TS_READY \<and> th_class (th (start_next c now n s) u) = k \<and>
        queue_level (th (start_next c now n s) u) = p)" for u k p
    using assms start_next_simps(10) [OF assms(2)] start_next_simps(9) [of u n c now s]
    by (cases "u = n") (auto simp: queue_ok_def)
  then show ?thesis using assms(1) by (simp add: queue_ok_def start_next_simps)
qed

definition scheduled :: "nat \<Rightarrow> sched \<Rightarrow> sched \<Rightarrow> bool" where
  "scheduled c s s' \<longleftrightarrow> sys_ok s' \<and> length (sc_threads s') = length (sc_threads s) \<and>
     length (sc_cpus s') = length (sc_cpus s) \<and> sc_all s' = sc_all s \<and> sc_ready s' = sc_ready s \<and>
     sc_waiters s' = sc_waiters s \<and> (\<forall>d. cs_idle (cpu s' d) = cs_idle (cpu s d)) \<and>
     (\<forall>d. d \<noteq> c \<longrightarrow> cpu s' d = cpu s d)"

text \<open>The CPUs after a decision: \<open>c\<close> runs \<open>nx\<close>, the others are as before.\<close>

lemma cpu_ok_switch:
  assumes k: "cpu_ok s" and c: "c < length (sc_cpus s)"
    and cur: "cs_current (cpu s c) = Some prev" and idle: "cs_idle (cpu s c) = Some idle"
    and nx: "nx = idle \<or> th_state (th s nx) = TS_READY" "nx < length (sc_threads s)"
    and len: "length (sc_threads s') = length (sc_threads s)" "length (sc_cpus s') = length (sc_cpus s)"
    and cc: "cs_current (cpu s' c) = Some nx" "cs_stack (cpu s' c) = Some nx" "cs_prev_pending (cpu s' c) = None"
      "cs_idle (cpu s' c) = Some idle" "\<And>d. d \<noteq> c \<Longrightarrow> cpu s' d = cpu s d"
    and st: "th_state (th s' nx) = TS_RUNNING" "\<And>u. u \<noteq> prev \<Longrightarrow> u \<noteq> nx \<Longrightarrow> th_state (th s' u) = th_state (th s u)"
      "prev = idle \<Longrightarrow> th_state (th s' prev) = TS_RUNNING"
  shows "cpu_ok s'"
proof -
  have one: "(cs_current (cpu s d) = None \<longleftrightarrow> cs_idle (cpu s d) = None)" "cs_prev_pending (cpu s d) = None"
    "cs_stack (cpu s d) = cs_current (cpu s d)"
    "cs_current (cpu s d) = Some t \<or> cs_idle (cpu s d) = Some t \<Longrightarrow> t < length (sc_threads s) \<and> th_state (th s t) = TS_RUNNING"
    if "d < length (sc_cpus s)" for d t
    using k that by (auto simp: cpu_ok_def)
  have two: "cs_current (cpu s e) \<noteq> Some t" "cs_idle (cpu s e) \<noteq> Some t"
    if "d < length (sc_cpus s)" "e < length (sc_cpus s)" "d \<noteq> e" "cs_current (cpu s d) = Some t \<or> cs_idle (cpu s d) = Some t"
    for d e t
    using k that unfolding cpu_ok_def by blast+
  have far: "t \<noteq> prev \<and> t \<noteq> nx \<and> t \<noteq> idle"
    if d: "d < length (sc_cpus s)" "d \<noteq> c" "cs_current (cpu s d) = Some t \<or> cs_idle (cpu s d) = Some t" for d t
  proof -
    have "t \<noteq> prev" "t \<noteq> idle" using two [OF d(1) c d(2,3)] cur idle by auto
    moreover have "th_state (th s t) = TS_RUNNING" using one(4) [OF d(1,3)] by simp
    ultimately show ?thesis using nx by auto
  qed
  have idle_run: "th_state (th s' idle) = TS_RUNNING" "idle < length (sc_threads s)"
  proof -
    have "idle < length (sc_threads s) \<and> th_state (th s idle) = TS_RUNNING" using one(4) [OF c, of idle] idle by simp
    then show "idle < length (sc_threads s)" "th_state (th s' idle) = TS_RUNNING"
      using st by (cases "idle = prev"; cases "idle = nx"; simp)+
  qed
  show ?thesis
    unfolding cpu_ok_def len
  proof (intro conjI allI impI)
    fix d
    assume d: "d < length (sc_cpus s)"
    show "(cs_current (cpu s' d) = None) = (cs_idle (cpu s' d) = None)" "cs_prev_pending (cpu s' d) = None"
      "cs_stack (cpu s' d) = cs_current (cpu s' d)"
      using cc one(1-3) [OF d] by (cases "d = c"; simp)+
    fix t
    assume t: "cs_current (cpu s' d) = Some t \<or> cs_idle (cpu s' d) = Some t"
    show "t < length (sc_threads s)" "th_state (th s' t) = TS_RUNNING"
    proof (atomize(full), cases "d = c")
      case True
      then have "t = nx \<or> t = idle" using t cc by auto
      then show "t < length (sc_threads s) \<and> th_state (th s' t) = TS_RUNNING" using nx(2) st(1) idle_run by auto
    next
      case False
      then have t2: "cs_current (cpu s d) = Some t \<or> cs_idle (cpu s d) = Some t" using t cc(5) by simp
      then show "t < length (sc_threads s) \<and> th_state (th s' t) = TS_RUNNING"
        using one(4) [OF d t2] far [OF d False t2] st(2) [of t] by simp
    qed
  next
    fix d e t
    assume d: "d < length (sc_cpus s)" and e: "e < length (sc_cpus s)" and ne: "d \<noteq> e"
      and t: "cs_current (cpu s' d) = Some t \<or> cs_idle (cpu s' d) = Some t"
    have "cs_current (cpu s' e) \<noteq> Some t \<and> cs_idle (cpu s' e) \<noteq> Some t"
    proof (cases "d = c")
      case True
      then have "t = nx \<or> t = idle" using t cc by auto
      then show ?thesis using far [OF e] ne True cc(5) [of e] by auto
    next
      case False
      then have t2: "cs_current (cpu s d) = Some t \<or> cs_idle (cpu s d) = Some t" using t cc(5) by simp
      show ?thesis
      proof (cases "e = c")
        case True
        then show ?thesis using far [OF d False t2] cc by auto
      next
        case e2: False
        then show ?thesis using two [OF d e ne t2] cc(5) [of e] by simp
      qed
    qed
    then show "cs_current (cpu s' e) \<noteq> Some t" "cs_idle (cpu s' e) \<noteq> Some t" by auto
  qed
qed

lemma schedule_scheduled:
  assumes ok: "sys_ok s" and r: "sc_ready s" and c: "c < length (sc_cpus s)"
    and cur: "cs_current (cpu s c) = Some prev" and ps: "ps \<noteq> TS_READY"
  shows "scheduled c s (schedule c now ps s)"
proof -
  have q: "queue_ok {} s" and k: "cpu_ok s" and al: "\<forall>t \<in> set (sc_all s). t < length (sc_threads s)"
    using ok by (auto simp: sys_ok_def)
  obtain idle where idle: "cs_idle (cpu s c) = Some idle" using k c cur by (auto simp: cpu_ok_def)
  obtain nx s1 where pick: "schedule_pick c ps s = (nx, s1)" by (cases "schedule_pick c ps s")
  have P: "prepared c prev nx s s1" and n: "nx = idle \<or> nx < length (sc_threads s) \<and> th_state (th s nx) = TS_READY"
    using pick_prepares [OF ok c cur idle ps pick] by auto
  have pl: "prev < length (sc_threads s)" "th_state (th s prev) = TS_RUNNING" "cs_stack (cpu s c) = Some prev"
    "idle < length (sc_threads s)" "th_state (th s idle) = TS_RUNNING"
    using k c cur idle by (auto simp: cpu_ok_def)
  have nl: "nx < length (sc_threads s)" using n pl by auto
  have nr: "nx = idle \<or> th_state (th s nx) = TS_READY" using n by auto
  let ?X = "if th_state (th s nx) = TS_READY then {nx} else {}"
  have s1: "queue_ok ?X s1" "length (sc_threads s1) = length (sc_threads s)" "length (sc_cpus s1) = length (sc_cpus s)"
    "sc_all s1 = sc_all s" "sc_ready s1 = sc_ready s" "sc_waiters s1 = sc_waiters s"
    "\<And>d. d \<noteq> c \<Longrightarrow> cpu s1 d = cpu s d" "cs_idle (cpu s1 c) = Some idle"
    "cs_current (cpu s1 c) = Some prev" "cs_stack (cpu s1 c) = Some prev"
    "\<And>u. u \<noteq> prev \<Longrightarrow> th_state (th s1 u) = th_state (th s u)"
    using P idle cur pl(3) by (auto simp: prepared_def)
  have ids: "cs_idle (cpu s1 d) = cs_idle (cpu s d)" for d using s1(7) [of d] s1(8) idle by (cases "d = c") simp_all
  have s1p: "prev = idle \<Longrightarrow> th_state (th s1 prev) = TS_RUNNING \<and> cs_prev_pending (cpu s1 c) = None"
    "prev \<noteq> idle \<Longrightarrow> cs_prev_pending (cpu s1 c) = (if th_state (th s1 prev) = TS_RUNNING then Some prev else None) \<and>
       th_state (th s1 prev) \<noteq> TS_READY"
    using P idle pl(2) by (auto simp: prepared_def)
  show ?thesis
  proof (cases "nx = prev")
    case True
    then have pi: "prev = idle" using nr pl(2) by auto
    have e: "schedule c now ps s = s1" using r True by (simp add: schedule_def pick cur)
    have "cpu_ok s1"
      by (rule cpu_ok_switch [OF k c cur idle nr nl s1(2,3) _ _ _ s1(8,7)])
        (use True pi s1 s1p in auto)
    moreover have "queue_ok {} s1" using s1(1) True pl(2) by simp
    ultimately show ?thesis
      using s1(2-7) al ids unfolding scheduled_def sys_ok_def e by simp
  next
    case False
    define s2 where "s2 = start_next c now nx (charge_prev now prev s1)"
    define s3 where "s3 = set_cpu c (\<lambda>x. x\<lparr>cs_stack := Some nx\<rparr>) s2"
    have e: "schedule c now ps s = sched_finish_switch c s3"
      using r False by (simp add: schedule_def pick cur context_switch_def Let_def s2_def s3_def)
    have chs: "th_state (th (charge_prev now prev s1) u) = th_state (th s1 u)" for u
      using charge_prev_place [of s1 u now prev] by (simp add: same_place_def)
    have nxs: "th_state (th s1 nx) = th_state (th s nx)" using s1(11) False by auto
    have "queue_ok (?X - {nx}) s2"
      unfolding s2_def
      by (rule queue_start_next [OF queue_charge [OF s1(1)]]) (use nl s1(2) nxs chs in auto)
    then have "queue_ok {} s2" by (simp split: if_splits)
    then have q3: "queue_ok {} s3" by (rule queue_other) (simp_all add: s3_def)
    have th3: "th_state (th s3 u) = (if u = nx then TS_RUNNING else th_state (th s1 u))" for u
      using start_next_simps(9,10) nl s1(2) chs by (simp add: s3_def s2_def)
    have cpu3: "cpu s3 d = (if d = c then (cpu s1 c)\<lparr>cs_current := Some nx, cs_stack := Some nx\<rparr> else cpu s d)" for d
      using c s1(3,7) by (simp add: s3_def s2_def cpu_set_cpu start_next_simps)
    have len3: "length (sc_threads s3) = length (sc_threads s)" "length (sc_cpus s3) = length (sc_cpus s)"
      "sc_all s3 = sc_all s" "sc_ready s3 = sc_ready s" "sc_waiters s3 = sc_waiters s"
      using s1 by (simp_all add: s3_def s2_def start_next_simps)
    show ?thesis
    proof (cases "cs_prev_pending (cpu s3 c)")
      case None
      have e2: "schedule c now ps s = s3" using None by (simp add: e sched_finish_switch_def)
      have "cpu_ok s3"
        by (rule cpu_ok_switch [OF k c cur idle nr nl len3(1,2)])
          (use None cpu3 th3 s1 s1p False in auto)
      then show ?thesis
        using q3 len3 cpu3 s1(7,8) al idle unfolding scheduled_def sys_ok_def e2 by auto
    next
      case (Some p)
      have pp: "cs_prev_pending (cpu s1 c) = Some p" using Some cpu3 [of c] by simp
      then have ni: "prev \<noteq> idle" "p = prev" "th_state (th s1 prev) = TS_RUNNING" "p \<noteq> nx"
        using s1p False by (cases "prev = idle"; auto split: if_splits)+
      define s4 where "s4 = set_cpu c (\<lambda>x. x\<lparr>cs_prev_pending := None\<rparr>) s3"
      have e2: "schedule c now ps s = rq_enqueue prev s4" using Some ni by (simp add: e sched_finish_switch_def s4_def)
      have q4: "queue_ok {} s4" using q3 by (rule queue_other) (simp_all add: s4_def)
      have th4: "th s4 u = th s3 u" for u by (simp add: s4_def)
      have q5: "queue_ok {} (rq_enqueue prev s4)"
        using queue_enqueue [OF q4, of prev] pl(1) len3(1) th3 [of prev] ni False by (simp add: s4_def)
      have th5: "th_state (th (rq_enqueue prev s4) u) = (if u = prev then TS_READY else th_state (th s3 u))" for u
        using pl(1) len3(1) by (simp add: th_enqueue s4_def)
      have cpu5: "cpu (rq_enqueue prev s4) d =
          (if d = c then (cpu s1 c)\<lparr>cs_current := Some nx, cs_stack := Some nx, cs_prev_pending := None\<rparr> else cpu s d)" for d
        using c len3(2) cpu3 by (simp add: s4_def cpu_set_cpu)
      have len5: "length (sc_threads (rq_enqueue prev s4)) = length (sc_threads s)"
        "length (sc_cpus (rq_enqueue prev s4)) = length (sc_cpus s)" using len3 by (simp_all add: s4_def)
      have w5: "sc_waiters (rq_enqueue prev s4) = sc_waiters s"
        using len3 by (simp add: rq_enqueue_def Let_def s4_def)
      have "cpu_ok (rq_enqueue prev s4)"
        by (rule cpu_ok_switch [OF k c cur idle nr nl len5])
          (use cpu5 th5 th3 s1 ni False in auto)
      then show ?thesis
        using q5 len5 len3 cpu5 s1(7,8) al idle w5 unfolding scheduled_def sys_ok_def e2
        by (auto simp: s4_def)
    qed
  qed
qed

section \<open>The other operations\<close>

definition cpu_same :: "cpu_state \<Rightarrow> cpu_state \<Rightarrow> bool" where
  "cpu_same x y \<longleftrightarrow> cs_current y = cs_current x \<and> cs_idle y = cs_idle x \<and>
     cs_prev_pending y = cs_prev_pending x \<and> cs_stack y = cs_stack x"

lemma cpu_ok_keep:
  assumes k: "cpu_ok s" and len: "length (sc_cpus s') = length (sc_cpus s)" "length (sc_threads s) \<le> length (sc_threads s')"
    and same: "\<And>c. cpu_same (cpu s c) (cpu s' c)"
    and run: "\<And>u. u < length (sc_threads s) \<Longrightarrow> th_state (th s u) = TS_RUNNING \<Longrightarrow> th_state (th s' u) = TS_RUNNING"
  shows "cpu_ok s'"
proof -
  have eq: "cs_current (cpu s' c) = cs_current (cpu s c)" "cs_idle (cpu s' c) = cs_idle (cpu s c)"
    "cs_prev_pending (cpu s' c) = cs_prev_pending (cpu s c)" "cs_stack (cpu s' c) = cs_stack (cpu s c)" for c
    using same [of c] by (simp_all add: cpu_same_def)
  show ?thesis
    unfolding cpu_ok_def eq len(1)
  proof (intro conjI allI impI)
    fix c
    assume c: "c < length (sc_cpus s)"
    show "(cs_current (cpu s c) = None) = (cs_idle (cpu s c) = None)" "cs_prev_pending (cpu s c) = None"
      "cs_stack (cpu s c) = cs_current (cpu s c)"
      using k c unfolding cpu_ok_def by blast+
    fix t
    assume t: "cs_current (cpu s c) = Some t \<or> cs_idle (cpu s c) = Some t"
    have "t < length (sc_threads s) \<and> th_state (th s t) = TS_RUNNING"
      using k c t unfolding cpu_ok_def by blast
    then show "t < length (sc_threads s')" "th_state (th s' t) = TS_RUNNING"
      using len(2) run [of t] by auto
  next
    fix c d t
    assume a: "c < length (sc_cpus s)" "d < length (sc_cpus s)" "c \<noteq> d"
      "cs_current (cpu s c) = Some t \<or> cs_idle (cpu s c) = Some t"
    show "cs_current (cpu s d) \<noteq> Some t" "cs_idle (cpu s d) \<noteq> Some t"
      using k a unfolding cpu_ok_def by blast+
  qed
qed

lemma sys_cong:
  assumes "sys_ok s" "sc_rq s' = sc_rq s" "length (sc_threads s') = length (sc_threads s)" "sc_all s' = sc_all s"
    and "length (sc_cpus s') = length (sc_cpus s)"
    and "\<And>c. cpu_same (cpu s c) (cpu s' c)"
    and "\<And>t. th_state (th s' t) = th_state (th s t) \<and> (th_state (th s t) = TS_READY \<longrightarrow>
      th_class (th s' t) = th_class (th s t) \<and> queue_level (th s' t) = queue_level (th s t))"
  shows "sys_ok s'"
proof -
  have "queue_ok {} s'"
    by (rule queue_cong [of "{}" s, OF _ assms(2,3)]) (use assms(1) in \<open>simp add: sys_ok_def\<close>, simp add: assms(7))
  moreover have "cpu_ok s'"
    by (rule cpu_ok_keep [of s]) (use assms in \<open>simp_all add: sys_ok_def\<close>)
  ultimately show ?thesis using assms(1,3,4) by (simp add: sys_ok_def)
qed

lemma sys_same: "sys_ok s \<Longrightarrow> (\<And>x. same_place x (f x)) \<Longrightarrow> sys_ok (set_th t f s)"
  by (rule sys_cong [of s]) (simp_all add: th_set_th same_place_def queue_level_def cpu_same_def)

lemma sys_gstats [simp]: "sys_ok (set_gstats f s) = sys_ok s"
  by (simp add: sys_ok_def queue_ok_def cpu_ok_def)

lemma sys_cpu: "sys_ok s \<Longrightarrow> (\<And>x. cpu_same x (f x)) \<Longrightarrow> sys_ok (set_cpu c f s)"
  by (rule sys_cong [of s]) (simp_all add: cpu_set_cpu cpu_same_def)

lemma view_simps [simp]:
  "cpu (s\<lparr>sc_tasks := k\<rparr>) c = cpu s c" "th (s\<lparr>sc_tasks := k\<rparr>) t = th s t"
  "cpu (s\<lparr>sc_waiters := w\<rparr>) c = cpu s c" "th (s\<lparr>sc_waiters := w\<rparr>) t = th s t"
  by (simp_all add: cpu_def th_def)

lemma sys_waiters [simp]: "sys_ok (s\<lparr>sc_waiters := w\<rparr>) = sys_ok s"
  by (simp add: sys_ok_def queue_ok_def cpu_ok_def)

text \<open>A thread that neither runs nor is ready becomes ready.\<close>

lemma sys_enqueue:
  assumes "sys_ok s" "t < length (sc_threads s)" "th_state (th s t) \<notin> {TS_READY, TS_RUNNING}"
  shows "sys_ok (rq_enqueue t s)"
proof -
  have "queue_ok {} (rq_enqueue t s)"
    using queue_enqueue [of "{}" s t] assms by (simp add: sys_ok_def)
  moreover have "cpu_ok (rq_enqueue t s)"
    by (rule cpu_ok_keep [of s]) (use assms in \<open>auto simp: sys_ok_def th_enqueue cpu_same_def\<close>)
  ultimately show ?thesis using assms(1) by (simp add: sys_ok_def)
qed

text \<open>A thread outside the queues and the CPUs changes state but does not become ready.\<close>

lemma sys_park:
  assumes "sys_ok s" "t < length (sc_threads s)" "th_state (th s t) \<notin> {TS_READY, TS_RUNNING}"
    and "\<And>x. th_state (f x) \<noteq> TS_READY"
  shows "sys_ok (set_th t f s)"
proof -
  have "queue_ok {} (set_th t f s)"
    using queue_state [of "{}" s t f] assms by (simp add: sys_ok_def)
  moreover have "cpu_ok (set_th t f s)"
    by (rule cpu_ok_keep [of s]) (use assms in \<open>auto simp: sys_ok_def th_set_th cpu_same_def\<close>)
  ultimately show ?thesis using assms(1) by (simp add: sys_ok_def)
qed

lemma sys_append:
  assumes "sys_ok s" "th_state x \<noteq> TS_READY"
  shows "sys_ok (s\<lparr>sc_threads := sc_threads s @ [x]\<rparr>)"
    "th (s\<lparr>sc_threads := sc_threads s @ [x]\<rparr>) (length (sc_threads s)) = x"
proof -
  let ?s = "s\<lparr>sc_threads := sc_threads s @ [x]\<rparr>"
  have o: "th ?s t = th s t" if "t < length (sc_threads s)" for t
    using that by (simp add: th_def nth_append)
  have cp: "cpu ?s c = cpu s c" for c by (simp add: cpu_def)
  show n: "th ?s (length (sc_threads s)) = x" by (simp add: th_def)
  have "(u \<in> set (rq_ready (sc_rq s) k p)) = (u \<notin> {} \<and> u < length (sc_threads ?s) \<and>
        th_state (th ?s u) = TS_READY \<and> th_class (th ?s u) = k \<and> queue_level (th ?s u) = p)" for u k p
    using assms o [of u] n by (auto simp: sys_ok_def queue_ok_def less_Suc_eq)
  then have "queue_ok {} ?s" using assms(1) by (simp add: sys_ok_def queue_ok_def)
  moreover have "cpu_ok ?s"
    by (rule cpu_ok_keep [of s]) (use assms o cp in \<open>simp_all add: sys_ok_def cpu_same_def\<close>)
  ultimately show "sys_ok ?s" using assms(1) by (auto simp: sys_ok_def)
qed

section \<open>The scheduler's steps\<close>

definition sched_inv :: "sched \<Rightarrow> bool" where
  "sched_inv s \<longleftrightarrow> sys_ok s \<and> (\<forall>w. \<forall>t \<in> set (sc_waiters s w). t < length (sc_threads s))"

lemma inv_set:
  assumes "sched_inv s" "sys_ok s'" "sc_ready s' = sc_ready s" "sc_waiters s' = sc_waiters s"
    "length (sc_threads s') = length (sc_threads s)"
  shows "sched_inv s'"
  using assms by (simp add: sched_inv_def)

lemma inv_same: "sched_inv s \<Longrightarrow> (\<And>x. same_place x (f x)) \<Longrightarrow> sched_inv (set_th t f s)"
  by (rule inv_set [of s]) (simp_all add: sys_same sched_inv_def)

lemma inv_cpu: "sched_inv s \<Longrightarrow> (\<And>x. cpu_same x (f x)) \<Longrightarrow> sched_inv (set_cpu c f s)"
  by (rule inv_set [of s]) (simp_all add: sys_cpu sched_inv_def)

lemma inv_gstats [simp]: "sched_inv (set_gstats f s) = sched_inv s"
  by (simp add: sched_inv_def)

lemma inv_schedule:
  assumes "sched_inv s" "c < length (sc_cpus s)" "cs_current (cpu s c) \<noteq> None" "ps \<noteq> TS_READY"
  shows "sched_inv (schedule c now ps s)"
proof (cases "sc_ready s")
  case True
  obtain prev where p: "cs_current (cpu s c) = Some prev" using assms(3) by blast
  have "scheduled c s (schedule c now ps s)"
    by (rule schedule_scheduled [OF _ True assms(2) p assms(4)]) (use assms(1) in \<open>simp add: sched_inv_def\<close>)
  then show ?thesis using assms(1) by (simp add: scheduled_def sched_inv_def)
qed (use assms(1) in \<open>simp add: schedule_def\<close>)

lemma inv_nvcsw: "sched_inv s \<Longrightarrow> sched_inv (count_nvcsw c s)" "cpu (count_nvcsw c s) d = cpu s d"
  "length (sc_cpus (count_nvcsw c s)) = length (sc_cpus s)"
  by (auto simp: count_nvcsw_def same_place_def intro!: inv_same split: option.split)

lemma inv_yield:
  assumes "sched_inv s" "c < length (sc_cpus s)" "cs_current (cpu s c) \<noteq> None"
  shows "sched_inv (sched_yield c now s)" "sched_inv (sched_block c now s)"
  unfolding sched_yield_def sched_block_def
  by (rule inv_schedule; use assms in \<open>simp add: inv_nvcsw\<close>)+

lemma inv_enqueue:
  assumes "sched_inv s" "t < length (sc_threads s)" "th_state (th s t) \<notin> {TS_READY, TS_RUNNING}"
  shows "sched_inv (rq_enqueue t s)"
  by (rule inv_set [of s]) (use assms sys_enqueue in \<open>auto simp: sched_inv_def rq_enqueue_def Let_def\<close>)

lemma enqueue_cong:
  assumes "\<And>x. th_class (f x) = th_class (h x) \<and> th_priority (f x) = th_priority (h x) \<and>
      (f x)\<lparr>th_state := TS_READY\<rparr> = (h x)\<lparr>th_state := TS_READY\<rparr>"
  shows "rq_enqueue t (set_th t f s) = rq_enqueue t (set_th t h s)"
proof (cases "t < length (sc_threads s)")
  case True
  have c: "th_class (f x) = th_class (h x)" "queue_level (f x) = queue_level (h x)" for x
    using assms [of x] by (simp_all add: queue_level_def)
  have "set_th t (\<lambda>x. x\<lparr>th_state := TS_READY\<rparr>) (set_th t f s\<lparr>sc_rq := q\<rparr>) =
      set_th t (\<lambda>x. x\<lparr>th_state := TS_READY\<rparr>) (set_th t h s\<lparr>sc_rq := q\<rparr>)" for q
    using True assms [of "sc_threads s ! t"] by (simp add: set_th_def)
  then show ?thesis using True by (simp add: rq_enqueue_def Let_def th_set_th c)
next
  case False
  then have "set_th t f s = set_th t h s" by (simp add: set_th_def list_update_beyond)
  then show ?thesis by simp
qed

lemma wake_sleeper_eq:
  "wake_sleeper now t s =
     (if th_state (th s t) = TS_SLEEPING \<and> th_sleep_until (th s t) \<le> now
      then rq_enqueue t (set_th t (\<lambda>x. x\<lparr>th_sleep_until := 0\<rparr>) s) else s)"
proof -
  have "rq_enqueue t (set_th t (\<lambda>x. x\<lparr>th_state := TS_READY, th_sleep_until := 0\<rparr>) s) =
      rq_enqueue t (set_th t (\<lambda>x. x\<lparr>th_sleep_until := 0\<rparr>) s)"
    by (rule enqueue_cong) simp
  then show ?thesis by (simp add: wake_sleeper_def)
qed

lemma inv_wake_sleepers:
  assumes "\<forall>t \<in> set ts. t < length (sc_threads s)" "sched_inv s"
  shows "sched_inv (fold (wake_sleeper now) ts s) \<and>
    length (sc_cpus (fold (wake_sleeper now) ts s)) = length (sc_cpus s) \<and>
    (\<forall>c. cpu (fold (wake_sleeper now) ts s) c = cpu s c)"
  using assms
proof (induction ts arbitrary: s)
  case (Cons t ts)
  let ?s = "wake_sleeper now t s"
  have i: "sched_inv ?s"
  proof (cases "th_state (th s t) = TS_SLEEPING \<and> th_sleep_until (th s t) \<le> now")
    case True
    let ?u = "set_th t (\<lambda>x. x\<lparr>th_sleep_until := 0\<rparr>) s"
    have "sched_inv ?u" by (rule inv_same [OF Cons.prems(2)]) (simp add: same_place_def)
    moreover have "th_state (th ?u t) \<notin> {TS_READY, TS_RUNNING}" using True by (simp add: th_set_th)
    ultimately have "sched_inv (rq_enqueue t ?u)" using inv_enqueue [of ?u t] Cons.prems(1) by simp
    then show ?thesis using True by (simp add: wake_sleeper_eq)
  qed (use Cons.prems(2) in \<open>auto simp: wake_sleeper_def\<close>)
  have l: "length (sc_threads ?s) = length (sc_threads s)" "sc_cpus ?s = sc_cpus s" "cpu ?s c = cpu s c" for c
    by (simp_all add: wake_sleeper_def)
  show ?case using Cons.IH [OF _ i] Cons.prems(1) l by simp
qed simp

lemma inv_tick:
  assumes "sched_inv s" "c < length (sc_cpus s)"
  shows "sched_inv (sched_tick c now s)"
proof (cases "sc_ready s \<and> cs_current (cpu s c) \<noteq> None")
  case False
  then show ?thesis using assms(1) by (auto simp: sched_tick_def)
next
  case True
  then obtain t where Some: "cs_current (cpu s c) = Some t" by blast
  define s1 where "s1 = fold (wake_sleeper now) (sc_all s) s"
  define s2 where "s2 = check_deadline now t (check_slice c now t s1)"
  have "\<forall>t \<in> set (sc_all s). t < length (sc_threads s)" using assms(1) by (simp add: sched_inv_def sys_ok_def)
  note W = inv_wake_sleepers [OF this assms(1), of now, folded s1_def]
  have i1: "sched_inv (check_slice c now t s1)"
    using W by (auto simp: check_slice_def cpu_same_def same_place_def intro!: inv_cpu inv_same)
  have i2: "sched_inv s2"
    using i1 by (auto simp: s2_def check_deadline_def same_place_def intro!: inv_same)
  have c2: "length (sc_cpus s2) = length (sc_cpus s)" "cs_current (cpu s2 c) = Some t"
    using W Some by (simp_all add: s2_def check_deadline_def check_slice_def cpu_set_cpu)
  have "sched_tick c now s =
      (if cs_need_resched (cpu s2 c) \<and> cs_preempt_disable (cpu s2 c) = 0 then schedule c now TS_RUNNING s2 else s2)"
    using True Some by (simp add: sched_tick_def Let_def s1_def s2_def)
  then show ?thesis using inv_schedule [OF i2, of c TS_RUNNING now] i2 c2 assms(2) by simp
qed

lemma inv_wake:
  assumes "sched_inv s" "t < length (sc_threads s)"
  shows "sched_inv (sched_wake c now t s)" "length (sc_threads (sched_wake c now t s)) = length (sc_threads s)"
    "sc_waiters (sched_wake c now t s) = sc_waiters s"
proof -
  let ?f = "\<lambda>x. wake_boost (x\<lparr>th_wakeup := now\<rparr>)"
  show "sched_inv (sched_wake c now t s)"
  proof (cases "th_state (th s t) \<in> {TS_READY, TS_RUNNING, TS_ZOMBIE, TS_DEAD}")
    case False
    let ?s1 = "set_th t ?f s"
    have st: "th_state (?f x) = th_state x" for x by (simp add: wake_boost_def)
    have "sys_ok ?s1"
      by (rule sys_cong [of s]) (use assms(1) False st in \<open>auto simp: sched_inv_def th_set_th cpu_same_def\<close>)
    then have "sched_inv ?s1" by (intro inv_set [OF assms(1)]) simp_all
    moreover have "th_state (th ?s1 t) \<notin> {TS_READY, TS_RUNNING}" using False st by (simp add: th_set_th)
    ultimately have "sched_inv (rq_enqueue t ?s1)" using inv_enqueue assms(2) by simp
    then show ?thesis
      using False by (auto simp: sched_wake_def Let_def kick_idle_cpu_def cpu_same_def intro!: inv_cpu split: option.split)
  qed (use assms(1) in \<open>auto simp: sched_wake_def\<close>)
  have "sc_waiters (rq_enqueue t s) = sc_waiters s" for t s by (simp add: rq_enqueue_def Let_def)
  then show "length (sc_threads (sched_wake c now t s)) = length (sc_threads s)"
    "sc_waiters (sched_wake c now t s) = sc_waiters s"
    by (simp_all add: sched_wake_def Let_def kick_idle_cpu_def split: option.split)
qed

lemma sys_tasks [simp]: "sys_ok (s\<lparr>sc_tasks := k\<rparr>) = sys_ok s" "sched_inv (s\<lparr>sc_tasks := k\<rparr>) = sched_inv s"
  by (simp_all add: sched_inv_def sys_ok_def queue_ok_def cpu_ok_def)

text \<open>A state already set by the caller is what \<open>schedule\<close> sets again.\<close>

lemma schedule_set_twice:
  assumes "cs_current (cpu s c) = Some t" "cs_idle (cpu s c) \<noteq> Some t" "ps \<noteq> TS_RUNNING" "sc_ready s"
  shows "schedule c now ps (set_th t (\<lambda>x. x\<lparr>th_state := ps\<rparr>) s) = schedule c now ps s"
proof -
  let ?g = "\<lambda>x. x\<lparr>th_state := ps\<rparr>"
  have g: "set_th t ?g (set_th t ?g s) = set_th t ?g s" by (cases "t < length (sc_threads s)") (simp_all add: set_th_def list_update_beyond)
  have "schedule_pick c ps (set_th t ?g s) = schedule_pick c ps s"
  proof -
    have n: "(Some t \<noteq> None \<and> Some t \<noteq> cs_idle (cpu s c)) \<and> ps \<noteq> TS_RUNNING" using assms(2,3) by simp
    show ?thesis
      unfolding schedule_pick_def Let_def set_th_simps assms(1) option.sel if_P [OF n] g ..
  qed
  then show ?thesis using assms(4) by (simp add: schedule_def)
qed

lemma th_commutes:
  "set_gstats f (set_th t g s) = set_th t g (set_gstats f s)"
  "(set_th t g s)\<lparr>sc_tasks := k\<rparr> = set_th t g (s\<lparr>sc_tasks := k\<rparr>)"
  "sc_tasks (set_th t g s) = sc_tasks s" "sc_tasks (set_gstats f s) = sc_tasks s"
  by (simp_all add: set_th_def set_gstats_def)

lemma inv_exit:
  assumes "sched_inv s" "sc_ready s" "c < length (sc_cpus s)" "cs_current (cpu s c) = Some t" "cs_idle (cpu s c) \<noteq> Some t"
  shows "sched_inv (thread_exit c now code s)"
proof -
  let ?e = "\<lambda>x. x\<lparr>th_exit_code := code\<rparr>" and ?z = "\<lambda>x. x\<lparr>th_state := TS_ZOMBIE\<rparr>"
  let ?live = "\<lambda>g. if gs_threads_live g \<noteq> 0 then g\<lparr>gs_threads_live := gs_threads_live g - 1\<rparr> else g"
  let ?s0 = "set_th t ?e s"
  define tk where "tk = (\<lambda>k. (sc_tasks s)[k := (let x = sc_tasks s ! k in
                      if tk_nthreads x \<noteq> 0 then x\<lparr>tk_nthreads := tk_nthreads x - 1\<rparr> else x)])"
  define s1 where "s1 = (set_gstats ?live ?s0)\<lparr>sc_tasks := tk (th_task (th s t))\<rparr>"
  have z: "set_th t (\<lambda>x. x\<lparr>th_exit_code := code, th_state := TS_ZOMBIE\<rparr>) s = set_th t ?z ?s0"
    by (cases "t < length (sc_threads s)") (simp_all add: set_th_def list_update_beyond)
  have k: "th_task (th (set_th t ?z (set_gstats ?live ?s0)) t) = th_task (th s t)"
    by (simp add: th_set_th)
  have "thread_exit c now code s = schedule c now TS_ZOMBIE (set_th t ?z s1)"
    unfolding thread_exit_def assms(4) option.case Let_def
    unfolding z
    unfolding th_commutes(1,3,4)
    unfolding k [unfolded th_commutes(1)] th_commutes(2)
    by (simp only: s1_def tk_def th_commutes Let_def)
  also have "\<dots> = schedule c now TS_ZOMBIE s1"
    by (rule schedule_set_twice) (use assms in \<open>simp_all add: s1_def sched_inv_def\<close>)
  finally have e: "thread_exit c now code s = schedule c now TS_ZOMBIE s1" .
  have "sched_inv ?s0" by (rule inv_same [OF assms(1)]) (simp add: same_place_def)
  then have "sched_inv s1" by (simp add: s1_def)
  then show ?thesis unfolding e by (rule inv_schedule) (use assms(3,4) in \<open>simp_all add: s1_def\<close>)
qed

lemma inv_create:
  assumes "sched_inv s"
  shows "sched_inv (snd (thread_create_in have_mem k name cls prio s))"
proof (cases have_mem)
  case True
  let ?x = "blank_thread\<lparr>th_tid := sc_next_tid s, th_task := k, th_class := cls, th_priority := default_prio prio,
                  th_base_priority := default_prio prio, th_weight := 1024, th_affinity := -1, th_name := take 31 name\<rparr>"
  let ?s = "s\<lparr>sc_threads := sc_threads s @ [?x]\<rparr>"
  have "sys_ok ?s" by (rule sys_append(1)) (use assms in \<open>simp_all add: sched_inv_def blank_thread_def\<close>)
  then have "sched_inv ?s" using assms by (simp add: sched_inv_def) (meson less_SucI)
  have "sched_inv (?s\<lparr>sc_next_tid := n, sc_all := sc_all s @ [length (sc_threads s)]\<rparr>)" (is "sched_inv ?u") for n
  proof -
    have v: "th ?u t = th ?s t" "cpu ?u c = cpu ?s c" for t c by (simp_all add: th_def cpu_def)
    have "queue_ok {} ?s" "cpu_ok ?s" using \<open>sched_inv ?s\<close> by (simp_all add: sched_inv_def sys_ok_def)
    then have "queue_ok {} ?u" "cpu_ok ?u"
      by (auto intro: queue_other) (rule cpu_ok_keep [of ?s]; simp add: v cpu_same_def)
    then show ?thesis using \<open>sched_inv ?s\<close> by (auto simp: sched_inv_def sys_ok_def)
  qed
  then show ?thesis using True by (simp add: thread_create_in_def Let_def)
qed (use assms in \<open>simp add: thread_create_in_def\<close>)

lemma inv_start: "sched_inv s \<Longrightarrow> t < length (sc_threads s) \<Longrightarrow> sched_inv (thread_start t s)"
  by (simp add: thread_start_def inv_enqueue)

lemma inv_destroy:
  assumes "sched_inv s" "t < length (sc_threads s)" "th_state (th s t) \<notin> {TS_READY, TS_RUNNING}"
  shows "sched_inv (thread_destroy t s)"
proof -
  let ?s = "s\<lparr>sc_all := remove1 t (sc_all s)\<rparr>"
  have v: "th ?s u = th s u" "cpu ?s d = cpu s d" for u d by (simp_all add: th_def cpu_def)
  have o: "queue_ok {} s" "cpu_ok s" "\<forall>t \<in> set (sc_all s). t < length (sc_threads s)"
    using assms(1) by (auto simp: sched_inv_def sys_ok_def)
  have "queue_ok {} ?s" using o(1) by (rule queue_other) simp_all
  moreover have "cpu_ok ?s" by (rule cpu_ok_keep [OF o(2)]) (simp_all add: v cpu_same_def)
  ultimately have "sys_ok ?s" using o(3) set_remove1_subset [of t "sc_all s"] by (auto simp: sys_ok_def)
  then have "sys_ok (set_th t (\<lambda>x. x\<lparr>th_state := TS_DEAD\<rparr>) ?s)"
    by (rule sys_park) (use assms(2,3) in \<open>simp_all add: th_def\<close>)
  then show ?thesis using assms by (simp add: thread_destroy_def sched_inv_def)
qed

lemma inv_set_class:
  assumes "sched_inv s" "t < length (sc_threads s)"
  shows "sched_inv (sched_set_class t k prio s)"
proof -
  let ?f = "\<lambda>x. x\<lparr>th_class := k, th_priority := default_prio prio, th_base_priority := default_prio prio\<rparr>"
  have q: "queue_ok {} s" and c: "cpu_ok s" and sy: "sys_ok s" using assms(1) by (auto simp: sched_inv_def sys_ok_def)
  show ?thesis
  proof (cases "th_state (th s t) = TS_READY")
    case True
    let ?s1 = "set_th t ?f (rq_dequeue t s)"
    let ?s2 = "rq_enqueue t ?s1"
    have "queue_ok {t} ?s1" using queue_exempt [OF queue_dequeue [OF q assms(2) True]] by simp
    from queue_enqueue [OF this, of t] have q2: "queue_ok {} ?s2" using assms(2) by simp
    have "cpu_ok ?s2"
      by (rule cpu_ok_keep [OF c]) (use True in \<open>auto simp: cpu_same_def th_enqueue th_set_th\<close>)
    then have "sys_ok ?s2" using q2 sy by (simp add: sys_ok_def)
    moreover have "sc_waiters ?s2 = sc_waiters s" by (simp add: rq_enqueue_def rq_dequeue_def Let_def)
    ultimately show ?thesis using True assms(1) by (simp add: sched_set_class_def sched_inv_def)
  next
    case False
    have "sys_ok (set_th t ?f s)"
      by (rule sys_cong [OF sy]) (use False in \<open>simp_all add: th_set_th cpu_same_def\<close>)
    then show ?thesis using False assms(1) by (simp add: sched_set_class_def sched_inv_def)
  qed
qed

lemma inv_policy:
  assumes "sched_inv s"
  shows "sched_inv (snd (sched_set_deadline ncpu now t p b s))" "sched_inv (snd (sched_set_affinity t m s))"
proof -
  show "sched_inv (snd (sched_set_deadline ncpu now t p b s))"
    using assms by (simp add: sched_set_deadline_def Let_def case_prod_unfold)
      (auto intro!: inv_same simp: same_place_def)
  show "sched_inv (snd (sched_set_affinity t m s))"
    using assms by (auto intro!: inv_same simp: same_place_def sched_set_affinity_def)
qed

lemma inv_waiters:
  assumes "sched_inv s" "\<And>t. t \<in> set xs \<Longrightarrow> t < length (sc_threads s)"
  shows "sched_inv (s\<lparr>sc_waiters := (sc_waiters s)(w := xs)\<rparr>)"
  using assms by (simp add: sched_inv_def)

lemma inv_enter:
  assumes "sched_inv s" "c < length (sc_cpus s)"
  shows "sched_inv (waitq_enter c w s)"
proof (cases "cs_current (cpu s c)")
  case (Some t)
  have "t < length (sc_threads s)" using assms Some by (auto simp: sched_inv_def sys_ok_def cpu_ok_def)
  then have "sched_inv (s\<lparr>sc_waiters := (sc_waiters s)(w := sc_waiters s w @ [t])\<rparr>)"
    by (intro inv_waiters [OF assms(1)]) (use assms(1) in \<open>auto simp: sched_inv_def\<close>)
  then show ?thesis using Some by (simp add: waitq_enter_def)
qed (use assms in \<open>simp add: waitq_enter_def\<close>)

lemma inv_leave: "sched_inv s \<Longrightarrow> sched_inv (snd (waitq_leave w t s))"
  unfolding waitq_leave_def snd_conv
  by (rule inv_waiters) (use set_remove1_subset [of t "sc_waiters s w"] in \<open>auto simp: sched_inv_def\<close>)

lemma inv_sleep:
  assumes "sched_inv s" "c < length (sc_cpus s)" "cs_current (cpu s c) \<noteq> None"
  shows "sched_inv (sched_sleep_ns c now ns s)" "sched_inv (waitq_sleep c now w ns s)"
proof -
  obtain t where t: "cs_current (cpu s c) = Some t" using assms(3) by blast
  let ?f = "\<lambda>x. x\<lparr>th_sleep_until := now + ns, th_nvcsw := th_nvcsw x + 1\<rparr>"
  have "sched_inv (set_th t ?f s)" by (rule inv_same [OF assms(1)]) (simp add: same_place_def)
  from inv_schedule [OF this, of c TS_SLEEPING now] show "sched_inv (sched_sleep_ns c now ns s)"
    using assms t by (simp add: sched_sleep_ns_def)
  have e: "cpu (waitq_enter c w s) d = cpu s d" "sc_cpus (waitq_enter c w s) = sc_cpus s" for d
    by (simp_all add: waitq_enter_def split: option.split)
  have "sched_inv (set_th t (\<lambda>x. x\<lparr>th_sleep_until := now + ns\<rparr>) (waitq_enter c w s))"
    by (rule inv_same [OF inv_enter [OF assms(1,2)]]) (simp add: same_place_def)
  from inv_schedule [OF this, of c TS_SLEEPING now] show "sched_inv (waitq_sleep c now w ns s)"
    using assms t by (simp add: waitq_sleep_def e)
qed

lemma inv_wake_one:
  assumes "sched_inv s"
  shows "sched_inv (waitq_wake_one c now w s)"
proof (cases "sc_waiters s w")
  case (Cons t ts)
  have "\<forall>u \<in> set (sc_waiters s w). u < length (sc_threads s)" using assms unfolding sched_inv_def by blast
  then have l: "\<forall>u \<in> set (t # ts). u < length (sc_threads s)" using Cons by simp
  have "sched_inv (s\<lparr>sc_waiters := (sc_waiters s)(w := ts)\<rparr>)" by (rule inv_waiters [OF assms]) (use l in simp)
  moreover have "t < length (sc_threads s)" using l by simp
  ultimately show ?thesis using Cons inv_wake(1) by (simp add: waitq_wake_one_def)
qed (use assms in \<open>simp add: waitq_wake_one_def\<close>)

end
