(* ===== verification/RK_SchedStep.thy ===== *)
theory RK_SchedStep
  imports RK_SchedRun
begin

text \<open>
  The scheduler as a transition system: the operations any CPU may perform on it from
  \<open>sched_init\<close> on, in any interleaving, and the invariant of the reachable states.
\<close>

section \<open>Operations\<close>

datatype sched_op =
    Op_yield | Op_tick | Op_block | Op_sleep u64 | Op_join nat
  | Op_wait nat | Op_wait_sleep nat u64 | Op_unwait nat nat | Op_wake_one nat | Op_wake_all nat
  | Op_wake nat | Op_exit int | Op_create bool nat string sched_class nat | Op_start nat | Op_destroy nat
  | Op_set_class nat sched_class nat | Op_set_deadline nat nat u64 u64 | Op_set_affinity nat u64
  | Op_task_create bool string "nat option" | Op_task_exit nat int
  | Op_preempt_off | Op_preempt_on | Op_idle_in | Op_idle_out u64 | Op_ipi

fun do_op :: "nat \<Rightarrow> u64 \<Rightarrow> sched_op \<Rightarrow> sched \<Rightarrow> sched" where
  "do_op c now Op_yield s = sched_yield c now s"
| "do_op c now Op_tick s = sched_tick c now s"
| "do_op c now Op_block s = sched_block c now s"
| "do_op c now (Op_sleep ns) s = sched_sleep_ns c now ns s"
| "do_op c now (Op_join t) s = snd (thread_join c now t s)"
| "do_op c now (Op_wait w) s = waitq_enter c w s"
| "do_op c now (Op_wait_sleep w ns) s = waitq_sleep c now w ns s"
| "do_op c now (Op_unwait w t) s = snd (waitq_leave w t s)"
| "do_op c now (Op_wake_one w) s = waitq_wake_one c now w s"
| "do_op c now (Op_wake_all w) s = waitq_wake_all c now w s"
| "do_op c now (Op_wake t) s = sched_wake c now t s"
| "do_op c now (Op_exit code) s = thread_exit c now code s"
| "do_op c now (Op_create have_mem k name cls prio) s = snd (thread_create_in have_mem k name cls prio s)"
| "do_op c now (Op_start t) s = thread_start t s"
| "do_op c now (Op_destroy t) s = thread_destroy t s"
| "do_op c now (Op_set_class t k prio) s = sched_set_class t k prio s"
| "do_op c now (Op_set_deadline ncpu t period budget) s = snd (sched_set_deadline ncpu now t period budget s)"
| "do_op c now (Op_set_affinity t m) s = snd (sched_set_affinity t m s)"
| "do_op c now (Op_task_create have_mem name parent) s = snd (task_create have_mem now name parent s)"
| "do_op c now (Op_task_exit k code) s = task_exit k code s"
| "do_op c now Op_preempt_off s = sched_preempt_disable c s"
| "do_op c now Op_preempt_on s = sched_preempt_enable c now s"
| "do_op c now Op_idle_in s = idle_enter c s"
| "do_op c now (Op_idle_out t0) s = idle_leave c t0 now s"
| "do_op c now Op_ipi s = ipi_resched c s"

text \<open>
  When a caller may use an operation: the thread exists, the CPU runs one where the operation
  gives it up, an idle thread never exits (and before \<open>sched_start\<close> only idle threads run), and
  a thread is destroyed neither on a queue nor on a CPU.
\<close>

fun op_thread :: "sched_op \<Rightarrow> nat option" where
  "op_thread (Op_wake t) = Some t"
| "op_thread (Op_start t) = Some t"
| "op_thread (Op_destroy t) = Some t"
| "op_thread (Op_set_class t k prio) = Some t"
| "op_thread op = None"

fun gives_up :: "sched_op \<Rightarrow> bool" where
  "gives_up Op_yield = True"
| "gives_up Op_block = True"
| "gives_up (Op_sleep ns) = True"
| "gives_up (Op_join t) = True"
| "gives_up (Op_wait_sleep w ns) = True"
| "gives_up (Op_exit code) = True"
| "gives_up Op_preempt_on = True"
| "gives_up (Op_idle_out t0) = True"
| "gives_up op = False"

definition allowed :: "nat \<Rightarrow> sched_op \<Rightarrow> sched \<Rightarrow> bool" where
  "allowed c op s \<longleftrightarrow>
     c < length (sc_cpus s) \<and> (gives_up op \<longrightarrow> cs_current (cpu s c) \<noteq> None) \<and>
     (case op_thread op of None \<Rightarrow> True | Some t \<Rightarrow> t < length (sc_threads s)) \<and>
     (case op of
        Op_exit code \<Rightarrow> sc_ready s \<and> cs_current (cpu s c) \<noteq> cs_idle (cpu s c)
      | Op_destroy t \<Rightarrow> th_state (th s t) \<notin> {TS_READY, TS_RUNNING}
      | _ \<Rightarrow> True)"

inductive sched_reach :: "nat \<Rightarrow> sched \<Rightarrow> bool" for ncpu :: nat where
  reach_init: "sched_reach ncpu (sched_init ncpu)"
| reach_start: "sched_reach ncpu s \<Longrightarrow> 0 < length (sc_cpus s) \<Longrightarrow> cs_idle (cpu s 0) = None \<Longrightarrow> sched_reach ncpu (sched_start s)"
| reach_secondary:
    "sched_reach ncpu s \<Longrightarrow> c < length (sc_cpus s) \<Longrightarrow> cs_idle (cpu s c) = None \<Longrightarrow>
     sched_reach ncpu (sched_start_secondary c s)"
| reach_op: "sched_reach ncpu s \<Longrightarrow> allowed c op s \<Longrightarrow> sched_reach ncpu (do_op c now op s)"

section \<open>The invariant holds in every reachable state\<close>

lemma inv_init: "sched_inv (sched_init n)"
proof -
  have "queue_ok {} (sched_init n)" by (simp add: queue_ok_def sched_init_def)
  moreover have "cpu_ok (sched_init n)" by (simp add: cpu_ok_def sched_init_def cpu_def offline_cpu_def)
  ultimately show ?thesis by (simp add: sched_inv_def sys_ok_def sched_init_def)
qed

lemma inv_adopt:
  assumes "sched_inv s" "c < length (sc_cpus s)" "cs_idle (cpu s c) = None"
  shows "sched_inv (adopt_as_idle c s)"
proof -
  define t where "t = length (sc_threads s)"
  define x where "x = blank_thread\<lparr>th_class := SCHED_BATCH, th_priority := RK_PRIO_LEVELS - 1, th_weight := 1,
                th_state := TS_RUNNING, th_cpu := c, th_affinity := push_bit (c mod 64) 1\<rparr>"
  define u where "u = s\<lparr>sc_threads := sc_threads s @ [x]\<rparr>"
  define s' where "s' = set_cpu c (\<lambda>y. y\<lparr>cs_idle := Some t, cs_current := Some t, cs_stack := Some t, cs_online := True\<rparr>) u"
  have eq: "adopt_as_idle c s = s'" by (simp add: adopt_as_idle_def Let_def s'_def u_def x_def t_def)
  have ok: "sys_ok s" "cpu_ok s" using assms(1) by (simp_all add: sched_inv_def sys_ok_def)
  have u: "sys_ok u" "th u t = x"
    using sys_append [OF ok(1), of x] by (simp_all add: u_def t_def x_def blank_thread_def)
  have uc: "sc_cpus u = sc_cpus s" "cpu u d = cpu s d" "length (sc_threads u) = Suc t" for d
    by (simp_all add: u_def cpu_def t_def)
  have old: "v < t \<and> th_state (th u v) = TS_RUNNING"
    if "d < length (sc_cpus s)" "cs_current (cpu s d) = Some v \<or> cs_idle (cpu s d) = Some v" for d v
  proof -
    have "v < t \<and> th_state (th s v) = TS_RUNNING" using ok(2) that unfolding cpu_ok_def t_def by blast
    then show ?thesis by (simp add: u_def th_def t_def nth_append)
  qed
  have sc: "cpu s' d = (if d = c then (cpu s c)\<lparr>cs_idle := Some t, cs_current := Some t, cs_stack := Some t, cs_online := True\<rparr>
      else cpu s d)" for d
    using assms(2) uc by (simp add: s'_def cpu_set_cpu)
  have x: "th_state (th u t) = TS_RUNNING" by (simp add: u(2) x_def)
  have "cpu_ok s'"
    unfolding cpu_ok_def
  proof (intro conjI allI impI)
    fix d
    assume "d < length (sc_cpus s')"
    then have d: "d < length (sc_cpus s)" by (simp add: s'_def uc)
    show "(cs_current (cpu s' d) = None) = (cs_idle (cpu s' d) = None)" "cs_prev_pending (cpu s' d) = None"
      "cs_stack (cpu s' d) = cs_current (cpu s' d)"
      using ok(2) d by (auto simp: sc cpu_ok_def)
    fix v
    assume "cs_current (cpu s' d) = Some v \<or> cs_idle (cpu s' d) = Some v"
    then have "v = t \<and> d = c \<or> v < t \<and> th_state (th u v) = TS_RUNNING" using old [OF d, of v] by (auto simp: sc split: if_splits)
    then show "v < length (sc_threads s')" "th_state (th s' v) = TS_RUNNING"
      using x uc by (auto simp: s'_def)
  next
    fix d e v
    assume "d < length (sc_cpus s')" "e < length (sc_cpus s')" and ne: "d \<noteq> e"
      and v: "cs_current (cpu s' d) = Some v \<or> cs_idle (cpu s' d) = Some v"
    then have d: "d < length (sc_cpus s)" "e < length (sc_cpus s)" by (simp_all add: s'_def uc)
    have "cs_current (cpu s' e) \<noteq> Some v \<and> cs_idle (cpu s' e) \<noteq> Some v"
    proof (cases "d = c \<or> e = c")
      case True
      then show ?thesis using v ne old [OF d(1), of v] old [OF d(2), of v] by (auto simp: sc)
    next
      case False
      then have "cs_current (cpu s d) = Some v \<or> cs_idle (cpu s d) = Some v" using v by (simp add: sc)
      then have "cs_current (cpu s e) \<noteq> Some v \<and> cs_idle (cpu s e) \<noteq> Some v"
        using ne d ok(2) unfolding cpu_ok_def by blast
      then show ?thesis using False by (simp add: sc)
    qed
    then show "cs_current (cpu s' e) \<noteq> Some v" "cs_idle (cpu s' e) \<noteq> Some v" by simp_all
  qed
  moreover have "queue_ok {} s'"
    by (rule queue_other [of _ u]) (use u(1) in \<open>simp_all add: sys_ok_def s'_def\<close>)
  ultimately have "sys_ok s'" using u(1) by (simp add: sys_ok_def s'_def)
  moreover have "sc_waiters s' = sc_waiters s" "length (sc_threads s) \<le> length (sc_threads s')"
    by (simp_all add: s'_def u_def)
  ultimately have "sched_inv s'" using assms(1) unfolding sched_inv_def by (metis less_le_trans)
  then show ?thesis by (simp add: eq)
qed

lemma inv_ready [simp]: "sched_inv (s\<lparr>sc_ready := b\<rparr>) = sched_inv s"
proof -
  have "th (s\<lparr>sc_ready := b\<rparr>) t = th s t" "cpu (s\<lparr>sc_ready := b\<rparr>) c = cpu s c" for t c by (simp_all add: th_def cpu_def)
  then show ?thesis by (simp add: sched_inv_def sys_ok_def queue_ok_def cpu_ok_def)
qed

lemma fold_keeps: "P s \<Longrightarrow> (\<And>x s. x \<in> set xs \<Longrightarrow> P s \<Longrightarrow> P (f x s)) \<Longrightarrow> P (fold f xs s)"
  by (induction xs arbitrary: s) simp_all

lemma inv_wake_all:
  assumes "sched_inv s"
  shows "sched_inv (waitq_wake_all c now w s)"
proof -
  let ?step = "\<lambda>t s. sched_wake c now t (s\<lparr>sc_waiters := (sc_waiters s)(w := remove1 t (sc_waiters s w))\<rparr>)"
  have one: "sched_inv (?step t s) \<and> length (sc_threads (?step t s)) = length (sc_threads s)"
    if "sched_inv s" "t < length (sc_threads s)" for t s
  proof -
    have "sched_inv (s\<lparr>sc_waiters := (sc_waiters s)(w := remove1 t (sc_waiters s w))\<rparr>)"
      by (rule inv_waiters) (use that set_remove1_subset [of t "sc_waiters s w"] in \<open>auto simp: sched_inv_def\<close>)
    then show ?thesis using inv_wake(1,2) that(2) by simp
  qed
  have "sched_inv (fold ?step ts s) \<and> length (sc_threads (fold ?step ts s)) = length (sc_threads s)"
    if "\<forall>t \<in> set ts. t < length (sc_threads s)" for ts
    by (rule fold_keeps) (use one that assms in auto)
  moreover have "\<forall>t \<in> set (sc_waiters s w). t < length (sc_threads s)" using assms unfolding sched_inv_def by blast
  ultimately show ?thesis unfolding waitq_wake_all_def by blast
qed

lemma inv_preempt:
  assumes "sched_inv s" "c < length (sc_cpus s)" "cs_current (cpu s c) \<noteq> None"
  shows "sched_inv (sched_preempt_enable c now s)" "sched_inv (idle_leave c t0 now s)"
proof -
  have i: "sched_inv (set_cpu c f s) \<and> cs_current (cpu (set_cpu c f s) c) \<noteq> None"
    if "\<And>x. cpu_same x (f x)" for f
    using inv_cpu [OF assms(1) that] that assms(2,3) by (simp add: cpu_set_cpu cpu_same_def)
  have y: "sched_inv (sched_yield c now (set_cpu c f s))" if "\<And>x. cpu_same x (f x)" for f
    using inv_yield(1) i [OF that] assms(2) by simp
  show "sched_inv (idle_leave c t0 now s)" unfolding idle_leave_def by (rule y) (simp add: cpu_same_def)
  let ?f = "\<lambda>x. x\<lparr>cs_preempt_disable := cs_preempt_disable x - 1\<rparr>"
  have "cpu_same x (?f x)" for x by (simp add: cpu_same_def)
  then show "sched_inv (sched_preempt_enable c now s)"
    using y [of ?f] i [of ?f] inv_yield(1) [OF assms] assms(1) by (simp add: sched_preempt_enable_def Let_def)
qed

lemma inv_task_exit:
  assumes "sched_inv s"
  shows "sched_inv (task_exit k code s)"
proof -
  let ?step = "\<lambda>t s. if th_task (th s t) = k then set_th t (\<lambda>x. x\<lparr>th_should_stop := True\<rparr>) s else s"
  have "sched_inv (fold ?step ts s)" if "sched_inv s" for ts s
    using that by (rule fold_keeps) (auto simp: same_place_def intro!: inv_same)
  then show ?thesis using assms by (simp add: task_exit_def)
qed

lemma inv_task_create: "sched_inv s \<Longrightarrow> sched_inv (snd (task_create have_mem now name parent s))"
proof -
  assume a: "sched_inv s"
  have "sys_ok (s\<lparr>sc_next_pid := p\<rparr>)" for p
    by (rule sys_cong [of s]) (use a in \<open>simp_all add: sched_inv_def th_def cpu_def cpu_same_def\<close>)
  then have "sched_inv (s\<lparr>sc_next_pid := p\<rparr>)" for p using a by (simp add: sched_inv_def)
  then show ?thesis by (simp add: task_create_def Let_def)
qed

lemma inv_op:
  assumes i: "sched_inv s" and a: "allowed c op s"
  shows "sched_inv (do_op c now op s)"
proof -
  have c: "c < length (sc_cpus s)" using a by (simp add: allowed_def)
  have k: "cs_current (cpu s c) \<noteq> None" if "gives_up op" using a that by (simp add: allowed_def)
  have t: "t < length (sc_threads s)" if "op_thread op = Some t" for t using a that by (simp add: allowed_def)
  show ?thesis
  proof (cases op)
    case (Op_join t)
    have "cs_current (cpu s c) \<noteq> None" using k Op_join by simp
    then show ?thesis using Op_join i inv_sleep(1) [OF i c] by (simp add: thread_join_def sched_sleep_ms_def)
  next
    case (Op_exit code)
    then obtain u where "cs_current (cpu s c) = Some u" "cs_idle (cpu s c) \<noteq> Some u" "sc_ready s"
      using a k by (auto simp: allowed_def)
    then show ?thesis using inv_exit [OF i _ c] Op_exit by simp
  next
    case (Op_destroy u)
    then show ?thesis using inv_destroy [OF i, of u] a by (simp add: allowed_def)
  qed (use i c k t in \<open>simp_all add: inv_yield inv_tick inv_sleep inv_enter inv_leave inv_wake_one inv_wake_all inv_wake
      inv_create inv_start inv_set_class inv_policy inv_task_create inv_task_exit inv_preempt inv_cpu cpu_same_def
      sched_preempt_disable_def idle_enter_def ipi_resched_def\<close>)
qed

lemma reach_inv: "sched_reach n s \<Longrightarrow> sched_inv s"
  by (induction rule: sched_reach.induct)
    (simp_all add: inv_init inv_adopt inv_op sched_start_def sched_start_secondary_def)

end
