(* ===== verification/RK_SchedProps.thy ===== *)
theory RK_SchedProps
  imports RK_SchedStep
begin

text \<open>
  The properties of \<open>kernel/sched/sched.c\<close>: where a thread may be, which thread runs next, the
  admission of deadlines, and what happens to a thread that blocks while it is being woken.
\<close>

section \<open>Where a thread may be\<close>

text \<open>All the ready lists one after another.\<close>

definition queued :: "sched \<Rightarrow> nat list" where
  "queued s = concat (map (\<lambda>k. concat (map (rq_ready (sc_rq s) k) [0..<RK_PRIO_LEVELS]))
     [SCHED_REALTIME, SCHED_INFERENCE, SCHED_INTERACTIVE, SCHED_BATCH])"

lemma count_concat: "count_list (concat xss) x = sum_list (map (\<lambda>xs. count_list xs x) xss)"
  by (induction xss) simp_all

lemma count_distinct: "distinct xs \<Longrightarrow> count_list xs x = (if x \<in> set xs then 1 else 0)"
  by (induction xs) auto

lemma sum_list_one_place: "sum_list (map (\<lambda>p. if p = q \<and> P then 1 else 0) [0..<n]) = (if q < n \<and> P then 1 else (0 :: nat))"
  by (induction n) auto

lemma queue_count:
  assumes "queue_ok {} s"
  shows "count_list (queued s) t = (if t < length (sc_threads s) \<and> th_state (th s t) = TS_READY then 1 else 0)"
proof -
  have "count_list (rq_ready (sc_rq s) k p) t =
      (if p = queue_level (th s t) \<and> (t < length (sc_threads s) \<and> th_state (th s t) = TS_READY \<and> th_class (th s t) = k)
       then 1 else 0)" for k p
    using assms by (subst count_distinct) (auto simp: queue_ok_def)
  then have "count_list (concat (map (rq_ready (sc_rq s) k) [0..<RK_PRIO_LEVELS])) t =
      (if t < length (sc_threads s) \<and> th_state (th s t) = TS_READY \<and> th_class (th s t) = k then 1 else 0)" for k
    by (simp only: count_concat map_map o_def sum_list_one_place queue_level_bound simp_thms)
  then show ?thesis by (cases "th_class (th s t)") (simp_all add: queued_def)
qed

fun run_ops :: "(nat \<times> u64 \<times> sched_op) list \<Rightarrow> sched \<Rightarrow> sched" where
  "run_ops [] s = s"
| "run_ops ((c, now, op) # ops) s = run_ops ops (do_op c now op s)"

fun all_allowed :: "(nat \<times> u64 \<times> sched_op) list \<Rightarrow> sched \<Rightarrow> bool" where
  "all_allowed [] s = True"
| "all_allowed ((c, now, op) # ops) s = (allowed c op s \<and> all_allowed ops (do_op c now op s))"

lemma reach_run: "sched_reach n s \<Longrightarrow> all_allowed ops s \<Longrightarrow> sched_reach n (run_ops ops s)"
  by (induction ops s rule: run_ops.induct) (simp_all add: reach_op)

text \<open>Evaluation of concrete runs.\<close>

lemma list_update_numeral [simp]: "(x # xs)[numeral n := y] = x # xs[pred_numeral n := y]"
  by (simp add: numeral_eq_Suc)

lemma replicate_numeral [simp]: "replicate (numeral n) x = x # replicate (pred_numeral n) x"
  by (simp add: numeral_eq_Suc)

lemma upt_2 [simp]: "[0..<2] = [0, 1]" "[0..<Suc (Suc 0)] = [0, 1]"
  by (simp_all add: upt_rec)

lemma band_bits: "band s k = concat (map (\<lambda>p. if bit (rq_bitmap (sc_rq s) k) p then rq_ready (sc_rq s) k p else []) [0..<RK_PRIO_LEVELS])"
proof -
  have "map (\<lambda>p. if bit (rq_bitmap (sc_rq s) k) p then rq_ready (sc_rq s) k p else []) [0..<RK_PRIO_LEVELS] =
    map (\<lambda>p. if rq_bitmap (sc_rq s) k AND push_bit p 1 \<noteq> 0 then rq_ready (sc_rq s) k p else []) [0..<RK_PRIO_LEVELS]"
  proof (rule map_cong [OF refl])
    fix p assume "p \<in> set [0..<RK_PRIO_LEVELS]"
    then have "p < 64" by simp
    then show "(if bit (rq_bitmap (sc_rq s) k) p then rq_ready (sc_rq s) k p else []) =
      (if rq_bitmap (sc_rq s) k AND push_bit p 1 \<noteq> 0 then rq_ready (sc_rq s) k p else [])"
      by (simp only: and_push_bit_iff)
  qed
  then show ?thesis unfolding band_def by (simp only:)
qed

lemma levels: "[0..<RK_PRIO_LEVELS] = [0,1,2,3,4,5,6,7,8,9,10,11,12,13,14,15,16,17,18,19,20,21,22,23,24,25,26,27,28,29,30,31]"
  by (simp add: upt_rec)

lemmas state_simps = th_def set_th_def cpu_def set_cpu_def set_gstats_def Let_def rq_enqueue_def rq_dequeue_def queue_level_def

lemmas boot_simps = sched_start_def sched_start_secondary_def sched_init_def adopt_as_idle_def offline_cpu_def blank_thread_def

lemmas op_simps = thread_create_in_def default_prio_def thread_start_def sched_yield_def sched_block_def count_nvcsw_def
  waitq_enter_def waitq_wake_one_def sched_wake_def wake_boost_def kick_idle_cpu_def
  RK_NS_PER_MS_def SLICE_MAX_NS_def SLICE_BASE_NS_def

lemmas pick_simps = pick_next_def pick_deadline_def pick_fair_def pick_priority_def band_bits levels smaller_first_def runnable_here_def within_budget_def

lemmas switch_simps = schedule_def schedule_pick_def context_switch_def charge_prev_def charge_def start_next_def sched_finish_switch_def slice_for_def

lemmas run_simps = boot_simps state_simps op_simps pick_simps switch_simps allowed_def

text \<open>A system of two CPUs.\<close>

definition two_cpus :: sched where
  "two_cpus = sched_start (sched_start_secondary 1 (sched_init 2))"

lemma two_cpus_reach: "sched_reach 2 two_cpus"
proof -
  have "sched_reach 2 (sched_start_secondary 1 (sched_init 2))"
    by (rule reach_secondary [OF reach_init]) (simp_all add: run_simps)
  then show ?thesis unfolding two_cpus_def by (rule reach_start) (simp_all add: run_simps)
qed


definition demo_ops :: "(nat \<times> u64 \<times> sched_op) list" where
  "demo_ops =
     [(0, 0, Op_create True 0 ''a'' SCHED_INTERACTIVE 8), (0, 0, Op_create True 0 ''b'' SCHED_BATCH 16),
      (0, 1, Op_start 2), (0, 1, Op_start 3), (1, 2, Op_yield), (0, 3, Op_yield), (1, 4, Op_wait 0), (1, 5, Op_block),
      (0, 6, Op_wake_one 0), (1, 7, Op_yield)]"


section \<open>Which thread runs next\<close>

lemma th_keep: "(\<And>x. g (f x) = g x) \<Longrightarrow> g (th (set_th t f s) u) = g (th s u)"
  by (simp add: th_set_th)

lemma pick_next_keep:
  assumes "\<And>x. th_deadline (f x) = th_deadline x \<and> th_vruntime (f x) = th_vruntime x \<and>
      th_affinity (f x) = th_affinity x \<and> th_budget (f x) = th_budget x \<and> th_budget_left (f x) = th_budget_left x"
  shows "pick_next c (set_th t f s) = pick_next c s"
proof -
  have v: "th_deadline (th (set_th t f s) u) = th_deadline (th s u)" "th_vruntime (th (set_th t f s) u) = th_vruntime (th s u)"
    "th_affinity (th (set_th t f s) u) = th_affinity (th s u)" "th_budget (th (set_th t f s) u) = th_budget (th s u)"
    "th_budget_left (th (set_th t f s) u) = th_budget_left (th s u)" for u
    using assms by (simp_all add: th_set_th)
  have "runnable_here c (set_th t f s) = runnable_here c s" "band (set_th t f s) k = band s k"
    "within_budget (th (set_th t f s) u) = within_budget (th s u)" for k u
    by (simp_all add: fun_eq_iff runnable_here_def within_budget_def band_def v cong: if_cong)
  then show ?thesis
    unfolding pick_next_def pick_deadline_def pick_priority_def pick_fair_def v by presburger
qed

lemma finish_current [simp]: "cs_current (cpu (sched_finish_switch c s) d) = cs_current (cpu s d)"
  by (simp add: sched_finish_switch_def cpu_set_cpu split: option.split)

lemma schedule_current:
  assumes "sc_ready s" "c < length (sc_cpus s)" "cs_current (cpu s c) = Some prev" "cs_idle (cpu s c) = Some i"
  shows "cs_current (cpu (schedule c now ps s) c) = Some (case pick_next c s of None \<Rightarrow> i | Some t \<Rightarrow> t)"
proof -
  obtain nx s1 where p: "schedule_pick c ps s = (nx, s1)" by (cases "schedule_pick c ps s")
  have n: "nx = (case pick_next c s of None \<Rightarrow> i | Some t \<Rightarrow> t)"
    using arg_cong [OF p, of fst] assms(3,4) pick_next_keep [of "\<lambda>x. x\<lparr>th_state := ps\<rparr>" c prev s]
    by (simp add: schedule_pick_def Let_def split: option.splits if_splits)
  have l: "length (sc_cpus s1) = length (sc_cpus s)" "cs_current (cpu s1 c) = Some prev"
    using arg_cong [OF p, of snd] assms(2,3) by (auto simp: schedule_pick_def Let_def cpu_set_cpu split: option.splits)
  show ?thesis
  proof (cases "nx = prev")
    case True
    then show ?thesis using p n l assms(1,3) by (simp add: schedule_def)
  next
    case False
    then show ?thesis
      using p n l assms by (simp add: schedule_def context_switch_def start_next_simps cpu_set_cpu)
  qed
qed

text \<open>The five ways a thread is picked, and what the pickers return among the threads \<open>R\<close> that may run.\<close>

lemma pick_next_cases [consumes 1, case_names realtime inference interactive batch overrun]:
  assumes "pick_next c s = Some t"
    and "pick_deadline c SCHED_REALTIME s = Some t \<Longrightarrow> P"
    and "pick_deadline c SCHED_REALTIME s = None \<Longrightarrow> pick_deadline c SCHED_INFERENCE s = Some t \<Longrightarrow>
      within_budget (th s t) \<Longrightarrow> P"
    and "pick_deadline c SCHED_REALTIME s = None \<Longrightarrow>
      (\<And>v. pick_deadline c SCHED_INFERENCE s = Some v \<Longrightarrow> \<not> within_budget (th s v)) \<Longrightarrow>
      pick_priority c SCHED_INTERACTIVE s = Some t \<Longrightarrow> P"
    and "pick_deadline c SCHED_REALTIME s = None \<Longrightarrow>
      (\<And>v. pick_deadline c SCHED_INFERENCE s = Some v \<Longrightarrow> \<not> within_budget (th s v)) \<Longrightarrow>
      pick_priority c SCHED_INTERACTIVE s = None \<Longrightarrow> pick_fair c s = Some t \<Longrightarrow> P"
    and "pick_deadline c SCHED_REALTIME s = None \<Longrightarrow> pick_deadline c SCHED_INFERENCE s = Some t \<Longrightarrow>
      pick_priority c SCHED_INTERACTIVE s = None \<Longrightarrow> pick_fair c s = None \<Longrightarrow> P"
  shows P
  using assms by (fastforce simp: pick_next_def split: option.splits if_splits)

lemma pick_facts:
  assumes q: "queue_ok {} s"
    and R: "R = {t. t < length (sc_threads s) \<and> th_state (th s t) = TS_READY \<and> runnable_here c s t}"
  shows "case pick_deadline c k s of None \<Rightarrow> \<forall>u \<in> R. th_class (th s u) \<noteq> k
    | Some t \<Rightarrow> t \<in> R \<and> th_class (th s t) = k \<and> (\<forall>u \<in> R. th_class (th s u) = k \<longrightarrow> th_deadline (th s t) \<le> th_deadline (th s u))"
    "case pick_priority c k s of None \<Rightarrow> \<forall>u \<in> R. th_class (th s u) \<noteq> k | Some t \<Rightarrow> t \<in> R \<and> th_class (th s t) = k"
    "case pick_fair c s of None \<Rightarrow> \<forall>u \<in> R. th_class (th s u) \<noteq> SCHED_BATCH
    | Some t \<Rightarrow> t \<in> R \<and> th_class (th s t) = SCHED_BATCH \<and>
        (\<forall>u \<in> R. th_class (th s u) = SCHED_BATCH \<longrightarrow> th_vruntime (th s t) \<le> th_vruntime (th s u))"
proof -
  have B: "u \<in> set (band s k) \<and> runnable_here c s u \<longleftrightarrow> u \<in> R \<and> th_class (th s u) = k" for u k
    using band_set [OF q, of k] by (auto simp: R)
  show "case pick_deadline c k s of None \<Rightarrow> \<forall>u \<in> R. th_class (th s u) \<noteq> k
    | Some t \<Rightarrow> t \<in> R \<and> th_class (th s t) = k \<and> (\<forall>u \<in> R. th_class (th s u) = k \<longrightarrow> th_deadline (th s t) \<le> th_deadline (th s u))"
    using pick_deadline_least [where c = c and k = k and s = s] B by (simp split: option.splits) blast+
  show "case pick_priority c k s of None \<Rightarrow> \<forall>u \<in> R. th_class (th s u) \<noteq> k | Some t \<Rightarrow> t \<in> R \<and> th_class (th s t) = k"
    using pick_priority_first [where c = c and k = k and s = s] B by (simp split: option.splits) blast+
  show "case pick_fair c s of None \<Rightarrow> \<forall>u \<in> R. th_class (th s u) \<noteq> SCHED_BATCH
    | Some t \<Rightarrow> t \<in> R \<and> th_class (th s t) = SCHED_BATCH \<and>
        (\<forall>u \<in> R. th_class (th s u) = SCHED_BATCH \<longrightarrow> th_vruntime (th s t) \<le> th_vruntime (th s u))"
    using pick_fair_least [where c = c and s = s] B by (simp split: option.splits) blast+
qed

lemma class_exhaust: "th_class x \<noteq> SCHED_REALTIME \<Longrightarrow> th_class x \<noteq> SCHED_INTERACTIVE \<Longrightarrow> th_class x \<noteq> SCHED_BATCH \<Longrightarrow>
    th_class x = SCHED_INFERENCE"
  by (cases "th_class x") simp_all

text \<open>
  C25. In every reachable state a scheduling decision on a CPU takes a ready thread that may run
  there whenever there is one, and idles only when there is none. A ready realtime thread is
  never passed over, and the one with the earliest deadline runs; an inference thread runs by
  earliest deadline and, out of budget, only when nothing else is ready; a batch thread runs only
  when no interactive one is ready, and the one with the least virtual runtime; an inference
  thread is passed over for those two classes only if one with no later deadline is out of budget.
\<close>
theorem schedule_runs_best:
  assumes "sched_reach ncpu s" "sc_ready s" "c < length (sc_cpus s)"
    and "cs_current (cpu s c) = Some prev" "cs_idle (cpu s c) = Some i"
    and R: "R = {t. t < length (sc_threads s) \<and> th_state (th s t) = TS_READY \<and> runnable_here c s t}"
    and t: "cs_current (cpu (schedule c now ps s) c) = Some t"
  shows "(R = {} \<longrightarrow> t = i) \<and>
    (R \<noteq> {} \<longrightarrow> t \<in> R \<and>
      (\<forall>u \<in> R. th_class (th s u) = SCHED_REALTIME \<longrightarrow>
         th_class (th s t) = SCHED_REALTIME \<and> th_deadline (th s t) \<le> th_deadline (th s u)) \<and>
      (th_class (th s t) = SCHED_INFERENCE \<longrightarrow>
         (\<forall>u \<in> R. th_class (th s u) = SCHED_INFERENCE \<longrightarrow> th_deadline (th s t) \<le> th_deadline (th s u)) \<and>
         (within_budget (th s t) \<or> (\<forall>u \<in> R. th_class (th s u) = SCHED_INFERENCE))) \<and>
      (th_class (th s t) = SCHED_BATCH \<longrightarrow>
         (\<forall>u \<in> R. th_class (th s u) \<noteq> SCHED_INTERACTIVE \<and>
            (th_class (th s u) = SCHED_BATCH \<longrightarrow> th_vruntime (th s t) \<le> th_vruntime (th s u)))) \<and>
      (th_class (th s t) \<in> {SCHED_INTERACTIVE, SCHED_BATCH} \<longrightarrow>
         (\<forall>u \<in> R. th_class (th s u) = SCHED_INFERENCE \<longrightarrow>
            (\<exists>v \<in> R. th_class (th s v) = SCHED_INFERENCE \<and> th_deadline (th s v) \<le> th_deadline (th s u) \<and>
               \<not> within_budget (th s v)))))"
proof -
  have q: "queue_ok {} s" using reach_inv [OF assms(1)] by (simp add: sched_inv_def sys_ok_def)
  note P = pick_facts(1) [OF q R, of SCHED_REALTIME] pick_facts(1) [OF q R, of SCHED_INFERENCE]
    pick_facts(2) [OF q R, of SCHED_INTERACTIVE] pick_facts(3) [OF q R]
  have n: "t = (case pick_next c s of None \<Rightarrow> i | Some t \<Rightarrow> t)"
    using schedule_current [OF assms(2-5), of now ps] t by simp
  show ?thesis
  proof (cases "pick_next c s")
    case None
    then have "\<forall>u \<in> R. False"
      using ready_threads_eq [OF q] pick_next_none [of c s] by (auto simp: R)
    then show ?thesis using n None by simp
  next
    case (Some u)
    then have u: "t = u" using n by simp
    have bad: "\<exists>v \<in> R. th_class (th s v) = SCHED_INFERENCE \<and> th_deadline (th s v) \<le> th_deadline (th s w) \<and> \<not> within_budget (th s v)"
      if "w \<in> R" "th_class (th s w) = SCHED_INFERENCE" "\<And>v. pick_deadline c SCHED_INFERENCE s = Some v \<Longrightarrow> \<not> within_budget (th s v)" for w
      using P(2) that by (auto split: option.splits)
    from Some show ?thesis
    proof (cases rule: pick_next_cases)
      case realtime
      then show ?thesis using P(1) unfolding u by auto
    next
      case inference
      then show ?thesis using P(1,2) unfolding u by auto
    next
      case interactive
      then show ?thesis using P(1,3) bad unfolding u by auto
    next
      case batch
      then show ?thesis using P(1,3,4) bad unfolding u by auto
    next
      case overrun
      then have "\<forall>u \<in> R. th_class (th s u) = SCHED_INFERENCE" using P(1,3,4) class_exhaust by auto
      then show ?thesis using overrun P(2) unfolding u by auto
    qed
  qed
qed

definition demo_ready :: sched where
  "demo_ready = run_ops
     [(0, 0, Op_create True 0 ''a'' SCHED_BATCH 16), (0, 0, Op_create True 0 ''b'' SCHED_INTERACTIVE 8),
      (0, 0, Op_create True 0 ''c'' SCHED_REALTIME 4), (0, 1, Op_start 2), (0, 1, Op_start 3), (0, 1, Op_start 4)] two_cpus"

lemma demo_ready_reach: "sched_reach 2 demo_ready"
  unfolding demo_ready_def by (rule reach_run [OF two_cpus_reach]) (simp add: two_cpus_def run_simps)

lemma schedule_runs_best_witness:
  "cs_current (cpu (schedule 1 5 TS_RUNNING demo_ready) 1) = Some 4 \<and> th_class (th demo_ready 4) = SCHED_REALTIME"
proof -
  let ?R = "{t. t < length (sc_threads demo_ready) \<and> th_state (th demo_ready t) = TS_READY \<and> runnable_here 1 demo_ready t}"
  have r: "sc_ready demo_ready" "1 < length (sc_cpus demo_ready)" "cs_current (cpu demo_ready 1) = Some 0"
    "cs_idle (cpu demo_ready 1) = Some 0" "cs_current (cpu (schedule 1 5 TS_RUNNING demo_ready) 1) = Some 4"
    "4 \<in> ?R" "th_class (th demo_ready 4) = SCHED_REALTIME"
    by (simp_all add: demo_ready_def two_cpus_def run_simps)
  from schedule_runs_best [OF demo_ready_reach r(1-4) refl r(5)] r(5-7) show ?thesis by blast
qed

section \<open>Blocking and waking\<close>

lemma has_idle: "cpu_ok s \<Longrightarrow> c < length (sc_cpus s) \<Longrightarrow> cs_current (cpu s c) = Some t \<Longrightarrow> \<exists>j. cs_idle (cpu s c) = Some j"
  unfolding cpu_ok_def by fastforce

lemma schedule_far: "d \<noteq> c \<Longrightarrow> cpu (schedule c now ps s) d = cpu s d"
proof -
  assume d: "d \<noteq> c"
  have "cpu (snd (schedule_pick c ps s)) d = cpu s d"
    using d by (auto simp: schedule_pick_def Let_def cpu_set_cpu split: option.splits)
  then show ?thesis
    using d by (auto simp: schedule_def Let_def case_prod_unfold context_switch_def sched_finish_switch_def start_next_simps cpu_set_cpu
      split: option.splits)
qed

lemma schedule_stack:
  assumes "sc_ready s" "c < length (sc_cpus s)" "cs_current (cpu s c) = Some prev" "cs_idle (cpu s c) = Some i"
    and "pick_next c s = Some t" "t \<noteq> prev"
  shows "cs_stack (cpu (schedule c now ps s) c) = Some t"
proof -
  obtain nx s1 where p: "schedule_pick c ps s = (nx, s1)" by (cases "schedule_pick c ps s")
  have n: "nx = t"
    using arg_cong [OF p, of fst] assms(3,4,5) pick_next_keep [of "\<lambda>x. x\<lparr>th_state := ps\<rparr>" c prev s]
    by (simp add: schedule_pick_def Let_def split: option.splits if_splits)
  have l: "length (sc_cpus s1) = length (sc_cpus s)"
    using arg_cong [OF p, of snd] assms(2,3) by (auto simp: schedule_pick_def Let_def split: option.splits)
  have f: "cs_stack (cpu (sched_finish_switch c s) c) = cs_stack (cpu s c)" for s
    by (simp add: sched_finish_switch_def cpu_set_cpu split: option.split)
  show ?thesis using p n l assms by (simp add: schedule_def context_switch_def f start_next_simps cpu_set_cpu)
qed

lemma schedule_parks:
  assumes i: "sched_inv s" and r: "sc_ready s" and c: "c < length (sc_cpus s)" and cur: "cs_current (cpu s c) = Some t"
    and nid: "cs_idle (cpu s c) \<noteq> Some t" and ps: "ps \<notin> {TS_READY, TS_RUNNING}"
  shows "th_state (th (snd (schedule_pick c ps s)) t) = ps" "th_state (th (schedule c now ps s) t) = ps"
proof -
  have ok: "sys_ok s" "cpu_ok s" using i by (auto simp: sched_inv_def sys_ok_def)
  obtain j where j: "cs_idle (cpu s c) = Some j" using ok(2) c cur by (auto simp: cpu_ok_def)
  have t: "t < length (sc_threads s)" "th_state (th s t) = TS_RUNNING" using ok(2) c cur unfolding cpu_ok_def by blast+
  obtain nx s1 where p: "schedule_pick c ps s = (nx, s1)" by (cases "schedule_pick c ps s")
  have P: "prepared c t nx s s1" "nx = j \<or> th_state (th s nx) = TS_READY"
    using pick_prepares [OF ok(1) c cur j _ p] ps by auto
  have nx: "nx \<noteq> t" using P(2) t(2) j nid by auto
  show s1: "th_state (th (snd (schedule_pick c ps s)) t) = ps"
    using t(1) cur nid ps by (auto simp: schedule_pick_def Let_def th_set_th split: option.split)
  have pend: "cs_prev_pending (cpu s1 c) = None" "length (sc_cpus s1) = length (sc_cpus s)"
    using P(1) s1 p j nid ps unfolding prepared_def by auto
  have ch: "th_state (th (charge_prev now t s1) t) = ps"
    using charge_prev_place [of s1 t now t] s1 p by (simp add: same_place_def)
  show "th_state (th (schedule c now ps s) t) = ps"
    using r cur p nx pend ch c
    by (simp add: schedule_def context_switch_def sched_finish_switch_def cpu_set_cpu start_next_simps)
qed

lemma nvcsw_simps [simp]:
  "cs_current (cpu (count_nvcsw c s) d) = cs_current (cpu s d)" "cs_idle (cpu (count_nvcsw c s) d) = cs_idle (cpu s d)"
  "sc_ready (count_nvcsw c s) = sc_ready s" "sc_waiters (count_nvcsw c s) = sc_waiters s"
  by (simp_all add: count_nvcsw_def split: option.split)

text \<open>
  A wakeup that arrives between the wait queue's list and the switch is lost: once a thread
  has put itself on a wait queue, but before \<open>sched_block\<close>, another CPU's \<open>waitq_wake_one\<close> takes it
  off the queue and does not wake it, because it is still running. It then blocks, is on no ready
  list, and no later wakeup through the wait queue reaches it.
\<close>
theorem wait_misses_wakeup:
  assumes r: "sched_reach ncpu s" and c: "sc_ready s" "c < length (sc_cpus s)" "d < length (sc_cpus s)"
    and cur: "cs_current (cpu s c) = Some t" "cs_idle (cpu s c) \<noteq> Some t" and w: "sc_waiters s w = []"
    and s': "s' = sched_block c now (waitq_wake_one d n1 w (waitq_enter c w s))"
  shows "th_state (th s' t) = TS_BLOCKED \<and> t \<notin> set (queued s') \<and>
    waitq_wake_one e n2 w s' = s' \<and> waitq_wake_all e n2 w s' = s'"
proof -
  have i: "sched_inv s" by (rule reach_inv [OF r])
  then have t: "th_state (th s t) = TS_RUNNING" using c cur unfolding sched_inv_def sys_ok_def cpu_ok_def by blast
  have e1: "waitq_enter c w s = s\<lparr>sc_waiters := (sc_waiters s)(w := [t])\<rparr>" using cur w by (simp add: waitq_enter_def)
  have v: "th (s\<lparr>sc_waiters := x\<rparr>) u = th s u" "cpu (s\<lparr>sc_waiters := x\<rparr>) b = cpu s b" for x u b
    by (simp_all add: th_def cpu_def)
  have e2: "waitq_wake_one d n1 w (waitq_enter c w s) = s"
    using t w by (simp add: e1 waitq_wake_one_def sched_wake_def v) (simp add: fun_upd_idem)
  have s2: "s' = schedule c now TS_BLOCKED (count_nvcsw c s)" using s' by (simp add: e2 sched_block_def)
  note n = inv_nvcsw(1) [OF i, of c] inv_nvcsw(2,3) [of c s]
  have b: "th_state (th s' t) = TS_BLOCKED"
    unfolding s2 by (rule schedule_parks(2) [OF n(1)]) (use c cur n in simp_all)
  have "scheduled c (count_nvcsw c s) s'"
    unfolding s2 by (rule schedule_scheduled) (use n c cur in \<open>simp_all add: sched_inv_def\<close>)
  then have w': "sc_waiters s' w = []" "queue_ok {} s'" using w by (simp_all add: scheduled_def sys_ok_def)
  have "t \<notin> set (queued s')" using queue_count [OF w'(2), of t] b by (simp add: count_list_0_iff)
  then show ?thesis using b w'(1) by (simp add: waitq_wake_one_def waitq_wake_all_def)
qed

definition demo_running :: sched where
  "demo_running = run_ops
     [(0, 0, Op_create True 0 ''a'' SCHED_INTERACTIVE 8), (0, 1, Op_start 2), (0, 2, Op_yield)] two_cpus"

lemma demo_running_reach: "sched_reach 2 demo_running"
  unfolding demo_running_def by (rule reach_run [OF two_cpus_reach]) (simp add: two_cpus_def run_simps)

lemma demo_running_facts:
  "sc_ready demo_running" "length (sc_cpus demo_running) = 2" "cs_current (cpu demo_running 0) = Some 2"
  "cs_idle (cpu demo_running 0) = Some 1" "cs_current (cpu demo_running 1) = Some 0" "cs_idle (cpu demo_running 1) = Some 0"
  "sc_waiters demo_running w = []"
  by (simp_all add: demo_running_def two_cpus_def run_simps)

lemma wait_misses_wakeup_witness:
  "th_state (th (sched_block 0 9 (waitq_wake_one 1 8 7 (waitq_enter 0 7 demo_running))) 2) = TS_BLOCKED"
  using wait_misses_wakeup [OF demo_running_reach, of 0 1 2 7 _ 9 8, OF _ _ _ _ _ _ refl] by (simp add: demo_running_facts)

text \<open>
  C26. A thread that blocks may be run by a second CPU while the first still uses its stack: the
  queue's lock is dropped before the stacks are switched, the blocked thread is then no longer
  marked running, and \<open>prev_pending\<close> holds back only threads that were still runnable. If another
  CPU wakes it in between and picks it, both execute on one stack.
\<close>
theorem block_wake_shares_stack:
  assumes r: "sched_reach ncpu s" and c: "sc_ready s" "c < length (sc_cpus s)" "d < length (sc_cpus s)" "c \<noteq> d"
    and cur: "cs_current (cpu s c) = Some t" "cs_idle (cpu s c) \<noteq> Some t" "cs_current (cpu s d) = Some p"
    and pick: "schedule_pick c TS_BLOCKED s = (nx, s1)" and s2: "s2 = sched_wake d n1 t s1"
    and best: "pick_next d s2 = Some t" and s3: "s3 = schedule d n2 TS_RUNNING s2"
  shows "cs_stack (cpu s3 c) = Some t \<and> cs_stack (cpu s3 d) = Some t \<and> nx \<noteq> t"
proof -
  have i: "sched_inv s" and k: "cpu_ok s" using reach_inv [OF r] by (simp_all add: sched_inv_def sys_ok_def)
  have "cs_stack (cpu s c) = cs_current (cpu s c)" "th_state (th s t) = TS_RUNNING"
    using k c(2) cur(1) unfolding cpu_ok_def by blast+
  moreover have "cs_current (cpu s d) \<noteq> Some t" using k c(2-4) cur(1) unfolding cpu_ok_def by blast
  ultimately have t: "th_state (th s t) = TS_RUNNING" "cs_stack (cpu s c) = Some t" "p \<noteq> t" using cur(1,3) by auto
  obtain j l where j: "cs_idle (cpu s c) = Some j" "cs_idle (cpu s d) = Some l"
    using has_idle [OF k c(2) cur(1)] has_idle [OF k c(3) cur(3)] by blast
  have ok: "sys_ok s" using i by (simp add: sched_inv_def)
  have P: "prepared c t nx s s1 \<and> (nx = j \<or> nx < length (sc_threads s) \<and> th_state (th s nx) = TS_READY)"
    by (rule pick_prepares [OF ok c(2) cur(1) j(1) _ pick]) simp
  have nx: "nx \<noteq> t" using P t j cur(2) by auto
  have b: "th_state (th s1 t) = TS_BLOCKED"
    using schedule_parks(1) [OF i c(1,2) cur(1,2), of TS_BLOCKED] pick by simp
  have w: "sc_ready s2 = sc_ready s1" "length (sc_cpus s2) = length (sc_cpus s1)" "cs_current (cpu s2 e) = cs_current (cpu s1 e)"
    "cs_idle (cpu s2 e) = cs_idle (cpu s1 e)" "cs_stack (cpu s2 e) = cs_stack (cpu s1 e)" for e
    using b by (auto simp: s2 sched_wake_def Let_def kick_idle_cpu_def cpu_set_cpu split: option.splits)
  have "cs_stack (cpu s3 d) = Some t"
    unfolding s3
    by (rule schedule_stack [where prev = p and i = l]) (use w P c cur j best t in \<open>auto simp: prepared_def\<close>)
  moreover have "cs_stack (cpu s3 c) = Some t"
    using schedule_far [OF c(4), of n2 TS_RUNNING s2] w(5) [of c] P t(2) by (simp add: s3 prepared_def)
  ultimately show ?thesis using nx by simp
qed

lemma block_wake_shares_stack_witness:
  "cs_stack (cpu (schedule 1 9 TS_RUNNING (sched_wake 1 8 2 (snd (schedule_pick 0 TS_BLOCKED demo_running)))) 0) = Some 2 \<and>
   cs_stack (cpu (schedule 1 9 TS_RUNNING (sched_wake 1 8 2 (snd (schedule_pick 0 TS_BLOCKED demo_running)))) 1) = Some 2"
proof -
  have p: "pick_next 1 (sched_wake 1 8 2 (snd (schedule_pick 0 TS_BLOCKED demo_running))) = Some 2"
    by (simp add: demo_running_def two_cpus_def run_simps)
  have e: "schedule_pick 0 TS_BLOCKED demo_running =
      (fst (schedule_pick 0 TS_BLOCKED demo_running), snd (schedule_pick 0 TS_BLOCKED demo_running))" by simp
  have "cs_current (cpu demo_running 1) = Some 0" by (rule demo_running_facts)
  from block_wake_shares_stack [OF demo_running_reach _ _ _ _ _ _ this e refl p refl, of 9] show ?thesis
    by (simp add: demo_running_facts)
qed

end
