(* ===== verification/RK_SchedAdmit.thy ===== *)
theory RK_SchedAdmit
  imports RK_SchedProps Complex_Main
begin

text \<open>
  The admission test of \<open>sched_set_deadline\<close>: what it decides when its 64-bit fractions do not
  wrap, and what happens when they do.
\<close>

section \<open>The sum of the admitted threads as a fraction\<close>

definition counts :: "sched \<Rightarrow> nat \<Rightarrow> nat \<Rightarrow> bool" where
  "counts s t u \<longleftrightarrow> u \<noteq> t \<and> th_period (th s u) \<noteq> 0 \<and> th_class (th s u) \<in> {SCHED_REALTIME, SCHED_INFERENCE}"

definition others :: "sched \<Rightarrow> nat \<Rightarrow> nat list" where
  "others s t = filter (counts s t) (sc_all s)"

abbreviation period :: "sched \<Rightarrow> nat \<Rightarrow> nat" where "period s u \<equiv> unat (th_period (th s u))"
abbreviation budget :: "sched \<Rightarrow> nat \<Rightarrow> nat" where "budget s u \<equiv> unat (th_budget (th s u))"

definition frac_add :: "sched \<Rightarrow> nat \<Rightarrow> nat \<times> nat \<Rightarrow> nat \<times> nat" where
  "frac_add s u nd = (fst nd * period s u + budget s u * snd nd, snd nd * period s u)"

definition frac_word :: "nat \<times> nat \<Rightarrow> u64 \<times> u64" where
  "frac_word nd = (of_nat (fst nd), of_nat (snd nd))"

lemma frac_add_snd: "snd (frac_add s u nd) = snd nd * period s u"
  by (simp add: frac_add_def)

lemma add_load_frac: "add_load s t u (frac_word nd) = frac_word (if counts s t u then frac_add s u nd else nd)"
  by (auto simp: add_load_def frac_word_def frac_add_def counts_def Let_def)

lemma fold_load: "fold (add_load s t) us (frac_word nd) = frac_word (fold (frac_add s) (filter (counts s t) us) nd)"
  by (induction us arbitrary: nd) (simp_all add: add_load_frac)

lemma frac_sum:
  fixes n d b p :: nat
  assumes "d \<noteq> 0" "p \<noteq> 0"
  shows "real (n * p + b * d) / real (d * p) = real n / real d + real b / real p"
  using assms by (simp add: field_simps)

lemma frac_le:
  fixes n d m :: nat
  assumes "d \<noteq> 0"
  shows "10 * n \<le> 8 * m * d \<longleftrightarrow> real n / real d \<le> 8 / 10 * real m"
proof -
  have "10 * n \<le> 8 * m * d \<longleftrightarrow> real (10 * n) \<le> real (8 * m * d)" by (rule of_nat_le_iff [symmetric])
  then show ?thesis using assms by (simp add: field_simps)
qed

lemma frac_value:
  assumes "\<forall>u \<in> set us. period s u \<noteq> 0 \<and> budget s u \<le> period s u" "snd nd \<noteq> 0"
  shows "snd (fold (frac_add s) us nd) = snd nd * prod_list (map (period s) us) \<and>
    snd (fold (frac_add s) us nd) \<noteq> 0 \<and>
    real (fst (fold (frac_add s) us nd)) / real (snd (fold (frac_add s) us nd)) =
      real (fst nd) / real (snd nd) + (\<Sum>u\<leftarrow>us. real (budget s u) / real (period s u)) \<and>
    (\<forall>k. fst nd \<le> k * snd nd \<longrightarrow> fst (fold (frac_add s) us nd) \<le> (k + length us) * snd (fold (frac_add s) us nd))"
  using assms
proof (induction us arbitrary: nd)
  case (Cons u us)
  let ?nd = "frac_add s u nd"
  have u: "period s u \<noteq> 0" "budget s u \<le> period s u" "snd ?nd \<noteq> 0" "\<forall>u \<in> set us. period s u \<noteq> 0 \<and> budget s u \<le> period s u"
    using Cons.prems by (simp_all add: frac_add_def)
  have v: "real (fst ?nd) / real (snd ?nd) = real (fst nd) / real (snd nd) + real (budget s u) / real (period s u)"
    unfolding frac_add_def fst_conv snd_conv by (rule frac_sum [OF Cons.prems(2) u(1)])
  have b: "fst ?nd \<le> Suc k * snd ?nd" if "fst nd \<le> k * snd nd" for k
  proof -
    have "fst nd * period s u + budget s u * snd nd \<le> k * snd nd * period s u + period s u * snd nd"
      by (intro add_mono mult_le_mono that u(2) order_refl)
    then show ?thesis by (simp add: frac_add_def algebra_simps)
  qed
  obtain N D where nd: "fold (frac_add s) us ?nd = (N, D)" by fastforce
  note I = Cons.IH [OF u(4) u(3), unfolded nd fst_conv snd_conv]
  have "N \<le> (k + length (u # us)) * D" if "fst nd \<le> k * snd nd" for k
    using I b [OF that] by (metis add_Suc_shift length_Cons)
  moreover have "D = snd nd * prod_list (map (period s) (u # us))"
    using conjunct1 [OF I] by (simp add: mult.assoc frac_add_snd)
  moreover have "D \<noteq> 0" using I by blast
  moreover have "real N / real D = real (fst nd) / real (snd nd) + (\<Sum>u\<leftarrow>u # us. real (budget s u) / real (period s u))"
    using conjunct1 [OF conjunct2 [OF conjunct2 [OF I]]] unfolding v by (simp only: list.map sum_list.Cons add.assoc)
  ultimately show ?case unfolding fold_simps(2) nd fst_conv snd_conv by blast
qed simp

text \<open>
  C23. As long as the products of the periods stay within 64 bits, the admission test is exact: a
  thread is admitted if and only if the utilisation of the admitted deadline threads and its own
  together do not exceed four fifths of the processors.
\<close>
theorem admission_exact:
  fixes budget' period' :: u64
  assumes "period' \<noteq> 0" "budget' \<le> period'"
    and "\<forall>u \<in> set (others s t). budget s u \<le> period s u"
    and P: "P = prod_list (map (period s) (others s t)) * unat period'"
    and "10 * (length (others s t) + 1) * P < 2 ^ 64" "8 * ncpu * P < 2 ^ 64"
  shows "fst (sched_set_deadline ncpu now t period' budget' s) = Inr () \<longleftrightarrow>
    (\<Sum>u\<leftarrow>others s t. real (budget s u) / real (period s u)) + real (unat budget') / real (unat period')
      \<le> 8 / 10 * real ncpu"
proof -
  let ?o = "others s t" and ?p = "unat period'" and ?b = "unat budget'"
  obtain n d where nd: "fold (frac_add s) ?o (0, 1) = (n, d)" by fastforce
  have o: "\<forall>u \<in> set ?o. period s u \<noteq> 0 \<and> budget s u \<le> period s u"
    using assms(3) by (auto simp: others_def counts_def unat_eq_0)
  have f: "d = prod_list (map (period s) ?o)" "d \<noteq> 0" "n \<le> length ?o * d"
    "real n / real d = (\<Sum>u\<leftarrow>?o. real (budget s u) / real (period s u))"
    using frac_value [OF o, of "(0, 1)"] nd by (auto dest: spec [of _ 0])
  have w: "fold (add_load s t) (sc_all s) (0, 1) = (of_nat n, of_nat d)"
    using fold_load [of s t "sc_all s" "(0, 1)"] nd by (simp add: frac_word_def others_def)
  have p: "?p \<noteq> 0" "?b \<le> ?p" using assms(1,2) by (simp_all add: unat_eq_0 word_le_nat_alt)
  let ?N = "n * ?p + ?b * d" and ?D = "d * ?p"
  have D: "?D = P" using f(1) P by simp
  have N: "?N \<le> (length ?o + 1) * ?D"
  proof -
    have "n * ?p + ?b * d \<le> length ?o * d * ?p + ?p * d" by (intro add_mono mult_le_mono f(3) p(2) order_refl)
    then show ?thesis by (simp add: algebra_simps)
  qed
  have W: "of_nat n * period' + budget' * of_nat d = (of_nat ?N :: u64)" "of_nat d * period' = (of_nat ?D :: u64)"
    by simp_all
  have "10 * ?N \<le> 10 * (length ?o + 1) * P" using mult_le_mono2 [OF N, of 10] unfolding D by (simp only: mult.assoc)
  then have s1: "10 * ?N < 2 ^ 64" using assms(5) by (rule le_less_trans)
  have D0: "?D \<noteq> 0" using f(2) p(1) by simp
  have "1 * P \<le> 10 * (length ?o + 1) * P" by (intro mult_le_mono1) simp
  then have s2: "8 * ncpu * ?D < 2 ^ 64" "?D < 2 ^ 64" using assms(5,6) unfolding D by linarith+
  have z: "(of_nat ?D :: u64) \<noteq> 0" using D0 s2(2) by (simp only: word_of_nat_eq_0_iff) (auto dest: nat_dvd_not_less)
  have c: "(8 * of_nat ncpu * of_nat ?D :: u64) = of_nat (8 * ncpu * ?D)" "(of_nat ?N * 10 :: u64) = of_nat (10 * ?N)"
    by simp_all
  have un: "unat (of_nat x :: u64) = x" if "x < 2 ^ 64" for x using that by (simp add: unat_of_nat)
  have lt: "(8 * of_nat ncpu * of_nat ?D < (of_nat ?N * 10 :: u64)) \<longleftrightarrow> 8 * ncpu * ?D < 10 * ?N"
    unfolding c word_less_nat_alt un [OF s1] un [OF s2(1)] ..
  have "fst (sched_set_deadline ncpu now t period' budget' s) = Inr () \<longleftrightarrow> 10 * ?N \<le> 8 * ncpu * ?D"
    using assms(1,2) z lt unfolding sched_set_deadline_def Let_def w prod.case W by (simp add: not_less)
  also have "\<dots> \<longleftrightarrow> real ?N / real ?D \<le> 8 / 10 * real ncpu"
    using D0 by (rule frac_le)
  also have "real ?N / real ?D = real n / real d + real ?b / real ?p"
    by (rule frac_sum) (use f(2) p(1) in simp_all)
  finally show ?thesis using f(4) by simp
qed

section \<open>Three inference threads with a period of 20 ms\<close>

text \<open>One CPU; two threads of 4 ms in 20 ms each have been admitted, the third asks.\<close>

definition demo_load :: sched where
  "demo_load = run_ops
     [(0, 0, Op_create True 0 ''a'' SCHED_INFERENCE 4), (0, 0, Op_create True 0 ''b'' SCHED_INFERENCE 4),
      (0, 0, Op_create True 0 ''c'' SCHED_INFERENCE 4),
      (0, 1, Op_set_deadline 1 1 20000000 4000000), (0, 1, Op_set_deadline 1 2 20000000 4000000)]
     (sched_start (sched_init 1))"

lemmas load_simps = demo_load_def run_simps sched_set_deadline_def add_load_def

lemma demo_load_others:
  "others demo_load 2 = [1]" "others demo_load 3 = [1, 2]" "th_period (th demo_load (Suc 0)) = 20000000"
  "th_budget (th demo_load (Suc 0)) = 4000000" "th_period (th demo_load 2) = 20000000" "th_budget (th demo_load 2) = 4000000"
  by (simp_all add: load_simps others_def counts_def)

lemma admission_exact_witness:
  "fst (sched_set_deadline 1 5 2 20000000 12000000 demo_load) = Inr () \<and>
   fst (sched_set_deadline 1 5 2 20000000 12000001 demo_load) \<noteq> Inr ()"
  using admission_exact [of 20000000 12000000 demo_load 2 _ 1 5, OF _ _ _ refl]
    admission_exact [of 20000000 12000001 demo_load 2 _ 1 5, OF _ _ _ refl]
  by (simp add: demo_load_others)

text \<open>
  C37. With three inference threads of a 20 ms period the test's products exceed 64 bits and its
  answers are wrong both ways: 7 ms, three quarters of the processor in all, are refused, and
  9 ms, above the limit of four fifths, are admitted.
\<close>
theorem admission_wraps:
  "sched_reach 1 demo_load \<and>
   (\<Sum>u\<leftarrow>others demo_load 3. real (budget demo_load u) / real (period demo_load u)) = 2 / 5 \<and>
   fst (sched_set_deadline 1 2 3 20000000 7000000 demo_load) = Inl EBUSY \<and> 2 / 5 + 7 / 20 < 8 / (10 :: real) \<and>
   fst (sched_set_deadline 1 2 3 20000000 9000000 demo_load) = Inr () \<and> 8 / (10 :: real) < 2 / 5 + 9 / 20"
proof -
  have "sched_reach 1 (sched_start (sched_init 1))"
    by (rule reach_start [OF reach_init]) (simp_all add: run_simps)
  then have "sched_reach 1 demo_load" unfolding demo_load_def
    by (rule reach_run) (simp add: run_simps sched_set_deadline_def add_load_def)
  moreover have "fst (sched_set_deadline 1 2 3 20000000 7000000 demo_load) = Inl EBUSY"
    "fst (sched_set_deadline 1 2 3 20000000 9000000 demo_load) = Inr ()"
    by (simp_all add: load_simps)
  ultimately show ?thesis by (simp add: demo_load_others)
qed

end
