(* ===== verification/RK_Paging.thy ===== *)
theory RK_Paging
  imports RK_Pmm
begin

unbundle bit_operations_syntax

text \<open>
  The x86-64 page tables (\<open>arch/x86_64/paging.c\<close>) over the frames of \<open>RK_Pmm\<close>. Physical memory is
  a map from the address of a page frame to its 512 words; the direct map, through which the code
  reaches every frame, is the identity on it. A \<open>pgtable_t\<close> is the physical address of a top-level
  table, and \<open>u64 *\<close> into a table is the pair of its frame and an index. Flushing the TLB, and the
  control registers, are hardware.
\<close>

section \<open>State\<close>

record machine =
  mc_mem :: "u64 \<Rightarrow> nat \<Rightarrow> u64"
  mc_pmm :: pmm
  mc_kernel_pml4 :: u64
  mc_nx :: bool
  mc_gib :: bool

definition RK_PROT_READ :: u32 where "RK_PROT_READ = 1"
definition RK_PROT_WRITE :: u32 where "RK_PROT_WRITE = 2"
definition RK_PROT_EXEC :: u32 where "RK_PROT_EXEC = 4"
definition RK_PROT_USER :: u32 where "RK_PROT_USER = 8"
definition RK_PROT_NOCACHE :: u32 where "RK_PROT_NOCACHE = 16"
definition RK_PROT_WC :: u32 where "RK_PROT_WC = 32"
definition RK_PROT_GLOBAL :: u32 where "RK_PROT_GLOBAL = 64"

definition PTE_PRESENT :: u64 where "PTE_PRESENT = push_bit 0 1"
definition PTE_WRITE :: u64 where "PTE_WRITE = push_bit 1 1"
definition PTE_USER :: u64 where "PTE_USER = push_bit 2 1"
definition PTE_PWT :: u64 where "PTE_PWT = push_bit 3 1"
definition PTE_PCD :: u64 where "PTE_PCD = push_bit 4 1"
definition PTE_HUGE :: u64 where "PTE_HUGE = push_bit 7 1"
definition PTE_GLOBAL :: u64 where "PTE_GLOBAL = push_bit 8 1"
definition PTE_NX :: u64 where "PTE_NX = push_bit 63 1"
definition PTE_ADDR_MASK :: u64 where "PTE_ADDR_MASK = 0x000FFFFFFFFFF000"

definition RECURSIVE_SLOT :: nat where "RECURSIVE_SLOT = 510"

definition set_entry :: "u64 \<Rightarrow> nat \<Rightarrow> u64 \<Rightarrow> machine \<Rightarrow> machine" where
  "set_entry t i e m = m\<lparr>mc_mem := (mc_mem m)(t := (mc_mem m t)(i := e))\<rparr>"

text \<open>\<open>pmm_alloc_page\<close> with the contents it clears; 0 is failure.\<close>

definition page_alloc :: "machine \<Rightarrow> u64 \<times> machine" where
  "page_alloc m =
     (case pmm_alloc_page (mc_pmm m) of (pa, p) \<Rightarrow>
        if pa = 0 then (0, m\<lparr>mc_pmm := p\<rparr>)
        else (of_nat pa, m\<lparr>mc_pmm := p, mc_mem := (mc_mem m)(of_nat pa := \<lambda>_. 0)\<rparr>))"

definition page_free :: "u64 \<Rightarrow> machine \<Rightarrow> machine" where
  "page_free pa m = m\<lparr>mc_pmm := pmm_free_page (unat pa) (mc_pmm m)\<rparr>"

section \<open>Entries\<close>

text \<open>\<open>PT_IDX\<close>, \<open>PD_IDX\<close>, \<open>PDPT_IDX\<close>, \<open>PML4_IDX\<close> are the indices at levels 0 to 3.\<close>

definition pt_index :: "nat \<Rightarrow> u64 \<Rightarrow> nat" where
  "pt_index level va = unat (drop_bit (12 + 9 * level) va AND 0x1FF)"

definition is_aligned :: "u64 \<Rightarrow> nat \<Rightarrow> bool" where
  "is_aligned x n \<longleftrightarrow> x AND (push_bit n 1 - 1) = 0"

definition has :: "'a::len word \<Rightarrow> 'a word \<Rightarrow> bool" where
  "has e flag \<longleftrightarrow> e AND flag \<noteq> 0"

definition prot_to_pte :: "bool \<Rightarrow> u32 \<Rightarrow> u64" where
  "prot_to_pte nx prot =
     (let f = PTE_PRESENT;
          f = (if has prot RK_PROT_WRITE then f OR PTE_WRITE else f);
          f = (if has prot RK_PROT_USER then f OR PTE_USER else f);
          f = (if has prot RK_PROT_NOCACHE then f OR (PTE_PCD OR PTE_PWT) else f);
          f = (if has prot RK_PROT_WC then f OR PTE_PWT else f);
          f = (if has prot RK_PROT_GLOBAL then f OR PTE_GLOBAL else f)
      in if \<not> has prot RK_PROT_EXEC \<and> nx then f OR PTE_NX else f)"

definition pte_to_prot :: "u64 \<Rightarrow> u32" where
  "pte_to_prot e =
     (let p = RK_PROT_READ;
          p = (if has e PTE_WRITE then p OR RK_PROT_WRITE else p);
          p = (if has e PTE_USER then p OR RK_PROT_USER else p);
          p = (if \<not> has e PTE_NX then p OR RK_PROT_EXEC else p)
      in if has e PTE_PCD then p OR RK_PROT_NOCACHE else p)"

definition table_at :: "u64 \<Rightarrow> u64" where
  "table_at e = e AND PTE_ADDR_MASK"

section \<open>Walking\<close>

definition split_child :: "u64 \<Rightarrow> nat \<Rightarrow> nat \<Rightarrow> u64" where
  "split_child e level i =
     (let flags = e AND NOT PTE_ADDR_MASK AND NOT PTE_HUGE;
          step = (if level = 2 then push_bit 21 1 else 4096);
          base = e AND PTE_ADDR_MASK AND NOT (step * 512 - 1);
          flags = (if level = 2 then flags OR PTE_HUGE else flags)
      in (base + of_nat i * step) OR flags)"

definition split_huge :: "u64 \<Rightarrow> nat \<Rightarrow> nat \<Rightarrow> machine \<Rightarrow> bool \<times> machine" where
  "split_huge t i level m =
     (let e = mc_mem m t i in
      if \<not> has e PTE_HUGE then (True, m)
      else case page_alloc m of (pa, m) \<Rightarrow>
        if pa = 0 then (False, m)
        else
          let m = m\<lparr>mc_mem := (mc_mem m)(pa := \<lambda>j. if j < 512 then split_child e level j else mc_mem m pa j)\<rparr>
          in (True, set_entry t i (pa OR PTE_PRESENT OR PTE_WRITE OR PTE_USER) m))"

definition walk :: "u64 \<Rightarrow> nat \<Rightarrow> bool \<Rightarrow> nat \<Rightarrow> machine \<Rightarrow> u64 option \<times> machine" where
  "walk t i create level m =
     (let e = mc_mem m t i in
      if \<not> has e PTE_PRESENT then
        if \<not> create then (None, m)
        else case page_alloc m of (pa, m) \<Rightarrow>
          if pa = 0 then (None, m)
          else
            let m = m\<lparr>mc_mem := (mc_mem m)(pa := \<lambda>_. 0)\<rparr>
            in (Some pa, set_entry t i (pa OR PTE_PRESENT OR PTE_WRITE OR PTE_USER) m)
      else if has e PTE_HUGE then
        if \<not> create then (None, m)
        else case split_huge t i level m of (ok, m) \<Rightarrow>
          if ok then (Some (table_at (mc_mem m t i)), m) else (None, m)
      else (Some (table_at e), m))"

definition map_one :: "u64 \<Rightarrow> u64 \<Rightarrow> u64 \<Rightarrow> u64 \<Rightarrow> nat \<Rightarrow> machine \<Rightarrow> unit result \<times> machine" where
  "map_one pml4 va pa flags level m =
     (case walk pml4 (pt_index 3 va) True 3 m of
        (None, m) \<Rightarrow> (Inl ENOMEM, m)
      | (Some pdpt, m) \<Rightarrow>
          if level = 2 then (Inr (), set_entry pdpt (pt_index 2 va) ((pa AND NOT 0x3FFFFFFF) OR flags OR PTE_HUGE) m)
          else
            (case walk pdpt (pt_index 2 va) True 2 m of
               (None, m) \<Rightarrow> (Inl ENOMEM, m)
             | (Some pd, m) \<Rightarrow>
                 if level = 1 then (Inr (), set_entry pd (pt_index 1 va) ((pa AND NOT 0x1FFFFF) OR flags OR PTE_HUGE) m)
                 else
                   (case walk pd (pt_index 1 va) True 1 m of
                      (None, m) \<Rightarrow> (Inl ENOMEM, m)
                    | (Some pt, m) \<Rightarrow> (Inr (), set_entry pt (pt_index 0 va) ((pa AND PTE_ADDR_MASK) OR flags) m))))"

text \<open>The granule of one round of the loop in \<open>arch_map\<close>: the level of the page it installs.\<close>

definition map_level :: "bool \<Rightarrow> u64 \<Rightarrow> u64 \<Rightarrow> nat \<Rightarrow> nat" where
  "map_level gib va pa left =
     (if gib \<and> 2 ^ 30 \<le> left \<and> is_aligned va 30 \<and> is_aligned pa 30 then 2
      else if 2 ^ 21 \<le> left \<and> is_aligned va 21 \<and> is_aligned pa 21 then 1 else 0)"

text \<open>\<open>left\<close> is \<open>len - done\<close>; a last round may take more than is left.\<close>

function map_rounds :: "u64 \<Rightarrow> u64 \<Rightarrow> u64 \<Rightarrow> nat \<Rightarrow> u64 \<Rightarrow> machine \<Rightarrow> unit result \<times> machine" where
  "map_rounds pml4 va pa left flags m =
     (if left = 0 then (Inr (), m)
      else
        let level = map_level (mc_gib m) va pa left; psize = 2 ^ (12 + 9 * level)
        in case map_one pml4 va pa flags level m of
             (Inl err, m) \<Rightarrow> (Inl err, m)
           | (Inr u, m) \<Rightarrow> map_rounds pml4 (va + of_nat psize) (pa + of_nat psize) (left - psize) flags m)"
  by pat_completeness auto
termination
  by (relation "measure (\<lambda>(pml4, va, pa, left, flags, m). left)") auto

declare map_rounds.simps [simp del]

text \<open>The table a null \<open>pgtable_t\<close> stands for.\<close>

definition root_of :: "u64 \<Rightarrow> machine \<Rightarrow> u64" where
  "root_of pt m = (if pt \<noteq> 0 then pt else mc_kernel_pml4 m)"

definition arch_map :: "u64 \<Rightarrow> u64 \<Rightarrow> u64 \<Rightarrow> nat \<Rightarrow> u32 \<Rightarrow> machine \<Rightarrow> unit result \<times> machine" where
  "arch_map pt va pa len prot m =
     (if \<not> is_aligned va 12 \<or> \<not> is_aligned pa 12 then (Inl EINVAL, m)
      else map_rounds (root_of pt m) va pa len (prot_to_pte (mc_nx m) prot) m)"

text \<open>A leaf: its table, its index, and the size of the page it maps.\<close>

definition find_leaf_ex :: "u64 \<Rightarrow> u64 \<Rightarrow> bool \<Rightarrow> machine \<Rightarrow> (u64 \<times> nat \<times> nat) option \<times> machine" where
  "find_leaf_ex pml4 va split m =
     (case walk pml4 (pt_index 3 va) False 3 m of
        (None, m) \<Rightarrow> (None, m)
      | (Some pdpt, m) \<Rightarrow>
          if has (mc_mem m pdpt (pt_index 2 va)) PTE_HUGE \<and> \<not> split then (Some (pdpt, pt_index 2 va, 2 ^ 30), m)
          else
            (case walk pdpt (pt_index 2 va) split 2 m of
               (None, m) \<Rightarrow> (None, m)
             | (Some pd, m) \<Rightarrow>
                 if has (mc_mem m pd (pt_index 1 va)) PTE_HUGE \<and> \<not> split then (Some (pd, pt_index 1 va, 2 ^ 21), m)
                 else
                   (case walk pd (pt_index 1 va) split 1 m of
                      (None, m) \<Rightarrow> (None, m)
                    | (Some pt, m) \<Rightarrow> (Some (pt, pt_index 0 va, 4096), m))))"

definition find_leaf :: "u64 \<Rightarrow> u64 \<Rightarrow> machine \<Rightarrow> (u64 \<times> nat \<times> nat) option" where
  "find_leaf pml4 va m = fst (find_leaf_ex pml4 va False m)"

lemma find_leaf_size: "find_leaf pml4 va m = Some (t, i, psize) \<Longrightarrow> 0 < psize"
  by (auto simp: find_leaf_def find_leaf_ex_def split: option.splits prod.splits if_splits)

section \<open>Unmapping, protection, translation\<close>

function unmap_rounds :: "u64 \<Rightarrow> u64 \<Rightarrow> nat \<Rightarrow> machine \<Rightarrow> machine" where
  "unmap_rounds pml4 va left m =
     (if left = 0 then m
      else case find_leaf pml4 va m of
        None \<Rightarrow> unmap_rounds pml4 (va + 4096) (left - 4096) m
      | Some (t, i, psize) \<Rightarrow> unmap_rounds pml4 (va + of_nat psize) (left - psize) (set_entry t i 0 m))"
  by pat_completeness auto
termination
  by (relation "measure (\<lambda>(pml4, va, left, m). left)") (auto dest: find_leaf_size)

declare unmap_rounds.simps [simp del]

text \<open>\<open>arch_unmap\<close> returns \<open>RK_OK\<close> on every path; its model is the state it leaves.\<close>

definition arch_unmap :: "u64 \<Rightarrow> u64 \<Rightarrow> nat \<Rightarrow> machine \<Rightarrow> machine" where
  "arch_unmap pt va len m = unmap_rounds (root_of pt m) va len m"

text \<open>The leaf \<open>arch_protect\<close> changes: a huge one only when the request covers it, else a split one.\<close>

definition protect_leaf :: "u64 \<Rightarrow> u64 \<Rightarrow> nat \<Rightarrow> machine \<Rightarrow> (u64 \<times> nat \<times> nat) option \<times> machine" where
  "protect_leaf pml4 va left m =
     (case find_leaf pml4 va m of
        None \<Rightarrow> (None, m)
      | Some (t, i, psize) \<Rightarrow>
          if has (mc_mem m t i) PTE_HUGE \<and> (va AND (of_nat psize - 1) \<noteq> 0 \<or> left < psize)
          then find_leaf_ex pml4 va True m else (Some (t, i, psize), m))"

lemma protect_leaf_size: "protect_leaf pml4 va left m = (Some (t, i, psize), m') \<Longrightarrow> 0 < psize"
  by (auto simp: protect_leaf_def find_leaf_ex_def dest: find_leaf_size split: option.splits prod.splits if_splits)

definition protect_entry :: "u64 \<Rightarrow> u64 \<Rightarrow> u64" where
  "protect_entry flags e =
     (if has e PTE_PRESENT then (e AND PTE_ADDR_MASK) OR flags OR (e AND PTE_HUGE) else e)"

function protect_rounds :: "u64 \<Rightarrow> u64 \<Rightarrow> nat \<Rightarrow> u64 \<Rightarrow> machine \<Rightarrow> machine" where
  "protect_rounds pml4 va left flags m =
     (if left = 0 then m
      else case protect_leaf pml4 va left m of
        (None, m) \<Rightarrow> protect_rounds pml4 (va + 4096) (left - 4096) flags m
      | (Some (t, i, psize), m) \<Rightarrow>
          protect_rounds pml4 (va + of_nat psize) (left - psize) flags (set_entry t i (protect_entry flags (mc_mem m t i)) m))"
  by pat_completeness auto
termination
  by (relation "measure (\<lambda>(pml4, va, left, flags, m). left)")
    (auto dest: protect_leaf_size [OF sym])

declare protect_rounds.simps [simp del]

definition arch_protect :: "u64 \<Rightarrow> u64 \<Rightarrow> nat \<Rightarrow> u32 \<Rightarrow> machine \<Rightarrow> unit result \<times> machine" where
  "arch_protect pt va len prot m =
     (Inr (), protect_rounds (root_of pt m) va len (prot_to_pte (mc_nx m) prot) m)"

definition arch_translate :: "u64 \<Rightarrow> u64 \<Rightarrow> machine \<Rightarrow> (u64 \<times> u32) option" where
  "arch_translate pt va m =
     (case find_leaf (root_of pt m) va m of
        None \<Rightarrow> None
      | Some (t, i, psize) \<Rightarrow>
          let e = mc_mem m t i in
          if \<not> has e PTE_PRESENT then None
          else Some ((e AND PTE_ADDR_MASK) + (va AND (of_nat psize - 1)), pte_to_prot e))"

section \<open>Address spaces\<close>

definition arch_pgtable_create :: "machine \<Rightarrow> u64 \<times> machine" where
  "arch_pgtable_create m =
     (case page_alloc m of (pa, m) \<Rightarrow>
        if pa = 0 then (0, m)
        else
          let k = mc_mem m (mc_kernel_pml4 m)
          in (pa, m\<lparr>mc_mem := (mc_mem m)(pa := (\<lambda>i. if 256 \<le> i \<and> i < 512 then k i else 0)
                       (RECURSIVE_SLOT := pa OR PTE_PRESENT OR PTE_WRITE))\<rparr>))"

fun free_level :: "nat \<Rightarrow> u64 \<Rightarrow> machine \<Rightarrow> machine" where
  "free_level level t m =
     fold (\<lambda>i m. let e = mc_mem m t i in
             if \<not> has e PTE_PRESENT \<or> has e PTE_HUGE then m
             else page_free (e AND PTE_ADDR_MASK)
                    (case level of 0 \<Rightarrow> m | Suc l \<Rightarrow> free_level l (table_at e) m))
       [0..<if level = 3 then 256 else 512] m"

declare free_level.simps [simp del]

definition arch_pgtable_destroy :: "u64 \<Rightarrow> machine \<Rightarrow> machine" where
  "arch_pgtable_destroy pt m =
     (if pt = 0 \<or> pt = mc_kernel_pml4 m then m else page_free pt (free_level 3 pt m))"

section \<open>Start-up\<close>

definition DIRECT_MAP_BASE :: u64 where "DIRECT_MAP_BASE = 0xFFFF800000000000"
definition DIRECT_MAP_SIZE :: nat where "DIRECT_MAP_SIZE = 0x100000000"

definition highest_ram :: "mem_region list \<Rightarrow> nat" where
  "highest_ram rs = fold (\<lambda>r h. if mr_usable r \<and> h < mr_base r + mr_len r then mr_base r + mr_len r else h) rs 0"

text \<open>The top-level table is the one the boot stub left in \<open>cr3\<close>.\<close>

definition x86_paging_init :: "u64 \<Rightarrow> boot_map \<Rightarrow> machine \<Rightarrow> machine" where
  "x86_paging_init cr3 bi m =
     (let m = m\<lparr>mc_kernel_pml4 := cr3 AND PTE_ADDR_MASK\<rparr>;
          top = highest_ram (bm_regions bi);
          m = (if DIRECT_MAP_SIZE < top
               then snd (arch_map 0 (DIRECT_MAP_BASE + of_nat DIRECT_MAP_SIZE) (of_nat DIRECT_MAP_SIZE)
                           (align_up (top - DIRECT_MAP_SIZE) (2 ^ 21))
                           (RK_PROT_READ OR RK_PROT_WRITE OR RK_PROT_GLOBAL) m)
               else m)
      in set_entry (mc_kernel_pml4 m) 0 0 m)"

definition x86_paging_identity_low :: "bool \<Rightarrow> machine \<Rightarrow> machine" where
  "x86_paging_identity_low on m =
     (if on then snd (arch_map 0 0 0 (2 * 2 ^ 20) (RK_PROT_READ OR RK_PROT_WRITE OR RK_PROT_EXEC) m)
      else set_entry (mc_kernel_pml4 m) 0 0 (arch_unmap 0 0 (2 * 2 ^ 20) m))"

text \<open>The linker's symbols are arguments.\<close>

definition x86_paging_harden :: "u64 \<Rightarrow> nat \<Rightarrow> u64 \<Rightarrow> nat \<Rightarrow> machine \<Rightarrow> machine" where
  "x86_paging_harden text_start text_len rodata_start rodata_len m =
     snd (arch_protect 0 rodata_start (align_up rodata_len 4096) (RK_PROT_READ OR RK_PROT_GLOBAL)
       (snd (arch_protect 0 text_start (align_up text_len 4096) (RK_PROT_READ OR RK_PROT_EXEC OR RK_PROT_GLOBAL) m)))"

end
