(* ===== verification/RK_Vmm.thy ===== *)
theory RK_Vmm
  imports RK_Paging "HOL-Library.Monad_Syntax"
begin

unbundle bit_operations_syntax

text \<open>
  Virtual memory (\<open>kernel/mm/vmm.c\<close>) over the page tables of \<open>RK_Paging\<close>: objects, areas, address
  spaces, faults, and copies across the user boundary. Objects and address spaces are indices into
  lists; address space 0 is the kernel's. Sizes and addresses are words, as in the code. Whether the
  heap has room for an object, an area or an address space is the argument \<open>mem\<close>.
\<close>

section \<open>State\<close>

datatype vm_object_kind = VM_OBJ_ANON | VM_OBJ_PHYS | VM_OBJ_FILE | VM_OBJ_SHARED

record vm_object =
  vo_kind :: vm_object_kind
  vo_npages :: nat
  vo_frames :: "u64 list"
  vo_phys :: u64
  vo_refs :: u32
  vo_live :: bool

record vm_area =
  ar_start :: u64
  ar_end :: u64
  ar_prot :: u32
  ar_flags :: u32
  ar_obj :: nat
  ar_offset :: u64

definition VM_AREA_FIXED :: u32 where "VM_AREA_FIXED = 1"
definition VM_AREA_GROWS :: u32 where "VM_AREA_GROWS = 2"
definition VM_AREA_SHARED :: u32 where "VM_AREA_SHARED = 4"
definition VM_AREA_LOCKED :: u32 where "VM_AREA_LOCKED = 8"

definition VM_FAULT_READ :: u32 where "VM_FAULT_READ = 1"
definition VM_FAULT_WRITE :: u32 where "VM_FAULT_WRITE = 2"
definition VM_FAULT_EXEC :: u32 where "VM_FAULT_EXEC = 4"
definition VM_FAULT_USER :: u32 where "VM_FAULT_USER = 8"

record address_space =
  as_pgtable :: u64
  as_areas :: "vm_area list"
  as_mmap_base :: u64
  as_brk :: u64
  as_refs :: u32
  as_rss :: u64
  as_id :: u64
  as_live :: bool

definition USER_MIN :: u64 where "USER_MIN = 0x0000000000400000"
definition USER_MAX :: u64 where "USER_MAX = 0x00007FFFFFFFF000"
definition USER_MMAP_BASE :: u64 where "USER_MMAP_BASE = 0x0000200000000000"
definition RK_KERN_MMAP_BASE :: u64 where "RK_KERN_MMAP_BASE = 0xFFFFC00000000000"

text \<open>\<open>vm_corrupt\<close> is set when the code stores outside the frame array of an object.\<close>

record vmm =
  vm_mc :: machine
  vm_objs :: "vm_object list"
  vm_spaces :: "address_space list"
  vm_next_id :: u64
  vm_corrupt :: bool

abbreviation ob :: "vmm \<Rightarrow> nat \<Rightarrow> vm_object" where "ob s b \<equiv> vm_objs s ! b"
abbreviation sp :: "vmm \<Rightarrow> nat \<Rightarrow> address_space" where "sp s a \<equiv> vm_spaces s ! a"

definition set_obj :: "nat \<Rightarrow> (vm_object \<Rightarrow> vm_object) \<Rightarrow> vmm \<Rightarrow> vmm" where
  "set_obj b f s = s\<lparr>vm_objs := (vm_objs s)[b := f (ob s b)]\<rparr>"

definition set_space :: "nat \<Rightarrow> (address_space \<Rightarrow> address_space) \<Rightarrow> vmm \<Rightarrow> vmm" where
  "set_space a f s = s\<lparr>vm_spaces := (vm_spaces s)[a := f (sp s a)]\<rparr>"

definition on_machine :: "(machine \<Rightarrow> 'a \<times> machine) \<Rightarrow> vmm \<Rightarrow> 'a \<times> vmm" where
  "on_machine f s = (case f (vm_mc s) of (r, m) \<Rightarrow> (r, s\<lparr>vm_mc := m\<rparr>))"

text \<open>\<open>ALIGN_UP\<close>, \<open>ALIGN_DOWN\<close> to a page, and a page number as an address.\<close>

definition page_up :: "u64 \<Rightarrow> u64" where
  "page_up x = (x + 4095) AND NOT 4095"

definition page_down :: "u64 \<Rightarrow> u64" where
  "page_down x = x AND NOT 4095"

definition page_size :: "u64 \<Rightarrow> u64" where
  "page_size n = push_bit 12 n"

section \<open>Objects\<close>

definition vm_object_anon :: "bool \<Rightarrow> u64 \<Rightarrow> vmm \<Rightarrow> nat option \<times> vmm" where
  "vm_object_anon mem npages s =
     (if \<not> mem then (None, s)
      else (Some (length (vm_objs s)),
            s\<lparr>vm_objs := vm_objs s @ [\<lparr>vo_kind = VM_OBJ_ANON, vo_npages = unat npages,
                vo_frames = replicate (unat npages) 0, vo_phys = 0, vo_refs = 1, vo_live = True\<rparr>]\<rparr>))"

definition vm_object_phys :: "bool \<Rightarrow> u64 \<Rightarrow> u64 \<Rightarrow> vmm \<Rightarrow> nat option \<times> vmm" where
  "vm_object_phys mem base npages s =
     (if \<not> mem then (None, s)
      else (Some (length (vm_objs s)),
            s\<lparr>vm_objs := vm_objs s @ [\<lparr>vo_kind = VM_OBJ_PHYS, vo_npages = unat npages,
                vo_frames = [], vo_phys = base, vo_refs = 1, vo_live = True\<rparr>]\<rparr>))"

definition vm_object_get :: "nat \<Rightarrow> vmm \<Rightarrow> vmm" where
  "vm_object_get b = set_obj b (\<lambda>x. x\<lparr>vo_refs := vo_refs x + 1\<rparr>)"

definition put_frame :: "u64 \<Rightarrow> machine \<Rightarrow> machine" where
  "put_frame pa m = m\<lparr>mc_pmm := snd (pmm_page_put (unat pa) (mc_pmm m))\<rparr>"

definition vm_object_put :: "nat \<Rightarrow> vmm \<Rightarrow> vmm" where
  "vm_object_put b s =
     (let s = set_obj b (\<lambda>x. x\<lparr>vo_refs := vo_refs x - 1\<rparr>) s; x = ob s b in
      if vo_refs x \<noteq> 0 then s
      else
        let s = (if vo_kind x = VM_OBJ_ANON
                 then s\<lparr>vm_mc := fold (\<lambda>pa m. if pa = 0 then m else put_frame pa m) (vo_frames x) (vm_mc s)\<rparr>
                 else s)
        in set_obj b (\<lambda>x. x\<lparr>vo_live := False\<rparr>) s)"

text \<open>0 is failure.\<close>

definition vm_object_page :: "nat \<Rightarrow> u64 \<Rightarrow> vmm \<Rightarrow> u64 \<times> vmm" where
  "vm_object_page b index s =
     (let x = ob s b in
      if vo_npages x \<le> unat index then (0, s)
      else if vo_kind x = VM_OBJ_PHYS then (vo_phys x + page_size index, s)
      else
        let pa = vo_frames x ! unat index in
        if pa \<noteq> 0 then (pa, s)
        else case on_machine page_alloc s of (pa, s) \<Rightarrow>
          if pa = 0 then (0, s)
          else (pa, set_obj b (\<lambda>x. x\<lparr>vo_frames := (vo_frames x)[unat index := pa]\<rparr>) s))"

section \<open>Address spaces\<close>

definition as_create :: "bool \<Rightarrow> vmm \<Rightarrow> nat option \<times> vmm" where
  "as_create mem s =
     (if \<not> mem then (None, s)
      else case on_machine arch_pgtable_create s of (pt, s) \<Rightarrow>
        if pt = 0 then (None, s)
        else (Some (length (vm_spaces s)),
              s\<lparr>vm_spaces := vm_spaces s @ [\<lparr>as_pgtable = pt, as_areas = [], as_mmap_base = USER_MMAP_BASE,
                  as_brk = USER_MIN, as_refs = 1, as_rss = 0, as_id = vm_next_id s, as_live = True\<rparr>],
                vm_next_id := vm_next_id s + 1\<rparr>))"

definition as_destroy :: "nat \<Rightarrow> vmm \<Rightarrow> vmm" where
  "as_destroy a s =
     (if a = 0 then s
      else
        let s = set_space a (\<lambda>x. x\<lparr>as_refs := as_refs x - 1\<rparr>) s in
        if as_refs (sp s a) > 0 then s
        else
          let s = fold (\<lambda>ar. vm_object_put (ar_obj ar)) (as_areas (sp s a)) s;
              s = s\<lparr>vm_mc := arch_pgtable_destroy (as_pgtable (sp s a)) (vm_mc s)\<rparr>
          in set_space a (\<lambda>x. x\<lparr>as_areas := [], as_live := False\<rparr>) s)"

definition as_find :: "vm_area list \<Rightarrow> u64 \<Rightarrow> vm_area option" where
  "as_find areas va = find (\<lambda>a. ar_start a \<le> va \<and> va < ar_end a) areas"

text \<open>One pass over the areas: the first that the range at \<open>cursor\<close> meets.\<close>

definition gap_hit :: "vm_area list \<Rightarrow> u64 \<Rightarrow> u64 \<Rightarrow> vm_area option" where
  "gap_hit areas cursor len = find (\<lambda>a. ar_start a < cursor + len \<and> cursor < ar_end a) areas"

text \<open>The \<open>while (restart)\<close> loop; \<open>None\<close> is a loop that does not end, 0 a failure.\<close>

partial_function (option) gap_loop :: "bool \<Rightarrow> vm_area list \<Rightarrow> u64 \<Rightarrow> u64 \<Rightarrow> u64 option" where
  "gap_loop krn areas cursor len =
     (case gap_hit areas cursor len of
        Some a \<Rightarrow>
          (let cursor = page_up (ar_end a) in
           if USER_MAX < cursor + len \<and> \<not> krn then Some 0 else gap_loop krn areas cursor len)
      | None \<Rightarrow> if USER_MAX < cursor + len \<and> \<not> krn then Some 0 else Some cursor)"

definition find_gap :: "bool \<Rightarrow> address_space \<Rightarrow> u64 \<Rightarrow> u64 \<Rightarrow> u64 option" where
  "find_gap krn as hint len =
     (let cursor = (if hint \<noteq> 0 then page_up hint else as_mmap_base as) in
      if cursor = 0 then Some 0 else gap_loop krn (as_areas as) cursor len)"

fun insert_area :: "vm_area \<Rightarrow> vm_area list \<Rightarrow> vm_area list" where
  "insert_area n [] = [n]"
| "insert_area n (a # as) = (if ar_start n < ar_start a then n # a # as else a # insert_area n as)"

section \<open>Mapping objects\<close>

text \<open>Eager population: pages \<open>i\<close> to \<open>i + n\<close>.\<close>

fun populate :: "nat \<Rightarrow> u64 \<Rightarrow> nat \<Rightarrow> u64 \<Rightarrow> u32 \<Rightarrow> u64 \<Rightarrow> nat \<Rightarrow> vmm \<Rightarrow> unit result \<times> vmm" where
  "populate a va obj off prot i 0 s = (Inr (), s)"
| "populate a va obj off prot i (Suc n) s =
     (case vm_object_page obj (off + i) s of (pa, s) \<Rightarrow>
        if pa = 0 then (Inl ENOMEM, s)
        else (case on_machine (arch_map (as_pgtable (sp s a)) (va + page_size i) pa 4096 prot) s of
                (Inl e, s) \<Rightarrow> (Inl e, s)
              | (Inr u, s) \<Rightarrow> populate a va obj off prot (i + 1) n s))"

text \<open>Where the area goes: \<open>None\<close> when the search for a gap does not end.\<close>

definition choose_va :: "nat \<Rightarrow> u64 \<Rightarrow> u64 \<Rightarrow> u32 \<Rightarrow> vmm \<Rightarrow> u64 result option" where
  "choose_va a hint len flags s =
     (if has flags VM_AREA_FIXED then
        (let va = page_down hint in
         Some (if as_find (as_areas (sp s a)) va \<noteq> None then Inl EEXIST else Inr va))
      else map_option (\<lambda>va. if va = 0 then Inl ENOMEM else Inr va) (find_gap (a = 0) (sp s a) hint len))"

definition add_area :: "nat \<Rightarrow> vm_area \<Rightarrow> vmm \<Rightarrow> vmm" where
  "add_area a n s =
     set_space a (\<lambda>x. x\<lparr>as_areas := insert_area n (as_areas x)\<rparr>) (vm_object_get (ar_obj n) s)"

definition as_map_object :: "bool \<Rightarrow> nat \<Rightarrow> u64 \<Rightarrow> nat \<Rightarrow> u64 \<Rightarrow> u64 \<Rightarrow> u32 \<Rightarrow> u32 \<Rightarrow> vmm \<Rightarrow> (u64 result \<times> vmm) option" where
  "as_map_object mem a hint obj off npages prot flags s =
     (if npages = 0 then Some (Inl EINVAL, s)
      else
        let len = page_size npages in
        case choose_va a hint len flags s of
          None \<Rightarrow> None
        | Some (Inl e) \<Rightarrow> Some (Inl e, s)
        | Some (Inr va) \<Rightarrow>
            if \<not> mem then Some (Inl ENOMEM, s)
            else
              let s = add_area a \<lparr>ar_start = va, ar_end = va + len, ar_prot = prot, ar_flags = flags,
                        ar_obj = obj, ar_offset = off\<rparr> s in
              if vo_kind (ob s obj) = VM_OBJ_PHYS \<or> has flags VM_AREA_LOCKED then
                (case populate a va obj off prot 0 (unat npages) s of
                   (Inl e, s) \<Rightarrow> Some (Inl e, s)
                 | (Inr u, s) \<Rightarrow> Some (Inr va, set_space a (\<lambda>x. x\<lparr>as_rss := as_rss x + npages\<rparr>) s))
              else Some (Inr va, s))"

definition as_map_anon :: "bool \<Rightarrow> bool \<Rightarrow> nat \<Rightarrow> u64 \<Rightarrow> u64 \<Rightarrow> u32 \<Rightarrow> vmm \<Rightarrow> (u64 result \<times> vmm) option" where
  "as_map_anon mem mem' a hint len prot s =
     (let npages = (len + 4095) div 4096 in
      case vm_object_anon mem npages s of
        (None, s) \<Rightarrow> Some (Inl ENOMEM, s)
      | (Some b, s) \<Rightarrow>
          map_option (\<lambda>(r, s). (r, vm_object_put b s)) (as_map_object mem' a hint b 0 npages prot 0 s))"

text \<open>The areas in order, those kept so far in \<open>kept\<close>.\<close>

fun unmap_areas :: "nat \<Rightarrow> u64 \<Rightarrow> u64 \<Rightarrow> vm_area list \<Rightarrow> vm_area list \<Rightarrow> vmm \<Rightarrow> unit result \<times> vmm" where
  "unmap_areas a va stop kept [] s = (Inr (), s)"
| "unmap_areas a va stop kept (ar # as) s =
     (if ar_end ar \<le> va \<or> stop \<le> ar_start ar then unmap_areas a va stop (kept @ [ar]) as s
      else if ar_start ar < va \<or> stop < ar_end ar then (Inl ENOTSUP, s)
      else
        let size = ar_end ar - ar_start ar;
            s = s\<lparr>vm_mc := arch_unmap (as_pgtable (sp s a)) (ar_start ar) (unat size) (vm_mc s)\<rparr>;
            s = set_space a (\<lambda>x. x\<lparr>as_rss := as_rss x - drop_bit 12 size, as_areas := kept @ as\<rparr>) s
        in unmap_areas a va stop kept as (vm_object_put (ar_obj ar) s))"

definition as_unmap :: "nat \<Rightarrow> u64 \<Rightarrow> u64 \<Rightarrow> vmm \<Rightarrow> unit result \<times> vmm" where
  "as_unmap a va len s = unmap_areas a va (va + len) [] (as_areas (sp s a)) s"

text \<open>A change of the first area that holds the address.\<close>

fun change_area :: "(vm_area \<Rightarrow> bool) \<Rightarrow> (vm_area \<Rightarrow> vm_area) \<Rightarrow> vm_area list \<Rightarrow> vm_area list" where
  "change_area P f [] = []"
| "change_area P f (a # as) = (if P a then f a # as else a # change_area P f as)"

abbreviation covers :: "u64 \<Rightarrow> vm_area \<Rightarrow> bool" where
  "covers va a \<equiv> ar_start a \<le> va \<and> va < ar_end a"

definition as_protect :: "nat \<Rightarrow> u64 \<Rightarrow> nat \<Rightarrow> u32 \<Rightarrow> vmm \<Rightarrow> unit result \<times> vmm" where
  "as_protect a va len prot s =
     (let s = set_space a (\<lambda>x. x\<lparr>as_areas := change_area (covers va) (\<lambda>ar. ar\<lparr>ar_prot := prot\<rparr>) (as_areas x)\<rparr>) s
      in on_machine (arch_protect (as_pgtable (sp s a)) va len prot) s)"

text \<open>The loop of \<open>as_clone\<close>; \<open>mems\<close> says of each area whether there was room for its copy.\<close>

fun clone_areas :: "nat \<Rightarrow> nat \<Rightarrow> bool list \<Rightarrow> vm_area list \<Rightarrow> vmm \<Rightarrow> vmm" where
  "clone_areas src dst (True # mems) (ar # as) s =
     (if has (ar_flags ar) VM_AREA_SHARED then clone_areas src dst mems as (add_area dst ar s)
      else
        let ro = ar_prot ar AND NOT RK_PROT_WRITE;
            s = add_area dst (ar\<lparr>ar_prot := ro\<rparr>) s
        in clone_areas src dst mems as
             (snd (on_machine (arch_protect (as_pgtable (sp s src)) (ar_start ar) (unat (ar_end ar - ar_start ar)) ro) s)))"
| "clone_areas src dst mems as s = s"

definition as_clone :: "bool \<Rightarrow> bool list \<Rightarrow> nat \<Rightarrow> vmm \<Rightarrow> nat option \<times> vmm" where
  "as_clone mem mems src s =
     (case as_create mem s of
        (None, s) \<Rightarrow> (None, s)
      | (Some dst, s) \<Rightarrow> (Some dst, clone_areas src dst mems (as_areas (sp s src)) s))"

section \<open>Faults\<close>

definition grows_to :: "u64 \<Rightarrow> vm_area \<Rightarrow> bool" where
  "grows_to pg a \<longleftrightarrow> has (ar_flags a) VM_AREA_GROWS \<and> pg < ar_start a \<and> ar_start a - pg \<le> push_bit 20 8"

text \<open>The position in the list of the area a fault belongs to, the stack area extended.\<close>

fun position :: "('a \<Rightarrow> bool) \<Rightarrow> 'a list \<Rightarrow> nat option" where
  "position P [] = None"
| "position P (x # xs) = (if P x then Some 0 else map_option Suc (position P xs))"

definition fault_area :: "u64 \<Rightarrow> vm_area list \<Rightarrow> (nat \<times> vm_area list) option" where
  "fault_area pg areas =
     (case position (covers pg) areas of
        Some i \<Rightarrow> Some (i, areas)
      | None \<Rightarrow>
          (case position (grows_to pg) areas of
             Some i \<Rightarrow> Some (i, areas[i := (areas ! i)\<lparr>ar_start := pg\<rparr>])
           | None \<Rightarrow> None))"

definition page_index :: "vm_area \<Rightarrow> u64 \<Rightarrow> u64" where
  "page_index ar pg = ar_offset ar + drop_bit 12 (pg - ar_start ar)"

definition copy_frame :: "u64 \<Rightarrow> u64 \<Rightarrow> machine \<Rightarrow> machine" where
  "copy_frame dst src m = m\<lparr>mc_mem := (mc_mem m)(dst := mc_mem m src)\<rparr>"

text \<open>The branch for a write to an area without write permission, on the area at position \<open>i\<close>.\<close>

definition cow_fault :: "bool \<Rightarrow> nat \<Rightarrow> nat \<Rightarrow> vm_area \<Rightarrow> u64 \<Rightarrow> vmm \<Rightarrow> unit result \<times> vmm" where
  "cow_fault mem a i ar pg s =
     (if vo_refs (ob s (ar_obj ar)) \<le> 1 then (Inl EACCES, s)
      else
        let index = page_index ar pg in
        case vm_object_page (ar_obj ar) index s of (old, s) \<Rightarrow>
        case on_machine page_alloc s of (fresh, s) \<Rightarrow>
          if fresh = 0 then (Inl ENOMEM, s)
          else
            let s = s\<lparr>vm_mc := copy_frame fresh old (vm_mc s)\<rparr> in
            (case vm_object_anon mem (of_nat (vo_npages (ob s (ar_obj ar)))) s of
              (None, s) \<Rightarrow> (Inl ENOMEM, s\<lparr>vm_mc := page_free fresh (vm_mc s)\<rparr>)
            | (Some priv, s) \<Rightarrow>
                let s = s\<lparr>vm_corrupt := vm_corrupt s \<or> vo_npages (ob s priv) \<le> unat index\<rparr>;
                    s = set_obj priv (\<lambda>x. x\<lparr>vo_frames := (vo_frames x)[unat index := fresh]\<rparr>) s;
                    s = vm_object_put (ar_obj ar) s;
                    ar = ar\<lparr>ar_obj := priv, ar_prot := ar_prot ar OR RK_PROT_WRITE\<rparr>;
                    s = set_space a (\<lambda>x. x\<lparr>as_areas := (as_areas x)[i := ar]\<rparr>) s
                in (Inr (), snd (on_machine (arch_map (as_pgtable (sp s a)) pg fresh 4096 (ar_prot ar)) s))))"

definition vm_handle_fault :: "bool \<Rightarrow> nat \<Rightarrow> u64 \<Rightarrow> u32 \<Rightarrow> vmm \<Rightarrow> unit result \<times> vmm" where
  "vm_handle_fault mem a va access s =
     (let pg = page_down va in
      case fault_area pg (as_areas (sp s a)) of
        None \<Rightarrow> (Inl EFAULT, s)
      | Some (i, areas) \<Rightarrow>
          let s = set_space a (\<lambda>x. x\<lparr>as_areas := areas\<rparr>) s; ar = areas ! i in
          if has access VM_FAULT_WRITE \<and> \<not> has (ar_prot ar) RK_PROT_WRITE then cow_fault mem a i ar pg s
          else if has access VM_FAULT_EXEC \<and> \<not> has (ar_prot ar) RK_PROT_EXEC \<or>
                  has access VM_FAULT_USER \<and> \<not> has (ar_prot ar) RK_PROT_USER then (Inl EACCES, s)
          else
            (case vm_object_page (ar_obj ar) (page_index ar pg) s of (pa, s) \<Rightarrow>
              if pa = 0 then (Inl ENOMEM, s)
              else (case on_machine (arch_map (as_pgtable (sp s a)) pg pa 4096 (ar_prot ar)) s of
                      (Inl e, s) \<Rightarrow> (Inl e, s)
                    | (Inr u, s) \<Rightarrow> (Inr (), set_space a (\<lambda>x. x\<lparr>as_rss := as_rss x + 1\<rparr>) s))))"

section \<open>The user boundary\<close>

definition user_range_ok :: "u64 \<Rightarrow> u64 \<Rightarrow> bool" where
  "user_range_ok p n \<longleftrightarrow> \<not> p + n < p \<and> USER_MIN \<le> p \<and> p + n \<le> USER_MAX"

text \<open>Faulting in the pages from \<open>p\<close> below \<open>stop\<close>, for reading and for writing.\<close>

function fault_in_read :: "bool \<Rightarrow> nat \<Rightarrow> nat \<Rightarrow> nat \<Rightarrow> vmm \<Rightarrow> unit result \<times> vmm" where
  "fault_in_read mem a p stop s =
     (if stop \<le> p then (Inr (), s)
      else if arch_translate (as_pgtable (sp s a)) (of_nat p) (vm_mc s) \<noteq> None
      then fault_in_read mem a (p + 4096) stop s
      else case vm_handle_fault mem a (of_nat p) (VM_FAULT_READ OR VM_FAULT_USER) s of
             (Inl e, s) \<Rightarrow> (Inl EFAULT, s)
           | (Inr u, s) \<Rightarrow> fault_in_read mem a (p + 4096) stop s)"
  by pat_completeness auto
termination
  by (relation "measure (\<lambda>(mem, a, p, stop, s). stop - p)") auto

declare fault_in_read.simps [simp del]

function fault_in_write :: "bool \<Rightarrow> nat \<Rightarrow> nat \<Rightarrow> nat \<Rightarrow> vmm \<Rightarrow> unit result \<times> vmm" where
  "fault_in_write mem a p stop s =
     (if stop \<le> p then (Inr (), s)
      else case arch_translate (as_pgtable (sp s a)) (of_nat p) (vm_mc s) of
        None \<Rightarrow>
          (case vm_handle_fault mem a (of_nat p) (VM_FAULT_WRITE OR VM_FAULT_USER) s of
             (Inl e, s) \<Rightarrow> (Inl EFAULT, s)
           | (Inr u, s) \<Rightarrow> fault_in_write mem a (p + 4096) stop s)
      | Some (pa, prot) \<Rightarrow>
          if has prot RK_PROT_WRITE then fault_in_write mem a (p + 4096) stop s
          else (case vm_handle_fault mem a (of_nat p) (VM_FAULT_WRITE OR VM_FAULT_USER) s of
                  (Inl e, s) \<Rightarrow> (Inl EACCES, s)
                | (Inr u, s) \<Rightarrow> fault_in_write mem a (p + 4096) stop s))"
  by pat_completeness auto
termination
  by (relation "measure (\<lambda>(mem, a, p, stop, s). stop - p)") auto

declare fault_in_write.simps [simp del]

text \<open>What the processor reads and writes through the current table; \<open>None\<close> is a fault.\<close>

definition load_byte :: "u64 \<Rightarrow> u64 \<Rightarrow> machine \<Rightarrow> u8 option" where
  "load_byte pt va m =
     map_option (\<lambda>(pa, prot). ucast (drop_bit (8 * (unat pa mod 8)) (mc_mem m (page_down pa) (unat pa mod 4096 div 8))))
       (arch_translate pt va m)"

definition store_byte :: "u64 \<Rightarrow> u64 \<Rightarrow> u8 \<Rightarrow> machine \<Rightarrow> machine option" where
  "store_byte pt va b m =
     (case arch_translate pt va m of
        None \<Rightarrow> None
      | Some (pa, prot) \<Rightarrow>
          if \<not> has prot RK_PROT_WRITE then None
          else
            let i = unat pa mod 4096 div 8; k = 8 * (unat pa mod 8); w = mc_mem m (page_down pa) i
            in Some (set_entry (page_down pa) i ((w AND NOT (push_bit k 0xFF)) OR push_bit k (ucast b)) m))"

definition load_bytes :: "u64 \<Rightarrow> u64 \<Rightarrow> nat \<Rightarrow> machine \<Rightarrow> u8 list option" where
  "load_bytes pt va n m = those (map (\<lambda>i. load_byte pt (va + of_nat i) m) [0..<n])"

fun store_bytes_at :: "u64 \<Rightarrow> u64 \<Rightarrow> u8 list \<Rightarrow> machine \<Rightarrow> machine option" where
  "store_bytes_at pt va [] m = Some m"
| "store_bytes_at pt va (b # bs) m = store_byte pt va b m \<bind> store_bytes_at pt (va + 1) bs"

text \<open>\<open>a\<close> is the address space of the current task; \<open>None\<close> when it has none.\<close>

definition copy_from_user :: "bool \<Rightarrow> nat option \<Rightarrow> u64 \<Rightarrow> u64 \<Rightarrow> vmm \<Rightarrow> u8 list option result \<times> vmm" where
  "copy_from_user mem as usrc n s =
     (if \<not> user_range_ok usrc n then (Inl EFAULT, s)
      else case as of None \<Rightarrow> (Inl EFAULT, s)
      | Some a \<Rightarrow>
          (case fault_in_read mem a (unat (page_down usrc)) (unat (usrc + n)) s of
             (Inl e, s) \<Rightarrow> (Inl e, s)
           | (Inr u, s) \<Rightarrow> (Inr (load_bytes (as_pgtable (sp s a)) usrc (unat n) (vm_mc s)), s)))"

definition copy_to_user :: "bool \<Rightarrow> nat option \<Rightarrow> u64 \<Rightarrow> u8 list \<Rightarrow> vmm \<Rightarrow> vmm option result \<times> vmm" where
  "copy_to_user mem as udst bs s =
     (let n = of_nat (length bs) in
      if \<not> user_range_ok udst n then (Inl EFAULT, s)
      else case as of None \<Rightarrow> (Inl EFAULT, s)
      | Some a \<Rightarrow>
          (case fault_in_write mem a (unat (page_down udst)) (unat (udst + n)) s of
             (Inl e, s) \<Rightarrow> (Inl e, s)
           | (Inr u, s) \<Rightarrow>
               (Inr (map_option (\<lambda>m. s\<lparr>vm_mc := m\<rparr>) (store_bytes_at (as_pgtable (sp s a)) udst bs (vm_mc s))), s)))"

text \<open>The string read, with the index of its end.\<close>

fun strncpy_from :: "bool \<Rightarrow> nat option \<Rightarrow> u64 \<Rightarrow> nat \<Rightarrow> u8 list \<Rightarrow> vmm \<Rightarrow> u8 list option result \<times> vmm" where
  "strncpy_from mem as usrc 0 dst s = (Inl E2BIG, s)"
| "strncpy_from mem as usrc (Suc n) dst s =
     (case copy_from_user mem as usrc 1 s of
        (Inl e, s) \<Rightarrow> (Inl EFAULT, s)
      | (Inr None, s) \<Rightarrow> (Inr None, s)
      | (Inr (Some cs), s) \<Rightarrow>
          if hd cs = 0 then (Inr (Some dst), s) else strncpy_from mem as (usrc + 1) n (dst @ cs) s)"

definition strncpy_from_user :: "bool \<Rightarrow> nat option \<Rightarrow> u64 \<Rightarrow> nat \<Rightarrow> vmm \<Rightarrow> u8 list option result \<times> vmm" where
  "strncpy_from_user mem as usrc n s = strncpy_from mem as usrc n [] s"

section \<open>Start-up\<close>

definition mm_init :: "machine \<Rightarrow> vmm" where
  "mm_init m =
     \<lparr>vm_mc = m, vm_objs = [], vm_spaces = [\<lparr>as_pgtable = mc_kernel_pml4 m, as_areas = [],
        as_mmap_base = RK_KERN_MMAP_BASE, as_brk = RK_KERN_MMAP_BASE, as_refs = 1, as_rss = 0, as_id = 0, as_live = True\<rparr>],
      vm_next_id = 1, vm_corrupt = False\<rparr>"

end
