(* ===== verification/RK_VmmAreas.thy ===== *)
theory RK_VmmAreas
  imports RK_Vmm
begin

unbundle bit_operations_syntax

text \<open>
  The areas of an address space: the search for a gap ends and finds one, and over any sequence of
  operations that neither force an address nor grow a stack the areas stay sorted and apart.
\<close>

section \<open>Pages\<close>

lemma page_mask: "(4095 :: u64) = mask 12"
  by (simp add: mask_eq_exp_minus_1)

lemma page_down_nat: "unat (page_down x) = unat x - unat x mod 4096"
proof -
  have s: "page_down x + take_bit 12 x = x"
  proof -
    have "page_down x AND take_bit 12 x = 0"
      by (rule bit_word_eqI) (auto simp: page_down_def page_mask bit_simps)
    then have "page_down x + take_bit 12 x = page_down x OR take_bit 12 x" by (rule disjunctive_add_eq_or)
    also have "\<dots> = x" by (rule bit_word_eqI) (auto simp: page_down_def page_mask bit_simps)
    finally show ?thesis .
  qed
  have t: "unat (take_bit 12 x) = unat x mod 4096"
  proof -
    have "unat (take_bit 12 x) = take_bit 12 (unat x)" by (rule unsigned_take_bit_eq)
    then show ?thesis by (simp add: take_bit_eq_mod)
  qed
  have "page_down x = x - take_bit 12 x" using s by (metis add_diff_cancel_right')
  moreover have "take_bit 12 x \<le> x" using t by (simp add: word_le_nat_alt)
  ultimately show ?thesis using t by (simp add: unat_sub)
qed

definition paged :: "u64 \<Rightarrow> bool" where
  "paged x \<longleftrightarrow> unat x mod 4096 = 0"

lemma page_up_nat: "unat x + 4095 < 2 ^ 64 \<Longrightarrow> unat (page_up x) = (unat x + 4095) - (unat x + 4095) mod 4096"
  using page_down_nat [of "x + 4095"] by (simp add: page_up_def page_down_def unat_word_ariths)

lemma paged_down [simp]: "paged (page_down x)"
  by (simp add: paged_def page_down_nat minus_mod_eq_mult_div)

lemma paged_up [simp]: "paged (page_up x)"
  using paged_down [of "x + 4095"] by (simp add: page_up_def page_down_def)

lemma page_up_paged: "paged x \<Longrightarrow> page_up x = x"
proof -
  assume x: "paged x"
  have "unat x \<le> 2 ^ 64 - 4096"
  proof (rule ccontr)
    assume "\<not> unat x \<le> 2 ^ 64 - 4096"
    moreover have "unat x < 2 ^ 64" using unsigned_less [of x] by simp
    ultimately have "unat x - (2 ^ 64 - 4096) < 4096" "unat x - (2 ^ 64 - 4096) \<noteq> 0" by auto
    moreover have "unat x mod 4096 = (unat x - (2 ^ 64 - 4096)) mod 4096"
      using \<open>\<not> unat x \<le> 2 ^ 64 - 4096\<close> mod_add_eq [of "unat x - (2 ^ 64 - 4096)" 4096 "2 ^ 64 - 4096"] by simp
    ultimately show False using x by (simp add: paged_def)
  qed
  then have l: "unat x + 4095 < 2 ^ 64" by simp
  have "(unat x + 4095) mod 4096 = 4095" using x by (simp add: paged_def mod_add_eq [symmetric])
  then have "unat (page_up x) = unat x" using page_up_nat [OF l] by simp
  then show ?thesis by (rule unsigned_word_eqI)
qed

lemma page_size_nat: "unat n * 4096 < 2 ^ 64 \<Longrightarrow> unat (page_size n) = unat n * 4096"
  by (simp add: page_size_def push_bit_eq_mult unat_word_ariths mult.commute)

section \<open>The search for a gap\<close>

definition free_at :: "vm_area list \<Rightarrow> u64 \<Rightarrow> u64 \<Rightarrow> bool" where
  "free_at areas va len \<longleftrightarrow> (\<forall>a \<in> set areas. \<not> (ar_start a < va + len \<and> va < ar_end a))"

lemma gap_hit_none: "gap_hit areas va len = None \<longleftrightarrow> free_at areas va len"
  by (auto simp: gap_hit_def free_at_def find_None_iff)

lemma gap_loop_ends:
  assumes "\<And>a. a \<in> set areas \<Longrightarrow> paged (ar_end a)" "paged cursor"
  shows "\<exists>va. gap_loop krn areas cursor len = Some va \<and>
    (va = 0 \<or> free_at areas va len \<and> paged va \<and> (va = cursor \<or> va \<in> ar_end ` set areas) \<and> (krn \<or> va + len \<le> USER_MAX))"
  using assms(2)
proof (induction "card {a \<in> set areas. cursor < ar_end a}" arbitrary: cursor rule: less_induct)
  case less
  show ?case
  proof (cases "gap_hit areas cursor len")
    case None
    then have "free_at areas cursor len" using gap_hit_none by blast
    then show ?thesis using None less.prems
      by (simp add: gap_loop.simps [of krn areas cursor len]) (auto simp: not_less)
  next
    case (Some a)
    then have a: "a \<in> set areas" "cursor < ar_end a" by (auto simp: gap_hit_def find_Some_iff)
    have nx: "page_up (ar_end a) = ar_end a" "paged (ar_end a)" using page_up_paged assms(1) a(1) by auto
    have "{b \<in> set areas. ar_end a < ar_end b} \<subset> {b \<in> set areas. cursor < ar_end b}" using a by auto
    then have "card {b \<in> set areas. ar_end a < ar_end b} < card {b \<in> set areas. cursor < ar_end b}"
      by (intro psubset_card_mono) auto
    from less.hyps [OF this nx(2)] show ?thesis
      using Some nx a(1) by (subst gap_loop.simps) (auto simp: Let_def)
  qed
qed


section \<open>Areas that are sorted and apart\<close>

definition area_ok :: "vm_area \<Rightarrow> bool" where
  "area_ok a \<longleftrightarrow> ar_start a < ar_end a \<and> paged (ar_start a) \<and> paged (ar_end a) \<and> ar_end a \<le> USER_MAX \<and>
     \<not> has (ar_flags a) VM_AREA_GROWS"

definition areas_ok :: "vm_area list \<Rightarrow> bool" where
  "areas_ok as \<longleftrightarrow> sorted_wrt (\<lambda>a b. ar_end a \<le> ar_start b) as \<and> (\<forall>a \<in> set as. area_ok a)"

lemma areas_ok_Nil [simp]: "areas_ok []"
  by (simp add: areas_ok_def)

lemma areas_ok_Cons: "areas_ok (a # as) \<longleftrightarrow> area_ok a \<and> (\<forall>b \<in> set as. ar_end a \<le> ar_start b) \<and> areas_ok as"
  by (auto simp: areas_ok_def)

lemma set_insert_area [simp]: "set (insert_area n as) = insert n (set as)"
  by (induction as) auto

lemma insert_area_ok:
  "areas_ok as \<Longrightarrow> area_ok n \<Longrightarrow> (\<forall>a \<in> set as. ar_end n \<le> ar_start a \<or> ar_end a \<le> ar_start n) \<Longrightarrow> areas_ok (insert_area n as)"
proof (induction as)
  case (Cons a as)
  show ?case
  proof (cases "ar_start n < ar_start a")
    case True
    have na: "ar_end n \<le> ar_start a" using Cons.prems True by (fastforce simp: areas_ok_Cons area_ok_def)
    have "ar_end n \<le> ar_start b" if "b \<in> set as" for b
    proof -
      have "ar_start a < ar_end a" "ar_end a \<le> ar_start b" using Cons.prems(1) that by (auto simp: areas_ok_Cons area_ok_def)
      then show ?thesis using na by (meson order_less_imp_le order_trans)
    qed
    then show ?thesis using Cons.prems True na by (auto simp: areas_ok_Cons)
  next
    case False
    have "ar_end a \<le> ar_start n"
    proof -
      have "ar_end n \<le> ar_start a \<or> ar_end a \<le> ar_start n" "ar_start n < ar_end n" using Cons.prems by (auto simp: area_ok_def)
      then show ?thesis using False by (meson leD leI order_less_le_trans)
    qed
    then show ?thesis using Cons False by (auto simp: areas_ok_Cons)
  qed
qed (simp add: areas_ok_Cons)

lemma areas_ok_drop: "areas_ok (as @ a # bs) \<Longrightarrow> areas_ok (as @ bs)"
  by (simp add: areas_ok_def sorted_wrt_append)

text \<open>Two lists with the same places.\<close>

definition places :: "vm_area list \<Rightarrow> (u64 \<times> u64 \<times> bool) list" where
  "places as = map (\<lambda>a. (ar_start a, ar_end a, has (ar_flags a) VM_AREA_GROWS)) as"

lemma areas_ok_places: "places as = places bs \<Longrightarrow> areas_ok as = areas_ok bs"
proof (induction as arbitrary: bs)
  case Nil
  then show ?case by (simp add: places_def)
next
  case (Cons a as)
  then obtain b bs' where b: "bs = b # bs'" "ar_start a = ar_start b" "ar_end a = ar_end b"
    "has (ar_flags a) VM_AREA_GROWS = has (ar_flags b) VM_AREA_GROWS" "places as = places bs'"
    by (auto simp: places_def Cons_eq_map_conv)
  have "ar_start ` set as = ar_start ` set bs'"
    using arg_cong [OF b(5), of "\<lambda>xs. fst ` set xs"] by (simp add: places_def image_image)
  then have "(\<forall>c \<in> set as. ar_end b \<le> ar_start c) = (\<forall>c \<in> set bs'. ar_end b \<le> ar_start c)"
    by (metis (no_types, lifting) imageE image_eqI)
  then show ?case using Cons.IH [OF b(5)] b by (simp add: areas_ok_Cons area_ok_def)
qed

section \<open>What the operations leave alone\<close>

named_theorems spaces_frame

lemma on_machine_spaces [spaces_frame]: "vm_spaces (snd (on_machine f s)) = vm_spaces s"
  by (simp add: on_machine_def split: prod.splits)

lemma on_machine_same: "on_machine f s = (r, s') \<Longrightarrow> vm_spaces s' = vm_spaces s"
  by (auto simp: on_machine_def split: prod.splits)

lemma set_obj_spaces [spaces_frame]: "vm_spaces (set_obj b f s) = vm_spaces s"
  by (simp add: set_obj_def)

lemma object_spaces [spaces_frame]:
  "vm_spaces (vm_object_get b s) = vm_spaces s" "vm_spaces (vm_object_put b s) = vm_spaces s"
  "vm_spaces (snd (vm_object_anon mem n s)) = vm_spaces s" "vm_spaces (snd (vm_object_phys mem x n s)) = vm_spaces s"
  by (simp_all add: vm_object_get_def vm_object_put_def vm_object_anon_def vm_object_phys_def set_obj_spaces Let_def)

lemma vm_object_anon_same: "vm_object_anon mem n s = (r, s') \<Longrightarrow> vm_spaces s' = vm_spaces s"
  using object_spaces(3) [of mem n s] by simp

lemma vm_object_page_same: "vm_object_page b i s = (pa, s') \<Longrightarrow> vm_spaces s' = vm_spaces s"
  by (auto simp: vm_object_page_def Let_def set_obj_spaces dest: on_machine_same split: if_splits prod.splits)

lemma populate_same: "populate a va b off prot i n s = (r, s') \<Longrightarrow> vm_spaces s' = vm_spaces s"
proof (induction a va b off prot i n s rule: populate.induct)
  case (2 a va b off prot i n s)
  then show ?case
    by (auto dest!: vm_object_page_same on_machine_same split: if_splits prod.splits sum.splits)
qed simp

text \<open>The areas of address space \<open>k\<close>.\<close>

abbreviation areas :: "vmm \<Rightarrow> nat \<Rightarrow> vm_area list" where "areas s k \<equiv> as_areas (sp s k)"

lemma set_space_areas: "a < length (vm_spaces s) \<Longrightarrow> areas (set_space a f s) k = (if k = a then as_areas (f (sp s a)) else areas s k)"
  by (auto simp: set_space_def)

lemma set_space_length [simp]: "length (vm_spaces (set_space a f s)) = length (vm_spaces s)"
  by (simp add: set_space_def)

section \<open>Every operation keeps the areas of user spaces apart\<close>

definition spaces_ok :: "vmm \<Rightarrow> bool" where
  "spaces_ok s \<longleftrightarrow> (\<forall>k. 0 < k \<longrightarrow> k < length (vm_spaces s) \<longrightarrow> areas_ok (areas s k) \<and> as_mmap_base (sp s k) = USER_MMAP_BASE)"

lemma spaces_ok_cong: "vm_spaces s' = vm_spaces s \<Longrightarrow> spaces_ok s' = spaces_ok s"
  by (simp add: spaces_ok_def)

lemma spaces_ok_set:
  assumes "spaces_ok s" "0 < a \<Longrightarrow> a < length (vm_spaces s) \<Longrightarrow> areas_ok (as_areas (f (sp s a))) \<and> as_mmap_base (f (sp s a)) = as_mmap_base (sp s a)"
  shows "spaces_ok (set_space a f s)"
  unfolding spaces_ok_def
proof (intro allI impI)
  fix k
  assume k: "0 < k" "k < length (vm_spaces (set_space a f s))"
  then show "areas_ok (areas (set_space a f s) k) \<and> as_mmap_base (sp (set_space a f s) k) = USER_MMAP_BASE"
    using assms by (cases "k = a") (auto simp: spaces_ok_def set_space_def)
qed

lemma range_end:
  fixes va len :: u64
  assumes "unat va + unat len < 2 ^ 64"
  shows "unat (va + len) = unat va + unat len"
  using assms by (simp add: unat_word_ariths)

lemma chosen_ok:
  assumes ok: "spaces_ok s" "0 < a" "a < length (vm_spaces s)" and f: "\<not> has flags VM_AREA_FIXED" "\<not> has flags VM_AREA_GROWS"
    and len: "0 < unat npages" "unat npages * 4096 < 2 ^ 63" "unat hint + unat npages * 4096 + 4096 < 2 ^ 64"
    and c: "choose_va a hint (page_size npages) flags s = Some (Inr va)"
  shows "areas_ok (insert_area \<lparr>ar_start = va, ar_end = va + page_size npages, ar_prot = prot, ar_flags = flags,
    ar_obj = b, ar_offset = off\<rparr> (areas s a))"
proof -
  let ?len = "page_size npages"
  have l: "unat ?len = unat npages * 4096" using len(2) by (simp add: page_size_nat)
  have A: "areas_ok (areas s a)" "as_mmap_base (sp s a) = USER_MMAP_BASE" using ok by (auto simp: spaces_ok_def)
  let ?c = "if hint \<noteq> 0 then page_up hint else USER_MMAP_BASE"
  have cl: "paged ?c \<and> unat ?c + unat ?len < 2 ^ 64"
  proof (cases "hint = 0")
    case True
    then show ?thesis using l len(2) by (simp add: paged_def USER_MMAP_BASE_def)
  next
    case False
    have "unat hint + 4095 < 2 ^ 64" using len(3) by linarith
    then have "unat (page_up hint) \<le> unat hint + 4095" by (simp add: page_up_nat)
    then show ?thesis using False l len(3) by simp
  qed
  have g: "find_gap False (sp s a) hint ?len = Some va" "va \<noteq> 0"
    using c f ok(2) by (auto simp: choose_va_def split: if_splits)
  have "gap_loop False (areas s a) ?c ?len = Some va"
    using g A(2) by (auto simp: find_gap_def Let_def split: if_splits)
  moreover have "paged (ar_end x)" if "x \<in> set (areas s a)" for x using A(1) that by (auto simp: areas_ok_def area_ok_def)
  ultimately have fr: "free_at (areas s a) va ?len" "paged va" "va = ?c \<or> va \<in> ar_end ` set (areas s a)" "va + ?len \<le> USER_MAX"
    using gap_loop_ends [of "areas s a" ?c False ?len] cl g(2) by auto
  have "unat va + unat ?len < 2 ^ 64"
    using fr(3)
  proof
    assume "va \<in> ar_end ` set (areas s a)"
    then have "va \<le> USER_MAX" using A(1) by (auto simp: areas_ok_def area_ok_def)
    then have "unat va < 2 ^ 63" by (simp add: word_le_nat_alt USER_MAX_def)
    then show ?thesis using l len(2) by simp
  qed (use cl in simp)
  then have e: "unat (va + ?len) = unat va + unat npages * 4096" using range_end [of va ?len] l by simp
  have "area_ok \<lparr>ar_start = va, ar_end = va + ?len, ar_prot = prot, ar_flags = flags, ar_obj = b, ar_offset = off\<rparr>"
    using e fr(2,4) len(1) f(2) by (simp add: area_ok_def word_less_nat_alt paged_def)
  moreover have "va + ?len \<le> ar_start x \<or> ar_end x \<le> va" if "x \<in> set (areas s a)" for x
    using fr(1) that by (auto simp: free_at_def not_less)
  ultimately show ?thesis using insert_area_ok [OF A(1)] by simp
qed

lemma map_object_ok:
  assumes ok: "spaces_ok s" "0 < a" "a < length (vm_spaces s)" and f: "\<not> has flags VM_AREA_FIXED" "\<not> has flags VM_AREA_GROWS"
    and len: "unat npages * 4096 < 2 ^ 63" "unat hint + unat npages * 4096 + 4096 < 2 ^ 64"
    and r: "as_map_object mem a hint b off npages prot flags s = Some (r, s')"
  shows "spaces_ok s' \<and> length (vm_spaces s') = length (vm_spaces s)"
proof (cases "npages = 0 \<or> \<not> mem \<or> (\<exists>e. choose_va a hint (page_size npages) flags s = Some (Inl e))")
  case True
  then show ?thesis using r ok(1) by (auto simp: as_map_object_def Let_def split: if_splits option.splits sum.splits)
next
  case False
  then obtain va where va: "choose_va a hint (page_size npages) flags s = Some (Inr va)"
    using r by (auto simp: as_map_object_def Let_def split: option.splits sum.splits)
  let ?n = "\<lparr>ar_start = va, ar_end = va + page_size npages, ar_prot = prot, ar_flags = flags, ar_obj = b, ar_offset = off\<rparr>"
  let ?s = "add_area a ?n s"
  have "0 < unat npages" using False by (simp add: unat_gt_0)
  then have n: "areas_ok (insert_area ?n (areas s a))" using chosen_ok [OF ok f _ len va] by blast
  have s1: "spaces_ok ?s" "length (vm_spaces ?s) = length (vm_spaces s)"
  proof -
    have "spaces_ok (vm_object_get b s)" using ok(1) spaces_ok_cong [OF object_spaces(1) [of b s]] by simp
    then show "spaces_ok ?s"
      unfolding add_area_def by (intro spaces_ok_set) (use n ok in \<open>auto simp: object_spaces spaces_ok_def\<close>)
    show "length (vm_spaces ?s) = length (vm_spaces s)" by (simp add: add_area_def object_spaces)
  qed
  obtain r1 s1' where p: "populate a va b off prot 0 (unat npages) ?s = (r1, s1')" by fastforce
  have s2: "spaces_ok s1'" "length (vm_spaces s1') = length (vm_spaces s)"
    using s1 spaces_ok_cong [OF populate_same [OF p]] populate_same [OF p] by auto
  have "spaces_ok (set_space a (\<lambda>x. x\<lparr>as_rss := as_rss x + npages\<rparr>) s1')"
    by (rule spaces_ok_set [OF s2(1)]) (use s2 in \<open>auto simp: spaces_ok_def\<close>)
  then show ?thesis
    using r va False p s1 s2 by (auto simp: as_map_object_def Let_def split: if_splits sum.splits)
qed

lemma map_anon_ok:
  assumes "spaces_ok s" "0 < a" "a < length (vm_spaces s)" "unat len < 2 ^ 62" "unat hint + unat len + 8192 < 2 ^ 64"
    and r: "as_map_anon mem mem' a hint len prot s = Some (r, s')"
  shows "spaces_ok s' \<and> length (vm_spaces s') = length (vm_spaces s)"
proof -
  let ?n = "(len + 4095) div 4096"
  have "unat (len + 4095) = unat len + 4095" using assms(4) by (intro range_end [of len 4095, simplified]) simp
  then have n: "unat ?n * 4096 \<le> unat len + 4095" by (simp add: unat_div)
  obtain x s1 where x: "vm_object_anon mem ?n s = (x, s1)" by fastforce
  have same: "vm_spaces s1 = vm_spaces s" by (rule vm_object_anon_same [OF x])
  show ?thesis
  proof (cases x)
    case None
    then show ?thesis using r x same assms(1) spaces_ok_cong [OF same] by (simp add: as_map_anon_def Let_def)
  next
    case (Some y)
    then obtain s2 where m: "as_map_object mem' a hint y 0 ?n prot 0 s1 = Some (r, s2)" "s' = vm_object_put y s2"
      using r x by (auto simp: as_map_anon_def Let_def)
    have "spaces_ok s2 \<and> length (vm_spaces s2) = length (vm_spaces s1)"
      by (rule map_object_ok [OF _ assms(2) _ _ _ _ _ m(1)])
        (use assms same n spaces_ok_cong [OF same] in \<open>auto simp: has_def\<close>)
    then show ?thesis using m(2) same spaces_ok_cong [OF object_spaces(2)] by (simp add: object_spaces)
  qed
qed

lemma set_space_spaces:
  "vm_spaces s' = vm_spaces s \<Longrightarrow> vm_spaces (set_space a f s') = vm_spaces (set_space a f s)"
  by (simp add: set_space_def)

lemma unmap_areas_ok:
  assumes "unmap_areas a va stop kept as s = (r, s')" "spaces_ok s" "a < length (vm_spaces s)" "areas s a = kept @ as"
  shows "spaces_ok s' \<and> length (vm_spaces s') = length (vm_spaces s)"
  using assms
proof (induction a va stop kept as s rule: unmap_areas.induct)
  case (2 a va stop kept ar as s)
  consider (skip) "ar_end ar \<le> va \<or> stop \<le> ar_start ar" | (part) "\<not> (ar_end ar \<le> va \<or> stop \<le> ar_start ar)" "ar_start ar < va \<or> stop < ar_end ar"
    | (all) "\<not> (ar_end ar \<le> va \<or> stop \<le> ar_start ar)" "\<not> (ar_start ar < va \<or> stop < ar_end ar)" by blast
  then show ?case
  proof cases
    case skip
    then show ?thesis using 2 by simp
  next
    case part
    then show ?thesis using 2 by simp
  next
    case all
    define size where "size = ar_end ar - ar_start ar"
    define m where "m = s\<lparr>vm_mc := arch_unmap (as_pgtable (sp s a)) (ar_start ar) (unat size) (vm_mc s)\<rparr>"
    define s1 where "s1 = set_space a (\<lambda>x. x\<lparr>as_rss := as_rss x - drop_bit 12 size, as_areas := kept @ as\<rparr>) m"
    have sp1: "vm_spaces m = vm_spaces s" by (simp add: m_def)
    have "spaces_ok m" using 2(4) spaces_ok_cong [OF sp1] by simp
    then have "spaces_ok s1"
    proof -
      assume m: "spaces_ok m"
      have "areas_ok (kept @ as)" if "0 < a" using 2(4,5) that areas_ok_drop [of kept ar as] unfolding spaces_ok_def 2(6) [symmetric] by blast
      then show "spaces_ok s1" unfolding s1_def by (intro spaces_ok_set [OF m]) simp
    qed
    then have "spaces_ok (vm_object_put (ar_obj ar) s1)" using spaces_ok_cong [OF object_spaces(2)] by simp
    moreover have "unmap_areas a va stop kept as (vm_object_put (ar_obj ar) s1) = (r, s')"
      using 2(3) all by (simp add: Let_def s1_def m_def size_def)
    moreover have "areas (vm_object_put (ar_obj ar) s1) a = kept @ as" "length (vm_spaces s1) = length (vm_spaces s)"
      using 2(5) sp1 by (simp_all add: object_spaces s1_def set_space_areas)
    ultimately show ?thesis
      using 2(2) [OF all, of size m s1] 2(5) unfolding size_def m_def s1_def by (simp add: object_spaces)
  qed
qed simp

lemma unmap_ok:
  "as_unmap a va len s = (r, s') \<Longrightarrow> spaces_ok s \<Longrightarrow> a < length (vm_spaces s) \<Longrightarrow>
    spaces_ok s' \<and> length (vm_spaces s') = length (vm_spaces s)"
  using unmap_areas_ok [of a va "va + len" "[]" "areas s a" s r s'] by (simp add: as_unmap_def)

lemma change_places:
  assumes "\<And>a. ar_start (f a) = ar_start a \<and> ar_end (f a) = ar_end a \<and> ar_flags (f a) = ar_flags a"
  shows "places (change_area P f as) = places as"
  using assms by (induction as) (auto simp: places_def)

lemma protect_ok:
  assumes "as_protect a va len prot s = (r, s')" "spaces_ok s"
  shows "spaces_ok s' \<and> length (vm_spaces s') = length (vm_spaces s)"
proof -
  let ?s = "set_space a (\<lambda>x. x\<lparr>as_areas := change_area (covers va) (\<lambda>ar. ar\<lparr>ar_prot := prot\<rparr>) (as_areas x)\<rparr>) s"
  have "places (change_area (covers va) (\<lambda>ar. ar\<lparr>ar_prot := prot\<rparr>) as) = places as" for as
    by (rule change_places) simp
  then have A: "areas_ok (change_area (covers va) (\<lambda>ar. ar\<lparr>ar_prot := prot\<rparr>) as) = areas_ok as" for as
    by (rule areas_ok_places)
  have "spaces_ok ?s"
  proof (rule spaces_ok_set [OF assms(2)])
    assume "0 < a" "a < length (vm_spaces s)"
    then have "areas_ok (areas s a)" using assms(2) unfolding spaces_ok_def by blast
    then show "areas_ok (as_areas ((sp s a)\<lparr>as_areas := change_area (covers va) (\<lambda>ar. ar\<lparr>ar_prot := prot\<rparr>) (areas s a)\<rparr>)) \<and>
      as_mmap_base ((sp s a)\<lparr>as_areas := change_area (covers va) (\<lambda>ar. ar\<lparr>ar_prot := prot\<rparr>) (areas s a)\<rparr>) = as_mmap_base (sp s a)"
      by (simp add: A)
  qed
  moreover have same: "vm_spaces s' = vm_spaces ?s" using assms(1) unfolding as_protect_def Let_def by (rule on_machine_same)
  ultimately show ?thesis using spaces_ok_cong [OF same] by simp
qed

lemma create_ok:
  assumes "as_create mem s = (r, s')" "spaces_ok s"
  shows "spaces_ok s' \<and> length (vm_spaces s) \<le> length (vm_spaces s') \<and>
    (\<forall>d. r = Some d \<longrightarrow> d = length (vm_spaces s) \<and> d < length (vm_spaces s') \<and> areas s' d = []) \<and>
    (\<forall>k < length (vm_spaces s). sp s' k = sp s k)"
proof (cases "mem \<and> fst (on_machine arch_pgtable_create s) \<noteq> 0")
  case True
  obtain pt s1 where p: "on_machine arch_pgtable_create s = (pt, s1)" by fastforce
  have same: "vm_spaces s1 = vm_spaces s" by (rule on_machine_same [OF p])
  let ?new = "\<lparr>as_pgtable = pt, as_areas = [], as_mmap_base = USER_MMAP_BASE, as_brk = USER_MIN, as_refs = 1, as_rss = 0,
    as_id = vm_next_id s1, as_live = True\<rparr>"
  have s': "vm_spaces s' = vm_spaces s @ [?new]" "r = Some (length (vm_spaces s))"
    using assms(1) True p same by (auto simp: as_create_def)
  have "spaces_ok s'"
    unfolding spaces_ok_def s'(1)
  proof (intro allI impI)
    fix k
    assume k: "0 < k" "k < length (vm_spaces s @ [?new])"
    show "areas_ok (as_areas ((vm_spaces s @ [?new]) ! k)) \<and> as_mmap_base ((vm_spaces s @ [?new]) ! k) = USER_MMAP_BASE"
      using assms(2) k by (cases "k < length (vm_spaces s)") (auto simp: spaces_ok_def nth_append not_less)
  qed
  then show ?thesis by (simp add: s' nth_append)
next
  case False
  then have same: "vm_spaces s' = vm_spaces s" and "r = None"
    using assms(1) by (auto simp: as_create_def dest: on_machine_same split: if_splits prod.splits)
  then show ?thesis using assms(2) spaces_ok_cong [OF same] by auto
qed

lemma destroy_ok:
  assumes "spaces_ok s"
  shows "spaces_ok (as_destroy a s) \<and> length (vm_spaces (as_destroy a s)) = length (vm_spaces s)"
proof -
  have put: "vm_spaces (fold (\<lambda>ar. vm_object_put (ar_obj ar)) as s) = vm_spaces s" for as s
    by (induction as arbitrary: s) (simp_all add: object_spaces)
  let ?s1 = "set_space a (\<lambda>x. x\<lparr>as_refs := as_refs x - 1\<rparr>) s"
  have s1: "spaces_ok ?s1" by (rule spaces_ok_set [OF assms]) (use assms in \<open>auto simp: spaces_ok_def\<close>)
  define s2 where "s2 = (fold (\<lambda>ar. vm_object_put (ar_obj ar)) (areas ?s1 a) ?s1)
    \<lparr>vm_mc := arch_pgtable_destroy (as_pgtable (sp (fold (\<lambda>ar. vm_object_put (ar_obj ar)) (areas ?s1 a) ?s1) a))
       (vm_mc (fold (\<lambda>ar. vm_object_put (ar_obj ar)) (areas ?s1 a) ?s1))\<rparr>"
  have same: "vm_spaces s2 = vm_spaces ?s1" by (simp add: s2_def put)
  have "spaces_ok s2" using s1 spaces_ok_cong [OF same] by simp
  then have "spaces_ok (set_space a (\<lambda>x. x\<lparr>as_areas := [], as_live := False\<rparr>) s2)"
    by (rule spaces_ok_set) (auto simp: spaces_ok_def)
  then show ?thesis using s1 same assms by (auto simp: as_destroy_def Let_def s2_def)
qed

lemma add_area_spaces: "vm_spaces (add_area a n s) = vm_spaces (set_space a (\<lambda>x. x\<lparr>as_areas := insert_area n (as_areas x)\<rparr>) s)"
  unfolding add_area_def by (rule set_space_spaces) (rule object_spaces)

lemma add_area_ok:
  assumes "spaces_ok s" "areas_ok (insert_area n (areas s a))"
  shows "spaces_ok (add_area a n s)"
  using spaces_ok_set [OF assms(1), of a "\<lambda>x. x\<lparr>as_areas := insert_area n (as_areas x)\<rparr>"] assms(2)
    spaces_ok_cong [OF add_area_spaces] by simp

lemma clone_areas_ok:
  assumes "spaces_ok s" "dst < length (vm_spaces s)" "0 < dst" "areas_ok as"
    "\<forall>x \<in> set (areas s dst). \<forall>y \<in> set as. ar_end x \<le> ar_start y"
  shows "spaces_ok (clone_areas src dst mems as s) \<and> length (vm_spaces (clone_areas src dst mems as s)) = length (vm_spaces s)"
  using assms
proof (induction src dst mems as s rule: clone_areas.induct)
  case (1 src dst mems ar as s)
  let ?ro = "ar_prot ar AND NOT RK_PROT_WRITE"
  have ins: "spaces_ok (add_area dst n s)" "length (vm_spaces (add_area dst n s)) = length (vm_spaces s)"
    "\<forall>x \<in> set (areas (add_area dst n s) dst). \<forall>y \<in> set as. ar_end x \<le> ar_start y"
    if "places [n] = places [ar]" for n
  proof -
    have e: "ar_start n = ar_start ar" "ar_end n = ar_end ar" "area_ok n = area_ok ar" using that by (auto simp: places_def area_ok_def)
    have "areas_ok (areas s dst)" using 1(3-5) by (simp add: spaces_ok_def)
    then have "areas_ok (insert_area n (areas s dst))"
      by (rule insert_area_ok) (use 1(6,7) e in \<open>auto simp: areas_ok_Cons\<close>)
    then show "spaces_ok (add_area dst n s)" using add_area_ok 1(3) by blast
    show "length (vm_spaces (add_area dst n s)) = length (vm_spaces s)" by (simp add: add_area_spaces)
    have "set (areas (add_area dst n s) dst) = insert n (set (areas s dst))"
      using 1(4) by (simp add: add_area_spaces set_space_areas)
    then show "\<forall>x \<in> set (areas (add_area dst n s) dst). \<forall>y \<in> set as. ar_end x \<le> ar_start y"
      using 1(6,7) e by (auto simp: areas_ok_Cons)
  qed
  have as: "areas_ok as" using 1(6) by (simp add: areas_ok_Cons)
  show ?case
  proof (cases "has (ar_flags ar) VM_AREA_SHARED")
    case True
    then show ?thesis using 1(1) [OF True] ins [of ar] 1(4,5) as by simp
  next
    case False
    let ?s = "add_area dst (ar\<lparr>ar_prot := ?ro\<rparr>) s"
    let ?s' = "snd (on_machine (arch_protect (as_pgtable (sp ?s src)) (ar_start ar) (unat (ar_end ar - ar_start ar)) ?ro) ?s)"
    have same: "vm_spaces ?s' = vm_spaces ?s" by (rule on_machine_spaces)
    have "places [ar\<lparr>ar_prot := ?ro\<rparr>] = places [ar]" by (simp add: places_def)
    note I = ins [OF this]
    have "spaces_ok (clone_areas src dst mems as ?s') \<and> length (vm_spaces (clone_areas src dst mems as ?s')) = length (vm_spaces ?s')"
      by (rule 1(2) [OF False refl refl]) (use I 1(4,5) as same spaces_ok_cong [OF same] in auto)
    then show ?thesis using False I(2) same by (simp add: Let_def)
  qed
qed simp_all

lemma clone_ok:
  assumes "as_clone mem mems src s = (r, s')" "spaces_ok s" "0 < src" "src < length (vm_spaces s)"
  shows "spaces_ok s' \<and> length (vm_spaces s) \<le> length (vm_spaces s')"
proof -
  obtain d s1 where c: "as_create mem s = (d, s1)" by fastforce
  note C = create_ok [OF c assms(2)]
  show ?thesis
  proof (cases d)
    case None
    then show ?thesis using assms(1) c C by (simp add: as_clone_def)
  next
    case (Some dst)
    have s': "s' = clone_areas src dst mems (areas s1 src) s1" using assms(1) c Some by (simp add: as_clone_def)
    have "sp s1 src = sp s src" using C assms(4) by blast
    then have as: "areas_ok (areas s1 src)" using assms(2-4) by (simp add: spaces_ok_def)
    have d: "0 < dst" "dst < length (vm_spaces s1)" "areas s1 dst = []" using C Some assms(4) by auto
    have "spaces_ok s' \<and> length (vm_spaces s') = length (vm_spaces s1)"
      unfolding s' by (rule clone_areas_ok) (use C d as in auto)
    then show ?thesis using C by simp
  qed
qed

lemma position_some: "position P xs = Some i \<Longrightarrow> i < length xs \<and> P (xs ! i)"
  by (induction xs arbitrary: i) (auto split: if_splits)

lemma position_none: "position P xs = None \<longleftrightarrow> (\<forall>x \<in> set xs. \<not> P x)"
  by (induction xs) auto

lemma fault_area_ok:
  assumes "areas_ok as" "fault_area pg as = Some (i, as')"
  shows "as' = as \<and> i < length as \<and> covers pg (as ! i)"
proof -
  have "position (grows_to pg) as = None" using assms(1) by (auto simp: position_none areas_ok_def area_ok_def grows_to_def)
  then show ?thesis using assms(2) position_some [of "covers pg" as i] by (auto simp: fault_area_def split: option.splits)
qed

lemma places_update: "i < length as \<Longrightarrow> places [x] = places [as ! i] \<Longrightarrow> places (as[i := x]) = places as"
  by (simp add: places_def map_update list_update_same_conv)

lemma cow_fault_ok:
  assumes c: "cow_fault mem a i (areas s a ! i) pg s = (r, s')" and ok: "spaces_ok s" and i: "i < length (areas s a)"
  shows "spaces_ok s' \<and> length (vm_spaces s') = length (vm_spaces s)"
proof (cases "vm_spaces s' = vm_spaces s")
  case True
  then show ?thesis using ok spaces_ok_cong [OF True] by simp
next
  case False
  let ?ar = "areas s a ! i"
  obtain old s1 where p1: "vm_object_page (ar_obj ?ar) (page_index ?ar pg) s = (old, s1)" by fastforce
  obtain fresh s2 where p2: "on_machine page_alloc s1 = (fresh, s2)" by fastforce
  define s3 where "s3 = s2\<lparr>vm_mc := copy_frame fresh old (vm_mc s2)\<rparr>"
  obtain x s4 where p4: "vm_object_anon mem (of_nat (vo_npages (ob s3 (ar_obj ?ar)))) s3 = (x, s4)" by fastforce
  have same: "vm_spaces s4 = vm_spaces s"
    using vm_object_page_same [OF p1] on_machine_same [OF p2] vm_object_anon_same [OF p4] by (simp add: s3_def)
  have nz: "fresh \<noteq> 0" "\<not> vo_refs (ob s (ar_obj ?ar)) \<le> 1" "x \<noteq> None"
    using c False p1 p2 p4 same on_machine_same [OF p2] vm_object_page_same [OF p1]
    by (auto simp: cow_fault_def Let_def s3_def split: if_splits option.splits)
  then obtain priv where x: "x = Some priv" by blast
  let ?new = "?ar\<lparr>ar_obj := priv, ar_prot := ar_prot ?ar OR RK_PROT_WRITE\<rparr>"
  have s': "vm_spaces s' = vm_spaces (set_space a (\<lambda>x. x\<lparr>as_areas := (as_areas x)[i := ?new]\<rparr>) s4)"
    using c nz p1 p2 p4 [unfolded s3_def] x
    by (auto simp: cow_fault_def Let_def on_machine_spaces set_space_def object_spaces set_obj_spaces)
  have "areas_ok ((areas s a)[i := ?new]) = areas_ok (areas s a)"
    by (rule areas_ok_places, rule places_update [OF i]) (simp add: places_def)
  then have "spaces_ok (set_space a (\<lambda>x. x\<lparr>as_areas := (as_areas x)[i := ?new]\<rparr>) s)"
    by (intro spaces_ok_set [OF ok]) (use ok in \<open>simp add: spaces_ok_def\<close>)
  moreover have e: "vm_spaces s' = vm_spaces (set_space a (\<lambda>x. x\<lparr>as_areas := (as_areas x)[i := ?new]\<rparr>) s)"
    using s' set_space_spaces [OF same] by simp
  ultimately show ?thesis using spaces_ok_cong [OF e] by simp
qed

lemma fault_ok:
  assumes f: "vm_handle_fault mem a va access s = (r, s')" and ok: "spaces_ok s" "0 < a" "a < length (vm_spaces s)"
  shows "spaces_ok s' \<and> length (vm_spaces s') = length (vm_spaces s)"
proof (cases "fault_area (page_down va) (areas s a)")
  case None
  then show ?thesis using f ok(1) by (simp add: vm_handle_fault_def)
next
  case (Some x)
  obtain i as' where x: "x = (i, as')" by (cases x)
  let ?pg = "page_down va"
  have as: "areas_ok (areas s a)" using ok by (simp add: spaces_ok_def)
  have A: "as' = areas s a" "i < length (areas s a)" using fault_area_ok [OF as Some [unfolded x]] by auto
  have same: "set_space a (\<lambda>x. x\<lparr>as_areas := areas s a\<rparr>) s = s" by (simp add: set_space_def)
  let ?ar = "areas s a ! i"
  obtain pa s1 where p: "vm_object_page (ar_obj ?ar) (page_index ?ar ?pg) s = (pa, s1)" by fastforce
  obtain e s2 where m: "on_machine (arch_map (as_pgtable (sp s1 a)) ?pg pa 4096 (ar_prot ?ar)) s1 = (e, s2)" by fastforce
  have s1: "vm_spaces s1 = vm_spaces s" by (rule vm_object_page_same [OF p])
  have s2: "vm_spaces s2 = vm_spaces s" using on_machine_same [OF m] s1 by simp
  have "spaces_ok (set_space a (\<lambda>x. x\<lparr>as_rss := as_rss x + 1\<rparr>) s2)"
    by (rule spaces_ok_set) (use ok(1) spaces_ok_cong [OF s2] in \<open>auto simp: spaces_ok_def\<close>)
  moreover have "s' = s \<or> s' = s1 \<or> s' = s2 \<or> s' = set_space a (\<lambda>x. x\<lparr>as_rss := as_rss x + 1\<rparr>) s2 \<or>
      cow_fault mem a i ?ar ?pg s = (r, s')"
    using f Some x A(1) same p m
    by (auto simp: vm_handle_fault_def Let_def split: if_splits sum.splits)
  ultimately show ?thesis
    using ok(1) spaces_ok_cong [OF s1] spaces_ok_cong [OF s2] s1 s2 cow_fault_ok [OF _ ok(1) A(2)] by auto
qed

section \<open>Sequences of operations\<close>

datatype vm_op =
    VCreate bool
  | VDestroy nat
  | VClone bool "bool list" nat
  | VAnon bool u64
  | VPhys bool u64 u64
  | VGet nat
  | VPut nat
  | VMapObject bool nat u64 nat u64 u64 u32 u32
  | VMapAnon bool bool nat u64 u64 u32
  | VUnmap nat u64 u64
  | VProtect nat u64 nat u32
  | VFault bool nat u64 u32

text \<open>\<open>None\<close>: the operation does not return.\<close>

fun do_vm :: "vm_op \<Rightarrow> vmm \<Rightarrow> vmm option" where
  "do_vm (VCreate mem) s = Some (snd (as_create mem s))"
| "do_vm (VDestroy a) s = Some (as_destroy a s)"
| "do_vm (VClone mem mems a) s = Some (snd (as_clone mem mems a s))"
| "do_vm (VAnon mem n) s = Some (snd (vm_object_anon mem n s))"
| "do_vm (VPhys mem base n) s = Some (snd (vm_object_phys mem base n s))"
| "do_vm (VGet b) s = Some (vm_object_get b s)"
| "do_vm (VPut b) s = Some (vm_object_put b s)"
| "do_vm (VMapObject mem a hint b off n prot flags) s = map_option snd (as_map_object mem a hint b off n prot flags s)"
| "do_vm (VMapAnon mem mem' a hint len prot) s = map_option snd (as_map_anon mem mem' a hint len prot s)"
| "do_vm (VUnmap a va len) s = Some (snd (as_unmap a va len s))"
| "do_vm (VProtect a va len prot) s = Some (snd (as_protect a va len prot s))"
| "do_vm (VFault mem a va access) s = Some (snd (vm_handle_fault mem a va access s))"

text \<open>Operations on user spaces that neither force an address, nor make a stack, nor wrap.\<close>

fun vm_allowed :: "vm_op \<Rightarrow> vmm \<Rightarrow> bool" where
  "vm_allowed (VClone mem mems a) s \<longleftrightarrow> 0 < a \<and> a < length (vm_spaces s)"
| "vm_allowed (VMapObject mem a hint b off n prot flags) s \<longleftrightarrow> 0 < a \<and> a < length (vm_spaces s) \<and>
     \<not> has flags VM_AREA_FIXED \<and> \<not> has flags VM_AREA_GROWS \<and> unat n < 2 ^ 50 \<and> unat hint < 2 ^ 63"
| "vm_allowed (VMapAnon mem mem' a hint len prot) s \<longleftrightarrow> 0 < a \<and> a < length (vm_spaces s) \<and> unat len < 2 ^ 62 \<and> unat hint < 2 ^ 63"
| "vm_allowed (VUnmap a va len) s \<longleftrightarrow> 0 < a \<and> a < length (vm_spaces s)"
| "vm_allowed (VFault mem a va access) s \<longleftrightarrow> 0 < a \<and> a < length (vm_spaces s)"
| "vm_allowed op s \<longleftrightarrow> True"

fun vm_run :: "vm_op list \<Rightarrow> vmm \<Rightarrow> vmm option" where
  "vm_run [] s = Some s"
| "vm_run (op # ops) s = (if vm_allowed op s then do_vm op s \<bind> vm_run ops else None)"

lemma do_vm_ok:
  assumes "spaces_ok s" "vm_allowed op s" "do_vm op s = Some s'"
  shows "spaces_ok s'"
proof (cases op)
  case (VMapObject mem a hint b off n prot flags)
  have "unat n * 4096 < 2 ^ 63 \<and> unat hint + unat n * 4096 + 4096 < 2 ^ 64" using assms(2) VMapObject by auto
  then show ?thesis using assms VMapObject map_object_ok [of s a flags n hint mem b off prot] by auto
next
  case (VMapAnon mem mem' a hint len prot)
  have "unat hint + unat len + 8192 < 2 ^ 64" using assms(2) VMapAnon by auto
  then show ?thesis using assms VMapAnon map_anon_ok [of s a len hint mem mem' prot] by auto
next
  case (VCreate mem)
  then show ?thesis using assms create_ok [of mem s "fst (as_create mem s)" s'] by (auto simp: prod_eq_iff)
next
  case (VClone mem mems a)
  then show ?thesis using assms clone_ok [of mem mems a s "fst (as_clone mem mems a s)" s'] by (auto simp: prod_eq_iff)
next
  case (VUnmap a va len)
  then show ?thesis using assms unmap_ok [of a va len s "fst (as_unmap a va len s)" s'] by (auto simp: prod_eq_iff)
next
  case (VProtect a va len prot)
  then show ?thesis using assms protect_ok [of a va len prot s "fst (as_protect a va len prot s)" s'] by (auto simp: prod_eq_iff)
next
  case (VFault mem a va access)
  then show ?thesis using assms fault_ok [of mem a va access s "fst (vm_handle_fault mem a va access s)" s'] by (auto simp: prod_eq_iff)
qed (use assms destroy_ok object_spaces [THEN spaces_ok_cong] in auto)

lemma vm_run_ok: "vm_run ops s = Some s' \<Longrightarrow> spaces_ok s \<Longrightarrow> spaces_ok s'"
  by (induction ops arbitrary: s) (auto simp: bind_eq_Some_conv split: if_splits dest: do_vm_ok)


end
