(* ===== verification/RK_PagingTree.thy ===== *)
theory RK_PagingTree
  imports RK_Paging RK_PmmBoot
begin

unbundle bit_operations_syntax

text \<open>
  The tables of \<open>RK_Paging\<close> as a tree, the finite map from pages to frames and permissions that
  the tree stands for, and what one walk and one new entry do to them.
\<close>

section \<open>Bits of an entry\<close>

named_theorems pte_bits

lemma has_bit: "n < LENGTH('a) \<Longrightarrow> has (e :: 'a::len word) (push_bit n 1) \<longleftrightarrow> bit e n"
  unfolding has_def by (metis and_exp_eq_0_iff_not_bit push_bit_of_1)

lemma has_flags [simp]:
  "has e PTE_PRESENT \<longleftrightarrow> bit e 0" "has e PTE_WRITE \<longleftrightarrow> bit e 1" "has e PTE_USER \<longleftrightarrow> bit e 2" "has e PTE_PCD \<longleftrightarrow> bit e 4"
  "has e PTE_HUGE \<longleftrightarrow> bit e 7" "has e PTE_NX \<longleftrightarrow> bit e 63"
  unfolding PTE_PRESENT_def PTE_WRITE_def PTE_USER_def PTE_PCD_def PTE_HUGE_def PTE_NX_def
  by (rule has_bit; simp)+

lemma bit_addr_mask [pte_bits]: "bit PTE_ADDR_MASK n \<longleftrightarrow> 12 \<le> n \<and> n < 52"
proof -
  have "PTE_ADDR_MASK = push_bit 12 (mask 40)" by (simp add: PTE_ADDR_MASK_def mask_eq_exp_minus_1)
  then show ?thesis unfolding \<open>PTE_ADDR_MASK = push_bit 12 (mask 40)\<close> by (auto simp: bit_simps)
qed

lemma single_bit: "n < 64 \<Longrightarrow> bit (push_bit n (1 :: u64)) m \<longleftrightarrow> m = n"
  by (auto simp: bit_simps)

lemma bit_flags [pte_bits]:
  "bit PTE_PRESENT n \<longleftrightarrow> n = 0" "bit PTE_WRITE n \<longleftrightarrow> n = 1" "bit PTE_USER n \<longleftrightarrow> n = 2" "bit PTE_PWT n \<longleftrightarrow> n = 3"
  "bit PTE_PCD n \<longleftrightarrow> n = 4" "bit PTE_HUGE n \<longleftrightarrow> n = 7" "bit PTE_GLOBAL n \<longleftrightarrow> n = 8" "bit PTE_NX n \<longleftrightarrow> n = 63"
  unfolding PTE_PRESENT_def PTE_WRITE_def PTE_USER_def PTE_PWT_def PTE_PCD_def PTE_HUGE_def PTE_GLOBAL_def PTE_NX_def
  by (rule single_bit; simp)+

lemma pt_index_less [simp]: "pt_index l va < 512"
proof -
  have "drop_bit (12 + 9 * l) va AND 0x1FF = take_bit 9 (drop_bit (12 + 9 * l) va)"
    by (simp add: take_bit_eq_mask mask_eq_exp_minus_1)
  then have "unat (drop_bit (12 + 9 * l) va AND 0x1FF) < 2 ^ 9"
    using take_bit_nat_less_exp [of 9 "unat (drop_bit (12 + 9 * l) va)"] by (simp add: unsigned_take_bit_eq)
  then show ?thesis by (simp add: pt_index_def)
qed

text \<open>The bits of an address below the one that selects an entry at level \<open>l\<close>, in whole pages.\<close>

definition page_bits :: "nat \<Rightarrow> u64 \<Rightarrow> u64" where
  "page_bits l va = va AND (mask (12 + 9 * l) AND NOT (mask 12))"

lemma bit_page_bits [pte_bits]: "bit (page_bits l va) n \<longleftrightarrow> bit va n \<and> 12 \<le> n \<and> n < 12 + 9 * l"
  by (cases "n < 64") (auto simp: page_bits_def bit_simps dest: bit_imp_le_length)

text \<open>What a leaf at level \<open>l\<close> gives a page: its frame, and the entry's flags.\<close>

definition leaf_view :: "nat \<Rightarrow> u64 \<Rightarrow> u64 \<Rightarrow> u64 \<times> u64" where
  "leaf_view l e va = ((e AND PTE_ADDR_MASK) OR page_bits l va, e AND NOT PTE_ADDR_MASK AND NOT PTE_HUGE)"

definition entry_aligned :: "nat \<Rightarrow> u64 \<Rightarrow> bool" where
  "entry_aligned l e \<longleftrightarrow> (\<forall>n. 12 \<le> n \<and> n < 12 + 9 * l \<longrightarrow> \<not> bit e n)"

section \<open>Splitting a large page\<close>

lemma index_bits: "n < 64 \<Longrightarrow> bit (of_nat (pt_index l va) * push_bit (12 + 9 * l) (1 :: u64)) n \<longleftrightarrow>
    12 + 9 * l \<le> n \<and> n < 12 + 9 * Suc l \<and> bit va n"
proof -
  assume n: "n < 64"
  have "of_nat (pt_index l va) = drop_bit (12 + 9 * l) va AND (0x1FF :: u64)"
    by (simp add: pt_index_def)
  moreover have "(0x1FF :: u64) = mask 9" by (simp add: mask_eq_exp_minus_1)
  ultimately have "of_nat (pt_index l va) * push_bit (12 + 9 * l) 1 = push_bit (12 + 9 * l) (take_bit 9 (drop_bit (12 + 9 * l) va))"
    by (simp add: push_bit_eq_mult take_bit_eq_mask)
  then show ?thesis using n by (auto simp: bit_simps)
qed

lemma split_child_bit:
  assumes l: "l < 2" and a: "entry_aligned (Suc l) e" and n: "n < 64"
  shows "bit (split_child e (Suc l) (pt_index l va)) n \<longleftrightarrow>
    (if n = 7 then l = 1 else bit e n \<or> 12 + 9 * l \<le> n \<and> n < 12 + 9 * Suc l \<and> bit va n)"
proof -
  define step :: u64 where "step = push_bit (12 + 9 * l) 1"
  define base where "base = e AND PTE_ADDR_MASK AND NOT (step * 512 - 1)"
  define x where "x = of_nat (pt_index l va) * step"
  have st: "(if Suc l = 2 then push_bit 21 1 else 4096) = step"
    using l by (cases l) (auto simp: step_def less_Suc_eq)
  have "step * 512 - 1 = mask (12 + 9 * Suc l)"
    using l by (cases l) (auto simp: step_def mask_eq_exp_minus_1 less_Suc_eq)
  then have b: "bit base k \<longleftrightarrow> bit e k \<and> 12 + 9 * Suc l \<le> k \<and> k < 52" if "k < 64" for k
    using that by (auto simp: base_def bit_simps pte_bits)
  have xb: "bit x k \<longleftrightarrow> 12 + 9 * l \<le> k \<and> k < 12 + 9 * Suc l \<and> bit va k" if "k < 64" for k
    unfolding x_def step_def by (rule index_bits [OF that])
  have "base AND x = 0"
    by (rule bit_word_eqI) (use b xb in \<open>auto simp: bit_and_iff\<close>)
  then have s: "base + x = base OR x" by (rule disjunctive_add_eq_or)
  have "split_child e (Suc l) (pt_index l va) =
      (base + x) OR (if Suc l = 2 then e AND NOT PTE_ADDR_MASK AND NOT PTE_HUGE OR PTE_HUGE else e AND NOT PTE_ADDR_MASK AND NOT PTE_HUGE)"
    unfolding split_child_def Let_def st base_def x_def ..
  moreover have "\<not> bit e n" if "12 \<le> n" "n < 12 + 9 * Suc l"
    using a that by (simp add: entry_aligned_def)
  ultimately show ?thesis
    using n l b [OF n] xb [OF n] by (auto simp: s bit_simps pte_bits)
qed

lemma split_child_view:
  assumes "l < 2" "entry_aligned (Suc l) e" "bit e 0" "bit e 7"
  shows "leaf_view l (split_child e (Suc l) (pt_index l va)) va = leaf_view (Suc l) e va"
    "bit (split_child e (Suc l) (pt_index l va)) 0" "bit (split_child e (Suc l) (pt_index l va)) 7 \<longleftrightarrow> l = 1"
    "entry_aligned l (split_child e (Suc l) (pt_index l va))"
proof -
  note B = split_child_bit [OF assms(1,2)]
  let ?c = "split_child e (Suc l) (pt_index l va)"
  have "bit ((?c AND PTE_ADDR_MASK) OR page_bits l va) n = bit ((e AND PTE_ADDR_MASK) OR page_bits (Suc l) va) n" if "n < 64" for n
    using B [OF that] assms(1) by (auto simp: bit_simps pte_bits)
  moreover have "bit (?c AND NOT PTE_ADDR_MASK AND NOT PTE_HUGE) n = bit (e AND NOT PTE_ADDR_MASK AND NOT PTE_HUGE) n" if "n < 64" for n
    using B [OF that] assms(1) that by (auto simp: bit_simps pte_bits)
  ultimately show "leaf_view l ?c va = leaf_view (Suc l) e va"
    unfolding leaf_view_def by (intro prod_eqI) (auto intro!: bit_word_eqI)
  show "bit ?c 0" "bit ?c 7 \<longleftrightarrow> l = 1" using B [of 0] B [of 7] assms(3) by simp_all
  show "entry_aligned l ?c"
    using B assms(1,2) by (auto simp: entry_aligned_def)
qed

section \<open>The tree of tables\<close>

text \<open>
  \<open>f\<close> is the contents of memory, \<open>t\<close> a table at level \<open>l\<close>, \<open>I\<close> the indices considered: all of them
  below the top, and there those of the part of the address space that is looked at (the top-level
  table also holds the recursive entry, and shares the kernel's half).
\<close>

type_synonym memory = "u64 \<Rightarrow> nat \<Rightarrow> u64"

definition link :: "u64 \<Rightarrow> bool" where
  "link e \<longleftrightarrow> bit e 0 \<and> \<not> bit e 7"

abbreviation full :: "nat set" where "full \<equiv> {..<512}"

fun foot :: "memory \<Rightarrow> nat \<Rightarrow> u64 \<Rightarrow> nat set \<Rightarrow> u64 set" where
  "foot f 0 t I = {t}"
| "foot f (Suc l) t I = insert t (\<Union>i \<in> {i \<in> I. link (f t i)}. foot f l (table_at (f t i)) full)"

fun tree_ok :: "memory \<Rightarrow> nat \<Rightarrow> u64 \<Rightarrow> nat set \<Rightarrow> bool" where
  "tree_ok f 0 t I \<longleftrightarrow> (\<forall>i \<in> I. bit (f t i) 0 \<longrightarrow> \<not> bit (f t i) 7)"
| "tree_ok f (Suc l) t I \<longleftrightarrow>
     (\<forall>i \<in> I. bit (f t i) 0 \<longrightarrow> bit (f t i) 7 \<longrightarrow> l < 2 \<and> entry_aligned (Suc l) (f t i)) \<and>
     (\<forall>i \<in> I. link (f t i) \<longrightarrow>
        tree_ok f l (table_at (f t i)) full \<and> t \<notin> foot f l (table_at (f t i)) full \<and>
        (\<forall>j \<in> I. j \<noteq> i \<longrightarrow> link (f t j) \<longrightarrow>
           foot f l (table_at (f t i)) full \<inter> foot f l (table_at (f t j)) full = {}))"

fun tview :: "memory \<Rightarrow> nat \<Rightarrow> u64 \<Rightarrow> u64 \<Rightarrow> (u64 \<times> u64) option" where
  "tview f 0 t va =
     (let e = f t (pt_index 0 va) in if bit e 0 then Some (leaf_view 0 e va) else None)"
| "tview f (Suc l) t va =
     (let e = f t (pt_index (Suc l) va) in
      if \<not> bit e 0 then None
      else if bit e 7 then Some (leaf_view (Suc l) e va)
      else tview f l (table_at e) va)"

lemma foot_self: "t \<in> foot f l t I"
  by (cases l) simp_all

lemma tree_cong:
  assumes "\<And>x. x \<in> foot f l t I \<Longrightarrow> f' x = f x"
  shows "foot f' l t I = foot f l t I" "tree_ok f' l t I = tree_ok f l t I"
    "pt_index l va \<in> I \<Longrightarrow> tview f' l t va = tview f l t va"
proof -
  have "foot f' l t I = foot f l t I \<and> tree_ok f' l t I = tree_ok f l t I \<and>
      (pt_index l va \<in> I \<longrightarrow> tview f' l t va = tview f l t va)"
    using assms
  proof (induction l arbitrary: t I)
    case (Suc l)
    have t: "f' t = f t" using Suc.prems by simp
    have c: "foot f' l (table_at (f t i)) full = foot f l (table_at (f t i)) full \<and>
        tree_ok f' l (table_at (f t i)) full = tree_ok f l (table_at (f t i)) full \<and>
        tview f' l (table_at (f t i)) va = tview f l (table_at (f t i)) va"
      if "i \<in> I" "link (f t i)" for i
      using Suc.IH [of "table_at (f t i)" full] Suc.prems that by auto
    have "foot f' (Suc l) t I = foot f (Suc l) t I" using c by (auto simp: t)
    moreover have "tree_ok f' (Suc l) t I = tree_ok f (Suc l) t I" using c by (simp add: t cong: ball_cong)
    moreover have "tview f' (Suc l) t va = tview f (Suc l) t va" if "pt_index (Suc l) va \<in> I"
      using c [OF that] by (simp add: t link_def Let_def)
    ultimately show ?case by blast
  qed simp
  then show "foot f' l t I = foot f l t I" "tree_ok f' l t I = tree_ok f l t I"
    "pt_index l va \<in> I \<Longrightarrow> tview f' l t va = tview f l t va" by blast+
qed

section \<open>Changes of a tree\<close>

text \<open>\<open>f'\<close> comes from \<open>f\<close> by a change below \<open>t\<close> that may use the fresh tables \<open>F\<close> and acts on views as \<open>g\<close>.\<close>

definition upd :: "memory \<Rightarrow> memory \<Rightarrow> nat \<Rightarrow> u64 \<Rightarrow> nat set \<Rightarrow> u64 set \<Rightarrow>
    (u64 \<Rightarrow> (u64 \<times> u64) option \<Rightarrow> (u64 \<times> u64) option) \<Rightarrow> bool" where
  "upd f f' l t I F g \<longleftrightarrow>
     tree_ok f' l t I \<and> foot f' l t I \<subseteq> foot f l t I \<union> F \<and>
     (\<forall>x. x \<notin> foot f l t I \<union> F \<longrightarrow> f' x = f x) \<and>
     (\<forall>va. pt_index l va \<in> I \<longrightarrow> tview f' l t va = g va (tview f l t va))"

lemma upd_refl: "tree_ok f l t I \<Longrightarrow> upd f f l t I F (\<lambda>va v. v)"
  by (simp add: upd_def)

lemma upd_mono: "upd f f' l t I F g \<Longrightarrow> F \<subseteq> G \<Longrightarrow> upd f f' l t I G g"
  unfolding upd_def by blast

lemma upd_trans:
  assumes "upd f f1 l t I F g" "upd f1 f2 l t I G h"
  shows "upd f f2 l t I (F \<union> G) (\<lambda>va v. h va (g va v))"
  using assms unfolding upd_def by (auto 0 3)

lemma upd_cong: "upd f f' l t I F g \<Longrightarrow> (\<And>va v. pt_index l va \<in> I \<Longrightarrow> g va v = h va v) \<Longrightarrow> upd f f' l t I F h"
  by (simp add: upd_def)

text \<open>A change below the table an entry links to.\<close>

lemma upd_lift:
  assumes ok: "tree_ok f (Suc l) t I" and i: "i \<in> I" "link (f t i)"
    and u: "upd f f' l (table_at (f t i)) full F g" and F: "F \<inter> foot f (Suc l) t I = {}"
  shows "upd f f' (Suc l) t I F (\<lambda>va v. if pt_index (Suc l) va = i then g va v else v)"
proof -
  let ?c = "\<lambda>j. table_at (f t j)"
  have nt: "t \<notin> foot f l (?c i) full \<union> F" using ok i F by auto
  have out: "f' x = f x" if "x \<notin> foot f l (?c i) full \<union> F" for x using u that by (simp add: upd_def)
  have t: "f' t = f t" by (rule out [OF nt])
  have other: "f' x = f x" if "j \<in> I" "j \<noteq> i" "link (f t j)" "x \<in> foot f l (?c j) full" for j x
  proof (rule out)
    have "foot f l (?c i) full \<inter> foot f l (?c j) full = {}" using ok i that by auto
    moreover have "x \<notin> F" using F that by auto
    ultimately show "x \<notin> foot f l (?c i) full \<union> F" using that(4) by auto
  qed
  have cj: "foot f' l (?c j) full = foot f l (?c j) full" "tree_ok f' l (?c j) full"
    "tview f' l (?c j) va = tview f l (?c j) va" if "j \<in> I" "j \<noteq> i" "link (f t j)" for j va
    using tree_cong [of f l "?c j" full f'] other [OF that] ok that by auto
  have ci: "tree_ok f' l (?c i) full" "foot f' l (?c i) full \<subseteq> foot f l (?c i) full \<union> F"
    "tview f' l (?c i) va = g va (tview f l (?c i) va)" for va
    using u by (simp_all add: upd_def)
  have "foot f l (?c i) full \<inter> foot f l (?c j) full = {}" "foot f l (?c j) full \<inter> F = {}"
    if "j \<in> I" "j \<noteq> i" "link (f t j)" for j
    using ok i F that by auto
  then have dis: "foot f' l (?c i) full \<inter> foot f' l (?c j) full = {}" if "j \<in> I" "j \<noteq> i" "link (f t j)" for j
    using ci(2) cj(1) [OF that] that by blast
  have nti: "t \<notin> foot f' l (?c j) full" if "j \<in> I" "link (f t j)" for j
    using ci(2) nt cj(1) [of j] ok that by (cases "j = i") auto
  have "tree_ok f' (Suc l) t I"
    unfolding tree_ok.simps t
  proof (intro conjI ballI impI)
    fix j
    assume j: "j \<in> I" "bit (f t j) 0" "bit (f t j) 7"
    then show "l < 2" "entry_aligned (Suc l) (f t j)" using ok by auto
  next
    fix j
    assume j: "j \<in> I" "link (f t j)"
    show "tree_ok f' l (?c j) full" using ci(1) cj(2) [of j] j by (cases "j = i") auto
    show "t \<notin> foot f' l (?c j) full" by (rule nti [OF j])
    fix k
    assume k: "k \<in> I" "k \<noteq> j" "link (f t k)"
    have "foot f l (?c j) full \<inter> foot f l (?c k) full = {}" using ok j k by auto
    then show "foot f' l (?c j) full \<inter> foot f' l (?c k) full = {}"
      using dis [of j] dis [of k] cj(1) [of j] cj(1) [of k] j k by (cases "j = i"; cases "k = i") auto
  qed
  moreover have "foot f' (Suc l) t I \<subseteq> foot f (Suc l) t I \<union> F"
  proof -
    have "foot f' l (?c j) full \<subseteq> foot f (Suc l) t I \<union> F" if "j \<in> I" "link (f t j)" for j
      using ci(2) cj(1) [of j] i that by (cases "j = i") auto
    then show ?thesis by (auto simp: t)
  qed
  moreover have "f' x = f x" if "x \<notin> foot f (Suc l) t I \<union> F" for x
    by (rule out) (use that i in auto)
  moreover have "tview f' (Suc l) t va = (if pt_index (Suc l) va = i then g va (tview f (Suc l) t va) else tview f (Suc l) t va)"
    if "pt_index (Suc l) va \<in> I" for va
    using ci(3) [of va] cj(3) [OF that] i(2) by (auto simp: t link_def Let_def)
  ultimately show ?thesis unfolding upd_def by blast
qed

text \<open>An entry that maps a page, or nothing, replaces another.\<close>

definition leaf_ok :: "nat \<Rightarrow> u64 \<Rightarrow> bool" where
  "leaf_ok l e \<longleftrightarrow> \<not> bit e 0 \<or> (if l = 0 then \<not> bit e 7 else bit e 7 \<and> l \<le> 2 \<and> entry_aligned l e)"

definition entry_view :: "nat \<Rightarrow> u64 \<Rightarrow> u64 \<Rightarrow> (u64 \<times> u64) option" where
  "entry_view l e va = (if bit e 0 then Some (leaf_view l e va) else None)"

lemma leaf_no_link: "leaf_ok (Suc l) e \<Longrightarrow> \<not> link e"
  by (auto simp: leaf_ok_def link_def)

lemma tview_leaf: "leaf_ok l (f t (pt_index l va)) \<Longrightarrow> tview f l t va = entry_view l (f t (pt_index l va)) va"
  by (cases l) (auto simp: leaf_ok_def entry_view_def Let_def split: if_splits)

lemma upd_leaf:
  assumes ok: "tree_ok f l t I" and e: "leaf_ok l e"
  shows "upd f (f(t := (f t)(i := e))) l t I {} (\<lambda>va v. if pt_index l va = i then entry_view l e va else v)"
proof (cases l)
  case 0
  then show ?thesis using ok e by (auto simp: upd_def leaf_ok_def entry_view_def)
next
  case (Suc k)
  let ?f = "f(t := (f t)(i := e))"
  let ?c = "\<lambda>j. table_at (f t j)"
  have nl: "\<not> link e" using e Suc by (simp add: leaf_no_link)
  have c: "foot ?f k (?c j) full = foot f k (?c j) full" "tree_ok ?f k (?c j) full = tree_ok f k (?c j) full"
    "tview ?f k (?c j) va = tview f k (?c j) va" if "j \<in> I" "link (f t j)" for j va
  proof -
    have "t \<notin> foot f k (?c j) full" using ok that Suc by auto
    then have s: "?f x = f x" if "x \<in> foot f k (?c j) full" for x using that by auto
    show "foot ?f k (?c j) full = foot f k (?c j) full" "tree_ok ?f k (?c j) full = tree_ok f k (?c j) full"
      "tview ?f k (?c j) va = tview f k (?c j) va"
      using tree_cong [of f k "?c j" full ?f] s by auto
  qed
  have l: "{j \<in> I. link (?f t j)} = {j \<in> I. link (f t j) \<and> j \<noteq> i}" using nl by auto
  have "tree_ok ?f (Suc k) t I"
    unfolding tree_ok.simps
  proof (intro conjI ballI impI)
    fix j
    assume "j \<in> I" "bit (?f t j) 0" "bit (?f t j) 7"
    then show "k < 2" "entry_aligned (Suc k) (?f t j)"
      using ok e Suc by (auto simp: leaf_ok_def split: if_splits)
  next
    fix j
    assume j: "j \<in> I" "link (?f t j)"
    then have j': "link (f t j)" "j \<noteq> i" using nl by (auto split: if_splits)
    then show "tree_ok ?f k (table_at (?f t j)) full" "t \<notin> foot ?f k (table_at (?f t j)) full"
      using c [OF j(1) j'(1)] ok j Suc by auto
    fix m
    assume m: "m \<in> I" "m \<noteq> j" "link (?f t m)"
    then have m': "link (f t m)" "m \<noteq> i" using nl by (auto split: if_splits)
    then show "foot ?f k (table_at (?f t j)) full \<inter> foot ?f k (table_at (?f t m)) full = {}"
      using c [OF j(1) j'(1)] c [OF m(1) m'(1)] ok j m j' Suc by auto
  qed
  moreover have "foot ?f (Suc k) t I \<subseteq> foot f (Suc k) t I"
    using c nl by (auto split: if_splits)
  moreover have "tview ?f (Suc k) t va = (if pt_index (Suc k) va = i then entry_view (Suc k) e va else tview f (Suc k) t va)"
    if "pt_index (Suc k) va \<in> I" for va
  proof (cases "pt_index (Suc k) va = i")
    case True
    then show ?thesis using tview_leaf [of "Suc k" ?f t va] e Suc by simp
  next
    case False
    then show ?thesis using c(3) [OF that] by (simp add: Let_def link_def)
  qed
  ultimately show ?thesis unfolding upd_def Suc by auto
qed

text \<open>A fresh table of leaves takes the place of an entry that maps the same pages.\<close>

lemma upd_install:
  assumes ok: "tree_ok f (Suc l) t I" and p: "p \<notin> foot f (Suc l) t I" "table_at e = p" "link e" and i: "i \<in> I" "\<not> link (f t i)"
    and g: "\<And>j. j < 512 \<Longrightarrow> leaf_ok l (g j)"
    and v: "\<And>va. pt_index (Suc l) va = i \<Longrightarrow> entry_view l (g (pt_index l va)) va = tview f (Suc l) t va"
  shows "upd f (f(p := g, t := (f t)(i := e))) (Suc l) t I {p} (\<lambda>va v. v)"
proof -
  let ?f = "f(p := g, t := (f t)(i := e))"
  let ?c = "\<lambda>j. table_at (f t j)"
  have pt: "p \<noteq> t" using p(1) by auto
  have ftj: "?f t j = (if j = i then e else f t j)" for j by simp
  have new: "foot ?f l p full = {p}" "tree_ok ?f l p full"
    "tview ?f l p va = entry_view l (g (pt_index l va)) va" for va
  proof -
    have lo: "leaf_ok l (?f p j)" if "j < 512" for j using g that pt by simp
    then have "\<not> link (?f p j)" if "l = Suc k" "j < 512" for j k using leaf_no_link that by blast
    then show "foot ?f l p full = {p}" using pt by (cases l) auto
    show "tree_ok ?f l p full"
    proof (cases l)
      case 0
      then show ?thesis using lo by (auto simp: leaf_ok_def)
    next
      case (Suc k)
      have "\<not> link (?f p j)" if "j < 512" for j using leaf_no_link lo [OF that] Suc by simp
      moreover have "bit (?f p j) 0 \<Longrightarrow> k < 2 \<and> entry_aligned (Suc k) (?f p j)" if "j < 512" for j
        using lo [OF that] Suc by (auto simp: leaf_ok_def)
      ultimately show ?thesis unfolding Suc tree_ok.simps by blast
    qed
    show "tview ?f l p va = entry_view l (g (pt_index l va)) va"
      using tview_leaf [of l ?f p va] lo [OF pt_index_less] pt by simp
  qed
  have old: "foot ?f l (?c j) full = foot f l (?c j) full" "tree_ok ?f l (?c j) full = tree_ok f l (?c j) full"
    "tview ?f l (?c j) va = tview f l (?c j) va" "p \<notin> foot f l (?c j) full" if "j \<in> I" "link (f t j)" for j va
  proof -
    have n: "t \<notin> foot f l (?c j) full" "p \<notin> foot f l (?c j) full" using ok p(1) that by auto
    then have s: "?f x = f x" if "x \<in> foot f l (?c j) full" for x using that by auto
    show "foot ?f l (?c j) full = foot f l (?c j) full" "tree_ok ?f l (?c j) full = tree_ok f l (?c j) full"
      "tview ?f l (?c j) va = tview f l (?c j) va" "p \<notin> foot f l (?c j) full"
      using tree_cong [of f l "?c j" full ?f] s n by auto
  qed
  have "tree_ok ?f (Suc l) t I"
    unfolding tree_ok.simps ftj
  proof (intro conjI ballI impI)
    fix j
    assume "j \<in> I" "bit (if j = i then e else f t j) 0" "bit (if j = i then e else f t j) 7"
    then show "l < 2" "entry_aligned (Suc l) (if j = i then e else f t j)"
      using ok p(3) by (auto simp: link_def split: if_splits)
  next
    fix j
    assume j: "j \<in> I" "link (if j = i then e else f t j)"
    then show "tree_ok ?f l (table_at (if j = i then e else f t j)) full"
      "t \<notin> foot ?f l (table_at (if j = i then e else f t j)) full"
      using new(1,2) p(2) pt ok old [of j] by (auto split: if_splits)
    fix k
    assume "k \<in> I" "k \<noteq> j" "link (if k = i then e else f t k)"
    then show "foot ?f l (table_at (if j = i then e else f t j)) full \<inter> foot ?f l (table_at (if k = i then e else f t k)) full = {}"
      using j new(1) p(2) ok old [of j] old [of k] by (auto split: if_splits)
  qed
  moreover have "foot ?f (Suc l) t I \<subseteq> foot f (Suc l) t I \<union> {p}"
  proof -
    have "foot ?f l (table_at (?f t j)) full \<subseteq> foot f (Suc l) t I \<union> {p}" if "j \<in> I" "link (?f t j)" for j
      using that new(1) p(2) old [of j] by (auto split: if_splits)
    moreover have "t \<in> foot f (Suc l) t I" by (rule foot_self)
    ultimately show ?thesis unfolding foot.simps(2) [of ?f] by blast
  qed
  moreover have "tview ?f (Suc l) t va = tview f (Suc l) t va" if "pt_index (Suc l) va \<in> I" for va
  proof (cases "pt_index (Suc l) va = i")
    case True
    then have "tview ?f (Suc l) t va = tview ?f l p va" using p(2,3) by (simp add: Let_def link_def)
    then show ?thesis using new(3) v [OF True] by simp
  next
    case False
    then show ?thesis using old(3) [OF that] by (simp add: Let_def link_def)
  qed
  ultimately show ?thesis unfolding upd_def by auto
qed

end
