(* ===== verification/RK_PagingMap.thy ===== *)
theory RK_PagingMap
  imports RK_PagingTree
begin

unbundle bit_operations_syntax

text \<open>
  The operations of \<open>RK_Paging\<close> on the tree of tables: every one is a change of the map from
  pages to frames and permissions, and tables come from frames the buddy allocator has handed out.
\<close>

section \<open>Fresh frames\<close>

definition table_addr :: "pmm \<Rightarrow> nat \<Rightarrow> u64" where
  "table_addr s p = of_nat (pmm_page_addr s p)"

text \<open>The frames lie on page boundaries below the 52 bits of an entry's address.\<close>

definition placed :: "pmm \<Rightarrow> bool" where
  "placed s \<longleftrightarrow> pm_base s mod 4096 = 0 \<and> pm_base s + page_count s * 4096 \<le> 2 ^ 52"

definition frame_addr :: "u64 \<Rightarrow> bool" where
  "frame_addr pa \<longleftrightarrow> (\<forall>n. bit pa n \<longrightarrow> 12 \<le> n \<and> n < 52)"

text \<open>\<open>T\<close>: the tables and pages in use. Each is a frame the allocator gave out, or never had (\<open>R\<close>).\<close>

definition frames_ok :: "(nat \<times> nat) set \<Rightarrow> machine \<Rightarrow> u64 set \<Rightarrow> bool" where
  "frames_ok R m T \<longleftrightarrow> placed (mc_pmm m) \<and>
     (\<exists>H. owned_with R (mc_pmm m) H \<and> (\<forall>x \<in> T. \<exists>p. (p, 0) \<in> H \<union> R \<and> x = table_addr (mc_pmm m) p))"

lemma split_down_base: "pm_base (split_down p k order s) = pm_base s"
  by (induction p k order s rule: split_down.induct) simp_all

lemma take_block_base': "pm_base (take_block p k order s) = pm_base s"
  by (simp add: take_block_def Let_def split_down_base)

lemma frame_alloc_base: "frame_alloc order s = (r, s') \<Longrightarrow> pm_base s' = pm_base s"
proof -
  assume "frame_alloc order s = (r, s')"
  then have a: "alloc_from order order 0 s = (r, s')" by (simp add: frame_alloc_def buddy_alloc_def)
  show ?thesis
  proof (cases r)
    case None
    then show ?thesis using alloc_from_none a by fastforce
  next
    case (Some p)
    then obtain k where "s' = take_block p k order s" using alloc_from_some a by metis
    then show ?thesis by (simp add: take_block_base')
  qed
qed

lemma alloc_page_eq:
  "pmm_alloc_page s = (case frame_alloc 0 s of (None, s) \<Rightarrow> (0, s) | (Some p, s) \<Rightarrow> (pmm_page_addr s p, s))"
  by (simp add: pmm_alloc_page_def pmm_alloc_pages_def frame_alloc_def)

lemma table_addr_frame:
  assumes "placed s" "p < page_count s"
  shows "frame_addr (table_addr s p)" "unat (table_addr s p) = pmm_page_addr s p"
proof -
  let ?a = "pmm_page_addr s p"
  have "p * 4096 + 4096 \<le> page_count s * 4096" using assms(2) by simp
  then have b: "?a < 2 ^ 52" "?a mod 4096 = 0" using assms(1) by (auto simp: placed_def pmm_page_addr_def)
  then show u: "unat (table_addr s p) = ?a"
    by (simp add: table_addr_def unat_of_nat)
  have h: "bit ?a n \<Longrightarrow> 12 \<le> n \<and> n < 52" for n
  proof -
    assume n: "bit ?a n"
    have "?a = push_bit 12 (?a div 4096)" using dvd_div_mult_self [OF mod_0_imp_dvd [OF b(2)]] by (simp add: push_bit_eq_mult)
    then have "bit (push_bit 12 (?a div 4096)) n" using n by simp
    moreover have "bit (take_bit 52 ?a) n" using b(1) n by (simp add: take_bit_nat_eq_self)
    ultimately show ?thesis by (simp add: bit_push_bit_iff bit_take_bit_iff)
  qed
  show "frame_addr (table_addr s p)"
    unfolding frame_addr_def
  proof (intro allI impI)
    fix n
    assume n: "bit (table_addr s p) n"
    then have "n < 64" using bit_imp_le_length by fastforce
    then have "bit (unat (table_addr s p)) n" using n by (simp add: bit_unsigned_iff)
    then show "12 \<le> n \<and> n < 52" unfolding u by (rule h)
  qed
qed

lemma owned_below: "owned_with R s H \<Longrightarrow> (p, 0) \<in> H \<union> R \<Longrightarrow> p < page_count s"
  using family_block_ok [of "page_count s" "blocks s \<union> (H \<union> R)" "(p, 0)"]
  by (auto simp: owned_with_def pmm_wf_def block_ok_def)

lemma table_addr_inj:
  assumes "placed s" "p < page_count s" "q < page_count s" "table_addr s p = table_addr s q"
  shows "p = q"
proof -
  have "pmm_page_addr s p = pmm_page_addr s q"
    using table_addr_frame(2) [OF assms(1,2)] table_addr_frame(2) [OF assms(1,3)] assms(4) by simp
  then show ?thesis by (simp add: pmm_page_addr_def)
qed

lemma page_alloc_ok:
  assumes ok: "frames_ok R m T" and a: "page_alloc m = (pa, m')"
  shows "mc_kernel_pml4 m' = mc_kernel_pml4 m \<and> mc_nx m' = mc_nx m \<and> mc_gib m' = mc_gib m \<and>
    (if pa = 0 then mc_mem m' = mc_mem m \<and> frames_ok R m' T
     else pa \<notin> T \<and> frame_addr pa \<and> mc_mem m' = (mc_mem m)(pa := \<lambda>_. 0) \<and> frames_ok R m' (insert pa T))"
proof -
  obtain H where pl: "placed (mc_pmm m)" and H: "owned_with R (mc_pmm m) H"
    "\<forall>x \<in> T. \<exists>p. (p, 0) \<in> H \<union> R \<and> x = table_addr (mc_pmm m) p"
    using ok by (auto simp: frames_ok_def)
  obtain r s' where r: "frame_alloc 0 (mc_pmm m) = (r, s')" by fastforce
  have base: "pm_base s' = pm_base (mc_pmm m)" by (rule frame_alloc_base [OF r])
  show ?thesis
  proof (cases r)
    case None
    have "owned_with R s' H \<and> page_count s' = page_count (mc_pmm m)"
      using buddy.alloc_none [OF H(1)] r None by simp
    then have "frames_ok R (m\<lparr>mc_pmm := s'\<rparr>) T"
      using pl H base by (auto simp: frames_ok_def placed_def table_addr_def pmm_page_addr_def)
    then show ?thesis using a r None by (auto simp: page_alloc_def alloc_page_eq)
  next
    case (Some p)
    have o: "owned_with R s' (insert (p, 0) H)" "(p, 0) \<notin> H" "page_count s' = page_count (mc_pmm m)"
      using buddy.alloc_some [OF H(1)] r Some by blast+
    have same: "table_addr s' q = table_addr (mc_pmm m) q" "pmm_page_addr s' q = pmm_page_addr (mc_pmm m) q" for q
      by (simp_all add: table_addr_def pmm_page_addr_def base)
    have pl': "placed s'" using pl o(3) base by (simp add: placed_def)
    have p: "p < page_count s'" using owned_below [OF o(1), of p] by simp
    have nR: "(p, 0) \<notin> R" using o(1) by (auto simp: owned_with_def)
    have new: "table_addr s' p \<notin> T"
    proof
      assume "table_addr s' p \<in> T"
      then obtain q where q: "(q, 0) \<in> H \<union> R" "table_addr s' p = table_addr (mc_pmm m) q" using H(2) by blast
      then have "table_addr s' p = table_addr s' q" by (simp add: same)
      then have "p = q" using table_addr_inj [OF pl' p] owned_below [OF H(1) q(1)] o(3) by simp
      then show False using q(1) o(2) nR by simp
    qed
    have ok': "frames_ok R (m\<lparr>mc_pmm := s', mc_mem := f\<rparr>) (insert (table_addr s' p) T)"
      "frames_ok R (m\<lparr>mc_pmm := s'\<rparr>) T" for f
      using pl' o(1) H(2) same unfolding frames_ok_def by (force, force)
    show ?thesis
      using a r Some new ok' table_addr_frame(1) [OF pl' p] table_addr_frame(2) [OF pl' p]
      by (auto simp: page_alloc_def alloc_page_eq table_addr_def split: if_splits)
  qed
qed

section \<open>One level of a walk\<close>

lemma entry_link:
  assumes "frame_addr pa"
  shows "link (pa OR PTE_PRESENT OR PTE_WRITE OR PTE_USER)" "table_at (pa OR PTE_PRESENT OR PTE_WRITE OR PTE_USER) = pa"
proof -
  show "link (pa OR PTE_PRESENT OR PTE_WRITE OR PTE_USER)"
    using assms by (auto simp: link_def frame_addr_def bit_or_iff pte_bits)
  show "table_at (pa OR PTE_PRESENT OR PTE_WRITE OR PTE_USER) = pa"
    by (rule bit_word_eqI) (use assms in \<open>auto simp: table_at_def frame_addr_def bit_or_iff bit_and_iff pte_bits\<close>)
qed

lemma pt_index_push:
  assumes "j < 512" "l \<le> 3"
  shows "pt_index l (push_bit (12 + 9 * l) (of_nat j)) = j"
proof -
  let ?n = "12 + 9 * l"
  have n: "?n + 9 \<le> 64" using assms(2) by simp
  have "j < 2 ^ 9" using assms(1) by simp
  then have j: "take_bit 9 (of_nat j :: u64) = of_nat j"
    by (simp add: take_bit_of_nat take_bit_nat_eq_self)
  have "drop_bit ?n (push_bit ?n (of_nat j :: u64)) = of_nat j"
  proof (rule bit_word_eqI)
    fix k
    assume k: "k < LENGTH(64)"
    have "bit (of_nat j :: u64) k \<Longrightarrow> k < 9" using j by (metis bit_take_bit_iff)
    then show "bit (drop_bit ?n (push_bit ?n (of_nat j :: u64))) k = bit (of_nat j :: u64) k"
      using n k by (auto simp: bit_drop_bit_eq bit_push_bit_iff)
  qed
  moreover have "(of_nat j :: u64) AND 0x1FF = of_nat j"
    using j by (simp add: take_bit_eq_mask mask_eq_exp_minus_1)
  ultimately show ?thesis using assms(1) by (simp add: pt_index_def unat_of_nat)
qed

text \<open>What an operation on a machine does below the table \<open>t\<close>.\<close>

definition changes :: "(nat \<times> nat) set \<Rightarrow> u64 set \<Rightarrow> machine \<Rightarrow> u64 set \<Rightarrow> machine \<Rightarrow> nat \<Rightarrow> u64 \<Rightarrow> nat set \<Rightarrow>
    (u64 \<Rightarrow> (u64 \<times> u64) option \<Rightarrow> (u64 \<times> u64) option) \<Rightarrow> bool" where
  "changes R T m T' m' l t I g \<longleftrightarrow>
     T \<subseteq> T' \<and> frames_ok R m' T' \<and> upd (mc_mem m) (mc_mem m') l t I (T' - T) g \<and>
     mc_kernel_pml4 m' = mc_kernel_pml4 m \<and> mc_nx m' = mc_nx m \<and> mc_gib m' = mc_gib m"

lemma changes_refl: "tree_ok (mc_mem m) l t I \<Longrightarrow> frames_ok R m T \<Longrightarrow> changes R T m T m l t I (\<lambda>va v. v)"
  by (simp add: changes_def upd_refl)

lemma changes_trans:
  assumes "changes R T m T1 m1 l t I g" "changes R T1 m1 T2 m2 l t I h"
  shows "changes R T m T2 m2 l t I (\<lambda>va v. h va (g va v))"
proof -
  have "upd (mc_mem m) (mc_mem m2) l t I ((T1 - T) \<union> (T2 - T1)) (\<lambda>va v. h va (g va v))"
    using assms upd_trans unfolding changes_def by blast
  moreover have "(T1 - T) \<union> (T2 - T1) = T2 - T" using assms by (auto simp: changes_def)
  ultimately show ?thesis using assms by (auto simp: changes_def)
qed

lemma changes_foot: "changes R T m T' m' l t I g \<Longrightarrow> foot (mc_mem m) l t I \<subseteq> T \<Longrightarrow> foot (mc_mem m') l t I \<subseteq> T'"
  unfolding changes_def upd_def by blast

lemma changes_cong:
  "changes R T m T' m' l t I g \<Longrightarrow> (\<And>va v. pt_index l va \<in> I \<Longrightarrow> g va v = h va v) \<Longrightarrow> changes R T m T' m' l t I h"
  unfolding changes_def using upd_cong by blast

lemma changes_lift:
  assumes "tree_ok (mc_mem m) (Suc l) t I" "foot (mc_mem m) (Suc l) t I \<subseteq> T" "i \<in> I" "link (mc_mem m t i)"
    and "changes R T m T' m' l (table_at (mc_mem m t i)) full g"
  shows "changes R T m T' m' (Suc l) t I (\<lambda>va v. if pt_index (Suc l) va = i then g va v else v)"
  using assms upd_lift [of "mc_mem m" l t I i "mc_mem m'" "T' - T" g] unfolding changes_def by blast

lemma walk_create:
  assumes ok: "tree_ok (mc_mem m) (Suc l) t I" "foot (mc_mem m) (Suc l) t I \<subseteq> T" "frames_ok R m T"
    and i: "i \<in> I" and w: "walk t i True (Suc l) m = (r, m')"
  shows "\<exists>T'. changes R T m T' m' (Suc l) t I (\<lambda>va v. v) \<and>
    (\<forall>c. r = Some c \<longrightarrow> link (mc_mem m' t i) \<and> table_at (mc_mem m' t i) = c)"
proof -
  let ?f = "mc_mem m" and ?e = "mc_mem m t i"
  obtain pa m1 where a: "page_alloc m = (pa, m1)" by fastforce
  note A = page_alloc_ok [OF ok(3) a]
  have nochange: "changes R T m T m1 (Suc l) t I (\<lambda>va v. v)" if "pa = 0"
    using A that ok(1) by (simp add: changes_def upd_refl)
  have tT: "t \<in> T" using foot_self [of t ?f "Suc l" I] ok(2) by blast
  have install: "changes R T m (insert pa T) m' (Suc l) t I (\<lambda>va v. v) \<and> link (mc_mem m' t i) \<and> table_at (mc_mem m' t i) = pa"
    if "pa \<noteq> 0" "\<not> link ?e" "\<And>j. j < 512 \<Longrightarrow> leaf_ok l (g j)"
      "\<And>va. pt_index (Suc l) va = i \<Longrightarrow> entry_view l (g (pt_index l va)) va = tview ?f (Suc l) t va"
      "m' = set_entry t i (pa OR PTE_PRESENT OR PTE_WRITE OR PTE_USER) (m1\<lparr>mc_mem := (mc_mem m1)(pa := g)\<rparr>)" for g
  proof -
    have p: "pa \<notin> T" "frame_addr pa" "frames_ok R m1 (insert pa T)" "mc_mem m1 = ?f(pa := \<lambda>_. 0)"
      using A that(1) by auto
    let ?e' = "pa OR PTE_PRESENT OR PTE_WRITE OR PTE_USER"
    have m': "mc_mem m' = ?f(pa := g, t := (?f t)(i := ?e'))" "mc_pmm m' = mc_pmm m1"
      "mc_kernel_pml4 m' = mc_kernel_pml4 m1" "mc_nx m' = mc_nx m1" "mc_gib m' = mc_gib m1"
      using p(1,4) tT by (auto simp: that(5) set_entry_def)
    have "upd ?f (?f(pa := g, t := (?f t)(i := ?e'))) (Suc l) t I {pa} (\<lambda>va v. v)"
      by (rule upd_install) (use ok p entry_link that i in auto)
    moreover have "insert pa T - T = {pa}" using p(1) by blast
    moreover have "frames_ok R m' (insert pa T)" using p(3) m'(2) by (simp add: frames_ok_def)
    ultimately show ?thesis using A entry_link [OF p(2)] m' by (auto simp: changes_def)
  qed
  show ?thesis
  proof (cases "bit ?e 0")
    case False
    then have v: "tview ?f (Suc l) t va = None" if "pt_index (Suc l) va = i" for va using that by simp
    have nl: "\<not> link ?e" using False by (simp add: link_def)
    have W: "(r, m') = (if pa = 0 then (None, m1) else (Some pa, set_entry t i (pa OR PTE_PRESENT OR PTE_WRITE OR PTE_USER)
        (m1\<lparr>mc_mem := (mc_mem m1)(pa := \<lambda>_. 0)\<rparr>)))"
      using w False a unfolding walk_def Let_def by (auto split: if_splits)
    show ?thesis
    proof (cases "pa = 0")
      case True
      then show ?thesis using W nochange by auto
    next
      case nz: False
      have "changes R T m (insert pa T) m' (Suc l) t I (\<lambda>va v. v) \<and> link (mc_mem m' t i) \<and> table_at (mc_mem m' t i) = pa"
        by (rule install [of "\<lambda>_. 0"]) (use nz nl v W in \<open>auto simp: leaf_ok_def entry_view_def\<close>)
      then show ?thesis using W nz by auto
    qed
  next
    case True
    show ?thesis
    proof (cases "bit ?e 7")
      case False
      then have "r = Some (table_at ?e)" "m' = m" "link ?e" using w True by (auto simp: walk_def Let_def link_def split: if_splits)
      then show ?thesis using changes_refl [OF ok(1,3)] by blast
    next
      case huge: True
      have l: "l < 2" "entry_aligned (Suc l) ?e" using ok(1) i True huge by auto
      have nl: "\<not> link ?e" using huge by (simp add: link_def)
      note S = split_child_view [OF l True huge]
      let ?g = "\<lambda>j. if j < 512 then split_child ?e (Suc l) j else mc_mem m1 pa j"
      have v: "entry_view l (?g (pt_index l va)) va = tview ?f (Suc l) t va" if "pt_index (Suc l) va = i" for va
        using S(1,2) [of va] that True huge by (simp add: entry_view_def)
      have g: "leaf_ok l (?g j)" if "j < 512" for j
      proof -
        have "pt_index l (push_bit (12 + 9 * l) (of_nat j)) = j" by (rule pt_index_push) (use that l(1) in auto)
        then show ?thesis
          using S(3,4) [of "push_bit (12 + 9 * l) (of_nat j)"] that l(1) by (auto simp: leaf_ok_def less_Suc_eq)
      qed
      let ?m = "set_entry t i (pa OR PTE_PRESENT OR PTE_WRITE OR PTE_USER) (m1\<lparr>mc_mem := (mc_mem m1)(pa := ?g)\<rparr>)"
      have W: "(r, m') = (if pa = 0 then (None, m1) else (Some (table_at (mc_mem ?m t i)), ?m))"
        using w True huge a unfolding walk_def split_huge_def Let_def by (auto split: if_splits)
      show ?thesis
      proof (cases "pa = 0")
        case True
        then show ?thesis using W nochange by auto
      next
        case nz: False
        have "changes R T m (insert pa T) m' (Suc l) t I (\<lambda>va v. v) \<and> link (mc_mem m' t i) \<and> table_at (mc_mem m' t i) = pa"
          by (rule install [of ?g]) (use nz nl v g W in auto)
        then show ?thesis using W nz by auto
      qed
    qed
  qed
qed

lemma walk_then:
  assumes ok: "tree_ok (mc_mem m) (Suc l) t I" "foot (mc_mem m) (Suc l) t I \<subseteq> T" "frames_ok R m T"
    and i: "i \<in> I" and w: "walk t i True (Suc l) m = (Some c, m1)"
    and op: "\<And>T1. tree_ok (mc_mem m1) l c full \<Longrightarrow> foot (mc_mem m1) l c full \<subseteq> T1 \<Longrightarrow> frames_ok R m1 T1 \<Longrightarrow>
      \<exists>T2. changes R T1 m1 T2 m2 l c full g"
  shows "\<exists>T2. changes R T m T2 m2 (Suc l) t I (\<lambda>va v. if pt_index (Suc l) va = i then g va v else v)"
proof -
  obtain T1 where T1: "changes R T m T1 m1 (Suc l) t I (\<lambda>va v. v)" "link (mc_mem m1 t i)" "table_at (mc_mem m1 t i) = c"
    using walk_create [OF ok i w] by auto
  have t: "tree_ok (mc_mem m1) (Suc l) t I" using T1(1) by (simp add: changes_def upd_def)
  have f: "foot (mc_mem m1) (Suc l) t I \<subseteq> T1" by (rule changes_foot [OF T1(1) ok(2)])
  have "tree_ok (mc_mem m1) l c full" "foot (mc_mem m1) l c full \<subseteq> T1" "frames_ok R m1 T1"
    using t f T1 i by (auto simp: changes_def)
  then obtain T2 where "changes R T1 m1 T2 m2 l c full g" using op by blast
  then have "changes R T1 m1 T2 m2 (Suc l) t I (\<lambda>va v. if pt_index (Suc l) va = i then g va v else v)"
    using changes_lift [OF t f i T1(2)] T1(3) by simp
  then show ?thesis using changes_trans [OF T1(1)] by blast
qed

lemma set_leaf:
  assumes "tree_ok (mc_mem m) l t I" "frames_ok R m T" "leaf_ok l e"
  shows "changes R T m T (set_entry t i e m) l t I (\<lambda>va v. if pt_index l va = i then entry_view l e va else v)"
  using upd_leaf [OF assms(1,3), of i] assms(2)
  by (simp add: changes_def set_entry_def frames_ok_def)

section \<open>Mapping one page\<close>

definition same_page :: "nat \<Rightarrow> u64 \<Rightarrow> u64 \<Rightarrow> bool" where
  "same_page l va va' \<longleftrightarrow> (\<forall>k \<in> {l..3}. pt_index k va' = pt_index k va)"

lemma levels_above: "{3..3} = {3 :: nat}" "{2..3} = {2, 3 :: nat}" "{Suc 0..3} = {1, 2, 3 :: nat}" "{0..3} = {0, 1, 2, 3 :: nat}"
  by auto

lemma same_page_fun: "same_page l va = (\<lambda>va'. \<forall>k \<in> {l..3}. pt_index k va' = pt_index k va)"
  by (simp add: same_page_def fun_eq_iff)

lemmas same_page_steps = same_page_fun [of 3, unfolded levels_above] same_page_fun [of 2, unfolded levels_above]
  same_page_fun [of 1, unfolded levels_above One_nat_def] same_page_fun [of 0, unfolded levels_above]

definition leaf_entry :: "nat \<Rightarrow> u64 \<Rightarrow> u64 \<Rightarrow> u64" where
  "leaf_entry l pa flags =
     (if l = 0 then (pa AND PTE_ADDR_MASK) OR flags
      else if l = 1 then (pa AND NOT 0x1FFFFF) OR flags OR PTE_HUGE
      else (pa AND NOT 0x3FFFFFFF) OR flags OR PTE_HUGE)"

definition flags_ok :: "u64 \<Rightarrow> bool" where
  "flags_ok flags \<longleftrightarrow> bit flags 0 \<and> \<not> bit flags 7 \<and> (\<forall>n. 12 \<le> n \<and> n < 52 \<longrightarrow> \<not> bit flags n)"

lemma large_masks: "(0x1FFFFF :: u64) = mask 21" "(0x3FFFFFFF :: u64) = mask 30"
  by (simp_all add: mask_eq_exp_minus_1)

lemma bit_leaf_entry:
  assumes "l \<le> 2" "frame_addr pa" "n < 64"
  shows "bit (leaf_entry l pa flags) n \<longleftrightarrow> bit pa n \<and> 12 + 9 * l \<le> n \<or> bit flags n \<or> n = 7 \<and> 0 < l"
proof -
  have "l = 0 \<or> l = 1 \<or> l = 2" using assms(1) by linarith
  moreover have "bit pa n \<Longrightarrow> 12 \<le> n \<and> n < 52" using assms(2) by (simp add: frame_addr_def)
  ultimately show ?thesis
    using assms(3) by (auto simp: leaf_entry_def bit_or_iff bit_and_iff bit_not_iff large_masks bit_mask_iff pte_bits)
qed

lemma leaf_entry_ok:
  assumes "l \<le> 2" "frame_addr pa" "flags_ok flags"
  shows "leaf_ok l (leaf_entry l pa flags)" "bit (leaf_entry l pa flags) 0"
proof -
  note B = bit_leaf_entry [OF assms(1,2)]
  have pa: "\<not> bit pa 7" "\<not> bit pa 0" using assms(2) by (auto simp: frame_addr_def)
  show "bit (leaf_entry l pa flags) 0" using B [of 0] assms(3) by (simp add: flags_ok_def)
  have "entry_aligned l (leaf_entry l pa flags)"
    using B assms(1,3) by (auto simp: entry_aligned_def flags_ok_def)
  moreover have "bit (leaf_entry l pa flags) 7 \<longleftrightarrow> 0 < l"
    using B [of 7] assms(1,3) pa by (auto simp: flags_ok_def)
  ultimately show "leaf_ok l (leaf_entry l pa flags)" using assms(1) by (auto simp: leaf_ok_def)
qed

text \<open>An operation that makes the pages \<open>P\<close> below a table show \<open>G\<close>, or runs out of memory.\<close>

definition installs :: "(nat \<times> nat) set \<Rightarrow> (u64 \<Rightarrow> machine \<Rightarrow> unit result \<times> machine) \<Rightarrow> nat \<Rightarrow> nat set \<Rightarrow>
    (u64 \<Rightarrow> bool) \<Rightarrow> (u64 \<Rightarrow> (u64 \<times> u64) option) \<Rightarrow> bool" where
  "installs R op l I P G \<longleftrightarrow>
     (\<forall>m t T r m'. tree_ok (mc_mem m) l t I \<longrightarrow> foot (mc_mem m) l t I \<subseteq> T \<longrightarrow> frames_ok R m T \<longrightarrow> op t m = (r, m') \<longrightarrow>
        (r = Inr () \<or> r = Inl ENOMEM) \<and>
        (\<exists>T'. changes R T m T' m' l t I (\<lambda>va v. if r = Inr () \<and> P va then G va else v)))"

lemma installs_leaf: "leaf_ok l e \<Longrightarrow> installs R (\<lambda>t m. (Inr (), set_entry t i e m)) l I (\<lambda>va. pt_index l va = i) (entry_view l e)"
  unfolding installs_def using set_leaf by fastforce

lemma installs_step:
  assumes op: "installs R op l full P G" and i: "i \<in> I"
  shows "installs R (\<lambda>t m. case walk t i True (Suc l) m of (None, m) \<Rightarrow> (Inl ENOMEM, m) | (Some c, m) \<Rightarrow> op c m) (Suc l) I
    (\<lambda>va. pt_index (Suc l) va = i \<and> P va) G"
  unfolding installs_def
proof (intro allI impI)
  fix m t T r m'
  assume ok: "tree_ok (mc_mem m) (Suc l) t I" "foot (mc_mem m) (Suc l) t I \<subseteq> T" "frames_ok R m T"
    and r: "(case walk t i True (Suc l) m of (None, m) \<Rightarrow> (Inl ENOMEM, m) | (Some c, m) \<Rightarrow> op c m) = (r, m')"
  obtain c m1 where w: "walk t i True (Suc l) m = (c, m1)" by fastforce
  show "(r = Inr () \<or> r = Inl ENOMEM) \<and>
    (\<exists>T'. changes R T m T' m' (Suc l) t I (\<lambda>va v. if r = Inr () \<and> pt_index (Suc l) va = i \<and> P va then G va else v))"
  proof (cases c)
    case None
    then obtain T' where "changes R T m T' m' (Suc l) t I (\<lambda>va v. v)" "r = Inl ENOMEM"
      using r w walk_create [OF ok i w] by auto
    then show ?thesis by (auto intro!: exI [of _ T'] elim!: changes_cong)
  next
    case (Some c)
    let ?g = "\<lambda>va v. if r = Inr () \<and> P va then G va else v"
    have o: "op c m1 = (r, m')" using r w Some by simp
    obtain T1 where T1: "changes R T m T1 m1 (Suc l) t I (\<lambda>va v. v)" "link (mc_mem m1 t i)" "table_at (mc_mem m1 t i) = c"
      using walk_create [OF ok i w] Some by auto
    have t: "tree_ok (mc_mem m1) (Suc l) t I" "foot (mc_mem m1) (Suc l) t I \<subseteq> T1" "frames_ok R m1 T1"
      using T1(1) changes_foot [OF T1(1) ok(2)] by (auto simp: changes_def upd_def)
    then have "tree_ok (mc_mem m1) l c full" "foot (mc_mem m1) l c full \<subseteq> T1" using T1 i by auto
    then obtain T2 where "r = Inr () \<or> r = Inl ENOMEM" "changes R T1 m1 T2 m' l c full ?g"
      using op t(3) o unfolding installs_def by blast
    note T2 = this
    then have c: "changes R T1 m1 T2 m' (Suc l) t I (\<lambda>va v. if pt_index (Suc l) va = i then ?g va v else v)"
      using changes_lift [OF t(1,2) i T1(2)] T1(3) by blast
    have "changes R T m T2 m' (Suc l) t I (\<lambda>va v. if r = Inr () \<and> pt_index (Suc l) va = i \<and> P va then G va else v)"
      by (rule changes_cong [OF changes_trans [OF T1(1) c]]) auto
    then show ?thesis using T2(1) by blast
  qed
qed

lemma map_one_installs:
  assumes L: "L \<le> 2" "frame_addr pa" "flags_ok flags" and i: "pt_index 3 va \<in> I"
  shows "installs R (\<lambda>t. map_one t va pa flags L) 3 I (same_page L va) (entry_view L (leaf_entry L pa flags))"
proof -
  let ?e = "leaf_entry L pa flags" and ?i = "\<lambda>l. pt_index l va"
  note leaf = installs_leaf [OF leaf_entry_ok(1) [OF L]]
  have n: "3 = Suc 2" "2 = Suc 1" "(1 :: nat) = Suc 0" by simp_all
  have full: "pt_index l va \<in> full" for l by simp
  note s3 = installs_step [where l = 2 and i = "?i 3" and I = I, unfolded n(1) [symmetric], OF _ i]
  note s2 = installs_step [where l = 1 and i = "?i 2", unfolded n(2) [symmetric], OF _ full [of 2]]
  note s1 = installs_step [where l = 0 and i = "?i 1", folded One_nat_def, OF _ full [of 1]]
  have m: "(\<lambda>t. map_one t va pa flags L) =
    (\<lambda>t m. case walk t (?i 3) True 3 m of (None, m) \<Rightarrow> (Inl ENOMEM, m)
     | (Some c, m) \<Rightarrow> (if L = 2 then (\<lambda>t m. (Inr (), set_entry t (?i 2) ?e m)) else (\<lambda>t m.
        case walk t (?i 2) True 2 m of (None, m) \<Rightarrow> (Inl ENOMEM, m)
         | (Some c, m) \<Rightarrow> (if L = 1 then (\<lambda>t m. (Inr (), set_entry t (?i 1) ?e m)) else (\<lambda>t m.
            case walk t (?i 1) True 1 m of (None, m) \<Rightarrow> (Inl ENOMEM, m)
             | (Some c, m) \<Rightarrow> (Inr (), set_entry c (?i 0) ?e m))) c m)) c m)"
    using L(1) by (intro ext) (auto simp: map_one_def leaf_entry_def split: option.splits prod.splits)
  consider "L = 2" | "L = 1" | "L = 0" using L(1) by linarith
  then show ?thesis
  proof cases
    case 1
    show ?thesis using s3 [OF leaf [of R "?i 2" full, unfolded 1]] unfolding m by (simp add: same_page_steps conj_ac 1 cong: option.case_cong prod.case_cong)
  next
    case 2
    show ?thesis using s3 [OF s2 [OF leaf [of R "?i 1" full, unfolded 2]]] unfolding m by (simp add: same_page_steps conj_ac 2 cong: option.case_cong prod.case_cong)
  next
    case 3
    show ?thesis using s3 [OF s2 [OF s1 [OF leaf [of R "?i 0" full, unfolded 3]]]] unfolding m by (simp add: same_page_steps conj_ac 3 cong: option.case_cong prod.case_cong)
  qed
qed

end
