(* ===== verification/RK_PagingRange.thy ===== *)
theory RK_PagingRange
  imports RK_PagingMap
begin

unbundle bit_operations_syntax

text \<open>
  Mapping a range of the user half of an address space: the pages one entry covers are an interval
  of addresses, and a call of \<open>arch_map\<close> updates the map from pages to frames on a prefix of its range.
\<close>

section \<open>Addresses\<close>

text \<open>The tables read bits 12 to 47 of an address.\<close>

definition low :: "u64 \<Rightarrow> u64" where
  "low va = take_bit 48 va"

definition page_base :: "u64 \<Rightarrow> u64" where
  "page_base va = va AND NOT (mask 12)"

lemma low_less: "unat (low va) < 2 ^ 48"
  using take_bit_nat_less_exp [of 48 "unat va"] by (simp add: low_def unsigned_take_bit_eq)

lemma pt_index_nat:
  assumes "k \<le> 3"
  shows "pt_index k va = unat (low va) div 2 ^ (12 + 9 * k) mod 512"
proof -
  let ?n = "12 + 9 * k"
  have n: "?n + 9 \<le> 48" using assms by simp
  have "drop_bit ?n va AND 0x1FF = take_bit 9 (drop_bit ?n va)"
    by (simp add: take_bit_eq_mask mask_eq_exp_minus_1)
  also have "\<dots> = take_bit 9 (drop_bit ?n (low va))"
    by (rule bit_word_eqI) (use n in \<open>auto simp: low_def bit_simps\<close>)
  finally have "pt_index k va = unat (take_bit 9 (drop_bit ?n (low va)))" by (simp add: pt_index_def)
  also have "\<dots> = take_bit 9 (drop_bit ?n (unat (low va)))"
  proof -
    have "take_bit 64 (unat (low va)) = unat (low va)"
      using low_less [of va] by (intro take_bit_nat_eq_self) simp
    then show ?thesis by (simp add: unsigned_take_bit_eq unsigned_drop_bit_eq min_def)
  qed
  finally show ?thesis by (simp add: take_bit_eq_mod drop_bit_eq_div)
qed

lemma low_user: "pt_index 3 va < 256 \<longleftrightarrow> unat (low va) < 2 ^ 47"
proof -
  have "unat (low va) div 2 ^ 39 < 512" using low_less [of va] by (simp add: less_mult_imp_div_less)
  then have "pt_index 3 va = unat (low va) div 2 ^ 39" by (simp add: pt_index_nat)
  then show ?thesis by (simp add: div_less_iff_less_mult)
qed

lemma low_id: "unat va < 2 ^ 48 \<Longrightarrow> low va = va"
  by (metis low_def take_bit_nat_eq_self unsigned_take_bit_eq unsigned_word_eqI)

lemma aligned_nat: "n < 64 \<Longrightarrow> is_aligned x n \<longleftrightarrow> unat x mod 2 ^ n = 0"
proof -
  assume n: "n < 64"
  have "push_bit n (1 :: u64) - 1 = mask n" by (simp add: mask_eq_exp_minus_1 push_bit_eq_mult)
  then have "is_aligned x n \<longleftrightarrow> take_bit n x = 0" by (simp add: is_aligned_def take_bit_eq_mask)
  also have "\<dots> \<longleftrightarrow> unat (take_bit n x) = 0" by (simp add: unsigned_eq_0_iff)
  also have "\<dots> \<longleftrightarrow> take_bit n (unat x) = 0" by (simp only: unsigned_take_bit_eq)
  finally show ?thesis by (simp add: take_bit_eq_mod)
qed

lemma aligned_bit: "n < 64 \<Longrightarrow> is_aligned x n \<Longrightarrow> k < n \<Longrightarrow> \<not> bit x k"
proof -
  assume n: "n < 64" "is_aligned x n" "k < n"
  have "push_bit n (1 :: u64) - 1 = mask n" by (simp add: mask_eq_exp_minus_1 push_bit_eq_mult)
  then have "take_bit n x = 0" using n(2) by (simp add: is_aligned_def take_bit_eq_mask)
  then have "\<not> bit (take_bit n x) k" by simp
  then show ?thesis using n(3) by (simp add: bit_take_bit_iff)
qed

lemma digits_eq:
  fixes a b :: nat
  assumes "a < 512 * p" "b < 512 * p"
  shows "(a div p) mod 512 = (b div p) mod 512 \<longleftrightarrow> a div p = b div p"
  using assms by (simp add: less_mult_imp_div_less)

lemma digits_step:
  fixes a b :: nat
  shows "a div p = b div p \<longleftrightarrow> a div (p * 512) = b div (p * 512) \<and> (a div p) mod 512 = (b div p) mod 512"
  by (metis div_mult2_eq div_mult_mod_eq)

lemma same_page_div:
  assumes "L \<le> 2"
  shows "same_page L va va' \<longleftrightarrow> unat (low va') div 2 ^ (12 + 9 * L) = unat (low va) div 2 ^ (12 + 9 * L)"
proof -
  let ?a = "unat (low va)" and ?b = "unat (low va')"
  have l: "?a < 2 ^ 48" "?b < 2 ^ 48" by (rule low_less)+
  have top: "?b div 2 ^ 39 = ?a div 2 ^ 39 \<longleftrightarrow> pt_index 3 va' = pt_index 3 va"
    using digits_eq [of ?b "2 ^ 39" ?a] l by (simp add: pt_index_nat)
  have s: "?b div 2 ^ (12 + 9 * k) = ?a div 2 ^ (12 + 9 * k) \<longleftrightarrow>
      ?b div 2 ^ (12 + 9 * Suc k) = ?a div 2 ^ (12 + 9 * Suc k) \<and> pt_index k va' = pt_index k va" if "k \<le> 3" for k
  proof -
    have "(2 :: nat) ^ (12 + 9 * Suc k) = 2 ^ (12 + 9 * k) * 512" by (simp add: power_add)
    then show ?thesis
      using digits_step [of ?b "2 ^ (12 + 9 * k)" ?a] that by (simp only: pt_index_nat)
  qed
  note S = s [of 0] s [of 1] s [of 2]
  consider "L = 0" | "L = 1" | "L = 2" using assms by linarith
  then show ?thesis using S top by cases (auto simp: same_page_steps)
qed

lemma same_page_range:
  assumes L: "L \<le> 2" and va: "unat va < 2 ^ 47" "is_aligned va (12 + 9 * L)"
  shows "same_page L va va' \<longleftrightarrow> unat va \<le> unat (low va') \<and> unat (low va') < unat va + 2 ^ (12 + 9 * L)"
proof -
  let ?p = "2 ^ (12 + 9 * L) :: nat"
  have "unat va mod ?p = 0" using va(2) L by (simp add: aligned_nat)
  then obtain q where q: "unat va = ?p * q" by (metis mod_eq_0_iff_dvd dvd_def)
  have "low va = va" using va(1) by (intro low_id) simp
  then have "same_page L va va' \<longleftrightarrow> unat (low va') div ?p = q" using same_page_div [OF L, of va va'] q by simp
  also have "\<dots> \<longleftrightarrow> q * ?p \<le> unat (low va') \<and> unat (low va') < Suc q * ?p"
    using div_nat_eqI [of ?p q "unat (low va')"] by (metis div_less_iff_less_mult less_eq_div_iff_mult_less_eq less_Suc_eq_le order_antisym order_refl lessI mult.commute zero_less_numeral zero_less_power)
  finally show ?thesis using q by (simp add: ac_simps)
qed

section \<open>What an installed leaf shows\<close>

lemma leaf_shows:
  assumes L: "L \<le> 2" "frame_addr pa" "flags_ok flags" and al: "is_aligned va (12 + 9 * L)" "is_aligned pa (12 + 9 * L)"
    and va: "unat va < 2 ^ 47" and s: "same_page L va va'"
  shows "entry_view L (leaf_entry L pa flags) va' = Some (pa + page_base (low va') - va, flags)"
proof -
  let ?e = "leaf_entry L pa flags" and ?n = "12 + 9 * L"
  have n: "?n < 64" using L(1) by simp
  note B = bit_leaf_entry [OF L(1,2)]
  have zero: "\<not> bit va k" "\<not> bit pa k" if "k < ?n" for k using al aligned_bit [OF n] that by blast+
  have "drop_bit ?n (unat (low va')) = drop_bit ?n (unat va)"
    using s same_page_div [OF L(1), of va va'] low_id [of va] va by (simp add: drop_bit_eq_div)
  then have d: "drop_bit ?n (low va') = drop_bit ?n va" by (metis unat_drop_bit_eq unsigned_word_eqI)
  have up: "bit (low va') k = bit va k" if "?n \<le> k" for k
  proof -
    have "bit (drop_bit ?n (low va')) (k - ?n) = bit (drop_bit ?n va) (k - ?n)" by (simp only: d)
    then show ?thesis using that by (simp add: bit_drop_bit_eq)
  qed
  have lowb: "bit (low va') k = bit va' k" if "k < ?n" for k using that L(1) by (simp add: low_def bit_take_bit_iff)
  have base: "page_base (low va') = va + page_bits L va'"
  proof -
    have "va AND page_bits L va' = 0"
      by (rule bit_word_eqI) (use zero in \<open>auto simp: bit_and_iff pte_bits\<close>)
    then have "va + page_bits L va' = va OR page_bits L va'" by (rule disjunctive_add_eq_or)
    moreover have "page_base (low va') = va OR page_bits L va'"
    proof (rule bit_word_eqI)
      fix k
      assume "k < LENGTH(64)"
      then show "bit (page_base (low va')) k = bit (va OR page_bits L va') k"
        using zero(1) [of k] up [of k] lowb [of k] by (cases "k < ?n") (auto simp: page_base_def bit_simps pte_bits)
    qed
    ultimately show ?thesis by simp
  qed
  have "(?e AND PTE_ADDR_MASK) OR page_bits L va' = pa + page_bits L va'"
  proof -
    have "pa AND page_bits L va' = 0"
      by (rule bit_word_eqI) (use zero in \<open>auto simp: bit_and_iff pte_bits\<close>)
    then have "pa + page_bits L va' = pa OR page_bits L va'" by (rule disjunctive_add_eq_or)
    moreover have "(?e AND PTE_ADDR_MASK) OR page_bits L va' = pa OR page_bits L va'"
    proof (rule bit_word_eqI)
      fix k
      assume "k < LENGTH(64)"
      then show "bit ((?e AND PTE_ADDR_MASK) OR page_bits L va') k = bit (pa OR page_bits L va') k"
        using B [of k] zero(2) [of k] L(2,3) by (auto simp: frame_addr_def flags_ok_def bit_or_iff bit_and_iff pte_bits)
    qed
    ultimately show ?thesis by simp
  qed
  moreover have "?e AND NOT PTE_ADDR_MASK AND NOT PTE_HUGE = flags"
  proof (rule bit_word_eqI)
    fix k
    assume "k < LENGTH(64)"
    then show "bit (?e AND NOT PTE_ADDR_MASK AND NOT PTE_HUGE) k = bit flags k"
      using B [of k] zero(2) [of k] L(2,3) by (auto simp: frame_addr_def flags_ok_def bit_and_iff bit_not_iff pte_bits)
  qed
  ultimately show ?thesis
    using leaf_entry_ok(2) [OF L] base by (simp add: entry_view_def leaf_view_def)
qed

section \<open>A range\<close>

text \<open>\<open>maps_to\<close> is the view after \<open>n\<close> bytes from \<open>va\<close> have been mapped to \<open>pa\<close>.\<close>

definition maps_to :: "u64 \<Rightarrow> u64 \<Rightarrow> nat \<Rightarrow> u64 \<Rightarrow> u64 \<Rightarrow> (u64 \<times> u64) option \<Rightarrow> (u64 \<times> u64) option" where
  "maps_to va pa n flags va' v =
     (if unat va \<le> unat (low va') \<and> unat (low va') < unat va + n
      then Some (pa + page_base (low va') - va, flags) else v)"

lemma maps_to_0: "maps_to va pa 0 flags = (\<lambda>va' v. v)"
  by (intro ext) (auto simp: maps_to_def)

lemma maps_to_add:
  assumes "unat (va + of_nat p) = unat va + p"
  shows "maps_to (va + of_nat p) (pa + of_nat p) n flags va' (maps_to va pa p flags va' v) = maps_to va pa (p + n) flags va' v"
proof -
  have "pa + of_nat p + page_base (low va') - (va + of_nat p) = pa + page_base (low va') - va" by simp
  then show ?thesis using assms by (auto simp: maps_to_def)
qed

lemma map_level_facts:
  assumes "map_level gib va pa left = L" "is_aligned va 12" "is_aligned pa 12" "0 < left" "left mod 4096 = 0"
  shows "L \<le> 2" "is_aligned va (12 + 9 * L)" "is_aligned pa (12 + 9 * L)" "2 ^ (12 + 9 * L) \<le> left"
    "(left - 2 ^ (12 + 9 * L)) mod 4096 = 0"
proof -
  have "4096 \<le> left" using assms(4,5) by (metis mod_less not_gr_zero not_le)
  moreover have "(left - x) mod 4096 = 0" if "x mod 4096 = 0" for x :: nat
    using assms(5) that by (metis dvd_diff_nat mod_0_imp_dvd mod_eq_0_iff_dvd)
  ultimately show "L \<le> 2" "is_aligned va (12 + 9 * L)" "is_aligned pa (12 + 9 * L)" "2 ^ (12 + 9 * L) \<le> left"
    "(left - 2 ^ (12 + 9 * L)) mod 4096 = 0"
    using assms(1-3) by (auto simp: map_level_def split: if_splits)
qed

lemma aligned_add:
  assumes "L \<le> 2" "is_aligned x 12" "unat x + 2 ^ (12 + 9 * L) < 2 ^ 64"
  shows "is_aligned (x + of_nat (2 ^ (12 + 9 * L))) 12" "unat (x + of_nat (2 ^ (12 + 9 * L))) = unat x + 2 ^ (12 + 9 * L)"
proof -
  let ?p = "2 ^ (12 + 9 * L) :: nat"
  have "?p < 2 ^ 64" using assms(3) by linarith
  then have p: "unat (of_nat ?p :: u64) = ?p" unfolding unat_of_nat by simp
  then show u: "unat (x + of_nat ?p) = unat x + ?p" using assms(3) by (simp add: unat_word_ariths)
  have "?p mod 4096 = 0" by (simp add: power_add)
  then show "is_aligned (x + of_nat ?p) 12"
    using assms(2) u by (simp add: aligned_nat mod_add_eq [symmetric])
qed

lemma frame_addrI:
  assumes "is_aligned pa 12" "unat pa < 2 ^ 52"
  shows "frame_addr pa"
  unfolding frame_addr_def
proof (intro allI impI conjI)
  fix n
  assume n: "bit pa n"
  then show "12 \<le> n" using aligned_bit [OF _ assms(1), of n] by fastforce
  have "bit (unat pa) n" using n bit_imp_le_length [OF n] by (simp add: bit_unsigned_iff)
  moreover have "unat pa = take_bit 52 (unat pa)" using assms(2) by (simp add: take_bit_nat_eq_self)
  ultimately show "n < 52" by (metis bit_take_bit_iff)
qed

lemma map_rounds_unfold:
  assumes "left \<noteq> 0" "L = map_level (mc_gib m) va pa left" "p = 2 ^ (12 + 9 * L)"
  shows "map_rounds t va pa left flags m =
    (case map_one t va pa flags L m of (Inl err, m) \<Rightarrow> (Inl err, m)
        | (Inr u, m) \<Rightarrow> map_rounds t (va + of_nat p) (pa + of_nat p) (left - p) flags m)"
  unfolding assms(2,3) using assms(1) map_rounds.simps [of t va pa left flags m] by (simp add: Let_def)

text \<open>What holds before a round: a good tree, aligned addresses, and room for the range.\<close>

definition round_ok :: "(nat \<times> nat) set \<Rightarrow> u64 set \<Rightarrow> u64 \<Rightarrow> u64 \<Rightarrow> u64 \<Rightarrow> nat \<Rightarrow> machine \<Rightarrow> bool" where
  "round_ok R T t va pa left m \<longleftrightarrow>
     tree_ok (mc_mem m) 3 t {..<256} \<and> foot (mc_mem m) 3 t {..<256} \<subseteq> T \<and> frames_ok R m T \<and>
     is_aligned va 12 \<and> is_aligned pa 12 \<and> left mod 4096 = 0 \<and> unat va + left \<le> 2 ^ 47 \<and> unat pa + left \<le> 2 ^ 52"

lemma one_round:
  assumes ok: "round_ok R T t va pa left m" and f: "flags_ok flags" and l: "left \<noteq> 0"
    and L: "L = map_level (mc_gib m) va pa left" and o: "map_one t va pa flags L m = (r, m1)"
  shows "2 ^ (12 + 9 * L) \<le> left \<and> unat (va + of_nat (2 ^ (12 + 9 * L))) = unat va + 2 ^ (12 + 9 * L) \<and>
    (\<exists>T1. (r = Inl ENOMEM \<and> changes R T m T1 m1 3 t {..<256} (maps_to va pa 0 flags) \<or>
      r = Inr () \<and> changes R T m T1 m1 3 t {..<256} (maps_to va pa (2 ^ (12 + 9 * L)) flags) \<and>
      round_ok R T1 t (va + of_nat (2 ^ (12 + 9 * L))) (pa + of_nat (2 ^ (12 + 9 * L))) (left - 2 ^ (12 + 9 * L)) m1))"
proof -
  let ?p = "2 ^ (12 + 9 * L) :: nat"
  have ok': "tree_ok (mc_mem m) 3 t {..<256}" "foot (mc_mem m) 3 t {..<256} \<subseteq> T" "frames_ok R m T"
    "is_aligned va 12" "is_aligned pa 12" "left mod 4096 = 0" "unat va + left \<le> 2 ^ 47" "unat pa + left \<le> 2 ^ 52"
    using ok by (auto simp: round_ok_def)
  have L': "L \<le> 2" "is_aligned va (12 + 9 * L)" "is_aligned pa (12 + 9 * L)" "?p \<le> left" "(left - ?p) mod 4096 = 0"
    using map_level_facts [OF L [symmetric] ok'(4,5) _ ok'(6)] l by auto
  have va: "unat va < 2 ^ 47" using ok'(7) l by linarith
  have pa: "frame_addr pa" by (rule frame_addrI [OF ok'(5)]) (use ok'(8) l in linarith)
  have i: "pt_index 3 va \<in> {..<256}" using va low_id [of va] by (simp add: low_user)
  let ?g = "\<lambda>va' v. if r = Inr () \<and> same_page L va va' then entry_view L (leaf_entry L pa flags) va' else v"
  obtain T1 where T1: "r = Inr () \<or> r = Inl ENOMEM" "changes R T m T1 m1 3 t {..<256} ?g"
    using map_one_installs [OF L'(1) pa f i] ok'(1-3) o unfolding installs_def by blast
  have b: "unat va + ?p < 2 ^ 64" "unat pa + ?p < 2 ^ 64" using ok'(7,8) L'(4) by simp_all
  note up = aligned_add [OF L'(1) ok'(4) b(1)] aligned_add [OF L'(1) ok'(5) b(2)]
  show ?thesis
  proof (cases "r = Inr ()")
    case True
    have "?g va' v = maps_to va pa ?p flags va' v" for va' v
      using True leaf_shows [OF L'(1) pa f L'(2,3) va] same_page_range [OF L'(1) va L'(2)] by (simp add: maps_to_def)
    then have c: "changes R T m T1 m1 3 t {..<256} (maps_to va pa ?p flags)" using changes_cong [OF T1(2)] by blast
    have "unat va + ?p + (left - ?p) \<le> 2 ^ 47" "unat pa + ?p + (left - ?p) \<le> 2 ^ 52" using ok'(7,8) L'(4) by simp_all
    then have "round_ok R T1 t (va + of_nat ?p) (pa + of_nat ?p) (left - ?p) m1"
      using c changes_foot [OF c ok'(2)] up L'(5) unfolding round_ok_def changes_def upd_def by presburger
    then show ?thesis using True c up(2) L'(4) by blast
  next
    case False
    then have "changes R T m T1 m1 3 t {..<256} (maps_to va pa 0 flags)" using T1(2) by (simp add: maps_to_0)
    then show ?thesis using False T1(1) up(2) L'(4) by blast
  qed
qed

lemma map_rounds_changes:
  assumes "round_ok R T t va pa left m" "flags_ok flags" "map_rounds t va pa left flags m = (r, m')"
  shows "\<exists>T' n. n \<le> left \<and> (r = Inr () \<and> n = left \<or> r = Inl ENOMEM) \<and> changes R T m T' m' 3 t {..<256} (maps_to va pa n flags)"
  using assms
proof (induction left arbitrary: va pa m T rule: less_induct)
  case (less left)
  show ?case
  proof (cases "left = 0")
    case True
    then have "r = Inr ()" "m' = m" using less.prems(3) map_rounds.simps [of t va pa left flags m] by auto
    then show ?thesis
      using changes_refl [of m 3 t "{..<256}" R T] True maps_to_0 [of va pa flags] less.prems(1)
      unfolding round_ok_def by (intro exI [of _ T] exI [of _ 0]) simp
  next
    case False
    define L where "L = map_level (mc_gib m) va pa left"
    define p where "p = (2 :: nat) ^ (12 + 9 * L)"
    obtain r1 m1 where o: "map_one t va pa flags L m = (r1, m1)" by fastforce
    note unf = map_rounds_unfold [OF False L_def p_def, of t flags, unfolded o prod.case]
    obtain T1 where p: "p \<le> left" "unat (va + of_nat p) = unat va + p" and
      T1: "r1 = Inl ENOMEM \<and> changes R T m T1 m1 3 t {..<256} (maps_to va pa 0 flags) \<or>
        r1 = Inr () \<and> changes R T m T1 m1 3 t {..<256} (maps_to va pa p flags) \<and>
        round_ok R T1 t (va + of_nat p) (pa + of_nat p) (left - p) m1"
      using one_round [OF less.prems(1,2) False L_def o] unfolding p_def by blast
    from T1 show ?thesis
    proof
      assume "r1 = Inl ENOMEM \<and> changes R T m T1 m1 3 t {..<256} (maps_to va pa 0 flags)"
      then show ?thesis using unf less.prems(3) by (intro exI [of _ T1] exI [of _ 0]) simp
    next
      assume a: "r1 = Inr () \<and> changes R T m T1 m1 3 t {..<256} (maps_to va pa p flags) \<and>
        round_ok R T1 t (va + of_nat p) (pa + of_nat p) (left - p) m1"
      have "0 < p" by (simp add: p_def)
      then have lt: "left - p < left" using False by simp
      have "map_rounds t (va + of_nat p) (pa + of_nat p) (left - p) flags m1 = (r, m')"
        using unf less.prems(3) a by simp
      then obtain T2 n where n: "n \<le> left - p" "r = Inr () \<and> n = left - p \<or> r = Inl ENOMEM"
        "changes R T1 m1 T2 m' 3 t {..<256} (maps_to (va + of_nat p) (pa + of_nat p) n flags)"
        using less.IH [OF lt _ less.prems(2)] a by blast
      have "changes R T m T2 m' 3 t {..<256} (maps_to va pa (p + n) flags)"
        using changes_trans [OF conjunct1 [OF conjunct2 [OF a]] n(3)] by (simp add: maps_to_add [OF p(2)])
      then show ?thesis using n(1,2) p(1) by (intro exI [of _ T2] exI [of _ "p + n"]) auto
    qed
  qed
qed

end
