(* ===== verification/RK_PagingProps.thy ===== *)
theory RK_PagingProps
  imports RK_PagingRange
begin

unbundle bit_operations_syntax

text \<open>
  What the operations of \<open>arch/x86_64/paging.c\<close> mean for \<open>arch_translate\<close>, and where they do not
  do what their callers take them to do.
\<close>

section \<open>Translation reads the view\<close>

definition shown :: "u64 \<Rightarrow> u64 \<times> u64 \<Rightarrow> u64 \<times> u32" where
  "shown va v = (case v of (frame, flags) \<Rightarrow> (frame + (va AND mask 12), pte_to_prot flags))"

lemma leaf_shown:
  assumes l: "l \<le> 2" and a: "entry_aligned l e"
  shows "shown va (leaf_view l e va) = ((e AND PTE_ADDR_MASK) + (va AND mask (12 + 9 * l)), pte_to_prot e)"
proof -
  let ?n = "12 + 9 * l"
  let ?f = "e AND PTE_ADDR_MASK"
  have e: "\<not> bit e k" if "12 \<le> k" "k < ?n" for k using a that by (simp add: entry_aligned_def)
  have "?f AND page_bits l va = 0" "(?f OR page_bits l va) AND (va AND mask 12) = 0" "?f AND (va AND mask ?n) = 0"
    by (rule bit_word_eqI; use e in \<open>auto simp: bit_and_iff bit_or_iff bit_mask_iff pte_bits\<close>)+
  then have s: "(?f OR page_bits l va) + (va AND mask 12) = (?f OR page_bits l va) OR (va AND mask 12)"
    "?f + (va AND mask ?n) = ?f OR (va AND mask ?n)"
    using disjunctive_add_eq_or by blast+
  have "(?f OR page_bits l va) OR (va AND mask 12) = ?f OR (va AND mask ?n)"
    by (rule bit_word_eqI) (use l in \<open>auto simp: bit_and_iff bit_or_iff bit_mask_iff pte_bits\<close>)
  moreover have "pte_to_prot (e AND NOT PTE_ADDR_MASK AND NOT PTE_HUGE) = pte_to_prot e"
    by (simp add: pte_to_prot_def bit_and_iff bit_not_iff pte_bits)
  ultimately show ?thesis unfolding shown_def leaf_view_def prod.case s by simp
qed

text \<open>The leaf for an address: its table, its index and its level. A huge entry is a leaf even if not present.\<close>

fun leaf_at :: "memory \<Rightarrow> nat \<Rightarrow> u64 \<Rightarrow> u64 \<Rightarrow> (u64 \<times> nat \<times> nat) option" where
  "leaf_at f 0 t va = Some (t, pt_index 0 va, 0)"
| "leaf_at f (Suc l) t va =
     (let e = f t (pt_index (Suc l) va) in
      if l < 2 \<and> bit e 7 then Some (t, pt_index (Suc l) va, Suc l)
      else if link e then leaf_at f l (table_at e) va else None)"

lemma leaf_at_steps:
  "leaf_at f 3 t va = (let e = f t (pt_index 3 va) in if link e then leaf_at f 2 (table_at e) va else None)"
  "leaf_at f 2 t va = (let e = f t (pt_index 2 va) in
     if bit e 7 then Some (t, pt_index 2 va, 2) else if link e then leaf_at f 1 (table_at e) va else None)"
  "leaf_at f 1 t va = (let e = f t (pt_index 1 va) in
     if bit e 7 then Some (t, pt_index 1 va, 1) else if link e then leaf_at f 0 (table_at e) va else None)"
  using leaf_at.simps(2) [of f 2 t va] leaf_at.simps(2) [of f 1 t va] leaf_at.simps(2) [of f 0 t va]
  by (simp_all add: Let_def numeral_2_eq_2 numeral_3_eq_3)

lemma find_leaf_at: "find_leaf t va m = map_option (\<lambda>(t, i, l). (t, i, 2 ^ (12 + 9 * l))) (leaf_at (mc_mem m) 3 t va)"
proof -
  let ?f = "mc_mem m"
  let ?e3 = "?f t (pt_index 3 va)"
  let ?e2 = "?f (table_at ?e3) (pt_index 2 va)"
  let ?e1 = "?f (table_at ?e2) (pt_index 1 va)"
  have w: "walk t i False l m = (if link (?f t i) then Some (table_at (?f t i)) else None, m)" for t i l
    by (simp add: walk_def Let_def link_def)
  show ?thesis
    by (cases "link ?e3"; cases "bit ?e2 7"; cases "link ?e2"; cases "bit ?e1 7"; cases "link ?e1")
      (simp_all add: find_leaf_def find_leaf_ex_def w leaf_at_steps Let_def)
qed

lemma tview_at:
  assumes "tree_ok f l t I" "pt_index l va \<in> I" "l \<le> 3"
  shows "tview f l t va = (case leaf_at f l t va of None \<Rightarrow> None | Some (t', i, k) \<Rightarrow> entry_view k (f t' i) va) \<and>
    (\<forall>t' i k. leaf_at f l t va = Some (t', i, k) \<longrightarrow> k \<le> 2 \<and> (bit (f t' i) 0 \<longrightarrow> entry_aligned k (f t' i)))"
  using assms
proof (induction l arbitrary: t I)
  case 0
  have "entry_aligned 0 e" for e by (auto simp: entry_aligned_def)
  then show ?case by (simp add: Let_def entry_view_def)
next
  case (Suc l)
  let ?e = "f t (pt_index (Suc l) va)"
  have h: "bit ?e 0 \<Longrightarrow> bit ?e 7 \<Longrightarrow> l < 2 \<and> entry_aligned (Suc l) ?e" using Suc.prems by auto
  show ?case
  proof (cases "link ?e")
    case True
    then have "tree_ok f l (table_at ?e) full" using Suc.prems by auto
    then show ?thesis using Suc.IH [of "table_at ?e" full] Suc.prems True by (simp add: link_def Let_def)
  next
    case False
    then show ?thesis using h by (auto simp: link_def Let_def entry_view_def)
  qed
qed

lemma translate_view:
  assumes ok: "tree_ok (mc_mem m) 3 (root_of pt m) I" and i: "pt_index 3 va \<in> I"
  shows "arch_translate pt va m = map_option (shown va) (tview (mc_mem m) 3 (root_of pt m) va)"
proof (cases "leaf_at (mc_mem m) 3 (root_of pt m) va")
  case None
  then show ?thesis using tview_at [OF ok i] by (simp add: arch_translate_def find_leaf_at)
next
  case (Some x)
  obtain t' j k where x: "x = (t', j, k)" by (cases x)
  let ?e = "mc_mem m t' j"
  have k: "k \<le> 2" "bit ?e 0 \<Longrightarrow> entry_aligned k ?e" and v: "tview (mc_mem m) 3 (root_of pt m) va = entry_view k ?e va"
    using tview_at [OF ok i] Some x by auto
  have "(2 :: u64) ^ (12 + 9 * k) - 1 = mask (12 + 9 * k)" by (simp add: mask_eq_exp_minus_1)
  then show ?thesis
    using Some x v leaf_shown [OF k(1) k(2), of va]
    by (simp add: arch_translate_def find_leaf_at entry_view_def Let_def)
qed

lemma leaf_at_level: "leaf_at f l t va = Some (t', i, k) \<Longrightarrow> k \<le> l"
  by (induction l arbitrary: t) (auto simp: Let_def split: if_splits dest: le_SucI)

text \<open>A new entry in the place of a leaf.\<close>

lemma upd_at:
  assumes "tree_ok f l t I" "pt_index l va \<in> I" "leaf_at f l t va = Some (t', i, k)" "leaf_ok k e"
  shows "upd f (f(t' := (f t')(i := e))) l t I {}
    (\<lambda>va' v. if \<forall>j \<in> {k..l}. pt_index j va' = pt_index j va then entry_view k e va' else v)"
  using assms
proof (induction l arbitrary: t I)
  case 0
  then have e: "t' = t" "i = pt_index 0 va" "k = 0" by simp_all
  have "upd f (f(t := (f t)(i := e))) 0 t I {} (\<lambda>va' v. if pt_index 0 va' = i then entry_view 0 e va' else v)"
    by (rule upd_leaf) (use 0 e in simp_all)
  then show ?case unfolding e by (rule upd_cong) simp
next
  case (Suc l)
  let ?e = "f t (pt_index (Suc l) va)"
  show ?case
  proof (cases "l < 2 \<and> bit ?e 7")
    case True
    then have e: "t' = t" "i = pt_index (Suc l) va" "k = Suc l" using Suc.prems(3) by (auto simp: Let_def)
    have "upd f (f(t := (f t)(i := e))) (Suc l) t I {} (\<lambda>va' v. if pt_index (Suc l) va' = i then entry_view (Suc l) e va' else v)"
      by (rule upd_leaf) (use Suc.prems(1,4) e in simp_all)
    then show ?thesis unfolding e by (rule upd_cong) simp
  next
    case False
    then have l: "link ?e" "leaf_at f l (table_at ?e) va = Some (t', i, k)"
      using Suc.prems(3) by (auto simp: Let_def split: if_splits)
    have "tree_ok f l (table_at ?e) full" using Suc.prems(1,2) l(1) by auto
    note u = Suc.IH [OF this _ l(2) Suc.prems(4)]
    have "k \<le> l" by (rule leaf_at_level [OF l(2)])
    then have "{k..Suc l} = insert (Suc l) {k..l}" by auto
    then show ?thesis
      by (intro upd_cong [OF upd_lift [OF Suc.prems(1,2) l(1) u]]) auto
  qed
qed

lemma translate_cong:
  "mc_mem m' = mc_mem m \<Longrightarrow> mc_kernel_pml4 m' = mc_kernel_pml4 m \<Longrightarrow> arch_translate pt va m' = arch_translate pt va m"
  unfolding arch_translate_def find_leaf_at root_of_def by (simp only:)

section \<open>Mapping\<close>

lemma set_entry_mem: "mc_mem (set_entry t i e m) = (mc_mem m)(t := (mc_mem m t)(i := e))"
  by (simp add: set_entry_def)

lemma frames_ok_pmm: "mc_pmm m' = mc_pmm m \<Longrightarrow> frames_ok R m' T = frames_ok R m T"
  by (simp add: frames_ok_def)

lemma prot_flags_ok: "flags_ok (prot_to_pte nx prot)"
  by (auto simp: flags_ok_def prot_to_pte_def Let_def bit_or_iff pte_bits)

text \<open>The state between calls: the user half of the table \<open>pt\<close> is a tree of frames in use.\<close>

definition space_ok :: "(nat \<times> nat) set \<Rightarrow> u64 set \<Rightarrow> u64 \<Rightarrow> machine \<Rightarrow> bool" where
  "space_ok R T pt m \<longleftrightarrow> tree_ok (mc_mem m) 3 (root_of pt m) {..<256} \<and>
     foot (mc_mem m) 3 (root_of pt m) {..<256} \<subseteq> T \<and> frames_ok R m T"

definition user_va :: "u64 \<Rightarrow> bool" where
  "user_va va \<longleftrightarrow> unat va < 2 ^ 47"

lemma user_low: "user_va va \<Longrightarrow> low va = va" "user_va va \<Longrightarrow> pt_index 3 va \<in> {..<256}"
proof -
  assume "user_va va"
  then have "unat va < 2 ^ 47" by (simp add: user_va_def)
  then show "low va = va" by (intro low_id) simp
  then show "pt_index 3 va \<in> {..<256}" using \<open>unat va < 2 ^ 47\<close> by (simp add: low_user)
qed

lemma changes_translate:
  assumes ok: "space_ok R T pt m" and c: "changes R T m T' m' 3 (root_of pt m) {..<256} g"
  shows "space_ok R T' pt m'"
    "user_va va \<Longrightarrow> arch_translate pt va m' = map_option (shown va) (g va (tview (mc_mem m) 3 (root_of pt m) va))"
proof -
  have r: "root_of pt m' = root_of pt m" using c by (simp add: changes_def root_of_def)
  show s: "space_ok R T' pt m'"
    using ok c changes_foot [OF c] unfolding space_ok_def r by (auto simp: changes_def upd_def)
  assume va: "user_va va"
  have "arch_translate pt va m' = map_option (shown va) (tview (mc_mem m') 3 (root_of pt m') va)"
    by (rule translate_view [OF _ user_low(2) [OF va]]) (use s in \<open>simp add: space_ok_def\<close>)
  then show "arch_translate pt va m' = map_option (shown va) (g va (tview (mc_mem m) 3 (root_of pt m) va))"
    using c user_low(2) [OF va] by (simp add: changes_def upd_def r)
qed

lemma translate_shown:
  "space_ok R T pt m \<Longrightarrow> user_va va \<Longrightarrow> arch_translate pt va m = map_option (shown va) (tview (mc_mem m) 3 (root_of pt m) va)"
  using translate_view [of m pt "{..<256}"] user_low(2) by (simp add: space_ok_def)

lemma page_offset: "page_base va + (va AND mask 12) = va"
proof -
  have "page_base va AND (va AND mask 12) = 0"
    by (rule bit_word_eqI) (auto simp: page_base_def bit_and_iff bit_not_iff)
  then have "page_base va + (va AND mask 12) = page_base va OR (va AND mask 12)" by (rule disjunctive_add_eq_or)
  also have "\<dots> = va" by (rule bit_word_eqI) (auto simp: page_base_def bit_and_iff bit_or_iff bit_not_iff)
  finally show ?thesis .
qed

lemma maps_to_shown:
  assumes "user_va va'"
  shows "map_option (shown va') (maps_to va pa n flags va' v) =
    (if unat va \<le> unat va' \<and> unat va' < unat va + n then Some (pa + (va' - va), pte_to_prot flags) else map_option (shown va') v)"
proof -
  have "pa + page_base va' - va + (va' AND mask 12) = pa + (page_base va' + (va' AND mask 12)) - va" by (simp add: algebra_simps)
  then have "pa + page_base va' - va + (va' AND mask 12) = pa + (va' - va)" by (simp add: page_offset)
  then show ?thesis using user_low(1) [OF assms] by (simp add: maps_to_def shown_def)
qed

lemma arch_map_changes:
  assumes "space_ok R T pt m" "is_aligned va 12" "is_aligned pa 12" "len mod 4096 = 0"
    and "unat va + len \<le> 2 ^ 47" "unat pa + len \<le> 2 ^ 52" "arch_map pt va pa len prot m = (r, m')"
  shows "\<exists>T' n. n \<le> len \<and> (r = Inr () \<and> n = len \<or> r = Inl ENOMEM) \<and>
    changes R T m T' m' 3 (root_of pt m) {..<256} (maps_to va pa n (prot_to_pte (mc_nx m) prot))"
  by (rule map_rounds_changes [where left = len]) (use assms in \<open>simp_all add: round_ok_def space_ok_def arch_map_def prot_flags_ok\<close>)

text \<open>
  C8. Mapping a range of whole pages in the user half of a good address space updates the map that
  \<open>arch_translate\<close> reads on the range, and only there: every address in it now goes to its place in
  the physical range with the rights asked for. A call that runs out of memory has done so for a
  prefix of the range. Splitting a large page on the way changes nothing that is visible.
\<close>
theorem map_refines:
  assumes ok: "space_ok R T pt m" and al: "is_aligned va 12" "is_aligned pa 12" "len mod 4096 = 0"
    and b: "unat va + len \<le> 2 ^ 47" "unat pa + len \<le> 2 ^ 52" and r: "arch_map pt va pa len prot m = (r, m')"
  shows "\<exists>n T'. n \<le> len \<and> (r = Inr () \<and> n = len \<or> r = Inl ENOMEM) \<and> T \<subseteq> T' \<and> space_ok R T' pt m' \<and>
    (\<forall>va'. user_va va' \<longrightarrow> arch_translate pt va' m' =
       (if unat va \<le> unat va' \<and> unat va' < unat va + n
        then Some (pa + (va' - va), pte_to_prot (prot_to_pte (mc_nx m) prot)) else arch_translate pt va' m))"
proof -
  let ?flags = "prot_to_pte (mc_nx m) prot"
  obtain T' n where n: "n \<le> len" "r = Inr () \<and> n = len \<or> r = Inl ENOMEM"
    "changes R T m T' m' 3 (root_of pt m) {..<256} (maps_to va pa n ?flags)"
    using arch_map_changes [OF ok al b r] by blast
  have "T \<subseteq> T'" using n(3) by (simp add: changes_def)
  then show ?thesis
    using n(1,2) changes_translate [OF ok n(3)] translate_shown [OF ok] by (intro exI [of _ n] exI [of _ T']) (simp add: maps_to_shown)
qed

section \<open>Unmapping\<close>

lemma leaf_at_foot: "leaf_at f l t va = Some (t', i, k) \<Longrightarrow> pt_index l va \<in> I \<Longrightarrow> t' \<in> foot f l t I"
proof (induction l arbitrary: t I)
  case (Suc l)
  let ?e = "f t (pt_index (Suc l) va)"
  show ?case
  proof (cases "l < 2 \<and> bit ?e 7")
    case False
    then have "link ?e" "leaf_at f l (table_at ?e) va = Some (t', i, k)"
      using Suc.prems(1) by (auto simp: Let_def split: if_splits)
    then show ?thesis using Suc.IH [of "table_at ?e" full] Suc.prems(2) by auto
  qed (use Suc.prems in \<open>auto simp: Let_def\<close>)
qed simp

lemma leaf_at_cong:
  "(\<And>x. x \<in> foot f l t I \<Longrightarrow> f' x = f x) \<Longrightarrow> pt_index l va \<in> I \<Longrightarrow> leaf_at f' l t va = leaf_at f l t va"
proof (induction l arbitrary: t I)
  case (Suc l)
  let ?e = "f t (pt_index (Suc l) va)"
  have t: "f' t = f t" using Suc.prems(1) by simp
  have "leaf_at f' l (table_at ?e) va = leaf_at f l (table_at ?e) va" if "link ?e"
    using Suc.IH [of "table_at ?e" full] Suc.prems that by auto
  then show ?case by (simp add: t Let_def)
qed simp

text \<open>Changing the entry of a small page moves no leaf.\<close>

lemma leaf_at_stays:
  assumes "tree_ok f l t I" "pt_index l va \<in> I" "leaf_at f l t va = Some (t', i, 0)" "pt_index l va' \<in> I"
  shows "leaf_at (f(t' := (f t')(i := e))) l t va' = leaf_at f l t va'"
  using assms
proof (induction l arbitrary: t I)
  case (Suc l)
  let ?f = "f(t' := (f t')(i := e))"
  let ?c = "\<lambda>va. f t (pt_index (Suc l) va)"
  have l: "link (?c va)" "leaf_at f l (table_at (?c va)) va = Some (t', i, 0)"
    using Suc.prems(3) by (auto simp: Let_def split: if_splits)
  then have t': "t' \<in> foot f l (table_at (?c va)) full" using leaf_at_foot [of f l "table_at (?c va)" va t' i 0 full] by simp
  have "t \<notin> foot f l (table_at (?c va)) full" using Suc.prems(1,2) l(1) by auto
  then have t: "?f t = f t" using t' by auto
  have "leaf_at ?f l (table_at (?c va')) va' = leaf_at f l (table_at (?c va')) va'" if "link (?c va')"
  proof (cases "pt_index (Suc l) va' = pt_index (Suc l) va")
    case True
    have "tree_ok f l (table_at (?c va)) full" using Suc.prems(1,2) l(1) by auto
    have "leaf_at ?f l (table_at (?c va)) va' = leaf_at f l (table_at (?c va)) va'"
      by (rule Suc.IH [OF \<open>tree_ok f l _ full\<close> _ l(2)]) simp_all
    then show ?thesis by (simp only: True)
  next
    case False
    then have "foot f l (table_at (?c va')) full \<inter> foot f l (table_at (?c va)) full = {}"
      using Suc.prems(1,2,4) l(1) that by auto
    then have "?f x = f x" if "x \<in> foot f l (table_at (?c va')) full" for x using t' that by auto
    then show ?thesis by (rule leaf_at_cong [where I = full]) simp_all
  qed
  then show ?case unfolding leaf_at.simps t Let_def by simp
qed simp

text \<open>Clearing the leaf for an address.\<close>

lemma clear_leaf:
  assumes ok: "space_ok R T pt m" and va: "user_va va" and l: "leaf_at (mc_mem m) 3 (root_of pt m) va = Some (t, i, k)"
  shows "changes R T m T (set_entry t i 0 m) 3 (root_of pt m) {..<256} (\<lambda>va' v. if same_page k va va' then None else v)"
proof -
  have t: "tree_ok (mc_mem m) 3 (root_of pt m) {..<256}" "frames_ok R m T" using ok by (auto simp: space_ok_def)
  have "leaf_ok k (0 :: u64)" by (simp add: leaf_ok_def)
  from upd_at [OF t(1) user_low(2) [OF va] l this]
  have "upd (mc_mem m) (mc_mem (set_entry t i 0 m)) 3 (root_of pt m) {..<256} {} (\<lambda>va' v. if same_page k va va' then None else v)"
    unfolding set_entry_mem by (rule upd_cong) (simp add: same_page_def entry_view_def)
  then show ?thesis using t(2) by (simp add: changes_def frames_ok_def) (simp add: set_entry_def)
qed

lemma translate_none:
  assumes "space_ok R T pt m" "user_va va" "leaf_at (mc_mem m) 3 (root_of pt m) va = None"
  shows "arch_translate pt va m = None"
  using assms(3) by (simp add: arch_translate_def find_leaf_at)

text \<open>
  Clearing one leaf is all \<open>arch_unmap\<close> can do: asked for no more than the page that covers the
  address, it takes away the whole of that page, whatever its size, and nothing else. So a request for
  4 KiB inside a large page removes 2 MiB or 1 GiB.
\<close>
theorem unmap_takes_whole_page:
  assumes ok: "space_ok R T pt m" and va: "user_va va" "user_va va'"
    and l: "find_leaf (root_of pt m) va m = Some (t, i, psize)" and len: "0 < len" "len \<le> psize"
  shows "arch_translate pt va' (arch_unmap pt va len m) =
    (if unat va' div psize = unat va div psize then None else arch_translate pt va' m)"
proof -
  obtain k where k: "leaf_at (mc_mem m) 3 (root_of pt m) va = Some (t, i, k)" "psize = 2 ^ (12 + 9 * k)"
    using l by (auto simp: find_leaf_at)
  have k2: "k \<le> 2"
    using tview_at [of "mc_mem m" 3 "root_of pt m" "{..<256}" va] ok user_low(2) [OF va(1)] k(1) by (simp add: space_ok_def)
  have "arch_unmap pt va len m = set_entry t i 0 m"
    using l len by (simp add: arch_unmap_def unmap_rounds.simps [of "root_of pt m" va len m] unmap_rounds.simps [of _ _ 0])
  moreover have "same_page k va va' \<longleftrightarrow> unat va' div psize = unat va div psize"
    using same_page_div [OF k2, of va va'] user_low(1) va k(2) by simp
  ultimately show ?thesis
    using changes_translate(2) [OF ok clear_leaf [OF ok va(1) k(1)] va(2)] translate_shown [OF ok va(2)] by simp
qed

lemma changes_cong_view:
  "changes R T m T' m' l t I g \<Longrightarrow>
   (\<And>va. pt_index l va \<in> I \<Longrightarrow> g va (tview (mc_mem m) l t va) = h va (tview (mc_mem m) l t va)) \<Longrightarrow> changes R T m T' m' l t I h"
  unfolding changes_def upd_def by auto

lemma leaf_at_same: "(\<And>j. j \<le> l \<Longrightarrow> pt_index j va' = pt_index j va) \<Longrightarrow> leaf_at f l t va' = leaf_at f l t va"
  by (induction l arbitrary: t) (simp_all add: Let_def)

text \<open>\<open>small\<close>: no large page covers part of the \<open>n\<close> bytes from \<open>va\<close>.\<close>

definition small :: "memory \<Rightarrow> u64 \<Rightarrow> u64 \<Rightarrow> nat \<Rightarrow> bool" where
  "small f t va n \<longleftrightarrow> (\<forall>x t' i k. unat va \<le> unat x \<and> unat x < unat va + n \<longrightarrow> leaf_at f 3 t x = Some (t', i, k) \<longrightarrow> k = 0)"

definition gone :: "u64 \<Rightarrow> nat \<Rightarrow> u64 \<Rightarrow> (u64 \<times> u64) option \<Rightarrow> (u64 \<times> u64) option" where
  "gone va n va' v = (if unat va \<le> unat (low va') \<and> unat (low va') < unat va + n then None else v)"

lemma small_stays:
  assumes ok: "tree_ok f 3 t {..<256}" "user_va va" and l: "leaf_at f 3 t va = Some (t', j, 0)"
    and s: "small f t va n" "4096 \<le> n" and n: "unat va + n \<le> 2 ^ 47" "unat (va + 4096) = unat va + 4096"
  shows "small (f(t' := (f t')(j := e))) t (va + 4096) (n - 4096)"
  unfolding small_def
proof (intro allI impI)
  fix y t'' i' k'
  assume y: "unat (va + 4096) \<le> unat y \<and> unat y < unat (va + 4096) + (n - 4096)"
    and l': "leaf_at (f(t' := (f t')(j := e))) 3 t y = Some (t'', i', k')"
  have "user_va y" using y n s(2) by (simp add: user_va_def)
  then have "leaf_at (f(t' := (f t')(j := e))) 3 t y = leaf_at f 3 t y"
    by (intro leaf_at_stays [OF ok(1) user_low(2) [OF ok(2)] l] user_low(2))
  then have "leaf_at f 3 t y = Some (t'', i', k')" using l' by (simp only:)
  moreover have "unat va \<le> unat y \<and> unat y < unat va + n" using y n(2) s(2) by linarith
  ultimately show "k' = 0" using s(1) unfolding small_def by blast
qed

text \<open>One round, at a page whose leaf, if it has one, is small.\<close>

lemma unmap_round:
  assumes ok: "tree_ok (mc_mem m) 3 t {..<256}" "frames_ok R m T" and va: "is_aligned va 12" "unat va + 4096 \<le> 2 ^ 47"
    and s: "small (mc_mem m) t va n" "4096 \<le> n" and n: "unat va + n \<le> 2 ^ 47"
  shows "\<exists>m1. unmap_rounds t va n m = unmap_rounds t (va + 4096) (n - 4096) m1 \<and>
    changes R T m T m1 3 t {..<256} (gone va 4096) \<and> small (mc_mem m1) t (va + 4096) (n - 4096)"
proof -
  have u: "user_va va" using va(2) by (simp add: user_va_def)
  note i = user_low(2) [OF u]
  have next_va: "unat (va + 4096) = unat va + 4096"
    using aligned_add(2) [of 0 va] va by simp
  have same: "same_page 0 va va' \<longleftrightarrow> unat va \<le> unat (low va') \<and> unat (low va') < unat va + 4096" for va'
    using same_page_range [of 0 va va'] va u by (simp add: user_va_def)
  have rest: "unat va \<le> unat x \<and> unat x < unat va + n" if "unat (va + 4096) \<le> unat x" "unat x < unat (va + 4096) + (n - 4096)" for x :: u64
    using that next_va s(2) by linarith
  show ?thesis
  proof (cases "leaf_at (mc_mem m) 3 t va")
    case None
    have "tview (mc_mem m) 3 t va' = None" if "same_page 0 va va'" "pt_index 3 va' \<in> {..<256}" for va'
    proof -
      have "leaf_at (mc_mem m) 3 t va' = None" using leaf_at_same [of 3 va' va "mc_mem m" t] that(1) None by (simp add: same_page_def)
      then show ?thesis using tview_at [OF ok(1) that(2)] by simp
    qed
    then have "changes R T m T m 3 t {..<256} (gone va 4096)"
      using changes_cong_view [OF changes_refl [OF ok], of "gone va 4096"] same by (auto simp: gone_def)
    moreover have "unmap_rounds t va n m = unmap_rounds t (va + 4096) (n - 4096) m"
      using s(2) None by (simp add: unmap_rounds.simps [of t va n m] find_leaf_at)
    moreover have "small (mc_mem m) t (va + 4096) (n - 4096)" using s(1) rest unfolding small_def by blast
    ultimately show ?thesis by blast
  next
    case (Some x)
    obtain t' j k where x: "x = (t', j, k)" by (cases x)
    have "unat va < unat va + n" using s(2) by simp
    then have k: "k = 0" using s(1) Some x unfolding small_def by blast
    let ?m = "set_entry t' j 0 m"
    have "leaf_ok 0 (0 :: u64)" by (simp add: leaf_ok_def)
    from upd_at [OF ok(1) i Some [unfolded x k] this]
    have "upd (mc_mem m) (mc_mem ?m) 3 t {..<256} {} (gone va 4096)"
      unfolding set_entry_mem using same by (elim upd_cong) (simp add: gone_def same_page_def entry_view_def)
    then have "changes R T m T ?m 3 t {..<256} (gone va 4096)"
      using ok(2) by (simp add: changes_def frames_ok_def) (simp add: set_entry_def)
    moreover have "unmap_rounds t va n m = unmap_rounds t (va + 4096) (n - 4096) ?m"
      using s(2) Some x k by (simp add: unmap_rounds.simps [of t va n m] find_leaf_at)
    moreover have "small (mc_mem ?m) t (va + 4096) (n - 4096)"
      unfolding set_entry_mem by (rule small_stays [OF ok(1) u Some [unfolded x k] s n next_va])
    ultimately show ?thesis by blast
  qed
qed

lemma gone_add: "unat (va + of_nat p) = unat va + p \<Longrightarrow> gone (va + of_nat p) n va' (gone va p va' v) = gone va (p + n) va' v"
  by (auto simp: gone_def)

lemma unmap_rounds_changes:
  assumes "tree_ok (mc_mem m) 3 t {..<256}" "frames_ok R m T" "is_aligned va 12" "unat va + 4096 * n \<le> 2 ^ 47"
    "small (mc_mem m) t va (4096 * n)"
  shows "changes R T m T (unmap_rounds t va (4096 * n) m) 3 t {..<256} (gone va (4096 * n))"
  using assms
proof (induction n arbitrary: va m)
  case 0
  have "gone va 0 = (\<lambda>va' v. v)" by (intro ext) (auto simp: gone_def)
  then show ?case using changes_refl [OF 0(1,2)] by (simp add: unmap_rounds.simps)
next
  case (Suc n)
  have le: "unat va + 4096 \<le> 2 ^ 47" "4096 \<le> 4096 * Suc n" using Suc.prems(4) by simp_all
  obtain m1 where m1: "unmap_rounds t va (4096 * Suc n) m = unmap_rounds t (va + 4096) (4096 * Suc n - 4096) m1"
    "changes R T m T m1 3 t {..<256} (gone va 4096)" "small (mc_mem m1) t (va + 4096) (4096 * Suc n - 4096)"
    using unmap_round [OF Suc.prems(1-3) le(1) Suc.prems(5) le(2) Suc.prems(4)] by blast
  have e: "4096 * Suc n - 4096 = 4096 * n" by simp
  have nx: "unat (va + of_nat 4096) = unat va + 4096" "is_aligned (va + of_nat 4096) 12"
    using aligned_add [of 0 va] Suc.prems(3) le(1) by simp_all
  have "changes R T m1 T (unmap_rounds t (va + 4096) (4096 * n) m1) 3 t {..<256} (gone (va + 4096) (4096 * n))"
    by (rule Suc.IH) (use m1 nx Suc.prems(4) in \<open>auto simp: e changes_def upd_def\<close>)
  from changes_trans [OF m1(2) this] show ?case
    unfolding m1(1) e using gone_add [OF nx(1)] by (simp add: ac_simps)
qed

text \<open>
  C9. Where no large page is in the way, unmapping a range of whole pages takes away the translation
  of every address in the range, and of no other.
\<close>
theorem unmap_refines:
  assumes ok: "space_ok R T pt m" and va: "is_aligned va 12" "len mod 4096 = 0" "unat va + len \<le> 2 ^ 47"
    and s: "\<And>x t i psize. unat va \<le> unat x \<Longrightarrow> unat x < unat va + len \<Longrightarrow> find_leaf (root_of pt m) x m = Some (t, i, psize) \<Longrightarrow> psize = 4096"
  shows "space_ok R T pt (arch_unmap pt va len m) \<and>
    (\<forall>va'. user_va va' \<longrightarrow> arch_translate pt va' (arch_unmap pt va len m) =
       (if unat va \<le> unat va' \<and> unat va' < unat va + len then None else arch_translate pt va' m))"
proof -
  obtain n where n: "len = 4096 * n" using va(2) by (metis mod_eq_0_iff_dvd dvd_def)
  have "small (mc_mem m) (root_of pt m) va len"
    unfolding small_def
  proof (intro allI impI)
    fix x t' i k
    assume x: "unat va \<le> unat x \<and> unat x < unat va + len" "leaf_at (mc_mem m) 3 (root_of pt m) x = Some (t', i, k)"
    then have "(2 :: nat) ^ (12 + 9 * k) = 4096" using s [of x t' i "2 ^ (12 + 9 * k)"] by (simp add: find_leaf_at)
    then have "(2 :: nat) ^ (12 + 9 * k) = 2 ^ 12" by simp
    then show "k = 0" by (simp only: power_inject_exp)
  qed
  then have c: "changes R T m T (arch_unmap pt va len m) 3 (root_of pt m) {..<256} (gone va len)"
    unfolding arch_unmap_def n using unmap_rounds_changes [of m "root_of pt m" R T va n] ok va by (simp add: space_ok_def n)
  show ?thesis
    using changes_translate [OF ok c] translate_shown [OF ok] user_low(1) by (simp add: gone_def)
qed

section \<open>Protection\<close>

lemma leaf_at_large: "leaf_at f l t va = Some (t', i, k) \<Longrightarrow> k \<noteq> 0 \<Longrightarrow> bit (f t' i) 7"
  by (induction l arbitrary: t) (auto simp: Let_def split: if_splits)

lemma split_fails:
  assumes l: "leaf_at (mc_mem m) 3 r va = Some (t, i, k)" "k \<noteq> 0" and a: "page_alloc m = (0, m1)"
  shows "\<exists>m'. find_leaf_ex r va True m = (None, m') \<and> (m' = m \<or> m' = m1)"
proof -
  let ?f = "mc_mem m"
  let ?e3 = "?f r (pt_index 3 va)"
  let ?e2 = "?f (table_at ?e3) (pt_index 2 va)"
  let ?e1 = "?f (table_at ?e2) (pt_index 1 va)"
  have w: "walk t i False l m = (if link (?f t i) then Some (table_at (?f t i)) else None, m)" for t i l
    by (simp add: walk_def Let_def link_def)
  have s: "walk t i True l m = (None, m1)" if "\<not> link (?f t i)" for t i l
    using that a by (auto simp: walk_def Let_def link_def split_huge_def)
  have c: "walk t i True l m = (Some (table_at (?f t i)), m)" if "link (?f t i)" for t i l
    using that by (simp add: walk_def Let_def link_def)
  have n: "\<not> link e" if "bit e 7" for e using that by (simp add: link_def)
  show ?thesis
    using l by (cases "link ?e3"; cases "link ?e2"; cases "link ?e1")
      (auto simp: find_leaf_ex_def w s c n leaf_at_steps Let_def split: if_splits)
qed

text \<open>
  \<open>arch_protect\<close> reports success even when it has done nothing: a large page that the request does
  not cover has to be split first, and when there is no frame for the new table every address keeps
  the rights it had.
\<close>
theorem protect_fails_silently:
  assumes l: "find_leaf (root_of pt m) va m = Some (t, i, psize)" "4096 < psize" and len: "0 < len" "len \<le> 4096"
    and mem: "frame_alloc 0 (mc_pmm m) = (None, p)"
  shows "\<exists>m'. arch_protect pt va len prot m = (Inr (), m') \<and> mc_mem m' = mc_mem m \<and>
    arch_translate pt va' m' = arch_translate pt va' m"
proof -
  let ?r = "root_of pt m"
  obtain k where k: "leaf_at (mc_mem m) 3 ?r va = Some (t, i, k)" "psize = 2 ^ (12 + 9 * k)"
    using l(1) by (auto simp: find_leaf_at)
  have k0: "k \<noteq> 0"
  proof
    assume "k = 0"
    then show False using l(2) k(2) by simp
  qed
  have h: "bit (mc_mem m t i) 7" by (rule leaf_at_large [OF k(1) k0])
  have a: "page_alloc m = (0, m\<lparr>mc_pmm := p\<rparr>)" using mem by (simp add: page_alloc_def alloc_page_eq)
  obtain m' where m': "find_leaf_ex ?r va True m = (None, m')" "m' = m \<or> m' = m\<lparr>mc_pmm := p\<rparr>"
    using split_fails [OF k(1) k0 a] by blast
  have "protect_leaf ?r va len m = (None, m')"
    using l len h m'(1) by (simp add: protect_leaf_def)
  then have "arch_protect pt va len prot m = (Inr (), m')"
    using len by (simp add: arch_protect_def protect_rounds.simps [of ?r va len] protect_rounds.simps [of _ _ 0])
  moreover have "arch_translate pt va' m' = arch_translate pt va' m"
    using m'(2) by (auto intro: translate_cong)
  ultimately show ?thesis using m'(2) by auto
qed

section \<open>Destruction\<close>

text \<open>The addresses \<open>free_level\<close> hands to \<open>pmm_free_page\<close>, in order.\<close>

fun freed :: "memory \<Rightarrow> nat \<Rightarrow> u64 \<Rightarrow> u64 list" where
  "freed f l t =
     concat (map (\<lambda>i. if link (f t i) then (case l of 0 \<Rightarrow> [] | Suc l \<Rightarrow> freed f l (table_at (f t i))) @ [table_at (f t i)] else [])
       [0..<if l = 3 then 256 else 512])"

declare freed.simps [simp del]

lemma page_free_mem: "mc_mem (fold page_free xs m) = mc_mem m"
  by (induction xs arbitrary: m) (simp_all add: page_free_def)

lemma fold_freed:
  "(\<And>i m. i \<in> set is \<Longrightarrow> g i m = fold page_free (h (mc_mem m) i) m) \<Longrightarrow> fold g is m = fold page_free (concat (map (h (mc_mem m)) is)) m"
  by (induction "is" arbitrary: m) (simp_all add: page_free_mem)

lemma free_level_freed: "free_level l t m = fold page_free (freed (mc_mem m) l t) m"
proof (induction l arbitrary: t m)
  case 0
  show ?case
    unfolding free_level.simps [of 0] freed.simps [of _ 0]
    by (rule fold_freed) (auto simp: Let_def link_def table_at_def)
next
  case (Suc l)
  show ?case
    unfolding free_level.simps [of "Suc l"] freed.simps [of _ "Suc l"]
    by (rule fold_freed) (auto simp: Let_def link_def table_at_def Suc)
qed

lemma freed_frames:
  assumes "tree_ok f l t I" "leaf_at f l t va = Some (t', i, 0)" "bit (f t' i) 0"
    "I = (if l = 3 then {..<256} else full)" "pt_index l va \<in> I" "l \<le> 3"
  shows "table_at (f t' i) \<in> set (freed f l t)"
  using assms
proof (induction l arbitrary: t I)
  case 0
  then have "t' = t" "i = pt_index 0 va" by simp_all
  moreover have "link (f t (pt_index 0 va))" using 0 by (auto simp: link_def)
  ultimately show ?case using pt_index_less [of 0 va] by (auto simp: freed.simps [of _ 0] intro!: bexI [of _ "pt_index 0 va"])
next
  case (Suc l)
  let ?i = "pt_index (Suc l) va"
  let ?e = "f t ?i"
  have k: "link ?e" "leaf_at f l (table_at ?e) va = Some (t', i, 0)"
    using Suc.prems(2) by (auto simp: Let_def split: if_splits)
  have "tree_ok f l (table_at ?e) full" using Suc.prems(1,5) k(1) by auto
  then have "table_at (f t' i) \<in> set (freed f l (table_at ?e))"
    by (rule Suc.IH [OF _ k(2) Suc.prems(3)]) (use Suc.prems(6) in auto)
  moreover have "?i \<in> set [0..<if Suc l = 3 then 256 else 512]" using Suc.prems(4,5) by auto
  ultimately show ?case using k(1) unfolding freed.simps [of f "Suc l"] by (auto intro!: bexI [of _ ?i])
qed

text \<open>
  C38. Destroying an address space hands every frame that a small page of its user half maps to
  \<open>pmm_free_page\<close>, beside the tables: whoever else holds the frame, and whatever its reference count.
\<close>
theorem destroy_frees_mapped_frames:
  assumes pt: "pt \<noteq> 0" "pt \<noteq> mc_kernel_pml4 m" and ok: "space_ok R T pt m"
  shows "\<exists>xs. arch_pgtable_destroy pt m = fold page_free xs m \<and> pt \<in> set xs \<and>
    (\<forall>va t i. user_va va \<longrightarrow> find_leaf pt va m = Some (t, i, 4096) \<longrightarrow> has (mc_mem m t i) PTE_PRESENT \<longrightarrow>
       table_at (mc_mem m t i) \<in> set xs)"
proof -
  let ?xs = "freed (mc_mem m) 3 pt"
  have tree: "tree_ok (mc_mem m) 3 pt {..<256}" using ok pt(1) by (simp add: space_ok_def root_of_def)
  have "table_at (mc_mem m t i) \<in> set ?xs"
    if va: "user_va va" and l: "find_leaf pt va m = Some (t, i, 4096)" and p: "has (mc_mem m t i) PTE_PRESENT" for va t i
  proof -
    obtain k where k: "leaf_at (mc_mem m) 3 pt va = Some (t, i, k)" "(2 :: nat) ^ (12 + 9 * k) = 4096"
      using l by (auto simp: find_leaf_at)
    have "(2 :: nat) ^ (12 + 9 * k) = 2 ^ 12" using k(2) by simp
    then have "k = 0" by (simp only: power_inject_exp)
    then show ?thesis using freed_frames [OF tree _ _ _ user_low(2) [OF va]] k(1) p by auto
  qed
  moreover have "arch_pgtable_destroy pt m = fold page_free (?xs @ [pt]) m"
    using pt by (simp add: arch_pgtable_destroy_def free_level_freed)
  ultimately show ?thesis by (intro exI [of _ "?xs @ [pt]"]) auto
qed

section \<open>A new address space\<close>

text \<open>\<open>arch_pgtable_create\<close> gives a good address space with an empty user half.\<close>

lemma create_space:
  assumes "frames_ok R m T" "arch_pgtable_create m = (pt, m')" "pt \<noteq> 0"
  shows "space_ok R (insert pt T) pt m'" "user_va va \<Longrightarrow> arch_translate pt va m' = None"
proof -
  obtain m1 where a: "page_alloc m = (pt, m1)" using assms(2,3) by (auto simp: arch_pgtable_create_def Let_def split: prod.splits if_splits)
  have ok: "frames_ok R m1 (insert pt T)" using page_alloc_ok [OF assms(1) a] assms(3) by simp
  have m': "mc_pmm m' = mc_pmm m1" "\<And>i. i < 256 \<Longrightarrow> mc_mem m' pt i = 0"
    using assms(2,3) a by (auto simp: arch_pgtable_create_def RECURSIVE_SLOT_def Let_def)
  then have z: "\<not> bit (mc_mem m' pt i) n" if "i < 256" for i n using that by simp
  have r: "root_of pt m' = pt" using assms(3) by (simp add: root_of_def)
  have "tree_ok (mc_mem m') 3 pt {..<256}" "foot (mc_mem m') 3 pt {..<256} = {pt}"
    using z by (auto simp: numeral_3_eq_3 link_def)
  then show s: "space_ok R (insert pt T) pt m'"
    using ok m'(1) by (simp add: space_ok_def r frames_ok_def)
  assume va: "user_va va"
  have "\<not> link (mc_mem m' pt (pt_index 3 va))" using z [of "pt_index 3 va" 0] user_low(2) [OF va] by (simp add: link_def)
  then show "arch_translate pt va m' = None"
    by (intro translate_none [OF s va]) (simp add: r leaf_at_steps Let_def)
qed

section \<open>A small machine\<close>

definition demo_machine :: "pmm \<Rightarrow> memory \<Rightarrow> machine" where
  "demo_machine s f = \<lparr>mc_mem = f, mc_pmm = s, mc_kernel_pml4 = 0x1000, mc_nx = True, mc_gib = False\<rparr>"

definition four_pages :: "pmm \<Rightarrow> nat list" where
  "four_pages s = (case pmm_alloc_page s of (a, s) \<Rightarrow> case pmm_alloc_page s of (b, s) \<Rightarrow>
     case pmm_alloc_page s of (c, s) \<Rightarrow> case pmm_alloc_page s of (d, s) \<Rightarrow> [a, b, c, d])"

lemma demo_pages:
  "map_option (\<lambda>s. (pm_base s, page_count s, four_pages s)) (pmm_init demo_map) =
   Some (0x200000, 16, [0x202000, 0x203000, 0x204000, 0x205000])"
  by code_simp

lemma demo_pool:
  obtains s0 s1 s2 s3 s4 where "pmm_init demo_map = Some s0" "pm_base s0 = 0x200000" "page_count s0 = 16"
    "pmm_alloc_page s0 = (0x202000, s1)" "pmm_alloc_page s1 = (0x203000, s2)" "pmm_alloc_page s2 = (0x204000, s3)"
    "pmm_alloc_page s3 = (0x205000, s4)"
proof -
  obtain s0 where s0: "pmm_init demo_map = Some s0" using demo_starts by blast
  obtain a s1 where s1: "pmm_alloc_page s0 = (a, s1)" by fastforce
  obtain b s2 where s2: "pmm_alloc_page s1 = (b, s2)" by fastforce
  obtain c s3 where s3: "pmm_alloc_page s2 = (c, s3)" by fastforce
  obtain d s4 where s4: "pmm_alloc_page s3 = (d, s4)" by fastforce
  have "pm_base s0 = 0x200000 \<and> page_count s0 = 16 \<and> [a, b, c, d] = [0x202000, 0x203000, 0x204000, 0x205000]"
    using demo_pages by (simp only: s0 option.map option.inject prod.inject four_pages_def s1 s2 s3 s4 prod.case)
  then show ?thesis using that s0 s1 s2 s3 s4 by simp
qed

lemma demo_entries:
  "bit (0x203007 :: u64) 0" "\<not> bit (0x203007 :: u64) 7" "bit (0x204007 :: u64) 0" "\<not> bit (0x204007 :: u64) 7"
  "bit (0x205007 :: u64) 0" "\<not> bit (0x205007 :: u64) 7" "bit (0x8000000000600083 :: u64) 7" "bit (0x8000000000600003 :: u64) 0"
  "table_at 0x203007 = 0x203000" "table_at 0x204007 = 0x204000" "table_at 0x205007 = 0x205000"
  "table_at 0x8000000000600003 = 0x600000"
  by (simp_all add: table_at_def PTE_ADDR_MASK_def)

lemma demo_values:
  "0x203000 OR PTE_PRESENT OR PTE_WRITE OR PTE_USER = 0x203007"
  "0x204000 OR PTE_PRESENT OR PTE_WRITE OR PTE_USER = 0x204007"
  "0x205000 OR PTE_PRESENT OR PTE_WRITE OR PTE_USER = 0x205007"
  "0x202000 OR PTE_PRESENT OR PTE_WRITE = 0x202003"
  "prot_to_pte True 3 = 0x8000000000000003"
  "0x600000 AND PTE_ADDR_MASK OR 0x8000000000000003 = 0x8000000000600003"
  "0x600000 OR 0x8000000000000003 OR PTE_HUGE = 0x8000000000600083"
  by (simp_all add: PTE_PRESENT_def PTE_WRITE_def PTE_USER_def PTE_ADDR_MASK_def PTE_HUGE_def PTE_NX_def prot_to_pte_def has_def
      RK_PROT_WRITE_def RK_PROT_USER_def RK_PROT_NOCACHE_def RK_PROT_WC_def RK_PROT_GLOBAL_def RK_PROT_EXEC_def)

lemma demo_index:
  "pt_index 3 0x401000 = 0" "pt_index 2 0x401000 = 0" "pt_index 1 0x401000 = 2" "pt_index (Suc 0) 0x401000 = 2" "pt_index 0 0x401000 = 1"
  "pt_index 3 0x400000 = 0" "pt_index 2 0x400000 = 0" "pt_index 1 0x400000 = 2" "pt_index (Suc 0) 0x400000 = 2" "pt_index 0 0x400000 = 0"
  by (simp_all add: pt_index_def)

lemmas demo_simps = demo_machine_def demo_entries demo_values demo_index page_alloc_def root_of_def set_entry_def

definition demo_root :: memory where
  "demo_root = (\<lambda>t i. if t = 0x202000 \<and> i = 510 then 0x202003 else 0)"

definition demo_small :: memory where
  "demo_small = demo_root(0x202000 := (demo_root 0x202000)(0 := 0x203007), 0x203000 := (\<lambda>_. 0)(0 := 0x204007),
     0x204000 := (\<lambda>_. 0)(2 := 0x205007), 0x205000 := (\<lambda>_. 0)(0 := 0x8000000000600003))"

definition demo_large :: memory where
  "demo_large = demo_root(0x202000 := (demo_root 0x202000)(0 := 0x203007), 0x203000 := (\<lambda>_. 0)(0 := 0x204007),
     0x204000 := (\<lambda>_. 0)(2 := 0x8000000000600083))"

lemma demo_create:
  assumes "pmm_alloc_page s0 = (0x202000, s1)"
  shows "arch_pgtable_create (demo_machine s0 (\<lambda>_ _. 0)) = (0x202000, demo_machine s1 demo_root)"
  using assms by (simp add: arch_pgtable_create_def RECURSIVE_SLOT_def demo_simps demo_root_def fun_eq_iff)

lemma demo_maps:
  assumes "pmm_alloc_page s1 = (0x203000, s2)" "pmm_alloc_page s2 = (0x204000, s3)" "pmm_alloc_page s3 = (0x205000, s4)"
  shows "arch_map 0x202000 0x400000 0x600000 4096 3 (demo_machine s1 demo_root) = (Inr (), demo_machine s4 demo_small)"
    "arch_map 0x202000 0x400000 0x600000 0x200000 3 (demo_machine s1 demo_root) = (Inr (), demo_machine s3 demo_large)"
  using assms
  by (simp_all add: arch_map_def is_aligned_def map_rounds.simps map_level_def map_one_def walk_def demo_simps demo_root_def
      demo_small_def demo_large_def fun_eq_iff)

lemma demo_spaces:
  obtains s1 s3 s4 R T T' where "space_ok R {0x202000} 0x202000 (demo_machine s1 demo_root)"
    "arch_map 0x202000 0x400000 0x600000 4096 3 (demo_machine s1 demo_root) = (Inr (), demo_machine s4 demo_small)"
    "space_ok R T 0x202000 (demo_machine s4 demo_small)" "space_ok R T' 0x202000 (demo_machine s3 demo_large)"
proof -
  obtain s0 s1 s2 s3 s4 where s: "pmm_init demo_map = Some s0" "pm_base s0 = 0x200000" "page_count s0 = 16"
    "pmm_alloc_page s0 = (0x202000, s1)" "pmm_alloc_page s1 = (0x203000, s2)" "pmm_alloc_page s2 = (0x204000, s3)"
    "pmm_alloc_page s3 = (0x205000, s4)"
    by (rule demo_pool)
  obtain R where "owned_with R s0 {}" by (rule boot_owned [OF s(1)]) blast
  then have f: "frames_ok R (demo_machine s0 (\<lambda>_ _. 0)) {}"
    using s(2,3) by (auto simp: frames_ok_def placed_def demo_machine_def)
  have ok: "space_ok R {0x202000} 0x202000 (demo_machine s1 demo_root)"
    using create_space(1) [OF f demo_create [OF s(4)]] by simp
  note maps = demo_maps [OF s(5-7)]
  have "\<exists>T'. space_ok R T' 0x202000 m'" if a: "arch_map 0x202000 0x400000 0x600000 len 3 (demo_machine s1 demo_root) = (Inr (), m')"
    "len mod 4096 = 0" "len \<le> 0x200000" for len m'
  proof -
    obtain T' n where "changes R {0x202000} (demo_machine s1 demo_root) T' m' 3 (root_of 0x202000 (demo_machine s1 demo_root)) {..<256}
        (maps_to 0x400000 0x600000 n (prot_to_pte (mc_nx (demo_machine s1 demo_root)) 3))"
      using arch_map_changes [OF ok _ _ a(2) _ _ a(1)] a(3) by (auto simp: is_aligned_def)
    from changes_translate(1) [OF ok this] show ?thesis by blast
  qed
  from this [OF maps(1)] this [OF maps(2)] show ?thesis using that ok maps(1) by auto
qed

lemma map_refines_witness:
  "\<exists>s m. arch_map 0x202000 0x400000 0x600000 4096 3 (demo_machine s demo_root) = (Inr (), m) \<and>
     arch_translate 0x202000 0x400123 m = Some (0x600123, 3)"
proof -
  obtain s1 s4 R T where d: "space_ok R {0x202000} 0x202000 (demo_machine s1 demo_root)"
    "arch_map 0x202000 0x400000 0x600000 4096 3 (demo_machine s1 demo_root) = (Inr (), demo_machine s4 demo_small)"
    by (rule demo_spaces) blast
  have p: "pte_to_prot (prot_to_pte (mc_nx (demo_machine s1 demo_root)) 3) = 3"
    by (simp add: demo_simps pte_to_prot_def has_def RK_PROT_READ_def RK_PROT_WRITE_def PTE_WRITE_def PTE_USER_def PTE_NX_def PTE_PCD_def)
  have al: "is_aligned (0x400000 :: u64) 12" "is_aligned (0x600000 :: u64) 12" by (simp_all add: is_aligned_def)
  have "user_va 0x400123" by (simp add: user_va_def)
  then have "arch_translate 0x202000 0x400123 (demo_machine s4 demo_small) = Some (0x600123, 3)"
    using map_refines [OF d(1) al _ _ _ d(2)] p by auto
  then show ?thesis using d(2) by blast
qed

lemma unmap_takes_whole_page_witness:
  "\<exists>s. arch_translate 0x202000 0x400123 (arch_unmap 0x202000 0x401000 4096 (demo_machine s demo_large)) = None"
proof -
  obtain s3 R T where d: "space_ok R T 0x202000 (demo_machine s3 demo_large)" by (rule demo_spaces) blast
  have l: "find_leaf (root_of 0x202000 (demo_machine s3 demo_large)) 0x401000 (demo_machine s3 demo_large) = Some (0x204000, 2, 2 ^ 21)"
    by (simp add: find_leaf_at leaf_at_steps Let_def link_def demo_simps demo_large_def)
  have "user_va 0x401000" "user_va 0x400123" by (simp_all add: user_va_def)
  from unmap_takes_whole_page [OF d this l, of 4096] show ?thesis by auto
qed

lemma unmap_refines_witness:
  "\<exists>s. arch_translate 0x202000 0x400123 (arch_unmap 0x202000 0x400000 4096 (demo_machine s demo_small)) = None"
proof -
  obtain s4 R T where d: "space_ok R T 0x202000 (demo_machine s4 demo_small)" by (rule demo_spaces) blast
  let ?m = "demo_machine s4 demo_small"
  have small: "psize = 4096" if "unat (0x400000 :: u64) \<le> unat x" "unat x < unat (0x400000 :: u64) + 4096"
    "find_leaf (root_of 0x202000 ?m) x ?m = Some (t, i, psize)" for x :: u64 and t i psize
  proof -
    have "same_page 0 0x400000 x"
      using that(1,2) same_page_range [where L = 0 and va = "0x400000" and va' = x] low_id [of x] by (simp add: is_aligned_def)
    then have "pt_index k x = pt_index k 0x400000" if "k \<le> 3" for k using that by (simp add: same_page_def)
    then have "leaf_at (mc_mem ?m) 3 0x202000 x = leaf_at (mc_mem ?m) 3 0x202000 0x400000" by (intro leaf_at_same) simp
    then show ?thesis
      using that(3) by (simp add: find_leaf_at leaf_at_steps Let_def link_def demo_simps demo_small_def)
  qed
  have "is_aligned (0x400000 :: u64) 12" "user_va 0x400123" by (simp_all add: is_aligned_def user_va_def)
  then have "arch_translate 0x202000 0x400123 (arch_unmap 0x202000 0x400000 4096 ?m) = None"
    using unmap_refines [OF d, where va = "0x400000" and len = 4096] small by simp
  then show ?thesis by blast
qed

lemma protect_fails_silently_witness:
  "\<exists>m'. arch_protect 0x202000 0x401000 4096 1 (demo_machine (pmm_empty 0 0) demo_large) = (Inr (), m') \<and> mc_mem m' = demo_large"
proof -
  let ?m = "demo_machine (pmm_empty 0 0) demo_large"
  have l: "find_leaf (root_of 0x202000 ?m) 0x401000 ?m = Some (0x204000, 2, 2 ^ 21)"
    by (simp add: find_leaf_at leaf_at_steps Let_def link_def demo_simps demo_large_def)
  have "frame_alloc 0 (mc_pmm ?m) = (None, add_stats (\<lambda>t. t\<lparr>ps_fails := ps_fails t + 1\<rparr>) (mc_pmm ?m))"
    by (simp add: demo_machine_def) code_simp
  from protect_fails_silently [OF l _ _ _ this, where len = 4096 and prot = 1] show ?thesis
    by (simp add: demo_machine_def) blast
qed

lemma destroy_frees_mapped_frames_witness:
  "\<exists>s xs. arch_pgtable_destroy 0x202000 (demo_machine s demo_small) = fold page_free xs (demo_machine s demo_small) \<and> 0x600000 \<in> set xs"
proof -
  obtain s4 R T where d: "space_ok R T 0x202000 (demo_machine s4 demo_small)" by (rule demo_spaces) blast
  let ?m = "demo_machine s4 demo_small"
  have l: "find_leaf 0x202000 0x400000 ?m = Some (0x205000, 0, 4096)"
    by (simp add: find_leaf_at leaf_at_steps Let_def link_def demo_simps demo_small_def)
  have "has (mc_mem ?m 0x205000 0) PTE_PRESENT" "table_at (mc_mem ?m 0x205000 0) = 0x600000" "user_va 0x400000"
    by (simp_all add: demo_simps demo_small_def user_va_def)
  moreover obtain xs where "arch_pgtable_destroy 0x202000 ?m = fold page_free xs ?m"
    "\<forall>va t i. user_va va \<longrightarrow> find_leaf 0x202000 va ?m = Some (t, i, 4096) \<longrightarrow> has (mc_mem ?m t i) PTE_PRESENT \<longrightarrow>
       table_at (mc_mem ?m t i) \<in> set xs"
    using destroy_frees_mapped_frames [OF _ _ d] by (auto simp: demo_machine_def)
  ultimately show ?thesis using l by metis
qed

end
