(* ===== verification/RK_PagingUse.thy ===== *)
theory RK_PagingUse
  imports RK_PagingProps
begin

unbundle bit_operations_syntax

text \<open>
  The page tables as the rest of the memory system uses them: the contract of demand paging, one page
  at a time, as a locale that \<open>RK_Paging\<close> meets; and changes of protection where pages are small.
\<close>

section \<open>The contract of demand paging\<close>

text \<open>A page is resolved to the frame known for it, or to a new one, and mapped; 0 is no frame.\<close>

definition touch :: "('m \<Rightarrow> u64 \<times> 'm) \<Rightarrow> (u64 \<Rightarrow> u64 \<Rightarrow> u32 \<Rightarrow> 'm \<Rightarrow> unit result \<times> 'm) \<Rightarrow>
    u64 \<Rightarrow> u64 \<Rightarrow> u32 \<Rightarrow> 'm \<Rightarrow> u64 \<times> unit result \<times> 'm" where
  "touch alloc map_page pg known prot m =
     (case (if known \<noteq> 0 then (known, m) else alloc m) of (pa, m) \<Rightarrow>
        if pa = 0 then (0, Inl ENOMEM, m) else (pa, map_page pg pa prot m))"

locale demand_paging =
  fixes good :: "'m \<Rightarrow> bool"
    and look :: "u64 \<Rightarrow> 'm \<Rightarrow> (u64 \<times> u32) option"
    and rights :: "u32 \<Rightarrow> 'm \<Rightarrow> u32"
    and alloc :: "'m \<Rightarrow> u64 \<times> 'm"
    and map_page :: "u64 \<Rightarrow> u64 \<Rightarrow> u32 \<Rightarrow> 'm \<Rightarrow> unit result \<times> 'm"
  assumes alloc_law: "good m \<Longrightarrow> alloc m = (pa, m') \<Longrightarrow>
      good m' \<and> (pa \<noteq> 0 \<longrightarrow> frame_addr pa) \<and> rights prot m' = rights prot m \<and> (user_va va \<longrightarrow> look va m' = look va m)"
    and map_law: "good m \<Longrightarrow> is_aligned pg 12 \<Longrightarrow> user_va pg \<Longrightarrow> frame_addr pa \<Longrightarrow> map_page pg pa prot m = (r, m') \<Longrightarrow>
      good m' \<and> (r = Inr () \<or> r = Inl ENOMEM) \<and> (user_va va \<longrightarrow> look va m' =
        (if r = Inr () \<and> page_base va = pg then Some (pa + (va - pg), rights prot m) else look va m))"
begin

lemma touch_law:
  assumes "good m" "is_aligned pg 12" "user_va pg" "known \<noteq> 0 \<Longrightarrow> frame_addr known"
    and t: "touch alloc map_page pg known prot m = (pa, r, m')"
  shows "good m' \<and> (r = Inr () \<longrightarrow> pa \<noteq> 0 \<and> frame_addr pa) \<and> (known \<noteq> 0 \<longrightarrow> pa = known) \<and>
    (user_va va \<longrightarrow> look va m' = (if r = Inr () \<and> page_base va = pg then Some (pa + (va - pg), rights prot m) else look va m))"
proof -
  obtain x m1 where x: "(if known \<noteq> 0 then (known, m) else alloc m) = (x, m1)" by fastforce
  have g: "good m1" "x \<noteq> 0 \<Longrightarrow> frame_addr x" "rights prot m1 = rights prot m" "user_va va \<Longrightarrow> look va m1 = look va m"
    "known \<noteq> 0 \<Longrightarrow> x = known"
    using x assms(1,4) alloc_law [of m x m1 prot va] by (auto split: if_splits)
  show ?thesis
  proof (cases "x = 0")
    case True
    then show ?thesis using t x g by (auto simp: touch_def)
  next
    case False
    then have "pa = x" "map_page pg x prot m1 = (r, m')" using t x by (auto simp: touch_def)
    then show ?thesis using map_law [OF g(1) assms(2,3) g(2) [OF False], of prot r m' va] g False by auto
  qed
qed

end

section \<open>The page tables meet it\<close>

lemma changes_none_translate:
  assumes ok: "space_ok R T pt m" and a: "page_alloc m = (pa, m')" and va: "user_va va"
  shows "\<exists>T'. space_ok R T' pt m' \<and> (pa \<noteq> 0 \<longrightarrow> frame_addr pa) \<and> mc_nx m' = mc_nx m \<and> arch_translate pt va m' = arch_translate pt va m"
proof -
  have P: "frames_ok R m T" "tree_ok (mc_mem m) 3 (root_of pt m) {..<256}" "foot (mc_mem m) 3 (root_of pt m) {..<256} \<subseteq> T"
    using ok by (auto simp: space_ok_def)
  note A = page_alloc_ok [OF P(1) a]
  have r: "root_of pt m' = root_of pt m" using A by (simp add: root_of_def)
  have same: "mc_mem m' x = mc_mem m x" if "x \<in> foot (mc_mem m) 3 (root_of pt m) {..<256}" for x
    using A that P(3) by (cases "pa = 0") auto
  note C = tree_cong [of "mc_mem m" 3 "root_of pt m" "{..<256}" "mc_mem m'", OF same]
  have s: "space_ok R (if pa = 0 then T else insert pa T) pt m'"
    using A C(1,2) P by (auto simp: space_ok_def r)
  moreover have "arch_translate pt va m' = arch_translate pt va m"
    using translate_shown [OF s va] translate_shown [OF ok va] C(3) [OF _ user_low(2) [OF va]] by (simp add: r)
  moreover have "(pa \<noteq> 0 \<longrightarrow> frame_addr pa) \<and> mc_nx m' = mc_nx m" using A by auto
  ultimately show ?thesis by blast
qed

lemma page_base_le: "unat (page_base va) \<le> unat va" "unat va < unat (page_base va) + 4096" "is_aligned (page_base va) 12"
proof -
  have s: "page_base va + (va AND mask 12) = va" by (rule page_offset)
  have "unat (va AND mask 12) < 2 ^ 12"
    using take_bit_nat_less_exp [of 12 "unat va"] by (simp add: take_bit_eq_mask [symmetric] unsigned_take_bit_eq)
  moreover have d: "page_base va AND (va AND mask 12) = 0"
    by (rule bit_word_eqI) (auto simp: page_base_def bit_simps)
  have "unat va = unat (page_base va) + unat (va AND mask 12)"
  proof -
    have "va AND mask 12 \<le> va" by (rule word_and_le2)
    moreover have "page_base va = va - (va AND mask 12)" using s by (metis add_diff_cancel_right')
    ultimately show ?thesis by (simp add: unat_sub word_le_nat_alt)
  qed
  ultimately show "unat (page_base va) \<le> unat va" "unat va < unat (page_base va) + 4096" by simp_all
  have "page_base va AND mask 12 = 0"
    by (rule bit_word_eqI) (auto simp: page_base_def bit_simps)
  then show "is_aligned (page_base va) 12" by (simp add: is_aligned_def mask_eq_exp_minus_1)
qed

lemma page_base_iff:
  assumes "is_aligned pg 12"
  shows "page_base va = pg \<longleftrightarrow> unat pg \<le> unat va \<and> unat va < unat pg + 4096"
proof -
  obtain q where q: "unat pg = 4096 * q" using assms aligned_nat [of 12 pg] by (auto simp: mod_eq_0_iff_dvd dvd_def)
  obtain b where b: "unat (page_base va) = 4096 * b" using page_base_le(3) [of va] aligned_nat [of 12 "page_base va"]
    by (auto simp: mod_eq_0_iff_dvd dvd_def)
  have "page_base va = pg \<longleftrightarrow> b = q" using q b by (metis mult_left_cancel unsigned_word_eqI zero_neq_numeral)
  moreover have "4096 * b \<le> unat va" "unat va < 4096 * b + 4096" using page_base_le(1,2) [of va] b by simp_all
  ultimately show ?thesis using q by auto
qed

lemma frame_addr_bounds:
  assumes "frame_addr pa"
  shows "is_aligned pa 12" "unat pa + 4096 \<le> 2 ^ 52"
proof -
  have "pa AND mask 12 = 0"
    by (rule bit_word_eqI) (use assms in \<open>auto simp: frame_addr_def bit_simps\<close>)
  then show a: "is_aligned pa 12" by (simp add: is_aligned_def mask_eq_exp_minus_1)
  have "take_bit 52 pa = pa"
    by (rule bit_word_eqI) (use assms in \<open>auto simp: frame_addr_def bit_simps\<close>)
  then have "unat pa = take_bit 52 (unat pa)" by (metis unsigned_take_bit_eq)
  then have "unat pa < 2 ^ 52" using take_bit_nat_less_exp [of 52 "unat pa"] by metis
  moreover obtain q where "unat pa = 4096 * q" using a aligned_nat [of 12 pa] by (auto simp: mod_eq_0_iff_dvd dvd_def)
  ultimately show "unat pa + 4096 \<le> 2 ^ 52" by simp
qed

lemma user_page: "user_va pg \<Longrightarrow> is_aligned pg 12 \<Longrightarrow> unat pg + 4096 \<le> 2 ^ 47"
proof -
  assume "user_va pg" "is_aligned pg 12"
  then obtain q where "unat pg = 4096 * q" "unat pg < 2 ^ 47"
    using aligned_nat [of 12 pg] by (auto simp: mod_eq_0_iff_dvd dvd_def user_va_def)
  then show ?thesis by simp
qed

lemma map_page_law:
  assumes ok: "space_ok R T pt m" and pg: "is_aligned pg 12" "user_va pg" and pa: "frame_addr pa"
    and r: "arch_map pt pg pa 4096 prot m = (r, m')" and va: "user_va va"
  shows "\<exists>T'. space_ok R T' pt m' \<and> mc_nx m' = mc_nx m \<and> (r = Inr () \<or> r = Inl ENOMEM) \<and> arch_translate pt va m' =
    (if r = Inr () \<and> page_base va = pg then Some (pa + (va - pg), pte_to_prot (prot_to_pte (mc_nx m) prot)) else arch_translate pt va m)"
proof -
  let ?f = "prot_to_pte (mc_nx m) prot"
  have L: "0 = map_level (mc_gib m) pg pa 4096" by (simp add: map_level_def)
  have rd: "round_ok R T (root_of pt m) pg pa 4096 m"
    using ok pg(1) frame_addr_bounds [OF pa] user_page [OF pg(2,1)] by (simp add: round_ok_def space_ok_def)
  obtain r1 m1 where o: "map_one (root_of pt m) pg pa ?f 0 m = (r1, m1)" by fastforce
  have e: "map_rounds (root_of pt m) pg pa 4096 ?f m = (r, m')"
    using r pg(1) frame_addr_bounds(1) [OF pa] by (simp add: arch_map_def)
  have z: "map_rounds t v q 0 ?f x = (Inr (), x)" for t v q x by (simp add: map_rounds.simps [of t v q 0 ?f x])
  have u: "map_rounds (root_of pt m) pg pa 4096 ?f m =
      (case (r1, m1) of (Inl err, m) \<Rightarrow> (Inl err, m) | (Inr u, m) \<Rightarrow> (Inr (), m))"
    using map_rounds_unfold [OF _ L refl, of "root_of pt m" ?f] o z by (cases r1) simp_all
  have m1: "r = r1" "m' = m1"
    using e u by (cases r1; simp)+
  obtain T1 n where c: "r = Inl ENOMEM \<and> n = 0 \<or> r = Inr () \<and> n = 4096" "changes R T m T1 m' 3 (root_of pt m) {..<256} (maps_to pg pa n ?f)"
    using one_round [OF rd prot_flags_ok _ L o] m1 by auto
  have "mc_nx m' = mc_nx m" using c(2) by (simp add: changes_def)
  then show ?thesis
    using c(1) changes_translate [OF ok c(2)] va translate_shown [OF ok va] page_base_iff [OF pg(1), of va]
    by (intro exI [of _ T1]) (auto simp: maps_to_shown)
qed

text \<open>The address space with page table \<open>pt\<close>, the frames \<open>R\<close> being outside the allocator's reach.\<close>

definition space_good :: "(nat \<times> nat) set \<Rightarrow> u64 \<Rightarrow> machine \<Rightarrow> bool" where
  "space_good R pt m \<longleftrightarrow> (\<exists>T. space_ok R T pt m)"

definition granted :: "u32 \<Rightarrow> machine \<Rightarrow> u32" where
  "granted prot m = pte_to_prot (prot_to_pte (mc_nx m) prot)"

interpretation pg: demand_paging "space_good R pt" "arch_translate pt" granted page_alloc "\<lambda>va pa. arch_map pt va pa 4096" for R pt
proof unfold_locales
  show "space_good R pt m' \<and> (pa \<noteq> 0 \<longrightarrow> frame_addr pa) \<and> granted prot m' = granted prot m \<and>
      (user_va va \<longrightarrow> arch_translate pt va m' = arch_translate pt va m)"
    if "space_good R pt m" "page_alloc m = (pa, m')" for m pa m' prot va
    using that changes_none_translate [of R _ pt m pa m' va] changes_none_translate [of R _ pt m pa m' 0]
    by (fastforce simp: space_good_def granted_def user_va_def)
  show "space_good R pt m' \<and> (r = Inr () \<or> r = Inl ENOMEM) \<and> (user_va va \<longrightarrow> arch_translate pt va m' =
      (if r = Inr () \<and> page_base va = x then Some (pa + (va - x), granted prot m) else arch_translate pt va m))"
    if "space_good R pt m" "is_aligned x 12" "user_va x" "frame_addr pa" "arch_map pt x pa 4096 prot m = (r, m')" for m x pa prot r m' va
    using that map_page_law [of R _ pt m x pa prot r m' va] map_page_law [of R _ pt m x pa prot r m' 0]
    by (fastforce simp: space_good_def granted_def user_va_def)
qed

section \<open>Protection of small pages\<close>

lemma protect_entry_view:
  assumes "flags_ok flags" "bit e 0" "\<not> bit e 7"
  shows "leaf_ok 0 (protect_entry flags e)" "bit (protect_entry flags e) 0"
    "leaf_view 0 (protect_entry flags e) va = (fst (leaf_view 0 e va), flags)"
proof -
  have p: "protect_entry flags e = (e AND PTE_ADDR_MASK) OR flags OR (e AND PTE_HUGE)"
    using assms(2) by (simp add: protect_entry_def)
  have f: "bit flags 0" "\<not> bit flags 7" "12 \<le> n \<Longrightarrow> n < 52 \<Longrightarrow> \<not> bit flags n" for n
    using assms(1) by (auto simp: flags_ok_def)
  show "leaf_ok 0 (protect_entry flags e)" "bit (protect_entry flags e) 0"
    unfolding p leaf_ok_def using f(1,2) assms(3) by (auto simp: bit_or_iff bit_and_iff pte_bits)
  have "protect_entry flags e AND PTE_ADDR_MASK = e AND PTE_ADDR_MASK"
    unfolding p by (rule bit_word_eqI) (use f(3) in \<open>auto simp: bit_or_iff bit_and_iff pte_bits\<close>)
  moreover have "protect_entry flags e AND NOT PTE_ADDR_MASK AND NOT PTE_HUGE = flags"
    unfolding p by (rule bit_word_eqI) (use f(2,3) assms(3) in \<open>auto simp: bit_or_iff bit_and_iff bit_not_iff pte_bits\<close>)
  ultimately show "leaf_view 0 (protect_entry flags e) va = (fst (leaf_view 0 e va), flags)"
    by (simp add: leaf_view_def)
qed

text \<open>\<open>recast\<close> is the view after the \<open>n\<close> bytes from \<open>va\<close> have been given other flags.\<close>

definition recast :: "u64 \<Rightarrow> nat \<Rightarrow> u64 \<Rightarrow> u64 \<Rightarrow> (u64 \<times> u64) option \<Rightarrow> (u64 \<times> u64) option" where
  "recast va n flags va' v =
     (if unat va \<le> unat (low va') \<and> unat (low va') < unat va + n then map_option (\<lambda>(frame, old). (frame, flags)) v else v)"

lemma leaf_small_bit:
  "tree_ok f l t I \<Longrightarrow> pt_index l va \<in> I \<Longrightarrow> leaf_at f l t va = Some (t', j, 0) \<Longrightarrow> bit (f t' j) 0 \<Longrightarrow> \<not> bit (f t' j) 7"
proof (induction l arbitrary: t I)
  case (Suc l)
  let ?e = "f t (pt_index (Suc l) va)"
  have "link ?e" "leaf_at f l (table_at ?e) va = Some (t', j, 0)" using Suc.prems(3) by (auto simp: Let_def split: if_splits)
  moreover from this have "tree_ok f l (table_at ?e) full" using Suc.prems(1,2) by auto
  ultimately show ?case using Suc.IH [of "table_at ?e" full] Suc.prems(4) by simp
qed auto

text \<open>One round on the leaf at \<open>va\<close>, for any part of the address space.\<close>

lemma protect_leaf_upd:
  assumes ok: "tree_ok f 3 t I" and i: "pt_index 3 va \<in> I" and l: "leaf_at f 3 t va = Some (t', j, 0)" and f: "flags_ok flags"
  shows "upd f (f(t' := (f t')(j := protect_entry flags (f t' j)))) 3 t I {}
    (\<lambda>va' v. if same_page 0 va va' then map_option (\<lambda>(frame, old). (frame, flags)) v else v)"
proof -
  let ?e = "f t' j"
  have v: "tview f 3 t va' = entry_view 0 ?e va'" if "same_page 0 va va'" "pt_index 3 va' \<in> I" for va'
  proof -
    have "leaf_at f 3 t va' = Some (t', j, 0)" using leaf_at_same [of 3 va' va f t] that(1) l by (simp add: same_page_def)
    then show ?thesis using tview_at [OF ok that(2)] by simp
  qed
  have small: "bit ?e 0 \<Longrightarrow> \<not> bit ?e 7" using leaf_small_bit [OF ok i l] by blast
  have e: "leaf_ok 0 (protect_entry flags ?e)"
  proof (cases "bit ?e 0")
    case True
    then show ?thesis using protect_entry_view(1) [OF f] small by blast
  next
    case False
    then show ?thesis by (simp add: protect_entry_def leaf_ok_def)
  qed
  have new: "entry_view 0 (protect_entry flags ?e) va' = map_option (\<lambda>(frame, old). (frame, flags)) (entry_view 0 ?e va')" for va'
  proof (cases "bit ?e 0")
    case True
    then show ?thesis using protect_entry_view(2,3) [OF f True small [OF True]] by (simp add: entry_view_def split: prod.splits)
  next
    case False
    then show ?thesis by (simp add: protect_entry_def entry_view_def)
  qed
  have "upd f (f(t' := (f t')(j := protect_entry flags ?e))) 3 t I {}
      (\<lambda>va' v. if same_page 0 va va' then entry_view 0 (protect_entry flags ?e) va' else v)"
    using upd_at [OF ok i l e] by (rule upd_cong) (simp add: same_page_def)
  then show ?thesis unfolding upd_def using new v by auto
qed

lemma recast_add:
  assumes "unat (va + of_nat p) = unat va + p"
  shows "recast (va + of_nat p) n flags va' (recast va p flags va' v) = recast va (p + n) flags va' v"
  using assms by (auto simp: recast_def)

lemma protect_round:
  assumes ok: "tree_ok (mc_mem m) 3 t {..<256}" "frames_ok R m T" and va: "is_aligned va 12" "unat va + 4096 \<le> 2 ^ 47"
    and s: "small (mc_mem m) t va n" "4096 \<le> n" and n: "unat va + n \<le> 2 ^ 47" and f: "flags_ok flags"
  shows "\<exists>m1. protect_rounds t va n flags m = protect_rounds t (va + 4096) (n - 4096) flags m1 \<and>
    changes R T m T m1 3 t {..<256} (recast va 4096 flags) \<and>
    (\<forall>x. user_va x \<longrightarrow> leaf_at (mc_mem m1) 3 t x = leaf_at (mc_mem m) 3 t x)"
proof -
  have u: "user_va va" using va(2) by (simp add: user_va_def)
  note i = user_low(2) [OF u]
  have nx: "unat (va + 4096) = unat va + 4096" using aligned_add(2) [of 0 va] va by simp
  have same: "same_page 0 va va' \<longleftrightarrow> unat va \<le> unat (low va') \<and> unat (low va') < unat va + 4096" for va'
    using same_page_range [of 0 va va'] va u by (simp add: user_va_def)
  show ?thesis
  proof (cases "leaf_at (mc_mem m) 3 t va")
    case None
    have "tview (mc_mem m) 3 t va' = None" if "same_page 0 va va'" "pt_index 3 va' \<in> {..<256}" for va'
    proof -
      have "leaf_at (mc_mem m) 3 t va' = None" using leaf_at_same [of 3 va' va "mc_mem m" t] that(1) None by (simp add: same_page_def)
      then show ?thesis using tview_at [OF ok(1) that(2)] by simp
    qed
    then have "changes R T m T m 3 t {..<256} (recast va 4096 flags)"
      using changes_cong_view [OF changes_refl [OF ok], of "recast va 4096 flags"] same by (auto simp: recast_def)
    moreover have "protect_rounds t va n flags m = protect_rounds t (va + 4096) (n - 4096) flags m"
      using s(2) None by (simp add: protect_rounds.simps [of t va n flags m] protect_leaf_def find_leaf_at)
    ultimately show ?thesis by blast
  next
    case (Some x)
    obtain t' j k where x: "x = (t', j, k)" by (cases x)
    have "unat va < unat va + n" using s(2) by simp
    then have k: "k = 0" using s(1) Some x unfolding small_def by blast
    let ?m = "set_entry t' j (protect_entry flags (mc_mem m t' j)) m"
    have "upd (mc_mem m) (mc_mem ?m) 3 t {..<256} {} (recast va 4096 flags)"
      unfolding set_entry_mem using protect_leaf_upd [OF ok(1) i Some [unfolded x k] f] same by (elim upd_cong) (simp add: recast_def)
    then have "changes R T m T ?m 3 t {..<256} (recast va 4096 flags)"
      using ok(2) by (simp add: changes_def frames_ok_def) (simp add: set_entry_def)
    moreover have "protect_rounds t va n flags m = protect_rounds t (va + 4096) (n - 4096) flags ?m"
    proof -
      have a: "(va AND 4095) = 0" using va(1) by (simp add: is_aligned_def)
      have "protect_leaf t va n m = (Some (t', j, 4096), m)"
        using Some x k a s(2) by (simp add: protect_leaf_def find_leaf_at)
      then show ?thesis using s(2) by (simp add: protect_rounds.simps [of t va n flags m])
    qed
    moreover have "leaf_at (mc_mem ?m) 3 t y = leaf_at (mc_mem m) 3 t y" if "user_va y" for y
      unfolding set_entry_mem by (rule leaf_at_stays [OF ok(1) i Some [unfolded x k] user_low(2) [OF that]])
    ultimately show ?thesis by blast
  qed
qed

lemma small_cong:
  assumes s: "small f t va n" and l: "\<And>x. user_va x \<Longrightarrow> leaf_at f' 3 t x = leaf_at f 3 t x"
    and b: "unat va + n \<le> 2 ^ 47" "unat va \<le> unat v" "unat v + k \<le> unat va + n"
  shows "small f' t v k"
  unfolding small_def
proof (intro allI impI)
  fix x t' i q
  assume x: "unat v \<le> unat x \<and> unat x < unat v + k" "leaf_at f' 3 t x = Some (t', i, q)"
  have "user_va x" unfolding user_va_def using x(1) b by linarith
  then have "leaf_at f 3 t x = Some (t', i, q)" using l x(2) by simp
  moreover have "unat va \<le> unat x \<and> unat x < unat va + n" using x(1) b by linarith
  ultimately show "q = 0" using s unfolding small_def by blast
qed

lemma protect_rounds_changes:
  assumes "tree_ok (mc_mem m) 3 t {..<256}" "frames_ok R m T" "is_aligned va 12" "unat va + 4096 * n \<le> 2 ^ 47"
    "small (mc_mem m) t va (4096 * n)" "flags_ok flags"
  shows "changes R T m T (protect_rounds t va (4096 * n) flags m) 3 t {..<256} (recast va (4096 * n) flags) \<and>
    (\<forall>x. user_va x \<longrightarrow> leaf_at (mc_mem (protect_rounds t va (4096 * n) flags m)) 3 t x = leaf_at (mc_mem m) 3 t x)"
  using assms
proof (induction n arbitrary: va m)
  case 0
  have "recast va 0 flags = (\<lambda>va' v. v)" by (intro ext) (auto simp: recast_def)
  then show ?case using changes_refl [OF 0(1,2)] by (simp add: protect_rounds.simps)
next
  case (Suc n)
  have le: "unat va + 4096 \<le> 2 ^ 47" "4096 \<le> 4096 * Suc n" using Suc.prems(4) by simp_all
  obtain m1 where m1: "protect_rounds t va (4096 * Suc n) flags m = protect_rounds t (va + 4096) (4096 * Suc n - 4096) flags m1"
    "changes R T m T m1 3 t {..<256} (recast va 4096 flags)" "\<forall>x. user_va x \<longrightarrow> leaf_at (mc_mem m1) 3 t x = leaf_at (mc_mem m) 3 t x"
    using protect_round [OF Suc.prems(1-3) le(1) Suc.prems(5) le(2) Suc.prems(4,6)] by blast
  have e: "4096 * Suc n - 4096 = 4096 * n" by simp
  have nx: "unat (va + of_nat 4096) = unat va + 4096" "is_aligned (va + of_nat 4096) 12"
    using aligned_add [of 0 va] Suc.prems(3) le(1) by simp_all
  have s1: "small (mc_mem m1) t (va + of_nat 4096) (4096 * n)"
    by (rule small_cong [OF Suc.prems(5)]) (use m1(3) Suc.prems(4) nx(1) in auto)
  have t1: "tree_ok (mc_mem m1) 3 t {..<256}" "frames_ok R m1 T" using m1(2) by (auto simp: changes_def upd_def)
  have b1: "unat (va + of_nat 4096) + 4096 * n \<le> 2 ^ 47" using nx(1) Suc.prems(4) by simp
  note IH = Suc.IH [OF t1 nx(2) b1 s1 Suc.prems(6)]
  have "changes R T m T (protect_rounds t (va + of_nat 4096) (4096 * n) flags m1) 3 t {..<256}
      (\<lambda>va' v. recast (va + of_nat 4096) (4096 * n) flags va' (recast va 4096 flags va' v))"
    by (rule changes_trans [OF m1(2) conjunct1 [OF IH]])
  then show ?case
    unfolding m1(1) e using recast_add [OF nx(1), of "4096 * n" flags] IH m1(3) by simp
qed

end
