(* ===== verification/RK_VmmProps.thy ===== *)
theory RK_VmmProps
  imports RK_VmmAreas RK_PagingUse
begin

unbundle bit_operations_syntax

text \<open>
  What faults, protection, clones and copies across the user boundary do, in terms of what
  \<open>arch_translate\<close> says of an address.
\<close>

section \<open>One fault\<close>

lemma page_down_base: "page_down va = page_base va"
  by (simp add: page_down_def page_base_def page_mask)

text \<open>Frames of anonymous objects are page addresses; fixed ranges are pages below two to the 52.\<close>

definition object_ok :: "vm_object \<Rightarrow> bool" where
  "object_ok x \<longleftrightarrow>
     (if vo_kind x = VM_OBJ_PHYS then is_aligned (vo_phys x) 12 \<and> vo_phys x \<noteq> 0 \<and> unat (vo_phys x) + vo_npages x * 4096 \<le> 2 ^ 52
      else length (vo_frames x) = vo_npages x \<and> (\<forall>pa \<in> set (vo_frames x). pa = 0 \<or> frame_addr pa))"

definition known_frame :: "vm_object \<Rightarrow> u64 \<Rightarrow> u64" where
  "known_frame x index = (if vo_kind x = VM_OBJ_PHYS then vo_phys x + page_size index else vo_frames x ! unat index)"

lemma phys_page:
  assumes x: "object_ok x" "vo_kind x = VM_OBJ_PHYS" and i: "unat index < vo_npages x"
  shows "frame_addr (known_frame x index)" "known_frame x index \<noteq> 0"
proof -
  have p: "is_aligned (vo_phys x) 12" "vo_phys x \<noteq> 0" "unat (vo_phys x) + vo_npages x * 4096 \<le> 2 ^ 52"
    using x by (auto simp: object_ok_def)
  have b: "unat (vo_phys x) + (unat index * 4096 + 4096) \<le> 2 ^ 52" using p(3) i by simp
  then have s: "unat (page_size index) = unat index * 4096" by (intro page_size_nat) simp
  then have u: "unat (known_frame x index) = unat (vo_phys x) + unat index * 4096"
    using x(2) b by (simp add: known_frame_def unat_word_ariths)
  then show "known_frame x index \<noteq> 0" using p(2) by (metis add_is_0 unat_0 unat_eq_zero)
  have "unat (known_frame x index) mod 4096 = 0" using u p(1) by (simp add: aligned_nat mod_add_eq [symmetric])
  then have "is_aligned (known_frame x index) 12" by (simp add: aligned_nat)
  then show "frame_addr (known_frame x index)" by (rule frame_addrI) (use u b in simp)
qed

lemma known_frame_ok:
  assumes "object_ok x" "unat index < vo_npages x" "known_frame x index \<noteq> 0"
  shows "frame_addr (known_frame x index)"
  using assms phys_page [OF assms(1) _ assms(2)] by (cases "vo_kind x = VM_OBJ_PHYS") (auto simp: known_frame_def object_ok_def)

text \<open>The frame a page of an object gets is the one it has, or a new one, which it keeps.\<close>

definition keep_frame :: "nat \<Rightarrow> u64 \<Rightarrow> u64 \<Rightarrow> vmm \<Rightarrow> vmm" where
  "keep_frame b index pa s =
     (if vo_kind (ob s b) = VM_OBJ_PHYS \<or> pa = 0 then s else set_obj b (\<lambda>x. x\<lparr>vo_frames := (vo_frames x)[unat index := pa]\<rparr>) s)"

lemma vm_object_page_eq:
  assumes "unat index < vo_npages (ob s b)" "b < length (vm_objs s)"
    "vo_kind (ob s b) = VM_OBJ_PHYS \<Longrightarrow> known_frame (ob s b) index \<noteq> 0"
  shows "vm_object_page b index s =
    (case (if known_frame (ob s b) index \<noteq> 0 then (known_frame (ob s b) index, vm_mc s) else page_alloc (vm_mc s)) of
       (pa, m) \<Rightarrow> (pa, (keep_frame b index pa s)\<lparr>vm_mc := m\<rparr>))"
  using assms
  by (auto simp: vm_object_page_def known_frame_def keep_frame_def on_machine_def set_obj_def Let_def split: prod.splits)

text \<open>The areas after the stack was grown, and the area a fault belongs to.\<close>

lemma fault_touch:
  assumes f: "vm_handle_fault mem a va access s = (r, s')" and a: "a < length (vm_spaces s)"
    and i: "fault_area (page_down va) (areas s a) = Some (i, as)" and ar: "as ! i = ar"
    and w: "has access VM_FAULT_WRITE \<Longrightarrow> has (ar_prot ar) RK_PROT_WRITE"
    and ob: "ar_obj ar < length (vm_objs s)" "object_ok (ob s (ar_obj ar))"
    and ok: "r = Inr ()"
  shows "\<exists>pa. unat (page_index ar (page_down va)) < vo_npages (ob s (ar_obj ar)) \<and>
    touch page_alloc (\<lambda>v p. arch_map (as_pgtable (sp s a)) v p 4096) (page_down va)
      (known_frame (ob s (ar_obj ar)) (page_index ar (page_down va))) (ar_prot ar) (vm_mc s) = (pa, Inr (), vm_mc s') \<and>
    vm_objs s' = vm_objs (keep_frame (ar_obj ar) (page_index ar (page_down va)) pa s) \<and>
    vm_spaces s' = vm_spaces (set_space a (\<lambda>x. x\<lparr>as_areas := as, as_rss := as_rss x + 1\<rparr>) s)"
proof -
  let ?pg = "page_down va" and ?b = "ar_obj ar"
  let ?ix = "page_index ar ?pg"
  define s0 where "s0 = set_space a (\<lambda>x. x\<lparr>as_areas := as\<rparr>) s"
  have s0: "vm_objs s0 = vm_objs s" "vm_mc s0 = vm_mc s" "as_pgtable (sp s0 a) = as_pgtable (sp s a)"
    using a by (simp_all add: s0_def set_space_def)
  obtain pa s1 where p: "vm_object_page ?b ?ix s0 = (pa, s1)" by fastforce
  obtain e s2 where m: "on_machine (arch_map (as_pgtable (sp s1 a)) ?pg pa 4096 (ar_prot ar)) s1 = (e, s2)" by fastforce
  have R: "pa \<noteq> 0 \<and> e = Inr () \<and> s' = set_space a (\<lambda>x. x\<lparr>as_rss := as_rss x + 1\<rparr>) s2"
    using f i ar w ok p m by (auto simp: vm_handle_fault_def Let_def s0_def split: if_splits sum.splits)
  have n: "unat ?ix < vo_npages (ob s ?b)" using p R s0(1) by (auto simp: vm_object_page_def Let_def split: if_splits)
  let ?k = "known_frame (ob s ?b) ?ix"
  obtain x m1 where x: "(if ?k \<noteq> 0 then (?k, vm_mc s) else page_alloc (vm_mc s)) = (x, m1)" by fastforce
  have "vm_object_page ?b ?ix s0 = (case (if ?k \<noteq> 0 then (?k, vm_mc s) else page_alloc (vm_mc s)) of
      (pa, m) \<Rightarrow> (pa, (keep_frame ?b ?ix pa s0)\<lparr>vm_mc := m\<rparr>))"
    using vm_object_page_eq [of ?ix s0 ?b] n ob phys_page(2) [OF ob(2) _ n] unfolding s0(1,2) by blast
  then have "vm_object_page ?b ?ix s0 = (x, (keep_frame ?b ?ix x s0)\<lparr>vm_mc := m1\<rparr>)"
    unfolding x by simp
  then have s1: "pa = x" "s1 = (keep_frame ?b ?ix x s0)\<lparr>vm_mc := m1\<rparr>" using p by auto
  have sp1: "vm_spaces s1 = vm_spaces s0" "vm_objs s1 = vm_objs (keep_frame ?b ?ix x s)"
    using s0(1) by (simp_all add: s1 keep_frame_def set_obj_def)
  have s2: "arch_map (as_pgtable (sp s a)) ?pg x 4096 (ar_prot ar) m1 = (Inr (), vm_mc s2)" "vm_objs s2 = vm_objs s1" "vm_spaces s2 = vm_spaces s1"
    using m R s1 sp1(1) s0(3) by (auto simp: on_machine_def split: prod.splits)
  have "vm_mc s' = vm_mc s2" "vm_objs s' = vm_objs s2" using R by (simp_all add: set_space_def)
  moreover have "vm_spaces s' = vm_spaces (set_space a (\<lambda>x. x\<lparr>as_areas := as, as_rss := as_rss x + 1\<rparr>) s)"
    using R s2(3) sp1(1) a by (simp add: set_space_def s0_def)
  moreover have "x \<noteq> 0" using R s1(1) by simp
  ultimately show ?thesis using n x s2 sp1(2) R by (intro exI [of _ x]) (simp add: touch_def)
qed

lemma keep_frame_known:
  assumes "b < length (vm_objs s)" "object_ok (ob s b)" "unat index < vo_npages (ob s b)" "pa \<noteq> 0" "frame_addr pa"
    "known_frame (ob s b) index \<noteq> 0 \<Longrightarrow> pa = known_frame (ob s b) index"
  shows "known_frame (ob (keep_frame b index pa s) b) index = pa" "object_ok (ob (keep_frame b index pa s) b)"
    "vo_npages (ob (keep_frame b index pa s) b) = vo_npages (ob s b)"
    "c \<noteq> b \<Longrightarrow> ob (keep_frame b index pa s) c = ob s c" "length (vm_objs (keep_frame b index pa s)) = length (vm_objs s)"
proof -
  have "pa = known_frame (ob s b) index" if "vo_kind (ob s b) = VM_OBJ_PHYS"
    using phys_page(2) [OF assms(2) that assms(3)] assms(6) by blast
  then show "known_frame (ob (keep_frame b index pa s) b) index = pa"
    using assms(1-4) by (auto simp: keep_frame_def known_frame_def set_obj_def object_ok_def)
  show "object_ok (ob (keep_frame b index pa s) b)"
    using assms(1,2,5) by (auto simp: keep_frame_def set_obj_def object_ok_def dest!: set_update_subset_insert [THEN subsetD])
  show "vo_npages (ob (keep_frame b index pa s) b) = vo_npages (ob s b)" "c \<noteq> b \<Longrightarrow> ob (keep_frame b index pa s) c = ob s c"
    "length (vm_objs (keep_frame b index pa s)) = length (vm_objs s)"
    using assms(1) by (auto simp: keep_frame_def set_obj_def)
qed

lemma fault_page:
  assumes f: "vm_handle_fault mem a va access s = (Inr (), s')" and a: "a < length (vm_spaces s)"
    and good: "space_good R (as_pgtable (sp s a)) (vm_mc s)"
    and va: "user_va va" and i: "fault_area (page_down va) (areas s a) = Some (i, as)" and ar: "as ! i = ar"
    and w: "has access VM_FAULT_WRITE \<Longrightarrow> has (ar_prot ar) RK_PROT_WRITE"
    and ob: "ar_obj ar < length (vm_objs s)" "object_ok (ob s (ar_obj ar))"
  shows "\<exists>pa. pa \<noteq> 0 \<and> known_frame (ob s' (ar_obj ar)) (page_index ar (page_down va)) = pa \<and>
    (known_frame (ob s (ar_obj ar)) (page_index ar (page_down va)) \<noteq> 0 \<longrightarrow>
       pa = known_frame (ob s (ar_obj ar)) (page_index ar (page_down va))) \<and>
    space_good R (as_pgtable (sp s' a)) (vm_mc s') \<and>
    (\<forall>x. user_va x \<longrightarrow> arch_translate (as_pgtable (sp s' a)) x (vm_mc s') =
       (if page_down x = page_down va then Some (pa + (x - page_down va), granted (ar_prot ar) (vm_mc s))
        else arch_translate (as_pgtable (sp s a)) x (vm_mc s)))"
proof -
  let ?pg = "page_down va" and ?pt = "as_pgtable (sp s a)"
  let ?ix = "page_index ar ?pg" and ?b = "ar_obj ar"
  obtain pa where p: "unat ?ix < vo_npages (ob s ?b)"
    "touch page_alloc (\<lambda>v p. arch_map ?pt v p 4096) ?pg (known_frame (ob s ?b) ?ix) (ar_prot ar) (vm_mc s) = (pa, Inr (), vm_mc s')"
    "vm_objs s' = vm_objs (keep_frame ?b ?ix pa s)"
    "vm_spaces s' = vm_spaces (set_space a (\<lambda>x. x\<lparr>as_areas := as, as_rss := as_rss x + 1\<rparr>) s)"
    using fault_touch [OF f a i ar w ob refl] by blast
  have pg: "is_aligned ?pg 12" "user_va ?pg"
    using page_base_le [of va] va by (simp_all add: page_down_base user_va_def)
  note T = pg.touch_law [OF good pg _ p(2), OF known_frame_ok [OF ob(2) p(1)]]
  have "space_good R ?pt (vm_mc s') \<and> pa \<noteq> 0 \<and> frame_addr pa \<and> (known_frame (ob s ?b) ?ix \<noteq> 0 \<longrightarrow> pa = known_frame (ob s ?b) ?ix)"
    using T [of 0] by blast
  moreover from this have "known_frame (ob s' ?b) ?ix = pa"
    using keep_frame_known(1) [OF ob p(1)] p(3) by simp
  moreover have "as_pgtable (sp s' a) = ?pt" using p(4) a by (simp add: set_space_def)
  moreover have "user_va x \<longrightarrow> arch_translate ?pt x (vm_mc s') =
      (if page_down x = ?pg then Some (pa + (x - ?pg), granted (ar_prot ar) (vm_mc s)) else arch_translate ?pt x (vm_mc s))" for x
    using T [of x] by (simp add: page_down_base)
  ultimately show ?thesis by auto
qed

text \<open>
  C11. A fault on a page of an area whose rights allow the access, when it succeeds, maps that page, and
  no other, to the frame of the area's object at the page's place in it, with the rights of the area:
  the frame the object had for it, or a new one, which the object then keeps.
\<close>
theorem fault_maps_object_page:
  assumes f: "vm_handle_fault mem a va access s = (Inr (), s')" and a: "a < length (vm_spaces s)"
    and good: "space_good R (as_pgtable (sp s a)) (vm_mc s)"
    and va: "user_va va" and i: "fault_area (page_down va) (areas s a) = Some (i, as)" and ar: "as ! i = ar"
    and w: "has access VM_FAULT_WRITE \<Longrightarrow> has (ar_prot ar) RK_PROT_WRITE"
    and ob: "ar_obj ar < length (vm_objs s)" "object_ok (ob s (ar_obj ar))"
  shows "\<exists>pa. pa \<noteq> 0 \<and> known_frame (ob s' (ar_obj ar)) (page_index ar (page_down va)) = pa \<and>
    (known_frame (ob s (ar_obj ar)) (page_index ar (page_down va)) \<noteq> 0 \<longrightarrow>
       pa = known_frame (ob s (ar_obj ar)) (page_index ar (page_down va))) \<and>
    space_good R (as_pgtable (sp s' a)) (vm_mc s') \<and>
    (\<forall>x. user_va x \<longrightarrow> arch_translate (as_pgtable (sp s' a)) x (vm_mc s') =
       (if page_down x = page_down va then Some (pa + (x - page_down va), granted (ar_prot ar) (vm_mc s))
        else arch_translate (as_pgtable (sp s a)) x (vm_mc s)))"
  by (rule fault_page [OF f a good va i ar w ob])

section \<open>Copying in from user memory\<close>

definition vm_inv :: "(nat \<times> nat) set \<Rightarrow> nat \<Rightarrow> vmm \<Rightarrow> bool" where
  "vm_inv R a s \<longleftrightarrow> a < length (vm_spaces s) \<and> space_good R (as_pgtable (sp s a)) (vm_mc s) \<and>
     (\<forall>b < length (vm_objs s). object_ok (ob s b)) \<and> (\<forall>x \<in> set (areas s a). ar_obj x < length (vm_objs s))"

abbreviation shows_at :: "nat \<Rightarrow> vmm \<Rightarrow> u64 \<Rightarrow> bool" where
  "shows_at a s x \<equiv> arch_translate (as_pgtable (sp s a)) x (vm_mc s) \<noteq> None"

lemma page_index_base:
  assumes "page_base x = page_base y"
  shows "pt_index k x = pt_index k y"
proof -
  have "bit x n = bit y n" if "12 \<le> n" for n
  proof -
    have "bit (page_base x) n = bit (page_base y) n" by (simp only: assms)
    then show ?thesis using that by (cases "n < 64") (auto simp: page_base_def bit_simps dest: bit_imp_le_length)
  qed
  then have "drop_bit (12 + 9 * k) x = drop_bit (12 + 9 * k) y"
    by (intro bit_word_eqI) (simp add: bit_drop_bit_eq)
  then show ?thesis unfolding pt_index_def by (simp only:)
qed

lemma shows_page: "page_base x = page_base y \<Longrightarrow> arch_translate pt x m \<noteq> None \<longleftrightarrow> arch_translate pt y m \<noteq> None"
proof -
  assume b: "page_base x = page_base y"
  have e: "arch_translate pt v m \<noteq> None \<longleftrightarrow>
      (case leaf_at (mc_mem m) 3 (root_of pt m) v of None \<Rightarrow> False | Some (t, i, k) \<Rightarrow> bit (mc_mem m t i) 0)" for v
    by (cases "leaf_at (mc_mem m) 3 (root_of pt m) v") (auto simp: arch_translate_def find_leaf_at Let_def split: if_splits)
  have "leaf_at (mc_mem m) 3 (root_of pt m) x = leaf_at (mc_mem m) 3 (root_of pt m) y"
    by (rule leaf_at_same) (rule page_index_base [OF b])
  then show ?thesis unfolding e by (simp only:)
qed

lemma fault_area_objs:
  assumes "fault_area pg as = Some (i, as')"
  shows "i < length as'" "ar_obj ` set as' \<subseteq> ar_obj ` set as"
proof -
  have "i < length as \<and> (as' = as \<or> as' = as[i := (as ! i)\<lparr>ar_start := pg\<rparr>])"
    using assms position_some [of "covers pg" as i] position_some [of "grows_to pg" as i]
    by (auto simp: fault_area_def split: option.splits)
  then show "i < length as'" "ar_obj ` set as' \<subseteq> ar_obj ` set as"
    by (auto dest!: set_update_subset_insert [THEN subsetD])
qed

lemma read_fault_keeps:
  assumes f: "vm_handle_fault mem a va (VM_FAULT_READ OR VM_FAULT_USER) s = (Inr (), s')" and inv: "vm_inv R a s" and va: "user_va va"
  shows "vm_inv R a s'" "page_down x = page_down va \<Longrightarrow> user_va x \<Longrightarrow> shows_at a s' x" "user_va x \<Longrightarrow> shows_at a s x \<Longrightarrow> shows_at a s' x"
proof -
  obtain i as where i: "fault_area (page_down va) (areas s a) = Some (i, as)"
    using f by (auto simp: vm_handle_fault_def Let_def split: option.splits)
  let ?ar = "as ! i" and ?pg = "page_down va"
  have a: "a < length (vm_spaces s)" and good: "space_good R (as_pgtable (sp s a)) (vm_mc s)" using inv by (auto simp: vm_inv_def)
  have ar: "?ar \<in> set as" using fault_area_objs(1) [OF i] by simp
  have objs: "ar_obj x < length (vm_objs s)" if "x \<in> set as" for x
    using fault_area_objs(2) [OF i] that inv by (auto simp: vm_inv_def)
  have ob: "ar_obj ?ar < length (vm_objs s)" "object_ok (ob s (ar_obj ?ar))" using objs [OF ar] inv by (auto simp: vm_inv_def)
  have w: "has (VM_FAULT_READ OR VM_FAULT_USER) VM_FAULT_WRITE \<Longrightarrow> has (ar_prot ?ar) RK_PROT_WRITE"
    by (simp add: has_def VM_FAULT_READ_def VM_FAULT_USER_def VM_FAULT_WRITE_def)
  obtain pa where pa: "unat (page_index ?ar ?pg) < vo_npages (ob s (ar_obj ?ar))"
    "touch page_alloc (\<lambda>v p. arch_map (as_pgtable (sp s a)) v p 4096) ?pg (known_frame (ob s (ar_obj ?ar)) (page_index ?ar ?pg))
       (ar_prot ?ar) (vm_mc s) = (pa, Inr (), vm_mc s')"
    "vm_objs s' = vm_objs (keep_frame (ar_obj ?ar) (page_index ?ar ?pg) pa s)"
    "vm_spaces s' = vm_spaces (set_space a (\<lambda>x. x\<lparr>as_areas := as, as_rss := as_rss x + 1\<rparr>) s)"
    using fault_touch [OF f a i refl w ob refl] by blast
  have pg: "is_aligned ?pg 12" "user_va ?pg" using page_base_le [of va] va by (simp_all add: page_down_base user_va_def)
  note T = pg.touch_law [OF good pg _ pa(2), OF known_frame_ok [OF ob(2) pa(1)]]
  have nz: "pa \<noteq> 0" "frame_addr pa" "known_frame (ob s (ar_obj ?ar)) (page_index ?ar ?pg) \<noteq> 0 \<Longrightarrow> pa = known_frame (ob s (ar_obj ?ar)) (page_index ?ar ?pg)"
    using T by blast+
  note K = keep_frame_known [OF ob pa(1) nz(1,2,3)]
  have sp': "as_pgtable (sp s' a) = as_pgtable (sp s a)" "areas s' a = as" "length (vm_spaces s') = length (vm_spaces s)"
    using pa(4) a by (simp_all add: set_space_def)
  have "object_ok (ob s' b)" if "b < length (vm_objs s')" for b
    using K(2,4,5) pa(3) that inv by (cases "b = ar_obj ?ar") (auto simp: vm_inv_def)
  moreover have "\<forall>x \<in> set as. ar_obj x < length (vm_objs s')" using objs K(5) pa(3) by simp
  ultimately show "vm_inv R a s'" using T [of 0] a sp' by (simp add: vm_inv_def)
  show "page_down x = page_down va \<Longrightarrow> user_va x \<Longrightarrow> shows_at a s' x" using T [of x] sp'(1) by (simp add: page_down_base)
  show "user_va x \<Longrightarrow> shows_at a s x \<Longrightarrow> shows_at a s' x" using T [of x] sp'(1) by (simp split: if_splits)
qed

lemma fault_in_read_shows:
  assumes "fault_in_read mem a p stop s = (Inr (), s')" "vm_inv R a s" "p mod 4096 = 0" "stop \<le> 2 ^ 47"
  shows "vm_inv R a s' \<and> (\<forall>x. user_va x \<longrightarrow> shows_at a s x \<or> p \<le> unat x \<and> unat x < stop \<longrightarrow> shows_at a s' x)"
  using assms
proof (induction mem a p stop s rule: fault_in_read.induct)
  case (1 mem a p stop s)
  show ?case
  proof (cases "stop \<le> p")
    case True
    then show ?thesis using 1(3-6) fault_in_read.simps [of mem a p stop s] by auto
  next
    case False
    have p: "unat (of_nat p :: u64) = p" using False 1(6) by (simp add: unat_of_nat)
    have u: "user_va (of_nat p)" using p False 1(6) by (simp add: user_va_def)
    have here: "page_base x = page_base (of_nat p)" if "p \<le> unat x" "unat x < p + 4096" for x :: u64
    proof -
      have al: "is_aligned (of_nat p :: u64) 12" using p 1(5) by (simp add: aligned_nat)
      then have "page_base (of_nat p :: u64) = of_nat p" "page_base x = of_nat p"
        using page_base_iff [OF al] p that by auto
      then show ?thesis by simp
    qed
    have m: "(p + 4096) mod 4096 = 0" using 1(5) by simp
    have split: "p + 4096 \<le> unat x \<or> p \<le> unat x \<and> unat x < p + 4096" if "p \<le> unat x" for x :: u64 using that by linarith
    show ?thesis
    proof (cases "shows_at a s (of_nat p)")
      case True
      have r: "fault_in_read mem a (p + 4096) stop s = (Inr (), s')"
        using 1(3) False True fault_in_read.simps [of mem a p stop s] by simp
      note IH = 1(1) [OF False True r 1(4) m 1(6)]
      have "shows_at a s x" if "p \<le> unat x" "unat x < p + 4096" for x
        using shows_page [OF here [OF that]] True by simp
      then show ?thesis using IH split by blast
    next
      case no: False
      obtain s1 where s1: "vm_handle_fault mem a (of_nat p) (VM_FAULT_READ OR VM_FAULT_USER) s = (Inr (), s1)"
        "fault_in_read mem a (p + 4096) stop s1 = (Inr (), s')"
        using 1(3) False no fault_in_read.simps [of mem a p stop s] by (auto split: prod.splits sum.splits)
      note K = read_fault_keeps [OF s1(1) 1(4) u]
      have no': "\<not> arch_translate (as_pgtable (sp s a)) (of_nat p) (vm_mc s) \<noteq> None" using no by simp
      note IH = 1(2) [OF False no' s1(1) [symmetric] refl s1(2) K(1) m 1(6)]
      have "shows_at a s1 x" if "user_va x" "p \<le> unat x" "unat x < p + 4096" for x
        using K(2) [of x] that here by (simp add: page_down_base)
      then show ?thesis using IH K(3) split by blast
    qed
  qed
qed

lemma those_map_some: "(\<And>x. x \<in> set xs \<Longrightarrow> g x = Some (f x)) \<Longrightarrow> those (map g xs) = Some (map f xs)"
  by (induction xs) simp_all

text \<open>
  C12. When the pages of a user buffer have been faulted in, the copy out of it cannot fault: every byte
  of the range is mapped by then, whatever the faults on later pages did to earlier ones.
\<close>
theorem copy_in_cannot_fault:
  assumes inv: "vm_inv R a s" and c: "copy_from_user mem (Some a) usrc n s = (Inr r, s')"
  shows "\<exists>bs. r = Some bs \<and> length bs = unat n"
proof -
  have ok: "user_range_ok usrc n" and f: "fault_in_read mem a (unat (page_down usrc)) (unat (usrc + n)) s = (Inr (), s')"
    and r: "r = load_bytes (as_pgtable (sp s' a)) usrc (unat n) (vm_mc s')"
    using c by (auto simp: copy_from_user_def split: if_splits prod.splits sum.splits)
  have stop: "unat (usrc + n) \<le> 2 ^ 47" using ok by (simp add: user_range_ok_def word_le_nat_alt USER_MAX_def)
  have nw: "unat (usrc + n) = unat usrc + unat n"
    using ok unat_add_lem [of usrc n] no_olen_add_nat [of usrc n] by (simp add: user_range_ok_def not_less)
  have pg: "unat (page_down usrc) mod 4096 = 0" "unat (page_down usrc) \<le> unat usrc"
    using paged_down [of usrc] by (simp_all add: paged_def page_down_nat)
  have "shows_at a s' (usrc + of_nat i)" if "i < unat n" for i
  proof -
    have "unat (usrc + of_nat i) = unat usrc + i"
      using that nw stop by (simp add: unat_word_ariths unat_of_nat)
    then show ?thesis using fault_in_read_shows [OF f inv pg(1) stop] that nw stop pg(2) by (simp add: user_va_def)
  qed
  then have "load_byte (as_pgtable (sp s' a)) (usrc + of_nat i) (vm_mc s') \<noteq> None" if "i < unat n" for i
    using that by (auto simp: load_byte_def)
  then have "those (map (\<lambda>i. load_byte (as_pgtable (sp s' a)) (usrc + of_nat i) (vm_mc s')) [0..<unat n]) =
      Some (map (\<lambda>i. the (load_byte (as_pgtable (sp s' a)) (usrc + of_nat i) (vm_mc s'))) [0..<unat n])"
    by (intro those_map_some) auto
  then show ?thesis using r by (simp add: load_bytes_def)
qed

end
