(* ===== verification/RK_VmmErrors.thy ===== *)
theory RK_VmmErrors
  imports RK_VmmProps
begin

unbundle bit_operations_syntax

text \<open>
  Where virtual memory does not keep its promises: protection without areas, a clone whose parent
  still writes to the shared frames, a range check that wraps; and the witnesses of this group.
\<close>

section \<open>Protection asks for no area\<close>

lemma root_of_same: "mc_kernel_pml4 m' = mc_kernel_pml4 m \<Longrightarrow> root_of pt m' = root_of pt m"
  by (simp add: root_of_def)

text \<open>
  C14. \<open>as_protect\<close>, which the system call passes the user's address and rights to, changes the rights of
  any small page that is mapped, whether or not an area of the address space covers it, and in the
  kernel's half of the address space as well: with the user bit asked for, the page is the user's.
\<close>
theorem protect_needs_no_area:
  assumes t: "tree_ok (mc_mem (vm_mc s)) 3 (root_of (as_pgtable (sp s a)) (vm_mc s)) {pt_index 3 va}"
    and l: "find_leaf (root_of (as_pgtable (sp s a)) (vm_mc s)) va (vm_mc s) = Some (t, i, 4096)"
    and tr: "arch_translate (as_pgtable (sp s a)) va (vm_mc s) = Some (pa, old)" and al: "is_aligned va 12"
  shows "\<exists>s'. as_protect a va 4096 prot s = (Inr (), s') \<and>
    arch_translate (as_pgtable (sp s a)) va (vm_mc s') = Some (pa, granted prot (vm_mc s))"
proof -
  let ?pt = "as_pgtable (sp s a)" and ?m = "vm_mc s"
  let ?r = "root_of ?pt ?m" and ?flags = "prot_to_pte (mc_nx ?m) prot"
  let ?s = "set_space a (\<lambda>x. x\<lparr>as_areas := change_area (covers va) (\<lambda>ar. ar\<lparr>ar_prot := prot\<rparr>) (as_areas x)\<rparr>) s"
  have pt: "as_pgtable (sp ?s a) = ?pt" "vm_mc ?s = ?m" by (cases "a < length (vm_spaces s)") (simp_all add: set_space_def list_update_beyond not_less)
  obtain k where k: "leaf_at (mc_mem ?m) 3 ?r va = Some (t, i, k)" "(2 :: nat) ^ (12 + 9 * k) = 4096"
    using l by (auto simp: find_leaf_at)
  have "(2 :: nat) ^ (12 + 9 * k) = 2 ^ 12" using k(2) by simp
  then have k0: "k = 0" by (simp only: power_inject_exp)
  let ?m' = "set_entry t i (protect_entry ?flags (mc_mem ?m t i)) ?m"
  have "va AND 4095 = 0" using al by (simp add: is_aligned_def)
  then have "protect_leaf ?r va 4096 ?m = (Some (t, i, 4096), ?m)" using l by (simp add: protect_leaf_def)
  then have "arch_protect ?pt va 4096 prot ?m = (Inr (), ?m')"
    by (simp add: arch_protect_def protect_rounds.simps [of ?r va 4096] protect_rounds.simps [of _ _ 0])
  then have r: "as_protect a va 4096 prot s = (Inr (), ?s\<lparr>vm_mc := ?m'\<rparr>)"
    by (simp add: as_protect_def on_machine_def pt)
  have same: "same_page 0 va va" by (simp add: same_page_def)
  have u: "upd (mc_mem ?m) (mc_mem ?m') 3 ?r {pt_index 3 va} {}
      (\<lambda>va' v. if same_page 0 va va' then map_option (\<lambda>(frame, old). (frame, ?flags)) v else v)"
    unfolding set_entry_mem by (rule protect_leaf_upd [OF t _ k(1) [unfolded k0] prot_flags_ok]) simp
  have root: "root_of ?pt ?m' = ?r" by (simp add: root_of_def set_entry_def)
  have "arch_translate ?pt va ?m' = map_option (shown va) (map_option (\<lambda>(frame, old). (frame, ?flags)) (tview (mc_mem ?m) 3 ?r va))"
    using translate_view [of ?m' ?pt "{pt_index 3 va}" va] u same unfolding root upd_def by simp
  moreover obtain fr fl where v: "tview (mc_mem ?m) 3 ?r va = Some (fr, fl)" "pa = fr + (va AND mask 12)"
    using tr translate_view [OF t, of va] by (auto simp: shown_def)
  ultimately have "arch_translate ?pt va ?m' = Some (pa, granted prot ?m)"
    by (simp add: shown_def granted_def)
  then show ?thesis using r by simp
qed

section \<open>A clone\<close>

lemma granted_write: "has (granted prot m) RK_PROT_WRITE \<longleftrightarrow> has prot RK_PROT_WRITE"
proof -
  have b: "has p RK_PROT_WRITE \<longleftrightarrow> bit p 1" for p :: u32
    using has_bit [of 1 p] by (simp add: RK_PROT_WRITE_def)
  have "bit (pte_to_prot e) 1 \<longleftrightarrow> bit e 1" for e
    by (auto simp: pte_to_prot_def Let_def bit_or_iff RK_PROT_READ_def RK_PROT_WRITE_def RK_PROT_USER_def RK_PROT_EXEC_def RK_PROT_NOCACHE_def)
  moreover have "bit (prot_to_pte nx prot) 1 \<longleftrightarrow> bit prot 1" for nx
    by (auto simp: prot_to_pte_def Let_def bit_or_iff pte_bits b)
  ultimately show ?thesis by (simp add: b granted_def)
qed

lemma object_get_view:
  "vo_kind (ob (vm_object_get x t) b) = vo_kind (ob t b)" "vo_phys (ob (vm_object_get x t) b) = vo_phys (ob t b)"
  "vo_frames (ob (vm_object_get x t) b) = vo_frames (ob t b)" "vo_npages (ob (vm_object_get x t) b) = vo_npages (ob t b)"
  "length (vm_objs (vm_object_get x t)) = length (vm_objs t)"
  by (cases "x < length (vm_objs t)"; cases "b = x"; auto simp: vm_object_get_def set_obj_def nth_list_update list_update_beyond)+

lemma add_area_view:
  "vm_objs (add_area dst n t) = vm_objs (vm_object_get (ar_obj n) t)" "length (vm_spaces (add_area dst n t)) = length (vm_spaces t)"
  "src \<noteq> dst \<Longrightarrow> sp (add_area dst n t) src = sp t src"
  "dst < length (vm_spaces t) \<Longrightarrow> set (areas (add_area dst n t) dst) = insert n (set (areas t dst))"
  "known_frame (ob (add_area dst n t) b) ix = known_frame (ob t b) ix" "object_ok (ob (add_area dst n t) b) = object_ok (ob t b)"
  "length (vm_objs (add_area dst n t)) = length (vm_objs t)"
  by (simp_all add: add_area_def set_space_def object_spaces known_frame_def object_ok_def object_get_view)

text \<open>What the loop over the areas leaves: the parent's areas and frames, and copies in the child.\<close>

lemma clone_areas_facts:
  assumes "dst < length (vm_spaces s)" "src < length (vm_spaces s)" "src \<noteq> dst"
  shows "(let s' = clone_areas src dst (replicate (length as) True) as s in
     sp s' src = sp s src \<and> length (vm_spaces s') = length (vm_spaces s) \<and> length (vm_objs s') = length (vm_objs s) \<and>
     (\<forall>b ix. known_frame (ob s' b) ix = known_frame (ob s b) ix) \<and> (\<forall>b. object_ok (ob s' b) = object_ok (ob s b)) \<and>
     set (areas s dst) \<subseteq> set (areas s' dst) \<and>
     (\<forall>ar \<in> set as. \<exists>n \<in> set (areas s' dst). ar_start n = ar_start ar \<and> ar_end n = ar_end ar \<and> ar_obj n = ar_obj ar \<and> ar_offset n = ar_offset ar))"
  using assms
proof (induction as arbitrary: s)
  case Nil
  then show ?case by simp
next
  case (Cons ar as)
  let ?ro = "ar_prot ar AND NOT RK_PROT_WRITE"
  have add: "sp (add_area dst n t) src = sp t src" "length (vm_spaces (add_area dst n t)) = length (vm_spaces t)"
    "length (vm_objs (add_area dst n t)) = length (vm_objs t)"
    "known_frame (ob (add_area dst n t) b) ix = known_frame (ob t b) ix" "object_ok (ob (add_area dst n t) b) = object_ok (ob t b)"
    "dst < length (vm_spaces t) \<Longrightarrow> set (areas (add_area dst n t) dst) = insert n (set (areas t dst))" for n t b ix
    using Cons.prems(3) by (simp_all add: add_area_view(2-7))
  have om: "vm_spaces (snd (on_machine f t)) = vm_spaces t" "vm_objs (snd (on_machine f t)) = vm_objs t" for f :: "machine \<Rightarrow> unit result \<times> machine" and t
    by (simp_all add: on_machine_def split: prod.splits)
  define n where "n = (if has (ar_flags ar) VM_AREA_SHARED then ar else ar\<lparr>ar_prot := ?ro\<rparr>)"
  define s1 where "s1 = (if has (ar_flags ar) VM_AREA_SHARED then add_area dst n s
    else snd (on_machine (arch_protect (as_pgtable (sp (add_area dst n s) src)) (ar_start ar) (unat (ar_end ar - ar_start ar)) ?ro) (add_area dst n s)))"
  have s': "clone_areas src dst (replicate (length (ar # as)) True) (ar # as) s = clone_areas src dst (replicate (length as) True) as s1"
    by (simp add: s1_def n_def Let_def)
  have s1: "vm_spaces s1 = vm_spaces (add_area dst n s)" "vm_objs s1 = vm_objs (add_area dst n s)"
    by (simp_all add: s1_def om)
  have nn: "ar_start n = ar_start ar" "ar_end n = ar_end ar" "ar_obj n = ar_obj ar" "ar_offset n = ar_offset ar"
    by (simp_all add: n_def)
  have IH: "let s' = clone_areas src dst (replicate (length as) True) as s1 in
     sp s' src = sp s1 src \<and> length (vm_spaces s') = length (vm_spaces s1) \<and> length (vm_objs s') = length (vm_objs s1) \<and>
     (\<forall>b ix. known_frame (ob s' b) ix = known_frame (ob s1 b) ix) \<and> (\<forall>b. object_ok (ob s' b) = object_ok (ob s1 b)) \<and>
     set (areas s1 dst) \<subseteq> set (areas s' dst) \<and>
     (\<forall>ar \<in> set as. \<exists>n \<in> set (areas s' dst). ar_start n = ar_start ar \<and> ar_end n = ar_end ar \<and> ar_obj n = ar_obj ar \<and> ar_offset n = ar_offset ar)"
    by (rule Cons.IH) (use Cons.prems s1 add in auto)
  have "set (areas s1 dst) = insert n (set (areas s dst))" using add(6) Cons.prems(1) s1(1) by simp
  then show ?case
    unfolding s' using IH add(1-5) s1 nn by (auto simp: Let_def)
qed

text \<open>
  C15. After a clone the parent still writes to the frame that the child has: the clone takes the write
  permission out of the parent's page table but not out of its area, so the parent's write fault is
  taken for a first touch, and maps the frame of the shared object for writing again.
\<close>
theorem clone_shares_writes:
  assumes c: "as_clone mem (replicate (length (areas s src)) True) src s = (Some dst, s1)" and src: "src < length (vm_spaces s)"
    and i: "fault_area (page_down va) (areas s src) = Some (i, areas s src)" "areas s src ! i = ar" "has (ar_prot ar) RK_PROT_WRITE"
    and ob: "ar_obj ar < length (vm_objs s)" "object_ok (ob s (ar_obj ar))"
    and pa: "known_frame (ob s (ar_obj ar)) (page_index ar (page_down va)) = pa" "pa \<noteq> 0"
    and good: "space_good R (as_pgtable (sp s1 src)) (vm_mc s1)" and va: "user_va va"
    and f: "vm_handle_fault mem' src va (VM_FAULT_WRITE OR VM_FAULT_USER) s1 = (Inr (), s2)"
  shows "\<exists>rights n. arch_translate (as_pgtable (sp s2 src)) va (vm_mc s2) = Some (pa + (va - page_down va), rights) \<and>
    has rights RK_PROT_WRITE \<and> n \<in> set (areas s2 dst) \<and> ar_start n = ar_start ar \<and> ar_end n = ar_end ar \<and>
    known_frame (ob s2 (ar_obj n)) (page_index n (page_down va)) = pa"
proof -
  obtain s0 where s0: "as_create mem s = (Some dst, s0)" "s1 = clone_areas src dst (replicate (length (areas s src)) True) (areas s0 src) s0"
    using c by (auto simp: as_clone_def split: prod.splits option.splits)
  have C: "dst = length (vm_spaces s)" "sp s0 src = sp s src" "vm_objs s0 = vm_objs s" "length (vm_spaces s0) = Suc (length (vm_spaces s))"
    using s0(1) src by (auto simp: as_create_def on_machine_def nth_append split: if_splits prod.splits)
  note F = clone_areas_facts [of dst s0 src "areas s src", unfolded Let_def]
  have s1: "s1 = clone_areas src dst (replicate (length (areas s src)) True) (areas s src) s0" using s0(2) C(2) by simp
  have F': "sp s1 src = sp s src" "length (vm_objs s1) = length (vm_objs s)" "known_frame (ob s1 b) ix = known_frame (ob s b) ix"
    "object_ok (ob s1 b) = object_ok (ob s b)" for b ix
    using F C src unfolding s1 by auto
  have len1: "src < length (vm_spaces s1)" using F C src unfolding s1 by auto
  have "ar \<in> set (areas s src)" using fault_area_objs(1) [OF i(1)] i(2) by auto
  then obtain n where n: "n \<in> set (areas s1 dst)" "ar_start n = ar_start ar" "ar_end n = ar_end ar" "ar_obj n = ar_obj ar" "ar_offset n = ar_offset ar"
    using F C src unfolding s1 by auto
  have px: "page_index n x = page_index ar x" for x using n by (simp add: page_index_def)
  have i1: "fault_area (page_down va) (areas s1 src) = Some (i, areas s src)" using i(1) F'(1) by simp
  have ob1: "ar_obj ar < length (vm_objs s1)" "object_ok (ob s1 (ar_obj ar))" using ob F' by simp_all
  obtain pa' where P: "known_frame (ob s2 (ar_obj ar)) (page_index ar (page_down va)) = pa'" "pa' = pa"
    "arch_translate (as_pgtable (sp s2 src)) va (vm_mc s2) = Some (pa' + (va - page_down va), granted (ar_prot ar) (vm_mc s1))"
    using fault_page [OF f len1 good va i1 i(2) i(3) ob1] pa va F'(3) by auto
  have "vm_spaces s2 = vm_spaces (set_space src (\<lambda>x. x\<lparr>as_areas := areas s src, as_rss := as_rss x + 1\<rparr>) s1)"
    using fault_touch [OF f len1 i1 i(2) i(3) ob1 refl] by blast
  then have "areas s2 dst = areas s1 dst" using C(1) src by (simp add: set_space_def)
  then show ?thesis using P n px granted_write i(3) by (intro exI [of _ "granted (ar_prot ar) (vm_mc s1)"] exI [of _ n]) simp
qed

section \<open>Witnesses\<close>

definition demo_area :: "u32 \<Rightarrow> vm_area" where
  "demo_area prot = \<lparr>ar_start = 0x400000, ar_end = 0x401000, ar_prot = prot, ar_flags = 0, ar_obj = 0, ar_offset = 0\<rparr>"

definition demo_space :: "u32 \<Rightarrow> address_space" where
  "demo_space prot = \<lparr>as_pgtable = 0x202000, as_areas = [demo_area prot], as_mmap_base = 0x400000, as_brk = USER_MIN,
     as_refs = 1, as_rss = 0, as_id = 1, as_live = True\<rparr>"

definition demo_vmm :: "u32 \<Rightarrow> machine \<Rightarrow> vmm" where
  "demo_vmm prot m = (mm_init m)\<lparr>vm_objs := [\<lparr>vo_kind = VM_OBJ_ANON, vo_npages = 1, vo_frames = [0x600000], vo_phys = 0,
     vo_refs = 1, vo_live = True\<rparr>], vm_spaces := vm_spaces (mm_init m) @ [demo_space prot]\<rparr>"

lemmas demo_vm = demo_vmm_def demo_space_def demo_area_def mm_init_def

lemma demo_object: "object_ok (ob (demo_vmm prot m) b)" if "b = 0"
  using that by (auto simp: demo_vm object_ok_def is_aligned_def intro!: frame_addrI)

lemma demo_down: "page_down 0x400123 = 0x400000" "page_down 0x400000 = 0x400000"
  by (simp_all add: page_down_def)

lemma demo_covered: "fault_area 0x400000 (areas (demo_vmm prot m) 1) = Some (0, [demo_area prot])"
  by (simp add: demo_vm fault_area_def)


lemma demo_fault:
  assumes "arch_map 0x202000 0x400000 0x600000 4096 3 m = (Inr (), m')" "mc_kernel_pml4 m' = mc_kernel_pml4 m"
  shows "vm_handle_fault True 1 0x400123 VM_FAULT_WRITE (demo_vmm 3 m) = (Inr (), set_space 1 (\<lambda>x. x\<lparr>as_rss := 1\<rparr>) (demo_vmm 3 m'))"
  using assms by (simp add: vm_handle_fault_def demo_down demo_vm fault_area_def Let_def has_def VM_FAULT_WRITE_def VM_FAULT_EXEC_def
      VM_FAULT_USER_def RK_PROT_WRITE_def set_space_def on_machine_def vm_object_page_def page_index_def)

lemma demo_granted: "granted 3 (demo_machine s f) = 3"
  by (simp add: granted_def demo_simps pte_to_prot_def has_def RK_PROT_READ_def RK_PROT_WRITE_def PTE_WRITE_def PTE_USER_def PTE_NX_def PTE_PCD_def)

lemma fault_maps_object_page_witness:
  "\<exists>s s'. vm_handle_fault True 1 0x400123 VM_FAULT_WRITE (demo_vmm 3 s) = (Inr (), s') \<and>
     arch_translate 0x202000 0x400123 (vm_mc s') = Some (0x600123, 3)"
proof -
  obtain s1 s3 s4 R T T' where d: "space_ok R {0x202000} 0x202000 (demo_machine s1 demo_root)"
    "arch_map 0x202000 0x400000 0x600000 4096 3 (demo_machine s1 demo_root) = (Inr (), demo_machine s4 demo_small)"
    by (rule demo_spaces)
  let ?s = "demo_vmm 3 (demo_machine s1 demo_root)"
  let ?s' = "set_space 1 (\<lambda>x. x\<lparr>as_rss := 1\<rparr>) (demo_vmm 3 (demo_machine s4 demo_small))"
  have f: "vm_handle_fault True 1 0x400123 VM_FAULT_WRITE ?s = (Inr (), ?s')"
    by (rule demo_fault [OF d(2)]) (simp add: demo_machine_def)
  have good: "space_good R (as_pgtable (sp ?s 1)) (vm_mc ?s)" using d(1) by (auto simp: demo_vm space_good_def)
  have i: "fault_area (page_down 0x400123) (areas ?s 1) = Some (0, [demo_area 3])" by (simp only: demo_down demo_covered)
  have pt: "as_pgtable (sp ?s' 1) = 0x202000" "vm_mc ?s = demo_machine s1 demo_root" by (simp_all add: demo_vm set_space_def)
  have k: "known_frame (ob ?s (ar_obj (demo_area 3))) (page_index (demo_area 3) 0x400000) = 0x600000"
    by (simp add: demo_vm known_frame_def page_index_def)
  have side: "1 < length (vm_spaces ?s)" "user_va 0x400123" "has (ar_prot (demo_area 3)) RK_PROT_WRITE"
    "ar_obj (demo_area 3) = 0" "0 < length (vm_objs ?s)"
    by (simp_all add: demo_vm user_va_def has_def RK_PROT_WRITE_def)
  have o: "object_ok (ob ?s (ar_obj (demo_area 3)))" by (rule demo_object [OF side(4)])
  have "\<exists>pa. (0x600000 \<noteq> (0 :: u64) \<longrightarrow> pa = 0x600000) \<and> (\<forall>x. user_va x \<longrightarrow> arch_translate 0x202000 x (vm_mc ?s') =
      (if page_down x = 0x400000 then Some (pa + (x - 0x400000), granted (ar_prot (demo_area 3)) (demo_machine s1 demo_root))
       else arch_translate (as_pgtable (sp ?s 1)) x (demo_machine s1 demo_root)))"
    using fault_maps_object_page [OF f side(1) good side(2) i nth_Cons_0 side(3) side(5)[folded side(4)] o]
    unfolding pt demo_down k by (elim exE conjE) (intro exI conjI)
  then have "arch_translate 0x202000 0x400123 (vm_mc ?s') = Some (0x600123, 3)"
    using side(2) demo_granted by (auto simp: demo_area_def demo_down)
  then show ?thesis using f by blast
qed

lemma demo_translate: "arch_translate 0x202000 0x400000 (demo_machine s demo_small) = Some (0x600000, 3)"
  by (simp add: arch_translate_def find_leaf_at leaf_at_steps Let_def link_def demo_simps demo_small_def
      PTE_ADDR_MASK_def pte_to_prot_def has_def RK_PROT_READ_def RK_PROT_WRITE_def PTE_WRITE_def PTE_USER_def PTE_NX_def PTE_PCD_def PTE_PRESENT_def)

lemma copy_in_cannot_fault_witness:
  "\<exists>s s' bs. copy_from_user True (Some 1) 0x400000 8 (demo_vmm 3 s) = (Inr (Some bs), s') \<and> length bs = 8"
proof -
  obtain s1 s3 s4 R T T' where d: "space_ok R T 0x202000 (demo_machine s4 demo_small)" by (rule demo_spaces)
  let ?s = "demo_vmm 3 (demo_machine s4 demo_small)"
  have good: "space_good R (as_pgtable (sp ?s 1)) (vm_mc ?s)" using d by (auto simp: demo_vm space_good_def)
  have "1 < length (vm_spaces ?s)" "length (vm_objs ?s) = 1" "\<forall>x \<in> set (areas ?s 1). ar_obj x = 0" by (simp_all add: demo_vm)
  then have inv: "vm_inv R 1 ?s" using good demo_object by (simp add: vm_inv_def)
  have "as_pgtable (sp ?s 1) = 0x202000" "vm_mc ?s = demo_machine s4 demo_small" by (simp_all add: demo_vm)
  then have "fault_in_read True 1 0x400000 0x400008 ?s = (Inr (), ?s)"
    by (simp add: fault_in_read.simps demo_translate)
  then have "copy_from_user True (Some 1) 0x400000 8 ?s = (Inr (load_bytes (as_pgtable (sp ?s 1)) 0x400000 8 (vm_mc ?s)), ?s)"
    by (simp add: copy_from_user_def user_range_ok_def USER_MIN_def USER_MAX_def page_down_def)
  from copy_in_cannot_fault [OF inv this] this show ?thesis by force
qed

lemma protect_needs_no_area_witness:
  "\<exists>s s'. as_areas (sp s 1) = [] \<and> as_protect 1 0x400000 4096 11 s = (Inr (), s') \<and>
     arch_translate 0x202000 0x400000 (vm_mc s') = Some (0x600000, granted 11 (vm_mc s))"
proof -
  obtain s1 s3 s4 R T T' where d: "space_ok R T 0x202000 (demo_machine s4 demo_small)" by (rule demo_spaces)
  let ?m = "demo_machine s4 demo_small"
  let ?s = "(demo_vmm 3 ?m)\<lparr>vm_spaces := [demo_space 3, (demo_space 3)\<lparr>as_areas := []\<rparr>]\<rparr>"
  have v: "as_pgtable (sp ?s 1) = 0x202000" "vm_mc ?s = ?m" "as_areas (sp ?s 1) = []" by (simp_all add: demo_vm)
  have l: "find_leaf (root_of 0x202000 ?m) 0x400000 ?m = Some (0x205000, 0, 4096)"
    by (simp add: find_leaf_at leaf_at_steps Let_def link_def demo_simps demo_small_def)
  have "tree_ok (mc_mem ?m) 3 (root_of 0x202000 ?m) {..<256}" using d by (simp add: space_ok_def)
  then have "tree_ok (mc_mem ?m) 3 (root_of 0x202000 ?m) {pt_index 3 0x400000}"
    unfolding demo_index by (simp add: numeral_3_eq_3)
  moreover have "is_aligned (0x400000 :: u64) 12" by (simp add: is_aligned_def)
  ultimately have "\<exists>s'. as_protect 1 0x400000 4096 11 ?s = (Inr (), s') \<and>
      arch_translate 0x202000 0x400000 (vm_mc s') = Some (0x600000, granted 11 ?m)"
    using protect_needs_no_area [where s = ?s and a = 1, unfolded v(1,2)] l demo_translate by blast
  then show ?thesis using v by metis
qed


definition fifth_page :: "pmm \<Rightarrow> nat" where
  "fifth_page s = (case pmm_alloc_page s of (a, s) \<Rightarrow> case pmm_alloc_page s of (b, s) \<Rightarrow>
     case pmm_alloc_page s of (c, s) \<Rightarrow> case pmm_alloc_page s of (d, s) \<Rightarrow> fst (pmm_alloc_page s))"

lemma demo_fifth: "map_option fifth_page (pmm_init demo_map) = Some 0x206000"
  by code_simp

text \<open>The parent's tree has no tables below the root; the child's root is the next frame.\<close>

definition demo_cloned :: memory where
  "demo_cloned = demo_root(0x203000 := (\<lambda>_. 0)(510 := 0x203003))"

lemma demo_clone:
  assumes "pmm_alloc_page s1 = (0x203000, s2)"
  shows "as_clone True [True] 1 (demo_vmm 11 (demo_machine s1 demo_root)) =
    (Some 2, (demo_vmm 11 (demo_machine s2 demo_cloned))\<lparr>
       vm_objs := [(ob (demo_vmm 11 (demo_machine s2 demo_cloned)) 0)\<lparr>vo_refs := 2\<rparr>],
       vm_spaces := vm_spaces (demo_vmm 11 (demo_machine s2 demo_cloned)) @ [\<lparr>as_pgtable = 0x203000, as_areas = [demo_area 9],
         as_mmap_base = USER_MMAP_BASE, as_brk = USER_MIN, as_refs = 1, as_rss = 0, as_id = 1, as_live = True\<rparr>], vm_next_id := 2\<rparr>)"
proof -
  have k: "mc_kernel_pml4 (demo_machine x y) = 0x1000" for x y by (simp add: demo_machine_def)
  have c: "arch_pgtable_create (demo_machine s1 demo_root) = (0x203000, demo_machine s2 demo_cloned)"
    using assms by (simp add: arch_pgtable_create_def RECURSIVE_SLOT_def demo_simps demo_root_def demo_cloned_def fun_eq_iff
      PTE_PRESENT_def PTE_WRITE_def)
  have l: "find_leaf 0x202000 0x400000 (demo_machine s2 demo_cloned) = None"
    by (simp add: find_leaf_at leaf_at_steps Let_def link_def demo_simps demo_cloned_def demo_root_def)
  have p: "arch_protect 0x202000 0x400000 4096 9 (demo_machine s2 demo_cloned) = (Inr (), demo_machine s2 demo_cloned)"
    by (simp add: arch_protect_def root_of_def protect_rounds.simps protect_leaf_def l)
  show ?thesis
    by (simp add: as_clone_def as_create_def on_machine_def c p demo_vm add_area_def set_space_def vm_object_get_def set_obj_def
      has_def VM_AREA_SHARED_def RK_PROT_WRITE_def k)
qed

lemma demo_clone_map:
  assumes "pmm_alloc_page s2 = (0x204000, s3)" "pmm_alloc_page s3 = (0x205000, s4)" "pmm_alloc_page s4 = (0x206000, s5)"
  shows "\<exists>m'. arch_map 0x202000 0x400000 0x600000 4096 11 (demo_machine s2 demo_cloned) = (Inr (), m') \<and> mc_kernel_pml4 m' = 0x1000"
  using assms
  by (simp add: arch_map_def is_aligned_def map_rounds.simps map_level_def map_one_def walk_def demo_simps demo_root_def
      demo_cloned_def table_at_def PTE_ADDR_MASK_def PTE_PRESENT_def PTE_WRITE_def PTE_USER_def)

lemma clone_shares_writes_witness:
  "\<exists>s s1 s2 rights. as_clone True [True] 1 s = (Some 2, s1) \<and> vm_handle_fault True 1 0x400000 (VM_FAULT_WRITE OR VM_FAULT_USER) s1 = (Inr (), s2) \<and>
     arch_translate 0x202000 0x400000 (vm_mc s2) = Some (0x600000, rights) \<and> has rights RK_PROT_WRITE"
proof -
  obtain s0 s1 s2 s3 s4 where s: "pmm_init demo_map = Some s0" "pm_base s0 = 0x200000" "page_count s0 = 16"
    "pmm_alloc_page s0 = (0x202000, s1)" "pmm_alloc_page s1 = (0x203000, s2)" "pmm_alloc_page s2 = (0x204000, s3)"
    "pmm_alloc_page s3 = (0x205000, s4)"
    by (rule demo_pool)
  obtain e s5 where "pmm_alloc_page s4 = (e, s5)" by fastforce
  then have s5: "pmm_alloc_page s4 = (0x206000, s5)" using demo_fifth s by (simp add: fifth_page_def)
  obtain R where "owned_with R s0 {}" by (rule boot_owned [OF s(1)]) blast
  then have f0: "frames_ok R (demo_machine s0 (\<lambda>_ _. 0)) {}"
    using s(2,3) by (auto simp: frames_ok_def placed_def demo_machine_def)
  have same: "frames_ok R (demo_machine x f) T = frames_ok R (demo_machine x g) T" for x f g T
    by (simp add: frames_ok_def demo_machine_def)
  have "frames_ok R (demo_machine s1 demo_root) {0x202000}"
    using create_space(1) [OF f0 demo_create [OF s(4)]] by (simp add: space_ok_def)
  then have "frames_ok R (demo_machine s2 (demo_root(0x203000 := \<lambda>_. 0))) {0x203000, 0x202000}"
    using page_alloc_ok [of R "demo_machine s1 demo_root" "{0x202000}"] by (simp add: page_alloc_def demo_machine_def s(5))
  then have f2: "frames_ok R (demo_machine s2 demo_cloned) {0x203000, 0x202000}" by (subst same)
  have "space_ok R {0x203000, 0x202000} 0x202000 (demo_machine s2 demo_cloned)"
    using f2 by (auto simp: space_ok_def numeral_3_eq_3 root_of_def demo_machine_def demo_cloned_def demo_root_def link_def)
  then have good: "space_good R 0x202000 (demo_machine s2 demo_cloned)" by (auto simp: space_good_def)
  let ?s = "demo_vmm 11 (demo_machine s1 demo_root)"
  obtain t1 where c: "as_clone True [True] 1 ?s = (Some 2, t1)" "areas t1 1 = [demo_area 11]" "as_pgtable (sp t1 1) = 0x202000"
    "vm_mc t1 = demo_machine s2 demo_cloned" "ob t1 0 = (ob ?s 0)\<lparr>vo_refs := 2\<rparr>" "length (vm_objs t1) = 1" "length (vm_spaces t1) = 3"
    using demo_clone [OF s(5)] by (simp add: demo_vm)
  obtain m' where m': "arch_map 0x202000 0x400000 0x600000 4096 11 (demo_machine s2 demo_cloned) = (Inr (), m')"
    using demo_clone_map [OF s(6,7) s5] by blast
  obtain t2 where f: "vm_handle_fault True 1 0x400000 (VM_FAULT_WRITE OR VM_FAULT_USER) t1 = (Inr (), t2)" "as_pgtable (sp t2 1) = 0x202000"
    using c(2-7) m' by (simp add: vm_handle_fault_def demo_down demo_vm fault_area_def Let_def has_def VM_FAULT_WRITE_def VM_FAULT_EXEC_def
      VM_FAULT_USER_def RK_PROT_WRITE_def RK_PROT_USER_def set_space_def on_machine_def vm_object_page_def page_index_def)
  have k: "known_frame (ob ?s (ar_obj (demo_area 11))) (page_index (demo_area 11) (page_down 0x400000)) = 0x600000"
    by (simp add: demo_vm known_frame_def page_index_def demo_down)
  have side: "1 < length (vm_spaces ?s)" "user_va 0x400000" "has (ar_prot (demo_area 11)) RK_PROT_WRITE"
    "ar_obj (demo_area 11) < length (vm_objs ?s)" "length (areas ?s 1) = 1" "areas ?s 1 = [demo_area 11]" "ar_obj (demo_area 11) = 0"
    by (simp_all add: demo_vm user_va_def has_def RK_PROT_WRITE_def)
  have c': "as_clone True (replicate (length (areas ?s 1)) True) 1 ?s = (Some 2, t1)" using c(1) side(5) by simp
  have i: "fault_area (page_down 0x400000) (areas ?s 1) = Some (0, areas ?s 1)" "areas ?s 1 ! 0 = demo_area 11"
    unfolding side(6) demo_down by (simp_all add: demo_vm fault_area_def)
  have "space_good R (as_pgtable (sp t1 1)) (vm_mc t1)" using good c(3,4) by simp
  from clone_shares_writes [OF c' side(1) i side(3,4) demo_object [OF side(7)] k _ this side(2) f(1)]
  show ?thesis unfolding f(2) demo_down using c(1) f(1) by auto
qed

end
