(* ===== verification/RK_Int128.thy ===== *)
theory RK_Int128
  imports RK_Prelude
begin

unbundle bit_operations_syntax

text \<open>
  Division of 128-bit integers (\<open>kernel/lib/int128.c\<close>): the shift-and-subtract loop with its fast
  path, and the names the compiler calls for \<open>/\<close> and \<open>%\<close>. It is the division that the fixed-point
  arithmetic of Kaalka and the clock compile to.
\<close>

section \<open>The operations\<close>

type_synonym u128 = "128 word"

text \<open>The loop from bit \<open>i - 1\<close> down to bit 0, on remainder and quotient.\<close>

fun divmod_loop :: "u128 \<Rightarrow> u128 \<Rightarrow> nat \<Rightarrow> u128 \<Rightarrow> u128 \<Rightarrow> u128 \<times> u128" where
  "divmod_loop n d 0 r q = (q, r)"
| "divmod_loop n d (Suc i) r q =
     (let r = push_bit 1 r OR (drop_bit i n AND 1) in
      if d \<le> r then divmod_loop n d i (r - d) (q OR push_bit i 1) else divmod_loop n d i r q)"

definition rk_udivmod128 :: "u128 \<Rightarrow> u128 \<Rightarrow> u128 \<times> u128" where
  "rk_udivmod128 n d =
     (if d = 0 then (NOT 0, 0)
      else if drop_bit 64 n = 0 \<and> drop_bit 64 d = 0 then
        (let a = ucast n :: u64; b = ucast d :: u64 in (ucast (a div b), ucast (a mod b)))
      else divmod_loop n d 128 0 0)"

definition udivti3 :: "u128 \<Rightarrow> u128 \<Rightarrow> u128" where
  "udivti3 n d = fst (rk_udivmod128 n d)"

definition umodti3 :: "u128 \<Rightarrow> u128 \<Rightarrow> u128" where
  "umodti3 n d = snd (rk_udivmod128 n d)"

text \<open>A signed value is the word it is stored in; negation wraps.\<close>

definition divti3 :: "u128 \<Rightarrow> u128 \<Rightarrow> u128" where
  "divti3 n d =
     (let negate = (n <s 0) \<noteq> (d <s 0);
          q = fst (rk_udivmod128 (if n <s 0 then - n else n) (if d <s 0 then - d else d))
      in if negate then - q else q)"

definition modti3 :: "u128 \<Rightarrow> u128 \<Rightarrow> u128" where
  "modti3 n d =
     (let r = snd (rk_udivmod128 (if n <s 0 then - n else n) (if d <s 0 then - d else d))
      in if n <s 0 then - r else r)"

section \<open>The loop divides\<close>

lemma loop_bit: "uint (push_bit 1 r OR (x AND 1)) = 2 * uint r + uint x mod 2" if "2 * uint r + 1 < 2 ^ 128" for r x :: u128
proof -
  have "uint (push_bit 1 r) = 2 * uint r" using that by (simp add: uint_word_ariths)
  moreover have "even (push_bit 1 r)" by simp
  moreover have "even (uint x) \<longleftrightarrow> even x" using bit_uint_iff [of x 0] by (simp add: bit_0)
  ultimately show ?thesis using that
    by (cases "even x") (auto simp: and_one_eq or_one_eq uint_word_ariths mod2_eq_if)
qed

text \<open>One more digit of a long division in base two.\<close>

lemma long_division_step:
  fixes M D :: int
  assumes "0 \<le> M" "0 < D"
  shows "M div D = 2 * (M div 2 div D) + (if D \<le> 2 * (M div 2 mod D) + M mod 2 then 1 else 0)"
    "M mod D = 2 * (M div 2 mod D) + M mod 2 - (if D \<le> 2 * (M div 2 mod D) + M mod 2 then D else 0)"
proof -
  define q r e where d: "q = M div 2 div D" "r = M div 2 mod D" "e = M mod 2"
  have "M div 2 = D * q + r" "M = 2 * (M div 2) + e" by (simp_all add: d)
  then have M: "M = 2 * (D * q + r) + e" by simp
  have b: "0 \<le> r" "r < D" "0 \<le> e" "e < 2" using assms by (simp_all add: d)
  have *: "M div D = x \<and> M mod D = y" if "M = D * x + y" "0 \<le> y" "y < D" for x y
    using that by (simp add: div_pos_pos_trivial)
  have "M div D = 2 * q + (if D \<le> 2 * r + e then 1 else 0) \<and> M mod D = 2 * r + e - (if D \<le> 2 * r + e then D else 0)"
    by (rule *) (use M b in \<open>auto simp: algebra_simps\<close>)
  then show "M div D = 2 * (M div 2 div D) + (if D \<le> 2 * (M div 2 mod D) + M mod 2 then 1 else 0)"
    "M mod D = 2 * (M div 2 mod D) + M mod 2 - (if D \<le> 2 * (M div 2 mod D) + M mod 2 then D else 0)"
    by (simp_all add: d)
qed

text \<open>Before bit \<open>i\<close> the loop holds quotient and remainder of the upper bits of \<open>n\<close>.\<close>

lemma divmod_loop_divides:
  assumes "d \<noteq> 0" "uint r = (uint n div 2 ^ i) mod uint d" "uint q = (uint n div 2 ^ i) div uint d * 2 ^ i" "i \<le> 128"
  shows "uint (fst (divmod_loop n d i r q)) = uint n div uint d \<and> uint (snd (divmod_loop n d i r q)) = uint n mod uint d"
  using assms
proof (induction i arbitrary: r q)
  case 0
  then show ?case by simp
next
  case (Suc i)
  let ?N = "uint n" and ?D = "uint d" and ?M = "uint n div 2 ^ i" and ?b = "push_bit 1 r OR (drop_bit i n AND 1)"
  have D: "0 < ?D" using Suc.prems(1) using uint_0_iff [of d] uint_ge_0 [of d] by linarith
  have M2: "?N div 2 ^ Suc i = ?M div 2" by (simp only: power_Suc2 zdiv_zmult2_eq zero_le_numeral)
  have rM: "uint r = ?M div 2 mod ?D" and qM: "uint q = ?M div 2 div ?D * 2 ^ Suc i" using Suc.prems(2,3) by (simp_all only: M2)
  have "uint r \<le> ?M div 2" unfolding rM using D by (intro zmod_le_nonneg_dividend) (simp add: pos_imp_zdiv_nonneg_iff)
  moreover have Md: "uint (drop_bit i n) = ?M" unfolding unsigned_drop_bit_eq using uint_lt2p [of n] by (simp add: drop_bit_eq_div take_bit_int_eq_self)
  moreover have "?M < 2 ^ 128" using uint_lt2p [of "drop_bit i n"] Md by simp
  ultimately have "uint r < 2 ^ 127" by (simp add: div_less_iff_less_mult [symmetric] del: div_less_iff_less_mult)
  then have "2 * uint r + 1 < 2 ^ 128" by simp
  then have b: "uint ?b = 2 * (?M div 2 mod ?D) + ?M mod 2" using loop_bit [of r "drop_bit i n"] rM Md by simp
  have M0: "0 \<le> ?M" using Md uint_ge_0 [of "drop_bit i n"] by simp
  note step = long_division_step [OF M0 D, folded b]
  show ?case
  proof (cases "d \<le> ?b")
    case True
    have r': "uint (?b - d) = uint ?b - ?D" using True by (simp add: uint_sub_if' word_le_def)
    have le: "?D \<le> uint ?b" using True by (simp add: word_le_def)
    have "?M div ?D * 2 ^ i \<le> ?M * 2 ^ i" using zdiv_mono2 [of ?M 1 ?D] D M0 by (intro mult_right_mono) simp_all
    also have "?M * 2 ^ i \<le> uint n" by (simp flip: minus_mod_eq_div_mult)
    finally have f: "uint q + 2 ^ i < 2 ^ 128" using step(1) le qM uint_lt2p [of n] by (simp add: algebra_simps)
    have "bit (uint q) i \<longleftrightarrow> False" by (simp add: qM bit_iff_odd)
    then have "q AND push_bit i 1 = 0" using bit_uint_iff [of q i] Suc.prems(4) by (intro bit_word_eqI) (auto simp: bit_simps)
    then have "q OR push_bit i 1 = q + push_bit i 1" by (rule disjunctive_add_eq_or [symmetric])
    moreover have "uint (push_bit i 1 :: u128) = 2 ^ i" 
      unfolding unsigned_push_bit_eq using Suc.prems(4) by (simp add: push_bit_eq_mult take_bit_int_eq_self)
    ultimately have q': "uint (q OR push_bit i 1) = uint q + 2 ^ i" using f by (simp add: uint_word_ariths)
    show ?thesis using True Suc.IH [of "?b - d" "q OR push_bit i 1"] step Suc.prems(1,4) r' q' qM le
      by (simp add: Let_def algebra_simps)
  next
    case False
    then show ?thesis using Suc.IH [of ?b q] step Suc.prems(1,4) qM by (simp add: Let_def word_le_def algebra_simps)
  qed
qed

lemma udivmod_uint:
  assumes "d \<noteq> 0"
  shows "uint (fst (rk_udivmod128 n d)) = uint n div uint d" "uint (snd (rk_udivmod128 n d)) = uint n mod uint d"
proof -
  have "uint (fst (rk_udivmod128 n d)) = uint n div uint d \<and> uint (snd (rk_udivmod128 n d)) = uint n mod uint d"
  proof (cases "drop_bit 64 n = 0 \<and> drop_bit 64 d = 0")
    case True
    have small: "uint (ucast x :: u64) = uint x" if "drop_bit 64 x = 0" for x :: u128
    proof -
      have "take_bit 64 x = x" using that by (metis drop_bit_half bits_ident add_0 push_bit_of_0)
      then show ?thesis by (simp add: unsigned_ucast_eq flip: unsigned_take_bit_eq)
    qed
    have wide: "uint (ucast y :: u128) = uint y" for y :: u64 by (simp add: uint_up_ucast is_up)
    show ?thesis using True assms small by (simp add: rk_udivmod128_def Let_def wide uint_div_distrib uint_mod_distrib)
  next
    case False
    then show ?thesis
      using divmod_loop_divides [of d 0 n 128 0] assms uint_lt2p [of n] by (auto simp: rk_udivmod128_def)
  qed
  then show "uint (fst (rk_udivmod128 n d)) = uint n div uint d" "uint (snd (rk_udivmod128 n d)) = uint n mod uint d" by auto
qed

section \<open>What the compiler relies on\<close>

lemma abs_word: "uint (if x <s 0 then - x else x) = \<bar>sint x\<bar>" for x :: u128
proof -
  have b: "- (2 ^ 127) \<le> sint x" "sint x < 2 ^ 127" using sint_greater_eq [of x] sint_less [of x] by simp_all
  have w: "uint (word_of_int k :: u128) = k" if "0 \<le> k" "k \<le> 2 ^ 127" for k
    using that by (simp add: unsigned_of_int take_bit_int_eq_self)
  have "uint (- x) = - sint x" if "sint x < 0" using w [of "- sint x"] that b by simp
  moreover have "uint x = sint x" if "\<not> sint x < 0" using w [of "sint x"] that b by simp
  ultimately show ?thesis by (simp add: word_sless_alt)
qed

text \<open>
  C20. The shift-and-subtract loop and its fast path are division: for every divisor but 0 the quotient
  and the remainder are those of the unsigned words, and the signed entry points truncate towards
  zero, with the one quotient that does not fit wrapping.
\<close>
theorem int128_division:
  assumes "d \<noteq> 0"
  shows "rk_udivmod128 n d = (n div d, n mod d) \<and>
    divti3 n d = word_of_int (c_div (sint n) (sint d)) \<and> modti3 n d = word_of_int (c_mod (sint n) (sint d))"
proof -
  have u: "fst (rk_udivmod128 x y) = word_of_int (uint x div uint y)" "snd (rk_udivmod128 x y) = word_of_int (uint x mod uint y)"
    if "y \<noteq> 0" for x y
    using udivmod_uint [OF that, of x] word_of_int_uint by metis+
  have s: "x <s 0 \<longleftrightarrow> sint x < 0" for x :: u128 by (simp add: word_sless_alt)
  have nz: "- d \<noteq> 0" "sint d \<noteq> 0" using assms signed_eq_0_iff [of d] by auto
  have q: "c_div a b = (if (a < 0) = (b < 0) then \<bar>a\<bar> div \<bar>b\<bar> else - (\<bar>a\<bar> div \<bar>b\<bar>))" for a b
    by (auto simp: c_div_def sgn_if)
  have m: "c_mod a b = (if a < 0 then - (\<bar>a\<bar> mod \<bar>b\<bar>) else \<bar>a\<bar> mod \<bar>b\<bar>)" for a b
  proof -
    have "b * c_div a b = sgn a * (\<bar>b\<bar> * (\<bar>a\<bar> div \<bar>b\<bar>))" by (simp only: c_div_def abs_sgn [of b] mult_ac)
    then have "c_mod a b = sgn a * (\<bar>a\<bar> - \<bar>b\<bar> * (\<bar>a\<bar> div \<bar>b\<bar>))" by (simp add: c_mod_def right_diff_distrib sgn_mult_abs)
    also have "\<dots> = sgn a * (\<bar>a\<bar> mod \<bar>b\<bar>)" by (simp only: minus_mult_div_eq_mod)
    finally show ?thesis by (auto simp: sgn_if)
  qed
  have "rk_udivmod128 n d = (n div d, n mod d)"
    using u [OF assms, of n] by (simp add: word_div_def word_mod_def prod_eq_iff)
  moreover have "divti3 n d = word_of_int (c_div (sint n) (sint d))"
    using u [OF assms] u [OF nz(1)] by (auto simp: divti3_def Let_def s q abs_word [symmetric])
  moreover have "modti3 n d = word_of_int (c_mod (sint n) (sint d))"
    using u [OF assms] u [OF nz(1)] by (auto simp: modti3_def Let_def s m abs_word [symmetric])
  ultimately show ?thesis by blast
qed

lemma int128_division_witness: "rk_udivmod128 (2 ^ 100) 3 = (2 ^ 100 div 3, 1) \<and> divti3 (- 7) 2 = - 3"
  using int128_division [of 3 "2 ^ 100"] int128_division [of 2 "- 7"] by (simp add: c_div_def)

end
