(* ===== verification/RK_Sync.thy ===== *)
theory RK_Sync
  imports RK_SchedProps
begin

text \<open>
  Sleeping synchronisation (\<open>kernel/sync/sync.c\<close>, \<open>include/rk/sync.h\<close>) over the wait queues of the
  scheduler. Each section under a lock is one definition on the object; an operation that waits is
  a loop of such a section, here the \<open>attempt\<close>, and of \<open>waitq_wait\<close>, which is \<open>sleep_on\<close>. A thread is its
  index in the scheduler, a wait queue its number.
\<close>

section \<open>The operations\<close>

datatype attempt = Acquired | Must_wait | Broken

definition sleep_on :: "nat \<Rightarrow> u64 \<Rightarrow> nat \<Rightarrow> sched \<Rightarrow> sched" where
  "sleep_on c now w s = sched_block c now (waitq_enter c w s)"

subsection \<open>Mutexes\<close>

record mutex =
  mx_owner :: "nat option"
  mx_depth :: u32
  mx_recursive :: bool
  mx_wq :: nat

definition mutex_init :: "nat \<Rightarrow> mutex" where
  "mutex_init w = \<lparr>mx_owner = None, mx_depth = 0, mx_recursive = False, mx_wq = w\<rparr>"

definition mutex_init_recursive :: "nat \<Rightarrow> mutex" where
  "mutex_init_recursive w = (mutex_init w)\<lparr>mx_recursive := True\<rparr>"

text \<open>One round of \<open>mutex_lock\<close>; \<open>Broken\<close> is the failed assertion.\<close>

definition mutex_attempt :: "nat \<Rightarrow> mutex \<Rightarrow> attempt \<times> mutex" where
  "mutex_attempt self m =
     (if mx_owner m = None then (Acquired, m\<lparr>mx_owner := Some self, mx_depth := 1\<rparr>)
      else if mx_recursive m \<and> mx_owner m = Some self then (Acquired, m\<lparr>mx_depth := mx_depth m + 1\<rparr>)
      else if mx_owner m = Some self \<and> \<not> mx_recursive m then (Broken, m)
      else (Must_wait, m))"

definition mutex_trylock :: "nat \<Rightarrow> mutex \<Rightarrow> bool \<times> mutex" where
  "mutex_trylock self m =
     (if mx_owner m = None then (True, m\<lparr>mx_owner := Some self, mx_depth := 1\<rparr>)
      else if mx_recursive m \<and> mx_owner m = Some self then (True, m\<lparr>mx_depth := mx_depth m + 1\<rparr>)
      else (False, m))"

text \<open>Whether a waiter is to be woken, and the mutex.\<close>

definition mutex_release :: "mutex \<Rightarrow> bool \<times> mutex" where
  "mutex_release m =
     (if 1 < mx_depth m then (False, m\<lparr>mx_depth := mx_depth m - 1\<rparr>)
      else (True, m\<lparr>mx_owner := None, mx_depth := 0\<rparr>))"

definition mutex_unlock :: "nat \<Rightarrow> u64 \<Rightarrow> mutex \<times> sched \<Rightarrow> mutex \<times> sched" where
  "mutex_unlock c now ms =
     (case ms of (m, s) \<Rightarrow> (case mutex_release m of
        (wake, m) \<Rightarrow> (m, if wake then waitq_wake_one c now (mx_wq m) s else s)))"

definition mutex_held :: "nat \<Rightarrow> mutex \<Rightarrow> bool" where
  "mutex_held self m \<longleftrightarrow> mx_owner m = Some self"

subsection \<open>Semaphores\<close>

record semaphore =
  sm_count :: int
  sm_wq :: nat

definition semaphore_init :: "int \<Rightarrow> nat \<Rightarrow> semaphore" where
  "semaphore_init initial w = \<lparr>sm_count = initial, sm_wq = w\<rparr>"

definition semaphore_attempt :: "semaphore \<Rightarrow> attempt \<times> semaphore" where
  "semaphore_attempt sm =
     (if 0 < sm_count sm then (Acquired, sm\<lparr>sm_count := sm_count sm - 1\<rparr>) else (Must_wait, sm))"

text \<open>One round of \<open>semaphore_wait_timeout\<close>; without a result it sleeps until the deadline.\<close>

definition semaphore_timed_attempt :: "u64 \<Rightarrow> u64 \<Rightarrow> semaphore \<Rightarrow> unit result option \<times> semaphore" where
  "semaphore_timed_attempt deadline now sm =
     (if 0 < sm_count sm then (Some (Inr ()), sm\<lparr>sm_count := sm_count sm - 1\<rparr>)
      else if deadline \<le> now then (Some (Inl ETIMEDOUT), sm)
      else (None, sm))"

definition semaphore_trywait :: "semaphore \<Rightarrow> bool \<times> semaphore" where
  "semaphore_trywait sm =
     (if 0 < sm_count sm then (True, sm\<lparr>sm_count := sm_count sm - 1\<rparr>) else (False, sm))"

definition semaphore_release :: "semaphore \<Rightarrow> semaphore" where
  "semaphore_release sm = sm\<lparr>sm_count := s64_wrap (sm_count sm + 1)\<rparr>"

definition semaphore_post :: "nat \<Rightarrow> u64 \<Rightarrow> semaphore \<times> sched \<Rightarrow> semaphore \<times> sched" where
  "semaphore_post c now ss = (case ss of (sm, s) \<Rightarrow> (semaphore_release sm, waitq_wake_one c now (sm_wq sm) s))"

subsection \<open>Reader-writer locks\<close>

record rwlock =
  rw_readers :: int
  rw_writer :: bool
  rw_waiting :: u32
  rw_rq :: nat
  rw_wq :: nat

definition rwlock_init :: "nat \<Rightarrow> nat \<Rightarrow> rwlock" where
  "rwlock_init rq wq = \<lparr>rw_readers = 0, rw_writer = False, rw_waiting = 0, rw_rq = rq, rw_wq = wq\<rparr>"

definition read_attempt :: "rwlock \<Rightarrow> attempt \<times> rwlock" where
  "read_attempt l =
     (if \<not> rw_writer l \<and> rw_waiting l = 0 then (Acquired, l\<lparr>rw_readers := rw_readers l + 1\<rparr>) else (Must_wait, l))"

definition read_release :: "rwlock \<Rightarrow> bool \<times> rwlock" where
  "read_release l =
     (let l = (if rw_readers l \<noteq> 0 then l\<lparr>rw_readers := rw_readers l - 1\<rparr> else l) in (rw_readers l = 0, l))"

definition read_unlock :: "nat \<Rightarrow> u64 \<Rightarrow> rwlock \<times> sched \<Rightarrow> rwlock \<times> sched" where
  "read_unlock c now ls =
     (case ls of (l, s) \<Rightarrow> (case read_release l of
        (free, l) \<Rightarrow> (l, if free then waitq_wake_one c now (rw_wq l) s else s)))"

definition write_announce :: "rwlock \<Rightarrow> rwlock" where
  "write_announce l = l\<lparr>rw_waiting := rw_waiting l + 1\<rparr>"

definition write_attempt :: "rwlock \<Rightarrow> attempt \<times> rwlock" where
  "write_attempt l =
     (if \<not> rw_writer l \<and> rw_readers l = 0
      then (Acquired, l\<lparr>rw_writer := True, rw_waiting := rw_waiting l - 1\<rparr>) else (Must_wait, l))"

definition write_release :: "rwlock \<Rightarrow> bool \<times> rwlock" where
  "write_release l = (0 < rw_waiting l, l\<lparr>rw_writer := False\<rparr>)"

definition write_unlock :: "nat \<Rightarrow> u64 \<Rightarrow> rwlock \<times> sched \<Rightarrow> rwlock \<times> sched" where
  "write_unlock c now ls =
     (case ls of (l, s) \<Rightarrow> (case write_release l of
        (writers, l) \<Rightarrow> (l, if writers then waitq_wake_one c now (rw_wq l) s else waitq_wake_all c now (rw_rq l) s)))"

subsection \<open>Condition variables\<close>

text \<open>\<open>condvar_wait\<close> is \<open>condvar_enter\<close>, and \<open>mutex_lock\<close> when the thread runs again.\<close>

definition condvar_enter :: "nat \<Rightarrow> u64 \<Rightarrow> nat \<Rightarrow> mutex \<times> sched \<Rightarrow> mutex \<times> sched" where
  "condvar_enter c now cv ms = (case mutex_unlock c now ms of (m, s) \<Rightarrow> (m, sleep_on c now cv s))"

definition condvar_enter_timeout :: "nat \<Rightarrow> u64 \<Rightarrow> nat \<Rightarrow> u64 \<Rightarrow> mutex \<times> sched \<Rightarrow> mutex \<times> sched" where
  "condvar_enter_timeout c now cv ns ms = (case mutex_unlock c now ms of (m, s) \<Rightarrow> (m, waitq_sleep c now cv ns s))"

definition condvar_signal :: "nat \<Rightarrow> u64 \<Rightarrow> nat \<Rightarrow> sched \<Rightarrow> sched" where
  "condvar_signal c now cv = waitq_wake_one c now cv"

definition condvar_broadcast :: "nat \<Rightarrow> u64 \<Rightarrow> nat \<Rightarrow> sched \<Rightarrow> sched" where
  "condvar_broadcast c now cv = waitq_wake_all c now cv"

subsection \<open>Once\<close>

definition ONCE_IDLE :: u32 where "ONCE_IDLE = 0"
definition ONCE_BUSY :: u32 where "ONCE_BUSY = 1"
definition ONCE_DONE :: u32 where "ONCE_DONE = 2"

text \<open>The compare-and-swap; then either \<open>fn\<close> and the store, or the spin until done.\<close>

definition once_claim :: "u32 \<Rightarrow> bool \<times> u32" where
  "once_claim st = (if st = ONCE_IDLE then (True, ONCE_BUSY) else (False, st))"

definition once_finish :: "u32 \<Rightarrow> u32" where
  "once_finish st = ONCE_DONE"

definition once_done :: "u32 \<Rightarrow> bool" where
  "once_done st \<longleftrightarrow> st = ONCE_DONE"

subsection \<open>Completions\<close>

record completion =
  cm_done :: bool
  cm_wq :: nat

definition completion_init :: "nat \<Rightarrow> completion" where
  "completion_init w = \<lparr>cm_done = False, cm_wq = w\<rparr>"

definition completion_attempt :: "completion \<Rightarrow> attempt" where
  "completion_attempt cm = (if cm_done cm then Acquired else Must_wait)"

definition completion_timed_attempt :: "u64 \<Rightarrow> u64 \<Rightarrow> completion \<Rightarrow> unit result option" where
  "completion_timed_attempt deadline now cm =
     (if cm_done cm then Some (Inr ()) else if deadline \<le> now then Some (Inl ETIMEDOUT) else None)"

definition completion_release :: "completion \<Rightarrow> completion" where
  "completion_release cm = cm\<lparr>cm_done := True\<rparr>"

definition completion_done :: "nat \<Rightarrow> u64 \<Rightarrow> completion \<times> sched \<Rightarrow> completion \<times> sched" where
  "completion_done c now cs = (case cs of (cm, s) \<Rightarrow> (completion_release cm, waitq_wake_all c now (cm_wq cm) s))"

end
