(* ===== verification/RK_SyncProps.thy ===== *)
theory RK_SyncProps
  imports RK_Sync
begin

text \<open>
  What the sleeping locks promise over every interleaving of their sections: at most one thread in a
  mutex, writers alone in a reader-writer lock, an initialiser run once. A waiting thread may
  try again at any time, so the wait queues do not matter for these; that they lose wakeups is shown
  once, in the locale \<open>wait_loop\<close>, for every object whose waiters look and then sleep.
\<close>

section \<open>Mutexes exclude\<close>

text \<open>Beside the mutex, how many times each thread has acquired it without releasing it.\<close>

inductive mutex_step :: "mutex \<times> (nat \<Rightarrow> nat) \<Rightarrow> mutex \<times> (nat \<Rightarrow> nat) \<Rightarrow> bool" where
  mx_lock: "mutex_attempt t m = (Acquired, m') \<Longrightarrow> mutex_step (m, h) (m', h(t := h t + 1))"
| mx_try: "mutex_trylock t m = (True, m') \<Longrightarrow> mutex_step (m, h) (m', h(t := h t + 1))"
| mx_unlock: "0 < h t \<Longrightarrow> mutex_step (m, h) (snd (mutex_release m), h(t := h t - 1))"

text \<open>No thread acquires the mutex so often that the 32-bit depth wraps.\<close>

inductive mutex_reach :: "mutex \<times> (nat \<Rightarrow> nat) \<Rightarrow> bool" where
  mx_start: "m = mutex_init w \<or> m = mutex_init_recursive w \<Longrightarrow> mutex_reach (m, \<lambda>_. 0)"
| mx_next: "mutex_reach (m, h) \<Longrightarrow> mutex_step (m, h) (m', h') \<Longrightarrow> (\<And>t. h' t < 2 ^ 32) \<Longrightarrow> mutex_reach (m', h')"

definition mutex_ok :: "mutex \<Rightarrow> (nat \<Rightarrow> nat) \<Rightarrow> bool" where
  "mutex_ok m h \<longleftrightarrow>
     (case mx_owner m of
        None \<Rightarrow> (\<forall>t. h t = 0) \<and> mx_depth m = 0
      | Some t \<Rightarrow> 0 < h t \<and> h t < 2 ^ 32 \<and> unat (mx_depth m) = h t \<and> (\<forall>u. u \<noteq> t \<longrightarrow> h u = 0))"

lemma mutex_enter_ok:
  assumes ok: "mutex_ok m h" and n: "h t + 1 < 2 ^ 32"
    and m': "m' = m\<lparr>mx_owner := Some t, mx_depth := 1\<rparr> \<and> mx_owner m = None \<or>
      m' = m\<lparr>mx_depth := mx_depth m + 1\<rparr> \<and> mx_owner m = Some t"
  shows "mutex_ok m' (h(t := h t + 1))"
  using m'
proof
  assume a: "m' = m\<lparr>mx_owner := Some t, mx_depth := 1\<rparr> \<and> mx_owner m = None"
  then show ?thesis using ok by (auto simp: mutex_ok_def)
next
  assume a: "m' = m\<lparr>mx_depth := mx_depth m + 1\<rparr> \<and> mx_owner m = Some t"
  then have "unat (mx_depth m + 1) = h t + 1" using ok n by (simp add: mutex_ok_def unat_plus_simple unat_word_ariths)
  then show ?thesis using a ok n by (auto simp: mutex_ok_def)
qed

lemma mutex_holder:
  assumes "mutex_ok m h" "0 < h t"
  shows "mx_owner m = Some t" "unat (mx_depth m) = h t" "h t < 2 ^ 32" "\<forall>u. u \<noteq> t \<longrightarrow> h u = 0"
proof -
  obtain u where u: "mx_owner m = Some u" using assms by (auto simp: mutex_ok_def split: option.splits)
  then have "u = t" using assms by (auto simp: mutex_ok_def)
  then show "mx_owner m = Some t" "unat (mx_depth m) = h t" "h t < 2 ^ 32" "\<forall>u. u \<noteq> t \<longrightarrow> h u = 0"
    using u assms by (simp_all add: mutex_ok_def)
qed

lemma mutex_leave_ok:
  assumes ok: "mutex_ok m h" and t: "0 < h t"
  shows "mutex_ok (snd (mutex_release m)) (h(t := h t - 1))"
proof -
  note o' = mutex_holder [OF ok t]
  have d: "1 < mx_depth m \<longleftrightarrow> 1 < h t" using o'(2) by (simp add: word_less_nat_alt)
  have "unat (mx_depth m - 1) = h t - 1" if "1 < h t"
    using that d o'(2) by (subst unat_sub) (simp_all add: word_le_nat_alt)
  then show ?thesis using o' d t by (auto simp: mutex_release_def mutex_ok_def)
qed

lemma mutex_reach_ok: "mutex_reach mh \<Longrightarrow> mutex_ok (fst mh) (snd mh)"
proof (induction rule: mutex_reach.induct)
  case (mx_start m w)
  then show ?case by (auto simp: mutex_ok_def mutex_init_def mutex_init_recursive_def)
next
  case (mx_next m h m' h')
  from mx_next.hyps(2) show ?case
  proof (cases rule: mutex_step.cases)
    case (mx_lock t)
    have n: "h t + 1 < 2 ^ 32" using mx_next.hyps(3) [of t] mx_lock by simp
    have "mutex_ok m' (h(t := h t + 1))"
      by (rule mutex_enter_ok [of m]) (use mx_next.IH mx_lock n in \<open>auto simp: mutex_attempt_def split: if_splits\<close>)
    moreover have "h' = h(t := h t + 1)" using mx_lock by simp
    ultimately show ?thesis by (simp only: fst_conv snd_conv)
  next
    case (mx_try t)
    have n: "h t + 1 < 2 ^ 32" using mx_next.hyps(3) [of t] mx_try by simp
    have "mutex_ok m' (h(t := h t + 1))"
      by (rule mutex_enter_ok [of m]) (use mx_next.IH mx_try n in \<open>auto simp: mutex_trylock_def split: if_splits\<close>)
    moreover have "h' = h(t := h t + 1)" using mx_try by simp
    ultimately show ?thesis by (simp only: fst_conv snd_conv)
  next
    case (mx_unlock t)
    have "mutex_ok (snd (mutex_release m)) (h(t := h t - 1))" using mutex_leave_ok [of m h t] mx_next.IH mx_unlock by simp
    moreover have "h' = h(t := h t - 1)" "m' = snd (mutex_release m)" using mx_unlock by simp_all
    ultimately show ?thesis by (simp only: fst_conv snd_conv)
  qed
qed

text \<open>
  However threads lock, try and unlock a mutex, recursive or not, as long as only a thread that
  holds it unlocks it: at most one thread holds it, the owner field names that thread, and the depth
  is the number of its acquisitions.
\<close>
theorem mutex_excludes:
  assumes "mutex_reach (m, h)" "0 < h t"
  shows "mx_owner m = Some t \<and> unat (mx_depth m) = h t \<and> (\<forall>u. 0 < h u \<longrightarrow> u = t)"
proof -
  have ok: "mutex_ok m h" using mutex_reach_ok [OF assms(1)] by simp
  show ?thesis using mutex_holder(1,2) [OF ok assms(2)] mutex_holder(4) [OF ok assms(2)] by (metis less_numeral_extra(3))
qed

lemma mutex_excludes_witness:
  "\<exists>m h. mutex_reach (m, h) \<and> h 7 = 2 \<and> mx_owner m = Some 7 \<and> unat (mx_depth m) = 2"
proof -
  have 1: "mutex_reach (mutex_init_recursive 0, \<lambda>_. 0)" by (rule mx_start [of _ 0]) simp
  have small: "((\<lambda>_. 0)(7 := n)) t < (2 :: nat) ^ 32" if "n \<le> 2" for n t :: nat using that by simp
  let ?m = "snd (mutex_attempt 7 (mutex_init_recursive 0))"
  have a: "mutex_attempt 7 (mutex_init_recursive 0) = (Acquired, ?m)" "mutex_attempt 7 ?m = (Acquired, snd (mutex_attempt 7 ?m))"
    by (simp_all add: mutex_attempt_def mutex_init_recursive_def mutex_init_def)
  have 2: "mutex_reach (?m, (\<lambda>_. 0)(7 := 1))"
    using mx_next [OF 1 mx_lock [OF a(1)]] small [of 1] by simp
  have 3: "mutex_reach (snd (mutex_attempt 7 ?m), (\<lambda>_. 0)(7 := 2))"
    using mx_next [OF 2 mx_lock [OF a(2)]] small [of 2] by (simp add: numeral_2_eq_2)
  show ?thesis using 3 mutex_excludes [OF 3, of 7] by (intro exI [of _ m] exI) auto
qed

section \<open>Writers exclude readers\<close>

text \<open>What each thread is doing with the lock.\<close>

datatype rw_phase = Outside | Reading | Announced | Writing

inductive rw_step :: "rwlock \<times> (nat \<Rightarrow> rw_phase) \<Rightarrow> rwlock \<times> (nat \<Rightarrow> rw_phase) \<Rightarrow> bool" where
  rw_read: "ph t = Outside \<Longrightarrow> read_attempt l = (Acquired, l') \<Longrightarrow> rw_step (l, ph) (l', ph(t := Reading))"
| rw_done: "ph t = Reading \<Longrightarrow> rw_step (l, ph) (snd (read_release l), ph(t := Outside))"
| rw_want: "ph t = Outside \<Longrightarrow> rw_step (l, ph) (write_announce l, ph(t := Announced))"
| rw_write: "ph t = Announced \<Longrightarrow> write_attempt l = (Acquired, l') \<Longrightarrow> rw_step (l, ph) (l', ph(t := Writing))"
| rw_leave: "ph t = Writing \<Longrightarrow> rw_step (l, ph) (snd (write_release l), ph(t := Outside))"

text \<open>There are \<open>n\<close> threads, fewer than the 32-bit counters can count.\<close>

inductive rw_reach :: "nat \<Rightarrow> rwlock \<times> (nat \<Rightarrow> rw_phase) \<Rightarrow> bool" for n where
  rw_start: "rw_reach n (rwlock_init rq wq, \<lambda>_. Outside)"
| rw_next: "rw_reach n (l, ph) \<Longrightarrow> rw_step (l, ph) (l', ph') \<Longrightarrow> (\<And>t. n \<le> t \<Longrightarrow> ph' t = Outside) \<Longrightarrow> rw_reach n (l', ph')"

definition in_phase :: "nat \<Rightarrow> rw_phase \<Rightarrow> (nat \<Rightarrow> rw_phase) \<Rightarrow> nat set" where
  "in_phase n p ph = {t. t < n \<and> ph t = p}"

definition rw_ok :: "nat \<Rightarrow> rwlock \<Rightarrow> (nat \<Rightarrow> rw_phase) \<Rightarrow> bool" where
  "rw_ok n l ph \<longleftrightarrow> (\<forall>t. n \<le> t \<longrightarrow> ph t = Outside) \<and>
     rw_readers l = int (card (in_phase n Reading ph)) \<and> unat (rw_waiting l) = card (in_phase n Announced ph) \<and>
     card (in_phase n Writing ph) = (if rw_writer l then 1 else 0) \<and> (rw_writer l \<longrightarrow> rw_readers l = 0)"

lemma phase_change:
  assumes "t < n" "ph t = p" "p \<noteq> q"
  shows "card (in_phase n q (ph(t := q))) = card (in_phase n q ph) + 1"
    "card (in_phase n p (ph(t := q))) = card (in_phase n p ph) - 1" "0 < card (in_phase n p ph)"
    "r \<noteq> p \<Longrightarrow> r \<noteq> q \<Longrightarrow> in_phase n r (ph(t := q)) = in_phase n r ph"
proof -
  have f: "finite (in_phase n x ph)" for x by (simp add: in_phase_def)
  have "in_phase n q (ph(t := q)) = insert t (in_phase n q ph)" "t \<notin> in_phase n q ph"
    "in_phase n p (ph(t := q)) = in_phase n p ph - {t}" "t \<in> in_phase n p ph"
    using assms by (auto simp: in_phase_def)
  then show "card (in_phase n q (ph(t := q))) = card (in_phase n q ph) + 1"
    "card (in_phase n p (ph(t := q))) = card (in_phase n p ph) - 1" "0 < card (in_phase n p ph)"
    using f card_gt_0_iff [of "in_phase n p ph"] by auto
  show "r \<noteq> p \<Longrightarrow> r \<noteq> q \<Longrightarrow> in_phase n r (ph(t := q)) = in_phase n r ph" using assms(2) by (auto simp: in_phase_def)
qed

lemma phase_bound: "card (in_phase n p ph) \<le> n"
  using card_mono [of "{..<n}" "in_phase n p ph"] by (auto simp: in_phase_def)

lemma rw_step_ok:
  assumes ok: "rw_ok n l ph" and s: "rw_step (l, ph) (l', ph')" and out: "\<And>t. n \<le> t \<Longrightarrow> ph' t = Outside" and n: "n < 2 ^ 31"
  shows "rw_ok n l' ph'"
proof -
  note O = ok [unfolded rw_ok_def]
  have t: "t < n" if "ph t \<noteq> Outside \<or> ph' t \<noteq> Outside" for t using that O out [of t] by (meson not_le)
  from s show ?thesis
  proof (cases rule: rw_step.cases)
    case (rw_read t)
    have ph': "ph' = ph(t := Reading)" using rw_read by simp
    note C = phase_change [of t n ph Outside Reading]
    show ?thesis using O rw_read out C(1) C(4) [of Announced] C(4) [of Writing] t [of t]
      unfolding rw_ok_def ph' by (auto simp: read_attempt_def split: if_splits)
  next
    case (rw_done t)
    have ph': "ph' = ph(t := Outside)" using rw_done by simp
    note C = phase_change [of t n ph Reading Outside]
    show ?thesis using O rw_done out C(2,3) C(4) [of Announced] C(4) [of Writing] t [of t]
      unfolding rw_ok_def ph' by (auto simp: read_release_def Let_def)
  next
    case (rw_want t)
    have ph': "ph' = ph(t := Announced)" using rw_want by simp
    note C = phase_change [of t n ph Outside Announced]
    have "unat (rw_waiting l + 1) = unat (rw_waiting l) + 1"
      using O phase_bound [of n Announced ph] n by (simp add: unat_word_ariths)
    then show ?thesis using O rw_want out C(1) C(4) [of Reading] C(4) [of Writing] t [of t]
      unfolding rw_ok_def ph' by (auto simp: write_announce_def)
  next
    case (rw_write t)
    have ph': "ph' = ph(t := Writing)" using rw_write by simp
    note C = phase_change [of t n ph Announced Writing]
    have "unat (rw_waiting l - 1) = unat (rw_waiting l) - 1"
      using O C(3) rw_write t [of t] by (subst unat_sub) (simp_all add: word_le_nat_alt)
    then show ?thesis using O rw_write out C(1,2) C(4) [of Reading] t [of t]
      unfolding rw_ok_def ph' by (auto simp: write_attempt_def split: if_splits)
  next
    case (rw_leave t)
    have ph': "ph' = ph(t := Outside)" using rw_leave by simp
    note C = phase_change [of t n ph Writing Outside]
    show ?thesis using O rw_leave out C(2,3) C(4) [of Reading] C(4) [of Announced] t [of t]
      unfolding rw_ok_def ph' by (auto simp: write_release_def split: if_splits)
  qed
qed

lemma rw_reach_ok: "rw_reach n lp \<Longrightarrow> n < 2 ^ 31 \<Longrightarrow> rw_ok n (fst lp) (snd lp)"
proof (induction rule: rw_reach.induct)
  case (rw_start rq wq)
  then show ?case by (simp add: rw_ok_def rwlock_init_def in_phase_def)
next
  case (rw_next l ph l' ph')
  then show ?case using rw_step_ok by simp
qed

text \<open>
  C18. However threads read and write under a reader-writer lock, as long as they release it in the mode
  they hold it: a writer is alone, the reader count is the number of readers, and the waiting count
  the number of writers that have announced themselves and not got in.
\<close>
theorem writer_alone:
  assumes "rw_reach n (l, ph)" "n < 2 ^ 31"
  shows "rw_readers l = int (card {t. ph t = Reading}) \<and> unat (rw_waiting l) = card {t. ph t = Announced} \<and>
    (\<forall>t u. ph t = Writing \<longrightarrow> ph u \<in> {Reading, Writing} \<longrightarrow> t = u)"
proof -
  have ok: "rw_ok n l ph" using rw_reach_ok [OF assms] by simp
  have p: "in_phase n p ph = {t. ph t = p}" if "p \<noteq> Outside" for p
    using ok that unfolding in_phase_def rw_ok_def by (metis not_le)
  have fin: "finite (in_phase n p ph)" for p by (simp add: in_phase_def)
  have "t = u" if "ph t = Writing" "ph u \<in> {Reading, Writing}" for t u
  proof -
    have w: "t \<in> in_phase n Writing ph" using that(1) p by auto
    then have "card (in_phase n Writing ph) = 1" and r: "card (in_phase n Reading ph) = 0"
      using ok fin [of Writing] by (auto simp: rw_ok_def card_eq_0_iff split: if_splits)
    then have "in_phase n Writing ph = {t}" using w by (metis card_1_singletonE singletonD)
    moreover have "in_phase n Reading ph = {}" using r fin by simp
    ultimately show ?thesis using that(2) p by fastforce
  qed
  then show ?thesis using ok p by (auto simp: rw_ok_def)
qed

lemma writer_alone_witness:
  "\<exists>l ph. rw_reach 2 (l, ph) \<and> rw_readers l = 1 \<and> unat (rw_waiting l) = 1"
proof -
  let ?ph = "(\<lambda>_ :: nat. Outside)(0 := Reading)"
  let ?l = "snd (read_attempt (rwlock_init 0 1))"
  have r: "read_attempt (rwlock_init 0 1) = (Acquired, ?l)" by (simp add: read_attempt_def rwlock_init_def)
  have 1: "rw_reach 2 (?l, ?ph)" by (rule rw_next [OF rw_start rw_read [OF refl r]]) simp
  have 2: "rw_reach 2 (write_announce ?l, ?ph(1 := Announced))" by (rule rw_next [OF 1 rw_want]) simp_all
  have S: "{t. (?ph(1 := Announced)) t = Reading} = {0}" "{t. (?ph(1 := Announced)) t = Announced} = {1}" by auto
  have "(2 :: nat) < 2 ^ 31" by simp
  from writer_alone [OF 2 this, unfolded S]
  have N: "rw_readers (write_announce ?l) = 1 \<and> unat (rw_waiting (write_announce ?l)) = 1" by (elim conjE) (intro conjI, simp_all only: card.empty card.insert finite.emptyI empty_iff not_False_eq_True of_nat_Suc of_nat_0 add_0 One_nat_def if_False)
  show ?thesis by (intro exI [of _ "write_announce ?l"] exI [of _ "?ph(1 := Announced)"] conjI 2 N [THEN conjunct1] N [THEN conjunct2])
qed

section \<open>An initialiser runs once\<close>

datatype once_phase = Before | Claimed | Spinning | Returned

text \<open>The state, how often \<open>fn\<close> has been run to its end, and where each caller is.\<close>

inductive once_step :: "u32 \<times> nat \<times> (nat \<Rightarrow> once_phase) \<Rightarrow> u32 \<times> nat \<times> (nat \<Rightarrow> once_phase) \<Rightarrow> bool" where
  on_claim: "ph t = Before \<Longrightarrow> once_claim st = (True, st') \<Longrightarrow> once_step (st, k, ph) (st', k, ph(t := Claimed))"
| on_lose: "ph t = Before \<Longrightarrow> once_claim st = (False, st') \<Longrightarrow> once_step (st, k, ph) (st', k, ph(t := Spinning))"
| on_run: "ph t = Claimed \<Longrightarrow> once_step (st, k, ph) (once_finish st, k + 1, ph(t := Returned))"
| on_spin: "ph t = Spinning \<Longrightarrow> once_done st \<Longrightarrow> once_step (st, k, ph) (st, k, ph(t := Returned))"

inductive once_reach :: "u32 \<times> nat \<times> (nat \<Rightarrow> once_phase) \<Rightarrow> bool" where
  on_start: "once_reach (ONCE_IDLE, 0, \<lambda>_. Before)"
| on_next: "once_reach s \<Longrightarrow> once_step s s' \<Longrightarrow> once_reach s'"

definition once_ok :: "u32 \<times> nat \<times> (nat \<Rightarrow> once_phase) \<Rightarrow> bool" where
  "once_ok s \<longleftrightarrow> (case s of (st, k, ph) \<Rightarrow>
     st = ONCE_IDLE \<and> k = 0 \<and> (\<forall>t. ph t = Before) \<or>
     st = ONCE_BUSY \<and> k = 0 \<and> (\<exists>t. ph t = Claimed \<and> (\<forall>u. u \<noteq> t \<longrightarrow> ph u \<in> {Before, Spinning})) \<or>
     st = ONCE_DONE \<and> k = 1 \<and> (\<forall>t. ph t \<noteq> Claimed))"

lemma once_reach_ok: "once_reach s \<Longrightarrow> once_ok s"
proof (induction rule: once_reach.induct)
  case on_start
  then show ?case by (simp add: once_ok_def)
next
  case (on_next s s')
  note C = once_claim_def once_finish_def once_done_def ONCE_IDLE_def ONCE_BUSY_def ONCE_DONE_def once_ok_def
  show ?case using on_next.hyps(2) on_next.IH
    by (cases rule: once_step.cases) (auto simp: C split: if_splits; metis once_phase.distinct)+
qed

text \<open>
  An initialiser behind \<open>rk_once\<close> is run at most once, and whoever returns from \<open>rk_once\<close> does so after
  it has been run.
\<close>
theorem once_runs_once:
  assumes "once_reach (st, k, ph)"
  shows "k \<le> 1 \<and> (ph t = Returned \<longrightarrow> k = 1)"
  using once_reach_ok [OF assms] unfolding once_ok_def by (auto; metis empty_iff insert_iff once_phase.distinct)

lemma once_runs_once_witness:
  "\<exists>st ph. once_reach (st, 1, ph) \<and> ph 4 = Returned"
proof -
  have 1: "once_reach (ONCE_BUSY, 0, (\<lambda>_. Before)(4 := Claimed))"
    by (rule once_reach.on_next [OF on_start on_claim]) (simp_all add: once_claim_def)
  have "once_reach (once_finish ONCE_BUSY, 0 + 1, ((\<lambda>_. Before)(4 := Claimed))(4 := Returned))"
    by (rule once_reach.on_next [OF 1 on_run]) simp
  from this once_runs_once [OF this, of 4] show ?thesis by (intro exI conjI) (simp, simp)
qed

section \<open>Looking and then sleeping\<close>

text \<open>
  Every waiting loop of this file looks at its object under the object's lock and sleeps after that lock
  is free again: \<open>blocked\<close> is the look, \<open>release\<close> the change of the operation that ends the wait.
\<close>

lemma enter_and_block:
  assumes r: "sched_reach ncpu s" and c: "sc_ready s" "c < length (sc_cpus s)"
    and cur: "cs_current (cpu s c) = Some t" "cs_idle (cpu s c) \<noteq> Some t" and w: "sc_waiters s w = []"
  shows "th_state (th (sleep_on c now w s) t) = TS_BLOCKED \<and> sc_waiters (sleep_on c now w s) w = [t] \<and>
    t \<notin> set (queued (sleep_on c now w s))"
proof -
  let ?s = "waitq_enter c w s"
  have i: "sched_inv s" by (rule reach_inv [OF r])
  have e: "?s = s\<lparr>sc_waiters := (sc_waiters s)(w := [t])\<rparr>" using cur w by (simp add: waitq_enter_def)
  have i1: "sched_inv ?s" by (rule inv_enter [OF i c(2)])
  have v: "cs_current (cpu ?s c) = Some t" "cs_idle (cpu ?s c) \<noteq> Some t" "sc_ready ?s" "c < length (sc_cpus ?s)"
    using cur c by (simp_all add: e cpu_def)
  have s2: "sleep_on c now w s = schedule c now TS_BLOCKED (count_nvcsw c ?s)" by (simp add: sleep_on_def sched_block_def)
  note n = inv_nvcsw(1) [OF i1, of c] inv_nvcsw(2,3) [of c ?s]
  have b: "th_state (th (sleep_on c now w s) t) = TS_BLOCKED"
    unfolding s2 by (rule schedule_parks(2) [OF n(1)]) (use v n in simp_all)
  have "scheduled c (count_nvcsw c ?s) (sleep_on c now w s)"
    unfolding s2 by (rule schedule_scheduled) (use n v in \<open>simp_all add: sched_inv_def\<close>)
  then have w': "sc_waiters (sleep_on c now w s) w = [t]" "queue_ok {} (sleep_on c now w s)"
    by (simp_all add: scheduled_def sys_ok_def e)
  then show ?thesis using queue_count [OF w'(2), of t] b by (simp add: count_list_0_iff)
qed

locale wait_loop =
  fixes blocked :: "'a \<Rightarrow> bool" and release :: "'a \<Rightarrow> 'a" and queue :: "'a \<Rightarrow> nat" and ends :: "'a \<Rightarrow> bool"
  assumes release_ends: "ends x \<Longrightarrow> \<not> blocked (release x)"
    and release_queue: "queue (release x) = queue x"
begin

lemma sleeps_although_free:
  assumes r: "sched_reach ncpu s" and c: "sc_ready s" "c < length (sc_cpus s)"
    and cur: "cs_current (cpu s c) = Some t" "cs_idle (cpu s c) \<noteq> Some t"
    and x: "ends x" and w: "sc_waiters s (queue x) = []"
    and sa: "sa = waitq_wake_one d tm (queue x) s \<or> sa = waitq_wake_all d tm (queue x) s"
  shows "\<not> blocked (release x) \<and> th_state (th (sleep_on c now (queue (release x)) sa) t) = TS_BLOCKED \<and>
    sc_waiters (sleep_on c now (queue (release x)) sa) (queue (release x)) = [t] \<and>
    t \<notin> set (queued (sleep_on c now (queue (release x)) sa))"
proof -
  have sa: "sa = s" using sa w by (auto simp: waitq_wake_one_def waitq_wake_all_def)
  have "th_state (th (sleep_on c now (queue x) s) t) = TS_BLOCKED \<and> sc_waiters (sleep_on c now (queue x) s) (queue x) = [t] \<and>
    t \<notin> set (queued (sleep_on c now (queue x) s))" using r c cur w by (rule enter_and_block)
  then show ?thesis using release_ends [OF x] release_queue sa by simp
qed

end

interpretation mutex_wait: wait_loop "\<lambda>m. fst (mutex_attempt t m) = Must_wait" "\<lambda>m. snd (mutex_release m)" mx_wq "\<lambda>m. mx_depth m \<le> 1" for t
  by unfold_locales (auto simp: mutex_attempt_def mutex_release_def)

interpretation semaphore_wait: wait_loop "\<lambda>sm. fst (semaphore_attempt sm) = Must_wait" semaphore_release sm_wq "\<lambda>sm. 0 \<le> sm_count sm \<and> sm_count sm < 2 ^ 62"
  by unfold_locales (auto simp: semaphore_attempt_def semaphore_release_def)

interpretation write_wait: wait_loop "\<lambda>l. fst (write_attempt l) = Must_wait" "\<lambda>l. snd (write_release l)" rw_wq "\<lambda>l. rw_readers l = 0"
  by unfold_locales (auto simp: write_attempt_def write_release_def)

interpretation completion_wait: wait_loop "\<lambda>cm. completion_attempt cm = Must_wait" completion_release cm_wq "\<lambda>_. True"
  by unfold_locales (auto simp: completion_attempt_def completion_release_def)

text \<open>
  C21. A completion that is signalled between the waiter's look and its sleep is lost: \<open>completion_done\<close>
  finds nobody on the queue, the waiter then queues itself and blocks, the completion is done, and the
  thread is asleep and on no ready list. The mutex, the semaphore and the writer's side of the
  reader-writer lock lose the wakeup of their release in the same way.
\<close>
theorem completion_misses_done:
  assumes r: "sched_reach ncpu s" and c: "sc_ready s" "c < length (sc_cpus s)"
    and cur: "cs_current (cpu s c) = Some t" "cs_idle (cpu s c) \<noteq> Some t"
    and look: "completion_attempt cm = Must_wait" and w: "sc_waiters s (cm_wq cm) = []"
    and d: "completion_done d n1 (cm, s) = (cm', s1)" and s2: "s2 = sleep_on c now (cm_wq cm) s1"
  shows "completion_attempt cm' = Acquired \<and> th_state (th s2 t) = TS_BLOCKED \<and> sc_waiters s2 (cm_wq cm) = [t] \<and> t \<notin> set (queued s2)"
proof -
  have "cm' = completion_release cm" "s1 = waitq_wake_all d n1 (cm_wq cm) s" "cm_wq (completion_release cm) = cm_wq cm"
    "completion_attempt (completion_release cm) = Acquired"
    using d by (auto simp: completion_done_def completion_release_def completion_attempt_def)
  then show ?thesis using completion_wait.sleeps_although_free [OF r c cur TrueI w, where now = now and d = d and tm = n1 and sa = s1] s2 by simp
qed

lemma completion_misses_done_witness:
  "th_state (th (sleep_on 0 9 7 (snd (completion_done 1 8 (completion_init 7, demo_running)))) 2) = TS_BLOCKED \<and>
   cm_done (fst (completion_done 1 8 (completion_init 7, demo_running)))"
  using completion_misses_done [OF demo_running_reach, of 0 2 "completion_init 7" 1 8, OF _ _ _ _ _ _ prod.collapse [symmetric] refl, of 9]
  by (simp add: demo_running_facts completion_init_def completion_attempt_def completion_done_def completion_release_def)

text \<open>
  A mutex released between a thread's look and its sleep leaves that thread asleep while the mutex is
  free.
\<close>
theorem mutex_sleeps_although_free:
  assumes r: "sched_reach ncpu s" and c: "sc_ready s" "c < length (sc_cpus s)"
    and cur: "cs_current (cpu s c) = Some t" "cs_idle (cpu s c) \<noteq> Some t"
    and look: "mutex_attempt t m = (Must_wait, m)" "mx_depth m = 1" and w: "sc_waiters s (mx_wq m) = []"
    and u: "mutex_unlock d n1 (m, s) = (m', s1)" and s2: "s2 = sleep_on c now (mx_wq m) s1"
  shows "mx_owner m' = None \<and> th_state (th s2 t) = TS_BLOCKED \<and> sc_waiters s2 (mx_wq m) = [t] \<and> t \<notin> set (queued s2)"
proof -
  have "m' = snd (mutex_release m)" "s1 = waitq_wake_one d n1 (mx_wq m) s" "mx_wq (snd (mutex_release m)) = mx_wq m" "mx_owner m' = None"
    using u look(2) by (auto simp: mutex_unlock_def mutex_release_def)
  moreover have "mx_depth m \<le> 1" using look(2) by simp
  ultimately show ?thesis using mutex_wait.sleeps_although_free [OF r c cur _ w, where now = now and d = d and tm = n1 and sa = s1] s2 by simp
qed

end
