(* ===== verification/RK_Ipc.thy ===== *)
theory RK_Ipc
  imports RK_CapSafety RK_SyncProps RK_Stream
begin

unbundle bit_operations_syntax

text \<open>
  Inter-process communication (\<open>kernel/ipc/ipc.c\<close>, \<open>include/rk/ipc.h\<close>) over the capability system and
  the scheduler. Endpoints, channels and notifications are indices into lists. The record a waiting
  thread keeps on its stack (\<open>struct pending\<close>) is an entry of a table, taken out when the function
  that owns it returns; a write to an entry that is gone sets \<open>ip_corrupt\<close>. An operation that waits is
  its sections between the waits; \<open>now\<close> is the clock in nanoseconds, \<open>sec\<close> in seconds, \<open>c\<close> the CPU.
  Nodes and events in the runtime graph are left out.
\<close>

section \<open>State\<close>

definition RK_MSG_INLINE_MAX :: nat where "RK_MSG_INLINE_MAX = 256"
definition RK_MSG_CAPS_MAX :: nat where "RK_MSG_CAPS_MAX = 4"
definition CAP_RIGHT_SEND :: u32 where "CAP_RIGHT_SEND = push_bit 4 1"

record rk_message =
  mg_label :: u64
  mg_len :: u32
  mg_ncaps :: u32
  mg_badge :: u64
  mg_data :: "u8 list"
  mg_caps :: "int list"
  mg_seq :: u64
  mg_sealed :: bool
  mg_seal :: kaalka_seal

text \<open>The thread, its task's capability space, and the message it parks.\<close>

record pending =
  pd_thread :: nat
  pd_space :: "nat option"
  pd_msg :: rk_message
  pd_delivered :: bool
  pd_replied :: bool
  pd_result :: "unit result"
  pd_wants_reply :: bool

record endpoint =
  ep_id :: u64
  ep_name :: string
  ep_senders :: "nat list"
  ep_receivers :: "nat list"
  ep_refcount :: u32
  ep_calls :: u64
  ep_timeouts :: u64
  ep_ledger :: kaalka_ledger
  ep_require_seal :: bool
  ep_live :: bool

text \<open>\<open>ch_head\<close> and \<open>ch_tail\<close> count bytes and cannot reach 64 bits.\<close>

record channel =
  ch_id :: u64
  ch_name :: string
  ch_ring :: "u8 list"
  ch_capacity :: nat
  ch_head :: nat
  ch_tail :: nat
  ch_refcount :: u32
  ch_closed :: bool
  ch_bytes_in :: nat
  ch_bytes_out :: nat
  ch_readers :: nat
  ch_writers :: nat
  ch_live :: bool

record notify =
  nt_id :: u64
  nt_name :: string
  nt_bits :: u64
  nt_wq :: nat
  nt_refcount :: u32
  nt_live :: bool

record ipc_stats =
  is_calls :: u64
  is_sends :: u64
  is_recvs :: u64
  is_replies :: u64
  is_channel_bytes :: nat
  is_notifications :: u64
  is_timeouts :: u64
  is_seal_failures :: u64
  is_fastpath :: u64

record ipc =
  ip_ends :: "endpoint list"
  ip_pend :: "nat \<rightharpoonup> pending"
  ip_chans :: "channel list"
  ip_notes :: "notify list"
  ip_next_id :: u64
  ip_stats :: ipc_stats
  ip_cap :: cap_sys
  ip_sched :: sched
  ip_corrupt :: bool

abbreviation ep :: "ipc \<Rightarrow> nat \<Rightarrow> endpoint" where "ep x e \<equiv> ip_ends x ! e"

definition set_ep :: "nat \<Rightarrow> (endpoint \<Rightarrow> endpoint) \<Rightarrow> ipc \<Rightarrow> ipc" where
  "set_ep e f x = x\<lparr>ip_ends := (ip_ends x)[e := f (ep x e)]\<rparr>"

definition set_pend :: "nat \<Rightarrow> (pending \<Rightarrow> pending) \<Rightarrow> ipc \<Rightarrow> ipc" where
  "set_pend p f x =
     (case ip_pend x p of None \<Rightarrow> x\<lparr>ip_corrupt := True\<rparr> | Some d \<Rightarrow> x\<lparr>ip_pend := (ip_pend x)(p \<mapsto> f d)\<rparr>)"

definition set_istats :: "(ipc_stats \<Rightarrow> ipc_stats) \<Rightarrow> ipc \<Rightarrow> ipc" where
  "set_istats f x = x\<lparr>ip_stats := f (ip_stats x)\<rparr>"

definition wake :: "nat \<Rightarrow> u64 \<Rightarrow> nat \<Rightarrow> ipc \<Rightarrow> ipc" where
  "wake c now t x = x\<lparr>ip_sched := sched_wake c now t (ip_sched x)\<rparr>"

definition pend_thread :: "nat \<Rightarrow> ipc \<Rightarrow> nat" where
  "pend_thread p x = (case ip_pend x p of None \<Rightarrow> 0 | Some d \<Rightarrow> pd_thread d)"

section \<open>Endpoints\<close>

definition rk_endpoint_create :: "bool \<Rightarrow> string option \<Rightarrow> ipc \<Rightarrow> nat option \<times> ipc" where
  "rk_endpoint_create mem name x =
     (if \<not> mem then (None, x)
      else (Some (length (ip_ends x)),
            x\<lparr>ip_ends := ip_ends x @ [\<lparr>ep_id = ip_next_id x,
                ep_name = take 31 (case name of None \<Rightarrow> ''endpoint'' | Some s \<Rightarrow> s),
                ep_senders = [], ep_receivers = [], ep_refcount = 1, ep_calls = 0, ep_timeouts = 0,
                ep_ledger = kaalka_ledger_init, ep_require_seal = False, ep_live = True\<rparr>],
              ip_next_id := ip_next_id x + 1\<rparr>))"

definition rk_endpoint_get :: "nat \<Rightarrow> ipc \<Rightarrow> ipc" where
  "rk_endpoint_get e = set_ep e (\<lambda>q. q\<lparr>ep_refcount := ep_refcount q + 1\<rparr>)"

definition rk_endpoint_put :: "nat \<Rightarrow> ipc \<Rightarrow> ipc" where
  "rk_endpoint_put e =
     set_ep e (\<lambda>q. q\<lparr>ep_refcount := ep_refcount q - 1, ep_live := ep_live q \<and> ep_refcount q \<noteq> 1\<rparr>)"

section \<open>Messages\<close>

text \<open>The capabilities of a message, granted one by one; \<open>grow\<close> is whether a full space may grow.\<close>

fun deliver_caps :: "int \<Rightarrow> bool \<Rightarrow> nat \<Rightarrow> nat \<Rightarrow> int list \<Rightarrow> cap_sys \<Rightarrow> int list \<times> cap_sys" where
  "deliver_caps sec grow from_sp to_sp [] y = ([], y)"
| "deliver_caps sec grow from_sp to_sp (h # hs) y =
     (case cap_grant sec grow from_sp h to_sp CAP_RIGHT_ALL y of (h', y) \<Rightarrow>
      (case deliver_caps sec grow from_sp to_sp hs y of (hs', y) \<Rightarrow>
         (if h' \<noteq> - 1 then h' # hs' else hs', y)))"

definition deliver ::
  "int \<Rightarrow> bool \<Rightarrow> rk_message \<Rightarrow> rk_message \<Rightarrow> nat option \<Rightarrow> nat option \<Rightarrow> cap_sys \<Rightarrow> rk_message \<times> cap_sys" where
  "deliver sec grow dst src from_sp to_sp y =
     (let len = (if unat (mg_len src) > RK_MSG_INLINE_MAX then of_nat RK_MSG_INLINE_MAX else mg_len src);
          dst = dst\<lparr>mg_label := mg_label src, mg_len := len, mg_seq := mg_seq src, mg_sealed := mg_sealed src,
                    mg_seal := mg_seal src, mg_data := take (unat len) (mg_data src) @ drop (unat len) (mg_data dst),
                    mg_ncaps := 0\<rparr>
      in case (from_sp, to_sp) of
           (Some f, Some t) \<Rightarrow>
             (case deliver_caps sec grow f t (take (min (unat (mg_ncaps src)) RK_MSG_CAPS_MAX) (mg_caps src)) y of
                (hs, y) \<Rightarrow> (dst\<lparr>mg_ncaps := of_nat (length hs), mg_caps := hs @ drop (length hs) (mg_caps dst)\<rparr>, y))
         | _ \<Rightarrow> (dst, y))"

definition seal_message :: "int \<Rightarrow> nat \<Rightarrow> rk_message \<Rightarrow> ipc \<Rightarrow> rk_message \<times> ipc" where
  "seal_message sec e m x =
     (if \<not> ep_require_seal (ep x e) then (m, x)
      else
        let x = set_ep e (\<lambda>q. q\<lparr>ep_calls := ep_calls q + 1\<rparr>) x;
            m = m\<lparr>mg_seq := ep_calls (ep x e)\<rparr>
        in case kaalka_seal_make sec (ep_id (ep x e)) (mg_seq m) (take (unat (mg_len m)) (mg_data m)) 30 (y_kaalka (ip_cap x)) of
             (sl, k) \<Rightarrow> (m\<lparr>mg_seal := sl, mg_sealed := True\<rparr>, x\<lparr>ip_cap := (ip_cap x)\<lparr>y_kaalka := k\<rparr>\<rparr>))"

definition check_message :: "int \<Rightarrow> nat \<Rightarrow> rk_message \<Rightarrow> ipc \<Rightarrow> unit result \<times> ipc" where
  "check_message sec e m x =
     (if \<not> ep_require_seal (ep x e) then (Inr (), x)
      else if \<not> mg_sealed m then (Inl ESEAL, x)
      else
        (case kaalka_seal_verify sec (mg_seal m) (ep_id (ep x e)) (take (unat (mg_len m)) (mg_data m)) (y_kaalka (ip_cap x)) of
           (r, k) \<Rightarrow>
             let x = x\<lparr>ip_cap := (ip_cap x)\<lparr>y_kaalka := k\<rparr>\<rparr> in
             (case r of Inl err \<Rightarrow> (Inl err, x)
              | Inr u \<Rightarrow>
                  (case kaalka_ledger_check sec (ep_id (ep x e)) (mg_seq m) (ep_ledger (ep x e)) of
                     (r, l) \<Rightarrow> (r, set_ep e (\<lambda>q. q\<lparr>ep_ledger := l\<rparr>) x)))))"

section \<open>Calling and sending\<close>

text \<open>The part of \<open>rk_ipc_call\<close> and \<open>rk_ipc_send\<close> before their loops; \<open>p\<close> is the record on the stack.\<close>

definition ipc_enqueue :: "int \<Rightarrow> bool \<Rightarrow> nat \<Rightarrow> nat \<Rightarrow> nat \<Rightarrow> nat option \<Rightarrow> rk_message \<Rightarrow> ipc \<Rightarrow> ipc" where
  "ipc_enqueue sec wants e p self space msg x =
     (case seal_message sec e msg x of (msg, x) \<Rightarrow>
        x\<lparr>ip_pend := (ip_pend x)(p \<mapsto> \<lparr>pd_thread = self, pd_space = space, pd_msg = msg, pd_delivered = False,
            pd_replied = False, pd_result = Inr (), pd_wants_reply = wants\<rparr>),
          ip_ends := (ip_ends x)[e := (ep x e)\<lparr>ep_senders := ep_senders (ep x e) @ [p],
            ep_calls := (if wants then ep_calls (ep x e) + 1 else ep_calls (ep x e))\<rparr>]\<rparr>)"

definition rk_ipc_call_begin :: "int \<Rightarrow> nat \<Rightarrow> u64 \<Rightarrow> nat \<Rightarrow> nat \<Rightarrow> nat \<Rightarrow> nat option \<Rightarrow> rk_message \<Rightarrow> ipc \<Rightarrow> ipc" where
  "rk_ipc_call_begin sec c now e p self space msg x =
     (let x = ipc_enqueue sec True e p self space msg x in
      case ep_receivers (ep x e) of [] \<Rightarrow> x
      | r # rs \<Rightarrow> set_istats (\<lambda>t. t\<lparr>is_fastpath := is_fastpath t + 1\<rparr>) (wake c now (pend_thread r x) x))"

definition rk_ipc_send_begin :: "int \<Rightarrow> nat \<Rightarrow> u64 \<Rightarrow> nat \<Rightarrow> nat \<Rightarrow> nat \<Rightarrow> nat option \<Rightarrow> rk_message \<Rightarrow> ipc \<Rightarrow> ipc" where
  "rk_ipc_send_begin sec c now e p self space msg x =
     (let x = ipc_enqueue sec False e p self space msg x in
      case ep_receivers (ep x e) of [] \<Rightarrow> x | r # rs \<Rightarrow> wake c now (pend_thread r x) x)"

definition past :: "u64 \<Rightarrow> u64 \<Rightarrow> bool" where
  "past deadline now \<longleftrightarrow> deadline \<noteq> 0 \<and> deadline < now"

text \<open>The function returns: its record is gone.\<close>

definition drop_frame :: "nat \<Rightarrow> ipc \<Rightarrow> ipc" where
  "drop_frame p x = x\<lparr>ip_pend := (ip_pend x)(p := None)\<rparr>"

text \<open>One round of the loops; without a result the thread yields.\<close>

definition rk_ipc_call_poll :: "u64 \<Rightarrow> u64 \<Rightarrow> nat \<Rightarrow> nat \<Rightarrow> ipc \<Rightarrow> (unit result \<times> rk_message) option \<times> ipc" where
  "rk_ipc_call_poll deadline now e p x =
     (case ip_pend x p of
        None \<Rightarrow> (None, x)
      | Some d \<Rightarrow>
          if pd_replied d then
            (Some (pd_result d, pd_msg d), drop_frame p (set_istats (\<lambda>t. t\<lparr>is_calls := is_calls t + 1\<rparr>) x))
          else if past deadline now then
            let x = set_ep e (\<lambda>q. q\<lparr>ep_senders := remove1 p (ep_senders q), ep_timeouts := ep_timeouts q + 1\<rparr>) x
            in (Some (Inl ETIMEDOUT, pd_msg d), drop_frame p (set_istats (\<lambda>t. t\<lparr>is_timeouts := is_timeouts t + 1\<rparr>) x))
          else (None, x))"

definition rk_ipc_send_poll :: "u64 \<Rightarrow> u64 \<Rightarrow> nat \<Rightarrow> nat \<Rightarrow> ipc \<Rightarrow> unit result option \<times> ipc" where
  "rk_ipc_send_poll deadline now e p x =
     (case ip_pend x p of
        None \<Rightarrow> (None, x)
      | Some d \<Rightarrow>
          if pd_delivered d then
            (Some (Inr ()), drop_frame p (set_istats (\<lambda>t. t\<lparr>is_sends := is_sends t + 1\<rparr>) x))
          else if past deadline now then
            (Some (Inl ETIMEDOUT), drop_frame p (set_ep e (\<lambda>q. q\<lparr>ep_senders := remove1 p (ep_senders q)\<rparr>) x))
          else (None, x))"

section \<open>Receiving\<close>

definition make_reply_cap :: "int \<Rightarrow> bool \<Rightarrow> nat option \<Rightarrow> nat option \<Rightarrow> nat \<Rightarrow> cap_sys \<Rightarrow> int \<times> cap_sys" where
  "make_reply_cap sec grow mem space p y =
     (case space of None \<Rightarrow> (-1, y)
      | Some sp \<Rightarrow>
          (case cap_object_create mem CAP_ENDPOINT (of_nat p) (Some ''reply'') None y of
             (None, y) \<Rightarrow> (-1, y)
           | (Some obj, y) \<Rightarrow>
               (case cap_install sec grow sp obj CAP_RIGHT_SEND (of_nat p) 30 y of (h, y) \<Rightarrow>
                  let y = cap_object_put obj y in
                  (h, if h = -1 then y
                      else case slot_of sp h y of None \<Rightarrow> y
                           | Some (cs, cp) \<Rightarrow> set_slot sp h (cp\<lparr>cp_uses_left := 1\<rparr>) y))))"

text \<open>The look at the senders under the lock: one is taken off, or the receiver queues itself.\<close>

definition rk_ipc_recv_look :: "nat \<Rightarrow> nat \<Rightarrow> ipc \<Rightarrow> nat option \<times> ipc" where
  "rk_ipc_recv_look e me x =
     (case ep_senders (ep x e) of
        s # ss \<Rightarrow> (Some s, set_ep e (\<lambda>q. q\<lparr>ep_senders := ss\<rparr>) x)
      | [] \<Rightarrow> (None, set_ep e (\<lambda>q. q\<lparr>ep_receivers := ep_receivers q @ [me]\<rparr>) x))"

text \<open>After a fruitless look: the deadline, or block, and after that leave the queue.\<close>

definition rk_ipc_recv_leave :: "nat \<Rightarrow> nat \<Rightarrow> ipc \<Rightarrow> ipc" where
  "rk_ipc_recv_leave e me = set_ep e (\<lambda>q. q\<lparr>ep_receivers := remove1 me (ep_receivers q)\<rparr>)"

definition rk_ipc_recv_wait :: "u64 \<Rightarrow> nat \<Rightarrow> u64 \<Rightarrow> nat \<Rightarrow> nat \<Rightarrow> ipc \<Rightarrow> unit result option \<times> ipc" where
  "rk_ipc_recv_wait deadline c now e me x =
     (if past deadline now then (Some (Inl ETIMEDOUT), drop_frame me (rk_ipc_recv_leave e me x))
      else (None, x\<lparr>ip_sched := sched_block c now (ip_sched x)\<rparr>))"

text \<open>What is done with the sender that was taken off, without the lock. First its message is checked and
  delivered: \<open>None\<close> when it is refused and the receiver looks again.\<close>

definition rk_ipc_recv_deliver ::
  "int \<Rightarrow> nat \<Rightarrow> u64 \<Rightarrow> bool \<Rightarrow> nat \<Rightarrow> nat option \<Rightarrow> rk_message \<Rightarrow> nat \<Rightarrow> ipc \<Rightarrow> rk_message option \<times> ipc" where
  "rk_ipc_recv_deliver sec c now grow e space msg s x =
     (case ip_pend x s of
        None \<Rightarrow> (None, x\<lparr>ip_corrupt := True\<rparr>)
      | Some d \<Rightarrow>
          (case check_message sec e (pd_msg d) x of
             (Inl err, x) \<Rightarrow>
               let x = set_pend s (\<lambda>d. d\<lparr>pd_result := Inl err, pd_replied := True, pd_delivered := True\<rparr>) x
               in (None, set_istats (\<lambda>t. t\<lparr>is_seal_failures := is_seal_failures t + 1\<rparr>) (wake c now (pd_thread d) x))
           | (Inr u, x) \<Rightarrow>
               (case deliver sec grow msg (pd_msg d) (pd_space d) space (ip_cap x) of (msg, y) \<Rightarrow>
                  (Some (msg\<lparr>mg_badge := 0\<rparr>), set_pend s (\<lambda>d. d\<lparr>pd_delivered := True\<rparr>) (x\<lparr>ip_cap := y\<rparr>)))))"

text \<open>Then the reply handle is made, if one was asked for, or the sender is released.\<close>

definition rk_ipc_recv_ack ::
  "int \<Rightarrow> nat \<Rightarrow> u64 \<Rightarrow> bool \<Rightarrow> nat option \<Rightarrow> bool \<Rightarrow> nat option \<Rightarrow> nat \<Rightarrow> ipc \<Rightarrow> int option \<times> ipc" where
  "rk_ipc_recv_ack sec c now grow mem reply space s x =
     (case ip_pend x s of
        None \<Rightarrow> (None, x\<lparr>ip_corrupt := True\<rparr>)
      | Some d \<Rightarrow>
          let x = set_istats (\<lambda>t. t\<lparr>is_recvs := is_recvs t + 1\<rparr>) x in
          if pd_wants_reply d \<and> reply then
            (case make_reply_cap sec grow mem space s (ip_cap x) of (h, y) \<Rightarrow> (Some h, x\<lparr>ip_cap := y\<rparr>))
          else
            (if reply then Some (-1) else None,
             wake c now (pd_thread d) (set_pend s (\<lambda>d. d\<lparr>pd_replied := True, pd_result := Inr ()\<rparr>) x)))"

section \<open>Replying\<close>

text \<open>The object of a reply handle names the record of the caller by its address.\<close>

definition rk_ipc_reply :: "int \<Rightarrow> nat \<Rightarrow> u64 \<Rightarrow> bool \<Rightarrow> nat \<Rightarrow> int \<Rightarrow> rk_message option \<Rightarrow> ipc \<Rightarrow> unit result \<times> ipc" where
  "rk_ipc_reply sec c now grow space h msg x =
     (case cap_lookup sec space h CAP_ENDPOINT CAP_RIGHT_SEND (ip_cap x) of
        (Inl err, y) \<Rightarrow> (Inl EBADF, x\<lparr>ip_cap := y\<rparr>)
      | (Inr obj, y) \<Rightarrow>
          let x = x\<lparr>ip_cap := y\<rparr>; p = (case y_objs y obj of None \<Rightarrow> 0 | Some ob \<Rightarrow> unat (ob_ptr ob)) in
          if p = 0 then (Inl EPIPE, x)
          else
          (case ip_pend x p of
             None \<Rightarrow> (Inr (), x\<lparr>ip_corrupt := True\<rparr>)
           | Some d \<Rightarrow>
               if pd_replied d then (Inl EPIPE, x)
               else
                 let x = (case msg of None \<Rightarrow> x
                          | Some m \<Rightarrow> (case deliver sec grow (pd_msg d) m (Some space) (pd_space d) (ip_cap x) of
                              (dm, y) \<Rightarrow> set_pend p (\<lambda>d. d\<lparr>pd_msg := dm\<rparr>) (x\<lparr>ip_cap := y\<rparr>)));
                     x = set_pend p (\<lambda>d. d\<lparr>pd_result := Inr (), pd_replied := True\<rparr>) x;
                     x = wake c now (pd_thread d) x;
                     x = x\<lparr>ip_cap := snd (cap_close space h (ip_cap x))\<rparr>
                 in (Inr (), set_istats (\<lambda>t. t\<lparr>is_replies := is_replies t + 1\<rparr>) x)))"

text \<open>\<open>rk_ipc_reply_recv\<close> replies when it is given a handle and then receives.\<close>

definition rk_ipc_reply_recv :: "int \<Rightarrow> nat \<Rightarrow> u64 \<Rightarrow> bool \<Rightarrow> nat \<Rightarrow> int \<Rightarrow> rk_message \<Rightarrow> nat \<Rightarrow> nat \<Rightarrow> ipc \<Rightarrow> nat option \<times> ipc" where
  "rk_ipc_reply_recv sec c now grow space h msg e me x =
     rk_ipc_recv_look e me (if h \<noteq> -1 then snd (rk_ipc_reply sec c now grow space h (Some msg) x) else x)"

section \<open>Channels\<close>

abbreviation ch :: "ipc \<Rightarrow> nat \<Rightarrow> channel" where "ch x k \<equiv> ip_chans x ! k"

definition set_ch :: "nat \<Rightarrow> (channel \<Rightarrow> channel) \<Rightarrow> ipc \<Rightarrow> ipc" where
  "set_ch k f x = x\<lparr>ip_chans := (ip_chans x)[k := f (ch x k)]\<rparr>"

text \<open>\<open>rq\<close> and \<open>wq\<close> are the numbers of the wait queues of readers and writers.\<close>

definition channel_new :: "u64 \<Rightarrow> string option \<Rightarrow> nat \<Rightarrow> nat \<Rightarrow> nat \<Rightarrow> channel" where
  "channel_new ci name capacity rq wq =
     \<lparr>ch_id = ci, ch_name = take 31 (case name of None \<Rightarrow> ''channel'' | Some s \<Rightarrow> s), ch_ring = replicate capacity 0,
      ch_capacity = capacity, ch_head = 0, ch_tail = 0, ch_refcount = 1, ch_closed = False, ch_bytes_in = 0,
      ch_bytes_out = 0, ch_readers = rq, ch_writers = wq, ch_live = True\<rparr>"

definition rk_channel_create :: "bool \<Rightarrow> string option \<Rightarrow> nat \<Rightarrow> nat \<Rightarrow> nat \<Rightarrow> ipc \<Rightarrow> nat option \<times> ipc" where
  "rk_channel_create mem name capacity rq wq x =
     (if capacity = 0 \<or> 2 ^ 20 < capacity then (None, x)
      else if \<not> mem then (None, x)
      else (Some (length (ip_chans x)),
            x\<lparr>ip_chans := ip_chans x @ [channel_new (ip_next_id x) name capacity rq wq], ip_next_id := ip_next_id x + 1\<rparr>))"

definition rk_channel_get :: "nat \<Rightarrow> ipc \<Rightarrow> ipc" where
  "rk_channel_get k = set_ch k (\<lambda>q. q\<lparr>ch_refcount := ch_refcount q + 1\<rparr>)"

definition rk_channel_put :: "nat \<Rightarrow> ipc \<Rightarrow> ipc" where
  "rk_channel_put k =
     set_ch k (\<lambda>q. q\<lparr>ch_refcount := ch_refcount q - 1, ch_live := ch_live q \<and> ch_refcount q \<noteq> 1\<rparr>)"

definition rk_channel_available :: "channel \<Rightarrow> nat" where
  "rk_channel_available q = ch_head q - ch_tail q"

text \<open>The copies in and out of the ring, byte by byte, as the loops do them.\<close>

fun ring_store :: "nat \<Rightarrow> nat \<Rightarrow> u8 list \<Rightarrow> u8 list \<Rightarrow> u8 list" where
  "ring_store cap pos [] ring = ring"
| "ring_store cap pos (b # bs) ring = ring_store cap (pos + 1) bs (ring[pos mod cap := b])"

definition ring_load :: "nat \<Rightarrow> nat \<Rightarrow> nat \<Rightarrow> u8 list \<Rightarrow> u8 list" where
  "ring_load cap pos n ring = map (\<lambda>i. ring ! ((pos + i) mod cap)) [0..<n]"

definition channel_put_bytes :: "u8 list \<Rightarrow> channel \<Rightarrow> nat \<times> channel" where
  "channel_put_bytes p q =
     (let k = min (ch_capacity q - (ch_head q - ch_tail q)) (length p)
      in (k, q\<lparr>ch_ring := ring_store (ch_capacity q) (ch_head q) (take k p) (ch_ring q),
                  ch_head := ch_head q + k, ch_bytes_in := ch_bytes_in q + k\<rparr>))"

definition channel_take_bytes :: "nat \<Rightarrow> channel \<Rightarrow> u8 list \<times> channel" where
  "channel_take_bytes n q =
     (let k = min (ch_head q - ch_tail q) n
      in (ring_load (ch_capacity q) (ch_tail q) k (ch_ring q),
          q\<lparr>ch_tail := ch_tail q + k, ch_bytes_out := ch_bytes_out q + k\<rparr>))"

definition wake_queue :: "nat \<Rightarrow> u64 \<Rightarrow> nat \<Rightarrow> ipc \<Rightarrow> ipc" where
  "wake_queue c now w x = x\<lparr>ip_sched := waitq_wake_all c now w (ip_sched x)\<rparr>"

text \<open>One round of \<open>rk_channel_write\<close>, with \<open>written\<close> bytes of \<open>p\<close> already in: the result, or the count so
  far, after which the writer sleeps for a millisecond.\<close>

definition rk_channel_write ::
  "nat \<Rightarrow> u64 \<Rightarrow> u64 \<Rightarrow> nat \<Rightarrow> u8 list \<Rightarrow> nat \<Rightarrow> ipc \<Rightarrow> (nat result + nat) \<times> ipc" where
  "rk_channel_write c deadline now k p written x =
     (if written < length p \<and> ch_closed (ch x k) then
        (Inl (if written \<noteq> 0 then Inr written else Inl EPIPE), x)
      else if length p \<le> written then
        (Inl (Inr written), set_istats (\<lambda>t. t\<lparr>is_channel_bytes := is_channel_bytes t + written\<rparr>) x)
      else
        (case channel_put_bytes (drop written p) (ch x k) of (m, q) \<Rightarrow>
           let x = set_ch k (\<lambda>_. q) x;
               x = (if m \<noteq> 0 then wake_queue c now (ch_readers q) x else x);
               written = written + m
           in if written = length p then
                (Inl (Inr written), set_istats (\<lambda>t. t\<lparr>is_channel_bytes := is_channel_bytes t + written\<rparr>) x)
              else if past deadline now then (Inl (if written \<noteq> 0 then Inr written else Inl ETIMEDOUT), x)
              else (Inr written, x\<lparr>ip_sched := waitq_sleep c now (ch_writers q) RK_NS_PER_MS (ip_sched x)\<rparr>)))"

definition rk_channel_read :: "nat \<Rightarrow> u64 \<Rightarrow> u64 \<Rightarrow> nat \<Rightarrow> nat \<Rightarrow> ipc \<Rightarrow> u8 list result option \<times> ipc" where
  "rk_channel_read c deadline now k n x =
     (if ch_head (ch x k) - ch_tail (ch x k) \<noteq> 0 then
        (case channel_take_bytes n (ch x k) of (bs, q) \<Rightarrow>
           (Some (Inr bs), wake_queue c now (ch_writers q) (set_ch k (\<lambda>_. q) x)))
      else if ch_closed (ch x k) then (Some (Inr []), x)
      else if past deadline now then (Some (Inl ETIMEDOUT), x)
      else (None, x\<lparr>ip_sched := waitq_sleep c now (ch_readers (ch x k)) RK_NS_PER_MS (ip_sched x)\<rparr>))"

definition rk_channel_close :: "nat \<Rightarrow> u64 \<Rightarrow> nat \<Rightarrow> ipc \<Rightarrow> ipc" where
  "rk_channel_close c now k x =
     wake_queue c now (ch_writers (ch x k)) (wake_queue c now (ch_readers (ch x k)) (set_ch k (\<lambda>q. q\<lparr>ch_closed := True\<rparr>) x))"

section \<open>Notifications\<close>

abbreviation nt :: "ipc \<Rightarrow> nat \<Rightarrow> notify" where "nt x k \<equiv> ip_notes x ! k"

definition set_nt :: "nat \<Rightarrow> (notify \<Rightarrow> notify) \<Rightarrow> ipc \<Rightarrow> ipc" where
  "set_nt k f x = x\<lparr>ip_notes := (ip_notes x)[k := f (nt x k)]\<rparr>"

definition rk_notify_create :: "bool \<Rightarrow> string option \<Rightarrow> nat \<Rightarrow> ipc \<Rightarrow> nat option \<times> ipc" where
  "rk_notify_create mem name w x =
     (if \<not> mem then (None, x)
      else (Some (length (ip_notes x)),
            x\<lparr>ip_notes := ip_notes x @ [\<lparr>nt_id = ip_next_id x, nt_name = take 31 (case name of None \<Rightarrow> ''notify'' | Some s \<Rightarrow> s),
                nt_bits = 0, nt_wq = w, nt_refcount = 1, nt_live = True\<rparr>], ip_next_id := ip_next_id x + 1\<rparr>))"

definition rk_notify_get :: "nat \<Rightarrow> ipc \<Rightarrow> ipc" where
  "rk_notify_get k = set_nt k (\<lambda>q. q\<lparr>nt_refcount := nt_refcount q + 1\<rparr>)"

definition rk_notify_put :: "nat \<Rightarrow> ipc \<Rightarrow> ipc" where
  "rk_notify_put k =
     set_nt k (\<lambda>q. q\<lparr>nt_refcount := nt_refcount q - 1, nt_live := nt_live q \<and> nt_refcount q \<noteq> 1\<rparr>)"

text \<open>The atomic load and store of the bits. \<open>rk_notify_signal\<close> is a load, a store of the union and
  the wake; \<open>rk_notify_poll\<close> is a load, and if a bit of the mask is set another load and a store.\<close>

definition notify_load :: "nat \<Rightarrow> ipc \<Rightarrow> u64" where
  "notify_load k x = nt_bits (nt x k)"

definition notify_store :: "nat \<Rightarrow> u64 \<Rightarrow> ipc \<Rightarrow> ipc" where
  "notify_store k v = set_nt k (\<lambda>q. q\<lparr>nt_bits := v\<rparr>)"

definition notify_wake :: "nat \<Rightarrow> u64 \<Rightarrow> nat \<Rightarrow> ipc \<Rightarrow> ipc" where
  "notify_wake c now k x =
     set_istats (\<lambda>t. t\<lparr>is_notifications := is_notifications t + 1\<rparr>) (wake_queue c now (nt_wq (nt x k)) x)"

definition rk_notify_signal :: "nat \<Rightarrow> u64 \<Rightarrow> nat \<Rightarrow> u64 \<Rightarrow> ipc \<Rightarrow> ipc" where
  "rk_notify_signal c now k bits x = (let old = notify_load k x in notify_wake c now k (notify_store k (old OR bits) x))"

definition rk_notify_poll :: "nat \<Rightarrow> u64 \<Rightarrow> ipc \<Rightarrow> u64 \<times> ipc" where
  "rk_notify_poll k bits x =
     (let v = notify_load k x AND bits in
      (v, if v \<noteq> 0 then notify_store k (notify_load k x AND NOT v) x else x))"

text \<open>One round of \<open>rk_notify_wait\<close>.\<close>

definition rk_notify_wait :: "nat \<Rightarrow> u64 \<Rightarrow> u64 \<Rightarrow> nat \<Rightarrow> u64 \<Rightarrow> ipc \<Rightarrow> u64 option \<times> ipc" where
  "rk_notify_wait c deadline now k bits x =
     (case rk_notify_poll k bits x of (v, x) \<Rightarrow>
        if v \<noteq> 0 then (Some v, x)
        else if past deadline now then (Some 0, x)
        else (None, x\<lparr>ip_sched := waitq_sleep c now (nt_wq (nt x k)) RK_NS_PER_MS (ip_sched x)\<rparr>))"

section \<open>Start-up\<close>

definition blank_istats :: ipc_stats where
  "blank_istats = \<lparr>is_calls = 0, is_sends = 0, is_recvs = 0, is_replies = 0, is_channel_bytes = 0, is_notifications = 0,
     is_timeouts = 0, is_seal_failures = 0, is_fastpath = 0\<rparr>"

definition rk_ipc_init :: "cap_sys \<Rightarrow> sched \<Rightarrow> ipc" where
  "rk_ipc_init y s =
     \<lparr>ip_ends = [], ip_pend = Map.empty, ip_chans = [], ip_notes = [], ip_next_id = 1, ip_stats = blank_istats,
      ip_cap = y, ip_sched = s, ip_corrupt = False\<rparr>"

end
