(* ===== verification/RK_IpcProps.thy ===== *)
theory RK_IpcProps
  imports RK_Ipc
begin

unbundle bit_operations_syntax

text \<open>
  What inter-process communication promises: a channel is a queue of bytes; a call returns the reply
  that the receiver gave; a reply handle works once. And where it fails: a reply to a
  caller that has given up writes to its dead stack, and concurrent signals are lost.
\<close>

section \<open>The ring of a channel\<close>

lemma ring_store_length [simp]: "length (ring_store cap pos bs ring) = length ring"
  by (induction cap pos bs ring rule: ring_store.induct) simp_all

lemma ring_store_other:
  "(\<And>i. i < length bs \<Longrightarrow> (pos + i) mod cap \<noteq> j) \<Longrightarrow> ring_store cap pos bs ring ! j = ring ! j"
proof (induction cap pos bs ring rule: ring_store.induct)
  case (2 cap pos b bs ring)
  have "ring_store cap (pos + 1) bs (ring[pos mod cap := b]) ! j = ring[pos mod cap := b] ! j"
    by (rule "2.IH") (use "2.prems" [of "Suc _"] in simp)
  then show ?case using "2.prems" [of 0] by simp
qed simp

lemma mod_apart:
  assumes "i < n" "j < n" "i \<noteq> j"
  shows "(p + i) mod n \<noteq> (p + j) mod (n :: nat)"
proof -
  have "(p + a) mod n \<noteq> (p + b) mod n" if "a < b" "b < n" for a b
  proof
    assume "(p + a) mod n = (p + b) mod n"
    then have "n dvd b - a" using that mod_eq_dvd_iff_nat [of "p + a" "p + b" n] by simp
    then show False using that by (auto dest: dvd_imp_le)
  qed
  then show ?thesis using assms by (metis nat_neq_iff)
qed

lemma ring_store_new:
  "length bs \<le> cap \<Longrightarrow> cap = length ring \<Longrightarrow> i < length bs \<Longrightarrow> ring_store cap pos bs ring ! ((pos + i) mod cap) = bs ! i"
proof (induction cap pos bs ring arbitrary: i rule: ring_store.induct)
  case (2 cap pos b bs ring)
  show ?case
  proof (cases i)
    case 0
    have "ring_store cap (pos + 1) bs (ring[pos mod cap := b]) ! (pos mod cap) = ring[pos mod cap := b] ! (pos mod cap)"
    proof (rule ring_store_other)
      fix j assume "j < length bs"
      then have "Suc j < cap" using "2.prems" by simp
      then show "(pos + 1 + j) mod cap \<noteq> pos mod cap" using mod_apart [of "Suc j" cap 0 pos] by simp
    qed
    moreover have "pos mod cap < length ring" using "2.prems" by (cases ring) auto
    ultimately show ?thesis using 0 by simp
  next
    case (Suc k)
    then show ?thesis using "2.IH" [of k] "2.prems" by simp
  qed
qed simp

definition channel_ok :: "channel \<Rightarrow> bool" where
  "channel_ok q \<longleftrightarrow> 0 < ch_capacity q \<and> length (ch_ring q) = ch_capacity q \<and> ch_tail q \<le> ch_head q \<and>
     ch_head q - ch_tail q \<le> ch_capacity q"

definition channel_contents :: "channel \<Rightarrow> u8 list" where
  "channel_contents q = ring_load (ch_capacity q) (ch_tail q) (ch_head q - ch_tail q) (ch_ring q)"

lemma put_contents:
  assumes "channel_ok q" "channel_put_bytes p q = (k, q')"
  shows "channel_ok q'" "channel_contents q' = channel_contents q @ take k p"
    "k = min (length p) (ch_capacity q - length (channel_contents q))" "ch_capacity q' = ch_capacity q"
proof -
  let ?n = "ch_head q - ch_tail q"
  have k: "k = min (ch_capacity q - ?n) (length p)"
    "q' = q\<lparr>ch_ring := ring_store (ch_capacity q) (ch_head q) (take k p) (ch_ring q), ch_head := ch_head q + k, ch_bytes_in := ch_bytes_in q + k\<rparr>"
    using assms(2) by (auto simp: channel_put_bytes_def Let_def)
  note ok = assms(1) [unfolded channel_ok_def]
  show "channel_ok q'" "ch_capacity q' = ch_capacity q" using ok k by (auto simp: channel_ok_def)
  show "k = min (length p) (ch_capacity q - length (channel_contents q))" using k by (simp add: channel_contents_def ring_load_def min.commute)
  have len: "length (take k p) \<le> ch_capacity q" using k(1) by simp
  show "channel_contents q' = channel_contents q @ take k p"
  proof (rule nth_equalityI)
    show "length (channel_contents q') = length (channel_contents q @ take k p)"
      using ok k by (simp add: channel_contents_def ring_load_def)
    fix i assume "i < length (channel_contents q')"
    then have i: "i < ?n + k" using ok k by (simp add: channel_contents_def ring_load_def)
    show "channel_contents q' ! i = (channel_contents q @ take k p) ! i"
    proof (cases "i < ?n")
      case True
      have "ring_store (ch_capacity q) (ch_head q) (take k p) (ch_ring q) ! ((ch_tail q + i) mod ch_capacity q) = ch_ring q ! ((ch_tail q + i) mod ch_capacity q)"
      proof (rule ring_store_other)
        fix j assume "j < length (take k p)"
        then have "?n + j < ch_capacity q" using k ok by auto
        then show "(ch_head q + j) mod ch_capacity q \<noteq> (ch_tail q + i) mod ch_capacity q"
          using mod_apart [of "?n + j" "ch_capacity q" i "ch_tail q"] True ok by auto
      qed
      then show ?thesis using True i k(2) ok by (simp add: channel_contents_def ring_load_def nth_append)
    next
      case False
      have e: "ch_tail q + i = ch_head q + (i - ?n)" using False ok by simp
      have "ring_store (ch_capacity q) (ch_head q) (take k p) (ch_ring q) ! ((ch_tail q + i) mod ch_capacity q) = take k p ! (i - ?n)"
        unfolding e by (rule ring_store_new [OF len]) (use ok i False k in auto)
      then show ?thesis using False i k(2) ok by (simp add: channel_contents_def ring_load_def nth_append)
    qed
  qed
qed

lemma take_contents:
  assumes "channel_ok q" "channel_take_bytes n q = (bs, q')"
  shows "channel_ok q'" "bs = take n (channel_contents q)" "channel_contents q' = drop n (channel_contents q)"
proof -
  have q: "bs = ring_load (ch_capacity q) (ch_tail q) (min (ch_head q - ch_tail q) n) (ch_ring q)"
    "q' = q\<lparr>ch_tail := ch_tail q + min (ch_head q - ch_tail q) n, ch_bytes_out := ch_bytes_out q + min (ch_head q - ch_tail q) n\<rparr>"
    using assms(2) by (auto simp: channel_take_bytes_def Let_def)
  show "channel_ok q'" using assms(1) q by (auto simp: channel_ok_def)
  show "bs = take n (channel_contents q)" by (intro nth_equalityI) (simp_all add: q channel_contents_def ring_load_def min.commute)
  show "channel_contents q' = drop n (channel_contents q)"
    using assms(1) by (intro nth_equalityI) (auto simp: q channel_contents_def ring_load_def channel_ok_def min_def ac_simps)
qed

interpretation chan: byte_stream channel_put_bytes channel_take_bytes channel_contents ch_capacity channel_ok
proof
  fix q :: channel and p :: "u8 list" and n :: nat
  assume q: "channel_ok q"
  obtain k q' bs q'' where r: "channel_put_bytes p q = (k, q')" "channel_take_bytes n q = (bs, q'')" by fastforce
  show "length (channel_contents q) \<le> ch_capacity q" using q by (simp add: channel_ok_def channel_contents_def ring_load_def)
  show "fst (channel_put_bytes p q) = min (length p) (ch_capacity q - length (channel_contents q))"
    "channel_contents (snd (channel_put_bytes p q)) = channel_contents q @ take (fst (channel_put_bytes p q)) p"
    "channel_ok (snd (channel_put_bytes p q))" using put_contents [OF q r(1)] r(1) by simp_all
  show "fst (channel_take_bytes n q) = take n (channel_contents q)"
    "channel_contents (snd (channel_take_bytes n q)) = drop n (channel_contents q)"
    "channel_ok (snd (channel_take_bytes n q))" using take_contents [OF q r(2)] r(2) by simp_all
qed

text \<open>
  C19. A channel is a queue of bytes: whatever chunks are written and read, of any capacity, the bytes
  accepted are the bytes delivered followed by those still inside, in order, and there are never
  more inside than the capacity.
\<close>
theorem channel_fifo_order:
  assumes "0 < cap" "run_stream channel_put_bytes channel_take_bytes ops (channel_new ci name cap rq wq) = (inp, outp, q)"
  shows "inp = outp @ channel_contents q \<and> length (channel_contents q) \<le> ch_capacity q"
proof -
  have ok: "channel_ok (channel_new ci name cap rq wq)" "channel_contents (channel_new ci name cap rq wq) = []"
    using assms(1) by (simp_all add: channel_ok_def channel_new_def channel_contents_def ring_load_def)
  show ?thesis
    using chan.run_order [OF ok(1) assms(2)] chan.run_invar [OF ok(1), of ops] assms(2) ok(2) chan.bounded [of q] by simp
qed

lemma channel_run_example:
  "(case run_stream channel_put_bytes channel_take_bytes [Push [1, 2, 3, 4], Pull 2, Push [5, 6]] (channel_new 1 None 3 0 1) of
     (inp, outp, q) \<Rightarrow> (inp, outp)) = ([1, 2, 3, 5, 6], [1, 2])"
  by code_simp

lemma channel_fifo_order_witness:
  "\<exists>q. run_stream channel_put_bytes channel_take_bytes [Push [1, 2, 3, 4], Pull 2, Push [5, 6]] (channel_new 1 None 3 0 1)
     = ([1, 2, 3, 5, 6], [1, 2], q) \<and> channel_contents q = [3, 5, 6]"
proof -
  obtain q where run: "run_stream channel_put_bytes channel_take_bytes [Push [1, 2, 3, 4], Pull 2, Push [5, 6]] (channel_new 1 None 3 0 1)
     = ([1, 2, 3, 5, 6], [1, 2], q)"
    using channel_run_example by (auto split: prod.splits)
  have "([1, 2, 3, 5, 6] :: u8 list) = [1, 2] @ channel_contents q" using channel_fifo_order [OF _ run] by simp
  then have "channel_contents q = [3, 5, 6]" by simp
  then show ?thesis using run by blast
qed

section \<open>Reply handles\<close>

text \<open>A handle that \<open>make_reply_cap\<close> has made looks up the record it was made for, once.\<close>

lemma reply_cap_lookup:
  assumes r: "make_reply_cap sec grow mem (Some sp) p y = (h, y')" "h \<noteq> -1" "slots_ok y"
    and t: "0 \<le> sec" "sec + 30 < 2 ^ 63" "sec \<le> t" "t < sec + 30"
  obtains obj ob cs cp y'' where "cap_lookup t sp h CAP_ENDPOINT CAP_RIGHT_SEND y' = (Inr obj, y'')"
    "y_objs y'' obj = Some ob" "ob_ptr ob = of_nat p" "slot_of sp h y'' = Some (cs, cp)" "\<not> cp_valid cp"
proof -
  obtain obj y1 where o': "cap_object_create mem CAP_ENDPOINT (of_nat p) (Some ''reply'') None y = (Some obj, y1)"
    using r(1,2) by (auto simp: make_reply_cap_def split: prod.splits option.splits)
  obtain y2 where i: "cap_install sec grow sp obj CAP_RIGHT_SEND (of_nat p) 30 y1 = (h, y2)"
    using r(1) o' by (auto simp: make_reply_cap_def Let_def split: prod.splits)
  have ob1: "mem = Some obj" "y_objs y1 obj = Some \<lparr>ob_type = CAP_ENDPOINT, ob_id = y_next_object y, ob_ptr = of_nat p, ob_refcount = 1,
      ob_generation = 1, ob_label = Some ''reply'', ob_release = None\<rparr>" "y_spaces y1 = y_spaces y"
    using o' by (auto simp: cap_object_create_def Let_def split: option.splits)
  have s1: "slots_ok y1" using r(3) ob1(3) by (simp add: slots_ok_def)
  obtain cs ob slots c where I: "y_objs y1 obj = Some ob" "0 \<le> h" "nat h < length slots"
    "cp_obj c = Some obj" "cp_rights c = CAP_RIGHT_SEND" "cp_generation c = ob_generation ob" "cp_badge c = of_nat p" "cp_valid c"
    "cp_seal c = fst (kaalka_seal_make sec (ob_id ob) (of_nat p) (cap_body ob c) 30 (y_kaalka y1))"
    "y_spaces y2 = (y_spaces y1)(sp \<mapsto> cs\<lparr>sp_slots := slots[nat h := c], sp_used := sp_used cs + 1\<rparr>)"
    "y_objs y2 = (y_objs y1)(obj \<mapsto> ob\<lparr>ob_refcount := ob_refcount ob + 1\<rparr>)"
    "k_master (y_kaalka y2) = k_master (y_kaalka y1)"
    using cap_install_facts [OF i r(2) s1] by metis
  let ?cs = "cs\<lparr>sp_slots := slots[nat h := c], sp_used := sp_used cs + 1\<rparr>"
  have s2: "slot_of sp h (cap_object_put obj y2) = Some (?cs, c)"
    using slot_of_installed [OF I(2,3,10)] slot_of_cong [of "cap_object_put obj y2" y2] by simp
  have y': "y' = set_slot sp h (c\<lparr>cp_uses_left := 1\<rparr>) (cap_object_put obj y2)"
    using r(1,2) o' i s2 by (simp add: make_reply_cap_def Let_def)
  have o2: "y_objs (cap_object_put obj y2) obj = Some (ob\<lparr>ob_refcount := 1\<rparr>)"
  proof -
    have "ob_refcount ob = 1" using I(1) ob1(2) by auto
    then show ?thesis using I(1,11) by (simp add: cap_object_put_def Let_def)
  qed
  let ?y = "y'" and ?c = "c\<lparr>cp_uses_left := 1\<rparr>" and ?ob = "ob\<lparr>ob_refcount := 1\<rparr>"
  have cs: "y_spaces (cap_object_put obj y2) sp = Some ?cs" using I(10) by simp
  have s3: "slot_of sp h y' = Some (?cs\<lparr>sp_slots := (sp_slots ?cs)[nat h := ?c]\<rparr>, ?c)"
    using I(2,3) cs by (simp add: y' slot_of_def set_slot_def)
  have o3: "y_objs y' obj = Some ?ob" "ob_type ob = CAP_ENDPOINT" "ob_ptr ob = of_nat p"
    using o2 I(1) ob1(2) by (auto simp: y')
  have "fst (verify_capability t ?ob ?c (y_kaalka y')) = (if in_window (cp_seal ?c) t then Inr () else Inl EEXPIRED)"
    by (rule installed_verifies [where k = "y_kaalka y1" and ob = ob and now = sec and life = 30])
      (use I(7,9,12) in \<open>simp_all add: y' cap_body_def\<close>)
  moreover have "in_window (cp_seal ?c) t"
    using install_window [of ?c sec "ob_id ob" "of_nat p" "cap_body ob c" 30 "y_kaalka y1" t] I(9) t by (simp add: s64_of_def)
  ultimately obtain k where v: "verify_capability t ?ob ?c (y_kaalka y') = (Inr (), k)" by (metis (full_types) eq_fst_iff)
  have l: "cap_lookup t sp h CAP_ENDPOINT CAP_RIGHT_SEND y' = (Inr obj, graph_record (ob_id ob) (word_of_int h) (ucast CAP_RIGHT_SEND) 0
      (set_slot sp h (?c\<lparr>cp_uses_left := 0, cp_valid := False\<rparr>) (y'\<lparr>y_kaalka := k\<rparr>)))"
    unfolding cap_lookup_def s3 using o3 I(4,5,6,8) v by simp
  show thesis
    by (rule that [OF l, where ob = ?ob]) (use o3 I(2,3) s3 in \<open>auto simp: slot_of_def set_slot_def split: option.splits if_splits\<close>)
qed

lemma deliver_no_caps:
  assumes "mg_ncaps src = 0" "deliver sec grow dst src f tt y = (m, y')"
  shows "y' = y" "mg_label m = mg_label src" "unat (mg_len m) = min 256 (unat (mg_len src))"
    "length (mg_data src) = 256 \<Longrightarrow> take (unat (mg_len m)) (mg_data m) = take (unat (mg_len m)) (mg_data src)"
  using assms by (auto simp: deliver_def Let_def RK_MSG_INLINE_MAX_def split: option.splits if_splits)

lemma wake_simps [simp]:
  "ip_pend (wake c now t x) = ip_pend x" "ip_cap (wake c now t x) = ip_cap x" "ip_ends (wake c now t x) = ip_ends x"
  "ip_corrupt (wake c now t x) = ip_corrupt x" "ip_stats (wake c now t x) = ip_stats x"
  by (simp_all add: wake_def)

lemma set_istats_simps [simp]:
  "ip_pend (set_istats f x) = ip_pend x" "ip_cap (set_istats f x) = ip_cap x" "ip_ends (set_istats f x) = ip_ends x"
  "ip_corrupt (set_istats f x) = ip_corrupt x"
  by (simp_all add: set_istats_def)

lemma set_pend_simps:
  "ip_pend x p = Some d \<Longrightarrow> set_pend p f x = x\<lparr>ip_pend := (ip_pend x)(p \<mapsto> f d)\<rparr>"
  by (simp add: set_pend_def)

lemma pend_addr: "p < 2 ^ 64 \<Longrightarrow> unat (of_nat p :: u64) = p"
  by (simp add: unat_of_nat)

text \<open>A reply that finds its caller waiting: the record it leaves, and a capability space in which the
  handle is dead.\<close>

lemma reply_reaches:
  assumes l: "cap_lookup t sp h CAP_ENDPOINT CAP_RIGHT_SEND (ip_cap x) = (Inr obj, y)" "y_objs y obj = Some ob" "ob_ptr ob = of_nat p"
    "slot_of sp h y = Some (cs, cp)" "\<not> cp_valid cp"
    and p: "p \<noteq> 0" "p < 2 ^ 64" "ip_pend x p = Some d" "\<not> pd_replied d" and m: "mg_ncaps m = 0"
  obtains x' where "rk_ipc_reply t c now grow sp h (Some m) x = (Inr (), x')" "ip_cap x' = y" "ip_ends x' = ip_ends x"
    "ip_pend x' = (ip_pend x)(p \<mapsto> d\<lparr>pd_msg := fst (deliver t grow (pd_msg d) m (Some sp) (pd_space d) y), pd_result := Inr (), pd_replied := True\<rparr>)"
    "ip_corrupt x' = ip_corrupt x"
proof -
  obtain dm y1 where dl: "deliver t grow (pd_msg d) m (Some sp) (pd_space d) y = (dm, y1)" by fastforce
  have y1: "y1 = y" by (rule deliver_no_caps(1) [OF m dl])
  have cl: "cap_close sp h y = (Inl EBADF, y)" using l(4,5) by (simp add: cap_close_def)
  let ?r = "rk_ipc_reply t c now grow sp h (Some m) x"
  have "fst ?r = Inr () \<and> ip_cap (snd ?r) = y \<and> ip_ends (snd ?r) = ip_ends x \<and> ip_corrupt (snd ?r) = ip_corrupt x \<and>
    ip_pend (snd ?r) = (ip_pend x)(p \<mapsto> d\<lparr>pd_msg := fst (deliver t grow (pd_msg d) m (Some sp) (pd_space d) y), pd_result := Inr (), pd_replied := True\<rparr>)"
    using l(1-3) p dl y1 cl by (simp add: rk_ipc_reply_def pend_addr set_pend_simps Let_def)
  then show thesis by (intro that [of "snd ?r"]) (simp_all add: prod_eq_iff)
qed

lemma dead_handle:
  assumes "slot_of sp h (ip_cap x) = Some (cs, cp)" "\<not> cp_valid cp"
  shows "fst (rk_ipc_reply t c now grow sp h m x) = Inl EBADF"
  using assms by (simp add: rk_ipc_reply_def cap_lookup_def)

lemma ack_facts:
  assumes "rk_ipc_recv_ack sec c now grow mem True (Some sp) p x = (Some h, x')" "h \<noteq> -1"
  obtains d where "ip_pend x p = Some d" "pd_wants_reply d" "make_reply_cap sec grow mem (Some sp) p (ip_cap x) = (h, ip_cap x')"
    "ip_pend x' = ip_pend x" "ip_ends x' = ip_ends x" "ip_corrupt x' = ip_corrupt x"
proof -
  obtain d where d: "ip_pend x p = Some d" "pd_wants_reply d"
    using assms by (auto simp: rk_ipc_recv_ack_def Let_def split: option.splits if_splits)
  show thesis by (rule that [OF d]) (use assms(1) d in \<open>auto simp: rk_ipc_recv_ack_def Let_def split: prod.splits\<close>)
qed


text \<open>
  C22. A reply to a caller that has given up writes to a stack frame that is gone: the handle names the
  caller's record by its address, the caller's timeout takes the record away and leaves the handle, and
  the reply passes every check and stores into the dead record.
\<close>
theorem late_reply_corrupts:
  assumes a: "rk_ipc_recv_ack sec c now grow mem True (Some sp) p x = (Some h, x1)" "h \<noteq> -1" "slots_ok (ip_cap x)"
    and t: "0 \<le> sec" "sec + 30 < 2 ^ 63" "sec \<le> t" "t < sec + 30" and p: "p \<noteq> 0" "p < 2 ^ 64"
    and g: "rk_ipc_call_poll deadline now2 e p x1 = (Some (Inl ETIMEDOUT, msg), x2)"
  shows "ip_corrupt (snd (rk_ipc_reply t c' n' g' sp h m x2))"
proof -
  have r: "make_reply_cap sec grow mem (Some sp) p (ip_cap x) = (h, ip_cap x1)" using ack_facts [OF a(1,2)] by metis
  obtain obj ob cs cp y where l: "cap_lookup t sp h CAP_ENDPOINT CAP_RIGHT_SEND (ip_cap x1) = (Inr obj, y)" "y_objs y obj = Some ob"
    "ob_ptr ob = of_nat p"
    by (rule reply_cap_lookup [OF r a(2,3) t])
  have "ip_pend x2 p = None" "ip_cap x2 = ip_cap x1"
    using g by (auto simp: rk_ipc_call_poll_def drop_frame_def Let_def set_ep_def split: option.splits if_splits)
  then show ?thesis using l p by (simp add: rk_ipc_reply_def pend_addr Let_def)
qed

section \<open>A call and its reply\<close>

lemma begin_facts:
  assumes "\<not> ep_require_seal (ep x e)" "e < length (ip_ends x)" "x1 = rk_ipc_call_begin sec c now e p self space msg x"
  shows "ip_cap x1 = ip_cap x" "ep_senders (ep x1 e) = ep_senders (ep x e) @ [p]" "length (ip_ends x1) = length (ip_ends x)"
    "ip_pend x1 = (ip_pend x)(p \<mapsto> \<lparr>pd_thread = self, pd_space = space, pd_msg = msg, pd_delivered = False, pd_replied = False,
       pd_result = Inr (), pd_wants_reply = True\<rparr>)" "ep_require_seal (ep x1 e) = ep_require_seal (ep x e)"
  using assms by (simp_all add: rk_ipc_call_begin_def ipc_enqueue_def seal_message_def Let_def split: list.split)

text \<open>
  C16. A call returns the reply: when a caller enters an idle endpoint that asks for no seals, a server
  takes the message, answers it through the handle it got, and the caller looks again, then the server
  has seen the label and the bytes that the caller sent, and the caller returns success with the label
  and the bytes of the answer, each cut to 256.
\<close>
theorem call_returns_reply:
  assumes e: "e < length (ip_ends x)" "ep_senders (ep x e) = []" "\<not> ep_require_seal (ep x e)" "slots_ok (ip_cap x)"
    and msg: "mg_ncaps msg = 0" "length (mg_data msg) = 256" and m: "mg_ncaps m = 0" "length (mg_data m) = 256"
    and p: "p \<noteq> 0" "p < 2 ^ 64" and t: "0 \<le> sec" "sec + 30 < 2 ^ 63" "sec \<le> t" "t < sec + 30"
    and b: "x1 = rk_ipc_call_begin sec c now e p self space msg x" and l: "rk_ipc_recv_look e me x1 = (Some s, x2)"
    and d: "rk_ipc_recv_deliver sec c2 n2 g2 e (Some sp) buf s x2 = (Some req, x3)"
    and a: "rk_ipc_recv_ack sec c2 n2 g2 mem True (Some sp) s x3 = (Some h, x4)" "h \<noteq> -1"
    and r: "rk_ipc_reply t c2 n3 g3 sp h (Some m) x4 = (res, x5)" and q: "rk_ipc_call_poll deadline n4 e p x5 = (ans, x6)"
  shows "mg_label req = mg_label msg \<and> take (unat (mg_len req)) (mg_data req) = take (min 256 (unat (mg_len msg))) (mg_data msg) \<and>
    res = Inr () \<and> (\<exists>out. ans = Some (Inr (), out) \<and> mg_label out = mg_label m \<and>
      take (unat (mg_len out)) (mg_data out) = take (min 256 (unat (mg_len m))) (mg_data m))"
proof -
  note B = begin_facts [OF e(3,1) b]
  have s: "s = p" and x2: "ip_cap x2 = ip_cap x" "ip_pend x2 = ip_pend x1" "ep_require_seal (ep x2 e) = ep_require_seal (ep x e)"
    using l B e(1,2) by (auto simp: rk_ipc_recv_look_def set_ep_def)
  let ?d = "\<lparr>pd_thread = self, pd_space = space, pd_msg = msg, pd_delivered = True, pd_replied = False, pd_result = Inr (), pd_wants_reply = True\<rparr>"
  obtain r0 y0 where D: "deliver sec g2 buf msg space (Some sp) (ip_cap x) = (r0, y0)" by fastforce
  note D' = deliver_no_caps [OF msg(1) D]
  have x3: "req = r0\<lparr>mg_badge := 0\<rparr>" "ip_cap x3 = ip_cap x" "ip_pend x3 p = Some ?d"
    using d D D'(1) x2 B(4) e(3) unfolding s by (auto simp: rk_ipc_recv_deliver_def check_message_def set_pend_simps)
  have A: "make_reply_cap sec g2 mem (Some sp) p (ip_cap x3) = (h, ip_cap x4)" "ip_pend x4 = ip_pend x3"
    using ack_facts [OF a(1) [unfolded s] a(2)] by metis+
  obtain obj ob cs cp y where L: "cap_lookup t sp h CAP_ENDPOINT CAP_RIGHT_SEND (ip_cap x4) = (Inr obj, y)" "y_objs y obj = Some ob"
    "ob_ptr ob = of_nat p" "slot_of sp h y = Some (cs, cp)" "\<not> cp_valid cp"
    by (rule reply_cap_lookup [OF A(1) a(2) _ t]) (use e(4) x3(2) in simp)
  have p4: "ip_pend x4 p = Some ?d" "\<not> pd_replied ?d" using x3(3) A(2) by simp_all
  obtain x5' where X: "rk_ipc_reply t c2 n3 g3 sp h (Some m) x4 = (Inr (), x5')"
    "ip_pend x5' = (ip_pend x4)(p \<mapsto> ?d\<lparr>pd_msg := fst (deliver t g3 (pd_msg ?d) m (Some sp) (pd_space ?d) y), pd_result := Inr (), pd_replied := True\<rparr>)"
    by (rule reply_reaches [OF L p p4 m(1)])
  obtain out y1 where O: "deliver t g3 msg m (Some sp) space y = (out, y1)" by fastforce
  note O' = deliver_no_caps [OF m(1) O]
  have "res = Inr ()" "ans = Some (Inr (), out)" using r q X O by (auto simp: rk_ipc_call_poll_def)
  moreover have "mg_label req = mg_label msg \<and> take (unat (mg_len req)) (mg_data req) = take (min 256 (unat (mg_len msg))) (mg_data msg)"
    using D'(2,4) D'(4) [OF msg(2)] D'(3) x3(1) by simp
  ultimately show ?thesis using O'(2) O'(4) [OF m(2)] O'(3) by simp
qed

section \<open>Concurrent signals\<close>

text \<open>
  Two signals at once lose bits: \<open>rk_notify_signal\<close> is a load, a union and a store, not one atomic or, so
  when two of them interleave as load, load, store, store, the bits of the first that were not set before
  and are not in the second are gone, whatever the wakes do.
\<close>
theorem concurrent_signal_lost:
  assumes "k < length (ip_notes x)" "old1 = notify_load k x" "old2 = notify_load k x"
    and "x1 = notify_wake c1 n1 k (notify_store k (old1 OR bits1) x)" "x2 = notify_wake c2 n2 k (notify_store k (old2 OR bits2) x1)"
    and "bit bits1 i" "\<not> bit (notify_load k x) i" "\<not> bit bits2 i"
  shows "\<not> bit (notify_load k x2) i \<and> bit (notify_load k (rk_notify_signal c2 n2 k bits2 (rk_notify_signal c1 n1 k bits1 x))) i"
  using assms by (simp add: rk_notify_signal_def notify_load_def notify_store_def notify_wake_def set_nt_def set_istats_def
      wake_queue_def Let_def bit_or_iff)

section \<open>Witnesses\<close>

definition demo_ipc :: ipc where
  "demo_ipc = snd (rk_endpoint_create True None (rk_ipc_init demo_sys demo_running))"

definition demo_msg :: "u64 \<Rightarrow> rk_message" where
  "demo_msg l = \<lparr>mg_label = l, mg_len = 3, mg_ncaps = 0, mg_badge = 0, mg_data = [1, 2, 3] @ replicate 253 0, mg_caps = replicate 4 0,
     mg_seq = 0, mg_sealed = False, mg_seal = blank_seal\<rparr>"

lemma demo_ipc_facts:
  "length (ip_ends demo_ipc) = 1" "ep_senders (ep demo_ipc 0) = []" "\<not> ep_require_seal (ep demo_ipc 0)" "ip_cap demo_ipc = demo_sys"
  "mg_ncaps (demo_msg l) = 0" "length (mg_data (demo_msg l)) = 256" "mg_label (demo_msg l) = l" "ip_pend demo_ipc = Map.empty"
  by (simp_all add: demo_ipc_def rk_endpoint_create_def rk_ipc_init_def demo_msg_def)

text \<open>A call has been received in the demo system, by a server whose space is the one at address 100.\<close>

lemma demo_received:
  obtains x1 x2 req x3 x4 where "x1 = rk_ipc_call_begin 1000 0 5 0 7 2 None (demo_msg 40) demo_ipc" "rk_ipc_recv_look 0 9 x1 = (Some 7, x2)"
    "rk_ipc_recv_deliver 1000 0 6 True 0 (Some 100) (demo_msg 0) 7 x2 = (Some req, x3)"
    "rk_ipc_recv_ack 1000 0 6 True (Some 300) True (Some 100) 7 x3 = (Some 0, x4)" "ip_cap x3 = demo_sys" "ip_pend x4 = ip_pend x3"
    "ip_pend x3 7 = Some \<lparr>pd_thread = 2, pd_space = None, pd_msg = demo_msg 40, pd_delivered = True, pd_replied = False, pd_result = Inr (), pd_wants_reply = True\<rparr>"
proof -
  let ?x1 = "rk_ipc_call_begin 1000 0 5 0 7 2 None (demo_msg 40) demo_ipc"
  note B = begin_facts [OF demo_ipc_facts(3) _ refl, of 1000 0 5 7 2 None "demo_msg 40", simplified demo_ipc_facts(1)]
  obtain x2 where x2: "rk_ipc_recv_look 0 9 ?x1 = (Some 7, x2)" "ip_cap x2 = demo_sys" "ip_pend x2 = ip_pend ?x1" "\<not> ep_require_seal (ep x2 0)"
    using B demo_ipc_facts by (simp add: rk_ipc_recv_look_def set_ep_def)
  obtain r0 y0 where D: "deliver 1000 True (demo_msg 0) (demo_msg 40) None (Some 100) demo_sys = (r0, y0)" by fastforce
  note D' = deliver_no_caps(1) [OF demo_ipc_facts(5) D]
  obtain req x3 where x3: "rk_ipc_recv_deliver 1000 0 6 True 0 (Some 100) (demo_msg 0) 7 x2 = (Some req, x3)" "ip_cap x3 = demo_sys"
    "ip_pend x3 7 = Some \<lparr>pd_thread = 2, pd_space = None, pd_msg = demo_msg 40, pd_delivered = True, pd_replied = False, pd_result = Inr (), pd_wants_reply = True\<rparr>"
    using x2 B(4) D D' by (simp add: rk_ipc_recv_deliver_def check_message_def set_pend_simps)
  let ?y = "snd (cap_object_create (Some 300) CAP_ENDPOINT 7 (Some ''reply'') None demo_sys)"
  have o': "y_spaces ?y = y_spaces demo_sys" "\<exists>ob. y_objs ?y 300 = Some ob" by (simp_all add: cap_object_create_def Let_def)
  obtain ob where ob: "y_objs ?y 300 = Some ob" using o'(2) by blast
  let ?cs = "\<lparr>sp_slots = replicate 64 blank_cap, sp_used = 0, sp_refcount = 1, sp_id = 1, sp_ledger = kaalka_ledger_init\<rparr>"
  have sp: "y_spaces ?y 100 = Some ?cs" using demo_facts(2) o'(1) by simp
  have "free_slot (replicate 64 blank_cap) = 0" by (simp add: free_slot_def blank_cap_def)
  then have f: "free_slot (sp_slots ?cs) = 0" by (simp only: capspace.simps)
  have f': "free_slot (sp_slots ?cs) < length (sp_slots ?cs)" unfolding f by simp
  obtain y2 where "cap_install 1000 True 100 300 CAP_RIGHT_SEND 7 30 ?y = (int (free_slot (sp_slots ?cs)), y2)"
    by (rule cap_install_succeeds [OF sp ob f'])
  then have i: "cap_install 1000 True 100 300 CAP_RIGHT_SEND 7 30 ?y = (0, y2)" unfolding f by simp
  obtain y3 where "make_reply_cap 1000 True (Some 300) (Some 100) 7 demo_sys = (0, y3)"
    using i by (simp add: make_reply_cap_def cap_object_create_def Let_def)
  then obtain x4 where "rk_ipc_recv_ack 1000 0 6 True (Some 300) True (Some 100) 7 x3 = (Some 0, x4)" "ip_pend x4 = ip_pend x3"
    using x3 by (simp add: rk_ipc_recv_ack_def Let_def)
  then show thesis using that [OF refl x2(1) x3(1)] x3(2,3) by blast
qed

lemma demo_slots: "slots_ok demo_sys" by (rule demo_facts)

lemma call_returns_reply_witness:
  "\<exists>x4 x5 x6 out. rk_ipc_reply 1010 0 7 True 100 0 (Some (demo_msg 41)) x4 = (Inr (), x5) \<and>
     rk_ipc_call_poll 0 8 0 7 x5 = (Some (Inr (), out), x6) \<and> mg_label out = 41"
proof -
  obtain x1 x2 req x3 x4 where d: "x1 = rk_ipc_call_begin 1000 0 5 0 7 2 None (demo_msg 40) demo_ipc" "rk_ipc_recv_look 0 9 x1 = (Some 7, x2)"
    "rk_ipc_recv_deliver 1000 0 6 True 0 (Some 100) (demo_msg 0) 7 x2 = (Some req, x3)"
    "rk_ipc_recv_ack 1000 0 6 True (Some 300) True (Some 100) 7 x3 = (Some 0, x4)"
    by (rule demo_received)
  obtain res x5 where r: "rk_ipc_reply 1010 0 7 True 100 0 (Some (demo_msg 41)) x4 = (res, x5)" by fastforce
  obtain ans x6 where q: "rk_ipc_call_poll 0 8 0 7 x5 = (ans, x6)" by fastforce
  have n: "slots_ok (ip_cap demo_ipc)" "0 < length (ip_ends demo_ipc)" using demo_facts(1) demo_ipc_facts(1,4) by simp_all
  show ?thesis
    using call_returns_reply [OF n(2) demo_ipc_facts(2,3) n(1) demo_ipc_facts(5,6,5,6) _ _ _ _ _ _ d _ r q] r q demo_ipc_facts(7) by auto
qed


lemma late_reply_corrupts_witness:
  "\<exists>x4 x5 out. rk_ipc_call_poll 10 20 0 7 x4 = (Some (Inl ETIMEDOUT, out), x5) \<and>
     ip_corrupt (snd (rk_ipc_reply 1010 0 21 True 100 0 None x5))"
proof -
  obtain x1 x2 req x3 x4 where d: "rk_ipc_recv_ack 1000 0 6 True (Some 300) True (Some 100) 7 x3 = (Some 0, x4)" "ip_cap x3 = demo_sys"
    "ip_pend x4 = ip_pend x3"
    "ip_pend x3 7 = Some \<lparr>pd_thread = 2, pd_space = None, pd_msg = demo_msg 40, pd_delivered = True, pd_replied = False, pd_result = Inr (), pd_wants_reply = True\<rparr>"
    by (rule demo_received)
  have n: "slots_ok (ip_cap x3)" using demo_facts(1) d(2) by simp
  obtain out x5 where g: "rk_ipc_call_poll 10 20 0 7 x4 = (Some (Inl ETIMEDOUT, out), x5)"
    using d(3,4) by (simp add: rk_ipc_call_poll_def past_def Let_def)
  have "ip_corrupt (snd (rk_ipc_reply 1010 0 21 True 100 0 None x5))"
    by (rule late_reply_corrupts [OF d(1) _ n _ _ _ _ _ _ g]) simp_all
  then show ?thesis using g by blast
qed

lemma concurrent_signal_lost_witness:
  "notify_load 0 (notify_wake 0 5 0 (notify_store 0 (0 OR 2) (notify_wake 0 5 0 (notify_store 0 (0 OR 1)
     (snd (rk_notify_create True None 3 demo_ipc)))))) = 2 \<and>
   \<not> bit (notify_load 0 (notify_wake 0 5 0 (notify_store 0 (0 OR 2) (notify_wake 0 5 0 (notify_store 0 (0 OR 1)
     (snd (rk_notify_create True None 3 demo_ipc))))))) 0"
proof -
  let ?x = "snd (rk_notify_create True None 3 demo_ipc)"
  have n: "0 < length (ip_notes ?x)" "notify_load 0 ?x = 0"
    by (simp_all add: rk_notify_create_def demo_ipc_def rk_endpoint_create_def rk_ipc_init_def notify_load_def)
  have b: "bit (1 :: u64) 0" "\<not> bit (0 :: u64) 0" "\<not> bit (2 :: u64) 0" by simp_all
  have "\<not> bit (notify_load 0 (notify_wake 0 5 0 (notify_store 0 (0 OR 2) (notify_wake 0 5 0 (notify_store 0 (0 OR 1) ?x))))) 0"
    using concurrent_signal_lost [OF n(1) refl refl refl refl, of 1 0 2 0 5 0 5] n(2) b by simp
  then show ?thesis
    using n(1) by (simp add: notify_load_def notify_store_def notify_wake_def set_nt_def set_istats_def wake_queue_def)
qed

end
