(* ===== verification/RK_String.thy ===== *)
theory RK_String
  imports RK_Prelude
begin

unbundle bit_operations_syntax

text \<open>
  The freestanding string and memory routines (\<open>kernel/lib/string.c\<close>). The routines that write
  memory work on a memory, a function from addresses to bytes, with the loops of the code: a byte
  at a time up to an eight-byte boundary, eight bytes at a time, the rest. A C string is the list
  of its bytes; past the last one stands the terminator.

  \<open>memmove_exact\<close>: whatever the overlap and the alignment, \<open>memmove\<close> leaves in the
  destination the bytes the source held before it began, and nothing else changes.
\<close>

section \<open>Memory\<close>

type_synonym memory = "nat \<Rightarrow> u8"

text \<open>A word is stored as its eight bytes.\<close>

definition load8 :: "memory \<Rightarrow> nat \<Rightarrow> u8 list" where
  "load8 m a = map m [a..<a + 8]"

definition store8 :: "memory \<Rightarrow> nat \<Rightarrow> u8 list \<Rightarrow> memory" where
  "store8 m a bs = (\<lambda>x. if a \<le> x \<and> x < a + length bs then bs ! (x - a) else m x)"

fun copy_bytes :: "memory \<Rightarrow> nat \<Rightarrow> nat \<Rightarrow> nat \<Rightarrow> memory" where
  "copy_bytes m d s 0 = m"
| "copy_bytes m d s (Suc n) = copy_bytes (m(d := m s)) (d + 1) (s + 1) n"

fun copy_words :: "memory \<Rightarrow> nat \<Rightarrow> nat \<Rightarrow> nat \<Rightarrow> memory" where
  "copy_words m d s 0 = m"
| "copy_words m d s (Suc n) = copy_words (store8 m d (load8 m s)) (d + 8) (s + 8) n"

fun copy_align :: "memory \<Rightarrow> nat \<Rightarrow> nat \<Rightarrow> nat \<Rightarrow> memory \<times> nat \<times> nat \<times> nat" where
  "copy_align m d s 0 = (m, d, s, 0)"
| "copy_align m d s (Suc n) =
     (if d mod 8 \<noteq> 0 then copy_align (m(d := m s)) (d + 1) (s + 1) n else (m, d, s, Suc n))"

definition memcpy :: "memory \<Rightarrow> nat \<Rightarrow> nat \<Rightarrow> nat \<Rightarrow> memory" where
  "memcpy m d s n =
     (if d mod 8 = s mod 8 then
        (case copy_align m d s n of (m, d, s, n) \<Rightarrow>
           let words = n div 8
           in copy_bytes (copy_words m d s words) (d + words * 8) (s + words * 8) (n - words * 8))
      else copy_bytes m d s n)"

fun copy_down :: "memory \<Rightarrow> nat \<Rightarrow> nat \<Rightarrow> nat \<Rightarrow> memory" where
  "copy_down m d s 0 = m"
| "copy_down m d s (Suc n) = copy_down (m(d + n := m (s + n))) d s n"

definition memmove :: "memory \<Rightarrow> nat \<Rightarrow> nat \<Rightarrow> nat \<Rightarrow> memory" where
  "memmove m d s n = (if d = s \<or> n = 0 then m else if d < s then memcpy m d s n else copy_down m d s n)"

fun set_bytes :: "memory \<Rightarrow> nat \<Rightarrow> u8 \<Rightarrow> nat \<Rightarrow> memory" where
  "set_bytes m d v 0 = m"
| "set_bytes m d v (Suc n) = set_bytes (m(d := v)) (d + 1) v n"

fun set_align :: "memory \<Rightarrow> nat \<Rightarrow> u8 \<Rightarrow> nat \<Rightarrow> memory \<times> nat \<times> nat" where
  "set_align m d v 0 = (m, d, 0)"
| "set_align m d v (Suc n) = (if d mod 8 \<noteq> 0 then set_align (m(d := v)) (d + 1) v n else (m, d, Suc n))"

text \<open>The word \<open>0x0101010101010101 * v\<close>, stored least significant byte first.\<close>

fun set_words :: "memory \<Rightarrow> nat \<Rightarrow> u64 \<Rightarrow> nat \<Rightarrow> memory" where
  "set_words m d w 0 = m"
| "set_words m d w (Suc n) = set_words (store8 m d (le_bytes 8 w)) (d + 8) w n"

definition memset :: "memory \<Rightarrow> nat \<Rightarrow> u8 \<Rightarrow> nat \<Rightarrow> memory" where
  "memset m d v n =
     (case set_align m d v n of (m, d, n) \<Rightarrow>
        let words = n div 8
        in set_bytes (set_words m d (0x0101010101010101 * ucast v) words) (d + words * 8) v
             (n - words * 8))"

section \<open>Comparing and searching\<close>

fun memcmp :: "u8 list \<Rightarrow> u8 list \<Rightarrow> nat \<Rightarrow> int" where
  "memcmp a b 0 = 0"
| "memcmp a b (Suc n) = (if hd a \<noteq> hd b then uint (hd a) - uint (hd b) else memcmp (tl a) (tl b) n)"

fun memchr :: "u8 list \<Rightarrow> u8 \<Rightarrow> nat \<Rightarrow> u8 list option" where
  "memchr s c 0 = None"
| "memchr s c (Suc n) = (if hd s = c then Some s else memchr (tl s) c n)"

definition chr0 :: "u8 list \<Rightarrow> u8" where
  "chr0 s = (case s of [] \<Rightarrow> 0 | c # _ \<Rightarrow> c)"

lemma chr0_simps [simp]: "chr0 [] = 0" "chr0 (c # s) = c"
  by (simp_all add: chr0_def)

fun strlen :: "u8 list \<Rightarrow> nat" where
  "strlen [] = 0"
| "strlen (c # s) = (if c \<noteq> 0 then Suc (strlen s) else 0)"

fun strnlen :: "u8 list \<Rightarrow> nat \<Rightarrow> nat" where
  "strnlen s 0 = 0"
| "strnlen s (Suc n) = (if chr0 s \<noteq> 0 then Suc (strnlen (tl s) n) else 0)"

function strcmp :: "u8 list \<Rightarrow> u8 list \<Rightarrow> int" where
  "strcmp a b =
     (if chr0 a \<noteq> 0 \<and> chr0 a = chr0 b then strcmp (tl a) (tl b) else uint (chr0 a) - uint (chr0 b))"
  by pat_completeness auto
termination by (relation "measure (length \<circ> fst)") (auto simp: chr0_def split: list.splits)

declare strcmp.simps [simp del]

fun strncmp :: "u8 list \<Rightarrow> u8 list \<Rightarrow> nat \<Rightarrow> int" where
  "strncmp a b 0 = 0"
| "strncmp a b (Suc n) =
     (if chr0 a \<noteq> 0 \<and> chr0 a = chr0 b then strncmp (tl a) (tl b) n else uint (chr0 a) - uint (chr0 b))"

definition lower :: "u8 \<Rightarrow> u8" where
  "lower c = (if 65 \<le> c \<and> c \<le> 90 then c + 32 else c)"

function strcasecmp :: "u8 list \<Rightarrow> u8 list \<Rightarrow> int" where
  "strcasecmp a b =
     (if chr0 a \<noteq> 0 \<and> lower (chr0 a) = lower (chr0 b) then strcasecmp (tl a) (tl b)
      else uint (lower (chr0 a)) - uint (lower (chr0 b)))"
  by pat_completeness auto
termination by (relation "measure (length \<circ> fst)") (auto simp: chr0_def split: list.splits)

declare strcasecmp.simps [simp del]

text \<open>A search returns the string from the place found; the terminator is part of the string.\<close>

fun strchr :: "u8 list \<Rightarrow> u8 \<Rightarrow> u8 list option" where
  "strchr [] c = (if c = 0 then Some [] else None)"
| "strchr (x # s) c = (if x = c then Some (x # s) else if x = 0 then None else strchr s c)"

fun strrchr_from :: "u8 list \<Rightarrow> u8 \<Rightarrow> u8 list option \<Rightarrow> u8 list option" where
  "strrchr_from [] c found = (if c = 0 then Some [] else found)"
| "strrchr_from (x # s) c found =
     (let found = (if x = c then Some (x # s) else found)
      in if x = 0 then found else strrchr_from s c found)"

definition strrchr :: "u8 list \<Rightarrow> u8 \<Rightarrow> u8 list option" where
  "strrchr s c = strrchr_from s c None"

fun strstr_from :: "u8 list \<Rightarrow> u8 list \<Rightarrow> nat \<Rightarrow> u8 list option" where
  "strstr_from [] n nl = None"
| "strstr_from (h # hs) n nl =
     (if h = 0 then None
      else if h = chr0 n \<and> strncmp (h # hs) n nl = 0 then Some (h # hs)
      else strstr_from hs n nl)"

definition strstr :: "u8 list \<Rightarrow> u8 list \<Rightarrow> u8 list option" where
  "strstr h n = (if chr0 n = 0 then Some h else strstr_from h n (strlen n))"

text \<open>The copies return the length they tried to create and the bytes now in the buffer, up to
  and including the terminator.\<close>

definition strlcpy :: "u8 list \<Rightarrow> u8 list \<Rightarrow> nat \<Rightarrow> nat \<times> u8 list" where
  "strlcpy dst src sz =
     (let srclen = strlen src
      in if sz \<noteq> 0 then
           (let n = (if srclen < sz - 1 then srclen else sz - 1)
            in (srclen, take n src @ [0] @ drop (n + 1) dst))
         else (srclen, dst))"

definition strlcat :: "u8 list \<Rightarrow> u8 list \<Rightarrow> nat \<Rightarrow> nat \<times> u8 list" where
  "strlcat dst src sz =
     (let dlen = strnlen dst sz
      in if dlen = sz then (sz + strlen src, dst)
         else (case strlcpy (drop dlen dst) src (sz - dlen) of (r, tail) \<Rightarrow> (dlen + r, take dlen dst @ tail)))"

section \<open>Numbers\<close>

definition digit_of :: "u8 \<Rightarrow> int \<Rightarrow> int" where
  "digit_of c base =
     (let d = (if 48 \<le> c \<and> c \<le> 57 then uint c - 48
               else if 97 \<le> c \<and> c \<le> 122 then uint c - 97 + 10
               else if 65 \<le> c \<and> c \<le> 90 then uint c - 65 + 10
               else -1)
      in if d < base then d else -1)"

fun skip_blank :: "u8 list \<Rightarrow> u8 list" where
  "skip_blank [] = []"
| "skip_blank (c # s) = (if c = 32 \<or> c = 9 then skip_blank s else c # s)"

definition detect_base :: "u8 list \<Rightarrow> int \<Rightarrow> u8 list \<times> int" where
  "detect_base s base =
     (let x = chr0 (tl s)
      in if base = 0 then
           (if chr0 s = 48 \<and> (x = 120 \<or> x = 88) then (drop 2 s, 16)
            else if chr0 s = 48 \<and> (x = 98 \<or> x = 66) then (drop 2 s, 2)
            else if chr0 s = 48 \<and> x \<noteq> 0 then (drop 1 s, 8)
            else (s, 10))
         else if base = 16 \<and> chr0 s = 48 \<and> (x = 120 \<or> x = 88) then (drop 2 s, 16)
         else (s, base))"

fun read_digits :: "u64 \<Rightarrow> int \<Rightarrow> u8 list \<Rightarrow> u64 \<times> u8 list" where
  "read_digits v base [] = (v, [])"
| "read_digits v base (c # s) =
     (let d = digit_of c base
      in if d < 0 then (v, c # s) else read_digits (v * word_of_int base + word_of_int d) base s)"

definition rk_strtou64 :: "u8 list \<Rightarrow> int \<Rightarrow> u64 \<times> u8 list" where
  "rk_strtou64 s base =
     (case detect_base (skip_blank s) base of (s, base) \<Rightarrow> read_digits 0 base s)"

definition rk_strtos64 :: "u8 list \<Rightarrow> int \<Rightarrow> int \<times> u8 list" where
  "rk_strtos64 s base =
     (let s = skip_blank s;
          neg = (chr0 s = 45);
          s = (if chr0 s = 45 \<or> chr0 s = 43 then tl s else s)
      in case rk_strtou64 s base of (v, rest) \<Rightarrow>
           (if neg then s64_wrap (- sint v) else sint v, rest))"

section \<open>What the copies do\<close>

text \<open>The contents wanted: the old bytes of the source at the destination.\<close>

definition moved :: "memory \<Rightarrow> nat \<Rightarrow> nat \<Rightarrow> nat \<Rightarrow> memory" where
  "moved m d s n = (\<lambda>a. if d \<le> a \<and> a < d + n then m (s + (a - d)) else m a)"

text \<open>Copying upwards is safe when the source starts above the destination or ends below it.\<close>

definition upward :: "nat \<Rightarrow> nat \<Rightarrow> nat \<Rightarrow> bool" where
  "upward d s n \<longleftrightarrow> d < s \<or> s + n \<le> d"

lemma moved_none [simp]: "moved m d s 0 = m"
  by (rule ext) (auto simp: moved_def)

lemma moved_step: "upward d s (k + n) \<Longrightarrow> moved (moved m d s k) (d + k) (s + k) n = moved m d s (k + n)"
  unfolding moved_def upward_def by (rule ext) (auto simp: algebra_simps)

lemma upward_tail: "upward d s (k + n) \<Longrightarrow> upward (d + k) (s + k) n"
  by (auto simp: upward_def)

lemma moved_byte: "m(d := m s) = moved m d s (Suc 0)"
  by (auto simp: moved_def)

lemma moved_word: "store8 m d (load8 m s) = moved m d s 8"
  by (rule ext) (auto simp: moved_def store8_def load8_def)

lemma copy_bytes_moved: "upward d s n \<Longrightarrow> copy_bytes m d s n = moved m d s n"
proof (induction n arbitrary: m d s)
  case (Suc n)
  then show ?case
    using upward_tail [of d s 1 n] moved_step [of d s 1 n m]
    by (simp add: moved_byte)
qed simp

lemma copy_words_moved: "upward d s (8 * n) \<Longrightarrow> copy_words m d s n = moved m d s (8 * n)"
proof (induction n arbitrary: m d s)
  case (Suc n)
  then show ?case
    using upward_tail [of d s 8 "8 * n"] moved_step [of d s 8 "8 * n" m]
    by (simp add: moved_word)
qed simp

lemma copy_align_moved:
  assumes "upward d s n"
  obtains k where "k \<le> n" "copy_align m d s n = (moved m d s k, d + k, s + k, n - k)"
  using assms
proof (induction n arbitrary: m d s thesis)
  case 0
  then show ?case by simp
next
  case (Suc n)
  show ?case
  proof (cases "d mod 8 = 0")
    case True
    then show ?thesis using Suc.prems(1) [of 0] by simp
  next
    case False
    have "upward (d + 1) (s + 1) n" using Suc.prems(2) by (auto simp: upward_def)
    then obtain k where k: "k \<le> n"
        "copy_align (m(d := m s)) (d + 1) (s + 1) n
         = (moved (m(d := m s)) (d + 1) (s + 1) k, d + 1 + k, s + 1 + k, n - k)"
      using Suc.IH [where d = "d + 1" and s = "s + 1" and m = "m(d := m s)"] by blast
    have "upward d s (1 + k)" using Suc.prems(2) k(1) by (auto simp: upward_def)
    then have "moved (m(d := m s)) (d + 1) (s + 1) k = moved m d s (Suc k)"
      using moved_step [of d s 1 k m] by (simp add: moved_byte)
    with False k show ?thesis using Suc.prems(1) [of "Suc k"] by simp
  qed
qed

lemma memcpy_moved:
  assumes "upward d s n"
  shows "memcpy m d s n = moved m d s n"
proof (cases "d mod 8 = s mod 8")
  case True
  obtain k where k: "k \<le> n" "copy_align m d s n = (moved m d s k, d + k, s + k, n - k)"
    using copy_align_moved [OF assms] .
  let ?w = "(n - k) div 8 * 8"
  have w: "?w \<le> n - k" by (rule div_times_less_eq_dividend)
  have up: "upward (d + k) (s + k) (n - k)" using assms k(1) upward_tail [of d s k "n - k"] by simp
  then have words: "copy_words (moved m d s k) (d + k) (s + k) ((n - k) div 8)
      = moved (moved m d s k) (d + k) (s + k) ?w"
    using copy_words_moved [of "d + k" "s + k" "(n - k) div 8"] w
    by (auto simp: upward_def mult.commute)
  have "upward (d + k + ?w) (s + k + ?w) (n - k - ?w)"
    using upward_tail [of "d + k" "s + k" ?w "n - k - ?w"] up le_add_diff_inverse [OF w] by metis
  note rest = copy_bytes_moved [OF this]
  have "moved (moved m d s k) (d + k) (s + k) (n - k) = moved m d s n"
    using moved_step [of d s k "n - k" m] assms k(1) by simp
  moreover have "moved (moved (moved m d s k) (d + k) (s + k) ?w) (d + k + ?w) (s + k + ?w) (n - k - ?w)
      = moved (moved m d s k) (d + k) (s + k) (n - k)"
    using moved_step [of "d + k" "s + k" ?w "n - k - ?w" "moved m d s k"] up
    by (simp only: le_add_diff_inverse [OF w])
  ultimately show ?thesis using True by (simp add: memcpy_def k(2) Let_def words rest [simplified])
qed (simp add: memcpy_def copy_bytes_moved assms)

lemma copy_down_moved: "s < d \<Longrightarrow> copy_down m d s n = moved m d s n"
proof (induction n arbitrary: m)
  case (Suc n)
  then have "copy_down m d s (Suc n) = moved (m(d + n := m (s + n))) d s n" by simp
  also have "\<dots> = moved m d s (Suc n)" unfolding moved_def
    by (rule ext) (use Suc.prems in auto)
  finally show ?case .
qed simp

text \<open>
  \<open>memmove_exact\<close>: for every pair of addresses, every length and every overlap, \<open>memmove\<close> puts
  at the destination the bytes the source held when it was called, and changes no other byte,
  whether it copies by words, by bytes, upwards or downwards.
\<close>

theorem memmove_exact:
  "memmove m d s n a = (if d \<le> a \<and> a < d + n then m (s + (a - d)) else m a)"
proof -
  consider "d = s \<or> n = 0" | "d < s" "n \<noteq> 0" | "s < d" "n \<noteq> 0" by linarith
  then have "memmove m d s n = moved m d s n"
  proof cases
    case 1
    then have "moved m d s n = m" by (intro ext) (auto simp: moved_def)
    with 1 show ?thesis by (auto simp: memmove_def)
  next
    case 2
    then show ?thesis by (simp add: memmove_def memcpy_moved upward_def)
  next
    case 3
    then show ?thesis by (simp add: memmove_def copy_down_moved)
  qed
  then show ?thesis by (simp add: moved_def)
qed

end
