(* ===== verification/RK_Printf.thy ===== *)
theory RK_Printf
  imports RK_String
begin

text \<open>
  Formatted output (\<open>kernel/lib/printf.c\<close>): the interpreter of format strings, the number,
  string and dump conversions, and the writer into a buffer of bounded size. The variable
  arguments are a list; what is emitted is a list of bytes, whose length is the count the
  functions return.

  \<open>snprintf_appends\<close>: calls that continue where the last one stopped, each with the room that is
  left, fill the buffer as one call would. \<open>printed_number_reads_back\<close>: \<open>rk_strtos64\<close> reads
  what \<open>%lld\<close> prints, for every 64-bit value.
\<close>

section \<open>Bytes and arguments\<close>

definition asc :: "char \<Rightarrow> u8" where
  "asc c = word_of_nat (of_char c)"

text \<open>An argument is an integer, a string that may be NULL, a pointer, or bytes to be dumped.\<close>

datatype arg = AInt int | AStr "u8 list option" | APtr u64 | AMem "u8 list"

definition arg_s64 :: "arg \<Rightarrow> int" where
  "arg_s64 a = (case a of AInt i \<Rightarrow> s64_wrap i | _ \<Rightarrow> 0)"

definition arg_int :: "arg \<Rightarrow> int" where
  "arg_int a = (case a of AInt i \<Rightarrow> signed_take_bit 31 i | _ \<Rightarrow> 0)"

definition arg_u64 :: "arg \<Rightarrow> nat" where
  "arg_u64 a = (case a of AInt i \<Rightarrow> nat (i mod 2 ^ 64) | APtr p \<Rightarrow> unat p | _ \<Rightarrow> 0)"

definition arg_unsigned :: "arg \<Rightarrow> nat" where
  "arg_unsigned a = (case a of AInt i \<Rightarrow> nat (i mod 2 ^ 32) | _ \<Rightarrow> 0)"

record pf_flags =
  pf_left :: bool
  pf_plus :: bool
  pf_space :: bool
  pf_zero :: bool
  pf_alt :: bool
  pf_upper :: bool

definition no_flags :: pf_flags where
  "no_flags = \<lparr>pf_left = False, pf_plus = False, pf_space = False, pf_zero = False, pf_alt = False,
               pf_upper = False\<rparr>"

section \<open>Conversions\<close>

definition emit_pad :: "char \<Rightarrow> int \<Rightarrow> u8 list" where
  "emit_pad c n = replicate (nat n) (asc c)"

definition emit_str :: "u8 list \<Rightarrow> int \<Rightarrow> pf_flags \<Rightarrow> u8 list" where
  "emit_str s width fl =
     (let pad = width - int (length s)
      in (if pf_left fl then [] else emit_pad (if pf_zero fl then CHR ''0'' else CHR '' '') pad)
         @ s @ (if pf_left fl then emit_pad CHR '' '' pad else []))"

definition digits_lo :: string where "digits_lo = ''0123456789abcdef''"
definition digits_up :: string where "digits_up = ''0123456789ABCDEF''"

text \<open>The digits of a positive number, the last one first; the bases are at least 2.\<close>

function low_digits :: "string \<Rightarrow> nat \<Rightarrow> nat \<Rightarrow> u8 list" where
  "low_digits dg base v =
     (if v = 0 \<or> base < 2 then [] else asc (dg ! (v mod base)) # low_digits dg base (v div base))"
  by pat_completeness auto
termination by (relation "measure (\<lambda>(dg, base, v). v)") auto

declare low_digits.simps [simp del]

definition num_prefix :: "nat \<Rightarrow> bool \<Rightarrow> pf_flags \<Rightarrow> u8 list" where
  "num_prefix base negative fl =
     (if negative then [asc CHR ''-''] else if pf_plus fl then [asc CHR ''+'']
      else if pf_space fl then [asc CHR '' ''] else [])
     @ (if pf_alt fl then
          (if base = 16 then [asc CHR ''0'', asc (if pf_upper fl then CHR ''X'' else CHR ''x'')]
           else if base = 2 then [asc CHR ''0'', asc CHR ''b''] else [])
        else [])"

definition emit_num :: "nat \<Rightarrow> nat \<Rightarrow> bool \<Rightarrow> int \<Rightarrow> int \<Rightarrow> pf_flags \<Rightarrow> u8 list" where
  "emit_num v base negative width prec fl =
     (let dg = (if pf_upper fl then digits_up else digits_lo);
          buf = (if v = 0 then [asc CHR ''0''] else low_digits dg base v);
          buf = buf @ replicate (min (nat prec) 72 - length buf) (asc CHR ''0'');
          prefix = num_prefix base negative fl;
          pad = width - int (length buf + length prefix)
      in (if \<not> pf_left fl \<and> \<not> pf_zero fl then emit_pad CHR '' '' pad else []) @ prefix
         @ (if \<not> pf_left fl \<and> pf_zero fl then emit_pad CHR ''0'' pad else []) @ rev buf
         @ (if pf_left fl then emit_pad CHR '' '' pad else []))"

fun emit_hexdump :: "u8 list \<Rightarrow> u8 list" where
  "emit_hexdump [] = []"
| "emit_hexdump (b # bs) =
     [asc (digits_lo ! unat (drop_bit 4 b)), asc (digits_lo ! unat (b AND 15))]
     @ (if bs = [] then [] else asc CHR '' '' # emit_hexdump bs)"

fun scale_bytes :: "nat \<Rightarrow> nat \<Rightarrow> nat \<Rightarrow> nat \<times> nat \<times> nat" where
  "scale_bytes 0 whole frac = (0, whole, frac)"
| "scale_bytes (Suc k) whole frac =
     (if 1024 \<le> whole then
        (case scale_bytes k (whole div 1024) (whole mod 1024 * 10 div 1024) of
           (u, w, f) \<Rightarrow> (Suc u, w, f))
      else (0, whole, frac))"

definition emit_bytesize :: "nat \<Rightarrow> u8 list" where
  "emit_bytesize v =
     (case scale_bytes 5 v 0 of (u, whole, frac) \<Rightarrow>
        emit_num whole 10 False 0 0 no_flags
        @ (if u \<noteq> 0 then asc CHR ''.'' # emit_num frac 10 False 0 0 no_flags else [])
        @ map asc ('' '' @ [''B'', ''KiB'', ''MiB'', ''GiB'', ''TiB'', ''PiB''] ! u))"

section \<open>The format string\<close>

fun read_flags :: "pf_flags \<Rightarrow> string \<Rightarrow> pf_flags \<times> string" where
  "read_flags fl [] = (fl, [])"
| "read_flags fl (c # f) =
     (if c = CHR ''-'' then read_flags (fl\<lparr>pf_left := True\<rparr>) f
      else if c = CHR ''+'' then read_flags (fl\<lparr>pf_plus := True\<rparr>) f
      else if c = CHR '' '' then read_flags (fl\<lparr>pf_space := True\<rparr>) f
      else if c = CHR ''0'' then read_flags (fl\<lparr>pf_zero := True\<rparr>) f
      else if c = CHR ''#'' then read_flags (fl\<lparr>pf_alt := True\<rparr>) f
      else (fl, c # f))"

fun read_dec :: "int \<Rightarrow> string \<Rightarrow> int \<times> string" where
  "read_dec n [] = (n, [])"
| "read_dec n (c # f) =
     (let d = of_char c - 48 in if 0 \<le> d \<and> d \<le> 9 then read_dec (n * 10 + d) f else (n, c # f))"

definition hd_is :: "char \<Rightarrow> string \<Rightarrow> bool" where
  "hd_is c f \<longleftrightarrow> f \<noteq> [] \<and> hd f = c"

definition arg_hd :: "arg list \<Rightarrow> arg" where
  "arg_hd as = (case as of [] \<Rightarrow> AInt 0 | a # _ \<Rightarrow> a)"

definition read_width :: "pf_flags \<Rightarrow> string \<Rightarrow> arg list \<Rightarrow> pf_flags \<times> int \<times> string \<times> arg list" where
  "read_width fl f as =
     (if hd_is CHR ''*'' f then
        (let w = arg_int (arg_hd as)
         in if w < 0 then (fl\<lparr>pf_left := True\<rparr>, - w, tl f, tl as) else (fl, w, tl f, tl as))
      else (case read_dec 0 f of (w, f) \<Rightarrow> (fl, w, f, as)))"

definition read_prec :: "string \<Rightarrow> arg list \<Rightarrow> int \<times> string \<times> arg list" where
  "read_prec f as =
     (if hd_is CHR ''.'' f then
        (if hd_is CHR ''*'' (tl f) then (arg_int (arg_hd as), tl (tl f), tl as)
         else (case read_dec 0 (tl f) of (p, f) \<Rightarrow> (p, f, as)))
      else (- 1, f, as))"

text \<open>0 for \<open>hh\<close>, 1 for \<open>h\<close>, 4 for none, 8 for \<open>l\<close>, \<open>z\<close>, \<open>t\<close>, \<open>j\<close>, 9 for \<open>ll\<close>.\<close>

definition read_len :: "string \<Rightarrow> nat \<times> string" where
  "read_len f =
     (if hd_is CHR ''h'' f then (if hd_is CHR ''h'' (tl f) then (0, tl (tl f)) else (1, tl f))
      else if hd_is CHR ''l'' f then (if hd_is CHR ''l'' (tl f) then (9, tl (tl f)) else (8, tl f))
      else if hd_is CHR ''z'' f \<or> hd_is CHR ''t'' f \<or> hd_is CHR ''j'' f then (8, tl f)
      else (4, f))"

definition conv_signed :: "nat \<Rightarrow> int \<Rightarrow> int \<Rightarrow> pf_flags \<Rightarrow> arg \<Rightarrow> u8 list" where
  "conv_signed len width prec fl a =
     (let v = (if 8 \<le> len then arg_s64 a else arg_int a);
          v = (if len = 1 then signed_take_bit 15 v else if len = 0 then signed_take_bit 7 v else v);
          neg = (v < 0);
          mag = (if neg then nat (- (v + 1)) + 1 else nat v)
      in emit_num mag 10 neg width prec fl)"

definition conv_unsigned :: "char \<Rightarrow> nat \<Rightarrow> int \<Rightarrow> int \<Rightarrow> pf_flags \<Rightarrow> arg \<Rightarrow> u8 list" where
  "conv_unsigned spec len width prec fl a =
     (let v = (if 8 \<le> len then arg_u64 a else arg_unsigned a);
          v = (if len = 1 then v mod 2 ^ 16 else if len = 0 then v mod 2 ^ 8 else v);
          base = (if spec = CHR ''u'' then 10 else if spec = CHR ''o'' then 8
                  else if spec = CHR ''b'' then 2 else 16);
          fl = (if spec = CHR ''X'' then fl\<lparr>pf_upper := True\<rparr> else fl)
      in emit_num v base False width prec fl)"

definition conv_str :: "int \<Rightarrow> int \<Rightarrow> pf_flags \<Rightarrow> arg \<Rightarrow> u8 list" where
  "conv_str width prec fl a =
     (let s = (case a of AStr (Some s) \<Rightarrow> s | _ \<Rightarrow> map asc ''(null)'');
          sl = (if 0 \<le> prec then strnlen s (nat prec) else strlen s)
      in emit_str (take sl s) width (fl\<lparr>pf_zero := False\<rparr>))"

definition conv_ptr :: "int \<Rightarrow> int \<Rightarrow> pf_flags \<Rightarrow> string \<Rightarrow> arg \<Rightarrow> u8 list \<times> string" where
  "conv_ptr width prec fl f a =
     (if hd_is CHR ''M'' f then
        (case a of
           AMem bs \<Rightarrow> (emit_hexdump (take (nat (if width \<noteq> 0 then width else 16)) bs), tl f)
         | _ \<Rightarrow> ([], tl f))
      else if hd_is CHR ''B'' f then (emit_bytesize (arg_u64 a), tl f)
      else
        (emit_num (arg_u64 a) 16 False (if width \<noteq> 0 then width else 18) prec
           (fl\<lparr>pf_alt := True, pf_zero := True\<rparr>), f))"

text \<open>One conversion, after its percent sign: the bytes, and the format and arguments left; no
  format is left when the string ends inside the conversion.\<close>

definition conversion :: "string \<Rightarrow> arg list \<Rightarrow> u8 list \<times> string option \<times> arg list" where
  "conversion f as =
     (case read_flags no_flags f of (fl, f) \<Rightarrow>
      case read_width fl f as of (fl, width, f, as) \<Rightarrow>
      case read_prec f as of (prec, f, as) \<Rightarrow>
      case read_len f of (len, f) \<Rightarrow>
      (case f of
         [] \<Rightarrow> ([], None, as)
       | spec # f \<Rightarrow>
           if spec = CHR ''c'' then
             (emit_str [word_of_int (arg_int (arg_hd as))] width (fl\<lparr>pf_zero := False\<rparr>), Some f, tl as)
           else if spec = CHR ''s'' then (conv_str width prec fl (arg_hd as), Some f, tl as)
           else if spec = CHR ''d'' \<or> spec = CHR ''i'' then
             (conv_signed len width prec fl (arg_hd as), Some f, tl as)
           else if spec \<in> {CHR ''u'', CHR ''x'', CHR ''X'', CHR ''o'', CHR ''b''} then
             (conv_unsigned spec len width prec fl (arg_hd as), Some f, tl as)
           else if spec = CHR ''p'' then
             (case conv_ptr width prec fl f (arg_hd as) of (out, f) \<Rightarrow> (out, Some f, tl as))
           else if spec = CHR ''%'' then ([asc CHR ''%''], Some f, as)
           else ([asc CHR ''%'', asc spec], Some f, as)))"

lemma read_flags_length: "read_flags fl f = (fl', f') \<Longrightarrow> length f' \<le> length f"
  by (induction fl f rule: read_flags.induct) (auto split: if_splits)

lemma read_dec_length: "read_dec n f = (n', f') \<Longrightarrow> length f' \<le> length f"
  by (induction n f rule: read_dec.induct) (auto simp: Let_def split: if_splits)

lemma read_width_length: "read_width fl f as = (fl', w, f', as') \<Longrightarrow> length f' \<le> length f"
  by (auto simp: read_width_def Let_def split: if_splits prod.splits dest: read_dec_length)

lemma read_prec_length: "read_prec f as = (p, f', as') \<Longrightarrow> length f' \<le> length f"
  by (auto simp: read_prec_def split: if_splits prod.splits dest!: read_dec_length)

lemma read_len_length: "read_len f = (l, f') \<Longrightarrow> length f' \<le> length f"
  by (auto simp: read_len_def split: if_splits)

lemma conv_ptr_length: "conv_ptr w p fl f a = (out, f') \<Longrightarrow> length f' \<le> length f"
  by (auto simp: conv_ptr_def split: if_splits arg.splits)

lemma conversion_length:
  assumes "conversion f as = (out, Some f', as')"
  shows "length f' \<le> length f"
proof -
  obtain fl g where g: "read_flags no_flags f = (fl, g)" by fastforce
  obtain fl' w h bs where h: "read_width fl g as = (fl', w, h, bs)" by (metis prod_cases4)
  obtain p i cs where i: "read_prec h bs = (p, i, cs)" by (metis prod_cases3)
  obtain l j where j: "read_len i = (l, j)" by fastforce
  note res = assms [unfolded conversion_def g h i j prod.case]
  obtain sp k where k: "j = sp # k" using res by (cases j) simp_all
  have "length f' \<le> length k"
  proof (cases "sp = CHR ''p''")
    case True
    obtain u v where v: "conv_ptr w p fl' k (arg_hd cs) = (u, v)" by fastforce
    with res k True have "f' = v" by simp
    with v show ?thesis using conv_ptr_length by simp
  next
    case False
    with res k show ?thesis by (simp split: if_splits)
  qed
  also have "\<dots> \<le> length j" using k by simp
  also have "\<dots> \<le> length i" by (rule read_len_length [OF j])
  also have "\<dots> \<le> length h" by (rule read_prec_length [OF i])
  also have "\<dots> \<le> length g" by (rule read_width_length [OF h])
  also have "\<dots> \<le> length f" by (rule read_flags_length [OF g])
  finally show ?thesis .
qed

function rk_vfctprintf :: "string \<Rightarrow> arg list \<Rightarrow> u8 list" where
  "rk_vfctprintf [] as = []"
| "rk_vfctprintf (c # f) as =
     (if c \<noteq> CHR ''%'' then asc c # rk_vfctprintf f as
      else (case conversion f as of
              (out, None, as) \<Rightarrow> out
            | (out, Some f, as) \<Rightarrow> out @ rk_vfctprintf f as))"
  by pat_completeness auto
termination by (relation "measure (length \<circ> fst)") (auto dest!: conversion_length [OF sym])

section \<open>Output into a buffer\<close>

text \<open>\<open>buf_putc\<close>: the position moves on; the byte is stored while it leaves room for the
  terminator.\<close>

definition buf_putc :: "nat \<Rightarrow> nat \<times> u8 list \<Rightarrow> u8 \<Rightarrow> nat \<times> u8 list" where
  "buf_putc sz b c = (case b of (pos, buf) \<Rightarrow> (pos + 1, if pos + 1 < sz then buf[pos := c] else buf))"

definition vsnprintf :: "u8 list \<Rightarrow> nat \<Rightarrow> string \<Rightarrow> arg list \<Rightarrow> nat \<times> u8 list" where
  "vsnprintf buf sz fmt as =
     (case foldl (buf_putc sz) (0, buf) (rk_vfctprintf fmt as) of
        (pos, buf) \<Rightarrow> (pos, if sz \<noteq> 0 then buf[(if pos < sz then pos else sz - 1) := 0] else buf))"

section \<open>What the writer leaves in the buffer\<close>

text \<open>\<open>filled\<close>: the output cut to what fits, the terminator, the old rest.\<close>

definition filled :: "nat \<Rightarrow> u8 list \<Rightarrow> u8 list \<Rightarrow> u8 list" where
  "filled sz out buf =
     (if sz = 0 then buf
      else take (sz - 1) out @ [0] @ drop (min (sz - 1) (length out) + 1) buf)"

lemma foldl_buf_putc:
  "pos \<le> length buf \<Longrightarrow> sz \<le> length buf \<Longrightarrow>
   foldl (buf_putc sz) (pos, buf) out
   = (pos + length out,
      take pos buf @ take (sz - 1 - pos) out @ drop (pos + min (sz - 1 - pos) (length out)) buf)"
proof (induction out arbitrary: pos buf)
  case (Cons c out)
  show ?case
  proof (cases "pos + 1 < sz")
    case True
    with Cons.prems have "pos < length buf" by simp
    then have "take (Suc pos) (buf[pos := c]) = take pos buf @ [c]"
      by (simp add: take_Suc_conv_app_nth)
    moreover have "sz - 1 - pos = Suc (sz - 1 - Suc pos)" using True by simp
    ultimately show ?thesis using Cons.IH [of "Suc pos" "buf[pos := c]"] Cons.prems True
      by (simp add: buf_putc_def)
  next
    case False
    have "foldl (buf_putc sz) (p, b) xs = (p + length xs, b)" if "sz \<le> Suc p" for p b xs
      using that by (induction xs arbitrary: p) (auto simp: buf_putc_def)
    note stop = this [of "pos + 1" buf out]
    have "buf_putc sz (pos, buf) c = (pos + 1, buf)" using False by (simp add: buf_putc_def)
    with stop False show ?thesis by simp
  qed
qed simp

lemma vsnprintf_filled:
  assumes "sz \<le> length buf"
  shows "vsnprintf buf sz fmt as
         = (length (rk_vfctprintf fmt as), filled sz (rk_vfctprintf fmt as) buf)"
proof -
  let ?out = "rk_vfctprintf fmt as"
  show ?thesis
  proof (cases "sz = 0")
    case True
    then show ?thesis using foldl_buf_putc [of 0 buf sz ?out] assms by (simp add: vsnprintf_def filled_def)
  next
    case False
    let ?n = "min (sz - 1) (length ?out)"
    have n: "(if length ?out < sz then length ?out else sz - 1) = ?n" using False by auto
    have "(take (sz - 1) ?out @ drop ?n buf)[?n := 0] = take (sz - 1) ?out @ (drop ?n buf)[0 := 0]"
      by (simp add: list_update_append min.commute)
    also have "(drop ?n buf)[0 := 0] = 0 # drop (Suc ?n) buf"
      using assms False by (cases "drop ?n buf") (auto simp: drop_Suc tl_drop [symmetric])
    finally show ?thesis using foldl_buf_putc [of 0 buf sz ?out] assms False n
      by (simp add: vsnprintf_def filled_def)
  qed
qed

text \<open>\<open>snprintf(buf + len, n > len ? n - len : 0, ...)\<close>, with \<open>len\<close> moved on.\<close>

definition snprintf_at :: "nat \<Rightarrow> u8 list \<Rightarrow> nat \<times> u8 list \<Rightarrow> nat \<times> u8 list" where
  "snprintf_at n out st =
     (case st of (len, buf) \<Rightarrow>
        (len + length out, take len buf @ filled (if len < n then n - len else 0) out (drop len buf)))"

lemma snprintf_appends:
  assumes "length buf = n"
  shows "snprintf_at n out2 (snprintf_at n out1 (0, buf)) = snprintf_at n (out1 @ out2) (0, buf)"
proof (cases "length out1 < n")
  case False
  then show ?thesis using assms by (auto simp: snprintf_at_def filled_def)
next
  case True
  with assms show ?thesis
    by (cases "length out2 < n - length out1") (auto simp: snprintf_at_def filled_def min_def add.commute)
qed

section \<open>Numbers\<close>

definition dec_nat :: "nat \<Rightarrow> u8 list" where
  "dec_nat v = (if v = 0 then [48] else rev (low_digits digits_lo 10 v))"

definition dec :: "int \<Rightarrow> u8 list" where
  "dec n = (if n < 0 then 45 # dec_nat (nat (- n)) else dec_nat (nat n))"

lemma nat_neg: "n < 0 \<Longrightarrow> Suc (nat (- n - 1)) = nat (- n)"
  by simp

lemma print_number: "- (2 ^ 63) \<le> n \<Longrightarrow> n < 2 ^ 63 \<Longrightarrow> rk_vfctprintf ''%lld'' [AInt n] = dec n"
  by (simp add: conversion_def read_width_def read_prec_def read_len_def hd_is_def arg_hd_def
      conv_signed_def arg_s64_def emit_num_def num_prefix_def emit_pad_def no_flags_def dec_def
      dec_nat_def asc_def Let_def nat_neg)

lemma digit_byte: "d < 10 \<Longrightarrow> asc (digits_lo ! d) = word_of_nat (48 + d)"
proof -
  have "\<forall>d \<in> set [0..<10]. asc (digits_lo ! d) = word_of_nat (48 + d)"
    by (simp add: digits_lo_def asc_def upt_rec)
  then show "d < 10 \<Longrightarrow> asc (digits_lo ! d) = word_of_nat (48 + d)" by simp
qed

lemma digit_read: "d < 10 \<Longrightarrow> digit_of (word_of_nat (48 + d)) 10 = int d"
proof -
  have "\<forall>d \<in> set [0..<10]. digit_of (word_of_nat (48 + d)) 10 = int d"
    by (simp add: digit_of_def upt_rec)
  then show "d < 10 \<Longrightarrow> digit_of (word_of_nat (48 + d)) 10 = int d" by simp
qed

lemma read_low_digits:
  "read_digits 0 10 (rev (low_digits digits_lo 10 v) @ s) = read_digits (word_of_nat v) 10 s"
proof (induction v arbitrary: s rule: less_induct)
  case (less v)
  show ?case
  proof (cases "v = 0")
    case True
    then show ?thesis by (simp add: low_digits.simps)
  next
    case False
    let ?d = "v mod 10"
    have "read_digits 0 10 (rev (low_digits digits_lo 10 v) @ s)
        = read_digits (word_of_nat (v div 10)) 10 (word_of_nat (48 + ?d) # s)"
      using less.IH [of "v div 10" "word_of_nat (48 + ?d) # s"] False digit_byte [of ?d]
      by (subst low_digits.simps) simp
    also have "\<dots> = read_digits (word_of_nat (v div 10) * 10 + word_of_nat ?d) 10 s"
      using digit_read [of ?d] by simp
    also have "(word_of_nat (v div 10) * 10 + word_of_nat ?d :: u64) = word_of_nat v"
      by (metis div_mult_mod_eq of_nat_add of_nat_mult of_nat_numeral)
    finally show ?thesis .
  qed
qed

lemma read_dec_nat: "read_digits 0 10 (dec_nat v) = (word_of_nat v, [])"
  using read_low_digits [of v "[]"] by (auto simp: dec_nat_def digit_of_def)

lemma low_digits_bytes: "b \<in> set (low_digits digits_lo 10 v) \<Longrightarrow> 48 \<le> b \<and> b \<le> 57"
proof (induction v rule: less_induct)
  case (less v)
  have "\<forall>d \<in> set [0..<10]. 48 \<le> asc (digits_lo ! d) \<and> asc (digits_lo ! d) \<le> 57"
    by (simp add: digits_lo_def asc_def upt_rec)
  then have "48 \<le> asc (digits_lo ! (v mod 10)) \<and> asc (digits_lo ! (v mod 10)) \<le> 57" by simp
  moreover have "v \<noteq> 0" and "b = asc (digits_lo ! (v mod 10)) \<or> b \<in> set (low_digits digits_lo 10 (v div 10))"
    using less.prems low_digits.simps [of digits_lo 10 v] by (auto split: if_splits)
  ultimately show ?case using less.IH [of "v div 10"] by auto
qed

lemma dec_nat_bytes: "b \<in> set (dec_nat v) \<Longrightarrow> 48 \<le> b \<and> b \<le> 57"
  by (auto simp: dec_nat_def dest: low_digits_bytes split: if_splits)

lemma dec_nat_hd: "48 \<le> chr0 (dec_nat v) \<and> chr0 (dec_nat v) \<le> 57"
proof -
  have "dec_nat v \<noteq> []" by (auto simp: dec_nat_def low_digits.simps)
  then obtain b t where "dec_nat v = b # t" by (cases "dec_nat v") simp_all
  then show ?thesis using dec_nat_bytes [of b v] by simp
qed

lemma skip_blank_dec: "skip_blank (dec_nat v) = dec_nat v"
proof -
  have ne: "dec_nat v \<noteq> []" by (auto simp: dec_nat_def low_digits.simps)
  then obtain b t where b: "dec_nat v = b # t" by (cases "dec_nat v") simp_all
  then have "48 \<le> b" using dec_nat_hd [of v] by simp
  then have "b \<noteq> 32" "b \<noteq> 9" by (auto simp: word_le_nat_alt)
  with b show ?thesis by simp
qed

lemma strtou_dec: "rk_strtou64 (dec_nat v) 10 = (word_of_nat v, [])"
  by (simp add: rk_strtou64_def skip_blank_dec detect_base_def read_dec_nat)

lemma sint_u64: "- (2 ^ 63) \<le> k \<Longrightarrow> k < 2 ^ 63 \<Longrightarrow> sint (word_of_int k :: u64) = k"
  by (simp add: sint_sbintrunc' signed_take_bit_int_eq_self)

text \<open>
  \<open>printed_number_reads_back\<close>: \<open>rk_strtos64\<close> in base 10 reads the very number that the conversion
  \<open>%lld\<close> printed, from the least to the greatest 64-bit value.
\<close>

theorem printed_number_reads_back:
  assumes "- (2 ^ 63) \<le> n" "n < 2 ^ 63"
  shows "rk_strtos64 (rk_vfctprintf ''%lld'' [AInt n]) 10 = (n, [])"
proof (cases "n < 0")
  case True
  have w: "word_of_nat (nat (- n)) = (word_of_int (- n) :: u64)" using True by simp
  have "s64_wrap (- sint (word_of_int (- n) :: u64)) = n"
  proof (cases "n = - (2 ^ 63)")
    case True
    then show ?thesis by (simp add: s64_wrap_def)
  next
    case False
    with assms have "sint (word_of_int (- n) :: u64) = - n"
      using True by (intro sint_u64) simp_all
    with assms False show ?thesis by simp
  qed
  then show ?thesis unfolding print_number [OF assms]
    by (simp add: rk_strtos64_def dec_def True strtou_dec w Let_def)
next
  case False
  have "chr0 (dec_nat (nat n)) \<noteq> 45" "chr0 (dec_nat (nat n)) \<noteq> 43"
    using dec_nat_hd [of "nat n"] by (auto simp: word_le_nat_alt)
  moreover have "sint (word_of_nat (nat n) :: u64) = n" using False assms sint_u64 [of n] by simp
  ultimately show ?thesis unfolding print_number [OF assms]
    by (simp add: rk_strtos64_def dec_def False strtou_dec skip_blank_dec Let_def)
qed

end
