(* ===== verification/RK_SheValue.thy ===== *)
theory RK_SheValue
  imports RK_Encode RK_Trig RK_Printf
begin

text \<open>
  SHE values and heap objects (\<open>include/rk/she.h\<close>, \<open>kernel/she/value.c\<close>): the memory budget,
  interned text, lists, open-addressing maps, functions, ranges, chunks of byte code, printing and
  comparing.

  An object is named by its position in the list of the objects its machine has made; the list
  only grows until all of it is freed. \<open>None\<close> is the null pointer. Reading the wrong member of
  the union, following a null pointer, or going past an array is a \<open>Fault\<close>; a loop or a
  recursion that never ends is a \<open>Hang\<close>. Capacities and lengths are naturals: \<open>kmalloc\<close> gives out
  no block above \<open>2^30\<close> bytes, which bounds every table far below \<open>2^32\<close> entries.
\<close>

section \<open>Values\<close>

datatype she_valtype =
    SHE_NOTHING | SHE_BOOL | SHE_NUM | SHE_REAL | SHE_TEXT | SHE_LIST | SHE_MAP | SHE_RANGE
  | SHE_FUNCTION | SHE_NATIVE | SHE_CAP | SHE_TENSOR

text \<open>The tagged union. The types that carry an object share one constructor.\<close>

datatype she_tag = Text | List | Map | Range | Function | Native | Tensor

datatype she_value =
  VNothing | VBool bool | VNum int | VReal int | VCap int | VObj she_tag "nat option"

fun tag_type :: "she_tag \<Rightarrow> she_valtype" where
  "tag_type Text = SHE_TEXT" | "tag_type List = SHE_LIST" | "tag_type Map = SHE_MAP"
| "tag_type Range = SHE_RANGE" | "tag_type Function = SHE_FUNCTION" | "tag_type Native = SHE_NATIVE"
| "tag_type Tensor = SHE_TENSOR"

fun v_type :: "she_value \<Rightarrow> she_valtype" where
  "v_type VNothing = SHE_NOTHING" | "v_type (VBool b) = SHE_BOOL" | "v_type (VNum n) = SHE_NUM"
| "v_type (VReal r) = SHE_REAL" | "v_type (VCap c) = SHE_CAP" | "v_type (VObj t p) = tag_type t"

fun she_typename :: "she_valtype \<Rightarrow> string" where
  "she_typename SHE_NOTHING = ''nothing''" | "she_typename SHE_BOOL = ''yes/no''"
| "she_typename SHE_NUM = ''number''" | "she_typename SHE_REAL = ''real''"
| "she_typename SHE_TEXT = ''text''" | "she_typename SHE_LIST = ''list''"
| "she_typename SHE_MAP = ''map''" | "she_typename SHE_RANGE = ''range''"
| "she_typename SHE_FUNCTION = ''function''" | "she_typename SHE_NATIVE = ''builtin''"
| "she_typename SHE_CAP = ''capability''" | "she_typename SHE_TENSOR = ''tensor''"

datatype stop = Fault | Hang

text \<open>Reading a member of the union. A value that carries nothing is all zero; a number and a
  real are both a 64-bit integer.\<close>

definition as_o :: "she_value \<Rightarrow> stop + nat option" where
  "as_o v = (case v of VObj t p \<Rightarrow> Inr p | VNothing \<Rightarrow> Inr None | _ \<Rightarrow> Inl Fault)"

definition as_n :: "she_value \<Rightarrow> stop + int" where
  "as_n v = (case v of VNum n \<Rightarrow> Inr n | VReal r \<Rightarrow> Inr r | VNothing \<Rightarrow> Inr 0 | _ \<Rightarrow> Inl Fault)"

section \<open>Objects and the machine's memory\<close>

text \<open>The functions of the standard library that script code can call
  (\<open>kernel/she/stdlib.c\<close>).\<close>

datatype she_builtin =
    NatLength | NatUpper | NatLower | NatText | NatNumber | NatContains | NatPush | NatSum | NatMap
  | NatFilter | NatAbs | NatMin | NatMax | NatRandom | NatNow | NatUptime | NatSleep | NatReadFile
  | NatWriteFile | NatGraphRead | NatGraphDigest | NatSnapshot | NatRemember | NatRecall | NatSeal
  | NatClockAngles | NatSysinfo | NatModels

record she_native =
  nt_name :: "u8 list"
  nt_fn :: she_builtin
  nt_min :: nat
  nt_max :: nat
  nt_need :: u32

record she_chunk =
  ch_code :: "u8 list"
  ch_len :: nat
  ch_lines :: "nat list"
  ch_consts :: "she_value list"
  ch_nconsts :: nat

record she_function =
  fn_chunk :: she_chunk
  fn_arity :: nat
  fn_ncaptures :: nat
  fn_name :: "u8 list"
  fn_captures :: "she_value list"

record she_mapent =
  me_key :: "nat option"
  me_val :: she_value
  me_used :: bool
  me_tomb :: bool

datatype she_payload =
    PText u64 "u8 list"
  | PList "she_value list"
  | PMap "she_mapent list"
  | PRange int int int
  | PFunction she_function
  | PNative she_native

record she_obj =
  ob_refcount :: u32
  ob_len :: nat
  ob_pay :: she_payload

fun pay_tag :: "she_payload \<Rightarrow> she_tag" where
  "pay_tag (PText h s) = Text" | "pay_tag (PList vs) = List" | "pay_tag (PMap es) = Map"
| "pay_tag (PRange a b c) = Range" | "pay_tag (PFunction f) = Function"
| "pay_tag (PNative n) = Native"

type_synonym she_heap = "she_obj list"

text \<open>One constructor for each call of \<open>she_error\<close>, with the arguments of its message.\<close>

datatype she_diag =
    DNoMem u64 u64 | DDeny u32 "u8 list" | DStackOverflow
  | DDivZero int | DModZero int | DDivZeroReal | DNotArith she_valtype | DNotReal
  | DNotCompared she_valtype she_valtype | DArity "u8 list" nat nat | DNested
  | DNativeArity "u8 list" nat nat nat | DNotCallable she_valtype | DNoName "u8 list"
  | DNotCreated "u8 list" | DIndexType she_valtype | DIndexRange int nat | DNotIndexed she_valtype
  | DNotStored she_valtype | DNotNegated she_valtype | DRangeEnds | DNotLooped she_valtype
  | DUnknownOp u8 | DNeeds string she_valtype | DNeedsText string | DFailed string "u8 list" int
  | DSyntax nat string "u8 list"

text \<open>What the standard library asks of the rest of the kernel, and what it may be answered.\<close>

datatype she_request =
    QRandom | QUnixTime | QUptime | QSleep int | QReadFile "u8 list" | QWriteFile "u8 list" "u8 list"
  | QGraph "u8 list" | QDigest | QSnapshot | QPut "u8 list" "u8 list" | QGet "u8 list"
  | QSeal "u8 list" int | QAngles | QSystem | QModels

datatype she_answer =
    AError int | ANum int | ABytes "u8 list" | ANums "u8 list" "int list" | ANames "u8 list list" "int list"

record she_frame =
  fr_closure :: nat
  fr_ip :: int
  fr_slots :: nat

text \<open>
  The machine. \<open>vm_stack\<close> is the array of \<open>SHE_STACK_MAX\<close> values, \<open>vm_sp\<close> the index of the first
  free one; \<open>vm_frames\<close> lists the frames in use, innermost first. \<open>vm_kz n\<close> says whether the heap
  has room for the \<open>n\<close>-th allocation, \<open>vm_in\<close> holds the lines that will be typed, \<open>vm_out\<close> what
  was written. \<open>vm_log\<close> lists the requests made to the rest of the kernel, the last one first, and
  \<open>vm_world\<close> answers a request, which may depend on all the earlier ones.
\<close>

record she_vm =
  vm_stack :: "she_value list"
  vm_sp :: nat
  vm_frames :: "she_frame list"
  vm_globals :: "nat option"
  vm_heap :: she_heap
  vm_allow :: u32
  vm_gas :: u64
  vm_gas_limit :: u64
  vm_mem_used :: u64
  vm_mem_limit :: u64
  vm_error :: "she_diag option"
  vm_error_line :: nat
  vm_failed :: bool
  vm_incomplete :: bool
  vm_out :: "u8 list"
  vm_in :: "u8 list list"
  vm_kz :: "nat \<Rightarrow> bool"
  vm_allocs :: nat
  vm_log :: "she_request list"
  vm_world :: "she_request list \<Rightarrow> she_answer"

definition SHE_STACK_MAX :: nat where "SHE_STACK_MAX = 256"
definition SHE_FRAMES_MAX :: nat where "SHE_FRAMES_MAX = 64"

definition she_error :: "she_diag \<Rightarrow> she_vm \<Rightarrow> she_vm" where
  "she_error d vm = vm\<lparr>vm_error := Some d, vm_failed := True\<rparr>"

definition obj_at :: "she_heap \<Rightarrow> nat option \<Rightarrow> she_obj option" where
  "obj_at h p = (case p of None \<Rightarrow> None | Some i \<Rightarrow> if i < length h then Some (h ! i) else None)"

definition set_pay :: "nat \<Rightarrow> nat \<Rightarrow> she_payload \<Rightarrow> she_vm \<Rightarrow> she_vm" where
  "set_pay i len pay vm = vm\<lparr>vm_heap := (vm_heap vm)[i := (vm_heap vm ! i)\<lparr>ob_len := len, ob_pay := pay\<rparr>]\<rparr>"

section \<open>The budget\<close>

definition kzalloc_room :: "nat \<Rightarrow> she_vm \<Rightarrow> bool" where
  "kzalloc_room n vm \<longleftrightarrow> 0 < n \<and> n + 32 \<le> 2 ^ 30 \<and> vm_kz vm (vm_allocs vm)"

definition vm_alloc :: "nat \<Rightarrow> she_vm \<Rightarrow> bool \<times> she_vm" where
  "vm_alloc n vm =
     (if vm_mem_limit vm < vm_mem_used vm + of_nat n then
        (False, she_error (DNoMem (vm_mem_limit vm) (vm_mem_used vm)) vm)
      else if kzalloc_room n vm then
        (True, vm\<lparr>vm_mem_used := vm_mem_used vm + of_nat n, vm_allocs := vm_allocs vm + 1\<rparr>)
      else (False, vm\<lparr>vm_allocs := vm_allocs vm + 1\<rparr>))"

definition vm_free :: "nat \<Rightarrow> she_vm \<Rightarrow> she_vm" where
  "vm_free n vm =
     vm\<lparr>vm_mem_used := (if of_nat n < vm_mem_used vm then vm_mem_used vm - of_nat n else 0)\<rparr>"

definition obj_new :: "she_payload \<Rightarrow> nat \<Rightarrow> she_vm \<Rightarrow> nat option \<times> she_vm" where
  "obj_new pay bytes vm =
     (case vm_alloc bytes vm of
        (False, vm) \<Rightarrow> (None, vm)
      | (True, vm) \<Rightarrow>
          (Some (length (vm_heap vm)),
           vm\<lparr>vm_heap := vm_heap vm @ [\<lparr>ob_refcount = 1, ob_len = 0, ob_pay = pay\<rparr>]\<rparr>))"

section \<open>Text\<close>

definition is_text :: "u64 \<Rightarrow> u8 list \<Rightarrow> she_obj \<Rightarrow> bool" where
  "is_text hash s o' =
     (case ob_pay o' of PText h d \<Rightarrow> h = hash \<and> ob_len o' = length s \<and> d = s | _ \<Rightarrow> False)"

text \<open>The objects are linked at the front, so the search meets the newest first.\<close>

definition find_text :: "she_heap \<Rightarrow> u64 \<Rightarrow> u8 list \<Rightarrow> nat option" where
  "find_text h hash s = find (\<lambda>i. is_text hash s (h ! i)) (rev [0..<length h])"

definition she_string_new :: "u8 list \<Rightarrow> she_vm \<Rightarrow> nat option \<times> she_vm" where
  "she_string_new s vm =
     (let hash = rk_fnv1a s in
      case find_text (vm_heap vm) hash s of
        Some i \<Rightarrow>
          (Some i, vm\<lparr>vm_heap := (vm_heap vm)[i := (vm_heap vm ! i)
                      \<lparr>ob_refcount := ob_refcount (vm_heap vm ! i) + 1\<rparr>]\<rparr>)
      | None \<Rightarrow>
          (case obj_new (PText hash s) (48 + length s + 1) vm of
             (None, vm) \<Rightarrow> (None, vm)
           | (Some i, vm) \<Rightarrow> (Some i, set_pay i (length s) (PText hash s) vm)))"

text \<open>The characters as a C string: they may contain the terminator.\<close>

definition she_string_chars :: "she_heap \<Rightarrow> nat option \<Rightarrow> u8 list" where
  "she_string_chars h p =
     (case obj_at h p of
        Some o' \<Rightarrow> (case ob_pay o' of PText hash s \<Rightarrow> s | _ \<Rightarrow> [])
      | None \<Rightarrow> [])"

definition she_text :: "u8 list \<Rightarrow> she_vm \<Rightarrow> she_value \<times> she_vm" where
  "she_text s vm =
     (case she_string_new (take (strlen s) s) vm of
        (Some i, vm) \<Rightarrow> (VObj Text (Some i), vm)
      | (None, vm) \<Rightarrow> (VNothing, vm))"

section \<open>Lists\<close>

definition SHE_VALUE_SIZE :: nat where "SHE_VALUE_SIZE = 16"

definition she_list_new :: "nat \<Rightarrow> she_vm \<Rightarrow> nat option \<times> she_vm" where
  "she_list_new capacity vm =
     (case obj_new (PList []) 56 vm of
        (None, vm) \<Rightarrow> (None, vm)
      | (Some i, vm) \<Rightarrow>
          if capacity = 0 then (Some i, vm)
          else (case vm_alloc (capacity * SHE_VALUE_SIZE) vm of
                  (False, vm) \<Rightarrow> (Some i, vm)
                | (True, vm) \<Rightarrow> (Some i, set_pay i 0 (PList (replicate capacity VNothing)) vm)))"

definition list_of :: "she_heap \<Rightarrow> nat option \<Rightarrow> (nat \<times> nat \<times> she_value list) option" where
  "list_of h p =
     (case (p, obj_at h p) of
        (Some i, Some o') \<Rightarrow> (case ob_pay o' of PList items \<Rightarrow> Some (i, ob_len o', items) | _ \<Rightarrow> None)
      | _ \<Rightarrow> None)"

definition she_list_push :: "nat option \<Rightarrow> she_value \<Rightarrow> she_vm \<Rightarrow> unit result \<times> she_vm" where
  "she_list_push p v vm =
     (case list_of (vm_heap vm) p of
        None \<Rightarrow> (Inl EINVAL, vm)
      | Some (i, len, items) \<Rightarrow>
          if length items \<le> len then
            (let cap = (if items \<noteq> [] then length items * 2 else 8) in
             case vm_alloc (cap * SHE_VALUE_SIZE) vm of
               (False, vm) \<Rightarrow> (Inl ENOMEM, vm)
             | (True, vm) \<Rightarrow>
                 let vm = (if items \<noteq> [] then vm_free (length items * SHE_VALUE_SIZE) vm else vm);
                     fresh = take len items @ replicate (cap - len) VNothing
                 in (Inr (), set_pay i (len + 1) (PList (fresh[len := v])) vm))
          else (Inr (), set_pay i (len + 1) (PList (items[len := v])) vm))"

definition she_list_get :: "she_heap \<Rightarrow> nat option \<Rightarrow> nat \<Rightarrow> she_value" where
  "she_list_get h p k =
     (case list_of h p of
        None \<Rightarrow> VNothing
      | Some (i, len, items) \<Rightarrow> if len \<le> k then VNothing else items ! k)"

definition she_list_set :: "nat option \<Rightarrow> nat \<Rightarrow> she_value \<Rightarrow> she_vm \<Rightarrow> unit result \<times> she_vm" where
  "she_list_set p k v vm =
     (case list_of (vm_heap vm) p of
        None \<Rightarrow> (Inl ERANGE, vm)
      | Some (i, len, items) \<Rightarrow>
          if len \<le> k then (Inl ERANGE, vm) else (Inr (), set_pay i len (PList (items[k := v])) vm))"

section \<open>Maps\<close>

definition SHE_MAPENT_SIZE :: nat where "SHE_MAPENT_SIZE = 32"

definition no_ent :: she_mapent where
  "no_ent = \<lparr>me_key = None, me_val = VNothing, me_used = False, me_tomb = False\<rparr>"

text \<open>
  The probe loop from slot \<open>idx\<close>, with \<open>k\<close> slots not looked at yet. Once every slot has been seen
  without a stop the loop sees the same slots again, for ever: the last equation.
\<close>

fun probe :: "she_mapent list \<Rightarrow> nat \<Rightarrow> nat \<Rightarrow> nat option \<Rightarrow> nat \<Rightarrow> nat option" where
  "probe es key idx tomb 0 = None"
| "probe es key idx tomb (Suc k) =
     (let e = es ! idx; nxt = (idx + 1) mod length es in
      if \<not> me_used e then
        (if \<not> me_tomb e then Some (case tomb of Some t \<Rightarrow> t | None \<Rightarrow> idx)
         else probe es key nxt (case tomb of Some t \<Rightarrow> Some t | None \<Rightarrow> Some idx) k)
      else if me_key e = Some key then Some idx
      else probe es key nxt tomb k)"

definition text_hash :: "she_heap \<Rightarrow> nat \<Rightarrow> u64" where
  "text_hash h i = (case ob_pay (h ! i) of PText hash s \<Rightarrow> hash | _ \<Rightarrow> 0)"

text \<open>The callers never pass an empty table.\<close>

definition map_find :: "she_heap \<Rightarrow> she_mapent list \<Rightarrow> nat \<Rightarrow> nat option" where
  "map_find h es key =
     (if es = [] then None
      else probe es key (unat (text_hash h key mod of_nat (length es))) None (length es))"

definition she_map_new :: "she_vm \<Rightarrow> nat option \<times> she_vm" where
  "she_map_new vm = obj_new (PMap []) 56 vm"

text \<open>The rehash: every used entry goes to its place in the fresh table.\<close>

fun rehash :: "she_heap \<Rightarrow> she_mapent list \<Rightarrow> she_mapent list \<Rightarrow> nat \<Rightarrow> (she_mapent list \<times> nat) option" where
  "rehash h fresh [] live = Some (fresh, live)"
| "rehash h fresh (e # es) live =
     (if \<not> me_used e then rehash h fresh es live
      else (case map_find h fresh (the (me_key e)) of
              None \<Rightarrow> None
            | Some d \<Rightarrow> rehash h (fresh[d := e\<lparr>me_tomb := False\<rparr>]) es (live + 1)))"

definition map_of_obj :: "she_heap \<Rightarrow> nat option \<Rightarrow> (nat \<times> nat \<times> she_mapent list) option" where
  "map_of_obj h p =
     (case (p, obj_at h p) of
        (Some i, Some o') \<Rightarrow> (case ob_pay o' of PMap es \<Rightarrow> Some (i, ob_len o', es) | _ \<Rightarrow> None)
      | _ \<Rightarrow> None)"

definition text_of :: "she_heap \<Rightarrow> nat option \<Rightarrow> nat option" where
  "text_of h p =
     (case (p, obj_at h p) of
        (Some i, Some o') \<Rightarrow> (case ob_pay o' of PText hash s \<Rightarrow> Some i | _ \<Rightarrow> None)
      | _ \<Rightarrow> None)"

definition map_grow :: "nat \<Rightarrow> she_mapent list \<Rightarrow> she_vm \<Rightarrow> stop + unit result \<times> she_vm" where
  "map_grow i es vm =
     (let cap = (if es \<noteq> [] then length es * 2 else 16) in
      case vm_alloc (cap * SHE_MAPENT_SIZE) vm of
        (False, vm) \<Rightarrow> Inr (Inl ENOMEM, vm)
      | (True, vm) \<Rightarrow>
          (case rehash (vm_heap vm) (replicate cap no_ent) es 0 of
             None \<Rightarrow> Inl Hang
           | Some (fresh, live) \<Rightarrow>
               let vm = (if es \<noteq> [] then vm_free (length es * SHE_MAPENT_SIZE) vm else vm)
               in Inr (Inr (), set_pay i live (PMap fresh) vm)))"

text \<open>The store into a table that has room.\<close>

definition map_put :: "nat \<Rightarrow> nat \<Rightarrow> she_value \<Rightarrow> she_vm \<Rightarrow> stop + unit result \<times> she_vm" where
  "map_put i key v vm =
     (case map_of_obj (vm_heap vm) (Some i) of
        None \<Rightarrow> Inl Fault
      | Some (_, len, es) \<Rightarrow>
          (case map_find (vm_heap vm) es key of
             None \<Rightarrow> Inl Hang
           | Some d \<Rightarrow>
               let len = (if me_used (es ! d) then len else len + 1)
               in Inr (Inr (), set_pay i len
                    (PMap (es[d := \<lparr>me_key = Some key, me_val = v, me_used = True, me_tomb = False\<rparr>])) vm)))"

definition she_map_set :: "nat option \<Rightarrow> nat option \<Rightarrow> she_value \<Rightarrow> she_vm \<Rightarrow> stop + unit result \<times> she_vm" where
  "she_map_set p kp v vm =
     (case (map_of_obj (vm_heap vm) p, text_of (vm_heap vm) kp) of
        (Some (i, len, es), Some key) \<Rightarrow>
          if length es * 3 div 4 < len + 1 then
            (case map_grow i es vm of
               Inr (Inr (), vm) \<Rightarrow> map_put i key v vm
             | r \<Rightarrow> r)
          else map_put i key v vm
      | _ \<Rightarrow> Inr (Inl EINVAL, vm))"

definition she_map_get :: "she_heap \<Rightarrow> nat option \<Rightarrow> nat option \<Rightarrow> stop + she_value option" where
  "she_map_get h p kp =
     (case (map_of_obj h p, text_of h kp) of
        (Some (i, len, es), Some key) \<Rightarrow>
          if es = [] then Inr None
          else (case map_find h es key of
                  None \<Rightarrow> Inl Hang
                | Some d \<Rightarrow> Inr (if me_used (es ! d) then Some (me_val (es ! d)) else None))
      | _ \<Rightarrow> Inr None)"

definition she_map_del :: "nat option \<Rightarrow> nat \<Rightarrow> she_vm \<Rightarrow> stop + bool \<times> she_vm" where
  "she_map_del p key vm =
     (case map_of_obj (vm_heap vm) p of
        None \<Rightarrow> Inr (False, vm)
      | Some (i, len, es) \<Rightarrow>
          if es = [] then Inr (False, vm)
          else (case map_find (vm_heap vm) es key of
                  None \<Rightarrow> Inl Hang
                | Some d \<Rightarrow>
                    if \<not> me_used (es ! d) then Inr (False, vm)
                    else Inr (True, set_pay i (len - 1)
                           (PMap (es[d := (es ! d)\<lparr>me_used := False, me_tomb := True\<rparr>])) vm)))"

text \<open>The next used entry from a cursor on: the entry and the cursor after it.\<close>

function map_next :: "she_mapent list \<Rightarrow> nat \<Rightarrow> (she_mapent \<times> nat) option" where
  "map_next es cursor =
     (if cursor < length es then
        (if me_used (es ! cursor) then Some (es ! cursor, cursor + 1) else map_next es (cursor + 1))
      else None)"
  by pat_completeness auto
termination by (relation "measure (\<lambda>(es, c). length es - c)") auto

declare map_next.simps [simp del]

definition she_map_next :: "she_heap \<Rightarrow> nat option \<Rightarrow> nat \<Rightarrow> (nat option \<times> she_value \<times> nat) option" where
  "she_map_next h p cursor =
     (case map_of_obj h p of
        None \<Rightarrow> None
      | Some (i, len, es) \<Rightarrow>
          map_option (\<lambda>(e, c). (me_key e, me_val e, c)) (map_next es cursor))"

section \<open>Functions, builtins, ranges\<close>

definition no_chunk :: she_chunk where
  "no_chunk = \<lparr>ch_code = [], ch_len = 0, ch_lines = [], ch_consts = [], ch_nconsts = 0\<rparr>"

definition she_function_new :: "u8 list option \<Rightarrow> nat \<Rightarrow> she_vm \<Rightarrow> nat option \<times> she_vm" where
  "she_function_new name arity vm =
     (let nm = (case name of Some s \<Rightarrow> s | None \<Rightarrow> map asc ''anonymous'')
      in obj_new (PFunction \<lparr>fn_chunk = no_chunk, fn_arity = arity, fn_ncaptures = 0,
                             fn_name = take 31 (take (strlen nm) nm),
                             fn_captures = replicate 8 VNothing\<rparr>) 248 vm)"

definition fun_of :: "she_heap \<Rightarrow> nat option \<Rightarrow> (nat \<times> she_function) option" where
  "fun_of h p =
     (case (p, obj_at h p) of
        (Some i, Some o') \<Rightarrow> (case ob_pay o' of PFunction f \<Rightarrow> Some (i, f) | _ \<Rightarrow> None)
      | _ \<Rightarrow> None)"

definition she_function_chunk :: "she_heap \<Rightarrow> nat option \<Rightarrow> she_chunk option" where
  "she_function_chunk h p = map_option (\<lambda>(i, f). fn_chunk f) (fun_of h p)"

definition she_function_arity :: "she_heap \<Rightarrow> nat option \<Rightarrow> nat" where
  "she_function_arity h p = (case fun_of h p of Some (i, f) \<Rightarrow> fn_arity f | None \<Rightarrow> 0)"

definition she_function_name :: "she_heap \<Rightarrow> nat option \<Rightarrow> u8 list" where
  "she_function_name h p = (case fun_of h p of Some (i, f) \<Rightarrow> fn_name f | None \<Rightarrow> map asc ''?'')"

text \<open>Storing through the pointers that \<open>she_function_chunk\<close> and the object give out.\<close>

definition set_function :: "nat \<Rightarrow> she_function \<Rightarrow> she_vm \<Rightarrow> she_vm" where
  "set_function i f vm = set_pay i (ob_len (vm_heap vm ! i)) (PFunction f) vm"

definition she_function_set_arity :: "nat option \<Rightarrow> nat \<Rightarrow> she_vm \<Rightarrow> she_vm" where
  "she_function_set_arity p arity vm =
     (case fun_of (vm_heap vm) p of
        Some (i, f) \<Rightarrow> set_function i (f\<lparr>fn_arity := arity\<rparr>) vm
      | None \<Rightarrow> vm)"

definition she_function_capture :: "nat option \<Rightarrow> nat \<Rightarrow> she_value \<Rightarrow> she_vm \<Rightarrow> unit result \<times> she_vm" where
  "she_function_capture p slot v vm =
     (case fun_of (vm_heap vm) p of
        None \<Rightarrow> (Inl ERANGE, vm)
      | Some (i, f) \<Rightarrow>
          if 8 \<le> slot then (Inl ERANGE, vm)
          else (Inr (), set_function i (f\<lparr>fn_captures := (fn_captures f)[slot := v],
                  fn_ncaptures := (if fn_ncaptures f < slot + 1 then slot + 1 else fn_ncaptures f)\<rparr>) vm))"

definition she_function_captured :: "she_heap \<Rightarrow> nat option \<Rightarrow> nat \<Rightarrow> she_value" where
  "she_function_captured h p slot =
     (case fun_of h p of
        None \<Rightarrow> VNothing
      | Some (i, f) \<Rightarrow> if 8 \<le> slot then VNothing else fn_captures f ! slot)"

definition she_native_new :: "she_native \<Rightarrow> she_vm \<Rightarrow> nat option \<times> she_vm" where
  "she_native_new def vm = obj_new (PNative def) 48 vm"

definition she_native_def :: "she_heap \<Rightarrow> nat option \<Rightarrow> she_native option" where
  "she_native_def h p =
     (case obj_at h p of
        Some o' \<Rightarrow> (case ob_pay o' of PNative n \<Rightarrow> Some n | _ \<Rightarrow> None)
      | None \<Rightarrow> None)"

definition she_range_new :: "int \<Rightarrow> int \<Rightarrow> int \<Rightarrow> she_vm \<Rightarrow> nat option \<times> she_vm" where
  "she_range_new start stop step vm =
     (let step = (if step \<noteq> 0 then step else 1);
          span = s64_wrap (stop - start);
          len = (if 0 < span then c_div (s64_wrap (span + step - 1)) step else 0)
      in case obj_new (PRange start stop step) 64 vm of
           (None, vm) \<Rightarrow> (None, vm)
         | (Some i, vm) \<Rightarrow> (Some i, set_pay i (nat (len mod 2 ^ 32)) (PRange start stop step) vm))"

definition range_of :: "she_heap \<Rightarrow> nat option \<Rightarrow> (nat \<times> int \<times> int \<times> int) option" where
  "range_of h p =
     (case obj_at h p of
        Some o' \<Rightarrow> (case ob_pay o' of PRange a b c \<Rightarrow> Some (ob_len o', a, b, c) | _ \<Rightarrow> None)
      | None \<Rightarrow> None)"

definition she_range_at :: "int \<Rightarrow> int \<Rightarrow> nat \<Rightarrow> int" where
  "she_range_at start step i = s64_wrap (start + int i * step)"

section \<open>Chunks\<close>

text \<open>Both arrays are asked for before either answer is looked at.\<close>

definition she_chunk_write :: "she_chunk \<Rightarrow> u8 \<Rightarrow> nat \<Rightarrow> she_vm \<Rightarrow> unit result \<times> she_chunk \<times> she_vm" where
  "she_chunk_write c byte line vm =
     (if length (ch_code c) \<le> ch_len c then
        (let old = length (ch_code c); cap = (if old \<noteq> 0 then old * 2 else 64) in
         case vm_alloc cap vm of (code_ok, vm) \<Rightarrow>
         case vm_alloc (cap * 4) vm of (lines_ok, vm) \<Rightarrow>
           if \<not> code_ok \<or> \<not> lines_ok then (Inl ENOMEM, c, vm)
           else
             (let vm = (if old \<noteq> 0 then vm_free (old * 4) (vm_free old vm) else vm);
                  code = take (ch_len c) (ch_code c) @ replicate (cap - ch_len c) 0;
                  lines = take (ch_len c) (ch_lines c) @ replicate (cap - ch_len c) 0
              in (Inr (), c\<lparr>ch_code := code[ch_len c := byte], ch_lines := lines[ch_len c := line],
                            ch_len := ch_len c + 1\<rparr>, vm)))
      else (Inr (), c\<lparr>ch_code := (ch_code c)[ch_len c := byte],
                      ch_lines := (ch_lines c)[ch_len c := line], ch_len := ch_len c + 1\<rparr>, vm))"

definition same_literal :: "she_value \<Rightarrow> she_value \<Rightarrow> bool" where
  "same_literal a b =
     (case (a, b) of
        (VNum x, VNum y) \<Rightarrow> x = y
      | (VObj Text x, VObj Text y) \<Rightarrow> x = y
      | _ \<Rightarrow> False)"

definition she_chunk_constant :: "she_chunk \<Rightarrow> she_value \<Rightarrow> she_vm \<Rightarrow> nat option \<times> she_chunk \<times> she_vm" where
  "she_chunk_constant c v vm =
     (case find (\<lambda>i. same_literal (ch_consts c ! i) v) [0..<ch_nconsts c] of
        Some i \<Rightarrow> (Some i, c, vm)
      | None \<Rightarrow>
          if length (ch_consts c) \<le> ch_nconsts c then
            (let old = length (ch_consts c); cap = (if old \<noteq> 0 then old * 2 else 16) in
             case vm_alloc (cap * SHE_VALUE_SIZE) vm of
               (False, vm) \<Rightarrow> (None, c, vm)
             | (True, vm) \<Rightarrow>
                 (let vm = (if old \<noteq> 0 then vm_free (old * SHE_VALUE_SIZE) vm else vm);
                      fresh = take (ch_nconsts c) (ch_consts c) @ replicate (cap - ch_nconsts c) VNothing
                  in (Some (ch_nconsts c),
                      c\<lparr>ch_consts := fresh[ch_nconsts c := v], ch_nconsts := ch_nconsts c + 1\<rparr>, vm)))
          else (Some (ch_nconsts c),
                c\<lparr>ch_consts := (ch_consts c)[ch_nconsts c := v], ch_nconsts := ch_nconsts c + 1\<rparr>, vm))"

section \<open>Printing\<close>

text \<open>Sequencing of steps that may stop.\<close>

definition bind_stop :: "stop + 'a \<Rightarrow> ('a \<Rightarrow> stop + 'b) \<Rightarrow> stop + 'b" where
  "bind_stop r f = (case r of Inl e \<Rightarrow> Inl e | Inr x \<Rightarrow> f x)"

lemma bind_stop_simps [simp]: "bind_stop (Inl e) f = Inl e" "bind_stop (Inr x) f = f x"
  by (simp_all add: bind_stop_def)

text \<open>
  Each \<open>snprintf\<close> continues where the last one stopped, so what is printed is the whole text
  (\<open>snprintf_appends\<close>); the buffer holds as much of it as fits.
\<close>

primrec print_items :: "(she_value \<Rightarrow> stop + u8 list) \<Rightarrow> she_value list \<Rightarrow> bool \<Rightarrow> stop + u8 list" where
  "print_items f [] first = Inr []"
| "print_items f (v # vs) first =
     bind_stop (f v) (\<lambda>s. bind_stop (print_items f vs False) (\<lambda>t.
       Inr ((if first then [] else rk_vfctprintf '', '' []) @ s @ t)))"

primrec print_entries :: "she_heap \<Rightarrow> (she_value \<Rightarrow> stop + u8 list) \<Rightarrow> she_mapent list \<Rightarrow> bool \<Rightarrow> stop + u8 list" where
  "print_entries h f [] first = Inr []"
| "print_entries h f (e # es) first =
     bind_stop (f (me_val e)) (\<lambda>s. bind_stop (print_entries h f es False) (\<lambda>t.
       Inr (rk_vfctprintf ''%s%s: ''
              [AStr (Some (map asc (if first then [] else '', ''))), AStr (Some (she_string_chars h (me_key e)))]
            @ s @ t)))"

text \<open>
  The depth counts the calls of \<open>she_value_repr\<close> inside each other. A chain of containers longer
  than the number of objects meets one of them twice: such a value holds itself, and the
  recursion does not end.
\<close>

primrec repr :: "nat \<Rightarrow> she_heap \<Rightarrow> she_value \<Rightarrow> stop + u8 list" where
  "repr 0 h v = Inl Hang"
| "repr (Suc d) h v =
     (case v of
        VNothing \<Rightarrow> Inr (rk_vfctprintf ''nothing'' [])
      | VBool b \<Rightarrow> Inr (rk_vfctprintf (if b then ''yes'' else ''no'') [])
      | VNum n \<Rightarrow> Inr (rk_vfctprintf ''%lld'' [AInt n])
      | VReal r \<Rightarrow>
          (let whole = r div 2 ^ 32; frac = r mod 2 ^ 32; micros = frac * 1000000 div 2 ^ 32
           in Inr (rk_vfctprintf ''%lld.%06llu'' [AInt whole, AInt micros]))
      | VCap c \<Rightarrow> Inr (rk_vfctprintf ''<capability %d>'' [AInt c])
      | VObj t p \<Rightarrow>
          (case t of
             Text \<Rightarrow> Inr (rk_vfctprintf ''%s'' [AStr (Some (she_string_chars h p))])
           | Function \<Rightarrow> Inr (rk_vfctprintf ''<function %s>'' [AStr (Some (she_function_name h p))])
           | Native \<Rightarrow>
               Inr (rk_vfctprintf ''<builtin %s>''
                 [AStr (Some (case she_native_def h p of Some n \<Rightarrow> nt_name n | None \<Rightarrow> map asc ''?''))])
           | Range \<Rightarrow>
               (case range_of h p of
                  None \<Rightarrow> Inl Fault
                | Some (len, a, b, c) \<Rightarrow> Inr (rk_vfctprintf ''%lld to %lld'' [AInt a, AInt b]))
           | List \<Rightarrow>
               (case list_of h p of
                  None \<Rightarrow> Inl Fault
                | Some (i, len, items) \<Rightarrow>
                    bind_stop (print_items (repr d h) (take len items) True)
                      (\<lambda>s. Inr (rk_vfctprintf ''['' [] @ s @ rk_vfctprintf '']'' [])))
           | Map \<Rightarrow>
               (case map_of_obj h p of
                  None \<Rightarrow> Inr (rk_vfctprintf ''{}'' [])
                | Some (i, len, es) \<Rightarrow>
                    bind_stop (print_entries h (repr d h) (filter me_used es) True)
                      (\<lambda>s. Inr (rk_vfctprintf ''{'' [] @ s @ rk_vfctprintf ''}'' [])))
           | Tensor \<Rightarrow> Inr (rk_vfctprintf ''<%s>'' [AStr (Some (map asc (she_typename SHE_TENSOR)))])))"

definition she_value_repr :: "she_heap \<Rightarrow> she_value \<Rightarrow> stop + u8 list" where
  "she_value_repr h v = repr (length h + 1) h v"

section \<open>Tests\<close>

definition obj_len :: "she_heap \<Rightarrow> nat option \<Rightarrow> stop + nat" where
  "obj_len h p = (case obj_at h p of Some o' \<Rightarrow> Inr (ob_len o') | None \<Rightarrow> Inl Fault)"

definition she_truthy :: "she_heap \<Rightarrow> she_value \<Rightarrow> bool" where
  "she_truthy h v =
     (case v of
        VNothing \<Rightarrow> False
      | VBool b \<Rightarrow> b
      | VNum n \<Rightarrow> n \<noteq> 0
      | VReal r \<Rightarrow> r \<noteq> 0
      | VObj t p \<Rightarrow>
          if t \<in> {Text, List, Map} then (case obj_at h p of Some o' \<Rightarrow> 0 < ob_len o' | None \<Rightarrow> False)
          else True
      | _ \<Rightarrow> True)"

text \<open>\<open>(kq_t)v << 32\<close> in 64 bits.\<close>

definition kq_shift :: "int \<Rightarrow> int" where
  "kq_shift v = s64_wrap (kq_from_int v)"

fun she_equal :: "she_value \<Rightarrow> she_value \<Rightarrow> bool" where
  "she_equal VNothing VNothing = True"
| "she_equal (VBool a) (VBool b) = (a = b)"
| "she_equal (VNum a) (VNum b) = (a = b)"
| "she_equal (VReal a) (VReal b) = (a = b)"
| "she_equal (VCap a) (VCap b) = (a = b)"
| "she_equal (VObj t p) (VObj t' p') = (t = t' \<and> p = p')"
| "she_equal (VNum a) (VReal b) = (kq_shift a = b)"
| "she_equal (VReal a) (VNum b) = (a = kq_shift b)"
| "she_equal _ _ = False"

definition she_object_free_all :: "she_vm \<Rightarrow> she_vm" where
  "she_object_free_all vm = vm\<lparr>vm_heap := [], vm_mem_used := 0\<rparr>"

end
