(* ===== verification/RK_SheVm.thy ===== *)
theory RK_SheVm
  imports RK_SheValue
begin

unbundle bit_operations_syntax

text \<open>
  The SHE virtual machine (\<open>kernel/she/vm.c\<close>): the value stack, arithmetic and comparison, calls,
  and the loop that runs one instruction for each unit of gas. Every instruction is a definition
  that takes the machine after the operation byte has been read; \<open>she_step\<close> chooses among them and
  \<open>run\<close> repeats them.

  The builtins are a parameter: a function from a builtin, the number of arguments and the machine
  to a result code, a value and the machine, which may call back into the interpreter through the
  function it is given. \<open>RK_SheStd\<close> supplies the ones of the standard library. Counters that are
  only reported (\<open>struct she_stats\<close>) and the nodes of the runtime graph are left out.
\<close>

section \<open>Instructions and outcomes\<close>

datatype she_op =
    OP_NOP | OP_CONST | OP_NOTHING | OP_TRUE | OP_FALSE | OP_POP | OP_DUP | OP_SWAP
  | OP_GET_LOCAL | OP_SET_LOCAL | OP_GET_GLOBAL | OP_SET_GLOBAL | OP_DEF_GLOBAL
  | OP_GET_UPVAL | OP_SET_UPVAL | OP_CLOSE_UPVAL
  | OP_GET_INDEX | OP_SET_INDEX | OP_GET_FIELD | OP_SET_FIELD
  | OP_ADD | OP_SUB | OP_MUL | OP_DIV | OP_MOD | OP_POW | OP_NEG
  | OP_EQ | OP_NEQ | OP_LT | OP_LE | OP_GT | OP_GE | OP_AND | OP_OR | OP_NOT | OP_CONCAT
  | OP_JUMP | OP_JUMP_IF_FALSE | OP_JUMP_IF_TRUE | OP_LOOP
  | OP_CALL | OP_RETURN | OP_CLOSURE | OP_MAKE_LIST | OP_MAKE_MAP | OP_MAKE_RANGE
  | OP_ITER_INIT | OP_ITER_NEXT | OP_MATCH_TEST | OP_PIPE | OP_SAY | OP_ASK | OP_REQUIRE_CAP
  | OP_HALT

definition she_ops :: "she_op list" where
  "she_ops =
     [OP_NOP, OP_CONST, OP_NOTHING, OP_TRUE, OP_FALSE, OP_POP, OP_DUP, OP_SWAP,
      OP_GET_LOCAL, OP_SET_LOCAL, OP_GET_GLOBAL, OP_SET_GLOBAL, OP_DEF_GLOBAL,
      OP_GET_UPVAL, OP_SET_UPVAL, OP_CLOSE_UPVAL,
      OP_GET_INDEX, OP_SET_INDEX, OP_GET_FIELD, OP_SET_FIELD,
      OP_ADD, OP_SUB, OP_MUL, OP_DIV, OP_MOD, OP_POW, OP_NEG,
      OP_EQ, OP_NEQ, OP_LT, OP_LE, OP_GT, OP_GE, OP_AND, OP_OR, OP_NOT, OP_CONCAT,
      OP_JUMP, OP_JUMP_IF_FALSE, OP_JUMP_IF_TRUE, OP_LOOP,
      OP_CALL, OP_RETURN, OP_CLOSURE, OP_MAKE_LIST, OP_MAKE_MAP, OP_MAKE_RANGE,
      OP_ITER_INIT, OP_ITER_NEXT, OP_MATCH_TEST, OP_PIPE, OP_SAY, OP_ASK, OP_REQUIRE_CAP, OP_HALT]"

definition op_of :: "u8 \<Rightarrow> she_op option" where
  "op_of b = (if unat b < length she_ops then Some (she_ops ! unat b) else None)"

text \<open>After an instruction the loop goes on, returns a code (and a result), or has no defined
  behaviour.\<close>

datatype outcome = Go she_vm | Ret int "she_value option" she_vm | Stuck stop

definition on_ok :: "stop + 'a \<Rightarrow> ('a \<Rightarrow> outcome) \<Rightarrow> outcome" where
  "on_ok r f = (case r of Inl e \<Rightarrow> Stuck e | Inr x \<Rightarrow> f x)"

lemma on_ok_simps [simp]: "on_ok (Inl e) f = Stuck e" "on_ok (Inr x) f = f x"
  by (simp_all add: on_ok_def)

text \<open>\<open>return she_error(...)\<close>.\<close>

definition fail :: "she_diag \<Rightarrow> she_vm \<Rightarrow> outcome" where
  "fail d vm = Ret (errno EINVAL) None (she_error d vm)"

section \<open>Permissions\<close>

definition she_deny :: "u32 \<Rightarrow> u8 list \<Rightarrow> she_vm \<Rightarrow> she_vm" where
  "she_deny need what vm = she_error (DDeny need what) vm"

definition she_check_allow :: "u32 \<Rightarrow> u8 list \<Rightarrow> she_vm \<Rightarrow> bool \<times> she_vm" where
  "she_check_allow need what vm =
     (if vm_allow vm AND need \<noteq> 0 then (True, vm) else (False, she_deny need what vm))"

section \<open>The stack\<close>

definition push :: "she_value \<Rightarrow> she_vm \<Rightarrow> she_vm" where
  "push v vm =
     (if SHE_STACK_MAX \<le> vm_sp vm then she_error DStackOverflow vm
      else vm\<lparr>vm_stack := (vm_stack vm)[vm_sp vm := v], vm_sp := vm_sp vm + 1\<rparr>)"

definition pop :: "she_vm \<Rightarrow> she_value \<times> she_vm" where
  "pop vm =
     (if vm_sp vm = 0 then (VNothing, vm)
      else (vm_stack vm ! (vm_sp vm - 1), vm\<lparr>vm_sp := vm_sp vm - 1\<rparr>))"

definition peek :: "nat \<Rightarrow> she_vm \<Rightarrow> she_value" where
  "peek back vm = (if vm_sp vm < back + 1 then VNothing else vm_stack vm ! (vm_sp vm - 1 - back))"

text \<open>\<open>frame->slots[i]\<close>, a place of the stack array above or below its top.\<close>

definition slot_index :: "nat \<Rightarrow> she_vm \<Rightarrow> stop + nat" where
  "slot_index i vm =
     (case vm_frames vm of
        [] \<Rightarrow> Inl Fault
      | f # fs \<Rightarrow> if fr_slots f + i < SHE_STACK_MAX then Inr (fr_slots f + i) else Inl Fault)"

definition store_slot :: "nat \<Rightarrow> she_value \<Rightarrow> she_vm \<Rightarrow> she_vm" where
  "store_slot k v vm = vm\<lparr>vm_stack := (vm_stack vm)[k := v]\<rparr>"

section \<open>Fetching\<close>

definition cur_chunk :: "she_vm \<Rightarrow> she_chunk option" where
  "cur_chunk vm =
     (case vm_frames vm of
        [] \<Rightarrow> None
      | f # fs \<Rightarrow> she_function_chunk (vm_heap vm) (Some (fr_closure f)))"

definition move_ip :: "int \<Rightarrow> she_vm \<Rightarrow> she_vm" where
  "move_ip d vm =
     (case vm_frames vm of
        [] \<Rightarrow> vm
      | f # fs \<Rightarrow> vm\<lparr>vm_frames := f\<lparr>fr_ip := fr_ip f + d\<rparr> # fs\<rparr>)"

definition read_byte :: "she_vm \<Rightarrow> stop + u8 \<times> she_vm" where
  "read_byte vm =
     (case (vm_frames vm, cur_chunk vm) of
        (f # fs, Some ch) \<Rightarrow>
          if 0 \<le> fr_ip f \<and> fr_ip f < int (length (ch_code ch))
          then Inr (ch_code ch ! nat (fr_ip f), move_ip 1 vm) else Inl Fault
      | _ \<Rightarrow> Inl Fault)"

definition read_short :: "she_vm \<Rightarrow> stop + nat \<times> she_vm" where
  "read_short vm =
     bind_stop (read_byte vm) (\<lambda>(lo, vm). bind_stop (read_byte vm) (\<lambda>(hi, vm).
       Inr (unat lo + 256 * unat hi, vm)))"

definition read_const :: "she_vm \<Rightarrow> stop + she_value \<times> she_vm" where
  "read_const vm =
     bind_stop (read_byte vm) (\<lambda>(b, vm).
       case cur_chunk vm of
         None \<Rightarrow> Inl Fault
       | Some ch \<Rightarrow>
           if unat b < length (ch_consts ch) then Inr (ch_consts ch ! unat b, vm) else Inl Fault)"

section \<open>Globals\<close>

definition she_global_set :: "u8 list \<Rightarrow> she_value \<Rightarrow> she_vm \<Rightarrow> stop + unit result \<times> she_vm" where
  "she_global_set name v vm =
     (case she_string_new (take (strlen name) name) vm of
        (None, vm) \<Rightarrow> Inr (Inl ENOMEM, vm)
      | (Some key, vm) \<Rightarrow> she_map_set (vm_globals vm) (Some key) v vm)"

definition she_global_get :: "u8 list \<Rightarrow> she_vm \<Rightarrow> stop + she_value option \<times> she_vm" where
  "she_global_get name vm =
     (case she_string_new (take (strlen name) name) vm of
        (None, vm) \<Rightarrow> Inr (None, vm)
      | (Some key, vm) \<Rightarrow>
          bind_stop (she_map_get (vm_heap vm) (vm_globals vm) (Some key)) (\<lambda>v. Inr (v, vm)))"

section \<open>Numbers\<close>

definition S64_MIN :: int where "S64_MIN = - (2 ^ 63)"

text \<open>The division instruction has no result for the one quotient that does not fit.\<close>

definition div_traps :: "int \<Rightarrow> int \<Rightarrow> bool" where
  "div_traps x y \<longleftrightarrow> x = S64_MIN \<and> y = - 1"

fun pow_loop :: "nat \<Rightarrow> int \<Rightarrow> int \<Rightarrow> int" where
  "pow_loop 0 x r = r"
| "pow_loop (Suc n) x r = pow_loop n x (s64_wrap (r * x))"

definition arith_whole :: "she_op \<Rightarrow> int \<Rightarrow> int \<Rightarrow> she_vm \<Rightarrow> stop + she_value option \<times> she_vm" where
  "arith_whole op x y vm =
     (if op = OP_ADD then Inr (Some (VNum (s64_wrap (x + y))), vm)
      else if op = OP_SUB then Inr (Some (VNum (s64_wrap (x - y))), vm)
      else if op = OP_MUL then Inr (Some (VNum (s64_wrap (x * y))), vm)
      else if op = OP_DIV then
        (if y = 0 then Inr (None, she_error (DDivZero x) vm)
         else if div_traps x y then Inl Fault
         else if c_mod x y = 0 then Inr (Some (VNum (c_div x y)), vm)
         else Inr (Some (VReal (kq_div (kq_shift x) (kq_shift y))), vm))
      else if op = OP_MOD then
        (if y = 0 then Inr (None, she_error (DModZero x) vm)
         else if div_traps x y then Inl Fault
         else Inr (Some (VNum (c_mod x y)), vm))
      else if op = OP_POW then Inr (Some (VNum (pow_loop (nat (min y 63)) x 1)), vm)
      else Inr (None, vm))"

definition arith_real :: "she_op \<Rightarrow> int \<Rightarrow> int \<Rightarrow> she_vm \<Rightarrow> stop + she_value option \<times> she_vm" where
  "arith_real op x y vm =
     (if op = OP_ADD then Inr (Some (VReal (s64_wrap (x + y))), vm)
      else if op = OP_SUB then Inr (Some (VReal (s64_wrap (x - y))), vm)
      else if op = OP_MUL then Inr (Some (VReal (kq_mul x y)), vm)
      else if op = OP_DIV then
        (if y = 0 then Inr (None, she_error DDivZeroReal vm) else Inr (Some (VReal (kq_div x y)), vm))
      else if op = OP_MOD then
        (if y = 0 then Inr (Some (VReal 0), vm)
         else if div_traps x y then Inl Fault else Inr (Some (VReal (c_mod x y)), vm))
      else Inr (None, she_error DNotReal vm))"

definition fixed_of :: "she_value \<Rightarrow> int option" where
  "fixed_of v = (case v of VNum n \<Rightarrow> Some (kq_shift n) | VReal r \<Rightarrow> Some r | _ \<Rightarrow> None)"

definition arith :: "she_op \<Rightarrow> she_value \<Rightarrow> she_value \<Rightarrow> she_vm \<Rightarrow> stop + she_value option \<times> she_vm" where
  "arith op a b vm =
     (case (a, b) of
        (VNum x, VNum y) \<Rightarrow> arith_whole op x y vm
      | _ \<Rightarrow>
          (case (fixed_of a, fixed_of b) of
             (None, _) \<Rightarrow> Inr (None, she_error (DNotArith (v_type a)) vm)
           | (Some x, None) \<Rightarrow> Inr (None, she_error (DNotArith (v_type b)) vm)
           | (Some x, Some y) \<Rightarrow> arith_real op x y vm))"

definition compare_values :: "she_value \<Rightarrow> she_value \<Rightarrow> she_vm \<Rightarrow> int option \<times> she_vm" where
  "compare_values a b vm =
     (case (fixed_of a, fixed_of b) of
        (Some x, Some y) \<Rightarrow> (Some (if x < y then - 1 else if y < x then 1 else 0), vm)
      | _ \<Rightarrow>
          (case (a, b) of
             (VObj Text p, VObj Text q) \<Rightarrow>
               (Some (strcmp (she_string_chars (vm_heap vm) p) (she_string_chars (vm_heap vm) q)), vm)
           | _ \<Rightarrow> (None, she_error (DNotCompared (v_type a) (v_type b)) vm)))"

section \<open>Calls\<close>

type_synonym she_reenter = "nat \<Rightarrow> she_vm \<Rightarrow> outcome"
type_synonym she_natives =
  "she_reenter \<Rightarrow> she_builtin \<Rightarrow> nat \<Rightarrow> she_vm \<Rightarrow> stop + int \<times> she_value \<times> she_vm"

definition call_function :: "nat option \<Rightarrow> nat \<Rightarrow> she_vm \<Rightarrow> stop + bool \<times> she_vm" where
  "call_function p argc vm =
     (let arity = she_function_arity (vm_heap vm) p in
      if argc \<noteq> arity then
        Inr (False, she_error (DArity (she_function_name (vm_heap vm) p) arity argc) vm)
      else if SHE_FRAMES_MAX \<le> length (vm_frames vm) then Inr (False, she_error DNested vm)
      else (case fun_of (vm_heap vm) p of
              None \<Rightarrow> Inl Fault
            | Some (i, f) \<Rightarrow>
                if vm_sp vm < argc + 1 then Inl Fault
                else Inr (True, vm\<lparr>vm_frames := \<lparr>fr_closure = i, fr_ip = 0,
                       fr_slots = vm_sp vm - argc - 1\<rparr> # vm_frames vm\<rparr>)))"

definition call_native :: "she_natives \<Rightarrow> she_reenter \<Rightarrow> nat option \<Rightarrow> nat \<Rightarrow> she_vm \<Rightarrow> stop + bool \<times> she_vm" where
  "call_native N R p argc vm =
     (case she_native_def (vm_heap vm) p of
        None \<Rightarrow> Inr (False, vm)
      | Some d \<Rightarrow>
          if argc < nt_min d \<or> nt_max d < argc then
            Inr (False, she_error (DNativeArity (nt_name d) (nt_min d) (nt_max d) argc) vm)
          else
            (case (if nt_need d \<noteq> 0 then she_check_allow (nt_need d) (nt_name d) vm else (True, vm)) of
               (False, vm) \<Rightarrow> Inr (False, vm)
             | (True, vm) \<Rightarrow>
                 bind_stop (N R (nt_fn d) argc vm) (\<lambda>(rc, out, vm).
                   if vm_sp vm < argc + 1 then Inl Fault
                   else (let vm = push out (vm\<lparr>vm_sp := vm_sp vm - (argc + 1)\<rparr>)
                         in Inr (rc = 0 \<and> \<not> vm_failed vm, vm)))))"

definition call_value :: "she_natives \<Rightarrow> she_reenter \<Rightarrow> she_value \<Rightarrow> nat \<Rightarrow> she_vm \<Rightarrow> stop + bool \<times> she_vm" where
  "call_value N R callee argc vm =
     (case callee of
        VObj Function p \<Rightarrow> call_function p argc vm
      | VObj Native p \<Rightarrow> call_native N R p argc vm
      | _ \<Rightarrow> Inr (False, she_error (DNotCallable (v_type callee)) vm))"

section \<open>The instructions\<close>

definition exec_global :: "she_op \<Rightarrow> she_vm \<Rightarrow> outcome" where
  "exec_global op vm =
     (case pop vm of (key, vm) \<Rightarrow>
      on_ok (as_o key) (\<lambda>kp.
        let name = she_string_chars (vm_heap vm) kp in
        if op = OP_GET_GLOBAL then
          on_ok (she_map_get (vm_heap vm) (vm_globals vm) kp) (\<lambda>r.
            case r of
              None \<Rightarrow> fail (DNoName name) vm
            | Some v \<Rightarrow> Go (push v vm))
        else if op = OP_DEF_GLOBAL then
          (case pop vm of (val, vm) \<Rightarrow>
             on_ok (she_map_set (vm_globals vm) kp val vm) (\<lambda>(r, vm). Go vm))
        else
          (let val = peek 0 vm in
           on_ok (she_map_get (vm_heap vm) (vm_globals vm) kp) (\<lambda>r.
             case r of
               None \<Rightarrow> fail (DNotCreated name) vm
             | Some old \<Rightarrow> on_ok (she_map_set (vm_globals vm) kp val vm) (\<lambda>(r, vm). Go vm)))))"

definition exec_local :: "she_op \<Rightarrow> she_vm \<Rightarrow> outcome" where
  "exec_local op vm =
     on_ok (read_byte vm) (\<lambda>(b, vm). on_ok (slot_index (unat b) vm) (\<lambda>k.
       if op = OP_GET_LOCAL then Go (push (vm_stack vm ! k) vm)
       else Go (store_slot k (peek 0 vm) vm)))"

text \<open>A list index and a text index are compared with the length after a cast to 32 bits; the text
  is then read at the full index.\<close>

definition index_list :: "nat option \<Rightarrow> she_value \<Rightarrow> she_vm \<Rightarrow> outcome" where
  "index_list p idx vm =
     (case idx of
        VNum n \<Rightarrow>
          on_ok (obj_len (vm_heap vm) p) (\<lambda>len.
            let i = (if n < 0 then n + int len else n) in
            if i < 0 \<or> int len \<le> i mod 2 ^ 32 then fail (DIndexRange n len) vm
            else Go (push (she_list_get (vm_heap vm) p (nat (i mod 2 ^ 32))) vm))
      | _ \<Rightarrow> fail (DIndexType (v_type idx)) vm)"

definition push_text :: "u8 list \<Rightarrow> she_vm \<Rightarrow> she_vm" where
  "push_text s vm = (case she_string_new s vm of (p, vm) \<Rightarrow> push (VObj Text p) vm)"

definition index_text :: "nat option \<Rightarrow> she_value \<Rightarrow> she_vm \<Rightarrow> outcome" where
  "index_text p idx vm =
     on_ok (as_n idx) (\<lambda>i.
       if i < 0 then Go (push VNothing vm)
       else on_ok (obj_len (vm_heap vm) p) (\<lambda>len.
         if int len \<le> i mod 2 ^ 32 then Go (push VNothing vm)
         else (let s = she_string_chars (vm_heap vm) p in
               if i < int (length s) then Go (push_text [s ! nat i] vm) else Stuck Fault)))"

definition exec_get_index :: "she_vm \<Rightarrow> outcome" where
  "exec_get_index vm =
     (case pop vm of (idx, vm) \<Rightarrow> case pop vm of (obj, vm) \<Rightarrow>
        (case obj of
           VObj List p \<Rightarrow> index_list p idx vm
         | VObj Map p \<Rightarrow>
             on_ok (as_o idx) (\<lambda>kp. on_ok (she_map_get (vm_heap vm) p kp) (\<lambda>r.
               Go (push (case r of Some v \<Rightarrow> v | None \<Rightarrow> VNothing) vm)))
         | VObj Text p \<Rightarrow> index_text p idx vm
         | _ \<Rightarrow> fail (DNotIndexed (v_type obj)) vm))"

definition exec_get_field :: "she_vm \<Rightarrow> outcome" where
  "exec_get_field vm =
     (case pop vm of (key, vm) \<Rightarrow> case pop vm of (obj, vm) \<Rightarrow>
        (case obj of
           VObj Map p \<Rightarrow>
             on_ok (as_o key) (\<lambda>kp. on_ok (she_map_get (vm_heap vm) p kp) (\<lambda>r.
               Go (push (case r of Some v \<Rightarrow> v | None \<Rightarrow> VNothing) vm)))
         | VObj t p \<Rightarrow>
             if t = List \<or> t = Text then
               on_ok (as_o key) (\<lambda>kp.
                 if strcmp (she_string_chars (vm_heap vm) kp) (map asc ''count'') = 0 then
                   on_ok (obj_len (vm_heap vm) p) (\<lambda>len. Go (push (VNum (int len)) vm))
                 else Go (push VNothing vm))
             else Go (push VNothing vm)
         | _ \<Rightarrow> Go (push VNothing vm)))"

definition exec_set_index :: "she_vm \<Rightarrow> outcome" where
  "exec_set_index vm =
     (case pop vm of (val, vm) \<Rightarrow> case pop vm of (idx, vm) \<Rightarrow> case pop vm of (obj, vm) \<Rightarrow>
        (case (obj, idx) of
           (VObj List p, VNum n) \<Rightarrow>
             (case she_list_set p (nat (n mod 2 ^ 32)) val vm of (r, vm) \<Rightarrow> Go (push val vm))
         | (VObj Map p, _) \<Rightarrow>
             on_ok (as_o idx) (\<lambda>kp. on_ok (she_map_set p kp val vm) (\<lambda>(r, vm). Go (push val vm)))
         | _ \<Rightarrow> fail (DNotStored (v_type obj)) vm))"

text \<open>
  Two values are printed into a buffer of 512 bytes, and as many bytes as their texts have are then
  made a text: a text of 512 bytes ends with the terminator, a longer one reads past the buffer.
\<close>

definition buffer_text :: "nat \<Rightarrow> u8 list \<Rightarrow> stop + u8 list" where
  "buffer_text sz s =
     (if length s < sz then Inr s else if length s = sz then Inr (take (sz - 1) s @ [0]) else Inl Fault)"

definition exec_concat :: "she_value \<Rightarrow> she_value \<Rightarrow> she_vm \<Rightarrow> outcome" where
  "exec_concat a b vm =
     on_ok (she_value_repr (vm_heap vm) a) (\<lambda>s. on_ok (she_value_repr (vm_heap vm) b) (\<lambda>t.
       on_ok (buffer_text 512 (s @ t)) (\<lambda>u. Go (push_text u vm))))"

definition is_text_value :: "she_value \<Rightarrow> bool" where
  "is_text_value v \<longleftrightarrow> v_type v = SHE_TEXT"

definition exec_arith :: "she_op \<Rightarrow> she_vm \<Rightarrow> outcome" where
  "exec_arith op vm =
     (case pop vm of (b, vm) \<Rightarrow> case pop vm of (a, vm) \<Rightarrow>
        if op = OP_ADD \<and> (is_text_value a \<or> is_text_value b) then exec_concat a b vm
        else on_ok (arith op a b vm) (\<lambda>(r, vm).
               case r of None \<Rightarrow> Ret (errno EINVAL) None vm | Some v \<Rightarrow> Go (push v vm)))"

definition exec_neg :: "she_vm \<Rightarrow> outcome" where
  "exec_neg vm =
     (case pop vm of (a, vm) \<Rightarrow>
        (case a of
           VNum n \<Rightarrow> Go (push (VNum (s64_wrap (- n))) vm)
         | VReal r \<Rightarrow> Go (push (VReal (s64_wrap (- r))) vm)
         | _ \<Rightarrow> fail (DNotNegated (v_type a)) vm))"

definition exec_equal :: "she_op \<Rightarrow> she_vm \<Rightarrow> outcome" where
  "exec_equal op vm =
     (case pop vm of (b, vm) \<Rightarrow> case pop vm of (a, vm) \<Rightarrow>
        Go (push (VBool (if op = OP_EQ then she_equal a b else \<not> she_equal a b)) vm))"

definition exec_compare :: "she_op \<Rightarrow> she_vm \<Rightarrow> outcome" where
  "exec_compare op vm =
     (case pop vm of (b, vm) \<Rightarrow> case pop vm of (a, vm) \<Rightarrow>
        (case compare_values a b vm of
           (None, vm) \<Rightarrow> Ret (errno EINVAL) None vm
         | (Some c, vm) \<Rightarrow>
             Go (push (VBool (if op = OP_LT then c < 0 else if op = OP_LE then c \<le> 0
                              else if op = OP_GT then 0 < c else 0 \<le> c)) vm)))"

definition exec_jump :: "she_op \<Rightarrow> she_vm \<Rightarrow> outcome" where
  "exec_jump op vm =
     on_ok (read_short vm) (\<lambda>(d, vm).
       if op = OP_JUMP then Go (move_ip (int d) vm)
       else if op = OP_JUMP_IF_FALSE then
         Go (if \<not> she_truthy (vm_heap vm) (peek 0 vm) then move_ip (int d) vm else vm)
       else if op = OP_JUMP_IF_TRUE then
         Go (if she_truthy (vm_heap vm) (peek 0 vm) then move_ip (int d) vm else vm)
       else Go (move_ip (- int d) vm))"

definition after_call :: "bool \<times> she_vm \<Rightarrow> outcome" where
  "after_call r = (case r of (ok, vm) \<Rightarrow> if ok then Go vm else Ret (errno EINVAL) None vm)"

definition exec_call :: "she_natives \<Rightarrow> she_reenter \<Rightarrow> she_vm \<Rightarrow> outcome" where
  "exec_call N R vm =
     on_ok (read_byte vm) (\<lambda>(b, vm).
       on_ok (call_value N R (peek (unat b) vm) (unat b) vm) after_call)"

text \<open>The pipe swaps the value and the callee below the extra arguments, then calls.\<close>

definition exec_pipe :: "she_natives \<Rightarrow> she_reenter \<Rightarrow> she_vm \<Rightarrow> outcome" where
  "exec_pipe N R vm =
     on_ok (read_byte vm) (\<lambda>(extra, vm).
       let argc = unat (extra + 1) in
       if vm_sp vm < unat extra + 2 then Stuck Fault
       else
         (let base = vm_sp vm - unat extra - 2;
              value = vm_stack vm ! base;
              callee = vm_stack vm ! (base + 1);
              vm = store_slot (base + 1) value (store_slot base callee vm)
          in on_ok (call_value N R callee argc vm) after_call))"

definition exec_return :: "nat \<Rightarrow> she_vm \<Rightarrow> outcome" where
  "exec_return stop_at vm =
     (case pop vm of (r, vm) \<Rightarrow>
        (case vm_frames vm of
           [] \<Rightarrow> Stuck Fault
         | f # fs \<Rightarrow>
             (let vm = vm\<lparr>vm_frames := fs, vm_sp := fr_slots f\<rparr> in
              if length fs = stop_at then Ret 0 (Some r) vm else Go (push r vm))))"

fun push_all :: "nat option \<Rightarrow> she_value list \<Rightarrow> she_vm \<Rightarrow> she_vm" where
  "push_all l [] vm = vm"
| "push_all l (v # vs) vm = push_all l vs (snd (she_list_push l v vm))"

definition exec_make_list :: "she_vm \<Rightarrow> outcome" where
  "exec_make_list vm =
     on_ok (read_byte vm) (\<lambda>(b, vm).
       let n = unat b in
       (case she_list_new n vm of
          (None, vm) \<Rightarrow> Ret (errno ENOMEM) None vm
        | (Some l, vm) \<Rightarrow>
            if vm_sp vm < n then Stuck Fault
            else (let vm = push_all (Some l) (take n (drop (vm_sp vm - n) (vm_stack vm))) vm
                  in Go (push (VObj List (Some l)) (vm\<lparr>vm_sp := vm_sp vm - n\<rparr>)))))"

fun set_all :: "nat option \<Rightarrow> she_value list \<Rightarrow> she_vm \<Rightarrow> stop + she_vm" where
  "set_all m (key # val # vs) vm =
     bind_stop (as_o key) (\<lambda>kp. bind_stop (she_map_set m kp val vm) (\<lambda>(r, vm). set_all m vs vm))"
| "set_all m _ vm = Inr vm"

definition exec_make_map :: "she_vm \<Rightarrow> outcome" where
  "exec_make_map vm =
     on_ok (read_byte vm) (\<lambda>(b, vm).
       let n = unat b in
       (case she_map_new vm of
          (None, vm) \<Rightarrow> Ret (errno ENOMEM) None vm
        | (Some m, vm) \<Rightarrow>
            if vm_sp vm < 2 * n then Stuck Fault
            else on_ok (set_all (Some m) (take (2 * n) (drop (vm_sp vm - 2 * n) (vm_stack vm))) vm) (\<lambda>vm.
                   Go (push (VObj Map (Some m)) (vm\<lparr>vm_sp := vm_sp vm - 2 * n\<rparr>)))))"

definition exec_make_range :: "she_vm \<Rightarrow> outcome" where
  "exec_make_range vm =
     (case pop vm of (stop, vm) \<Rightarrow> case pop vm of (start, vm) \<Rightarrow>
        (case (start, stop) of
           (VNum a, VNum b) \<Rightarrow>
             (case she_range_new a (s64_wrap (b + 1)) 1 vm of
                (None, vm) \<Rightarrow> Ret (errno ENOMEM) None vm
              | (Some r, vm) \<Rightarrow> Go (push (VObj Range (Some r)) vm))
         | _ \<Rightarrow> fail DRangeEnds vm))"

text \<open>The \<open>i\<close>-th item of what is looped over; maps give their keys.\<close>

definition iter_item :: "she_tag \<Rightarrow> nat option \<Rightarrow> nat \<Rightarrow> she_vm \<Rightarrow> she_value \<times> she_vm" where
  "iter_item t p i vm =
     (case t of
        List \<Rightarrow> (she_list_get (vm_heap vm) p i, vm)
      | Range \<Rightarrow>
          (case range_of (vm_heap vm) p of
             Some (len, a, b, c) \<Rightarrow> (VNum (she_range_at a c i), vm)
           | None \<Rightarrow> (VNothing, vm))
      | Text \<Rightarrow>
          (case she_string_new [she_string_chars (vm_heap vm) p ! i] vm of (q, vm) \<Rightarrow> (VObj Text q, vm))
      | Map \<Rightarrow>
          (case map_of_obj (vm_heap vm) p of
             Some (m, len, es) \<Rightarrow>
               (let us = filter me_used es
                in if i < length us then (VObj Text (me_key (us ! i)), vm) else (VNothing, vm))
           | None \<Rightarrow> (VNothing, vm))
      | _ \<Rightarrow> (VNothing, vm))"

definition exec_iter_next :: "she_vm \<Rightarrow> outcome" where
  "exec_iter_next vm =
     on_ok (read_byte vm) (\<lambda>(b, vm).
     on_ok (slot_index (unat b) vm) (\<lambda>k. on_ok (slot_index (unat b + 1) vm) (\<lambda>k'.
     on_ok (as_n (vm_stack vm ! k')) (\<lambda>ix.
       let it = vm_stack vm ! k; i = nat (ix mod 2 ^ 32) in
       (case it of
          VObj t p \<Rightarrow>
            if t \<in> {List, Range, Text, Map} then
              on_ok (obj_len (vm_heap vm) p) (\<lambda>len.
                if len \<le> i then Go (push (VBool False) vm)
                else (case iter_item t p i (store_slot k' (VNum (int i + 1)) vm) of
                        (item, vm) \<Rightarrow> Go (push (VBool True) (push item vm))))
            else fail (DNotLooped (tag_type t)) vm
        | _ \<Rightarrow> fail (DNotLooped (v_type it)) vm)))))"

definition write_out :: "u8 list \<Rightarrow> she_vm \<Rightarrow> she_vm" where
  "write_out s vm = vm\<lparr>vm_out := vm_out vm @ s\<rparr>"

definition exec_say :: "she_vm \<Rightarrow> outcome" where
  "exec_say vm =
     (case pop vm of (v, vm) \<Rightarrow>
        on_ok (she_value_repr (vm_heap vm) v) (\<lambda>s.
          Go (write_out [asc (CHR 0x0A)] (write_out (take 1023 s) vm))))"

text \<open>A line is read into 256 bytes; without one the text is empty. As many bytes of the prompt's
  buffer are written as its text has.\<close>

definition read_line :: "she_vm \<Rightarrow> stop + u8 list \<times> she_vm" where
  "read_line vm =
     (case vm_in vm of
        [] \<Rightarrow> Inr ([], vm)
      | line # rest \<Rightarrow> if length line < 256 then Inr (line, vm\<lparr>vm_in := rest\<rparr>) else Inl Fault)"

definition exec_ask :: "she_vm \<Rightarrow> outcome" where
  "exec_ask vm =
     (case pop vm of (prompt, vm) \<Rightarrow>
        on_ok (if prompt = VNothing then Inr vm
               else bind_stop (she_value_repr (vm_heap vm) prompt) (\<lambda>s.
                      bind_stop (buffer_text 256 s) (\<lambda>u. Inr (write_out (u @ [asc (CHR '' '')]) vm))))
          (\<lambda>vm. on_ok (read_line vm) (\<lambda>(line, vm). Go (push_text line vm))))"

definition exec_require :: "she_vm \<Rightarrow> outcome" where
  "exec_require vm =
     on_ok (read_byte vm) (\<lambda>(b, vm).
       if 32 \<le> unat b then Stuck Fault
       else (case she_check_allow (push_bit (unat b) 1) (map asc ''use a protected operation'') vm of
               (True, vm) \<Rightarrow> Go vm
             | (False, vm) \<Rightarrow> Ret (errno EACCES) None vm))"

section \<open>The loop\<close>

definition she_exec :: "she_natives \<Rightarrow> she_reenter \<Rightarrow> nat \<Rightarrow> u8 \<Rightarrow> she_vm \<Rightarrow> outcome" where
  "she_exec N R stop_at b vm =
     (case op_of b of
        None \<Rightarrow> fail (DUnknownOp b) vm
      | Some op \<Rightarrow>
          if op = OP_NOP then Go vm
          else if op = OP_CONST then on_ok (read_const vm) (\<lambda>(v, vm). Go (push v vm))
          else if op = OP_NOTHING then Go (push VNothing vm)
          else if op = OP_TRUE then Go (push (VBool True) vm)
          else if op = OP_FALSE then Go (push (VBool False) vm)
          else if op = OP_POP then Go (snd (pop vm))
          else if op = OP_DUP then Go (push (peek 0 vm) vm)
          else if op \<in> {OP_GET_LOCAL, OP_SET_LOCAL} then exec_local op vm
          else if op \<in> {OP_GET_GLOBAL, OP_DEF_GLOBAL, OP_SET_GLOBAL} then exec_global op vm
          else if op = OP_GET_INDEX then exec_get_index vm
          else if op = OP_GET_FIELD then exec_get_field vm
          else if op = OP_SET_INDEX then exec_set_index vm
          else if op \<in> {OP_ADD, OP_SUB, OP_MUL, OP_DIV, OP_MOD, OP_POW} then exec_arith op vm
          else if op = OP_NEG then exec_neg vm
          else if op = OP_NOT then
            (case pop vm of (v, vm) \<Rightarrow> Go (push (VBool (\<not> she_truthy (vm_heap vm) v)) vm))
          else if op \<in> {OP_EQ, OP_NEQ} then exec_equal op vm
          else if op \<in> {OP_LT, OP_LE, OP_GT, OP_GE} then exec_compare op vm
          else if op = OP_CONCAT then
            (case pop vm of (b, vm) \<Rightarrow> case pop vm of (a, vm) \<Rightarrow> exec_concat a b vm)
          else if op \<in> {OP_JUMP, OP_JUMP_IF_FALSE, OP_JUMP_IF_TRUE, OP_LOOP} then exec_jump op vm
          else if op = OP_CALL then exec_call N R vm
          else if op = OP_PIPE then exec_pipe N R vm
          else if op = OP_RETURN then exec_return stop_at vm
          else if op = OP_MAKE_LIST then exec_make_list vm
          else if op = OP_MAKE_MAP then exec_make_map vm
          else if op = OP_MAKE_RANGE then exec_make_range vm
          else if op = OP_ITER_NEXT then exec_iter_next vm
          else if op = OP_SAY then exec_say vm
          else if op = OP_ASK then exec_ask vm
          else if op = OP_REQUIRE_CAP then exec_require vm
          else if op = OP_HALT then Ret 0 None vm
          else fail (DUnknownOp b) vm)"

definition she_step :: "she_natives \<Rightarrow> she_reenter \<Rightarrow> nat \<Rightarrow> she_vm \<Rightarrow> outcome" where
  "she_step N R stop_at vm =
     on_ok (read_byte vm) (\<lambda>(b, vm).
       case she_exec N R stop_at b vm of
         Go vm \<Rightarrow> if vm_failed vm then Ret (errno EINVAL) None vm else Go vm
       | r \<Rightarrow> r)"

text \<open>
  Each turn of the loop, and each re-entry from a builtin, takes one from the first argument. Every
  turn also costs a unit of gas, so one more than the gas is enough (\<open>gas_bounds_every_run\<close>).
\<close>

fun run :: "she_natives \<Rightarrow> nat \<Rightarrow> nat \<Rightarrow> she_vm \<Rightarrow> outcome" where
  "run N 0 stop_at vm = Stuck Hang"
| "run N (Suc k) stop_at vm =
     (if vm_gas vm = 0 then Ret (errno EAGAIN) None vm
      else (case she_step N (run N k) stop_at (vm\<lparr>vm_gas := vm_gas vm - 1\<rparr>) of
              Go vm \<Rightarrow> run N k stop_at vm
            | r \<Rightarrow> r))"

definition enough :: "she_vm \<Rightarrow> nat" where
  "enough vm = unat (vm_gas vm) + 1"

section \<open>The interface\<close>

text \<open>A zeroed machine with an empty map of globals.\<close>

definition she_vm_init :: "(nat \<Rightarrow> bool) \<Rightarrow> (she_request list \<Rightarrow> she_answer) \<Rightarrow> u8 list list \<Rightarrow> u32 \<Rightarrow> she_vm" where
  "she_vm_init kz world lines allow =
     (let vm = \<lparr>vm_stack = replicate SHE_STACK_MAX VNothing, vm_sp = 0, vm_frames = [],
                vm_globals = None, vm_heap = [], vm_allow = allow, vm_gas = 50000000,
                vm_gas_limit = 50000000, vm_mem_used = 0, vm_mem_limit = 8388608, vm_error = None,
                vm_error_line = 0, vm_failed = False, vm_incomplete = False, vm_out = [],
                vm_in = lines, vm_kz = kz, vm_allocs = 0, vm_log = [], vm_world = world\<rparr>
      in case she_map_new vm of (p, vm) \<Rightarrow> vm\<lparr>vm_globals := p\<rparr>)"

definition she_vm_set_limits :: "u64 \<Rightarrow> u64 \<Rightarrow> she_vm \<Rightarrow> she_vm" where
  "she_vm_set_limits gas mem vm =
     (let vm = (if gas \<noteq> 0 then vm\<lparr>vm_gas := gas, vm_gas_limit := gas\<rparr> else vm)
      in if mem \<noteq> 0 then vm\<lparr>vm_mem_limit := mem\<rparr> else vm)"

definition she_vm_free :: "she_vm \<Rightarrow> she_vm" where
  "she_vm_free vm = (she_object_free_all vm)\<lparr>vm_globals := None, vm_sp := 0, vm_frames := []\<rparr>"

definition she_run :: "she_natives \<Rightarrow> nat option \<Rightarrow> she_vm \<Rightarrow> outcome" where
  "she_run N p vm =
     (case p of
        None \<Rightarrow> Ret (errno EINVAL) None vm
      | Some i \<Rightarrow>
          (let vm = push (VObj Function p) (vm\<lparr>vm_sp := 0, vm_frames := [], vm_failed := False\<rparr>) in
           on_ok (call_function p 0 vm) (\<lambda>(ok, vm).
             if ok then run N (enough vm) 0 vm else Ret (errno EINVAL) None vm)))"

definition she_resume :: "she_natives \<Rightarrow> she_vm \<Rightarrow> outcome" where
  "she_resume N vm =
     (if vm_frames vm = [] then Ret (errno ENOENT) None vm else run N (enough vm) 0 vm)"

text \<open>A call from inside a builtin, on the current stack: the code, the result and the machine.\<close>

definition she_call_now :: "she_natives \<Rightarrow> she_reenter \<Rightarrow> she_value \<Rightarrow> she_value list \<Rightarrow> she_vm
    \<Rightarrow> stop + int \<times> she_value option \<times> she_vm" where
  "she_call_now N R fn args vm =
     (let base = length (vm_frames vm);
          vm = fold push args (push fn vm)
      in bind_stop (call_value N R fn (length args) vm) (\<lambda>(ok, vm).
           if \<not> ok then Inr (errno EINVAL, None, vm)
           else if v_type fn = SHE_NATIVE then
             (case pop vm of (v, vm) \<Rightarrow> Inr (if vm_failed vm then errno EINVAL else 0, Some v, vm))
           else
             (case R base vm of
                Ret rc v vm \<Rightarrow> Inr (rc, v, vm)
              | Go vm \<Rightarrow> Inl Hang
              | Stuck e \<Rightarrow> Inl e)))"

end
