(* ===== verification/RK_SheStd.thy ===== *)
theory RK_SheStd
  imports RK_SheVm
begin

unbundle bit_operations_syntax

text \<open>
  The SHE standard library (\<open>kernel/she/stdlib.c\<close>): the grants, every builtin, the table that says
  which grant each one needs, the registry and the binding of the builtins into a machine, and the
  calls back into the interpreter that \<open>map\<close> and \<open>filter\<close> make.

  A builtin that reaches outside the machine makes a request, which is logged, and works on the
  answer; the request stands for the call of the file system, the clock, the graph and so on.
\<close>

section \<open>Grants\<close>

definition allow_table :: "(u32 \<times> string \<times> string) list" where
  "allow_table =
     [(1, ''permission to read files'', ''--allow-read''),
      (2, ''permission to write files'', ''--allow-write''),
      (4, ''permission to use the network'', ''--allow-net''),
      (8, ''permission to run programs'', ''--allow-run''),
      (16, ''permission to read the environment'', ''--allow-env''),
      (32, ''permission to read the clock'', ''--allow-time''),
      (64, ''permission to use randomness'', ''--allow-random''),
      (128, ''permission to run models'', ''--allow-infer''),
      (256, ''permission to read the runtime graph'', ''--allow-graph''),
      (512, ''permission to touch devices'', ''--allow-device''),
      (1024, ''permission to mint capabilities'', ''--allow-cap'')]"

definition SHE_ALLOW_ALL :: u32 where "SHE_ALLOW_ALL = 0x7ff"

definition she_allow_parse :: "string \<Rightarrow> u32" where
  "she_allow_parse name =
     (if name = ''all'' then SHE_ALLOW_ALL
      else case find (\<lambda>(bt, nm, flag). drop 8 flag = name) allow_table of
             Some (bt, nm, flag) \<Rightarrow> bt
           | None \<Rightarrow> 0)"

definition she_allow_name :: "u32 \<Rightarrow> string" where
  "she_allow_name b =
     (case find (\<lambda>(bt, nm, flag). bt = b) allow_table of
        Some (bt, nm, flag) \<Rightarrow> nm
      | None \<Rightarrow> ''that permission'')"

definition she_allow_flag :: "u32 \<Rightarrow> string" where
  "she_allow_flag b =
     (case find (\<lambda>(bt, nm, flag). bt = b) allow_table of
        Some (bt, nm, flag) \<Rightarrow> flag
      | None \<Rightarrow> ''--allow-all'')"

section \<open>Arguments and answers\<close>

definition nat_arg :: "nat \<Rightarrow> nat \<Rightarrow> she_vm \<Rightarrow> she_value" where
  "nat_arg i argc vm = (if i < argc then vm_stack vm ! (vm_sp vm - argc + i) else VNothing)"

definition as_num :: "she_value \<Rightarrow> int" where
  "as_num v = (case v of VNum n \<Rightarrow> n | VReal r \<Rightarrow> r div 2 ^ 32 | VBool b \<Rightarrow> (if b then 1 else 0) | _ \<Rightarrow> 0)"

definition ask_kernel :: "she_request \<Rightarrow> she_vm \<Rightarrow> she_answer \<times> she_vm" where
  "ask_kernel q vm = (vm_world vm (q # vm_log vm), vm\<lparr>vm_log := q # vm_log vm\<rparr>)"

definition ans_num :: "she_answer \<Rightarrow> int" where
  "ans_num a = (case a of ANum n \<Rightarrow> n | _ \<Rightarrow> 0)"

definition ans_bytes :: "she_answer \<Rightarrow> u8 list" where
  "ans_bytes a = (case a of ABytes s \<Rightarrow> s | ANums s ns \<Rightarrow> s | _ \<Rightarrow> [])"

definition ans_nth :: "she_answer \<Rightarrow> nat \<Rightarrow> int" where
  "ans_nth a i = (case a of ANums s ns \<Rightarrow> if i < length ns then ns ! i else 0
                           | ANames ss ns \<Rightarrow> if i < length ns then ns ! i else 0 | _ \<Rightarrow> 0)"

definition ans_name :: "she_answer \<Rightarrow> nat \<Rightarrow> u8 list" where
  "ans_name a i = (case a of ANames ss ns \<Rightarrow> if i < length ss then ss ! i else [] | _ \<Rightarrow> [])"

text \<open>What a builtin returns: a code, the value it leaves, the machine.\<close>

type_synonym nat_result = "stop + int \<times> she_value \<times> she_vm"

definition nat_ok :: "she_value \<Rightarrow> she_vm \<Rightarrow> nat_result" where
  "nat_ok v vm = Inr (0, v, vm)"

definition nat_err :: "she_diag \<Rightarrow> she_vm \<Rightarrow> nat_result" where
  "nat_err d vm = Inr (errno EINVAL, VNothing, she_error d vm)"

definition nat_text_ok :: "u8 list \<Rightarrow> she_vm \<Rightarrow> nat_result" where
  "nat_text_ok s vm = (case she_string_new s vm of (p, vm) \<Rightarrow> nat_ok (VObj Text p) vm)"

section \<open>Text\<close>

definition nat_length :: "nat \<Rightarrow> she_vm \<Rightarrow> nat_result" where
  "nat_length argc vm =
     (case nat_arg 0 argc vm of
        VObj t p \<Rightarrow>
          (case p of
             None \<Rightarrow> nat_ok (VNum 0) vm
           | Some i \<Rightarrow> bind_stop (obj_len (vm_heap vm) p) (\<lambda>len. nat_ok (VNum (int len)) vm))
      | VCap c \<Rightarrow> (if c = 0 then nat_ok (VNum 0) vm else Inl Fault)
      | _ \<Rightarrow> nat_ok (VNum 0) vm)"

definition upper_byte :: "u8 \<Rightarrow> u8" where
  "upper_byte c = (if 97 \<le> c \<and> c \<le> 122 then c - 32 else c)"

definition case_text :: "string \<Rightarrow> (u8 \<Rightarrow> u8) \<Rightarrow> nat \<Rightarrow> she_vm \<Rightarrow> nat_result" where
  "case_text what f argc vm =
     (case nat_arg 0 argc vm of
        VObj Text p \<Rightarrow>
          (let s = she_string_chars (vm_heap vm) p; n = strnlen s 255
           in nat_text_ok (map f (take n s)) vm)
      | v \<Rightarrow> nat_err (DNeeds what (v_type v)) vm)"

definition nat_upper :: "nat \<Rightarrow> she_vm \<Rightarrow> nat_result" where
  "nat_upper argc vm = case_text ''upper'' upper_byte argc vm"

definition nat_lower :: "nat \<Rightarrow> she_vm \<Rightarrow> nat_result" where
  "nat_lower argc vm = case_text ''lower'' lower argc vm"

text \<open>Printed into a buffer, and cut to what the buffer holds.\<close>

definition print_cut :: "nat \<Rightarrow> she_value \<Rightarrow> she_vm \<Rightarrow> stop + u8 list" where
  "print_cut sz v vm = bind_stop (she_value_repr (vm_heap vm) v) (\<lambda>s. Inr (take (sz - 1) s))"

definition nat_text :: "nat \<Rightarrow> she_vm \<Rightarrow> nat_result" where
  "nat_text argc vm = bind_stop (print_cut 512 (nat_arg 0 argc vm) vm) (\<lambda>s. nat_text_ok s vm)"

definition nat_number :: "nat \<Rightarrow> she_vm \<Rightarrow> nat_result" where
  "nat_number argc vm =
     (case nat_arg 0 argc vm of
        VObj Text p \<Rightarrow> nat_ok (VNum (fst (rk_strtos64 (she_string_chars (vm_heap vm) p) 10))) vm
      | v \<Rightarrow> nat_ok (VNum (as_num v)) vm)"

definition nat_contains :: "nat \<Rightarrow> she_vm \<Rightarrow> nat_result" where
  "nat_contains argc vm =
     (let hay = nat_arg 0 argc vm; needle = nat_arg 1 argc vm in
      (case (hay, needle) of
         (VObj Text p, VObj Text q) \<Rightarrow>
           nat_ok (VBool (strstr (she_string_chars (vm_heap vm) p) (she_string_chars (vm_heap vm) q) \<noteq> None)) vm
       | (VObj List p, _) \<Rightarrow>
           bind_stop (obj_len (vm_heap vm) p) (\<lambda>len.
             nat_ok (VBool (\<exists>i \<in> set [0..<len]. she_equal (she_list_get (vm_heap vm) p i) needle)) vm)
       | _ \<Rightarrow> nat_ok (VBool False) vm))"

section \<open>Lists\<close>

definition nat_push :: "nat \<Rightarrow> she_vm \<Rightarrow> nat_result" where
  "nat_push argc vm =
     (case nat_arg 0 argc vm of
        VObj List p \<Rightarrow>
          (case she_list_push p (nat_arg 1 argc vm) vm of (r, vm') \<Rightarrow> nat_ok (VObj List p) vm')
      | v \<Rightarrow> nat_err (DNeeds ''push'' (v_type v)) vm)"

definition sum_item :: "she_value \<Rightarrow> int \<times> int \<times> bool \<Rightarrow> int \<times> int \<times> bool" where
  "sum_item v st =
     (case st of (whole, real, is_real) \<Rightarrow>
        (case v of
           VReal r \<Rightarrow> (whole, s64_wrap (real + r), True)
         | _ \<Rightarrow> (s64_wrap (whole + as_num v), real, is_real)))"

definition nat_sum :: "nat \<Rightarrow> she_vm \<Rightarrow> nat_result" where
  "nat_sum argc vm =
     (case nat_arg 0 argc vm of
        VObj Range p \<Rightarrow>
          (case range_of (vm_heap vm) p of
             None \<Rightarrow> Inl Fault
           | Some (len, a, b, c) \<Rightarrow>
               nat_ok (VNum (fold (\<lambda>i t. s64_wrap (t + she_range_at a c i)) [0..<len] 0)) vm)
      | VObj List p \<Rightarrow>
          bind_stop (obj_len (vm_heap vm) p) (\<lambda>len.
            case fold (\<lambda>i. sum_item (she_list_get (vm_heap vm) p i)) [0..<len] (0, 0, False) of
              (whole, real, is_real) \<Rightarrow>
                nat_ok (if is_real then VReal (s64_wrap (real + kq_shift whole)) else VNum whole) vm)
      | v \<Rightarrow> nat_err (DNeeds ''sum'' (v_type v)) vm)"

text \<open>One call back into the machine. A script function that halts leaves the result unset.\<close>

definition call_one :: "she_natives \<Rightarrow> she_reenter \<Rightarrow> she_value \<Rightarrow> she_value \<Rightarrow> she_vm
    \<Rightarrow> stop + int \<times> she_value option \<times> she_vm" where
  "call_one N R fn arg vm =
     (if v_type fn \<noteq> SHE_FUNCTION \<and> v_type fn \<noteq> SHE_NATIVE then
        Inr (errno EINVAL, None, she_error (DNeeds ''map and filter'' (v_type fn)) vm)
      else she_call_now N R fn [arg] vm)"

text \<open>What \<open>map\<close> and \<open>filter\<close> walk over; its length is read again for every item.\<close>

definition walk_item :: "she_heap \<Rightarrow> she_value \<Rightarrow> nat \<Rightarrow> she_value" where
  "walk_item h l i =
     (case l of
        VObj Range p \<Rightarrow> (case range_of h p of Some (len, a, b, c) \<Rightarrow> VNum (she_range_at a c i) | None \<Rightarrow> VNothing)
      | VObj t p \<Rightarrow> she_list_get h p i
      | _ \<Rightarrow> VNothing)"

definition walk_len :: "she_heap \<Rightarrow> she_value \<Rightarrow> stop + nat" where
  "walk_len h l = (case l of VObj t p \<Rightarrow> obj_len h p | _ \<Rightarrow> Inl Fault)"

text \<open>The loop over the items; the index and the length are 32 bits wide.\<close>

function walk_items :: "(she_value \<Rightarrow> she_vm \<Rightarrow> stop + int \<times> she_value option \<times> she_vm)
    \<Rightarrow> (she_value \<Rightarrow> she_value \<Rightarrow> she_vm \<Rightarrow> she_vm) \<Rightarrow> she_value \<Rightarrow> nat \<Rightarrow> nat \<Rightarrow> she_vm \<Rightarrow> nat_result" where
  "walk_items call keep l res i vm =
     (case walk_len (vm_heap vm) l of
        Inl e \<Rightarrow> Inl e
      | Inr len \<Rightarrow>
          if i < len \<and> i < 2 ^ 32 then
            (let item = walk_item (vm_heap vm) l i in
             case call item vm of
               Inl e \<Rightarrow> Inl e
             | Inr (rc, v, vm) \<Rightarrow>
                 if rc \<noteq> 0 then Inr (rc, VNothing, vm)
                 else (case v of
                         None \<Rightarrow> Inl Fault
                       | Some v \<Rightarrow> walk_items call keep l res (i + 1) (keep item v vm)))
          else nat_ok (VObj List (Some res)) vm)"
  by pat_completeness auto
termination by (relation "measure (\<lambda>(c, k, l, r, i, vm). 2 ^ 32 - i)") auto

declare walk_items.simps [simp del]

definition nat_map :: "she_natives \<Rightarrow> she_reenter \<Rightarrow> nat \<Rightarrow> she_vm \<Rightarrow> nat_result" where
  "nat_map N R argc vm =
     (let l = nat_arg 0 argc vm; f = nat_arg 1 argc vm in
      if v_type l \<noteq> SHE_LIST \<and> v_type l \<noteq> SHE_RANGE then nat_err (DNeeds ''map'' (v_type l)) vm
      else bind_stop (walk_len (vm_heap vm) l) (\<lambda>len.
        (case she_list_new len vm of
           (None, vm) \<Rightarrow> Inr (errno ENOMEM, VNothing, vm)
         | (Some res, vm) \<Rightarrow>
             walk_items (call_one N R f) (\<lambda>item v vm. snd (she_list_push (Some res) v vm)) l res 0 vm)))"

definition nat_filter :: "she_natives \<Rightarrow> she_reenter \<Rightarrow> nat \<Rightarrow> she_vm \<Rightarrow> nat_result" where
  "nat_filter N R argc vm =
     (let l = nat_arg 0 argc vm; f = nat_arg 1 argc vm in
      if v_type l \<noteq> SHE_LIST \<and> v_type l \<noteq> SHE_RANGE then nat_err (DNeeds ''filter'' (v_type l)) vm
      else
        (case she_list_new 0 vm of
           (None, vm) \<Rightarrow> Inr (errno ENOMEM, VNothing, vm)
         | (Some res, vm) \<Rightarrow>
             walk_items (call_one N R f)
               (\<lambda>item v vm. if she_truthy (vm_heap vm) v then snd (she_list_push (Some res) item vm) else vm)
               l res 0 vm))"

section \<open>Numbers and time\<close>

definition nat_abs :: "nat \<Rightarrow> she_vm \<Rightarrow> nat_result" where
  "nat_abs argc vm =
     (case nat_arg 0 argc vm of
        VReal r \<Rightarrow> nat_ok (VReal (if r < 0 then s64_wrap (- r) else r)) vm
      | v \<Rightarrow> nat_ok (VNum (if as_num v < 0 then s64_wrap (- as_num v) else as_num v)) vm)"

definition nat_min :: "nat \<Rightarrow> she_vm \<Rightarrow> nat_result" where
  "nat_min argc vm =
     (let a = as_num (nat_arg 0 argc vm); b = as_num (nat_arg 1 argc vm)
      in nat_ok (VNum (if a < b then a else b)) vm)"

definition nat_max :: "nat \<Rightarrow> she_vm \<Rightarrow> nat_result" where
  "nat_max argc vm =
     (let a = as_num (nat_arg 0 argc vm); b = as_num (nat_arg 1 argc vm)
      in nat_ok (VNum (if b < a then a else b)) vm)"

definition nat_random :: "nat \<Rightarrow> she_vm \<Rightarrow> nat_result" where
  "nat_random argc vm =
     (let lo = (if 0 < argc then as_num (nat_arg 0 argc vm) else 0);
          hi = (if 1 < argc then as_num (nat_arg 1 argc vm) else 100);
          hi = (if hi \<le> lo then s64_wrap (lo + 1) else hi)
      in case ask_kernel QRandom vm of
           (a, vm) \<Rightarrow>
             nat_ok (VNum (s64_wrap (lo + s64_wrap (ans_num a mod 2 ^ 64 mod ((hi - lo) mod 2 ^ 64))))) vm)"

definition nat_now :: "she_vm \<Rightarrow> nat_result" where
  "nat_now vm = (case ask_kernel QUnixTime vm of (a, vm) \<Rightarrow> nat_ok (VNum (s64_wrap (ans_num a))) vm)"

definition nat_uptime :: "she_vm \<Rightarrow> nat_result" where
  "nat_uptime vm = (case ask_kernel QUptime vm of (a, vm) \<Rightarrow> nat_ok (VNum (s64_wrap (ans_num a))) vm)"

definition nat_sleep :: "nat \<Rightarrow> she_vm \<Rightarrow> nat_result" where
  "nat_sleep argc vm =
     (let ms = as_num (nat_arg 0 argc vm); ms = (if 60000 < ms then 60000 else ms)
      in if 0 < ms then (case ask_kernel (QSleep ms) vm of (a, vm) \<Rightarrow> nat_ok VNothing vm)
         else nat_ok VNothing vm)"

section \<open>Files, the graph, the memory fabric, seals, the system\<close>

definition nat_read_file :: "nat \<Rightarrow> she_vm \<Rightarrow> nat_result" where
  "nat_read_file argc vm =
     (case nat_arg 0 argc vm of
        VObj Text p \<Rightarrow>
          (let path = she_string_chars (vm_heap vm) p in
           case ask_kernel (QReadFile path) vm of
             (AError rc, vm) \<Rightarrow> nat_err (DFailed ''read'' path rc) vm
           | (a, vm) \<Rightarrow> nat_text_ok (ans_bytes a) vm)
      | _ \<Rightarrow> nat_err (DNeedsText ''read'') vm)"

definition nat_write_file :: "nat \<Rightarrow> she_vm \<Rightarrow> nat_result" where
  "nat_write_file argc vm =
     (case (nat_arg 0 argc vm, nat_arg 1 argc vm) of
        (VObj Text p, VObj Text q) \<Rightarrow>
          bind_stop (obj_len (vm_heap vm) q) (\<lambda>len.
            let path = she_string_chars (vm_heap vm) p in
            case ask_kernel (QWriteFile path (take len (she_string_chars (vm_heap vm) q))) vm of
              (AError rc, vm) \<Rightarrow> nat_err (DFailed ''write'' path rc) vm
            | (a, vm) \<Rightarrow> nat_ok (VBool True) vm)
      | _ \<Rightarrow> nat_err (DNeedsText ''write'') vm)"

definition nat_graph_digest :: "she_vm \<Rightarrow> nat_result" where
  "nat_graph_digest vm =
     (case ask_kernel QDigest vm of
        (a, vm) \<Rightarrow>
          (case she_text (map asc (rk_hex_encode 65 (ans_bytes a))) vm of (v, vm) \<Rightarrow> nat_ok v vm))"

definition nat_graph_read :: "nat \<Rightarrow> she_vm \<Rightarrow> nat_result" where
  "nat_graph_read argc vm =
     (let what = (case nat_arg 0 argc vm of
                    VObj Text p \<Rightarrow> she_string_chars (vm_heap vm) p
                  | _ \<Rightarrow> map asc ''tree'');
          fmt = (if strcmp what (map asc ''json'') = 0 then ''json''
                 else if strcmp what (map asc ''canon'') = 0 then ''canon''
                 else if strcmp what (map asc ''dot'') = 0 then ''dot'' else ''text'')
      in case ask_kernel (QGraph (map asc fmt)) vm of
           (AError rc, vm) \<Rightarrow> Inr (errno ENOMEM, VNothing, vm)
         | (a, vm) \<Rightarrow> nat_text_ok (take 32767 (ans_bytes a)) vm)"

text \<open>A map is built field by field; a field that finds no room is left out.\<close>

datatype field = FText "u8 list" | FNum int | FReal int

fun field_value :: "field \<Rightarrow> she_vm \<Rightarrow> she_value \<times> she_vm" where
  "field_value (FText s) vm = she_text s vm"
| "field_value (FNum n) vm = (VNum n, vm)"
| "field_value (FReal r) vm = (VReal r, vm)"

fun set_fields :: "nat option \<Rightarrow> (string \<times> field) list \<Rightarrow> she_vm \<Rightarrow> stop + she_vm" where
  "set_fields m [] vm = Inr vm"
| "set_fields m ((k, x) # fs) vm =
     (case she_string_new (map asc k) vm of (kp, vm) \<Rightarrow>
      case field_value x vm of (v, vm) \<Rightarrow>
        bind_stop (she_map_set m kp v vm) (\<lambda>(r, vm). set_fields m fs vm))"

definition nat_fields :: "(string \<times> field) list \<Rightarrow> she_vm \<Rightarrow> nat_result" where
  "nat_fields fs vm =
     (case she_map_new vm of (m, vm) \<Rightarrow>
        bind_stop (set_fields m fs vm) (\<lambda>vm. nat_ok (VObj Map m) vm))"

definition nat_snapshot :: "she_vm \<Rightarrow> nat_result" where
  "nat_snapshot vm =
     (case ask_kernel QSnapshot vm of
        (AError rc, vm) \<Rightarrow>
          (if rc = errno ENOMEM then Inr (rc, VNothing, vm) else nat_err (DFailed ''snapshot'' [] rc) vm)
      | (a, vm) \<Rightarrow>
          nat_fields [(''digest'', FText (map asc (rk_hex_encode 65 (ans_bytes a)))),
                      (''nodes'', FNum (ans_nth a 0)), (''bytes'', FNum (ans_nth a 1)),
                      (''at'', FNum (ans_nth a 2))] vm)"

definition nat_remember :: "nat \<Rightarrow> she_vm \<Rightarrow> nat_result" where
  "nat_remember argc vm =
     (case nat_arg 0 argc vm of
        VObj Text p \<Rightarrow>
          bind_stop (print_cut 512 (nat_arg 1 argc vm) vm) (\<lambda>s.
            case ask_kernel (QPut (she_string_chars (vm_heap vm) p) s) vm of
              (a, vm) \<Rightarrow> nat_ok (VBool (a = ANum 0)) vm)
      | _ \<Rightarrow> nat_err (DNeedsText ''remember'') vm)"

definition nat_recall :: "nat \<Rightarrow> she_vm \<Rightarrow> nat_result" where
  "nat_recall argc vm =
     (case nat_arg 0 argc vm of
        VObj Text p \<Rightarrow>
          (case ask_kernel (QGet (she_string_chars (vm_heap vm) p)) vm of
             (a, vm) \<Rightarrow>
               (let s = take 511 (ans_bytes a)
                in if s = [] then nat_ok VNothing vm else nat_text_ok s vm))
      | _ \<Rightarrow> nat_err (DNeedsText ''recall'') vm)"

definition nat_seal :: "nat \<Rightarrow> she_vm \<Rightarrow> nat_result" where
  "nat_seal argc vm =
     (let life = (if 1 < argc then as_num (nat_arg 1 argc vm) else 60) in
      bind_stop (print_cut 512 (nat_arg 0 argc vm) vm) (\<lambda>s.
        case ask_kernel (QSeal s (if 0 < life then life else 60)) vm of
          (a, vm) \<Rightarrow>
            nat_fields [(''mac'', FText (map asc (rk_hex_encode 65 (ans_bytes a)))),
                        (''epoch'', FNum (ans_nth a 0)), (''until'', FNum (ans_nth a 1))] vm))"

definition nat_clock_angles :: "she_vm \<Rightarrow> nat_result" where
  "nat_clock_angles vm =
     (case ask_kernel QAngles vm of
        (a, vm) \<Rightarrow>
          nat_fields [(''hour_minute'', FReal (ans_nth a 0)), (''minute_second'', FReal (ans_nth a 1)),
                      (''hour_second'', FReal (ans_nth a 2))] vm)"

definition nat_sysinfo :: "she_vm \<Rightarrow> nat_result" where
  "nat_sysinfo vm =
     (case ask_kernel QSystem vm of
        (a, vm) \<Rightarrow>
          nat_fields [(''arch'', FText (ans_name a 0)), (''cpu'', FText (ans_name a 1)),
                      (''cpus'', FNum (ans_nth a 0)), (''memory_free'', FNum (ans_nth a 1)),
                      (''memory_total'', FNum (ans_nth a 2)), (''threads'', FNum (ans_nth a 3)),
                      (''uptime'', FNum (ans_nth a 4))] vm)"

fun push_names :: "nat option \<Rightarrow> u8 list list \<Rightarrow> she_vm \<Rightarrow> she_vm" where
  "push_names l [] vm = vm"
| "push_names l (s # ss) vm =
     (case she_text s vm of (v, vm) \<Rightarrow> push_names l ss (snd (she_list_push l v vm)))"

definition nat_models :: "she_vm \<Rightarrow> nat_result" where
  "nat_models vm =
     (case ask_kernel QModels vm of
        (a, vm) \<Rightarrow>
          (let names = take 16 (case a of ANames ss ns \<Rightarrow> ss | _ \<Rightarrow> []) in
           case she_list_new (length names) vm of
             (l, vm) \<Rightarrow> nat_ok (VObj List l) (push_names l names vm)))"

section \<open>The table\<close>

definition natives_table :: "(string \<times> she_builtin \<times> nat \<times> nat \<times> u32) list" where
  "natives_table =
     [(''length'', NatLength, 1, 1, 0), (''count'', NatLength, 1, 1, 0), (''upper'', NatUpper, 1, 1, 0),
      (''lower'', NatLower, 1, 1, 0), (''text'', NatText, 1, 1, 0), (''number'', NatNumber, 1, 1, 0),
      (''contains'', NatContains, 2, 2, 0), (''push'', NatPush, 2, 2, 0), (''sum'', NatSum, 1, 1, 0),
      (''map'', NatMap, 2, 2, 0), (''filter'', NatFilter, 2, 2, 0), (''abs'', NatAbs, 1, 1, 0),
      (''min'', NatMin, 2, 2, 0), (''max'', NatMax, 2, 2, 0),
      (''random'', NatRandom, 0, 2, 64), (''now'', NatNow, 0, 0, 32), (''uptime'', NatUptime, 0, 0, 32),
      (''sleep'', NatSleep, 1, 1, 32), (''read'', NatReadFile, 1, 1, 1),
      (''write'', NatWriteFile, 2, 2, 2), (''graph'', NatGraphRead, 0, 1, 256),
      (''digest'', NatGraphDigest, 0, 0, 256), (''snapshot'', NatSnapshot, 0, 0, 256),
      (''remember'', NatRemember, 2, 2, 2), (''recall'', NatRecall, 1, 1, 1),
      (''seal'', NatSeal, 1, 2, 1024), (''angles'', NatClockAngles, 0, 0, 32),
      (''system'', NatSysinfo, 0, 0, 256), (''models'', NatModels, 0, 0, 128)]"

definition natives :: "she_native list" where
  "natives = map (\<lambda>(nm, f, lo, hi, need). \<lparr>nt_name = map asc nm, nt_fn = f, nt_min = lo, nt_max = hi,
                                          nt_need = need\<rparr>) natives_table"

text \<open>The functions behind the table's pointers, those that call back apart.\<close>

definition plain_native :: "she_builtin \<Rightarrow> nat \<Rightarrow> she_vm \<Rightarrow> nat_result" where
  "plain_native b argc vm =
     (case b of
        NatLength \<Rightarrow> nat_length argc vm | NatUpper \<Rightarrow> nat_upper argc vm | NatLower \<Rightarrow> nat_lower argc vm
      | NatText \<Rightarrow> nat_text argc vm | NatNumber \<Rightarrow> nat_number argc vm
      | NatContains \<Rightarrow> nat_contains argc vm | NatPush \<Rightarrow> nat_push argc vm | NatSum \<Rightarrow> nat_sum argc vm
      | NatAbs \<Rightarrow> nat_abs argc vm | NatMin \<Rightarrow> nat_min argc vm | NatMax \<Rightarrow> nat_max argc vm
      | NatRandom \<Rightarrow> nat_random argc vm | NatNow \<Rightarrow> nat_now vm | NatUptime \<Rightarrow> nat_uptime vm
      | NatSleep \<Rightarrow> nat_sleep argc vm | NatReadFile \<Rightarrow> nat_read_file argc vm
      | NatWriteFile \<Rightarrow> nat_write_file argc vm | NatGraphRead \<Rightarrow> nat_graph_read argc vm
      | NatGraphDigest \<Rightarrow> nat_graph_digest vm | NatSnapshot \<Rightarrow> nat_snapshot vm
      | NatRemember \<Rightarrow> nat_remember argc vm | NatRecall \<Rightarrow> nat_recall argc vm
      | NatSeal \<Rightarrow> nat_seal argc vm | NatClockAngles \<Rightarrow> nat_clock_angles vm
      | NatSysinfo \<Rightarrow> nat_sysinfo vm | NatModels \<Rightarrow> nat_models vm
      | _ \<Rightarrow> Inl Hang)"

text \<open>
  A builtin called back by \<open>map\<close> or \<open>filter\<close> gets one argument. \<open>map\<close> and \<open>filter\<close> take two, so the
  arity check of \<open>call_native\<close> refuses them there before they are reached.
\<close>

definition called_back :: she_natives where
  "called_back R b argc vm = plain_native b argc vm"

definition she_builtins :: she_natives where
  "she_builtins R b argc vm =
     (case b of
        NatMap \<Rightarrow> nat_map called_back R argc vm
      | NatFilter \<Rightarrow> nat_filter called_back R argc vm
      | _ \<Rightarrow> plain_native b argc vm)"

section \<open>The registry\<close>

definition she_register_native :: "she_native \<Rightarrow> she_native list \<Rightarrow> unit result \<times> she_native list" where
  "she_register_native n registry =
     (if 64 \<le> length registry then (Inl ENOSPC, registry) else (Inr (), registry @ [n]))"

fun she_register_natives :: "she_native list \<Rightarrow> she_native list \<Rightarrow> unit result \<times> she_native list" where
  "she_register_natives [] registry = (Inr (), registry)"
| "she_register_natives (n # ns) registry =
     (case she_register_native n registry of
        (Inl e, registry) \<Rightarrow> (Inl e, registry)
      | (Inr _, registry) \<Rightarrow> she_register_natives ns registry)"

definition she_stdlib_init :: "she_native list" where
  "she_stdlib_init = snd (she_register_natives natives [])"

fun she_stdlib_bind :: "she_native list \<Rightarrow> she_vm \<Rightarrow> stop + she_vm" where
  "she_stdlib_bind [] vm = Inr vm"
| "she_stdlib_bind (n # ns) vm =
     (case she_native_new n vm of
        (None, vm) \<Rightarrow> Inr vm
      | (Some i, vm) \<Rightarrow>
          bind_stop (she_global_set (nt_name n) (VObj Native (Some i)) vm) (\<lambda>(r, vm).
            she_stdlib_bind ns vm))"

end
