(* ===== verification/RK_SheMap.thy ===== *)
theory RK_SheMap
  imports RK_SheValue
begin

text \<open>
  The tables of SHE maps (\<open>map_find\<close>, \<open>map_grow\<close>, \<open>she_map_set\<close>, \<open>she_map_get\<close> of
  \<open>kernel/she/value.c\<close>) as finite maps. A table without tombstones is \<open>table_ok\<close> when every used
  entry can be reached from the home slot of its key over used slots and no key occurs twice; then
  the probe loop finds a key exactly when it is there, and stops whenever some slot is unused.
  \<open>table_map\<close> is the finite map a table stands for. The hash of a key is a parameter.
\<close>

section \<open>Tables\<close>

definition slot_from :: "she_mapent list \<Rightarrow> nat \<Rightarrow> nat \<Rightarrow> nat" where
  "slot_from es idx i = (idx + i) mod length es"

definition home :: "(nat \<Rightarrow> u64) \<Rightarrow> she_mapent list \<Rightarrow> nat \<Rightarrow> nat" where
  "home hs es k = unat (hs k mod of_nat (length es))"

definition find_slot :: "(nat \<Rightarrow> u64) \<Rightarrow> she_mapent list \<Rightarrow> nat \<Rightarrow> nat option" where
  "find_slot hs es k = (if es = [] then None else probe es k (home hs es k) None (length es))"

lemma map_find_slot: "map_find h es k = find_slot (text_hash h) es k"
  by (simp add: map_find_def find_slot_def home_def)

definition no_tombs :: "she_mapent list \<Rightarrow> bool" where
  "no_tombs es \<longleftrightarrow> (\<forall>e \<in> set es. \<not> me_tomb e)"

definition reachable_at :: "(nat \<Rightarrow> u64) \<Rightarrow> she_mapent list \<Rightarrow> nat \<Rightarrow> nat \<Rightarrow> bool" where
  "reachable_at hs es k d \<longleftrightarrow>
     (\<exists>i < length es. d = slot_from es (home hs es k) i
        \<and> (\<forall>j < i. me_used (es ! slot_from es (home hs es k) j)))"

definition table_ok :: "(nat \<Rightarrow> u64) \<Rightarrow> she_mapent list \<Rightarrow> bool" where
  "table_ok hs es \<longleftrightarrow> no_tombs es
     \<and> (\<forall>d < length es. me_used (es ! d) \<longrightarrow>
          (\<exists>k. me_key (es ! d) = Some k \<and> reachable_at hs es k d))
     \<and> (\<forall>d < length es. \<forall>d' < length es. me_used (es ! d) \<longrightarrow> me_used (es ! d') \<longrightarrow>
          me_key (es ! d) = me_key (es ! d') \<longrightarrow> d = d')"

definition table_map :: "she_mapent list \<Rightarrow> nat \<Rightarrow> she_value option" where
  "table_map es k =
     map_option me_val (find (\<lambda>e. me_used e \<and> me_key e = Some k) es)"

definition used_count :: "she_mapent list \<Rightarrow> nat" where
  "used_count es = length (filter me_used es)"

lemma slot_from_less: "es \<noteq> [] \<Longrightarrow> slot_from es idx i < length es"
  by (simp add: slot_from_def)

lemma slot_from_Suc: "slot_from es (Suc idx mod length es) i = slot_from es idx (Suc i)"
  by (simp add: slot_from_def mod_add_left_eq)

lemma home_less: "es \<noteq> [] \<Longrightarrow> length es < 2 ^ 64 \<Longrightarrow> home hs es k < length es"
proof -
  assume es: "es \<noteq> []" "length es < 2 ^ 64"
  have "unat (of_nat (length es) :: u64) = length es"
    using es(2) by (simp add: unsigned_of_nat take_bit_nat_eq_self)
  moreover have "unat (hs k mod of_nat (length es)) < unat (of_nat (length es) :: u64)"
    unfolding unat_mod_distrib using es calculation by simp
  ultimately show ?thesis by (simp add: home_def)
qed

section \<open>The probe loop\<close>

lemma probe_result:
  assumes "no_tombs es" "es \<noteq> []"
  shows "idx < length es \<Longrightarrow> probe es key idx None k = Some d \<Longrightarrow>
    \<exists>i < k. d = slot_from es idx i \<and> (me_used (es ! d) \<longrightarrow> me_key (es ! d) = Some key)
      \<and> (\<forall>j < i. me_used (es ! slot_from es idx j) \<and> me_key (es ! slot_from es idx j) \<noteq> Some key)"
proof (induction k arbitrary: idx)
  case (Suc k)
  have here: "slot_from es idx 0 = idx" using Suc.prems by (simp add: slot_from_def)
  have tomb: "\<not> me_tomb (es ! idx)" using assms(1) Suc.prems(1) by (simp add: no_tombs_def)
  show ?case
  proof (cases "me_used (es ! idx) \<and> me_key (es ! idx) \<noteq> Some key")
    case False
    then have "d = idx" using Suc.prems tomb by (auto simp: Let_def split: if_splits)
    with False here show ?thesis by (intro exI [of _ 0]) auto
  next
    case True
    then have "probe es key ((idx + 1) mod length es) None k = Some d"
      using Suc.prems by (simp add: Let_def)
    with Suc.IH [of "(idx + 1) mod length es"] assms(2)
    obtain i where i: "i < k" "d = slot_from es idx (Suc i)"
        "me_used (es ! d) \<longrightarrow> me_key (es ! d) = Some key"
        "\<forall>j < i. me_used (es ! slot_from es idx (Suc j)) \<and> me_key (es ! slot_from es idx (Suc j)) \<noteq> Some key"
      by (auto simp: slot_from_Suc)
    have "\<forall>j < Suc i. me_used (es ! slot_from es idx j) \<and> me_key (es ! slot_from es idx j) \<noteq> Some key"
      using i(4) True here by (auto simp: less_Suc_eq_0_disj)
    with i show ?thesis by (intro exI [of _ "Suc i"]) auto
  qed
qed simp

lemma probe_stops:
  assumes "no_tombs es" "es \<noteq> []"
  shows "idx < length es \<Longrightarrow> i < k \<Longrightarrow> \<not> me_used (es ! slot_from es idx i) \<Longrightarrow>
    probe es key idx None k \<noteq> None"
proof (induction k arbitrary: idx i)
  case (Suc k)
  have tomb: "\<not> me_tomb (es ! idx)" using assms(1) Suc.prems(1) by (simp add: no_tombs_def)
  show ?case
  proof (cases "me_used (es ! idx) \<and> me_key (es ! idx) \<noteq> Some key")
    case False
    then show ?thesis using tomb by (auto simp: Let_def)
  next
    case True
    then obtain i' where "i = Suc i'" using Suc.prems by (cases i) (auto simp: slot_from_def)
    with Suc.prems Suc.IH [of "(idx + 1) mod length es" i'] assms(2)
    have "probe es key ((idx + 1) mod length es) None k \<noteq> None"
      by (simp add: slot_from_Suc)
    with True show ?thesis by (simp add: Let_def)
  qed
qed simp

text \<open>From any slot, every slot is met within one round.\<close>

lemma slot_met:
  assumes "idx < length es" "d < length es"
  obtains i where "i < length es" "slot_from es idx i = d"
proof (cases "idx \<le> d")
  case True
  with assms that [of "d - idx"] show ?thesis by (simp add: slot_from_def)
next
  case False
  with assms that [of "d + length es - idx"] show ?thesis
    by (simp add: slot_from_def)
qed

lemma find_slot_stops:
  assumes "no_tombs es" "length es < 2 ^ 64" "d < length es" "\<not> me_used (es ! d)"
  shows "find_slot hs es k \<noteq> None"
proof -
  have ne: "es \<noteq> []" using assms(3) by auto
  have idx: "home hs es k < length es" using home_less [OF ne assms(2)] .
  obtain i where "i < length es" "slot_from es (home hs es k) i = d"
    using slot_met [OF idx assms(3)] .
  then show ?thesis using probe_stops [OF assms(1) ne idx, of i] assms(4) ne
    by (simp add: find_slot_def)
qed

lemma find_slot_reachable:
  assumes "no_tombs es" "length es < 2 ^ 64" "find_slot hs es k = Some d"
  shows "d < length es" "reachable_at hs es k d" "me_used (es ! d) \<Longrightarrow> me_key (es ! d) = Some k"
proof -
  have ne: "es \<noteq> []" using assms(3) by (auto simp: find_slot_def)
  have p: "probe es k (home hs es k) None (length es) = Some d"
    using assms(3) ne by (simp add: find_slot_def)
  obtain i where i: "i < length es" "d = slot_from es (home hs es k) i"
      "me_used (es ! d) \<longrightarrow> me_key (es ! d) = Some k"
      "\<forall>j < i. me_used (es ! slot_from es (home hs es k) j)"
    using probe_result [OF assms(1) ne home_less [OF ne assms(2)] p] by blast
  show "d < length es" using i(2) slot_from_less [OF ne] by simp
  show "reachable_at hs es k d" using i by (auto simp: reachable_at_def)
  show "me_used (es ! d) \<Longrightarrow> me_key (es ! d) = Some k" using i(3) by simp
qed

text \<open>An unused answer means that the key is nowhere in the table.\<close>

lemma find_slot_absent:
  assumes ok: "table_ok hs es" and len: "length es < 2 ^ 64"
    and find: "find_slot hs es k = Some d" and unused: "\<not> me_used (es ! d)"
    and d': "d' < length es" "me_used (es ! d')"
  shows "me_key (es ! d') \<noteq> Some k"
proof
  assume key: "me_key (es ! d') = Some k"
  have nt: "no_tombs es" using ok by (simp add: table_ok_def)
  have ne: "es \<noteq> []" using d' by auto
  have p: "probe es k (home hs es k) None (length es) = Some d" using find ne by (simp add: find_slot_def)
  obtain i where i: "i < length es" "d = slot_from es (home hs es k) i"
      "\<forall>j < i. me_used (es ! slot_from es (home hs es k) j) \<and> me_key (es ! slot_from es (home hs es k) j) \<noteq> Some k"
    using probe_result [OF nt ne home_less [OF ne len] p] by blast
  have "reachable_at hs es k d'" using ok d' key by (auto simp: table_ok_def)
  then obtain j where j: "j < length es" "d' = slot_from es (home hs es k) j"
      "\<forall>l < j. me_used (es ! slot_from es (home hs es k) l)"
    by (auto simp: reachable_at_def)
  consider "j < i" | "j = i" | "i < j" by linarith
  then show False using i j key d' unused by cases auto
qed

section \<open>Tables as maps\<close>

lemma table_map_at:
  assumes ok: "table_ok hs es" and d: "d < length es" "me_used (es ! d)" "me_key (es ! d) = Some k"
  shows "table_map es k = Some (me_val (es ! d))"
proof -
  let ?P = "\<lambda>e. me_used e \<and> me_key e = Some k"
  obtain e where e: "find ?P es = Some e" using d by (cases "find ?P es") (auto simp: find_None_iff in_set_conv_nth)
  then obtain d' where d': "d' < length es" "?P (es ! d')" "e = es ! d'"
    by (auto simp: find_Some_iff)
  then have "d' = d" using ok d by (auto simp: table_ok_def)
  with e d' show ?thesis by (simp add: table_map_def)
qed

lemma table_map_none:
  assumes "\<And>d. d < length es \<Longrightarrow> me_used (es ! d) \<Longrightarrow> me_key (es ! d) \<noteq> Some k"
  shows "table_map es k = None"
  using assms by (auto simp: table_map_def find_None_iff in_set_conv_nth)

lemma find_slot_lookup:
  assumes ok: "table_ok hs es" and len: "length es < 2 ^ 64" and find: "find_slot hs es k = Some d"
  shows "table_map es k = (if me_used (es ! d) then Some (me_val (es ! d)) else None)"
proof (cases "me_used (es ! d)")
  case True
  have nt: "no_tombs es" using ok by (simp add: table_ok_def)
  note r = find_slot_reachable [OF nt len find]
  from True r show ?thesis using table_map_at [OF ok r(1) True r(3) [OF True]] by simp
next
  case False
  then show ?thesis using find_slot_absent [OF ok len find False] by (auto intro: table_map_none)
qed

text \<open>Storing a key in the slot found for it.\<close>

definition put_at :: "nat \<Rightarrow> nat \<Rightarrow> she_value \<Rightarrow> she_mapent list \<Rightarrow> she_mapent list" where
  "put_at d k v es = es[d := \<lparr>me_key = Some k, me_val = v, me_used = True, me_tomb = False\<rparr>]"

lemma length_put_at [simp]: "length (put_at d k v es) = length es"
  by (simp add: put_at_def)

lemma put_at_slots [simp]: "slot_from (put_at d k v es) = slot_from es" "home hs (put_at d k v es) = home hs es"
  by (auto simp: slot_from_def home_def fun_eq_iff)

lemma put_at_used: "d < length es \<Longrightarrow> me_used (put_at d k v es ! i) = (i = d \<or> me_used (es ! i))"
  by (cases "i = d") (auto simp: put_at_def)

lemma put_at_key: "d < length es \<Longrightarrow> me_key (put_at d k v es ! i) = (if i = d then Some k else me_key (es ! i))"
  by (auto simp: put_at_def)

lemma table_ok_put:
  assumes ok: "table_ok hs es" and len: "length es < 2 ^ 64" and find: "find_slot hs es k = Some d"
  shows "table_ok hs (put_at d k v es)"
proof -
  have nt: "no_tombs es" using ok by (simp add: table_ok_def)
  note r = find_slot_reachable [OF nt len find]
  have nt': "no_tombs (put_at d k v es)"
    using nt by (auto simp: no_tombs_def put_at_def dest!: set_update_subset_insert [THEN subsetD])
  have mono: "reachable_at hs (put_at d k v es) k' d'" if "reachable_at hs es k' d'" for k' d'
    using that r(1) by (auto simp: reachable_at_def put_at_used)
  have other: "me_key (es ! d') \<noteq> Some k" if "d' < length es" "me_used (es ! d')" "d' \<noteq> d" for d'
  proof (cases "me_used (es ! d)")
    case True
    with r(3) ok that r(1) show ?thesis by (auto simp: table_ok_def)
  next
    case False
    then show ?thesis using find_slot_absent [OF ok len find False that(1,2)] by simp
  qed
  have used: "\<exists>k'. me_key (put_at d k v es ! d') = Some k' \<and> reachable_at hs (put_at d k v es) k' d'"
    if "d' < length es" "me_used (put_at d k v es ! d')" for d'
  proof (cases "d' = d")
    case True
    then show ?thesis using mono [OF r(2)] r(1) by (simp add: put_at_key)
  next
    case False
    with that r(1) obtain k' where "me_key (es ! d') = Some k'" "reachable_at hs es k' d'"
      using ok by (auto simp: table_ok_def put_at_used)
    with False r(1) mono show ?thesis by (auto simp: put_at_key)
  qed
  have unique: "d1 = d2" if "d1 < length es" "d2 < length es" "me_used (put_at d k v es ! d1)"
      "me_used (put_at d k v es ! d2)" "me_key (put_at d k v es ! d1) = me_key (put_at d k v es ! d2)" for d1 d2
    using that ok other r(1)
    by (cases "d1 = d"; cases "d2 = d") (auto simp: put_at_used put_at_key table_ok_def)
  show ?thesis using nt' used unique by (auto simp: table_ok_def)
qed

lemma table_map_put:
  assumes ok: "table_ok hs es" and len: "length es < 2 ^ 64" and find: "find_slot hs es k = Some d"
  shows "table_map (put_at d k v es) = (table_map es)(k \<mapsto> v)"
proof (rule ext)
  fix k'
  have nt: "no_tombs es" using ok by (simp add: table_ok_def)
  note r = find_slot_reachable [OF nt len find]
  note ok' = table_ok_put [OF ok len find, of v]
  have d_val: "me_val (put_at d k v es ! d) = v" using r(1) by (simp add: put_at_def)
  show "table_map (put_at d k v es) k' = ((table_map es)(k \<mapsto> v)) k'"
  proof (cases "k' = k")
    case True
    have "table_map (put_at d k v es) k = Some (me_val (put_at d k v es ! d))"
      using r(1) by (intro table_map_at [OF ok']) (simp_all add: put_at_used put_at_key)
    with True d_val show ?thesis by simp
  next
    case False
    show ?thesis
    proof (cases "\<exists>d' < length es. me_used (es ! d') \<and> me_key (es ! d') = Some k'")
      case True
      then obtain d' where d': "d' < length es" "me_used (es ! d')" "me_key (es ! d') = Some k'" by blast
      have "d' \<noteq> d" using d' r(3) False by auto
      then have "put_at d k v es ! d' = es ! d'" by (simp add: put_at_def)
      with d' False show ?thesis using table_map_at [OF ok d'] table_map_at [OF ok', of d' k']
        by (simp add: put_at_used [OF r(1)] put_at_key [OF r(1)] \<open>d' \<noteq> d\<close>)
    next
      case nowhere: False
      then have "table_map es k' = None" by (intro table_map_none) blast
      moreover have "table_map (put_at d k v es) k' = None"
      proof (rule table_map_none)
        fix e assume "e < length (put_at d k v es)" "me_used (put_at d k v es ! e)"
        with nowhere False r(1) show "me_key (put_at d k v es ! e) \<noteq> Some k'"
          by (cases "e = d") (auto simp: put_at_used put_at_key)
      qed
      ultimately show ?thesis using False by simp
    qed
  qed
qed

lemma used_count_put:
  assumes "d < length es"
  shows "used_count (put_at d k v es) = (if me_used (es ! d) then used_count es else used_count es + 1)"
proof -
  have "es = take d es @ es ! d # drop (Suc d) es" using assms by (rule id_take_nth_drop)
  then have c: "used_count es = length (filter me_used (take d es @ es ! d # drop (Suc d) es))"
    unfolding used_count_def by (rule arg_cong)
  have "put_at d k v es = take d es @ \<lparr>me_key = Some k, me_val = v, me_used = True, me_tomb = False\<rparr> # drop (Suc d) es"
    using assms by (simp add: put_at_def upd_conv_take_nth_drop)
  then show ?thesis using c by (simp add: used_count_def)
qed

lemma unused_slot:
  assumes "used_count es < length es"
  obtains d where "d < length es" "\<not> me_used (es ! d)"
proof -
  have "\<exists>e \<in> set es. \<not> me_used e"
  proof (rule ccontr)
    assume "\<not> (\<exists>e \<in> set es. \<not> me_used e)"
    then have "filter me_used es = es" by (simp add: filter_id_conv)
    with assms show False by (simp add: used_count_def)
  qed
  with that show thesis by (auto simp: in_set_conv_nth)
qed

section \<open>An empty table, and the rehash\<close>

lemma table_ok_fresh: "table_ok hs (replicate n no_ent)"
  by (auto simp: table_ok_def no_tombs_def no_ent_def)

lemma table_map_fresh: "table_map (replicate n no_ent) = Map.empty"
  by (rule ext, rule table_map_none) (simp add: no_ent_def)

lemma used_count_fresh: "used_count (replicate n no_ent) = 0"
  by (simp add: used_count_def no_ent_def)

lemma put_same: "e\<lparr>me_tomb := False\<rparr> = \<lparr>me_key = Some k, me_val = me_val e, me_used = True, me_tomb = False\<rparr>"
  if "me_used e" "me_key e = Some k" for e :: she_mapent
  using that by (cases e) simp

lemma rehash_ok:
  assumes "table_ok (text_hash h) fresh" "length fresh < 2 ^ 64"
    "used_count fresh + length es < length fresh"
    "\<And>e. e \<in> set es \<Longrightarrow> me_used e \<Longrightarrow> \<exists>k. me_key e = Some k \<and> table_map fresh k = None"
    "distinct (map me_key (filter me_used es))"
  obtains fresh' where
    "rehash h fresh es live = Some (fresh', live + used_count es)"
    "table_ok (text_hash h) fresh'" "length fresh' = length fresh"
    "used_count fresh' = used_count fresh + used_count es"
    "table_map fresh' = (\<lambda>k. case table_map es k of None \<Rightarrow> table_map fresh k | Some v \<Rightarrow> Some v)"
    "set fresh' \<subseteq> set fresh \<union> (\<lambda>e. e\<lparr>me_tomb := False\<rparr>) ` {e \<in> set es. me_used e}"
  using assms
proof (induction es arbitrary: fresh live thesis)
  case Nil
  then show ?case by (simp add: table_map_def used_count_def)
next
  case (Cons e es)
  show ?case
  proof (cases "me_used e")
    case False
    have "table_map (e # es) = table_map es" using False by (auto simp: table_map_def)
    moreover have "used_count (e # es) = used_count es" using False by (simp add: used_count_def)
    moreover obtain fresh' where f: "rehash h fresh es live = Some (fresh', live + used_count es)"
      "table_ok (text_hash h) fresh'" "length fresh' = length fresh"
      "used_count fresh' = used_count fresh + used_count es"
      "table_map fresh' = (\<lambda>k. case table_map es k of None \<Rightarrow> table_map fresh k | Some v \<Rightarrow> Some v)"
      "set fresh' \<subseteq> set fresh \<union> (\<lambda>e. e\<lparr>me_tomb := False\<rparr>) ` {e \<in> set es. me_used e}"
      using Cons.IH [of fresh live] Cons.prems(2-6) False by (auto simp del: not_None_eq)
    ultimately show ?thesis using Cons.prems(1) [of fresh'] False by auto
  next
    case True
    obtain k where k: "me_key e = Some k" "table_map fresh k = None" using Cons.prems(5) [of e] True by auto
    obtain d0 where d0: "d0 < length fresh" "\<not> me_used (fresh ! d0)"
      using unused_slot [of fresh] Cons.prems(4) by auto
    have nt: "no_tombs fresh" using Cons.prems(2) by (simp add: table_ok_def)
    obtain d where d: "find_slot (text_hash h) fresh k = Some d"
      using find_slot_stops [OF nt Cons.prems(3) d0] by blast
    note r = find_slot_reachable [OF nt Cons.prems(3) d]
    have unused: "\<not> me_used (fresh ! d)"
      using find_slot_lookup [OF Cons.prems(2,3) d] k(2) by (auto split: if_splits)
    let ?put = "put_at d k (me_val e) fresh"
    have put: "fresh[d := e\<lparr>me_tomb := False\<rparr>] = ?put" using put_same [OF True k(1)] by (simp add: put_at_def)
    have cnt: "used_count ?put = used_count fresh + 1" using used_count_put [OF r(1)] unused by simp
    have tm: "table_map ?put = (table_map fresh)(k \<mapsto> me_val e)" by (rule table_map_put [OF Cons.prems(2,3) d])
    have keys: "\<exists>k'. me_key e' = Some k' \<and> table_map ?put k' = None" if "e' \<in> set es" "me_used e'" for e'
    proof -
      obtain k' where k': "me_key e' = Some k'" "table_map fresh k' = None"
        using Cons.prems(5) [of e'] \<open>e' \<in> set es\<close> \<open>me_used e'\<close> by auto
      have "me_key e' \<in> set (map me_key (filter me_used es))"
        using \<open>e' \<in> set es\<close> \<open>me_used e'\<close> by (simp add: rev_image_eqI)
      then have "k' \<noteq> k" using Cons.prems(6) True k(1) k'(1) by auto
      with k' tm show ?thesis by simp
    qed
    obtain fresh' where f: "rehash h ?put es (live + 1) = Some (fresh', live + 1 + used_count es)"
      "table_ok (text_hash h) fresh'" "length fresh' = length ?put"
      "used_count fresh' = used_count ?put + used_count es"
      "table_map fresh' = (\<lambda>k. case table_map es k of None \<Rightarrow> table_map ?put k | Some v \<Rightarrow> Some v)"
      "set fresh' \<subseteq> set ?put \<union> (\<lambda>e. e\<lparr>me_tomb := False\<rparr>) ` {e \<in> set es. me_used e}"
      using Cons.IH [of ?put "live + 1", OF _ table_ok_put [OF Cons.prems(2,3) d]] Cons.prems(3,4,6) cnt keys True
      by (auto simp del: not_None_eq)
    have "table_map es k = None"
      using Cons.prems(6) True k(1)
      by (auto simp: table_map_def find_None_iff image_iff)
    have "table_map (e # es) = (table_map es)(k \<mapsto> me_val e)"
      using True k(1) by (auto simp: table_map_def fun_eq_iff)
    with \<open>table_map es k = None\<close>
    have "table_map fresh' = (\<lambda>k. case table_map (e # es) k of None \<Rightarrow> table_map fresh k | Some v \<Rightarrow> Some v)"
      using f(5) tm by (intro ext) (simp split: option.split)
    moreover have "set ?put \<subseteq> insert (e\<lparr>me_tomb := False\<rparr>) (set fresh)"
      unfolding put [symmetric] by (rule set_update_subset_insert)
    then have "set fresh' \<subseteq> set fresh \<union> (\<lambda>e. e\<lparr>me_tomb := False\<rparr>) ` {e' \<in> set (e # es). me_used e'}"
      using f(6) True by auto
    moreover have "used_count (e # es) = used_count es + 1" using True by (simp add: used_count_def)
    moreover have "rehash h fresh (e # es) live = Some (fresh', live + used_count (e # es))"
      using f(1) True k d put by (simp add: map_find_slot used_count_def)
    ultimately show ?thesis using f cnt by (intro Cons.prems(1) [of fresh']) auto
  qed
qed

end
