(* ===== verification/Spec2Isabelle.thy ===== *)
theory Spec2Isabelle
  imports RK_KnownAnswers RK_Spinlock RK_Ring RK_CapRefs RK_PmmBoot RK_VfsWhole RK_SchedProps RK_SchedAdmit RK_VmmErrors RK_Int128 RK_IpcProps RK_SheStd RK_SheMap
begin

text \<open>
  A verification development for the RESENTMENT kernel.

  \<^bold>\<open>The program.\<close> A capability kernel in C for three architectures. Below everything are the buddy
  allocator for page frames (\<open>kernel/mm/pmm.c\<close>), ticket spinlocks (\<open>include/rk/spinlock.h\<close>) and the
  cryptographic library (\<open>kernel/crypto\<close>). On them stand Kaalka, a service that seals messages and
  capabilities for a window of time (\<open>kernel/crypto/kaalka.c\<close>), the capability system whose slots
  it seals (\<open>kernel/cap/cap.c\<close>), the scheduler (\<open>kernel/sched/sched.c\<close>), and the virtual file system
  with its ram file system (\<open>kernel/fs/vfs.c\<close>, \<open>kernel/fs/ramfs.c\<close>).

  \<^bold>\<open>The theories.\<close>
  \<^item> \<open>RK_Prelude\<close>: error codes, alignment, C strings, generic lemmas.
  \<^item> \<open>RK_Spinlock\<close>: the ticket lock (\<open>spinlock.h\<close>), any number of CPUs, mutual exclusion and progress.
  \<^item> \<open>RK_Stream\<close>, \<open>RK_Ring\<close>: byte streams as a locale; the ring buffer (\<open>ringbuf.h\<close>) as its provider.
  \<^item> \<open>RK_Calendar\<close>: civil time (\<open>kernel/lib/calendar.c\<close>).
  \<^item> \<open>RK_Hash\<close>, \<open>RK_Cipher\<close>, \<open>RK_Encode\<close>, \<open>RK_KnownAnswers\<close>: SHA-256, HMAC, HKDF, ChaCha20, the random
    generator, checksums, hex and base64 (\<open>kernel/crypto\<close>), with published test vectors.
  \<^item> \<open>RK_Trig\<close>, \<open>RK_Kaalka\<close>: clock angles, transforms, epochs, seals, the replay ledger, envelopes.
  \<^item> \<open>RK_Cap\<close>, \<open>RK_CapSafety\<close>, \<open>RK_CapRefs\<close>: capability operations, what a handle allows, and the
    invariant that a valid slot names a live object over every sequence of operations.
  \<^item> \<open>RK_Pmm\<close>, \<open>RK_Buddy\<close>, \<open>RK_PmmBoot\<close>: the buddy allocator, its invariant as a refinement of an
    allocator of disjoint blocks (two locales), and its start-up from the boot memory map.
  \<^item> \<open>RK_Vfs\<close>, \<open>RK_Ramfs\<close>, \<open>RK_VfsFiles\<close>, \<open>RK_VfsPaths\<close>, \<open>RK_VfsWhole\<close>: path resolution, files, mounts over
    a table of file-system operations; the ram file system; file contents, path containment.
  \<^item> \<open>RK_Sched\<close>, \<open>RK_SchedQueue\<close>, \<open>RK_SchedRun\<close>, \<open>RK_SchedStep\<close>, \<open>RK_SchedProps\<close>,
    \<open>RK_SchedAdmit\<close>: the scheduler, the invariants of its ready lists and processors, its transition
    system, its properties, and the admission of realtime threads.
  \<^item> \<open>RK_Paging\<close>, \<open>RK_PagingTree\<close>, \<open>RK_PagingMap\<close>, \<open>RK_PagingRange\<close>, \<open>RK_PagingProps\<close>: the x86-64 page tables
    (\<open>arch/x86_64/paging.c\<close>) over the frames of \<open>RK_Pmm\<close>; the tables as a tree, what one new entry and
    one new table do to the map it stands for, ranges, and the refinement of \<open>arch_map\<close> and \<open>arch_unmap\<close>.
  \<^item> \<open>RK_Vmm\<close>, \<open>RK_PagingUse\<close>, \<open>RK_VmmAreas\<close>, \<open>RK_VmmProps\<close>, \<open>RK_VmmErrors\<close>: virtual memory (\<open>kernel/mm/vmm.c\<close>):
    its operations; what it relies on in the page tables, as a locale that \<open>RK_Paging\<close> provides; areas that
    stay sorted and apart, and the search for a gap; faults and copies from user memory; where it fails.
  \<^item> \<open>RK_Int128\<close>: 128-bit division (\<open>kernel/lib/int128.c\<close>).
  \<^item> \<open>RK_Sync\<close>, \<open>RK_SyncProps\<close>: mutexes, semaphores, reader-writer locks, completions (\<open>kernel/sync/sync.c\<close>) over
    the wait queues of \<open>RK_Sched\<close>; exclusion over every interleaving; the lost wakeup, once for all of them, in a
    locale.
  \<^item> \<open>RK_Ipc\<close>, \<open>RK_IpcProps\<close>: endpoints, reply handles, channels and notifications (\<open>kernel/ipc/ipc.c\<close>) over
    \<open>RK_Cap\<close> and \<open>RK_Sched\<close>; calls and replies; the channel as a provider of \<open>RK_Stream\<close>.
  \<^item> \<open>RK_String\<close>, \<open>RK_Printf\<close>: the string and memory routines and formatted output (\<open>kernel/lib/string.c\<close>,
    \<open>kernel/lib/printf.c\<close>); \<open>memmove\<close> for every overlap, printed numbers that read back.
  \<^item> \<open>RK_SheValue\<close>, \<open>RK_SheVm\<close>, \<open>RK_SheStd\<close>, \<open>RK_SheMap\<close>: the system language SHE (\<open>kernel/she\<close>): values and
    objects under a memory budget, the machine and its gas, the standard library; maps as finite maps.

  \<^bold>\<open>Conventions.\<close> Integers that wrap are words of their C width; indices and sizes that cannot reach
  the width are naturals. The clock and the CPU number are arguments. A section under a lock is one
  step; where a function drops its lock in between, its parts are separate definitions. Objects on
  the heap are indices into lists, a released object keeps its index. Whether an allocation
  succeeds is an argument. C strings are character lists without the terminator. Padding bytes of
  structures that are hashed are zero. Log output is left out.

  \<^bold>\<open>Fuel and termination.\<close> Crossing a chain of mounts is bounded by the number of vnodes (a longer
  chain would be a cycle); the doubling loop of \<open>ramfs_grow\<close> may not end and is a partial function,
  proved to end below two to the 63 and not to end above. All other recursion is total.

  \<^bold>\<open>Not modelled.\<close> Architecture ports, device drivers and console output act on hardware. The
  floating-point kernels of the AI runtime have no exact model here. The runtime graph is written by the other components and read by none. The SHE compiler, the system-call
  table and the program loader dispatch to operations that are modelled.
\<close>

end
